(* ===== verification/Prelude.thy ===== *)
theory Prelude
  imports Main "HOL-Library.Word" "HOL-Library.Multiset"
begin

text \<open>
  Shared vocabulary of the development: the machine-integer types of the C sources, the
  library's error enumeration, the result type that separates a normal return, an error
  return and a broken assertion or an out-of-bounds read, the custom allocator as the
  library sees it, and generic lemmas on words and lists that the component theories use.
\<close>

unbundle bit_operations_syntax

section \<open>Machine integers\<close>

type_synonym u8 = "8 word"
type_synonym u16 = "16 word"
type_synonym u32 = "32 word"
type_synonym u64 = "64 word"

text \<open>\<open>bytes\<close> is a run of memory, first byte first.\<close>

type_synonym bytes = "u8 list"

abbreviation UINT64_MAX :: u64 where
  "UINT64_MAX \<equiv> 0xFFFFFFFFFFFFFFFF"

named_theorems range_simps \<open>unfolding of range operations to comparisons of offsets\<close>
named_theorems codec_simps \<open>reading back what an encoder wrote\<close>
named_theorems result_simps \<open>inversion of the result type\<close>

section \<open>Error codes\<close>

text \<open>\<^verbatim>\<open>ngtcp2_lib_error\<close> of \<^verbatim>\<open>lib/includes/ngtcp2/ngtcp2.h\<close>.\<close>

datatype ngtcp2_lib_error =
    NGTCP2_ERR_INVALID_ARGUMENT
  | NGTCP2_ERR_UNKNOWN_PKT_TYPE
  | NGTCP2_ERR_NOBUF
  | NGTCP2_ERR_BAD_PKT_HASH
  | NGTCP2_ERR_PROTO
  | NGTCP2_ERR_INVALID_STATE
  | NGTCP2_ERR_ACK_FRAME
  | NGTCP2_ERR_STREAM_ID_BLOCKED
  | NGTCP2_ERR_STREAM_IN_USE
  | NGTCP2_ERR_STREAM_DATA_BLOCKED
  | NGTCP2_ERR_FLOW_CONTROL
  | NGTCP2_ERR_PKT_TIMEOUT
  | NGTCP2_ERR_STREAM_ID
  | NGTCP2_ERR_FINAL_OFFSET
  | NGTCP2_ERR_TLS_HANDSHAKE
  | NGTCP2_ERR_PKT_NUM_EXHAUSTED
  | NGTCP2_ERR_REQUIRED_TRANSPORT_PARAM
  | NGTCP2_ERR_MALFORMED_TRANSPORT_PARAM
  | NGTCP2_ERR_FRAME_FORMAT
  | NGTCP2_ERR_TLS_DECRYPT
  | NGTCP2_ERR_STREAM_SHUT_WR
  | NGTCP2_ERR_STREAM_NOT_FOUND
  | NGTCP2_ERR_VERSION_NEGOTIATION
  | NGTCP2_ERR_TLS_FATAL_ALERT_GENERATED
  | NGTCP2_ERR_TLS_FATAL_ALERT_RECEIVED
  | NGTCP2_ERR_STREAM_STATE
  | NGTCP2_ERR_NOKEY
  | NGTCP2_ERR_EARLY_DATA_REJECTED
  | NGTCP2_ERR_FATAL
  | NGTCP2_ERR_NOMEM
  | NGTCP2_ERR_CALLBACK_FAILURE
  | NGTCP2_ERR_INTERNAL

fun lib_error_code :: "ngtcp2_lib_error \<Rightarrow> int" where
  "lib_error_code NGTCP2_ERR_INVALID_ARGUMENT = -201"
| "lib_error_code NGTCP2_ERR_UNKNOWN_PKT_TYPE = -202"
| "lib_error_code NGTCP2_ERR_NOBUF = -203"
| "lib_error_code NGTCP2_ERR_BAD_PKT_HASH = -204"
| "lib_error_code NGTCP2_ERR_PROTO = -205"
| "lib_error_code NGTCP2_ERR_INVALID_STATE = -206"
| "lib_error_code NGTCP2_ERR_ACK_FRAME = -207"
| "lib_error_code NGTCP2_ERR_STREAM_ID_BLOCKED = -208"
| "lib_error_code NGTCP2_ERR_STREAM_IN_USE = -209"
| "lib_error_code NGTCP2_ERR_STREAM_DATA_BLOCKED = -210"
| "lib_error_code NGTCP2_ERR_FLOW_CONTROL = -211"
| "lib_error_code NGTCP2_ERR_PKT_TIMEOUT = -212"
| "lib_error_code NGTCP2_ERR_STREAM_ID = -213"
| "lib_error_code NGTCP2_ERR_FINAL_OFFSET = -214"
| "lib_error_code NGTCP2_ERR_TLS_HANDSHAKE = -215"
| "lib_error_code NGTCP2_ERR_PKT_NUM_EXHAUSTED = -216"
| "lib_error_code NGTCP2_ERR_REQUIRED_TRANSPORT_PARAM = -217"
| "lib_error_code NGTCP2_ERR_MALFORMED_TRANSPORT_PARAM = -218"
| "lib_error_code NGTCP2_ERR_FRAME_FORMAT = -219"
| "lib_error_code NGTCP2_ERR_TLS_DECRYPT = -220"
| "lib_error_code NGTCP2_ERR_STREAM_SHUT_WR = -221"
| "lib_error_code NGTCP2_ERR_STREAM_NOT_FOUND = -222"
| "lib_error_code NGTCP2_ERR_VERSION_NEGOTIATION = -223"
| "lib_error_code NGTCP2_ERR_TLS_FATAL_ALERT_GENERATED = -224"
| "lib_error_code NGTCP2_ERR_TLS_FATAL_ALERT_RECEIVED = -225"
| "lib_error_code NGTCP2_ERR_STREAM_STATE = -226"
| "lib_error_code NGTCP2_ERR_NOKEY = -227"
| "lib_error_code NGTCP2_ERR_EARLY_DATA_REJECTED = -228"
| "lib_error_code NGTCP2_ERR_FATAL = -500"
| "lib_error_code NGTCP2_ERR_NOMEM = -501"
| "lib_error_code NGTCP2_ERR_CALLBACK_FAILURE = -502"
| "lib_error_code NGTCP2_ERR_INTERNAL = -503"

section \<open>Results\<close>

text \<open>
  \<open>Ok x\<close>: the function returned normally; \<open>Err e\<close>: it returned the (negative) error code
  \<open>e\<close>; \<open>Fault\<close>: a C \<open>assert\<close> failed or memory outside the object was read. No caller can
  observe a \<open>Fault\<close> as a value: safety theorems state that it does not occur.
\<close>

datatype 'a result = Ok 'a | Err ngtcp2_lib_error | Fault

fun rbind :: "'a result \<Rightarrow> ('a \<Rightarrow> 'b result) \<Rightarrow> 'b result" where
  "rbind (Ok x) f = f x"
| "rbind (Err e) f = Err e"
| "rbind Fault f = Fault"

text \<open>\<open>c_assert b k\<close>: continue with \<open>k\<close> when the asserted condition holds.\<close>

definition c_assert :: "bool \<Rightarrow> 'a result \<Rightarrow> 'a result" where
  "c_assert b k = (if b then k else Fault)"

text \<open>\<open>ret_if b e k\<close>: return the error \<open>e\<close> when \<open>b\<close> holds, else continue with \<open>k\<close>.\<close>

definition ret_if :: "bool \<Rightarrow> ngtcp2_lib_error \<Rightarrow> 'a result \<Rightarrow> 'a result" where
  "ret_if b e k = (if b then Err e else k)"

lemma rbind_Ok_iff [result_simps]: "rbind m f = Ok y \<longleftrightarrow> (\<exists>x. m = Ok x \<and> f x = Ok y)"
  by (cases m) auto

lemma rbind_Fault_iff [result_simps]:
  "rbind m f = Fault \<longleftrightarrow> m = Fault \<or> (\<exists>x. m = Ok x \<and> f x = Fault)"
  by (cases m) auto

lemma rbind_Err_iff [result_simps]:
  "rbind m f = Err e \<longleftrightarrow> m = Err e \<or> (\<exists>x. m = Ok x \<and> f x = Err e)"
  by (cases m) auto

lemma c_assert_Ok_iff [result_simps]: "c_assert b k = Ok y \<longleftrightarrow> b \<and> k = Ok y"
  by (simp add: c_assert_def)

lemma c_assert_Fault_iff [result_simps]: "c_assert b k = Fault \<longleftrightarrow> \<not> b \<or> k = Fault"
  by (simp add: c_assert_def)

lemma c_assert_Err_iff [result_simps]: "c_assert b k = Err e \<longleftrightarrow> b \<and> k = Err e"
  by (simp add: c_assert_def)

lemma c_assert_True [simp]: "b \<Longrightarrow> c_assert b k = k"
  by (simp add: c_assert_def)

lemma ret_if_Ok_iff [result_simps]: "ret_if b e k = Ok y \<longleftrightarrow> \<not> b \<and> k = Ok y"
  by (simp add: ret_if_def)

lemma ret_if_Fault_iff [result_simps]: "ret_if b e k = Fault \<longleftrightarrow> \<not> b \<and> k = Fault"
  by (simp add: ret_if_def)

lemma ret_if_Err_iff [result_simps]: "ret_if b e k = Err e' \<longleftrightarrow> b \<and> e = e' \<or> \<not> b \<and> k = Err e'"
  by (auto simp: ret_if_def)

lemma ret_if_False [simp]: "\<not> b \<Longrightarrow> ret_if b e k = k"
  by (simp add: ret_if_def)

lemma ret_if_True [simp]: "b \<Longrightarrow> ret_if b e k = Err e"
  by (simp add: ret_if_def)

text \<open>
  The return value of an operation that returns \<open>0\<close> (\<open>None\<close>) or an error code and that may
  change its object on both paths.
\<close>

type_synonym rc = "ngtcp2_lib_error option"

section \<open>The custom allocator\<close>

text \<open>
  \<^verbatim>\<open>ngtcp2_mem\<close> holds function pointers supplied by the application; the library only
  observes whether an allocation returned NULL. The allocator is therefore the list of the
  outcomes of the next allocations (an exhausted list means success), and every theorem
  quantifies over it. \<^verbatim>\<open>ngtcp2_mem_malloc\<close>, \<^verbatim>\<open>ngtcp2_mem_calloc\<close> and
  \<^verbatim>\<open>ngtcp2_mem_realloc\<close> of \<^verbatim>\<open>lib/ngtcp2_mem.c\<close> forward to it.
\<close>

type_synonym ngtcp2_mem = "bool list"

fun ngtcp2_mem_malloc :: "ngtcp2_mem \<Rightarrow> bool \<times> ngtcp2_mem" where
  "ngtcp2_mem_malloc [] = (True, [])"
| "ngtcp2_mem_malloc (b # m) = (b, m)"

definition ngtcp2_mem_calloc :: "ngtcp2_mem \<Rightarrow> bool \<times> ngtcp2_mem" where
  "ngtcp2_mem_calloc m = ngtcp2_mem_malloc m"

definition ngtcp2_mem_realloc :: "ngtcp2_mem \<Rightarrow> bool \<times> ngtcp2_mem" where
  "ngtcp2_mem_realloc m = ngtcp2_mem_malloc m"

section \<open>Words and lists\<close>

lemma word_less_Suc_unat [range_simps]: "(a::'a::len word) < b \<longleftrightarrow> unat a < unat b"
  by (rule word_less_nat_alt)

lemma word_le_unat [range_simps]: "(a::'a::len word) \<le> b \<longleftrightarrow> unat a \<le> unat b"
  by (rule word_le_nat_alt)

lemma unat_diff_le: "(b::'a::len word) \<le> a \<Longrightarrow> unat (a - b) = unat a - unat b"
  by (rule unat_sub)

lemma unat_u64_less [simp]: "unat (w::u64) < 18446744073709551616"
  using unsigned_less [of w] by simp

lemma UINT64_MAX_max [simp]: "(x::u64) \<le> UINT64_MAX"
  using unat_u64_less [of x] by (simp add: word_le_nat_alt del: unat_u64_less)

lemma unat_of_nat_small: "n < 2 ^ LENGTH('a) \<Longrightarrow> unat (of_nat n :: 'a::len word) = n"
  by (simp add: unsigned_of_nat take_bit_nat_eq_self)

lemma unat_add_small: "unat (a::u64) + unat b < 2 ^ 64 \<Longrightarrow> unat (a + b) = unat a + unat b"
  by (simp add: unat_word_ariths)

text \<open>Incrementing an offset that lies below another one does not wrap.\<close>

lemma unat_inc: "(q::u64) < e \<Longrightarrow> unat (q + 1) = Suc (unat q)"
  using unat_u64_less [of e] by (simp add: word_less_nat_alt unat_word_ariths del: unat_u64_less)

lemma inc_le_iff: "(q::u64) < e \<Longrightarrow> q + 1 \<le> x \<longleftrightarrow> q < x"
  using unat_inc [of q e] by (simp add: word_less_nat_alt word_le_nat_alt Suc_le_eq)

lemma less_inc_iff: "(q::u64) < e \<Longrightarrow> x < q + 1 \<longleftrightarrow> x \<le> q"
  using unat_inc [of q e] by (simp add: word_less_nat_alt word_le_nat_alt less_Suc_eq_le)

lemma less_inc: "(q::u64) < e \<Longrightarrow> q < q + 1"
  using inc_le_iff [of q e "q + 1"] by simp

lemma unat_u8_less [simp]: "unat (w::u8) < 256"
  using unsigned_less [of w] by simp

lemma unat_u16_less: "unat (w::u16) < 65536"
  using unsigned_less [of w] by simp

text \<open>Widening conversions keep the value.\<close>

lemma unat_ucast_up: "LENGTH('a) \<le> LENGTH('b) \<Longrightarrow> unat (ucast (w::'a::len word) :: 'b::len word) = unat w"
proof -
  assume "LENGTH('a) \<le> LENGTH('b)"
  then have "(2::nat) ^ LENGTH('a) \<le> 2 ^ LENGTH('b)" by (intro power_increasing) auto
  then have "unat w < 2 ^ LENGTH('b)" by (rule less_le_trans [OF unsigned_less])
  then show ?thesis by (simp only: unsigned_ucast_eq take_bit_nat_eq_self)
qed

lemma unat_ucast_wide [simp]:
  "unat (ucast (a::u8) :: u64) = unat a" "unat (ucast (a::u8) :: u32) = unat a"
  "unat (ucast (a::u8) :: u16) = unat a" "unat (ucast (b::u16) :: u64) = unat b"
  "unat (ucast (b::u16) :: u32) = unat b" "unat (ucast (c::u32) :: u64) = unat c"
  by (simp_all add: unat_ucast_up)

lemma ucast_ucast_wide [simp]:
  "ucast (ucast (a::u8) :: u64) = a" "ucast (ucast (b::u16) :: u64) = b"
  "ucast (ucast (c::u32) :: u64) = c"
  by (auto intro!: bit_word_eqI simp: bit_simps)

text \<open>Narrowing conversions keep values that fit.\<close>

lemma unat_ucast_down: "unat (w::'a::len word) < 2 ^ LENGTH('b) \<Longrightarrow> unat (ucast w :: 'b::len word) = unat w"
  by (simp add: unsigned_ucast_eq take_bit_nat_eq_self)

lemma length_2_conv: "length xs = 2 \<longleftrightarrow> (\<exists>a b. xs = [a, b])"
  by (auto simp: numeral_eq_Suc length_Suc_conv)

lemma length_4_conv: "length xs = 4 \<longleftrightarrow> (\<exists>a b c d. xs = [a, b, c, d])"
  by (auto simp: numeral_eq_Suc length_Suc_conv)

lemma length_8_conv: "length xs = 8 \<longleftrightarrow> (\<exists>a b c d e f g h. xs = [a, b, c, d, e, f, g, h])"
  by (auto simp: numeral_eq_Suc length_Suc_conv)

end
