(* ===== verification/Err.thy ===== *)
theory Err
  imports Prelude
begin

text \<open>
  \<^verbatim>\<open>lib/ngtcp2_err.c\<close>: the names of the library's error codes, the classification of fatal
  errors, and the transport error code that is sent to the peer for a library error. Library
  errors are negative integers, \<open>0\<close> is success.
\<close>

datatype ngtcp2_transport_error =
    NGTCP2_NO_ERROR
  | NGTCP2_INTERNAL_ERROR
  | NGTCP2_FLOW_CONTROL_ERROR
  | NGTCP2_STREAM_ID_ERROR
  | NGTCP2_STREAM_STATE_ERROR
  | NGTCP2_FINAL_OFFSET_ERROR
  | NGTCP2_FRAME_FORMAT_ERROR
  | NGTCP2_TRANSPORT_PARAMETER_ERROR
  | NGTCP2_VERSION_NEGOTIATION_ERROR
  | NGTCP2_PROTOCOL_VIOLATION
  | NGTCP2_UNSOLICITED_PONG
  | NGTCP2_TLS_HANDSHAKE_FAILED
  | NGTCP2_TLS_FATAL_ALERT_GENERATED
  | NGTCP2_TLS_FATAL_ALERT_RECEIVED

fun transport_error_code :: "ngtcp2_transport_error \<Rightarrow> u16" where
  "transport_error_code NGTCP2_NO_ERROR = 0x0"
| "transport_error_code NGTCP2_INTERNAL_ERROR = 0x1"
| "transport_error_code NGTCP2_FLOW_CONTROL_ERROR = 0x3"
| "transport_error_code NGTCP2_STREAM_ID_ERROR = 0x4"
| "transport_error_code NGTCP2_STREAM_STATE_ERROR = 0x5"
| "transport_error_code NGTCP2_FINAL_OFFSET_ERROR = 0x6"
| "transport_error_code NGTCP2_FRAME_FORMAT_ERROR = 0x7"
| "transport_error_code NGTCP2_TRANSPORT_PARAMETER_ERROR = 0x8"
| "transport_error_code NGTCP2_VERSION_NEGOTIATION_ERROR = 0x9"
| "transport_error_code NGTCP2_PROTOCOL_VIOLATION = 0xa"
| "transport_error_code NGTCP2_UNSOLICITED_PONG = 0xb"
| "transport_error_code NGTCP2_TLS_HANDSHAKE_FAILED = 0x201"
| "transport_error_code NGTCP2_TLS_FATAL_ALERT_GENERATED = 0x202"
| "transport_error_code NGTCP2_TLS_FATAL_ALERT_RECEIVED = 0x203"

definition ngtcp2_strerror :: "int \<Rightarrow> string" where
  "ngtcp2_strerror liberr =
     (if liberr = 0 then ''NO_ERROR''
      else if liberr = lib_error_code NGTCP2_ERR_INVALID_ARGUMENT then ''ERR_INVALID_ARGUMENT''
      else if liberr = lib_error_code NGTCP2_ERR_UNKNOWN_PKT_TYPE then ''ERR_UNKNOWN_PKT_TYPE''
      else if liberr = lib_error_code NGTCP2_ERR_NOBUF then ''ERR_NOBUF''
      else if liberr = lib_error_code NGTCP2_ERR_BAD_PKT_HASH then ''ERR_BAD_PKT_HASH''
      else if liberr = lib_error_code NGTCP2_ERR_PROTO then ''ERR_PROTO''
      else if liberr = lib_error_code NGTCP2_ERR_INVALID_STATE then ''ERR_INVALID_STATE''
      else if liberr = lib_error_code NGTCP2_ERR_ACK_FRAME then ''ERR_ACK_FRAME''
      else if liberr = lib_error_code NGTCP2_ERR_STREAM_ID_BLOCKED then ''ERR_STREAM_ID_BLOCKED''
      else if liberr = lib_error_code NGTCP2_ERR_STREAM_IN_USE then ''ERR_STREAM_IN_USE''
      else if liberr = lib_error_code NGTCP2_ERR_STREAM_DATA_BLOCKED then ''ERR_STREAM_DATA_BLOCKED''
      else if liberr = lib_error_code NGTCP2_ERR_FLOW_CONTROL then ''ERR_FLOW_CONTROL''
      else if liberr = lib_error_code NGTCP2_ERR_PKT_TIMEOUT then ''ERR_PKT_TIMEOUT''
      else if liberr = lib_error_code NGTCP2_ERR_STREAM_ID then ''ERR_STREAM_ID''
      else if liberr = lib_error_code NGTCP2_ERR_FINAL_OFFSET then ''ERR_FINAL_OFFSET''
      else if liberr = lib_error_code NGTCP2_ERR_PKT_NUM_EXHAUSTED then ''ERR_PKT_NUM_EXHAUSTED''
      else if liberr = lib_error_code NGTCP2_ERR_NOMEM then ''ERR_NOMEM''
      else if liberr = lib_error_code NGTCP2_ERR_TLS_HANDSHAKE then ''ERR_TLS_HANDSHAKE''
      else if liberr = lib_error_code NGTCP2_ERR_REQUIRED_TRANSPORT_PARAM then ''ERR_REQUIRED_TRANSPORT_PARAM''
      else if liberr = lib_error_code NGTCP2_ERR_MALFORMED_TRANSPORT_PARAM then ''ERR_MALFORMED_TRANSPORT_PARAM''
      else if liberr = lib_error_code NGTCP2_ERR_FRAME_FORMAT then ''ERR_FRAME_FORMAT''
      else if liberr = lib_error_code NGTCP2_ERR_TLS_DECRYPT then ''ERR_TLS_DECRYPT''
      else if liberr = lib_error_code NGTCP2_ERR_STREAM_SHUT_WR then ''ERR_STREAM_SHUT_WR''
      else if liberr = lib_error_code NGTCP2_ERR_STREAM_NOT_FOUND then ''ERR_STREAM_NOT_FOUND''
      else if liberr = lib_error_code NGTCP2_ERR_VERSION_NEGOTIATION then ''ERR_VERSION_NEGOTIATION''
      else if liberr = lib_error_code NGTCP2_ERR_TLS_FATAL_ALERT_GENERATED then ''ERR_TLS_FATAL_ALERT_GENERATED''
      else if liberr = lib_error_code NGTCP2_ERR_TLS_FATAL_ALERT_RECEIVED then ''ERR_TLS_FATAL_ALERT_RECEIVED''
      else if liberr = lib_error_code NGTCP2_ERR_STREAM_STATE then ''ERR_STREAM_STATE''
      else if liberr = lib_error_code NGTCP2_ERR_NOKEY then ''ERR_NOKEY''
      else if liberr = lib_error_code NGTCP2_ERR_EARLY_DATA_REJECTED then ''ERR_EARLY_DATA_REJECTED''
      else if liberr = lib_error_code NGTCP2_ERR_CALLBACK_FAILURE then ''ERR_CALLBACK_FAILURE''
      else if liberr = lib_error_code NGTCP2_ERR_INTERNAL then ''ERR_INTERNAL''
      else ''UNKNOWN'')"

definition ngtcp2_err_fatal :: "int \<Rightarrow> bool" where
  "ngtcp2_err_fatal liberr \<longleftrightarrow> liberr \<ge> lib_error_code NGTCP2_ERR_FATAL"

definition ngtcp2_err_infer_quic_transport_error_code :: "int \<Rightarrow> u16" where
  "ngtcp2_err_infer_quic_transport_error_code liberr = transport_error_code
     (if liberr = 0 then NGTCP2_NO_ERROR
      else if liberr = lib_error_code NGTCP2_ERR_ACK_FRAME \<or> liberr = lib_error_code NGTCP2_ERR_FRAME_FORMAT
        then NGTCP2_FRAME_FORMAT_ERROR
      else if liberr = lib_error_code NGTCP2_ERR_FLOW_CONTROL then NGTCP2_FLOW_CONTROL_ERROR
      else if liberr = lib_error_code NGTCP2_ERR_STREAM_ID then NGTCP2_STREAM_ID_ERROR
      else if liberr = lib_error_code NGTCP2_ERR_FINAL_OFFSET then NGTCP2_FINAL_OFFSET_ERROR
      else if liberr = lib_error_code NGTCP2_ERR_REQUIRED_TRANSPORT_PARAM
        then NGTCP2_TRANSPORT_PARAMETER_ERROR
      else if liberr = lib_error_code NGTCP2_ERR_INVALID_ARGUMENT then NGTCP2_INTERNAL_ERROR
      else if liberr = lib_error_code NGTCP2_ERR_TLS_HANDSHAKE then NGTCP2_TLS_HANDSHAKE_FAILED
      else if liberr = lib_error_code NGTCP2_ERR_TLS_FATAL_ALERT_GENERATED
        then NGTCP2_TLS_FATAL_ALERT_GENERATED
      else if liberr = lib_error_code NGTCP2_ERR_TLS_FATAL_ALERT_RECEIVED
        then NGTCP2_TLS_FATAL_ALERT_RECEIVED
      else if liberr = lib_error_code NGTCP2_ERR_STREAM_STATE then NGTCP2_STREAM_STATE_ERROR
      else if liberr = lib_error_code NGTCP2_ERR_VERSION_NEGOTIATION then NGTCP2_VERSION_NEGOTIATION_ERROR
      else NGTCP2_PROTOCOL_VIOLATION)"

text \<open>All errors of the library.\<close>

abbreviation lib_errors :: "ngtcp2_lib_error list" where
  "lib_errors \<equiv>
    [NGTCP2_ERR_INVALID_ARGUMENT, NGTCP2_ERR_UNKNOWN_PKT_TYPE, NGTCP2_ERR_NOBUF,
     NGTCP2_ERR_BAD_PKT_HASH, NGTCP2_ERR_PROTO, NGTCP2_ERR_INVALID_STATE, NGTCP2_ERR_ACK_FRAME,
     NGTCP2_ERR_STREAM_ID_BLOCKED, NGTCP2_ERR_STREAM_IN_USE, NGTCP2_ERR_STREAM_DATA_BLOCKED,
     NGTCP2_ERR_FLOW_CONTROL, NGTCP2_ERR_PKT_TIMEOUT, NGTCP2_ERR_STREAM_ID,
     NGTCP2_ERR_FINAL_OFFSET, NGTCP2_ERR_TLS_HANDSHAKE, NGTCP2_ERR_PKT_NUM_EXHAUSTED,
     NGTCP2_ERR_REQUIRED_TRANSPORT_PARAM, NGTCP2_ERR_MALFORMED_TRANSPORT_PARAM,
     NGTCP2_ERR_FRAME_FORMAT, NGTCP2_ERR_TLS_DECRYPT, NGTCP2_ERR_STREAM_SHUT_WR,
     NGTCP2_ERR_STREAM_NOT_FOUND, NGTCP2_ERR_VERSION_NEGOTIATION,
     NGTCP2_ERR_TLS_FATAL_ALERT_GENERATED, NGTCP2_ERR_TLS_FATAL_ALERT_RECEIVED,
     NGTCP2_ERR_STREAM_STATE, NGTCP2_ERR_NOKEY, NGTCP2_ERR_EARLY_DATA_REJECTED,
     NGTCP2_ERR_FATAL, NGTCP2_ERR_NOMEM, NGTCP2_ERR_CALLBACK_FAILURE, NGTCP2_ERR_INTERNAL]"

lemma lib_errors_all: "e \<in> set lib_errors"
  by (cases e) simp_all

lemma strerror_distinct: "distinct (map (\<lambda>e. ngtcp2_strerror (lib_error_code e)) lib_errors)"
  by code_simp

lemma strerror_inj: "ngtcp2_strerror (lib_error_code e) = ngtcp2_strerror (lib_error_code f) \<longleftrightarrow> e = f"
proof
  have inj: "inj_on (\<lambda>e. ngtcp2_strerror (lib_error_code e)) (set lib_errors)"
    using strerror_distinct unfolding distinct_map by blast
  show "ngtcp2_strerror (lib_error_code e) = ngtcp2_strerror (lib_error_code f) \<Longrightarrow> e = f"
    by (rule inj_onD [OF inj _ lib_errors_all lib_errors_all])
qed simp

section \<open>Properties\<close>

text \<open>
  Error names identify errors: every error of the library except the threshold
  NGTCP2\_ERR\_FATAL has a name, different errors have different names, no error is named like
  success, and only success is turned into the transport error code 0.
\<close>

theorem strerror_identifies:
  "(ngtcp2_strerror (lib_error_code e) = ngtcp2_strerror (lib_error_code f) \<longleftrightarrow> e = f) \<and>
   (ngtcp2_strerror (lib_error_code e) = ''UNKNOWN'' \<longleftrightarrow> e = NGTCP2_ERR_FATAL) \<and>
   ngtcp2_strerror (lib_error_code e) \<noteq> ngtcp2_strerror 0 \<and>
   ngtcp2_err_infer_quic_transport_error_code (lib_error_code e) \<noteq> ngtcp2_err_infer_quic_transport_error_code 0"
  unfolding strerror_inj
  by (cases e) (simp_all add: ngtcp2_strerror_def ngtcp2_err_infer_quic_transport_error_code_def)

text \<open>
  C39. A defect of \<open>ngtcp2_err_fatal\<close>: the comparison with the threshold is the wrong way round. The errors
  below the threshold, out of memory, callback failure and internal error, are not classified
  as fatal, while every other error and success are.
\<close>

theorem err_fatal_inverted:
  "ngtcp2_err_fatal 0 \<and>
   (ngtcp2_err_fatal (lib_error_code e) \<longleftrightarrow>
     e \<noteq> NGTCP2_ERR_NOMEM \<and> e \<noteq> NGTCP2_ERR_CALLBACK_FAILURE \<and> e \<noteq> NGTCP2_ERR_INTERNAL)"
  by (cases e) (simp_all add: ngtcp2_err_fatal_def)

end
