(* ===== verification/Pkt_Header.thy ===== *)
theory Pkt_Header
  imports Conv
begin

text \<open>
  The packet headers of \<^verbatim>\<open>lib/ngtcp2_pkt.c\<close>: long and short headers, Version Negotiation and
  Stateless Reset packets, and the reconstruction of truncated packet numbers. A decoder gets
  the packet as the list of its bytes (\<open>pktlen\<close> is its length) and reads it through checked
  accessors: a read outside the packet is \<open>Fault\<close>. An encoder returns the bytes it stores at
  \<open>out\<close>; their number is the return value of the C function.
\<close>

section \<open>Checked reads\<close>

definition rd_u8 :: "bytes \<Rightarrow> nat \<Rightarrow> u8 result" where
  "rd_u8 p i = c_assert (i < length p) (Ok (p ! i))"

definition rd_u16 :: "bytes \<Rightarrow> nat \<Rightarrow> u16 result" where
  "rd_u16 p i = c_assert (i + 2 \<le> length p) (Ok (ngtcp2_get_uint16 (drop i p)))"

definition rd_u32 :: "bytes \<Rightarrow> nat \<Rightarrow> u32 result" where
  "rd_u32 p i = c_assert (i + 4 \<le> length p) (Ok (ngtcp2_get_uint32 (drop i p)))"

definition rd_u64 :: "bytes \<Rightarrow> nat \<Rightarrow> u64 result" where
  "rd_u64 p i = c_assert (i + 8 \<le> length p) (Ok (ngtcp2_get_uint64 (drop i p)))"

text \<open>\<open>rd_block p i n\<close>: the \<open>n\<close> bytes that a pointer to the \<open>i\<close>th byte gives access to.\<close>

definition rd_block :: "bytes \<Rightarrow> nat \<Rightarrow> nat \<Rightarrow> bytes result" where
  "rd_block p i n = c_assert (i + n \<le> length p) (Ok (take n (drop i p)))"

lemmas rd_defs = rd_u8_def rd_u16_def rd_u32_def rd_u64_def rd_block_def

section \<open>Headers\<close>

record ngtcp2_pkt_hd =
  hd_flags :: u8
  hd_type :: u8
  hd_conn_id :: u64
  hd_pkt_num :: u64
  hd_version :: u32

abbreviation NGTCP2_HEADER_FORM_BIT :: u8 where "NGTCP2_HEADER_FORM_BIT \<equiv> 0x80"
abbreviation NGTCP2_OMIT_CONN_ID_BIT :: u8 where "NGTCP2_OMIT_CONN_ID_BIT \<equiv> 0x40"
abbreviation NGTCP2_KEY_PHASE_BIT :: u8 where "NGTCP2_KEY_PHASE_BIT \<equiv> 0x20"
abbreviation NGTCP2_LONG_TYPE_MASK :: u8 where "NGTCP2_LONG_TYPE_MASK \<equiv> 0x7f"
abbreviation NGTCP2_SHORT_TYPE_MASK :: u8 where "NGTCP2_SHORT_TYPE_MASK \<equiv> 0x1f"
abbreviation NGTCP2_LONG_HEADERLEN :: nat where "NGTCP2_LONG_HEADERLEN \<equiv> 17"
abbreviation NGTCP2_STATELESS_RESET_TOKENLEN :: nat where "NGTCP2_STATELESS_RESET_TOKENLEN \<equiv> 16"

abbreviation NGTCP2_PKT_FLAG_NONE :: u8 where "NGTCP2_PKT_FLAG_NONE \<equiv> 0"
abbreviation NGTCP2_PKT_FLAG_LONG_FORM :: u8 where "NGTCP2_PKT_FLAG_LONG_FORM \<equiv> 0x01"
abbreviation NGTCP2_PKT_FLAG_OMIT_CONN_ID :: u8 where "NGTCP2_PKT_FLAG_OMIT_CONN_ID \<equiv> 0x02"
abbreviation NGTCP2_PKT_FLAG_KEY_PHASE :: u8 where "NGTCP2_PKT_FLAG_KEY_PHASE \<equiv> 0x04"

abbreviation NGTCP2_PKT_VERSION_NEGOTIATION :: u8 where "NGTCP2_PKT_VERSION_NEGOTIATION \<equiv> 0"
abbreviation NGTCP2_PKT_INITIAL :: u8 where "NGTCP2_PKT_INITIAL \<equiv> 0x7F"
abbreviation NGTCP2_PKT_RETRY :: u8 where "NGTCP2_PKT_RETRY \<equiv> 0x7E"
abbreviation NGTCP2_PKT_HANDSHAKE :: u8 where "NGTCP2_PKT_HANDSHAKE \<equiv> 0x7D"
abbreviation NGTCP2_PKT_0RTT_PROTECTED :: u8 where "NGTCP2_PKT_0RTT_PROTECTED \<equiv> 0x7C"
abbreviation NGTCP2_PKT_01 :: u8 where "NGTCP2_PKT_01 \<equiv> 0x1F"
abbreviation NGTCP2_PKT_02 :: u8 where "NGTCP2_PKT_02 \<equiv> 0x1E"
abbreviation NGTCP2_PKT_03 :: u8 where "NGTCP2_PKT_03 \<equiv> 0x1D"

definition ngtcp2_pkt_hd_init :: "u8 \<Rightarrow> u8 \<Rightarrow> u64 \<Rightarrow> u64 \<Rightarrow> u32 \<Rightarrow> ngtcp2_pkt_hd" where
  "ngtcp2_pkt_hd_init flags type conn_id pkt_num version =
     \<lparr>hd_flags = flags, hd_type = type, hd_conn_id = conn_id, hd_pkt_num = pkt_num, hd_version = version\<rparr>"

definition ngtcp2_pkt_decode_hd_long :: "bytes \<Rightarrow> (ngtcp2_pkt_hd \<times> nat) result" where
  "ngtcp2_pkt_decode_hd_long pkt =
     ret_if (length pkt < NGTCP2_LONG_HEADERLEN) NGTCP2_ERR_INVALID_ARGUMENT (
     rbind (rd_u8 pkt 0) (\<lambda>b.
     ret_if (b AND NGTCP2_HEADER_FORM_BIT = 0) NGTCP2_ERR_INVALID_ARGUMENT (
     rbind (rd_u32 pkt 9) (\<lambda>version.
     let type = b AND NGTCP2_LONG_TYPE_MASK;
         known = type \<in> {NGTCP2_PKT_INITIAL, NGTCP2_PKT_RETRY, NGTCP2_PKT_HANDSHAKE, NGTCP2_PKT_0RTT_PROTECTED}
     in ret_if (\<not> known \<and> version \<noteq> 0) NGTCP2_ERR_UNKNOWN_PKT_TYPE (
     rbind (rd_u64 pkt 1) (\<lambda>conn_id.
     rbind (rd_u32 pkt 13) (\<lambda>pkt_num.
       Ok (\<lparr>hd_flags = NGTCP2_PKT_FLAG_LONG_FORM,
            hd_type = (if known then type else NGTCP2_PKT_VERSION_NEGOTIATION),
            hd_conn_id = conn_id, hd_pkt_num = ucast pkt_num, hd_version = version\<rparr>,
           NGTCP2_LONG_HEADERLEN))))))))"

definition ngtcp2_pkt_decode_hd_short :: "bytes \<Rightarrow> (ngtcp2_pkt_hd \<times> nat) result" where
  "ngtcp2_pkt_decode_hd_short pkt =
     rbind (rd_u8 pkt 0) (\<lambda>b.
     ret_if (b AND NGTCP2_HEADER_FORM_BIT \<noteq> 0) NGTCP2_ERR_INVALID_ARGUMENT (
     let omit = b AND NGTCP2_OMIT_CONN_ID_BIT \<noteq> 0;
         flags = (if omit then NGTCP2_PKT_FLAG_OMIT_CONN_ID else 0) OR
                 (if b AND NGTCP2_KEY_PHASE_BIT \<noteq> 0 then NGTCP2_PKT_FLAG_KEY_PHASE else 0);
         type = b AND NGTCP2_SHORT_TYPE_MASK
     in ret_if (type \<notin> {NGTCP2_PKT_01, NGTCP2_PKT_02, NGTCP2_PKT_03}) NGTCP2_ERR_UNKNOWN_PKT_TYPE (
     let len = 1 + (if omit then 0 else 8) +
               (if type = NGTCP2_PKT_01 then 1 else if type = NGTCP2_PKT_02 then 2 else 4)
     in ret_if (length pkt < len) NGTCP2_ERR_INVALID_ARGUMENT (
     rbind (if omit then Ok 0 else rd_u64 pkt 1) (\<lambda>conn_id.
     let p = (if omit then 1 else 9) in
     rbind (if type = NGTCP2_PKT_01 then rbind (rd_u8 pkt p) (\<lambda>v. Ok (ucast v))
            else if type = NGTCP2_PKT_02 then rbind (rd_u16 pkt p) (\<lambda>v. Ok (ucast v))
            else rbind (rd_u32 pkt p) (\<lambda>v. Ok (ucast v))) (\<lambda>pkt_num.
       Ok (\<lparr>hd_flags = flags, hd_type = type, hd_conn_id = conn_id, hd_pkt_num = pkt_num, hd_version = 0\<rparr>,
           len)))))))"

definition ngtcp2_pkt_decode_hd :: "bytes \<Rightarrow> (ngtcp2_pkt_hd \<times> nat) result" where
  "ngtcp2_pkt_decode_hd pkt =
     ret_if (length pkt = 0) NGTCP2_ERR_INVALID_ARGUMENT (
     rbind (rd_u8 pkt 0) (\<lambda>b.
       if b AND NGTCP2_HEADER_FORM_BIT \<noteq> 0 then ngtcp2_pkt_decode_hd_long pkt
       else ngtcp2_pkt_decode_hd_short pkt))"

definition ngtcp2_pkt_encode_hd_long :: "nat \<Rightarrow> ngtcp2_pkt_hd \<Rightarrow> bytes result" where
  "ngtcp2_pkt_encode_hd_long outlen hd' =
     ret_if (outlen < NGTCP2_LONG_HEADERLEN) NGTCP2_ERR_NOBUF (
     let out = [NGTCP2_HEADER_FORM_BIT OR hd_type hd'] @ ngtcp2_put_uint64be (hd_conn_id hd') @
               ngtcp2_put_uint32be (hd_version hd') @ ngtcp2_put_uint32be (ucast (hd_pkt_num hd'))
     in c_assert (length out = NGTCP2_LONG_HEADERLEN) (Ok out))"

definition ngtcp2_pkt_encode_hd_short :: "nat \<Rightarrow> ngtcp2_pkt_hd \<Rightarrow> bytes result" where
  "ngtcp2_pkt_encode_hd_short outlen hd' =
     (let need_conn_id = (hd_flags hd' AND NGTCP2_PKT_FLAG_OMIT_CONN_ID = 0);
          type = hd_type hd'
      in ret_if (type \<notin> {NGTCP2_PKT_01, NGTCP2_PKT_02, NGTCP2_PKT_03}) NGTCP2_ERR_INVALID_ARGUMENT (
      let len = 1 + (if need_conn_id then 8 else 0) +
                (if type = NGTCP2_PKT_01 then 1 else if type = NGTCP2_PKT_02 then 2 else 4)
      in ret_if (outlen < len) NGTCP2_ERR_NOBUF (
      let b = type OR (if need_conn_id then 0 else NGTCP2_OMIT_CONN_ID_BIT) OR
              (if hd_flags hd' AND NGTCP2_PKT_FLAG_KEY_PHASE \<noteq> 0 then NGTCP2_KEY_PHASE_BIT else 0);
          out = [b] @ (if need_conn_id then ngtcp2_put_uint64be (hd_conn_id hd') else []) @
                (if type = NGTCP2_PKT_01 then [ucast (hd_pkt_num hd')]
                 else if type = NGTCP2_PKT_02 then ngtcp2_put_uint16be (ucast (hd_pkt_num hd'))
                 else ngtcp2_put_uint32be (ucast (hd_pkt_num hd')))
      in c_assert (length out = len) (Ok out))))"

section \<open>Version Negotiation and Stateless Reset\<close>

definition ngtcp2_pkt_write_version_negotiation ::
  "nat \<Rightarrow> u8 \<Rightarrow> u64 \<Rightarrow> u32 list \<Rightarrow> bytes result" where
  "ngtcp2_pkt_write_version_negotiation destlen unused_random conn_id sv =
     (let len = 1 + 8 + 4 + length sv * 4 in
      ret_if (destlen < len) NGTCP2_ERR_NOBUF (
      let dest = [0x80 OR unused_random] @ ngtcp2_put_uint64be conn_id @ ngtcp2_put_uint32be 0 @
                 concat (map ngtcp2_put_uint32be sv)
      in c_assert (length dest = len) (Ok dest)))"

fun version_loop :: "bytes \<Rightarrow> u32 list result" where
  "version_loop [] = Ok []"
| "version_loop (b # bs) =
     rbind (rd_u32 (b # bs) 0) (\<lambda>v. rbind (version_loop (drop 3 bs)) (\<lambda>vs. Ok (v # vs)))"

text \<open>The versions stored at \<open>dest\<close> and the return value, their number.\<close>

definition ngtcp2_pkt_decode_version_negotiation :: "bytes \<Rightarrow> (u32 list \<times> nat) result" where
  "ngtcp2_pkt_decode_version_negotiation payload =
     c_assert (length payload mod 4 = 0)
       (rbind (version_loop payload) (\<lambda>vs. Ok (vs, length payload div 4)))"

record ngtcp2_pkt_stateless_reset =
  sr_token :: bytes
  sr_rand :: bytes

definition ngtcp2_pkt_decode_stateless_reset :: "bytes \<Rightarrow> ngtcp2_pkt_stateless_reset result" where
  "ngtcp2_pkt_decode_stateless_reset payload =
     ret_if (length payload < NGTCP2_STATELESS_RESET_TOKENLEN) NGTCP2_ERR_INVALID_ARGUMENT (
     let randlen = length payload - NGTCP2_STATELESS_RESET_TOKENLEN in
     rbind (rd_block payload 0 randlen) (\<lambda>rand.
     rbind (rd_block payload randlen NGTCP2_STATELESS_RESET_TOKENLEN) (\<lambda>token.
       Ok \<lparr>sr_token = token, sr_rand = rand\<rparr>)))"

definition ngtcp2_pkt_write_stateless_reset ::
  "nat \<Rightarrow> ngtcp2_pkt_hd \<Rightarrow> bytes \<Rightarrow> bytes \<Rightarrow> bytes result" where
  "ngtcp2_pkt_write_stateless_reset destlen hd' stateless_reset_token rand =
     rbind (ngtcp2_pkt_encode_hd_short destlen hd') (\<lambda>h.
     let left = destlen - length h in
     ret_if (left < NGTCP2_STATELESS_RESET_TOKENLEN) NGTCP2_ERR_NOBUF (
     let randlen = min (left - NGTCP2_STATELESS_RESET_TOKENLEN) (length rand) in
     c_assert (NGTCP2_STATELESS_RESET_TOKENLEN \<le> length stateless_reset_token)
       (Ok (h @ ngtcp2_cpymem rand randlen @
            ngtcp2_cpymem stateless_reset_token NGTCP2_STATELESS_RESET_TOKENLEN))))"

section \<open>Packet numbers\<close>

definition ngtcp2_pkt_adjust_pkt_num :: "u64 \<Rightarrow> u64 \<Rightarrow> nat \<Rightarrow> u64" where
  "ngtcp2_pkt_adjust_pkt_num max_pkt_num pkt_num n =
     (let k = (if max_pkt_num = UINT64_MAX then max_pkt_num else max_pkt_num + 1);
          u = k AND NOT (push_bit n 1 - 1);
          a = u OR pkt_num;
          b = (u + push_bit n 1) OR pkt_num;
          a1 = (if k < a then a - k else k - a);
          b1 = (if k < b then b - k else k - b)
      in if a1 < b1 then a else b)"

section \<open>Lemmas\<close>

lemma mod_and: "(x::'a::len word) AND (2 ^ n - 1) = take_bit n x"
  by (simp add: take_bit_eq_mask mask_eq_exp_minus_1)

text \<open>Bits of a header byte: the case distinctions on single bytes are decided by evaluation.\<close>

lemma short_first_byte:
  assumes "t \<in> {NGTCP2_PKT_01, NGTCP2_PKT_02, NGTCP2_PKT_03}" and "om \<in> {0, NGTCP2_OMIT_CONN_ID_BIT}"
    and "kp \<in> {0, NGTCP2_KEY_PHASE_BIT}"
  shows "(t OR om OR kp) AND NGTCP2_HEADER_FORM_BIT = 0"
    and "(t OR om OR kp) AND NGTCP2_OMIT_CONN_ID_BIT = om"
    and "(t OR om OR kp) AND NGTCP2_KEY_PHASE_BIT = kp"
    and "(t OR om OR kp) AND NGTCP2_SHORT_TYPE_MASK = t"
  using assms by auto

lemma long_first_byte:
  assumes "t \<in> {NGTCP2_PKT_INITIAL, NGTCP2_PKT_RETRY, NGTCP2_PKT_HANDSHAKE, NGTCP2_PKT_0RTT_PROTECTED}"
  shows "(NGTCP2_HEADER_FORM_BIT OR t) AND NGTCP2_HEADER_FORM_BIT \<noteq> 0"
    and "(NGTCP2_HEADER_FORM_BIT OR t) AND NGTCP2_LONG_TYPE_MASK = t"
  using assms by auto

lemma flag_and:
  "(f::u8) AND 2 = (if bit f 1 then 2 else 0)" "f AND 4 = (if bit f 2 then 4 else 0)"
  "f AND 6 = (if bit f 1 then 2 else 0) OR (if bit f 2 then 4 else 0)"
  by (rule bit_word_eqI, auto simp: bit_simps numeral_eq_Suc less_Suc_eq)+

definition hd_num_bits :: "u8 \<Rightarrow> nat" where
  "hd_num_bits type = (if type = NGTCP2_PKT_01 then 8 else if type = NGTCP2_PKT_02 then 16 else 32)"

lemma ucast_ucast_take:
  "(ucast (ucast (w::u64) :: u8) :: u64) = take_bit 8 w" "(ucast (ucast w :: u16) :: u64) = take_bit 16 w"
  "(ucast (ucast w :: u32) :: u64) = take_bit 32 w"
  by (auto intro!: bit_word_eqI simp: bit_simps)

text \<open>The short header codec, used for Stateless Reset packets too.\<close>

lemma hd_short_codec:
  assumes "hd_type h \<in> {NGTCP2_PKT_01, NGTCP2_PKT_02, NGTCP2_PKT_03}" and "13 \<le> outlen"
  shows "\<exists>bs. ngtcp2_pkt_encode_hd_short outlen h = Ok bs \<and>
    length bs = 1 + (if hd_flags h AND NGTCP2_PKT_FLAG_OMIT_CONN_ID = 0 then 8 else 0) + hd_num_bits (hd_type h) div 8 \<and>
    (\<forall>rest. ngtcp2_pkt_decode_hd (bs @ rest) =
      Ok (\<lparr>hd_flags = hd_flags h AND (NGTCP2_PKT_FLAG_OMIT_CONN_ID OR NGTCP2_PKT_FLAG_KEY_PHASE),
           hd_type = hd_type h,
           hd_conn_id = (if hd_flags h AND NGTCP2_PKT_FLAG_OMIT_CONN_ID = 0 then hd_conn_id h else 0),
           hd_pkt_num = take_bit (hd_num_bits (hd_type h)) (hd_pkt_num h), hd_version = 0\<rparr>, length bs))"
  using assms
  by (cases "bit (hd_flags h) 1"; cases "bit (hd_flags h) 2")
    (auto simp: ngtcp2_pkt_encode_hd_short_def ngtcp2_pkt_decode_hd_def ngtcp2_pkt_decode_hd_short_def rd_defs
      flag_and codec_simps ucast_ucast_take hd_num_bits_def nth_append)

section \<open>Reconstruction of packet numbers\<close>

lemma window_start: "(w::u64) AND NOT (push_bit n 1 - 1) = push_bit n (drop_bit n w)"
  by (rule bit_word_eqI) (auto simp: bit_simps simp flip: mask_eq_exp_minus_1 simp: push_bit_of_1)

lemma window_or:
  assumes "unat p < 2 ^ n"
  shows "push_bit n x OR p = push_bit n x + (p::u64)"
proof (rule disjunctive_add_eq_or [symmetric])
  have "unat (take_bit n p) = unat p" unfolding unsigned_take_bit_eq using assms by (simp add: take_bit_nat_eq_self)
  then have tb: "take_bit n p = p" by (simp only: word_unat_eq_iff)
  have "push_bit n x AND take_bit n p = 0" by (rule bit_word_eqI) (simp add: bit_simps)
  then show "push_bit n x AND p = 0" by (simp only: tb)
qed

lemma drop_bit_of_nat:
  assumes "k < 2 ^ 64"
  shows "drop_bit n (of_nat k :: u64) = of_nat (k div 2 ^ n)"
proof -
  have "k div 2 ^ n < 2 ^ 64" using assms by (rule le_less_trans [OF div_le_dividend])
  then have "unat (of_nat (k div 2 ^ n) :: u64) = k div 2 ^ n" by (simp add: unat_of_nat_small)
  moreover have "unat (of_nat k :: u64) = k" using assms by (simp add: unat_of_nat_small)
  then have "unat (drop_bit n (of_nat k :: u64)) = k div 2 ^ n"
    unfolding unsigned_drop_bit_eq using assms by (simp add: take_bit_nat_eq_self drop_bit_eq_div)
  ultimately show ?thesis by (simp only: word_unat_eq_iff)
qed

definition distance :: "nat \<Rightarrow> nat \<Rightarrow> nat" where
  "distance k x = (if k < x then x - k else k - x)"

text \<open>The two candidates, in the window of the expected number and in the next one.\<close>

lemma adjust_pkt_num_eq:
  assumes "unat max_pkt_num + 1 = k" and "r < 2 ^ n"
    and a: "a = k div 2 ^ n * 2 ^ n + r" and b: "b = a + 2 ^ n" "b < 2 ^ 64"
  shows "ngtcp2_pkt_adjust_pkt_num max_pkt_num (of_nat r) n =
    (if distance k a < distance k b then of_nat a else of_nat b)"
proof -
  let ?w = "of_nat k :: u64" and ?p = "of_nat r :: u64"
  have k64: "k < 2 ^ 64"
    using b a dividend_less_div_times [of "2 ^ n" k] by simp
  have small: "a < 2 ^ 64" "r < 2 ^ 64" using a b by auto
  have un: "unat ?w = k" "unat (of_nat a :: u64) = a" "unat (of_nat b :: u64) = b" "unat ?p = r"
    using k64 small b(2) by (simp_all add: unat_of_nat_small)
  have kw: "(if max_pkt_num = UINT64_MAX then max_pkt_num else max_pkt_num + 1) = ?w"
    using assms(1) k64 by auto
  have or: "push_bit n x OR ?p = push_bit n x + ?p" for x using window_or un(4) assms(2) by simp
  have A: "?w AND NOT (push_bit n 1 - 1) OR ?p = of_nat a"
    unfolding window_start or drop_bit_of_nat [OF k64] a by (simp add: push_bit_eq_mult)
  have B: "(?w AND NOT (push_bit n 1 - 1)) + push_bit n 1 OR ?p = of_nat b"
    using or [of "drop_bit n ?w + 1"] unfolding window_start drop_bit_of_nat [OF k64] a b
    by (simp add: push_bit_eq_mult algebra_simps)
  have "unat (if x < y then y - x else x - y) = distance (unat x) (unat y)" for x y :: u64
    by (simp add: distance_def unat_sub word_less_nat_alt word_le_nat_alt)
  then show ?thesis
    unfolding ngtcp2_pkt_adjust_pkt_num_def Let_def kw A B word_less_nat_alt [of "if _ then _ else _"]
    by (simp only: un)
qed

lemma next_window: "P = q * m + r \<Longrightarrow> q = j \<or> q = j + 1 \<Longrightarrow> P = j * m + r \<or> P = j * m + r + (m::nat)"
  by (auto simp: algebra_simps)

section \<open>Properties\<close>

lemma hd_long_codec:
  assumes "hd_type h \<in> {NGTCP2_PKT_INITIAL, NGTCP2_PKT_RETRY, NGTCP2_PKT_HANDSHAKE, NGTCP2_PKT_0RTT_PROTECTED}"
    and "17 \<le> outlen"
  shows "\<exists>bs. ngtcp2_pkt_encode_hd_long outlen h = Ok bs \<and> length bs = 17 \<and>
    (\<forall>rest. ngtcp2_pkt_decode_hd (bs @ rest) =
      Ok (h\<lparr>hd_flags := NGTCP2_PKT_FLAG_LONG_FORM, hd_pkt_num := take_bit 32 (hd_pkt_num h)\<rparr>, 17))"
proof -
  let ?bs = "[NGTCP2_HEADER_FORM_BIT OR hd_type h] @ ngtcp2_put_uint64be (hd_conn_id h) @
               ngtcp2_put_uint32be (hd_version h) @ ngtcp2_put_uint32be (ucast (hd_pkt_num h))"
  have "ngtcp2_pkt_encode_hd_long outlen h = Ok ?bs"
    using assms(2) by (simp add: ngtcp2_pkt_encode_hd_long_def)
  moreover have "ngtcp2_pkt_decode_hd (?bs @ rest) =
      Ok (h\<lparr>hd_flags := NGTCP2_PKT_FLAG_LONG_FORM, hd_pkt_num := take_bit 32 (hd_pkt_num h)\<rparr>, 17)" for rest
    using long_first_byte [OF assms(1)] assms(1)
    by (auto simp: ngtcp2_pkt_decode_hd_def ngtcp2_pkt_decode_hd_long_def rd_defs codec_simps ucast_ucast_take Let_def ret_if_def)
  ultimately show ?thesis by (intro exI [of _ ?bs]) simp
qed

text \<open>
  C30. Long headers survive a round trip: a header of one of the four long types is encoded in 17 bytes
  whenever the buffer has room for them, and decoding the packet that starts with these bytes
  returns the header, with the packet number reduced to 32 bits and the long-form flag set.
\<close>

theorem hd_long_roundtrip:
  assumes "hd_type h \<in> {NGTCP2_PKT_INITIAL, NGTCP2_PKT_RETRY, NGTCP2_PKT_HANDSHAKE, NGTCP2_PKT_0RTT_PROTECTED}"
    and "17 \<le> outlen"
  shows "\<exists>bs. ngtcp2_pkt_encode_hd_long outlen h = Ok bs \<and> length bs = 17 \<and>
    ngtcp2_pkt_decode_hd (bs @ rest) =
      Ok (h\<lparr>hd_flags := NGTCP2_PKT_FLAG_LONG_FORM, hd_pkt_num := take_bit 32 (hd_pkt_num h)\<rparr>, 17)"
  using hd_long_codec [OF assms] by blast

theorem hd_long_roundtrip_witness:
  "\<exists>bs. ngtcp2_pkt_encode_hd_long 20 (ngtcp2_pkt_hd_init 0 NGTCP2_PKT_HANDSHAKE 77 5 0xff000008) = Ok bs \<and>
    ngtcp2_pkt_decode_hd (bs @ [1, 2]) =
      Ok (ngtcp2_pkt_hd_init NGTCP2_PKT_FLAG_LONG_FORM NGTCP2_PKT_HANDSHAKE 77 5 0xff000008, 17)"
  using hd_long_roundtrip [of "ngtcp2_pkt_hd_init 0 NGTCP2_PKT_HANDSHAKE 77 5 0xff000008" 20 "[1, 2]"]
  by (auto simp: ngtcp2_pkt_hd_init_def)

text \<open>
  C31. Short headers survive a round trip: the encoder needs 1 byte, 8 more for the connection identifier
  unless it is omitted, and 1, 2 or 4 for the packet number; decoding returns the type, the
  two flags, the connection identifier if present, and the packet number reduced to the encoded
  width.
\<close>

theorem hd_short_roundtrip:
  assumes "hd_type h \<in> {NGTCP2_PKT_01, NGTCP2_PKT_02, NGTCP2_PKT_03}" and "13 \<le> outlen"
  shows "\<exists>bs. ngtcp2_pkt_encode_hd_short outlen h = Ok bs \<and>
    length bs = 1 + (if hd_flags h AND NGTCP2_PKT_FLAG_OMIT_CONN_ID = 0 then 8 else 0) + hd_num_bits (hd_type h) div 8 \<and>
    ngtcp2_pkt_decode_hd (bs @ rest) =
      Ok (\<lparr>hd_flags = hd_flags h AND (NGTCP2_PKT_FLAG_OMIT_CONN_ID OR NGTCP2_PKT_FLAG_KEY_PHASE),
           hd_type = hd_type h,
           hd_conn_id = (if hd_flags h AND NGTCP2_PKT_FLAG_OMIT_CONN_ID = 0 then hd_conn_id h else 0),
           hd_pkt_num = take_bit (hd_num_bits (hd_type h)) (hd_pkt_num h), hd_version = 0\<rparr>, length bs)"
  using hd_short_codec [OF assms] by blast

theorem hd_short_roundtrip_witness:
  "\<exists>bs. ngtcp2_pkt_encode_hd_short 13 (ngtcp2_pkt_hd_init 0 NGTCP2_PKT_02 77 0x12345 0) = Ok bs \<and>
    ngtcp2_pkt_decode_hd (bs @ [9]) = Ok (ngtcp2_pkt_hd_init 0 NGTCP2_PKT_02 77 0x2345 0, 11)"
  using hd_short_roundtrip [of "ngtcp2_pkt_hd_init 0 NGTCP2_PKT_02 77 0x12345 0" 13 "[9]"]
  by (auto simp: ngtcp2_pkt_hd_init_def hd_num_bits_def)

text \<open>
  C32. Decoding the header of an arbitrary datagram never reads outside of it: the result is an error
  or a header, and the header takes at most the datagram and at least one byte.
\<close>

theorem decode_hd_safe:
  "(\<exists>h n. ngtcp2_pkt_decode_hd pkt = Ok (h, n) \<and> 2 \<le> n \<and> n \<le> length pkt) \<or>
   (\<exists>e \<in> {NGTCP2_ERR_INVALID_ARGUMENT, NGTCP2_ERR_UNKNOWN_PKT_TYPE}. ngtcp2_pkt_decode_hd pkt = Err e)"
  by (auto simp: ngtcp2_pkt_decode_hd_def ngtcp2_pkt_decode_hd_long_def ngtcp2_pkt_decode_hd_short_def
      rd_defs ret_if_def c_assert_def Let_def)

lemma length_put_versions: "length (concat (map ngtcp2_put_uint32be vs)) = length vs * 4"
  by (induction vs) auto

lemma version_loop_put: "version_loop (concat (map ngtcp2_put_uint32be vs)) = Ok vs"
proof (induction vs)
  case (Cons v vs)
  obtain a b c d where "ngtcp2_put_uint32be v = [a, b, c, d]"
    using length_put_uint32be [of v] unfolding length_4_conv by blast
  then show ?case
    using Cons get_put_uint32 [of v "concat (map ngtcp2_put_uint32be vs)"] by (simp add: rd_u32_def)
qed simp

text \<open>
  Version Negotiation packets survive a round trip: after the 13 bytes of header, whose version
  field is 0, decoding the payload returns the list of versions and their number.
\<close>

theorem version_negotiation_roundtrip:
  assumes "13 + 4 * length sv \<le> destlen"
  shows "\<exists>bs. ngtcp2_pkt_write_version_negotiation destlen r conn_id sv = Ok bs \<and> length bs = 13 + 4 * length sv \<and>
    rd_u64 bs 1 = Ok conn_id \<and> rd_u32 bs 9 = Ok 0 \<and>
    ngtcp2_pkt_decode_version_negotiation (drop 13 bs) = Ok (sv, length sv)"
  using assms length_put_versions [of sv] version_loop_put [of sv]
  by (simp add: ngtcp2_pkt_write_version_negotiation_def ngtcp2_pkt_decode_version_negotiation_def Let_def
      rd_u64_def rd_u32_def codec_simps)

theorem version_negotiation_roundtrip_witness:
  "\<exists>bs. ngtcp2_pkt_write_version_negotiation 100 0x55 77 [0xff000008, 0x1a2a3a4a] = Ok bs \<and>
    ngtcp2_pkt_decode_version_negotiation (drop 13 bs) = Ok ([0xff000008, 0x1a2a3a4a], 2)"
  using version_negotiation_roundtrip [of "[0xff000008, 0x1a2a3a4a]" 100 "0x55" 77] by auto

text \<open>
  A Stateless Reset packet that was written carries the token in its last 16 bytes: decoding the
  header and then the rest returns the token and the random bytes, as many as the buffer has
  room for.
\<close>

theorem stateless_reset_roundtrip:
  assumes "length token = 16" and "hd_type h \<in> {NGTCP2_PKT_01, NGTCP2_PKT_02, NGTCP2_PKT_03}"
    and "29 \<le> destlen"
  shows "\<exists>bs h' n. ngtcp2_pkt_write_stateless_reset destlen h token rand = Ok bs \<and> length bs \<le> destlen \<and>
    ngtcp2_pkt_decode_hd bs = Ok (h', n) \<and> hd_type h' = hd_type h \<and>
    ngtcp2_pkt_decode_stateless_reset (drop n bs) =
      Ok \<lparr>sr_token = token, sr_rand = take (destlen - n - 16) rand\<rparr>"
proof -
  have "13 \<le> destlen" using assms(3) by simp
  then obtain hb h' where hb: "ngtcp2_pkt_encode_hd_short destlen h = Ok hb" "length hb \<le> 13" "hd_type h' = hd_type h"
    "\<forall>r. ngtcp2_pkt_decode_hd (hb @ r) = Ok (h', length hb)"
    using hd_short_codec [OF assms(2)] by (fastforce simp: hd_num_bits_def)
  then show ?thesis
    using assms(1,3)
    by (intro exI [of _ "hb @ take (destlen - length hb - 16) rand @ token"] exI [of _ h'] exI [of _ "length hb"])
      (auto simp: ngtcp2_pkt_write_stateless_reset_def ngtcp2_pkt_decode_stateless_reset_def ngtcp2_cpymem_def
        rd_block_def min_def ret_if_def Let_def)
qed

theorem stateless_reset_roundtrip_witness:
  "\<exists>bs h' n. ngtcp2_pkt_write_stateless_reset 40 (ngtcp2_pkt_hd_init 0 NGTCP2_PKT_03 77 5 0) (replicate 16 1) [2, 3] = Ok bs \<and>
    ngtcp2_pkt_decode_hd bs = Ok (h', n) \<and>
    ngtcp2_pkt_decode_stateless_reset (drop n bs) = Ok \<lparr>sr_token = replicate 16 1, sr_rand = take (40 - n - 16) [2, 3]\<rparr>"
proof -
  have "length (replicate 16 (1::u8)) = 16" "(29::nat) \<le> 40"
    "hd_type (ngtcp2_pkt_hd_init 0 NGTCP2_PKT_03 77 5 0) \<in> {NGTCP2_PKT_01, NGTCP2_PKT_02, NGTCP2_PKT_03}"
    by (simp_all add: ngtcp2_pkt_hd_init_def)
  then show ?thesis using stateless_reset_roundtrip by blast
qed

lemma adjust_pkt_num_ok:
  assumes "n < 62" and "unat max_pkt_num + 1 = k" and "P < 2 ^ 62"
    and "k div 2 ^ n \<le> P div 2 ^ n" and "2 * P < 2 * k + 2 ^ n" and "2 * k < 2 * P + 2 ^ n"
  shows "ngtcp2_pkt_adjust_pkt_num max_pkt_num (of_nat (P mod 2 ^ n)) n = of_nat P"
proof -
  define a b where a: "a = k div 2 ^ n * 2 ^ n + P mod 2 ^ n" and b: "b = a + 2 ^ n"
  have "(2::nat) ^ n \<le> 2 ^ 61" using assms(1) by (intro power_increasing) auto
  then have n2: "(2::nat) ^ n \<le> 2305843009213693952" by simp
  have "k < k div 2 ^ n * 2 ^ n + 2 ^ n" using dividend_less_div_times [of "2 ^ n" k] by simp
  then have "P < (k div 2 ^ n + 2) * 2 ^ n" using assms(5) by (simp add: algebra_simps)
  then have "P div 2 ^ n < k div 2 ^ n + 2" by (rule less_mult_imp_div_less)
  with assms(4) have "P div 2 ^ n = k div 2 ^ n \<or> P div 2 ^ n = k div 2 ^ n + 1" by linarith
  then have P: "P = a \<or> P = b"
    unfolding b a
    by (rule next_window [OF div_mult_mod_eq [symmetric]])
  then have "b < 2 ^ 64" using assms(3) n2 b by auto
  then show ?thesis
    using adjust_pkt_num_eq [OF assms(2) _ a b] P b assms(5,6) by (auto simp: distance_def)
qed

lemma nearer_window: "k < a + m \<Longrightarrow> 0 < (m :: nat) \<Longrightarrow> distance k a < distance k (a + m) \<longleftrightarrow> 2 * k < 2 * a + m"
  unfolding distance_def by (cases "k < a") (simp_all, linarith+)

text \<open>
  C35. Reconstruction of packet numbers: with \<open>k\<close> the number expected next, one above the largest received, a packet number \<open>P\<close> is recovered
  from its low \<open>n\<close> bits exactly when it is in the window of \<open>2^n\<close> numbers that holds \<open>k\<close> and less than half a window below \<open>k\<close>, or
  in the next window and at most half a window above \<open>k\<close>. In particular a number of a previous window is not recovered, however close to \<open>k\<close> it
  is.
\<close>

theorem adjust_pkt_num_recovers:
  assumes "n < 62" and "unat max_pkt_num + 1 = k" and "k < 2 ^ 62" and "P < 2 ^ 62"
  shows "ngtcp2_pkt_adjust_pkt_num max_pkt_num (of_nat (P mod 2 ^ n)) n = of_nat P \<longleftrightarrow>
    P div 2 ^ n = k div 2 ^ n \<and> 2 * k < 2 * P + 2 ^ n \<or> P div 2 ^ n = k div 2 ^ n + 1 \<and> 2 * P \<le> 2 * k + 2 ^ n"
proof -
  define a b where a: "a = k div 2 ^ n * 2 ^ n + P mod 2 ^ n" and b: "b = a + 2 ^ n"
  have "(2::nat) ^ n \<le> 2 ^ 61" using assms(1) by (intro power_increasing) auto
  then have n2: "(2::nat) ^ n \<le> 2305843009213693952" by simp
  have k: "k < k div 2 ^ n * 2 ^ n + 2 ^ n" "k div 2 ^ n * 2 ^ n \<le> k" using dividend_less_div_times [of "2 ^ n" k] by simp_all
  have r: "P mod 2 ^ n < 2 ^ n" by simp
  have "k < 4611686018427387904" using assms(3) by simp
  then have "a < 18446744073709551616" "b < 18446744073709551616" using k(2) r n2 unfolding a b by linarith+
  then have small: "a < 2 ^ 64" "b < 2 ^ 64" by simp_all
  then have word: "(of_nat a :: u64) = of_nat P \<longleftrightarrow> a = P" "(of_nat b :: u64) = of_nat P \<longleftrightarrow> b = P"
    using assms(4) by (simp_all add: word_of_nat_eq_iff take_bit_nat_eq_self)
  have P: "P = P div 2 ^ n * 2 ^ n + P mod 2 ^ n" by (rule div_mult_mod_eq [symmetric])
  have "b = (k div 2 ^ n + 1) * 2 ^ n + P mod 2 ^ n" unfolding a b by simp
  then have "a = P \<longleftrightarrow> k div 2 ^ n * 2 ^ n = P div 2 ^ n * 2 ^ n" "b = P \<longleftrightarrow> (k div 2 ^ n + 1) * 2 ^ n = P div 2 ^ n * 2 ^ n"
    using P unfolding a by linarith+
  then have win: "a = P \<longleftrightarrow> P div 2 ^ n = k div 2 ^ n" "b = P \<longleftrightarrow> P div 2 ^ n = k div 2 ^ n + 1"
    unfolding mult_cancel2 by auto
  have "k < a + 2 ^ n" using k r unfolding a by linarith
  then have near: "distance k a < distance k b \<longleftrightarrow> 2 * k < 2 * a + 2 ^ n" unfolding b by (rule nearer_window) simp
  have "(if 2 * k < 2 * a + 2 ^ n then of_nat a else of_nat b :: u64) = of_nat P \<longleftrightarrow> a = P \<and> 2 * k < 2 * P + 2 ^ n \<or> b = P \<and> 2 * P \<le> 2 * k + 2 ^ n"
  proof (cases "2 * k < 2 * a + 2 ^ n")
    case True
    then have "\<not> 2 * b \<le> 2 * k + 2 ^ n" by (simp add: b)
    then show ?thesis using True word(1) by auto
  next
    case False
    then have "2 * b \<le> 2 * k + 2 ^ n" by (simp add: b)
    then show ?thesis using False word(2) by auto
  qed
  then show ?thesis unfolding adjust_pkt_num_eq [OF assms(2) r a b small(2)] near win .
qed

theorem adjust_pkt_num_recovers_witness:
  "ngtcp2_pkt_adjust_pkt_num 250 (of_nat (260 mod 2 ^ 8)) 8 = of_nat 260 \<and>
   ngtcp2_pkt_adjust_pkt_num 239 (of_nat (16 mod 2 ^ 8)) 8 \<noteq> of_nat 16 \<and> ngtcp2_pkt_adjust_pkt_num 255 (of_nat (255 mod 2 ^ 8)) 8 \<noteq> of_nat 255"
  using adjust_pkt_num_recovers [of 8 250 251 260] adjust_pkt_num_recovers [of 8 239 240 16] adjust_pkt_num_recovers [of 8 255 256 255] by simp

end
