(* ===== verification/Pkt_Frames.thy ===== *)
theory Pkt_Frames
  imports Pkt_Header
begin

text \<open>
  The frame codec of \<^verbatim>\<open>lib/ngtcp2_pkt.c\<close>: sixteen decoders, sixteen encoders, the two dispatchers
  and the validation of ACK frames. A decoder gets the rest of a payload as a list of bytes
  (\<open>payloadlen\<close> is its length) and reads it through checked accessors. The lengths it adds up
  are natural numbers: a length is at most a payload length plus \<open>2^63\<close>, since a
  variable-length integer is below \<open>2^62\<close>, and does not wrap in a \<open>size_t\<close>. Pointers to the
  data of a frame (\<open>data\<close>, \<open>reason\<close>) are the bytes they give access to, so \<open>datalen\<close>,
  \<open>reasonlen\<close> and \<open>num_blks\<close> are the lengths of lists; the tag \<open>type\<close> of a frame is its
  constructor.
\<close>

section \<open>Frames\<close>

record ngtcp2_stream =
  st_flags :: u8
  st_fin :: bool
  st_stream_id :: u64
  st_offset :: u64
  st_data :: bytes

record ngtcp2_ack_blk =
  blk_gap :: u64
  blk_blklen :: u64

record ngtcp2_ack =
  ack_largest_ack :: u64
  ack_ack_delay :: u64
  ack_first_ack_blklen :: u64
  ack_blks :: "ngtcp2_ack_blk list"

record ngtcp2_rst_stream =
  rst_stream_id :: u64
  rst_app_error_code :: u16
  rst_final_offset :: u64

record ngtcp2_close =
  cc_error_code :: u16
  cc_reason :: bytes

record ngtcp2_max_stream_data =
  msd_stream_id :: u64
  msd_max_stream_data :: u64

record ngtcp2_stream_blocked =
  sb_stream_id :: u64
  sb_offset :: u64

record ngtcp2_new_connection_id =
  nci_seq :: u16
  nci_conn_id :: u64
  nci_token :: bytes

record ngtcp2_stop_sending =
  ss_stream_id :: u64
  ss_app_error_code :: u16

datatype ngtcp2_frame =
    FR_STREAM ngtcp2_stream
  | FR_ACK ngtcp2_ack
  | FR_PADDING nat
  | FR_RST_STREAM ngtcp2_rst_stream
  | FR_CONNECTION_CLOSE ngtcp2_close
  | FR_APPLICATION_CLOSE ngtcp2_close
  | FR_MAX_DATA u64
  | FR_MAX_STREAM_DATA ngtcp2_max_stream_data
  | FR_MAX_STREAM_ID u64
  | FR_PING bytes
  | FR_BLOCKED u64
  | FR_STREAM_BLOCKED ngtcp2_stream_blocked
  | FR_STREAM_ID_BLOCKED u64
  | FR_NEW_CONNECTION_ID ngtcp2_new_connection_id
  | FR_STOP_SENDING ngtcp2_stop_sending
  | FR_PONG bytes

abbreviation NGTCP2_FRAME_PADDING :: u8 where "NGTCP2_FRAME_PADDING \<equiv> 0x00"
abbreviation NGTCP2_FRAME_RST_STREAM :: u8 where "NGTCP2_FRAME_RST_STREAM \<equiv> 0x01"
abbreviation NGTCP2_FRAME_CONNECTION_CLOSE :: u8 where "NGTCP2_FRAME_CONNECTION_CLOSE \<equiv> 0x02"
abbreviation NGTCP2_FRAME_APPLICATION_CLOSE :: u8 where "NGTCP2_FRAME_APPLICATION_CLOSE \<equiv> 0x03"
abbreviation NGTCP2_FRAME_MAX_DATA :: u8 where "NGTCP2_FRAME_MAX_DATA \<equiv> 0x04"
abbreviation NGTCP2_FRAME_MAX_STREAM_DATA :: u8 where "NGTCP2_FRAME_MAX_STREAM_DATA \<equiv> 0x05"
abbreviation NGTCP2_FRAME_MAX_STREAM_ID :: u8 where "NGTCP2_FRAME_MAX_STREAM_ID \<equiv> 0x06"
abbreviation NGTCP2_FRAME_PING :: u8 where "NGTCP2_FRAME_PING \<equiv> 0x07"
abbreviation NGTCP2_FRAME_BLOCKED :: u8 where "NGTCP2_FRAME_BLOCKED \<equiv> 0x08"
abbreviation NGTCP2_FRAME_STREAM_BLOCKED :: u8 where "NGTCP2_FRAME_STREAM_BLOCKED \<equiv> 0x09"
abbreviation NGTCP2_FRAME_STREAM_ID_BLOCKED :: u8 where "NGTCP2_FRAME_STREAM_ID_BLOCKED \<equiv> 0x0a"
abbreviation NGTCP2_FRAME_NEW_CONNECTION_ID :: u8 where "NGTCP2_FRAME_NEW_CONNECTION_ID \<equiv> 0x0b"
abbreviation NGTCP2_FRAME_STOP_SENDING :: u8 where "NGTCP2_FRAME_STOP_SENDING \<equiv> 0x0c"
abbreviation NGTCP2_FRAME_PONG :: u8 where "NGTCP2_FRAME_PONG \<equiv> 0x0d"
abbreviation NGTCP2_FRAME_ACK :: u8 where "NGTCP2_FRAME_ACK \<equiv> 0x0e"
abbreviation NGTCP2_FRAME_STREAM :: u8 where "NGTCP2_FRAME_STREAM \<equiv> 0x10"

abbreviation NGTCP2_STREAM_FIN_BIT :: u8 where "NGTCP2_STREAM_FIN_BIT \<equiv> 0x01"
abbreviation NGTCP2_STREAM_LEN_BIT :: u8 where "NGTCP2_STREAM_LEN_BIT \<equiv> 0x02"
abbreviation NGTCP2_STREAM_OFF_BIT :: u8 where "NGTCP2_STREAM_OFF_BIT \<equiv> 0x04"
abbreviation NGTCP2_MAX_ACK_BLKS :: nat where "NGTCP2_MAX_ACK_BLKS \<equiv> 255"

section \<open>Decoders\<close>

definition rd_varint_len :: "bytes \<Rightarrow> nat \<Rightarrow> nat result" where
  "rd_varint_len p i = c_assert (i < length p) (Ok (ngtcp2_get_varint_len (drop i p)))"

definition rd_varint :: "bytes \<Rightarrow> nat \<Rightarrow> (u64 \<times> nat) result" where
  "rd_varint p i =
     c_assert (i < length p) (c_assert (i + ngtcp2_get_varint_len (drop i p) \<le> length p)
       (Ok (ngtcp2_get_varint (drop i p))))"

text \<open>
  \<open>need payload len k\<close>: the check \<open>if (payloadlen < len) return NGTCP2_ERR_FRAME_FORMAT\<close>.
  \<open>scan_varint payload len p k\<close>: the length of the variable-length integer at \<open>p\<close>, of which \<open>len\<close>
  counts one byte already, is added to \<open>len\<close> and checked; \<open>k\<close> continues with \<open>len\<close> and the
  offset behind the integer.
\<close>

definition need :: "bytes \<Rightarrow> nat \<Rightarrow> 'a result \<Rightarrow> 'a result" where
  "need payload len k = ret_if (length payload < len) NGTCP2_ERR_FRAME_FORMAT k"

definition scan_varint :: "bytes \<Rightarrow> nat \<Rightarrow> nat \<Rightarrow> (nat \<Rightarrow> nat \<Rightarrow> 'a result) \<Rightarrow> 'a result" where
  "scan_varint payload len p k =
     rbind (rd_varint_len payload p) (\<lambda>n. let len' = len + n - 1 in need payload len' (k len' (p + n)))"

definition ngtcp2_pkt_decode_stream_frame :: "bytes \<Rightarrow> (ngtcp2_stream \<times> nat) result" where
  "ngtcp2_pkt_decode_stream_frame payload =
     (let len = 1 + 1 in need payload len (
      rbind (rd_u8 payload 0) (\<lambda>type.
      scan_varint payload len 1 (\<lambda>len p.
      rbind (if type AND NGTCP2_STREAM_OFF_BIT \<noteq> 0 then
               let len = len + 1 in need payload len (scan_varint payload len p (\<lambda>len p. Ok (len, p)))
             else Ok (len, p)) (\<lambda>(len, p).
      rbind (if type AND NGTCP2_STREAM_LEN_BIT \<noteq> 0 then
               let len = len + 1 in need payload len (scan_varint payload len p (\<lambda>len _.
               rbind (rd_varint payload p) (\<lambda>(datalen, _).
               let len = len + unat datalen in need payload len (Ok len))))
             else Ok len) (\<lambda>len.
      rbind (rd_varint payload 1) (\<lambda>(stream_id, n).
      let p = 1 + n in
      rbind (if type AND NGTCP2_STREAM_OFF_BIT \<noteq> 0 then
               rbind (rd_varint payload p) (\<lambda>(offset, n). Ok (offset, p + n))
             else Ok (0, p)) (\<lambda>(offset, p).
      let fr = \<lparr>st_flags = type AND NOT NGTCP2_FRAME_STREAM, st_fin = (type AND NGTCP2_STREAM_FIN_BIT \<noteq> 0),
                st_stream_id = stream_id, st_offset = offset, st_data = []\<rparr>
      in if type AND NGTCP2_STREAM_LEN_BIT \<noteq> 0 then
           rbind (rd_varint payload p) (\<lambda>(datalen, n).
           let p = p + n in
           rbind (rd_block payload p (unat datalen)) (\<lambda>data.
           let p = p + unat datalen in
           c_assert (p = len) (Ok (fr\<lparr>st_data := data\<rparr>, len))))
         else
           rbind (rd_block payload p (length payload - p)) (\<lambda>data.
           Ok (fr\<lparr>st_data := data\<rparr>, length payload))))))))))"

text \<open>The loop that checks \<open>k\<close> pairs of a gap and an ACK block, and the one that reads them.\<close>

fun ack_scan_blks :: "bytes \<Rightarrow> nat \<Rightarrow> nat \<Rightarrow> nat \<Rightarrow> (nat \<times> nat) result" where
  "ack_scan_blks payload 0 len p = Ok (len, p)"
| "ack_scan_blks payload (Suc k) len p =
     scan_varint payload len p (\<lambda>len p. scan_varint payload len p (\<lambda>len p. ack_scan_blks payload k len p))"

fun ack_read_blks :: "bytes \<Rightarrow> nat \<Rightarrow> nat \<Rightarrow> (ngtcp2_ack_blk list \<times> nat) result" where
  "ack_read_blks payload 0 p = Ok ([], p)"
| "ack_read_blks payload (Suc k) p =
     rbind (rd_varint payload p) (\<lambda>(gap, n). let p = p + n in
     rbind (rd_varint payload p) (\<lambda>(blklen, n). let p = p + n in
     rbind (ack_read_blks payload k p) (\<lambda>(blks, p).
       Ok (\<lparr>blk_gap = gap, blk_blklen = blklen\<rparr> # blks, p))))"

fun ack_skip_blks :: "bytes \<Rightarrow> nat \<Rightarrow> nat \<Rightarrow> nat result" where
  "ack_skip_blks payload 0 p = Ok p"
| "ack_skip_blks payload (Suc k) p =
     rbind (rd_varint_len payload p) (\<lambda>n. rbind (rd_varint_len payload (p + n)) (\<lambda>n'.
       ack_skip_blks payload k (p + n + n')))"

definition ngtcp2_pkt_decode_ack_frame :: "bytes \<Rightarrow> (ngtcp2_ack \<times> nat) result" where
  "ngtcp2_pkt_decode_ack_frame payload =
     (let len = 1 + 1 + 1 + 1 + 1 in need payload len (
      scan_varint payload len 1 (\<lambda>len p.
      scan_varint payload len p (\<lambda>len p.
      scan_varint payload len p (\<lambda>len p'.
      rbind (rd_varint payload p) (\<lambda>(num_blks, n).
      let num_blks = unat num_blks; len = len + num_blks * (1 + 1) in need payload len (
      scan_varint payload len (p + n) (\<lambda>len p.
      rbind (ack_scan_blks payload num_blks len p) (\<lambda>(len, _).
      let max_num_blks = min NGTCP2_MAX_ACK_BLKS num_blks in
      rbind (rd_varint payload 1) (\<lambda>(largest_ack, n). let p = 1 + n in
      rbind (rd_varint payload p) (\<lambda>(ack_delay, n). let p = p + n in
      rbind (rd_varint_len payload p) (\<lambda>n. let p = p + n in
      rbind (rd_varint payload p) (\<lambda>(first_ack_blklen, n). let p = p + n in
      rbind (ack_read_blks payload max_num_blks p) (\<lambda>(blks, p).
      rbind (ack_skip_blks payload (num_blks - max_num_blks) p) (\<lambda>p.
      c_assert (p = len)
        (Ok (\<lparr>ack_largest_ack = largest_ack, ack_ack_delay = ack_delay,
              ack_first_ack_blklen = first_ack_blklen, ack_blks = blks\<rparr>, len)))))))))))))))))"

fun padding_run :: "bytes \<Rightarrow> nat" where
  "padding_run [] = 0"
| "padding_run (b # bs) = (if b = NGTCP2_FRAME_PADDING then 1 + padding_run bs else 0)"

definition ngtcp2_pkt_decode_padding_frame :: "bytes \<Rightarrow> (nat \<times> nat) result" where
  "ngtcp2_pkt_decode_padding_frame payload =
     c_assert (length payload > 0) (let p = 1 + padding_run (tl payload) in Ok (p, p))"

definition ngtcp2_pkt_decode_rst_stream_frame :: "bytes \<Rightarrow> (ngtcp2_rst_stream \<times> nat) result" where
  "ngtcp2_pkt_decode_rst_stream_frame payload =
     (let len = 1 + 1 + 2 + 1 in need payload len (
      scan_varint payload len 1 (\<lambda>len p.
      scan_varint payload len (p + 2) (\<lambda>len _.
      rbind (rd_varint payload 1) (\<lambda>(stream_id, n). let p = 1 + n in
      rbind (rd_u16 payload p) (\<lambda>app_error_code. let p = p + 2 in
      rbind (rd_varint payload p) (\<lambda>(final_offset, n). let p = p + n in
      c_assert (p = len)
        (Ok (\<lparr>rst_stream_id = stream_id, rst_app_error_code = app_error_code,
              rst_final_offset = final_offset\<rparr>, len)))))))))"

text \<open>
  The bodies of the decoders of CONNECTION\_CLOSE and APPLICATION\_CLOSE are the same, as are the
  ones of PING and PONG, of MAX\_DATA, MAX\_STREAM\_ID, BLOCKED and STREAM\_ID\_BLOCKED, and of
  MAX\_STREAM\_DATA and STREAM\_BLOCKED, up to the fields they fill.
\<close>

definition decode_close :: "bytes \<Rightarrow> (ngtcp2_close \<times> nat) result" where
  "decode_close payload =
     (let len = 1 + 2 + 1 in need payload len (
      scan_varint payload len (1 + 2) (\<lambda>len _.
      rbind (rd_varint payload (1 + 2)) (\<lambda>(reasonlen, n).
      let len = len + unat reasonlen in need payload len (
      rbind (rd_u16 payload 1) (\<lambda>error_code. let p = 1 + 2 + n in
      rbind (if reasonlen = 0 then Ok ([], p)
             else rbind (rd_block payload p (unat reasonlen)) (\<lambda>r. Ok (r, p + unat reasonlen))) (\<lambda>(reason, p).
      c_assert (p = len) (Ok (\<lparr>cc_error_code = error_code, cc_reason = reason\<rparr>, len)))))))))"

definition ngtcp2_pkt_decode_connection_close_frame :: "bytes \<Rightarrow> (ngtcp2_close \<times> nat) result" where
  "ngtcp2_pkt_decode_connection_close_frame payload = decode_close payload"

definition ngtcp2_pkt_decode_application_close_frame :: "bytes \<Rightarrow> (ngtcp2_close \<times> nat) result" where
  "ngtcp2_pkt_decode_application_close_frame payload = decode_close payload"

definition decode_one_varint :: "bytes \<Rightarrow> (u64 \<times> nat) result" where
  "decode_one_varint payload =
     (let len = 1 + 1 in need payload len (
      scan_varint payload len 1 (\<lambda>len _.
      rbind (rd_varint payload 1) (\<lambda>(v, n). let p = 1 + n in
      c_assert (p = len) (Ok (v, len))))))"

definition ngtcp2_pkt_decode_max_data_frame :: "bytes \<Rightarrow> (u64 \<times> nat) result" where
  "ngtcp2_pkt_decode_max_data_frame payload = decode_one_varint payload"

definition decode_two_varints :: "bytes \<Rightarrow> ((u64 \<times> u64) \<times> nat) result" where
  "decode_two_varints payload =
     (let len = 1 + 1 + 1 in need payload len (
      scan_varint payload len 1 (\<lambda>len p.
      scan_varint payload len p (\<lambda>len _.
      rbind (rd_varint payload 1) (\<lambda>(v, n). let p = 1 + n in
      rbind (rd_varint payload p) (\<lambda>(w, n). let p = p + n in
      c_assert (p = len) (Ok ((v, w), len))))))))"

definition ngtcp2_pkt_decode_max_stream_data_frame :: "bytes \<Rightarrow> (ngtcp2_max_stream_data \<times> nat) result" where
  "ngtcp2_pkt_decode_max_stream_data_frame payload =
     rbind (decode_two_varints payload) (\<lambda>((v, w), len).
       Ok (\<lparr>msd_stream_id = v, msd_max_stream_data = w\<rparr>, len))"

definition ngtcp2_pkt_decode_max_stream_id_frame :: "bytes \<Rightarrow> (u64 \<times> nat) result" where
  "ngtcp2_pkt_decode_max_stream_id_frame payload = decode_one_varint payload"

definition decode_u8_data :: "bytes \<Rightarrow> (bytes \<times> nat) result" where
  "decode_u8_data payload =
     (let len = 1 + 1 in need payload len (
      rbind (rd_u8 payload 1) (\<lambda>datalen.
      let len = len + unat datalen in need payload len (
      let p = 1 + 1 in
      rbind (if datalen \<noteq> 0 then rbind (rd_block payload p (unat datalen)) (\<lambda>d. Ok (d, p + unat datalen))
             else Ok ([], p)) (\<lambda>(data, p).
      c_assert (p = len) (Ok (data, len)))))))"

definition ngtcp2_pkt_decode_ping_frame :: "bytes \<Rightarrow> (bytes \<times> nat) result" where
  "ngtcp2_pkt_decode_ping_frame payload = decode_u8_data payload"

definition ngtcp2_pkt_decode_blocked_frame :: "bytes \<Rightarrow> (u64 \<times> nat) result" where
  "ngtcp2_pkt_decode_blocked_frame payload = decode_one_varint payload"

definition ngtcp2_pkt_decode_stream_blocked_frame :: "bytes \<Rightarrow> (ngtcp2_stream_blocked \<times> nat) result" where
  "ngtcp2_pkt_decode_stream_blocked_frame payload =
     rbind (decode_two_varints payload) (\<lambda>((v, w), len). Ok (\<lparr>sb_stream_id = v, sb_offset = w\<rparr>, len))"

definition ngtcp2_pkt_decode_stream_id_blocked_frame :: "bytes \<Rightarrow> (u64 \<times> nat) result" where
  "ngtcp2_pkt_decode_stream_id_blocked_frame payload = decode_one_varint payload"

definition ngtcp2_pkt_decode_new_connection_id_frame :: "bytes \<Rightarrow> (ngtcp2_new_connection_id \<times> nat) result" where
  "ngtcp2_pkt_decode_new_connection_id_frame payload =
     (let len = 1 + 1 + 8 + 16 in need payload len (
      scan_varint payload len 1 (\<lambda>len _.
      rbind (rd_varint payload 1) (\<lambda>(seq, n). let p = 1 + n in
      rbind (rd_u64 payload p) (\<lambda>conn_id. let p = p + 8 in
      rbind (rd_block payload p NGTCP2_STATELESS_RESET_TOKENLEN) (\<lambda>token.
      let p = p + NGTCP2_STATELESS_RESET_TOKENLEN in
      c_assert (p = len)
        (Ok (\<lparr>nci_seq = ucast seq, nci_conn_id = conn_id, nci_token = token\<rparr>, len))))))))"

definition ngtcp2_pkt_decode_stop_sending_frame :: "bytes \<Rightarrow> (ngtcp2_stop_sending \<times> nat) result" where
  "ngtcp2_pkt_decode_stop_sending_frame payload =
     (let len = 1 + 1 + 2 in need payload len (
      scan_varint payload len 1 (\<lambda>len _.
      rbind (rd_varint payload 1) (\<lambda>(stream_id, n). let p = 1 + n in
      rbind (rd_u16 payload p) (\<lambda>app_error_code. let p = p + 2 in
      c_assert (p = len)
        (Ok (\<lparr>ss_stream_id = stream_id, ss_app_error_code = app_error_code\<rparr>, len)))))))"

definition ngtcp2_pkt_decode_pong_frame :: "bytes \<Rightarrow> (bytes \<times> nat) result" where
  "ngtcp2_pkt_decode_pong_frame payload = decode_u8_data payload"

definition has_mask :: "u8 \<Rightarrow> u8 \<Rightarrow> bool" where
  "has_mask b mask' \<longleftrightarrow> b AND mask' = mask'"

text \<open>\<open>wrap\<close> stores the decoded structure in the union \<open>dest\<close>.\<close>

definition wrap :: "('a \<Rightarrow> ngtcp2_frame) \<Rightarrow> ('a \<times> nat) result \<Rightarrow> (ngtcp2_frame option \<times> nat) result" where
  "wrap c r = rbind r (\<lambda>(x, n). Ok (Some (c x), n))"

definition ngtcp2_pkt_decode_frame :: "bytes \<Rightarrow> (ngtcp2_frame option \<times> nat) result" where
  "ngtcp2_pkt_decode_frame payload =
     (if length payload = 0 then Ok (None, 0)
      else rbind (rd_u8 payload 0) (\<lambda>type.
        if has_mask type NGTCP2_FRAME_STREAM then wrap FR_STREAM (ngtcp2_pkt_decode_stream_frame payload)
        else if has_mask type NGTCP2_FRAME_ACK then wrap FR_ACK (ngtcp2_pkt_decode_ack_frame payload)
        else if type = NGTCP2_FRAME_PADDING then wrap FR_PADDING (ngtcp2_pkt_decode_padding_frame payload)
        else if type = NGTCP2_FRAME_RST_STREAM then wrap FR_RST_STREAM (ngtcp2_pkt_decode_rst_stream_frame payload)
        else if type = NGTCP2_FRAME_CONNECTION_CLOSE
          then wrap FR_CONNECTION_CLOSE (ngtcp2_pkt_decode_connection_close_frame payload)
        else if type = NGTCP2_FRAME_APPLICATION_CLOSE
          then wrap FR_APPLICATION_CLOSE (ngtcp2_pkt_decode_application_close_frame payload)
        else if type = NGTCP2_FRAME_MAX_DATA then wrap FR_MAX_DATA (ngtcp2_pkt_decode_max_data_frame payload)
        else if type = NGTCP2_FRAME_MAX_STREAM_DATA
          then wrap FR_MAX_STREAM_DATA (ngtcp2_pkt_decode_max_stream_data_frame payload)
        else if type = NGTCP2_FRAME_MAX_STREAM_ID
          then wrap FR_MAX_STREAM_ID (ngtcp2_pkt_decode_max_stream_id_frame payload)
        else if type = NGTCP2_FRAME_PING then wrap FR_PING (ngtcp2_pkt_decode_ping_frame payload)
        else if type = NGTCP2_FRAME_BLOCKED then wrap FR_BLOCKED (ngtcp2_pkt_decode_blocked_frame payload)
        else if type = NGTCP2_FRAME_STREAM_BLOCKED
          then wrap FR_STREAM_BLOCKED (ngtcp2_pkt_decode_stream_blocked_frame payload)
        else if type = NGTCP2_FRAME_STREAM_ID_BLOCKED
          then wrap FR_STREAM_ID_BLOCKED (ngtcp2_pkt_decode_stream_id_blocked_frame payload)
        else if type = NGTCP2_FRAME_NEW_CONNECTION_ID
          then wrap FR_NEW_CONNECTION_ID (ngtcp2_pkt_decode_new_connection_id_frame payload)
        else if type = NGTCP2_FRAME_STOP_SENDING
          then wrap FR_STOP_SENDING (ngtcp2_pkt_decode_stop_sending_frame payload)
        else if type = NGTCP2_FRAME_PONG then wrap FR_PONG (ngtcp2_pkt_decode_pong_frame payload)
        else Err NGTCP2_ERR_FRAME_FORMAT))"

section \<open>Encoders\<close>

text \<open>
  An encoder adds up the length of the frame, checks it against \<open>outlen\<close>, stores the parts one
  after the other and asserts that as many bytes as announced were stored. \<open>sum_lens\<close> adds
  the parts of the length, \<open>put_all\<close> stores the parts.
\<close>

fun sum_lens :: "nat result list \<Rightarrow> nat result" where
  "sum_lens [] = Ok 0"
| "sum_lens (x # xs) = rbind x (\<lambda>a. rbind (sum_lens xs) (\<lambda>b. Ok (a + b)))"

fun put_all :: "bytes result list \<Rightarrow> bytes result" where
  "put_all [] = Ok []"
| "put_all (x # xs) = rbind x (\<lambda>a. rbind (put_all xs) (\<lambda>b. Ok (a @ b)))"

definition emit :: "nat \<Rightarrow> nat result list \<Rightarrow> bytes result list \<Rightarrow> bytes result" where
  "emit outlen lens parts =
     rbind (sum_lens lens) (\<lambda>len. ret_if (outlen < len) NGTCP2_ERR_NOBUF (
     rbind (put_all parts) (\<lambda>out. c_assert (length out = len) (Ok out))))"

text \<open>The encoder of a STREAM frame also stores the flags in the frame.\<close>

definition stream_encode_flags :: "ngtcp2_stream \<Rightarrow> u8" where
  "stream_encode_flags fr =
     NGTCP2_STREAM_LEN_BIT OR (if st_fin fr then NGTCP2_STREAM_FIN_BIT else 0) OR
     (if st_offset fr \<noteq> 0 then NGTCP2_STREAM_OFF_BIT else 0)"

definition ngtcp2_pkt_encode_stream_frame :: "nat \<Rightarrow> ngtcp2_stream \<Rightarrow> (bytes \<times> ngtcp2_stream) result" where
  "ngtcp2_pkt_encode_stream_frame outlen fr =
     (let flags = stream_encode_flags fr; datalen = of_nat (length (st_data fr)) in
      rbind (emit outlen
        ([Ok 1] @ (if st_offset fr \<noteq> 0 then [ngtcp2_put_varint_len (st_offset fr)] else []) @
         [ngtcp2_put_varint_len (st_stream_id fr), ngtcp2_put_varint_len datalen, Ok (length (st_data fr))])
        ([Ok [flags OR NGTCP2_FRAME_STREAM], ngtcp2_put_varint (st_stream_id fr)] @
         (if st_offset fr \<noteq> 0 then [ngtcp2_put_varint (st_offset fr)] else []) @
         [ngtcp2_put_varint datalen, Ok (ngtcp2_cpymem (st_data fr) (length (st_data fr)))]))
        (\<lambda>out. Ok (out, fr\<lparr>st_flags := flags\<rparr>)))"

definition ngtcp2_pkt_encode_ack_frame :: "nat \<Rightarrow> ngtcp2_ack \<Rightarrow> bytes result" where
  "ngtcp2_pkt_encode_ack_frame outlen fr =
     (let num_blks = of_nat (length (ack_blks fr)) in
      emit outlen
        ([Ok 1, ngtcp2_put_varint_len (ack_largest_ack fr), ngtcp2_put_varint_len (ack_ack_delay fr),
          ngtcp2_put_varint_len num_blks, ngtcp2_put_varint_len (ack_first_ack_blklen fr)] @
         concat (map (\<lambda>blk. [ngtcp2_put_varint_len (blk_gap blk), ngtcp2_put_varint_len (blk_blklen blk)])
           (ack_blks fr)))
        ([Ok [NGTCP2_FRAME_ACK], ngtcp2_put_varint (ack_largest_ack fr), ngtcp2_put_varint (ack_ack_delay fr),
          ngtcp2_put_varint num_blks, ngtcp2_put_varint (ack_first_ack_blklen fr)] @
         concat (map (\<lambda>blk. [ngtcp2_put_varint (blk_gap blk), ngtcp2_put_varint (blk_blklen blk)])
           (ack_blks fr))))"

definition ngtcp2_pkt_encode_padding_frame :: "nat \<Rightarrow> nat \<Rightarrow> bytes result" where
  "ngtcp2_pkt_encode_padding_frame outlen len =
     ret_if (outlen < len) NGTCP2_ERR_NOBUF (Ok (replicate len 0))"

definition ngtcp2_pkt_encode_rst_stream_frame :: "nat \<Rightarrow> ngtcp2_rst_stream \<Rightarrow> bytes result" where
  "ngtcp2_pkt_encode_rst_stream_frame outlen fr =
     emit outlen
       [Ok 1, ngtcp2_put_varint_len (rst_stream_id fr), Ok 2, ngtcp2_put_varint_len (rst_final_offset fr)]
       [Ok [NGTCP2_FRAME_RST_STREAM], ngtcp2_put_varint (rst_stream_id fr),
        Ok (ngtcp2_put_uint16be (rst_app_error_code fr)), ngtcp2_put_varint (rst_final_offset fr)]"

definition encode_close :: "u8 \<Rightarrow> nat \<Rightarrow> ngtcp2_close \<Rightarrow> bytes result" where
  "encode_close type outlen fr =
     (let reasonlen = of_nat (length (cc_reason fr)) in
      emit outlen
        [Ok 1, Ok 2, ngtcp2_put_varint_len reasonlen, Ok (length (cc_reason fr))]
        [Ok [type], Ok (ngtcp2_put_uint16be (cc_error_code fr)), ngtcp2_put_varint reasonlen,
         Ok (ngtcp2_cpymem (cc_reason fr) (length (cc_reason fr)))])"

definition ngtcp2_pkt_encode_connection_close_frame :: "nat \<Rightarrow> ngtcp2_close \<Rightarrow> bytes result" where
  "ngtcp2_pkt_encode_connection_close_frame outlen fr = encode_close NGTCP2_FRAME_CONNECTION_CLOSE outlen fr"

definition ngtcp2_pkt_encode_application_close_frame :: "nat \<Rightarrow> ngtcp2_close \<Rightarrow> bytes result" where
  "ngtcp2_pkt_encode_application_close_frame outlen fr = encode_close NGTCP2_FRAME_APPLICATION_CLOSE outlen fr"

definition encode_one_varint :: "u8 \<Rightarrow> nat \<Rightarrow> u64 \<Rightarrow> bytes result" where
  "encode_one_varint type outlen v =
     emit outlen [Ok 1, ngtcp2_put_varint_len v] [Ok [type], ngtcp2_put_varint v]"

definition encode_two_varints :: "u8 \<Rightarrow> nat \<Rightarrow> u64 \<Rightarrow> u64 \<Rightarrow> bytes result" where
  "encode_two_varints type outlen v w =
     emit outlen [Ok 1, ngtcp2_put_varint_len v, ngtcp2_put_varint_len w]
       [Ok [type], ngtcp2_put_varint v, ngtcp2_put_varint w]"

definition ngtcp2_pkt_encode_max_data_frame :: "nat \<Rightarrow> u64 \<Rightarrow> bytes result" where
  "ngtcp2_pkt_encode_max_data_frame outlen max_data = encode_one_varint NGTCP2_FRAME_MAX_DATA outlen max_data"

definition ngtcp2_pkt_encode_max_stream_data_frame :: "nat \<Rightarrow> ngtcp2_max_stream_data \<Rightarrow> bytes result" where
  "ngtcp2_pkt_encode_max_stream_data_frame outlen fr =
     encode_two_varints NGTCP2_FRAME_MAX_STREAM_DATA outlen (msd_stream_id fr) (msd_max_stream_data fr)"

definition ngtcp2_pkt_encode_max_stream_id_frame :: "nat \<Rightarrow> u64 \<Rightarrow> bytes result" where
  "ngtcp2_pkt_encode_max_stream_id_frame outlen max_stream_id =
     encode_one_varint NGTCP2_FRAME_MAX_STREAM_ID outlen max_stream_id"

definition encode_u8_data :: "u8 \<Rightarrow> nat \<Rightarrow> bytes \<Rightarrow> bytes result" where
  "encode_u8_data type outlen data =
     emit outlen [Ok 1, Ok 1, Ok (length data)]
       [Ok [type], Ok [of_nat (length data)], Ok (ngtcp2_cpymem data (length data))]"

definition ngtcp2_pkt_encode_ping_frame :: "nat \<Rightarrow> bytes \<Rightarrow> bytes result" where
  "ngtcp2_pkt_encode_ping_frame outlen data = encode_u8_data NGTCP2_FRAME_PING outlen data"

definition ngtcp2_pkt_encode_blocked_frame :: "nat \<Rightarrow> u64 \<Rightarrow> bytes result" where
  "ngtcp2_pkt_encode_blocked_frame outlen offset = encode_one_varint NGTCP2_FRAME_BLOCKED outlen offset"

definition ngtcp2_pkt_encode_stream_blocked_frame :: "nat \<Rightarrow> ngtcp2_stream_blocked \<Rightarrow> bytes result" where
  "ngtcp2_pkt_encode_stream_blocked_frame outlen fr =
     encode_two_varints NGTCP2_FRAME_STREAM_BLOCKED outlen (sb_stream_id fr) (sb_offset fr)"

definition ngtcp2_pkt_encode_stream_id_blocked_frame :: "nat \<Rightarrow> u64 \<Rightarrow> bytes result" where
  "ngtcp2_pkt_encode_stream_id_blocked_frame outlen stream_id =
     encode_one_varint NGTCP2_FRAME_STREAM_ID_BLOCKED outlen stream_id"

definition ngtcp2_pkt_encode_new_connection_id_frame :: "nat \<Rightarrow> ngtcp2_new_connection_id \<Rightarrow> bytes result" where
  "ngtcp2_pkt_encode_new_connection_id_frame outlen fr =
     emit outlen
       [Ok 1, ngtcp2_put_varint_len (ucast (nci_seq fr)), Ok 8, Ok NGTCP2_STATELESS_RESET_TOKENLEN]
       [Ok [NGTCP2_FRAME_NEW_CONNECTION_ID], ngtcp2_put_varint (ucast (nci_seq fr)),
        Ok (ngtcp2_put_uint64be (nci_conn_id fr)),
        Ok (ngtcp2_cpymem (nci_token fr) NGTCP2_STATELESS_RESET_TOKENLEN)]"

definition ngtcp2_pkt_encode_stop_sending_frame :: "nat \<Rightarrow> ngtcp2_stop_sending \<Rightarrow> bytes result" where
  "ngtcp2_pkt_encode_stop_sending_frame outlen fr =
     emit outlen [Ok 1, ngtcp2_put_varint_len (ss_stream_id fr), Ok 2]
       [Ok [NGTCP2_FRAME_STOP_SENDING], ngtcp2_put_varint (ss_stream_id fr),
        Ok (ngtcp2_put_uint16be (ss_app_error_code fr))]"

definition ngtcp2_pkt_encode_pong_frame :: "nat \<Rightarrow> bytes \<Rightarrow> bytes result" where
  "ngtcp2_pkt_encode_pong_frame outlen data = encode_u8_data NGTCP2_FRAME_PONG outlen data"

text \<open>The bytes stored and the frame afterwards.\<close>

fun ngtcp2_pkt_encode_frame :: "nat \<Rightarrow> ngtcp2_frame \<Rightarrow> (bytes \<times> ngtcp2_frame) result" where
  "ngtcp2_pkt_encode_frame outlen (FR_STREAM fr) =
     rbind (ngtcp2_pkt_encode_stream_frame outlen fr) (\<lambda>(b, fr'). Ok (b, FR_STREAM fr'))"
| "ngtcp2_pkt_encode_frame outlen (FR_ACK fr) =
     rbind (ngtcp2_pkt_encode_ack_frame outlen fr) (\<lambda>b. Ok (b, FR_ACK fr))"
| "ngtcp2_pkt_encode_frame outlen (FR_PADDING len) =
     rbind (ngtcp2_pkt_encode_padding_frame outlen len) (\<lambda>b. Ok (b, FR_PADDING len))"
| "ngtcp2_pkt_encode_frame outlen (FR_RST_STREAM fr) =
     rbind (ngtcp2_pkt_encode_rst_stream_frame outlen fr) (\<lambda>b. Ok (b, FR_RST_STREAM fr))"
| "ngtcp2_pkt_encode_frame outlen (FR_CONNECTION_CLOSE fr) =
     rbind (ngtcp2_pkt_encode_connection_close_frame outlen fr) (\<lambda>b. Ok (b, FR_CONNECTION_CLOSE fr))"
| "ngtcp2_pkt_encode_frame outlen (FR_APPLICATION_CLOSE fr) =
     rbind (ngtcp2_pkt_encode_application_close_frame outlen fr) (\<lambda>b. Ok (b, FR_APPLICATION_CLOSE fr))"
| "ngtcp2_pkt_encode_frame outlen (FR_MAX_DATA v) =
     rbind (ngtcp2_pkt_encode_max_data_frame outlen v) (\<lambda>b. Ok (b, FR_MAX_DATA v))"
| "ngtcp2_pkt_encode_frame outlen (FR_MAX_STREAM_DATA fr) =
     rbind (ngtcp2_pkt_encode_max_stream_data_frame outlen fr) (\<lambda>b. Ok (b, FR_MAX_STREAM_DATA fr))"
| "ngtcp2_pkt_encode_frame outlen (FR_MAX_STREAM_ID v) =
     rbind (ngtcp2_pkt_encode_max_stream_id_frame outlen v) (\<lambda>b. Ok (b, FR_MAX_STREAM_ID v))"
| "ngtcp2_pkt_encode_frame outlen (FR_PING data) =
     rbind (ngtcp2_pkt_encode_ping_frame outlen data) (\<lambda>b. Ok (b, FR_PING data))"
| "ngtcp2_pkt_encode_frame outlen (FR_BLOCKED v) =
     rbind (ngtcp2_pkt_encode_blocked_frame outlen v) (\<lambda>b. Ok (b, FR_BLOCKED v))"
| "ngtcp2_pkt_encode_frame outlen (FR_STREAM_BLOCKED fr) =
     rbind (ngtcp2_pkt_encode_stream_blocked_frame outlen fr) (\<lambda>b. Ok (b, FR_STREAM_BLOCKED fr))"
| "ngtcp2_pkt_encode_frame outlen (FR_STREAM_ID_BLOCKED v) =
     rbind (ngtcp2_pkt_encode_stream_id_blocked_frame outlen v) (\<lambda>b. Ok (b, FR_STREAM_ID_BLOCKED v))"
| "ngtcp2_pkt_encode_frame outlen (FR_NEW_CONNECTION_ID fr) =
     rbind (ngtcp2_pkt_encode_new_connection_id_frame outlen fr) (\<lambda>b. Ok (b, FR_NEW_CONNECTION_ID fr))"
| "ngtcp2_pkt_encode_frame outlen (FR_STOP_SENDING fr) =
     rbind (ngtcp2_pkt_encode_stop_sending_frame outlen fr) (\<lambda>b. Ok (b, FR_STOP_SENDING fr))"
| "ngtcp2_pkt_encode_frame outlen (FR_PONG data) =
     rbind (ngtcp2_pkt_encode_pong_frame outlen data) (\<lambda>b. Ok (b, FR_PONG data))"

section \<open>Validation of ACK frames\<close>

fun validate_blks :: "u64 \<Rightarrow> ngtcp2_ack_blk list \<Rightarrow> rc" where
  "validate_blks largest_ack [] = None"
| "validate_blks largest_ack (blk # blks) =
     (if largest_ack < blk_gap blk + 2 then Some NGTCP2_ERR_ACK_FRAME
      else let largest_ack = largest_ack - (blk_gap blk + 2) in
        if largest_ack < blk_blklen blk then Some NGTCP2_ERR_ACK_FRAME
        else validate_blks (largest_ack - blk_blklen blk) blks)"

definition ngtcp2_pkt_validate_ack :: "ngtcp2_ack \<Rightarrow> rc" where
  "ngtcp2_pkt_validate_ack fr =
     (if ack_largest_ack fr < ack_first_ack_blklen fr then Some NGTCP2_ERR_ACK_FRAME
      else validate_blks (ack_largest_ack fr - ack_first_ack_blklen fr) (ack_blks fr))"

end
