(* ===== verification/Frame_Decode.thy ===== *)
theory Frame_Decode
  imports Pkt_Frames
begin

text \<open>
  Safety of the frame decoders of \<^verbatim>\<open>lib/ngtcp2_pkt.c\<close>: for every decoder, no read outside of the
  payload, no failing assertion, and the shape of the decoded frame (\<open>frame_ok\<close>).
\<close>

section \<open>Well-formed frames\<close>

text \<open>The frames that the decoder produces and that the encoder accepts.\<close>

abbreviation vint :: "u64 \<Rightarrow> bool" where
  "vint v \<equiv> unat v < 2 ^ 62"

fun frame_ok :: "ngtcp2_frame \<Rightarrow> bool" where
  "frame_ok (FR_STREAM fr) \<longleftrightarrow> vint (st_stream_id fr) \<and> vint (st_offset fr) \<and> length (st_data fr) < 2 ^ 62"
| "frame_ok (FR_ACK fr) \<longleftrightarrow> vint (ack_largest_ack fr) \<and> vint (ack_ack_delay fr) \<and> vint (ack_first_ack_blklen fr) \<and>
     length (ack_blks fr) \<le> NGTCP2_MAX_ACK_BLKS \<and> (\<forall>b \<in> set (ack_blks fr). vint (blk_gap b) \<and> vint (blk_blklen b))"
| "frame_ok (FR_PADDING len) \<longleftrightarrow> 1 \<le> len"
| "frame_ok (FR_RST_STREAM fr) \<longleftrightarrow> vint (rst_stream_id fr) \<and> vint (rst_final_offset fr)"
| "frame_ok (FR_CONNECTION_CLOSE fr) \<longleftrightarrow> length (cc_reason fr) < 2 ^ 62"
| "frame_ok (FR_APPLICATION_CLOSE fr) \<longleftrightarrow> length (cc_reason fr) < 2 ^ 62"
| "frame_ok (FR_MAX_DATA v) \<longleftrightarrow> vint v"
| "frame_ok (FR_MAX_STREAM_DATA fr) \<longleftrightarrow> vint (msd_stream_id fr) \<and> vint (msd_max_stream_data fr)"
| "frame_ok (FR_MAX_STREAM_ID v) \<longleftrightarrow> vint v"
| "frame_ok (FR_PING data) \<longleftrightarrow> length data < 256"
| "frame_ok (FR_BLOCKED v) \<longleftrightarrow> vint v"
| "frame_ok (FR_STREAM_BLOCKED fr) \<longleftrightarrow> vint (sb_stream_id fr) \<and> vint (sb_offset fr)"
| "frame_ok (FR_STREAM_ID_BLOCKED v) \<longleftrightarrow> vint v"
| "frame_ok (FR_NEW_CONNECTION_ID fr) \<longleftrightarrow> length (nci_token fr) = NGTCP2_STATELESS_RESET_TOKENLEN"
| "frame_ok (FR_STOP_SENDING fr) \<longleftrightarrow> vint (ss_stream_id fr)"
| "frame_ok (FR_PONG data) \<longleftrightarrow> length data < 256"

section \<open>Decoders are safe\<close>

definition varint_val :: "bytes \<Rightarrow> u64" where
  "varint_val p = fst (ngtcp2_get_varint p)"

lemma get_varint_eq: "ngtcp2_get_varint p = (varint_val p, ngtcp2_get_varint_len p)"
  by (simp add: varint_val_def snd_get_varint [symmetric])

lemma varint_val_bound: "ngtcp2_get_varint_len p \<le> length p \<Longrightarrow> vint (varint_val p)"
  unfolding varint_val_def by (rule get_varint_bound)

text \<open>\<open>dec_ok payload P r\<close>: no fault, the only error is a format error, the consumed length is
  within the payload and the decoded structure satisfies \<open>P\<close>.\<close>

definition dec_ok :: "bytes \<Rightarrow> ('a \<Rightarrow> bool) \<Rightarrow> ('a \<times> nat) result \<Rightarrow> bool" where
  "dec_ok payload P r \<longleftrightarrow> (case r of Ok (x, n) \<Rightarrow> 1 \<le> n \<and> n \<le> length payload \<and> P x
     | Err e \<Rightarrow> e = NGTCP2_ERR_FRAME_FORMAT | Fault \<Rightarrow> False)"

lemma dec_ok_simps [simp]:
  "dec_ok payload P (Ok (x, n)) \<longleftrightarrow> 1 \<le> n \<and> n \<le> length payload \<and> P x"
  "dec_ok payload P (Err e) \<longleftrightarrow> e = NGTCP2_ERR_FRAME_FORMAT" "\<not> dec_ok payload P Fault"
  by (simp_all add: dec_ok_def)

text \<open>
  \<open>vlen payload p\<close> and \<open>vval payload p\<close> are the length and the value of the variable-length integer
  at offset \<open>p\<close>.
\<close>

definition vlen :: "bytes \<Rightarrow> nat \<Rightarrow> nat" where
  "vlen payload p = ngtcp2_get_varint_len (drop p payload)"

definition vval :: "bytes \<Rightarrow> nat \<Rightarrow> u64" where
  "vval payload p = varint_val (drop p payload)"

lemma vlen_pos: "1 \<le> vlen payload p"
  using get_varint_len_pos by (simp add: vlen_def)

lemma vval_bound: "p < length payload \<Longrightarrow> p + vlen payload p \<le> length payload \<Longrightarrow> unat (vval payload p) < 4611686018427387904"
  using varint_val_bound [of "drop p payload"] by (simp add: vlen_def vval_def)

lemma rd_varint_eq: "rd_varint payload p =
    c_assert (p < length payload) (c_assert (p + vlen payload p \<le> length payload) (Ok (vval payload p, vlen payload p)))"
  by (simp add: rd_varint_def vlen_def vval_def get_varint_eq)

lemma rd_varint_len_eq: "rd_varint_len payload p = c_assert (p < length payload) (Ok (vlen payload p))"
  by (simp add: rd_varint_len_def vlen_def)

lemmas dec_defs = need_def scan_varint_def rd_varint_eq rd_varint_len_eq ret_if_def c_assert_def Let_def rd_defs

lemma dec_one_varint: "dec_ok payload vint (decode_one_varint payload)"
  using vlen_pos [of payload 1] by (auto simp: decode_one_varint_def dec_defs intro!: vval_bound)

lemma dec_two_varints: "dec_ok payload (\<lambda>(v, w). vint v \<and> vint w) (decode_two_varints payload)"
  using vlen_pos [of payload 1] vlen_pos [of payload "1 + vlen payload 1"]
  by (auto simp: decode_two_varints_def dec_defs intro!: vval_bound)

lemma dec_rst_stream: "dec_ok payload (\<lambda>fr. frame_ok (FR_RST_STREAM fr)) (ngtcp2_pkt_decode_rst_stream_frame payload)"
  using vlen_pos [of payload 1] vlen_pos [of payload "Suc (Suc (Suc (vlen payload 1)))"]
  by (auto simp: ngtcp2_pkt_decode_rst_stream_frame_def dec_defs intro!: vval_bound)

lemma dec_close: "dec_ok payload (\<lambda>fr. length (cc_reason fr) < 2 ^ 62) (decode_close payload)"
  using vlen_pos [of payload "Suc (Suc (Suc 0))"] vval_bound [of "Suc (Suc (Suc 0))" payload]
  by (auto simp: decode_close_def dec_defs min_def)

lemma dec_u8_data: "dec_ok payload (\<lambda>data. length data < 256) (decode_u8_data payload)"
  using unat_u8_less [of "payload ! 1"] by (auto simp: decode_u8_data_def dec_defs min_def simp del: unat_u8_less)

lemma dec_new_connection_id:
  "dec_ok payload (\<lambda>fr. frame_ok (FR_NEW_CONNECTION_ID fr)) (ngtcp2_pkt_decode_new_connection_id_frame payload)"
  using vlen_pos [of payload 1]
  by (auto simp: ngtcp2_pkt_decode_new_connection_id_frame_def dec_defs)

lemma dec_stop_sending:
  "dec_ok payload (\<lambda>fr. frame_ok (FR_STOP_SENDING fr)) (ngtcp2_pkt_decode_stop_sending_frame payload)"
  using vlen_pos [of payload 1]
  by (auto simp: ngtcp2_pkt_decode_stop_sending_frame_def dec_defs intro!: vval_bound)

lemma padding_run_le: "padding_run bs \<le> length bs"
  by (induction bs) auto

lemma dec_padding:
  "payload \<noteq> [] \<Longrightarrow> dec_ok payload (\<lambda>fr. frame_ok (FR_PADDING fr)) (ngtcp2_pkt_decode_padding_frame payload)"
  using padding_run_le [of "tl payload"]
  by (cases payload) (auto simp: ngtcp2_pkt_decode_padding_frame_def Let_def less_Suc_eq_le)

lemma dec_stream:
  assumes "length payload < 2 ^ 62"
  shows "dec_ok payload (\<lambda>fr. frame_ok (FR_STREAM fr)) (ngtcp2_pkt_decode_stream_frame payload)"
proof -
  let ?p1 = "1 + vlen payload 1"
  let ?p2 = "?p1 + vlen payload ?p1"
  show ?thesis
    using assms vlen_pos [of payload 1] vlen_pos [of payload ?p1] vlen_pos [of payload ?p2]
    by (auto simp: ngtcp2_pkt_decode_stream_frame_def dec_defs min_def intro!: vval_bound)
qed

text \<open>ACK frames: \<open>blks_end payload k p\<close> is the offset behind \<open>k\<close> pairs of integers that start at \<open>p\<close>.\<close>

fun blks_end :: "bytes \<Rightarrow> nat \<Rightarrow> nat \<Rightarrow> nat" where
  "blks_end payload 0 p = p"
| "blks_end payload (Suc k) p =
     (let p1 = p + vlen payload p in blks_end payload k (p1 + vlen payload p1))"

lemma blks_end_ge: "p + 2 * k \<le> blks_end payload k p"
proof (induction k arbitrary: p)
  case (Suc k)
  let ?p1 = "p + vlen payload p"
  show ?case
    using Suc [of "?p1 + vlen payload ?p1"] vlen_pos [of payload p] vlen_pos [of payload ?p1] by (simp add: Let_def)
qed simp

lemma blks_end_add: "blks_end payload (j + k) p = blks_end payload k (blks_end payload j p)"
  by (induction j arbitrary: p) (simp_all add: Let_def)

lemma scan_blks:
  assumes "len = p + 2 * k" and "len \<le> length payload"
  shows "ack_scan_blks payload k len p =
    (if blks_end payload k p \<le> length payload then Ok (blks_end payload k p, blks_end payload k p)
     else Err NGTCP2_ERR_FRAME_FORMAT)"
  using assms
proof (induction k arbitrary: p len)
  case (Suc k)
  let ?p1 = "p + vlen payload p"
  let ?p2 = "?p1 + vlen payload ?p1"
  note pos = vlen_pos [of payload p] vlen_pos [of payload ?p1]
  show ?case
  proof (cases "?p2 + 2 * k \<le> length payload")
    case True
    have "len + vlen payload p - 1 + vlen payload ?p1 - 1 = ?p2 + 2 * k" using Suc.prems(1) pos by simp
    then show ?thesis using True Suc.prems(1) pos by (simp add: dec_defs Suc.IH)
  next
    case False
    then show ?thesis using Suc.prems blks_end_ge [of ?p2 k payload] pos by (simp add: dec_defs)
  qed
qed simp

lemma read_blks:
  assumes "blks_end payload k p \<le> length payload"
  shows "\<exists>bl. ack_read_blks payload k p = Ok (bl, blks_end payload k p) \<and> length bl = k \<and>
    (\<forall>b \<in> set bl. vint (blk_gap b) \<and> vint (blk_blklen b))"
  using assms
proof (induction k arbitrary: p)
  case (Suc k)
  let ?p1 = "p + vlen payload p"
  let ?p2 = "?p1 + vlen payload ?p1"
  have le: "?p2 \<le> length payload"
    using Suc.prems blks_end_ge [of ?p2 k payload] by (simp add: Let_def)
  have lt: "p < length payload" "?p1 < length payload"
    using le vlen_pos [of payload p] vlen_pos [of payload ?p1] by linarith+
  obtain bl where "ack_read_blks payload k ?p2 = Ok (bl, blks_end payload k ?p2)" "length bl = k"
    "\<forall>b \<in> set bl. vint (blk_gap b) \<and> vint (blk_blklen b)"
    using Suc.IH [of ?p2] Suc.prems by (auto simp: Let_def)
  then show ?case
    using le lt vval_bound [of p payload] vval_bound [of ?p1 payload] by (simp add: rd_varint_eq Let_def)
qed simp

lemma skip_blks:
  assumes "blks_end payload k p \<le> length payload"
  shows "ack_skip_blks payload k p = Ok (blks_end payload k p)"
  using assms
proof (induction k arbitrary: p)
  case (Suc k)
  let ?p1 = "p + vlen payload p"
  let ?p2 = "?p1 + vlen payload ?p1"
  have "?p2 \<le> length payload" using Suc.prems blks_end_ge [of ?p2 k payload] by (simp add: Let_def)
  then have "p < length payload" "?p1 < length payload"
    using vlen_pos [of payload p] vlen_pos [of payload ?p1] by linarith+
  then show ?case using Suc by (simp add: rd_varint_len_eq Let_def)
qed simp

text \<open>The decoder of ACK frames in terms of the offsets \<open>p1\<close> to \<open>p4\<close> behind its four leading integers.\<close>

lemma decode_ack_front:
  assumes p1: "p1 = Suc (vlen payload (Suc 0))" and p2: "p2 = p1 + vlen payload p1"
    and p3: "p3 = p2 + vlen payload p2" and p4: "p4 = p3 + vlen payload p3"
    and k: "k = unat (vval payload p2)" and m: "m = min NGTCP2_MAX_ACK_BLKS k"
  shows "ngtcp2_pkt_decode_ack_frame payload =
    (if length payload < p4 + 2 * k then Err NGTCP2_ERR_FRAME_FORMAT
     else rbind (ack_scan_blks payload k (p4 + 2 * k) p4) (\<lambda>(len, _).
       rbind (ack_read_blks payload m p4) (\<lambda>(blks, p).
       rbind (ack_skip_blks payload (k - m) p) (\<lambda>p.
       c_assert (p = len)
        (Ok (\<lparr>ack_largest_ack = vval payload (Suc 0), ack_ack_delay = vval payload p1,
              ack_first_ack_blklen = vval payload p3, ack_blks = blks\<rparr>, len))))))"
  using vlen_pos [of payload "Suc 0"] vlen_pos [of payload p1] vlen_pos [of payload p2] vlen_pos [of payload p3]
  unfolding ngtcp2_pkt_decode_ack_frame_def m k p4 p3 p2 p1 by (auto simp: dec_defs mult_2 ac_simps)

lemma dec_ack: "dec_ok payload (\<lambda>fr. frame_ok (FR_ACK fr)) (ngtcp2_pkt_decode_ack_frame payload)"
proof -
  define p1 where p1: "p1 = Suc (vlen payload (Suc 0))"
  define p2 where p2: "p2 = p1 + vlen payload p1"
  define p3 where p3: "p3 = p2 + vlen payload p2"
  define p4 where p4: "p4 = p3 + vlen payload p3"
  define k where k: "k = unat (vval payload p2)"
  define m where m: "m = min NGTCP2_MAX_ACK_BLKS k"
  note pos = vlen_pos [of payload "Suc 0"] vlen_pos [of payload p1] vlen_pos [of payload p2] vlen_pos [of payload p3]
  note front = decode_ack_front [OF p1 p2 p3 p4 k m]
  have ends: "blks_end payload (k - m) (blks_end payload m p4) = blks_end payload k p4"
    by (simp add: m flip: blks_end_add)
  consider "length payload < p4 + 2 * k" | "p4 + 2 * k \<le> length payload" "length payload < blks_end payload k p4"
    | "p4 + 2 * k \<le> length payload" "blks_end payload k p4 \<le> length payload" by linarith
  then show ?thesis
  proof cases
    case 3
    have "blks_end payload m p4 \<le> length payload"
      using blks_end_ge [of "blks_end payload m p4" "k - m" payload] 3(2) unfolding ends by linarith
    then obtain bl where "ack_read_blks payload m p4 = Ok (bl, blks_end payload m p4)" "length bl = m"
      "\<forall>b \<in> set bl. vint (blk_gap b) \<and> vint (blk_blklen b)"
      using read_blks by blast
    moreover have "vint (vval payload (Suc 0))" "vint (vval payload p1)" "vint (vval payload p3)"
      using 3(1) pos vval_bound [of "Suc 0" payload] vval_bound [of p1 payload] vval_bound [of p3 payload]
      by (simp_all add: p1 p2 p3 p4)
    moreover have "ack_skip_blks payload (k - m) (blks_end payload m p4) = Ok (blks_end payload k p4)"
      using skip_blks [of payload "k - m" "blks_end payload m p4"] 3(2) unfolding ends by simp
    moreover have "m \<le> NGTCP2_MAX_ACK_BLKS" "1 \<le> blks_end payload k p4"
      using pos blks_end_ge [of p4 k payload] p4 by (simp_all add: m)
    ultimately show ?thesis using 3 by (simp add: front scan_blks)
  qed (simp_all add: front scan_blks)
qed

text \<open>The dispatcher.\<close>

definition frame_dec_ok :: "bytes \<Rightarrow> (ngtcp2_frame option \<times> nat) result \<Rightarrow> bool" where
  "frame_dec_ok payload r \<longleftrightarrow>
     (\<exists>fr n. r = Ok (Some fr, n) \<and> frame_ok fr \<and> 1 \<le> n \<and> n \<le> length payload) \<or> r = Err NGTCP2_ERR_FRAME_FORMAT"

lemma frame_dec_ok_wrap:
  assumes "dec_ok payload P r" and "\<And>x. P x \<Longrightarrow> frame_ok (c x)"
  shows "frame_dec_ok payload (wrap c r)"
  using assms by (cases r) (auto simp: frame_dec_ok_def wrap_def dec_ok_def)

lemma dec_max_stream_data:
  "dec_ok payload (\<lambda>fr. frame_ok (FR_MAX_STREAM_DATA fr)) (ngtcp2_pkt_decode_max_stream_data_frame payload)"
  "dec_ok payload (\<lambda>fr. frame_ok (FR_STREAM_BLOCKED fr)) (ngtcp2_pkt_decode_stream_blocked_frame payload)"
  using dec_two_varints [of payload]
  by (cases "decode_two_varints payload";
      force simp: ngtcp2_pkt_decode_max_stream_data_frame_def ngtcp2_pkt_decode_stream_blocked_frame_def dec_ok_def)+

lemma decode_frame_ok:
  assumes "payload \<noteq> []" and "length payload < 2 ^ 62"
  shows "frame_dec_ok payload (ngtcp2_pkt_decode_frame payload)"
proof -
  note decs = dec_stream [OF assms(2)] dec_ack dec_padding [OF assms(1)] dec_rst_stream dec_max_stream_data
    dec_new_connection_id dec_stop_sending
  have leaf: "frame_dec_ok payload (Err NGTCP2_ERR_FRAME_FORMAT)" by (simp add: frame_dec_ok_def)
  have if_ok: "frame_dec_ok payload (if b then r else r')"
    if "frame_dec_ok payload r" "frame_dec_ok payload r'" for b r r' using that by simp
  have "rd_u8 payload 0 = Ok (payload ! 0)" using assms(1) by (simp add: rd_u8_def)
  then show ?thesis
    using assms(1) unfolding ngtcp2_pkt_decode_frame_def ngtcp2_pkt_decode_connection_close_frame_def
      ngtcp2_pkt_decode_application_close_frame_def ngtcp2_pkt_decode_max_data_frame_def
      ngtcp2_pkt_decode_max_stream_id_frame_def ngtcp2_pkt_decode_ping_frame_def ngtcp2_pkt_decode_pong_frame_def
      ngtcp2_pkt_decode_blocked_frame_def ngtcp2_pkt_decode_stream_id_blocked_frame_def
    by (simp only: length_0_conv if_False rbind.simps)
      (intro if_ok leaf frame_dec_ok_wrap [OF decs(1)] frame_dec_ok_wrap [OF decs(2)] frame_dec_ok_wrap [OF decs(3)]
        frame_dec_ok_wrap [OF decs(4)] frame_dec_ok_wrap [OF decs(5)] frame_dec_ok_wrap [OF decs(6)]
        frame_dec_ok_wrap [OF decs(7)] frame_dec_ok_wrap [OF decs(8)]
        frame_dec_ok_wrap [OF dec_close] frame_dec_ok_wrap [OF dec_one_varint] frame_dec_ok_wrap [OF dec_u8_data];
       simp)
qed

section \<open>Properties\<close>

text \<open>
  C14. Safety of the frame decoder on arbitrary bytes: whatever a payload contains, decoding the frame
  at its front never reads outside of the payload and never trips an assertion; it returns
  NGTCP2\_ERR\_FRAME\_FORMAT or a well-formed frame, and then consumes at least one byte (so the
  loop over the frames of a packet ends) and at most the payload.
\<close>

theorem decode_frame_safe:
  assumes "payload \<noteq> []" and "length payload < 2 ^ 62"
  shows "(\<exists>fr n. ngtcp2_pkt_decode_frame payload = Ok (Some fr, n) \<and> frame_ok fr \<and> 1 \<le> n \<and> n \<le> length payload) \<or>
    ngtcp2_pkt_decode_frame payload = Err NGTCP2_ERR_FRAME_FORMAT"
  using decode_frame_ok [OF assms] unfolding frame_dec_ok_def .

theorem decode_frame_safe_witness:
  "(\<exists>fr n. ngtcp2_pkt_decode_frame [0x12, 0x04, 0x7f] = Ok (Some fr, n) \<and> frame_ok fr \<and> 1 \<le> n \<and>
      n \<le> length [0x12::u8, 0x04, 0x7f]) \<or>
    ngtcp2_pkt_decode_frame [0x12, 0x04, 0x7f] = Err NGTCP2_ERR_FRAME_FORMAT"
  by (rule decode_frame_safe) simp_all

end
