(* ===== verification/Frame_Codec.thy ===== *)
theory Frame_Codec
  imports Frame_Decode
begin

text \<open>
  Round trips of the frame codec of \<^verbatim>\<open>lib/ngtcp2_pkt.c\<close>: every encoder is inverted by the decoder
  that the dispatcher chooses; validation of ACK frames against ranges over the integers.
\<close>

section \<open>Encoders and decoders are inverse\<close>

text \<open>\<open>sent fr\<close> is the frame after encoding: the encoder of STREAM frames records the flags it chose.\<close>

fun sent :: "ngtcp2_frame \<Rightarrow> ngtcp2_frame" where
  "sent (FR_STREAM fr) = FR_STREAM (fr\<lparr>st_flags := stream_encode_flags fr\<rparr>)"
| "sent fr = fr"

definition codec_ok :: "bytes \<Rightarrow> ngtcp2_frame \<Rightarrow> bool" where
  "codec_ok rest fr \<longleftrightarrow> (\<exists>bs. bs \<noteq> [] \<and> 
     (\<forall>outlen. ngtcp2_pkt_encode_frame outlen fr =
       (if outlen < length bs then Err NGTCP2_ERR_NOBUF else Ok (bs, sent fr))) \<and>
     ngtcp2_pkt_decode_frame (bs @ rest) = Ok (Some (sent fr), length bs))"

lemma emit_eq:
  "sum_lens lens = Ok n \<Longrightarrow> put_all parts = Ok bs \<Longrightarrow> length bs = n \<Longrightarrow>
    emit outlen lens parts = (if outlen < length bs then Err NGTCP2_ERR_NOBUF else Ok bs)"
  by (simp add: emit_def ret_if_def c_assert_def)

lemmas read_defs = need_def scan_varint_def rd_varint_def rd_varint_len_def rd_defs Let_def wrap_def
  ngtcp2_pkt_decode_frame_def has_mask_def

lemma put_varint_facts:
  assumes "ngtcp2_put_varint v = Ok bs"
  shows "ngtcp2_get_varint (bs @ r) = (v, length bs)" "ngtcp2_get_varint_len (bs @ r) = length bs"
    "ngtcp2_put_varint_len v = Ok (length bs)" "1 \<le> length bs" "bs \<noteq> []"
  using assms get_put_varint get_put_varint_len put_varint_len_eq get_varint_len_pos(2) [of "bs @ r"] by force+

lemma encode_one_varint_ok:
  assumes "vint v" and "type \<in> {4, 6, 8, 10}"
  obtains bs where "\<And>outlen. encode_one_varint type outlen v =
      (if outlen < length (type # bs) then Err NGTCP2_ERR_NOBUF else Ok (type # bs))"
    "\<And>rest. decode_one_varint ((type # bs) @ rest) = Ok (v, length (type # bs))"
proof -
  obtain bs where bs: "ngtcp2_put_varint v = Ok bs" using assms(1) put_varint_Ok by blast
  note f = put_varint_facts [OF bs]
  show ?thesis
  proof (rule that [of bs])
    show "encode_one_varint type outlen v =
      (if outlen < length (type # bs) then Err NGTCP2_ERR_NOBUF else Ok (type # bs))" for outlen
      using bs f(3) by (simp add: encode_one_varint_def emit_eq)
    show "decode_one_varint ((type # bs) @ rest) = Ok (v, length (type # bs))" for rest
      using f by (simp add: decode_one_varint_def read_defs)
  qed
qed

lemma encode_two_varints_ok:
  assumes "vint v" "vint w" and "type \<in> {5, 9}"
  obtains bs where "\<And>outlen. encode_two_varints type outlen v w =
      (if outlen < length (type # bs) then Err NGTCP2_ERR_NOBUF else Ok (type # bs))"
    "\<And>rest. decode_two_varints ((type # bs) @ rest) = Ok ((v, w), length (type # bs))"
proof -
  obtain bs cs where bs: "ngtcp2_put_varint v = Ok bs" "ngtcp2_put_varint w = Ok cs"
    using assms(1,2) put_varint_Ok by meson
  note f = put_varint_facts [OF bs(1)] put_varint_facts [OF bs(2)]
  show ?thesis
  proof (rule that [of "bs @ cs"])
    show "encode_two_varints type outlen v w =
      (if outlen < length (type # bs @ cs) then Err NGTCP2_ERR_NOBUF else Ok (type # bs @ cs))" for outlen
      using bs f(3,8) by (simp add: encode_two_varints_def emit_eq)
    show "decode_two_varints ((type # bs @ cs) @ rest) = Ok ((v, w), length (type # bs @ cs))" for rest
      using f by (simp add: decode_two_varints_def read_defs)
  qed
qed

lemma unat_len: "length (d::bytes) < 2 ^ 62 \<Longrightarrow> unat (of_nat (length d) :: u64) = length d"
  by (intro unat_of_nat_small) simp

lemma encode_close_ok:
  assumes "length (cc_reason fr) < 2 ^ 62" and "type \<in> {2, 3}"
  obtains bs where "\<And>outlen. encode_close type outlen fr =
      (if outlen < length (type # bs) then Err NGTCP2_ERR_NOBUF else Ok (type # bs))"
    "\<And>rest. decode_close ((type # bs) @ rest) = Ok (fr, length (type # bs))"
proof -
  let ?l = "of_nat (length (cc_reason fr)) :: u64"
  have l: "unat ?l = length (cc_reason fr)" using assms(1) by (rule unat_len)
  obtain bs where bs: "ngtcp2_put_varint ?l = Ok bs" using assms(1) l put_varint_Ok by metis
  note f = put_varint_facts [OF bs]
  let ?bs = "ngtcp2_put_uint16be (cc_error_code fr) @ bs @ cc_reason fr"
  have e: "?l = 0 \<longleftrightarrow> cc_reason fr = []" using l by (metis length_0_conv unat_eq_0)
  show ?thesis
  proof (rule that [of ?bs])
    show "encode_close type outlen fr =
      (if outlen < length (type # ?bs) then Err NGTCP2_ERR_NOBUF else Ok (type # ?bs))" for outlen
      using bs f(3) by (simp add: encode_close_def emit_eq ngtcp2_cpymem_def)
    show "decode_close ((type # ?bs) @ rest) = Ok (fr, length (type # ?bs))" for rest
      using f l e by (simp add: decode_close_def read_defs codec_simps)
  qed
qed

lemma encode_u8_data_ok:
  assumes "length data < 256" and "type \<in> {7, 13}"
  shows "encode_u8_data type outlen data =
      (if outlen < length (type # of_nat (length data) # data) then Err NGTCP2_ERR_NOBUF
       else Ok (type # of_nat (length data) # data))"
    "decode_u8_data ((type # of_nat (length data) # data) @ rest) = Ok (data, length (type # of_nat (length data) # data))"
proof -
  have l: "unat (of_nat (length data) :: u8) = length data" using assms(1) by (intro unat_of_nat_small) simp
  then have e: "(of_nat (length data) :: u8) = 0 \<longleftrightarrow> data = []" by (metis length_0_conv unat_eq_0)
  show "encode_u8_data type outlen data =
      (if outlen < length (type # of_nat (length data) # data) then Err NGTCP2_ERR_NOBUF
       else Ok (type # of_nat (length data) # data))"
    by (simp add: encode_u8_data_def emit_eq ngtcp2_cpymem_def)
  show "decode_u8_data ((type # of_nat (length data) # data) @ rest) = Ok (data, length (type # of_nat (length data) # data))"
    using l e by (simp add: decode_u8_data_def read_defs)
qed

lemma codec_rst_stream: "frame_ok (FR_RST_STREAM fr) \<Longrightarrow> codec_ok rest (FR_RST_STREAM fr)"
proof -
  assume ok: "frame_ok (FR_RST_STREAM fr)"
  then obtain bs cs where bs: "ngtcp2_put_varint (rst_stream_id fr) = Ok bs" "ngtcp2_put_varint (rst_final_offset fr) = Ok cs"
    using put_varint_Ok by (metis frame_ok.simps(4))
  note f = put_varint_facts [OF bs(1)] put_varint_facts [OF bs(2)]
  let ?bs = "NGTCP2_FRAME_RST_STREAM # bs @ ngtcp2_put_uint16be (rst_app_error_code fr) @ cs"
  have "ngtcp2_pkt_encode_rst_stream_frame outlen fr = (if outlen < length ?bs then Err NGTCP2_ERR_NOBUF else Ok ?bs)" for outlen
    using bs f(3,8) by (simp add: ngtcp2_pkt_encode_rst_stream_frame_def emit_eq)
  moreover have "ngtcp2_pkt_decode_frame (?bs @ rest) = Ok (Some (FR_RST_STREAM fr), length ?bs)"
    using f by (simp add: ngtcp2_pkt_decode_rst_stream_frame_def read_defs codec_simps)
  ultimately show ?thesis unfolding codec_ok_def by (intro exI [of _ ?bs]) simp
qed

lemma codec_stop_sending: "frame_ok (FR_STOP_SENDING fr) \<Longrightarrow> codec_ok rest (FR_STOP_SENDING fr)"
proof -
  assume ok: "frame_ok (FR_STOP_SENDING fr)"
  then obtain bs where bs: "ngtcp2_put_varint (ss_stream_id fr) = Ok bs" using put_varint_Ok by (metis frame_ok.simps(15))
  note f = put_varint_facts [OF bs]
  let ?bs = "NGTCP2_FRAME_STOP_SENDING # bs @ ngtcp2_put_uint16be (ss_app_error_code fr)"
  have "ngtcp2_pkt_encode_stop_sending_frame outlen fr = (if outlen < length ?bs then Err NGTCP2_ERR_NOBUF else Ok ?bs)" for outlen
    using bs f(3) by (simp add: ngtcp2_pkt_encode_stop_sending_frame_def emit_eq)
  moreover have "ngtcp2_pkt_decode_frame (?bs @ rest) = Ok (Some (FR_STOP_SENDING fr), length ?bs)"
    using f by (simp add: ngtcp2_pkt_decode_stop_sending_frame_def read_defs codec_simps)
  ultimately show ?thesis unfolding codec_ok_def by (intro exI [of _ ?bs]) simp
qed

lemma codec_new_connection_id: "frame_ok (FR_NEW_CONNECTION_ID fr) \<Longrightarrow> codec_ok rest (FR_NEW_CONNECTION_ID fr)"
proof -
  assume ok: "frame_ok (FR_NEW_CONNECTION_ID fr)"
  have "unat (ucast (nci_seq fr) :: u64) < 2 ^ 62"
    using order_less_le_trans [OF unat_u16_less [of "nci_seq fr"]] by simp
  then obtain bs where bs: "ngtcp2_put_varint (ucast (nci_seq fr)) = Ok bs" using put_varint_Ok by blast
  note f = put_varint_facts [OF bs]
  let ?bs = "NGTCP2_FRAME_NEW_CONNECTION_ID # bs @ ngtcp2_put_uint64be (nci_conn_id fr) @ nci_token fr"
  have "ngtcp2_pkt_encode_new_connection_id_frame outlen fr = (if outlen < length ?bs then Err NGTCP2_ERR_NOBUF else Ok ?bs)" for outlen
    using bs f(3) ok by (simp add: ngtcp2_pkt_encode_new_connection_id_frame_def emit_eq ngtcp2_cpymem_def)
  moreover have "ngtcp2_pkt_decode_frame (?bs @ rest) = Ok (Some (FR_NEW_CONNECTION_ID fr), length ?bs)"
    using f ok by (simp add: ngtcp2_pkt_decode_new_connection_id_frame_def read_defs codec_simps drop_Cons')
  ultimately show ?thesis unfolding codec_ok_def by (intro exI [of _ ?bs]) simp
qed

lemma padding_run_replicate: "padding_run (replicate k 0 @ rest) = k + padding_run rest"
  by (induction k) auto

lemma codec_padding: "frame_ok (FR_PADDING len) \<Longrightarrow> padding_run rest = 0 \<Longrightarrow> codec_ok rest (FR_PADDING len)"
proof -
  assume ok: "frame_ok (FR_PADDING len)" and r: "padding_run rest = 0"
  then obtain k where k: "len = Suc k" by (cases len) auto
  have "ngtcp2_pkt_encode_padding_frame outlen len =
      (if outlen < length (replicate len 0) then Err NGTCP2_ERR_NOBUF else Ok (replicate len 0))" for outlen
    by (simp add: ngtcp2_pkt_encode_padding_frame_def ret_if_def)
  moreover have "ngtcp2_pkt_decode_frame (replicate len 0 @ rest) = Ok (Some (FR_PADDING len), length (replicate len (0::u8)))"
    using k r by (simp add: ngtcp2_pkt_decode_padding_frame_def read_defs padding_run_replicate)
  ultimately show ?thesis unfolding codec_ok_def using k by (intro exI [of _ "replicate len 0"]) simp
qed

text \<open>The first byte of a STREAM frame.\<close>

lemma stream_flags:
  fixes fr :: ngtcp2_stream
  defines "b \<equiv> stream_encode_flags fr OR NGTCP2_FRAME_STREAM"
  shows "b AND NGTCP2_FRAME_STREAM = NGTCP2_FRAME_STREAM" "b AND NGTCP2_STREAM_LEN_BIT \<noteq> 0"
    "b AND NGTCP2_STREAM_OFF_BIT \<noteq> 0 \<longleftrightarrow> st_offset fr \<noteq> 0" "b AND NGTCP2_STREAM_FIN_BIT \<noteq> 0 \<longleftrightarrow> st_fin fr"
    "b AND NOT NGTCP2_FRAME_STREAM = stream_encode_flags fr"
  by (auto simp: b_def stream_encode_flags_def)

lemma codec_stream: "frame_ok (FR_STREAM fr) \<Longrightarrow> codec_ok rest (FR_STREAM fr)"
proof -
  assume ok: "frame_ok (FR_STREAM fr)"
  let ?l = "of_nat (length (st_data fr)) :: u64" and ?b = "stream_encode_flags fr OR NGTCP2_FRAME_STREAM"
  have l: "unat ?l = length (st_data fr)" using ok by (intro unat_len) simp
  obtain bs cs ds where bs: "ngtcp2_put_varint (st_stream_id fr) = Ok bs" "ngtcp2_put_varint (st_offset fr) = Ok cs"
    "ngtcp2_put_varint ?l = Ok ds"
    using ok l put_varint_Ok by (metis frame_ok.simps(1))
  note f = put_varint_facts [OF bs(1)] put_varint_facts [OF bs(2)] put_varint_facts [OF bs(3)]
  let ?bs = "?b # bs @ (if st_offset fr \<noteq> 0 then cs else []) @ ds @ st_data fr"
  have "ngtcp2_pkt_encode_stream_frame outlen fr = (if outlen < length ?bs then Err NGTCP2_ERR_NOBUF
      else Ok (?bs, fr\<lparr>st_flags := stream_encode_flags fr\<rparr>))" for outlen
    using bs f(3,8,13) by (auto simp: ngtcp2_pkt_encode_stream_frame_def emit_eq ngtcp2_cpymem_def Let_def)
  moreover have "ngtcp2_pkt_decode_frame (?bs @ rest) = Ok (Some (sent (FR_STREAM fr)), length ?bs)"
    using f l stream_flags [of fr] by (auto simp: ngtcp2_pkt_decode_stream_frame_def read_defs)
  ultimately show ?thesis unfolding codec_ok_def by (intro exI [of _ ?bs]) simp
qed

text \<open>The blocks of an ACK frame.\<close>

lemma sum_lens_append: "sum_lens (xs @ ys) = rbind (sum_lens xs) (\<lambda>a. rbind (sum_lens ys) (\<lambda>b. Ok (a + b)))"
proof (induction xs)
  case Nil
  then show ?case by (cases "sum_lens ys") simp_all
next
  case (Cons x xs)
  then show ?case by (cases x; cases "sum_lens xs"; cases "sum_lens ys") simp_all
qed

lemma put_all_append: "put_all (xs @ ys) = rbind (put_all xs) (\<lambda>a. rbind (put_all ys) (\<lambda>b. Ok (a @ b)))"
proof (induction xs)
  case Nil
  then show ?case by (cases "put_all ys") simp_all
next
  case (Cons x xs)
  then show ?case by (cases x; cases "put_all xs"; cases "put_all ys") simp_all
qed

lemma ack_blks_codec:
  assumes "\<forall>b \<in> set bl. vint (blk_gap b) \<and> vint (blk_blklen b)"
  obtains bs where
    "put_all (concat (map (\<lambda>blk. [ngtcp2_put_varint (blk_gap blk), ngtcp2_put_varint (blk_blklen blk)]) bl)) = Ok bs"
    "sum_lens (concat (map (\<lambda>blk. [ngtcp2_put_varint_len (blk_gap blk), ngtcp2_put_varint_len (blk_blklen blk)]) bl)) =
      Ok (length bs)"
    "2 * length bl \<le> length bs"
    "\<forall>pre rest. ack_read_blks (pre @ bs @ rest) (length bl) (length pre) = Ok (bl, length pre + length bs) \<and>
       blks_end (pre @ bs @ rest) (length bl) (length pre) = length pre + length bs"
  using assms
proof (induction bl arbitrary: thesis)
  case Nil
  then show ?case by simp
next
  case (Cons b bl)
  obtain bs where IH:
    "put_all (concat (map (\<lambda>blk. [ngtcp2_put_varint (blk_gap blk), ngtcp2_put_varint (blk_blklen blk)]) bl)) = Ok bs"
    "sum_lens (concat (map (\<lambda>blk. [ngtcp2_put_varint_len (blk_gap blk), ngtcp2_put_varint_len (blk_blklen blk)]) bl)) =
      Ok (length bs)"
    "2 * length bl \<le> length bs"
    "\<forall>pre rest. ack_read_blks (pre @ bs @ rest) (length bl) (length pre) = Ok (bl, length pre + length bs) \<and>
       blks_end (pre @ bs @ rest) (length bl) (length pre) = length pre + length bs"
    using Cons.IH Cons.prems(2) by auto
  obtain gs ls where p: "ngtcp2_put_varint (blk_gap b) = Ok gs" "ngtcp2_put_varint (blk_blklen b) = Ok ls"
    using Cons.prems(2) put_varint_Ok by (metis list.set_intros(1))
  note f = put_varint_facts [OF p(1)] put_varint_facts [OF p(2)]
  have tail: "ack_read_blks (pre @ gs @ ls @ bs @ rest) (length bl) (length pre + length gs + length ls) =
      Ok (bl, length pre + length gs + length ls + length bs) \<and>
    blks_end (pre @ gs @ ls @ bs @ rest) (length bl) (length pre + length gs + length ls) =
      length pre + length gs + length ls + length bs" for pre rest
    using IH(4) [rule_format, of "pre @ gs @ ls" rest] by (simp add: add.assoc)
  have "ack_read_blks (pre @ (gs @ ls @ bs) @ rest) (length (b # bl)) (length pre) =
      Ok (b # bl, length pre + length (gs @ ls @ bs)) \<and>
    blks_end (pre @ (gs @ ls @ bs) @ rest) (length (b # bl)) (length pre) = length pre + length (gs @ ls @ bs)" for pre rest
    using f tail [of pre rest] by (simp add: rd_varint_def vlen_def Let_def)
  then show ?case
    using IH(1-3) p f(3,8,4,9) by (intro Cons.prems(1) [of "gs @ ls @ bs"]) auto
qed

lemma vlen_at: "drop p payload = bs @ r \<Longrightarrow> ngtcp2_put_varint v = Ok bs \<Longrightarrow> vlen payload p = length bs \<and> vval payload p = v"
  by (simp add: vlen_def vval_def varint_val_def get_put_varint get_put_varint_len)

lemma codec_ack: "frame_ok (FR_ACK fr) \<Longrightarrow> codec_ok rest (FR_ACK fr)"
proof -
  assume ok: "frame_ok (FR_ACK fr)"
  let ?k = "length (ack_blks fr)"
  have k: "unat (of_nat ?k :: u64) = ?k" using ok by (intro unat_of_nat_small) simp
  obtain b1 b2 b3 b4 where p: "ngtcp2_put_varint (ack_largest_ack fr) = Ok b1" "ngtcp2_put_varint (ack_ack_delay fr) = Ok b2"
    "ngtcp2_put_varint (of_nat ?k) = Ok b3" "ngtcp2_put_varint (ack_first_ack_blklen fr) = Ok b4"
    using ok k put_varint_Ok_iff [of "ack_largest_ack fr"] put_varint_Ok_iff [of "ack_ack_delay fr"]
      put_varint_Ok_iff [of "of_nat ?k"] put_varint_Ok_iff [of "ack_first_ack_blklen fr"] by auto
  obtain B where B:
    "put_all (concat (map (\<lambda>blk. [ngtcp2_put_varint (blk_gap blk), ngtcp2_put_varint (blk_blklen blk)]) (ack_blks fr))) = Ok B"
    "sum_lens (concat (map (\<lambda>blk. [ngtcp2_put_varint_len (blk_gap blk), ngtcp2_put_varint_len (blk_blklen blk)]) (ack_blks fr))) =
      Ok (length B)"
    "2 * ?k \<le> length B"
    "\<forall>pre rest. ack_read_blks (pre @ B @ rest) ?k (length pre) = Ok (ack_blks fr, length pre + length B) \<and>
       blks_end (pre @ B @ rest) ?k (length pre) = length pre + length B"
    using ack_blks_codec [of "ack_blks fr"] ok by auto
  let ?pre = "NGTCP2_FRAME_ACK # b1 @ b2 @ b3 @ b4"
  let ?bs = "?pre @ B"
  have "ngtcp2_pkt_encode_ack_frame outlen fr = (if outlen < length ?bs then Err NGTCP2_ERR_NOBUF else Ok ?bs)" for outlen
    using p p [THEN put_varint_facts(3)] B(1,2) by (simp add: ngtcp2_pkt_encode_ack_frame_def emit_eq Let_def)
  moreover have "ngtcp2_pkt_decode_ack_frame (?bs @ rest) = Ok (fr, length ?bs)"
  proof -
    let ?P = "?bs @ rest"
    have v: "vlen ?P (Suc 0) = length b1 \<and> vval ?P (Suc 0) = ack_largest_ack fr"
      "vlen ?P (Suc (length b1)) = length b2 \<and> vval ?P (Suc (length b1)) = ack_ack_delay fr"
      "vlen ?P (Suc (length b1 + length b2)) = length b3 \<and> vval ?P (Suc (length b1 + length b2)) = of_nat ?k"
      "vlen ?P (Suc (length b1 + length b2 + length b3)) = length b4 \<and>
        vval ?P (Suc (length b1 + length b2 + length b3)) = ack_first_ack_blklen fr"
      by (rule vlen_at [OF _ p(1)] vlen_at [OF _ p(2)] vlen_at [OF _ p(3)] vlen_at [OF _ p(4)], simp; fail)+
    have m: "?k = min NGTCP2_MAX_ACK_BLKS ?k" using ok by simp
    have pre: "length ?pre = Suc (length b1 + length b2 + length b3) + length b4" by simp
    note front = decode_ack_front [of "Suc (length b1)" ?P "Suc (length b1 + length b2)"
        "Suc (length b1 + length b2 + length b3)" "length ?pre" ?k ?k]
    have "ack_read_blks ?P ?k (length ?pre) = Ok (ack_blks fr, length ?bs)" "blks_end ?P ?k (length ?pre) = length ?bs"
      using B(4) [rule_format, of ?pre rest] by auto
    then show ?thesis
      using front v m k B(3) by (simp add: scan_blks)
  qed
  then have "ngtcp2_pkt_decode_frame (?bs @ rest) = Ok (Some (FR_ACK fr), length ?bs)"
    by (simp add: read_defs)
  ultimately show ?thesis unfolding codec_ok_def by (intro exI [of _ ?bs]) simp
qed

lemma codec_leaf:
  assumes "\<And>outlen. ngtcp2_pkt_encode_frame outlen fr = (if outlen < length bs then Err NGTCP2_ERR_NOBUF else Ok (bs, fr))"
    and "ngtcp2_pkt_decode_frame (bs @ rest) = Ok (Some fr, length bs)" and "bs \<noteq> []" and "sent fr = fr"
  shows "codec_ok rest fr"
  unfolding codec_ok_def using assms by (intro exI [of _ bs]) simp

lemma codec_one_varint:
  assumes "vint v"
  shows "codec_ok rest (FR_MAX_DATA v)" "codec_ok rest (FR_MAX_STREAM_ID v)" "codec_ok rest (FR_BLOCKED v)"
    "codec_ok rest (FR_STREAM_ID_BLOCKED v)"
proof -
  note defs = ngtcp2_pkt_encode_max_data_frame_def ngtcp2_pkt_encode_max_stream_id_frame_def
    ngtcp2_pkt_encode_blocked_frame_def ngtcp2_pkt_encode_stream_id_blocked_frame_def
    ngtcp2_pkt_decode_max_data_frame_def ngtcp2_pkt_decode_max_stream_id_frame_def
    ngtcp2_pkt_decode_blocked_frame_def ngtcp2_pkt_decode_stream_id_blocked_frame_def
    ngtcp2_pkt_decode_frame_def has_mask_def rd_u8_def wrap_def
  show "codec_ok rest (FR_MAX_DATA v)"
    by (rule encode_one_varint_ok [OF assms, of 4], simp, rule codec_leaf) (auto simp: defs)
  show "codec_ok rest (FR_MAX_STREAM_ID v)"
    by (rule encode_one_varint_ok [OF assms, of 6], simp, rule codec_leaf) (auto simp: defs)
  show "codec_ok rest (FR_BLOCKED v)"
    by (rule encode_one_varint_ok [OF assms, of 8], simp, rule codec_leaf) (auto simp: defs)
  show "codec_ok rest (FR_STREAM_ID_BLOCKED v)"
    by (rule encode_one_varint_ok [OF assms, of 10], simp, rule codec_leaf) (auto simp: defs)
qed

lemma codec_two_varints:
  "frame_ok (FR_MAX_STREAM_DATA fr) \<Longrightarrow> codec_ok rest (FR_MAX_STREAM_DATA fr)"
  "frame_ok (FR_STREAM_BLOCKED fr') \<Longrightarrow> codec_ok rest (FR_STREAM_BLOCKED fr')"
proof -
  note defs = ngtcp2_pkt_encode_max_stream_data_frame_def ngtcp2_pkt_encode_stream_blocked_frame_def
    ngtcp2_pkt_decode_max_stream_data_frame_def ngtcp2_pkt_decode_stream_blocked_frame_def
    ngtcp2_pkt_decode_frame_def has_mask_def rd_u8_def wrap_def
  show "frame_ok (FR_MAX_STREAM_DATA fr) \<Longrightarrow> codec_ok rest (FR_MAX_STREAM_DATA fr)"
    by (rule encode_two_varints_ok [of "msd_stream_id fr" "msd_max_stream_data fr" 5], simp, simp, simp, rule codec_leaf)
      (auto simp: defs)
  show "frame_ok (FR_STREAM_BLOCKED fr') \<Longrightarrow> codec_ok rest (FR_STREAM_BLOCKED fr')"
    by (rule encode_two_varints_ok [of "sb_stream_id fr'" "sb_offset fr'" 9], simp, simp, simp, rule codec_leaf)
      (auto simp: defs)
qed

lemma codec_close:
  assumes "length (cc_reason fr) < 2 ^ 62"
  shows "codec_ok rest (FR_CONNECTION_CLOSE fr)" "codec_ok rest (FR_APPLICATION_CLOSE fr)"
proof -
  note defs = ngtcp2_pkt_encode_connection_close_frame_def ngtcp2_pkt_encode_application_close_frame_def
    ngtcp2_pkt_decode_connection_close_frame_def ngtcp2_pkt_decode_application_close_frame_def
    ngtcp2_pkt_decode_frame_def has_mask_def rd_u8_def wrap_def
  show "codec_ok rest (FR_CONNECTION_CLOSE fr)"
    by (rule encode_close_ok [OF assms, of 2], simp, rule codec_leaf) (auto simp: defs)
  show "codec_ok rest (FR_APPLICATION_CLOSE fr)"
    by (rule encode_close_ok [OF assms, of 3], simp, rule codec_leaf) (auto simp: defs)
qed

lemma codec_u8_data:
  assumes "length data < 256"
  shows "codec_ok rest (FR_PING data)" "codec_ok rest (FR_PONG data)"
proof -
  note defs = ngtcp2_pkt_encode_ping_frame_def ngtcp2_pkt_encode_pong_frame_def
    ngtcp2_pkt_decode_ping_frame_def ngtcp2_pkt_decode_pong_frame_def
    ngtcp2_pkt_decode_frame_def has_mask_def rd_u8_def wrap_def
  show "codec_ok rest (FR_PING data)"
    using encode_u8_data_ok [OF assms, of 7]
    by (intro codec_leaf [where bs = "7 # of_nat (length data) # data"]) (auto simp: defs)
  show "codec_ok rest (FR_PONG data)"
    using encode_u8_data_ok [OF assms, of 13]
    by (intro codec_leaf [where bs = "13 # of_nat (length data) # data"]) (auto simp: defs)
qed

lemma codec_frame:
  assumes "frame_ok fr" and "\<And>len. fr = FR_PADDING len \<Longrightarrow> padding_run rest = 0"
  shows "codec_ok rest fr"
  using assms
  by (cases fr) (simp_all add: codec_stream codec_ack codec_padding codec_rst_stream codec_close codec_one_varint
      codec_two_varints codec_u8_data codec_new_connection_id codec_stop_sending)

section \<open>Validity of ACK frames\<close>

text \<open>
  The acknowledged ranges, computed over the integers: below a range that ends at \<open>low\<close>, a gap of \<open>g\<close>
  puts the next range at \<open>low - g - 2\<close>, and a block length of \<open>l\<close> ends it \<open>l\<close> below.
\<close>

fun ack_ranges :: "int \<Rightarrow> ngtcp2_ack_blk list \<Rightarrow> (int \<times> int) list" where
  "ack_ranges low [] = []"
| "ack_ranges low (blk # blks) =
     (let high = low - uint (blk_gap blk) - 2; low' = high - uint (blk_blklen blk)
      in (high, low') # ack_ranges low' blks)"

definition ack_frame_ranges :: "ngtcp2_ack \<Rightarrow> (int \<times> int) list" where
  "ack_frame_ranges fr =
     (let low = uint (ack_largest_ack fr) - uint (ack_first_ack_blklen fr)
      in (uint (ack_largest_ack fr), low) # ack_ranges low (ack_blks fr))"

lemma uint_sub_le: "(b::u64) \<le> a \<Longrightarrow> uint (a - b) = uint a - uint b"
  using arg_cong [OF unat_sub, of b a int] by (simp only: uint_nat word_le_nat_alt of_nat_diff)

lemma validate_blks_ok:
  "\<forall>b \<in> set bl. vint (blk_gap b) \<Longrightarrow>
    validate_blks low bl = None \<longleftrightarrow> (\<forall>(hi, lo) \<in> set (ack_ranges (uint low) bl). 0 \<le> lo \<and> 0 \<le> hi)"
proof (induction bl arbitrary: low)
  case (Cons b bl)
  have "unat (blk_gap b + 2) = unat (blk_gap b) + 2"
    using Cons.prems unat_add_small [of "blk_gap b" 2] by simp
  from arg_cong [OF this, of int] have g: "uint (blk_gap b + 2) = uint (blk_gap b) + 2"
    by (simp only: uint_nat of_nat_add of_nat_numeral)
  let ?h = "low - (blk_gap b + 2)"
  show ?case
  proof (cases "low < blk_gap b + 2")
    case True
    then show ?thesis using g by (auto simp: word_less_def Let_def)
  next
    case h: False
    then have uh: "uint ?h = uint low - uint (blk_gap b) - 2" using g uint_sub_le [of "blk_gap b + 2" low] by simp
    show ?thesis
    proof (cases "?h < blk_blklen b")
      case True
      then show ?thesis using h uh by (auto simp: word_less_def Let_def)
    next
      case False
      then have "uint (?h - blk_blklen b) = uint ?h - uint (blk_blklen b)" using uint_sub_le [of "blk_blklen b" ?h] by simp
      moreover have "0 \<le> uint ?h" "0 \<le> uint (?h - blk_blklen b)" by simp_all
      ultimately show ?thesis using h False uh Cons by (simp add: Let_def)
    qed
  qed
qed simp

section \<open>Properties\<close>

text \<open>
  C15. Round trip of every kind of frame: a well-formed frame is encoded exactly when the buffer has
  room for it, otherwise NGTCP2\_ERR\_NOBUF is returned, and decoding a payload that starts with the
  encoding returns the frame (with the flags the encoder chose) and the length of the encoding.
  A run of padding is one frame, so what follows a PADDING frame must not be padding.
\<close>

theorem frame_roundtrip:
  assumes "frame_ok fr" and "\<And>len. fr = FR_PADDING len \<Longrightarrow> padding_run rest = 0"
  shows "\<exists>bs. bs \<noteq> [] \<and>
    (\<forall>outlen. ngtcp2_pkt_encode_frame outlen fr =
       (if outlen < length bs then Err NGTCP2_ERR_NOBUF else Ok (bs, sent fr))) \<and>
    ngtcp2_pkt_decode_frame (bs @ rest) = Ok (Some (sent fr), length bs)"
  using codec_frame [OF assms] unfolding codec_ok_def .

theorem frame_roundtrip_witness:
  "\<exists>bs. ngtcp2_pkt_encode_frame (length bs) (FR_STREAM \<lparr>st_flags = 0, st_fin = True, st_stream_id = 4, st_offset = 70,
       st_data = [1, 2, 3]\<rparr>) =
     Ok (bs, FR_STREAM \<lparr>st_flags = 7, st_fin = True, st_stream_id = 4, st_offset = 70, st_data = [1, 2, 3]\<rparr>) \<and>
     ngtcp2_pkt_decode_frame (bs @ [7]) =
     Ok (Some (FR_STREAM \<lparr>st_flags = 7, st_fin = True, st_stream_id = 4, st_offset = 70, st_data = [1, 2, 3]\<rparr>), length bs)"
  using frame_roundtrip [of "FR_STREAM \<lparr>st_flags = 0, st_fin = True, st_stream_id = 4, st_offset = 70, st_data = [1, 2, 3]\<rparr>" "[7]"]
  by (auto simp: stream_encode_flags_def)

text \<open>
  C34. Validation of ACK frames: a frame whose gaps were decoded from variable-length integers is
  accepted exactly when all the ranges of packet numbers it acknowledges, computed without
  wrap-around, are non-negative; otherwise NGTCP2\_ERR\_ACK\_FRAME is returned.
\<close>

theorem validate_ack_correct:
  assumes "\<forall>b \<in> set (ack_blks fr). vint (blk_gap b)"
  shows "ngtcp2_pkt_validate_ack fr =
    (if \<forall>(hi, lo) \<in> set (ack_frame_ranges fr). 0 \<le> lo \<and> 0 \<le> hi then None else Some NGTCP2_ERR_ACK_FRAME)"
proof (cases "ack_largest_ack fr < ack_first_ack_blklen fr")
  case True
  then show ?thesis by (auto simp: ngtcp2_pkt_validate_ack_def ack_frame_ranges_def Let_def word_less_def)
next
  case False
  let ?low = "ack_largest_ack fr - ack_first_ack_blklen fr"
  have u: "uint ?low = uint (ack_largest_ack fr) - uint (ack_first_ack_blklen fr)" using False by (intro uint_sub_le) simp
  have rv: "validate_blks low bl = None \<or> validate_blks low bl = Some NGTCP2_ERR_ACK_FRAME" for low bl
    by (induction low bl rule: validate_blks.induct) (auto simp: Let_def)
  show ?thesis
    using rv [of ?low "ack_blks fr"] validate_blks_ok [OF assms, of ?low] False uint_ge_0 [of ?low] unfolding u
    by (auto simp: ngtcp2_pkt_validate_ack_def ack_frame_ranges_def Let_def)
qed

theorem validate_ack_correct_witness:
  "ngtcp2_pkt_validate_ack \<lparr>ack_largest_ack = 10, ack_ack_delay = 0, ack_first_ack_blklen = 2,
     ack_blks = [\<lparr>blk_gap = 1, blk_blklen = 5\<rparr>, \<lparr>blk_gap = 0, blk_blklen = 0\<rparr>]\<rparr> = Some NGTCP2_ERR_ACK_FRAME"
  by (subst validate_ack_correct) (simp_all add: ack_frame_ranges_def)

end
