(* ===== verification/Ranges.thy ===== *)
theory Ranges
  imports Prelude
begin

text \<open>
  \<^verbatim>\<open>lib/ngtcp2_range.c\<close>: half-open ranges of 64-bit stream offsets, and the ordered lists
  of disjoint gaps that \<^verbatim>\<open>ngtcp2_gaptr\<close>, \<^verbatim>\<open>ngtcp2_idtr\<close> and \<^verbatim>\<open>ngtcp2_rob\<close> keep. A range is read as
  the set of its offsets (\<open>offs\<close>), a gap list as the set of the offsets it covers
  (\<open>gapset\<close>). The locale \<open>offset_tracker\<close> states what a client may rely on: which offsets
  are still missing after an offset range was marked, and what the first missing offset is.
\<close>

section \<open>Ranges\<close>

record ngtcp2_range =
  rg_begin :: u64
  rg_end :: u64

definition ngtcp2_range_init :: "u64 \<Rightarrow> u64 \<Rightarrow> ngtcp2_range" where
  "ngtcp2_range_init b e = \<lparr>rg_begin = b, rg_end = e\<rparr>"

definition ngtcp2_max :: "u64 \<Rightarrow> u64 \<Rightarrow> u64" where
  "ngtcp2_max a b = (if a > b then a else b)"

definition ngtcp2_min :: "u64 \<Rightarrow> u64 \<Rightarrow> u64" where
  "ngtcp2_min a b = (if a < b then a else b)"

definition ngtcp2_range_intersect :: "ngtcp2_range \<Rightarrow> ngtcp2_range \<Rightarrow> ngtcp2_range" where
  "ngtcp2_range_intersect a b =
     (let r = \<lparr>rg_begin = 0, rg_end = 0\<rparr>;
          b' = ngtcp2_max (rg_begin a) (rg_begin b);
          e' = ngtcp2_min (rg_end a) (rg_end b)
      in if b' < e' then ngtcp2_range_init b' e' else r)"

definition ngtcp2_range_len :: "ngtcp2_range \<Rightarrow> u64" where
  "ngtcp2_range_len r = rg_end r - rg_begin r"

definition ngtcp2_range_equal :: "ngtcp2_range \<Rightarrow> ngtcp2_range \<Rightarrow> bool" where
  "ngtcp2_range_equal a b \<longleftrightarrow> rg_begin a = rg_begin b \<and> rg_end a = rg_end b"

text \<open>\<open>ngtcp2_range_cut a b\<close> is the pair stored through \<open>left\<close> and \<open>right\<close>.\<close>

definition ngtcp2_range_cut :: "ngtcp2_range \<Rightarrow> ngtcp2_range \<Rightarrow> ngtcp2_range \<times> ngtcp2_range" where
  "ngtcp2_range_cut a b =
     (\<lparr>rg_begin = rg_begin a, rg_end = rg_begin b\<rparr>, \<lparr>rg_begin = rg_end b, rg_end = rg_end a\<rparr>)"

definition ngtcp2_range_not_after :: "ngtcp2_range \<Rightarrow> ngtcp2_range \<Rightarrow> bool" where
  "ngtcp2_range_not_after a b \<longleftrightarrow> rg_end a \<le> rg_end b"

section \<open>Ranges as sets of offsets\<close>

definition offs :: "ngtcp2_range \<Rightarrow> u64 set" where
  "offs r = {x. rg_begin r \<le> x \<and> x < rg_end r}"

lemma mem_offs [simp]: "x \<in> offs r \<longleftrightarrow> rg_begin r \<le> x \<and> x < rg_end r"
  by (simp add: offs_def)

lemma offs_empty: "\<not> rg_begin r < rg_end r \<Longrightarrow> offs r = {}"
  by (auto simp: offs_def)

lemmas range_ops [range_simps] = ngtcp2_range_intersect_def ngtcp2_range_len_def ngtcp2_range_equal_def
  ngtcp2_range_cut_def ngtcp2_range_not_after_def ngtcp2_range_init_def ngtcp2_max_def ngtcp2_min_def Let_def

lemma offs_intersect: "offs (ngtcp2_range_intersect a b) = offs a \<inter> offs b"
  by (auto simp: range_ops)

lemma intersect_len_0: "ngtcp2_range_len (ngtcp2_range_intersect a b) = 0 \<longleftrightarrow> offs a \<inter> offs b = {}"
  unfolding offs_intersect [symmetric]
  by (auto simp: range_ops set_eq_iff not_less intro: exI [of _ "rg_begin a"] exI [of _ "rg_begin b"])

lemma range_len_pos: "rg_begin r \<le> rg_end r \<Longrightarrow> ngtcp2_range_len r \<noteq> 0 \<longleftrightarrow> rg_begin r < rg_end r"
  by (auto simp: ngtcp2_range_len_def)

lemma range_init_eta [simp]: "ngtcp2_range_init (rg_begin r) (rg_end r) = r"
  by (simp add: ngtcp2_range_init_def)

text \<open>A cut removes exactly the second range from the first.\<close>

lemma offs_cut:
  assumes "ngtcp2_range_cut a b = (l, r)" and "rg_begin a \<le> rg_begin b" and "rg_end b \<le> rg_end a"
    and "rg_begin b < rg_end b"
  shows "offs l \<union> offs r = offs a - offs b"
  using assms by (auto simp: range_ops)

section \<open>Gap lists\<close>

definition gaps_ok :: "ngtcp2_range list \<Rightarrow> bool" where
  "gaps_ok gs \<longleftrightarrow> (\<forall>g \<in> set gs. rg_begin g < rg_end g) \<and> sorted_wrt (\<lambda>g h. rg_end g < rg_begin h) gs"

definition gapset :: "ngtcp2_range list \<Rightarrow> u64 set" where
  "gapset gs = (\<Union>g \<in> set gs. offs g)"

lemma gapset_simps [simp]: "gapset [] = {}" "gapset (g # gs) = offs g \<union> gapset gs"
  by (simp_all add: gapset_def)

lemma gaps_ok_Nil [simp]: "gaps_ok []"
  by (simp add: gaps_ok_def)

lemma gaps_ok_Cons:
  "gaps_ok (g # gs) \<longleftrightarrow> rg_begin g < rg_end g \<and> (\<forall>h \<in> set gs. rg_end g < rg_begin h) \<and> gaps_ok gs"
  by (auto simp: gaps_ok_def)

lemma gaps_ok_nonempty: "gaps_ok gs \<Longrightarrow> g \<in> set gs \<Longrightarrow> rg_begin g < rg_end g"
  by (simp add: gaps_ok_def)

text \<open>For a well-formed list, the order of its elements can be read from the covered offsets.\<close>

lemma all_after_iff:
  assumes "gaps_ok gs"
  shows "(\<forall>h \<in> set gs. e < rg_begin h) \<longleftrightarrow> (\<forall>x \<in> gapset gs. e < x)"
proof
  assume "\<forall>h \<in> set gs. e < rg_begin h"
  then show "\<forall>x \<in> gapset gs. e < x" by (fastforce simp: gapset_def)
next
  assume *: "\<forall>x \<in> gapset gs. e < x"
  show "\<forall>h \<in> set gs. e < rg_begin h"
  proof
    fix h assume "h \<in> set gs"
    with assms have "rg_begin h \<in> gapset gs"
      by (auto simp: gapset_def gaps_ok_nonempty intro!: bexI [of _ h])
    with * show "e < rg_begin h" by blast
  qed
qed

lemma gaps_ok_Cons_gapset:
  "gaps_ok (g # gs) \<longleftrightarrow> rg_begin g < rg_end g \<and> (\<forall>x \<in> gapset gs. rg_end g < x) \<and> gaps_ok gs"
  using all_after_iff by (auto simp: gaps_ok_Cons)

lemma gapset_empty_iff: "gaps_ok gs \<Longrightarrow> gapset gs = {} \<longleftrightarrow> gs = []"
  by (cases gs) (auto simp: gaps_ok_Cons intro: exI [of _ "rg_begin (hd gs)"])

text \<open>Everything a later gap covers lies beyond the end of an earlier one.\<close>

lemma gapset_after: "gaps_ok (g # gs) \<Longrightarrow> x \<in> gapset gs \<Longrightarrow> rg_end g < x"
  by (auto simp: gaps_ok_Cons_gapset)

text \<open>
  Facts about one iteration of the push loops: \<open>m\<close> is the part of the gap \<open>g\<close> that the pushed
  range \<open>q\<close> fills, \<open>l\<close> and \<open>r\<close> what is left of the gap on either side.
\<close>

lemma gaps_ok_link:
  assumes "gaps_ok (g # gs)" and "gaps_ok gs'" and "gapset gs' \<subseteq> gapset gs"
    and "rg_begin h < rg_end h" and "rg_end h \<le> rg_end g"
  shows "gaps_ok (h # gs')"
  using assms unfolding gaps_ok_Cons_gapset by (meson le_less_trans subsetD)

lemma push_stop:
  assumes "gaps_ok (g # gs)" and "rg_end q \<le> rg_end g"
  shows "gapset gs - offs q = gapset gs"
  using assms gapset_after by fastforce

lemma intersect_bounds:
  assumes "m = ngtcp2_range_intersect q g" and "ngtcp2_range_len m \<noteq> 0"
  shows "rg_begin m < rg_end m" "rg_begin g \<le> rg_begin m" "rg_end m \<le> rg_end g"
    "rg_end m \<le> rg_end q" "rg_end m = rg_end q \<or> rg_end m = rg_end g" "rg_begin q \<le> rg_begin m"
  using assms by (auto simp: range_ops split: if_splits)

lemma cut_ends:
  assumes "ngtcp2_range_cut g m = (l, r)"
  shows "rg_begin l = rg_begin g" "rg_end l = rg_begin m" "rg_begin r = rg_end m" "rg_end r = rg_end g"
  using assms by (auto simp: ngtcp2_range_cut_def)

lemma cut_gap:
  assumes m: "m = ngtcp2_range_intersect q g" and ne: "ngtcp2_range_len m \<noteq> 0"
    and cut: "ngtcp2_range_cut g m = (l, r)"
  shows cut_gap_diff: "offs g - offs q = offs l \<union> offs r"
    and cut_gap_len_l: "ngtcp2_range_len l \<noteq> 0 \<longleftrightarrow> rg_begin l < rg_end l"
    and cut_gap_len_r: "ngtcp2_range_len r \<noteq> 0 \<longleftrightarrow> rg_begin r < rg_end r"
    and cut_gap_equal: "ngtcp2_range_equal g m \<longleftrightarrow> \<not> rg_begin l < rg_end l \<and> \<not> rg_begin r < rg_end r"
    and cut_gap_end_r: "rg_begin r < rg_end r \<Longrightarrow> rg_end q \<le> rg_end r"
    and cut_gap_end_l: "\<not> rg_end q \<le> rg_end l"
    and cut_gap_le_l: "rg_end l \<le> rg_end g"
proof -
  note b = intersect_bounds [OF m ne] and lr = cut_ends [OF cut]
  show "offs g - offs q = offs l \<union> offs r"
    using offs_cut [OF cut b(2,3,1)] unfolding m offs_intersect by (simp add: Diff_Int)
  show "ngtcp2_range_len l \<noteq> 0 \<longleftrightarrow> rg_begin l < rg_end l" "ngtcp2_range_len r \<noteq> 0 \<longleftrightarrow> rg_begin r < rg_end r"
    using range_len_pos b(2,3) lr by simp_all
  show "ngtcp2_range_equal g m \<longleftrightarrow> \<not> rg_begin l < rg_end l \<and> \<not> rg_begin r < rg_end r"
    using b(2,3) unfolding ngtcp2_range_equal_def lr by auto
  show "rg_begin r < rg_end r \<Longrightarrow> rg_end q \<le> rg_end r" using b(5) lr by auto
  show "\<not> rg_end q \<le> rg_end l" "rg_end l \<le> rg_end g" using b lr by auto
qed

lemma cut_gap_ok:
  assumes "m = ngtcp2_range_intersect q g" and "ngtcp2_range_len m \<noteq> 0"
    and "ngtcp2_range_cut g m = (l, r)" and "gaps_ok (g # gs)" and "rg_begin r < rg_end r"
  shows "gaps_ok (r # gs)" and "rg_begin l < rg_end l \<Longrightarrow> gaps_ok (l # r # gs)"
    and "gapset gs - offs q = gapset gs"
proof -
  note b = intersect_bounds [OF assms(1,2)] and lr = cut_ends [OF assms(3)]
  show ok: "gaps_ok (r # gs)" using assms(4,5) lr by (auto simp: gaps_ok_Cons)
  show "rg_begin l < rg_end l \<Longrightarrow> gaps_ok (l # r # gs)"
    using ok assms(4) lr b by (auto simp: gaps_ok_Cons)
  show "gapset gs - offs q = gapset gs" using push_stop [OF ok] cut_gap_end_r [OF assms(1-3,5)] .
qed

definition first_gap :: "ngtcp2_range list \<Rightarrow> u64" where
  "first_gap gs = (case gs of [] \<Rightarrow> UINT64_MAX | g # _ \<Rightarrow> rg_begin g)"

lemma first_gap_least:
  assumes "gaps_ok gs"
  shows "gs \<noteq> [] \<Longrightarrow> first_gap gs \<in> gapset gs" and "x \<in> gapset gs \<Longrightarrow> first_gap gs \<le> x"
  using assms by (cases gs; fastforce simp: first_gap_def gaps_ok_Cons_gapset)+

lemma gapset_init: "gapset [ngtcp2_range_init 0 UINT64_MAX] = {x. x < UINT64_MAX}"
  and gaps_ok_init: "gaps_ok [ngtcp2_range_init 0 UINT64_MAX]"
  by (auto simp: ngtcp2_range_init_def gaps_ok_Cons)

section \<open>The contract of an offset tracker\<close>

text \<open>
  \<open>missing s\<close> are the offsets not seen yet, \<open>mark s off l\<close> records the \<open>l\<close> offsets from \<open>off\<close> on
  (\<open>l\<close> counted modulo the width of an offset, as the C expression \<open>offset + datalen\<close> does),
  \<open>first s\<close> is the first missing offset.
\<close>

locale offset_tracker =
  fixes inv :: "'s \<Rightarrow> bool"
    and missing :: "'s \<Rightarrow> u64 set"
    and mark :: "'s \<Rightarrow> u64 \<Rightarrow> u64 \<Rightarrow> 's option"
    and first :: "'s \<Rightarrow> u64"
  assumes mark_inv: "inv s \<Longrightarrow> mark s off l = Some t \<Longrightarrow> inv t"
    and mark_missing: "inv s \<Longrightarrow> mark s off l = Some t \<Longrightarrow>
      missing t = missing s - {x. off \<le> x \<and> x < off + l}"
    and first_missing: "inv s \<Longrightarrow> missing s \<noteq> {} \<Longrightarrow> first s \<in> missing s"
    and first_least: "inv s \<Longrightarrow> x \<in> missing s \<Longrightarrow> first s \<le> x"
    and first_none: "inv s \<Longrightarrow> missing s = {} \<Longrightarrow> first s = UINT64_MAX"
begin

lemma below_first_seen: "inv s \<Longrightarrow> x < first s \<Longrightarrow> x \<notin> missing s"
  using first_least leD by blast

lemma first_mono:
  assumes "inv s" and "mark s off l = Some t"
  shows "first s \<le> first t"
proof (cases "missing t = {}")
  case True
  then have "first t = UINT64_MAX" using first_none mark_inv assms by blast
  then show ?thesis by simp
next
  case False
  then have "first t \<in> missing s" using first_missing mark_inv mark_missing assms by blast
  then show ?thesis using first_least assms by blast
qed

text \<open>The first missing offset reaches past a marked range that starts no later than it.\<close>

lemma first_advances:
  assumes "inv s" and "mark s off l = Some t" and "off \<le> first s"
  shows "off + l \<le> first t"
proof (cases "missing t = {}")
  case True
  then have "first t = UINT64_MAX" using first_none mark_inv assms by blast
  then show ?thesis by simp
next
  case False
  then have "first t \<in> missing t" using first_missing mark_inv assms by blast
  moreover have "first s \<le> first t" using assms(1,2) by (rule first_mono)
  ultimately show ?thesis using mark_missing [OF assms(1,2)] assms(3) by fastforce
qed

lemma mark_again:
  assumes "inv s" and "mark s off l = Some t" and "mark t off l = Some u"
  shows "missing u = missing t"
  using mark_missing [OF assms(1,2)] mark_missing [OF mark_inv [OF assms(1,2)] assms(3)] by auto

lemma mark_commute:
  assumes "inv s" and "mark s off l = Some t" and "mark t off' l' = Some u"
    and "mark s off' l' = Some t'" and "mark t' off l = Some u'"
  shows "missing u = missing u'" and "first u = first u'"
proof -
  show eq: "missing u = missing u'"
    using mark_missing [OF assms(1,2)] mark_missing [OF mark_inv [OF assms(1,2)] assms(3)]
      mark_missing [OF assms(1,4)] mark_missing [OF mark_inv [OF assms(1,4)] assms(5)] by auto
  have inv: "inv u" "inv u'" using assms mark_inv by blast+
  show "first u = first u'"
  proof (cases "missing u = {}")
    case True
    then show ?thesis using first_none inv eq by simp
  next
    case False
    then show ?thesis using first_missing first_least inv eq by (metis antisym)
  qed
qed

end

end
