(* ===== verification/Gaptr.thy ===== *)
theory Gaptr
  imports Ranges
begin

text \<open>
  \<^verbatim>\<open>lib/ngtcp2_gaptr.c\<close>: the gap tracker that records which offsets of a sent stream were
  acknowledged. The singly linked list of gaps is a list of ranges, a pointer to a link
  (\<open>pg\<close>) is the suffix that starts there.
\<close>

record ngtcp2_gaptr =
  gaptr_gap :: "ngtcp2_range list"

definition ngtcp2_gaptr_gap_new :: "u64 \<Rightarrow> u64 \<Rightarrow> ngtcp2_mem \<Rightarrow> ngtcp2_range option \<times> ngtcp2_mem" where
  "ngtcp2_gaptr_gap_new b e mem =
     (let (ok, mem') = ngtcp2_mem_malloc mem in
      (if ok then Some (ngtcp2_range_init b e) else None, mem'))"

definition ngtcp2_gaptr_init :: "ngtcp2_mem \<Rightarrow> ngtcp2_gaptr result \<times> ngtcp2_mem" where
  "ngtcp2_gaptr_init mem =
     (case ngtcp2_gaptr_gap_new 0 UINT64_MAX mem of
        (None, mem') \<Rightarrow> (Err NGTCP2_ERR_NOMEM, mem')
      | (Some g, mem') \<Rightarrow> (Ok \<lparr>gaptr_gap = [g]\<rparr>, mem'))"

text \<open>
  \<open>gaptr_push_loop q gs mem\<close> is the loop of \<open>ngtcp2_gaptr_push\<close> from the link whose suffix is
  \<open>gs\<close>: the new suffix, the allocator and the return value. \<open>link g\<close> puts back the node that
  the advancing pointer leaves behind.
\<close>

definition link :: "'a \<Rightarrow> 'a list \<times> 'm \<times> rc \<Rightarrow> 'a list \<times> 'm \<times> rc" where
  "link g = (\<lambda>(gs, mem, rv). (g # gs, mem, rv))"

lemma link_simp [simp]: "link g (gs, mem, rv) = (g # gs, mem, rv)"
  by (simp add: link_def)

lemma link_eq: "link g r = (gs, mem, rv) \<longleftrightarrow> (\<exists>gs'. r = (gs', mem, rv) \<and> gs = g # gs')"
  by (cases r) auto

fun gaptr_push_loop ::
  "ngtcp2_range \<Rightarrow> ngtcp2_range list \<Rightarrow> ngtcp2_mem \<Rightarrow> ngtcp2_range list \<times> ngtcp2_mem \<times> rc" where
  "gaptr_push_loop q [] mem = ([], mem, None)"
| "gaptr_push_loop q (g # gs) mem =
     (let m = ngtcp2_range_intersect q g in
      if ngtcp2_range_len m \<noteq> 0 then
        if ngtcp2_range_equal g m then gaptr_push_loop q gs mem
        else
          let (l, r) = ngtcp2_range_cut g m in
          if ngtcp2_range_len l \<noteq> 0 then
            if ngtcp2_range_len r \<noteq> 0 then
              case ngtcp2_gaptr_gap_new (rg_begin r) (rg_end r) mem of
                (None, mem') \<Rightarrow> (l # gs, mem', Some NGTCP2_ERR_NOMEM)
              | (Some ng, mem') \<Rightarrow>
                  link l (if ngtcp2_range_not_after q ng then (ng # gs, mem', None)
                          else link ng (gaptr_push_loop q gs mem'))
            else if ngtcp2_range_not_after q l then (l # gs, mem, None)
            else link l (gaptr_push_loop q gs mem)
          else
            let g' = (if ngtcp2_range_len r \<noteq> 0 then r else g) in
            if ngtcp2_range_not_after q g' then (g' # gs, mem, None)
            else link g' (gaptr_push_loop q gs mem)
      else if ngtcp2_range_not_after q g then (g # gs, mem, None)
      else link g (gaptr_push_loop q gs mem))"

definition ngtcp2_gaptr_push ::
  "ngtcp2_gaptr \<Rightarrow> u64 \<Rightarrow> u64 \<Rightarrow> ngtcp2_mem \<Rightarrow> ngtcp2_gaptr \<times> ngtcp2_mem \<times> rc" where
  "ngtcp2_gaptr_push gaptr offset datalen mem =
     (let q = ngtcp2_range_init offset (offset + datalen);
          (gs, mem', rv) = gaptr_push_loop q (gaptr_gap gaptr) mem
      in (\<lparr>gaptr_gap = gs\<rparr>, mem', rv))"

definition ngtcp2_gaptr_first_gap_offset :: "ngtcp2_gaptr \<Rightarrow> u64" where
  "ngtcp2_gaptr_first_gap_offset gaptr =
     (case gaptr_gap gaptr of g # _ \<Rightarrow> rg_begin g | [] \<Rightarrow> UINT64_MAX)"

section \<open>The loop\<close>

lemma gap_new_cases:
  "ngtcp2_gaptr_gap_new b e mem = (None, snd (ngtcp2_mem_malloc mem)) \<and> \<not> fst (ngtcp2_mem_malloc mem) \<or>
   ngtcp2_gaptr_gap_new b e mem = (Some (ngtcp2_range_init b e), snd (ngtcp2_mem_malloc mem))
     \<and> fst (ngtcp2_mem_malloc mem)"
  by (auto simp: ngtcp2_gaptr_gap_new_def split: prod.splits)

lemma push_loop_cut:
  assumes ok: "gaps_ok (g # gs)" and run: "gaptr_push_loop q (g # gs) mem = (gs', mem', None)"
    and m: "m = ngtcp2_range_intersect q g" and ne: "ngtcp2_range_len m \<noteq> 0"
    and cut: "ngtcp2_range_cut g m = (l, r)" and r: "rg_begin r < rg_end r"
  shows "gaps_ok gs' \<and> gapset gs' = gapset (g # gs) - offs q"
proof -
  note facts = cut_gap [OF m ne cut] cut_gap_ok [OF m ne cut ok r]
  show ?thesis
    using run ne m cut facts r gap_new_cases [of "rg_begin r" "rg_end r" mem]
    by (auto simp: ngtcp2_range_not_after_def Un_Diff Un_assoc offs_empty simp del: mem_offs split: if_splits)
qed

lemma push_loop_correct:
  assumes "gaps_ok gs" and "gaptr_push_loop q gs mem = (gs', mem', None)"
  shows "gaps_ok gs' \<and> gapset gs' = gapset gs - offs q"
  using assms
proof (induction gs arbitrary: gs' mem mem')
  case (Cons g gs)
  define m where m: "m = ngtcp2_range_intersect q g"
  have IH: "gaps_ok hs \<and> gapset hs = gapset gs - offs q"
    if "gaptr_push_loop q gs m1 = (hs, m2, None)" for hs m1 m2
    using Cons.IH Cons.prems(1) that by (auto simp: gaps_ok_Cons)
  note link_ok = gaps_ok_link [OF Cons.prems(1)]
  have g: "rg_begin g < rg_end g" using Cons.prems(1) by (simp add: gaps_ok_Cons)
  show ?case
  proof (cases "ngtcp2_range_len m = 0")
    case True
    then have "offs g - offs q = offs g" using intersect_len_0 m by blast
    with True m show ?thesis
      using Cons.prems push_stop [OF Cons.prems(1), of q] IH link_ok [of _ g] g
      by (auto simp: link_eq ngtcp2_range_not_after_def Un_Diff split: if_splits)
  next
    case ne: False
    obtain l r where cut: "ngtcp2_range_cut g m = (l, r)" by force
    note facts = cut_gap [OF m ne cut]
    consider "rg_begin r < rg_end r" | "\<not> rg_begin r < rg_end r" "rg_begin l < rg_end l"
      | "\<not> rg_begin r < rg_end r" "\<not> rg_begin l < rg_end l" by blast
    then show ?thesis
    proof cases
      case 1
      then show ?thesis using push_loop_cut [OF Cons.prems m ne cut] by simp
    next
      case 2
      then have "gaptr_push_loop q (g # gs) mem = link l (gaptr_push_loop q gs mem)"
        using ne m cut facts by (simp add: ngtcp2_range_not_after_def)
      then obtain hs where hs: "gaptr_push_loop q gs mem = (hs, mem', None)" "gs' = l # hs"
        using Cons.prems(2) by (auto simp: link_eq)
      then show ?thesis
        using IH [OF hs(1)] link_ok [of hs l] 2 facts offs_empty [of r] by (simp add: Un_Diff Diff_subset)
    next
      case 3
      then have "gaptr_push_loop q (g # gs) mem = gaptr_push_loop q gs mem"
        using ne m facts by simp
      then have "gaps_ok gs' \<and> gapset gs' = gapset gs - offs q" using IH Cons.prems(2) by simp
      moreover have "offs g \<subseteq> offs q" using facts 3 offs_empty [of r] offs_empty [of l] by simp
      ultimately show ?thesis by (auto simp del: mem_offs)
    qed
  qed
qed simp

text \<open>A push fails only by running out of memory, and only if an allocation failed.\<close>

lemma malloc_mem: "ngtcp2_mem_malloc mem = (b, mem') \<Longrightarrow> set mem' \<subseteq> set mem \<and> (\<not> b \<longrightarrow> False \<in> set mem)"
  by (cases mem) auto

lemma push_loop_error:
  "gaptr_push_loop q gs mem = (gs', mem', rv) \<Longrightarrow> rv = None \<or> rv = Some NGTCP2_ERR_NOMEM \<and> False \<in> set mem"
proof (induction gs arbitrary: gs' mem mem')
  case (Cons g gs)
  from Cons.prems show ?case
    by (auto simp: Let_def link_eq ngtcp2_gaptr_gap_new_def split: if_splits prod.splits option.splits
        dest!: Cons.IH dest: malloc_mem)
qed simp

section \<open>The gap tracker as an offset tracker\<close>

definition gaptr_inv :: "ngtcp2_gaptr \<Rightarrow> bool" where
  "gaptr_inv t \<longleftrightarrow> gaps_ok (gaptr_gap t)"

definition gaptr_missing :: "ngtcp2_gaptr \<Rightarrow> u64 set" where
  "gaptr_missing t = gapset (gaptr_gap t)"

text \<open>\<open>gaptr_mark mem\<close> is a push that returned \<open>0\<close>.\<close>

definition gaptr_mark :: "ngtcp2_mem \<Rightarrow> ngtcp2_gaptr \<Rightarrow> u64 \<Rightarrow> u64 \<Rightarrow> ngtcp2_gaptr option" where
  "gaptr_mark mem t off len =
     (case ngtcp2_gaptr_push t off len mem of (t', _, None) \<Rightarrow> Some t' | _ \<Rightarrow> None)"

lemma gaptr_first: "ngtcp2_gaptr_first_gap_offset t = first_gap (gaptr_gap t)"
  by (simp add: ngtcp2_gaptr_first_gap_offset_def first_gap_def)

lemma gaptr_push_correct:
  assumes "gaptr_inv t" and "ngtcp2_gaptr_push t off len mem = (t', mem', None)"
  shows "gaptr_inv t'" and "gaptr_missing t' = gaptr_missing t - {x. off \<le> x \<and> x < off + len}"
proof -
  have "gaptr_push_loop (ngtcp2_range_init off (off + len)) (gaptr_gap t) mem = (gaptr_gap t', mem', None)"
    using assms(2) by (auto simp: ngtcp2_gaptr_push_def Let_def split: prod.splits)
  with assms(1) show "gaptr_inv t'" "gaptr_missing t' = gaptr_missing t - {x. off \<le> x \<and> x < off + len}"
    using push_loop_correct by (auto simp: gaptr_inv_def gaptr_missing_def offs_def ngtcp2_range_init_def)
qed

lemma gaptr_push_error:
  assumes "ngtcp2_gaptr_push t off len mem = (t', mem', rv)"
  shows "rv = None \<or> rv = Some NGTCP2_ERR_NOMEM \<and> False \<in> set mem"
  using assms by (auto simp: ngtcp2_gaptr_push_def Let_def dest: push_loop_error split: prod.splits)

interpretation gaptr: offset_tracker gaptr_inv gaptr_missing "gaptr_mark mem" ngtcp2_gaptr_first_gap_offset
proof
  show "gaptr_inv s \<Longrightarrow> gaptr_mark mem s off l = Some t \<Longrightarrow> gaptr_inv t" for s off l t
    by (auto simp: gaptr_mark_def dest: gaptr_push_correct split: prod.splits option.splits)
  show "gaptr_inv s \<Longrightarrow> gaptr_mark mem s off l = Some t \<Longrightarrow>
      gaptr_missing t = gaptr_missing s - {x. off \<le> x \<and> x < off + l}" for s off l t
    by (auto simp: gaptr_mark_def dest: gaptr_push_correct split: prod.splits option.splits)
  show "gaptr_inv s \<Longrightarrow> gaptr_missing s \<noteq> {} \<Longrightarrow> ngtcp2_gaptr_first_gap_offset s \<in> gaptr_missing s" for s
    using first_gap_least(1) by (fastforce simp: gaptr_inv_def gaptr_missing_def gaptr_first)
  show "gaptr_inv s \<Longrightarrow> x \<in> gaptr_missing s \<Longrightarrow> ngtcp2_gaptr_first_gap_offset s \<le> x" for s x
    using first_gap_least(2) by (auto simp: gaptr_inv_def gaptr_missing_def gaptr_first)
  show "gaptr_inv s \<Longrightarrow> gaptr_missing s = {} \<Longrightarrow> ngtcp2_gaptr_first_gap_offset s = UINT64_MAX" for s
    by (simp add: gaptr_inv_def gaptr_missing_def gaptr_first gapset_empty_iff first_gap_def)
qed

section \<open>Properties\<close>

text \<open>
  C19. Refinement of the set of missing offsets: a push either returns \<open>0\<close> and removes exactly
  the pushed offsets from the set of missing offsets, keeping the gap list ordered, disjoint
  and free of empty gaps, or it returns NGTCP2\_ERR\_NOMEM, and that only after an allocation
  failed.
\<close>

theorem gaptr_push_refines:
  assumes "gaptr_inv t" and "ngtcp2_gaptr_push t off len mem = (t', mem', rv)"
  shows "(rv = None \<longrightarrow> gaptr_inv t' \<and> gaptr_missing t' = gaptr_missing t - {x. off \<le> x \<and> x < off + len})
    \<and> (rv = None \<or> rv = Some NGTCP2_ERR_NOMEM \<and> False \<in> set mem)"
  using gaptr_push_correct [OF assms(1)] gaptr_push_error [OF assms(2)] assms(2) by blast

theorem gaptr_push_refines_witness:
  "gaptr_inv \<lparr>gaptr_gap = [ngtcp2_range_init 0 UINT64_MAX]\<rparr> \<and>
   ngtcp2_gaptr_push \<lparr>gaptr_gap = [ngtcp2_range_init 0 UINT64_MAX]\<rparr> 5 3 [] =
     (\<lparr>gaptr_gap = [ngtcp2_range_init 0 5, ngtcp2_range_init 8 UINT64_MAX]\<rparr>, [], None) \<and>
   gaptr_missing \<lparr>gaptr_gap = [ngtcp2_range_init 0 5, ngtcp2_range_init 8 UINT64_MAX]\<rparr> =
     gaptr_missing \<lparr>gaptr_gap = [ngtcp2_range_init 0 UINT64_MAX]\<rparr> - {x. 5 \<le> x \<and> x < 5 + 3}"
proof -
  let ?t = "\<lparr>gaptr_gap = [ngtcp2_range_init 0 UINT64_MAX]\<rparr>"
  have inv: "gaptr_inv ?t" by (simp add: gaptr_inv_def gaps_ok_init)
  have run: "ngtcp2_gaptr_push ?t 5 3 [] =
     (\<lparr>gaptr_gap = [ngtcp2_range_init 0 5, ngtcp2_range_init 8 UINT64_MAX]\<rparr>, [], None)"
    by (simp add: ngtcp2_gaptr_push_def range_ops ngtcp2_gaptr_gap_new_def)
  show ?thesis using gaptr_push_refines [OF inv run] inv run by blast
qed

text \<open>
  Acknowledgements may arrive in any order: the first unacknowledged offset never moves
  backwards, it passes a range pushed at or below it, and two pushes that both succeed in
  either order leave the same missing offsets and the same first gap.
\<close>

theorem gaptr_order_independent:
  assumes "gaptr_inv t"
    and "gaptr_mark mem t o1 l1 = Some t1" and "gaptr_mark mem t1 o2 l2 = Some t12"
    and "gaptr_mark mem t o2 l2 = Some t2" and "gaptr_mark mem t2 o1 l1 = Some t21"
  shows "gaptr_missing t12 = gaptr_missing t21
    \<and> ngtcp2_gaptr_first_gap_offset t12 = ngtcp2_gaptr_first_gap_offset t21
    \<and> ngtcp2_gaptr_first_gap_offset t \<le> ngtcp2_gaptr_first_gap_offset t1
    \<and> (o1 \<le> ngtcp2_gaptr_first_gap_offset t \<longrightarrow> o1 + l1 \<le> ngtcp2_gaptr_first_gap_offset t1)"
  using gaptr.mark_commute [OF assms] gaptr.first_mono [OF assms(1,2)] gaptr.first_advances [OF assms(1,2)]
  by blast

theorem gaptr_order_independent_witness:
  "\<exists>t t1 t12 t2 t21. gaptr_inv t \<and> gaptr_mark [] t 0 4 = Some t1 \<and> gaptr_mark [] t1 2 6 = Some t12
    \<and> gaptr_mark [] t 2 6 = Some t2 \<and> gaptr_mark [] t2 0 4 = Some t21
    \<and> gaptr_missing t12 = gaptr_missing t21 \<and> 0 + 4 \<le> ngtcp2_gaptr_first_gap_offset t1"
proof -
  let ?g = "\<lambda>b. \<lparr>gaptr_gap = [ngtcp2_range_init b UINT64_MAX]\<rparr>"
  let ?h = "\<lparr>gaptr_gap = [ngtcp2_range_init 0 2, ngtcp2_range_init 8 UINT64_MAX]\<rparr>"
  have inv: "gaptr_inv (?g 0)" by (simp add: gaptr_inv_def gaps_ok_init)
  have runs: "gaptr_mark [] (?g 0) 0 4 = Some (?g 4)" "gaptr_mark [] (?g 4) 2 6 = Some (?g 8)"
    "gaptr_mark [] (?g 0) 2 6 = Some ?h" "gaptr_mark [] ?h 0 4 = Some (?g 8)"
    by (simp_all add: gaptr_mark_def ngtcp2_gaptr_push_def range_ops ngtcp2_gaptr_gap_new_def)
  have "0 \<le> ngtcp2_gaptr_first_gap_offset (?g 0)" by simp
  then show ?thesis
    using gaptr_order_independent [OF inv runs] inv runs by blast
qed

end
