(* ===== verification/Rob.thy ===== *)
theory Rob
  imports Gaptr
begin

text \<open>
  \<^verbatim>\<open>lib/ngtcp2_rob.c\<close>: the reorder buffer of a receiving stream. It keeps the gaps, the
  offsets not received yet, like \<^verbatim>\<open>ngtcp2_gaptr\<close>, and an ordered list of data chunks of a
  fixed size. A byte of a chunk is \<open>None\<close> as long as nothing was written to it (the chunk is
  allocated with \<open>malloc\<close>). Copies outside a chunk or outside the pushed data, a failed
  assertion and the division by a chunk size of 0 are \<open>Fault\<close>.
\<close>

section \<open>Operations\<close>

record ngtcp2_rob_data =
  rd_offset :: u64
  rd_bytes :: "u8 option list"

record ngtcp2_rob =
  rob_gap :: "ngtcp2_range list"
  rob_data :: "ngtcp2_rob_data list"
  rob_chunk :: u64

definition ngtcp2_rob_gap_new :: "u64 \<Rightarrow> u64 \<Rightarrow> ngtcp2_mem \<Rightarrow> ngtcp2_range option \<times> ngtcp2_mem" where
  "ngtcp2_rob_gap_new b e mem =
     (let (ok, mem') = ngtcp2_mem_malloc mem in
      (if ok then Some (ngtcp2_range_init b e) else None, mem'))"

definition ngtcp2_rob_data_new :: "u64 \<Rightarrow> u64 \<Rightarrow> ngtcp2_mem \<Rightarrow> ngtcp2_rob_data option \<times> ngtcp2_mem" where
  "ngtcp2_rob_data_new offset chunk mem =
     (let (ok, mem') = ngtcp2_mem_malloc mem in
      (if ok then Some \<lparr>rd_offset = offset, rd_bytes = replicate (unat chunk) None\<rparr> else None, mem'))"

definition ngtcp2_rob_init :: "u64 \<Rightarrow> ngtcp2_mem \<Rightarrow> ngtcp2_rob result \<times> ngtcp2_mem" where
  "ngtcp2_rob_init chunk mem =
     (case ngtcp2_rob_gap_new 0 UINT64_MAX mem of
        (None, mem') \<Rightarrow> (Err NGTCP2_ERR_NOMEM, mem')
      | (Some g, mem') \<Rightarrow> (Ok \<lparr>rob_gap = [g], rob_data = [], rob_chunk = chunk\<rparr>, mem'))"

text \<open>\<open>chunk_write d i src n\<close>: \<open>memcpy\<close> of \<open>n\<close> bytes of \<open>src\<close> to the \<open>i\<close>th byte of the chunk on.\<close>

definition chunk_write :: "ngtcp2_rob_data \<Rightarrow> nat \<Rightarrow> bytes \<Rightarrow> nat \<Rightarrow> ngtcp2_rob_data result" where
  "chunk_write d i src n =
     c_assert (i + n \<le> length (rd_bytes d) \<and> n \<le> length src)
       (Ok (d\<lparr>rd_bytes := take i (rd_bytes d) @ map Some (take n src) @ drop (i + n) (rd_bytes d)\<rparr>))"

text \<open>\<open>put_back d\<close> puts back the node that the advancing pointer \<open>pd\<close> leaves behind.\<close>

definition put_back :: "'d \<Rightarrow> ('d list \<times> 'm \<times> rc) result \<Rightarrow> ('d list \<times> 'm \<times> rc) result" where
  "put_back d r = rbind r (\<lambda>(ds, mem, rv). Ok (d # ds, mem, rv))"

lemma new_chunk_room:
  assumes "(chunk::u64) \<noteq> 0"
  shows "offset div chunk * chunk + chunk - offset = chunk - offset mod chunk"
    and "offset div chunk * chunk + chunk - offset \<noteq> 0"
proof -
  show eq: "offset div chunk * chunk + chunk - offset = chunk - offset mod chunk"
    using div_mult_mod_eq [of offset chunk] by (simp add: algebra_simps)
  have "offset mod chunk < chunk"
    using assms by (simp add: word_less_nat_alt unat_mod_distrib unat_gt_0)
  then show "offset div chunk * chunk + chunk - offset \<noteq> 0" unfolding eq by auto
qed

lemma unat_min: "unat (ngtcp2_min a b) = min (unat a) (unat b)"
  by (simp add: ngtcp2_min_def word_less_nat_alt min_def)

lemma unat_rest: "unat (len - ngtcp2_min len k) = unat len - unat k"
  by (simp add: unat_sub word_le_nat_alt unat_min)

text \<open>
  \<open>rob_write_data chunk ds offset data len mem\<close> is the loop of the C function from the link
  whose suffix is \<open>ds\<close> on; \<open>data\<close> is what follows the data pointer.
\<close>

function rob_write_data ::
  "u64 \<Rightarrow> ngtcp2_rob_data list \<Rightarrow> u64 \<Rightarrow> bytes \<Rightarrow> u64 \<Rightarrow> ngtcp2_mem
    \<Rightarrow> (ngtcp2_rob_data list \<times> ngtcp2_mem \<times> rc) result" where
  "rob_write_data chunk ds offset data len mem =
     (if ds = [] \<or> offset < rd_offset (hd ds) then
        if chunk = 0 then Fault
        else
          case ngtcp2_rob_data_new (offset div chunk * chunk) chunk mem of
            (None, mem') \<Rightarrow> Ok (ds, mem', Some NGTCP2_ERR_NOMEM)
          | (Some nd, mem') \<Rightarrow>
              let n = ngtcp2_min len (offset div chunk * chunk + chunk - offset) in
              rbind (chunk_write nd (unat (offset - offset div chunk * chunk)) data (unat n)) (\<lambda>d.
                if len - n = 0 then Ok (d # ds, mem', None)
                else put_back d
                  (rob_write_data chunk ds (offset + n) (drop (unat n) data) (len - n) mem'))
      else if rd_offset (hd ds) + chunk < offset then
        put_back (hd ds) (rob_write_data chunk (tl ds) offset data len mem)
      else
        let n = ngtcp2_min len (rd_offset (hd ds) + chunk - offset) in
        rbind (chunk_write (hd ds) (unat (offset - rd_offset (hd ds))) data (unat n)) (\<lambda>d.
          if len - n = 0 then Ok (d # tl ds, mem, None)
          else put_back d
            (rob_write_data chunk (tl ds) (offset + n) (drop (unat n) data) (len - n) mem)))"
  by pat_completeness auto

termination
proof (relation "measure (\<lambda>(chunk, ds, offset, data, len, mem). unat len + length ds)", goal_cases)
  case (2 chunk ds offset data len mem)
  then have "unat (offset div chunk * chunk + chunk - offset) \<noteq> 0" using new_chunk_room(2) by (simp add: unat_eq_0)
  moreover have "unat (len - ngtcp2_min len (offset div chunk * chunk + chunk - offset)) \<noteq> 0"
    using 2 by (simp add: unat_eq_0)
  ultimately show ?case using 2 by (simp add: unat_rest)
next
  case (3 chunk ds offset data len mem)
  then show ?case by (cases ds) auto
next
  case (4 chunk ds offset data len mem)
  then show ?case by (cases ds) (auto simp: unat_rest)
qed simp

declare rob_write_data.simps [simp del]

text \<open>
  \<open>rob_push_loop\<close> is the loop of \<open>ngtcp2_rob_push\<close> from the link whose suffix is \<open>gs\<close> on: the
  new suffix, the data chunks, the allocator and the return value. \<open>link_gap\<close> puts back a gap.
\<close>

definition link_gap ::
  "'g \<Rightarrow> ('g list \<times> 'd \<times> 'm \<times> rc) result \<Rightarrow> ('g list \<times> 'd \<times> 'm \<times> rc) result" where
  "link_gap g r = rbind r (\<lambda>(gs, ds, mem, rv). Ok (g # gs, ds, mem, rv))"

fun rob_push_loop ::
  "u64 \<Rightarrow> u64 \<Rightarrow> bytes \<Rightarrow> ngtcp2_range \<Rightarrow> ngtcp2_range list \<Rightarrow> ngtcp2_rob_data list \<Rightarrow> ngtcp2_mem
    \<Rightarrow> (ngtcp2_range list \<times> ngtcp2_rob_data list \<times> ngtcp2_mem \<times> rc) result" where
  "rob_push_loop chunk offset data q [] ds mem = Ok ([], ds, mem, None)"
| "rob_push_loop chunk offset data q (g # gs) ds mem =
     (let m = ngtcp2_range_intersect q g;
          src = drop (unat (rg_begin m - offset)) data;
          write = (\<lambda>mem. rob_write_data chunk ds (rg_begin m) src (ngtcp2_range_len m) mem);
          next_gap = (\<lambda>cur ds mem. if ngtcp2_range_not_after q cur then Ok (cur # gs, ds, mem, None)
                                else link_gap cur (rob_push_loop chunk offset data q gs ds mem));
          fill = (\<lambda>cur mem. rbind (write mem) (\<lambda>(ds', mem', rv).
                    if rv \<noteq> None then Ok (cur # gs, ds', mem', rv) else next_gap cur ds' mem'))
      in
      if ngtcp2_range_len m \<noteq> 0 then
        if ngtcp2_range_equal g m then
          rbind (write mem) (\<lambda>(ds', mem', rv).
            if rv \<noteq> None then Ok (gs, ds', mem', rv) else rob_push_loop chunk offset data q gs ds' mem')
        else
          let (l, r) = ngtcp2_range_cut g m in
          if ngtcp2_range_len l \<noteq> 0 then
            if ngtcp2_range_len r \<noteq> 0 then
              case ngtcp2_rob_gap_new (rg_begin r) (rg_end r) mem of
                (None, mem') \<Rightarrow> Ok (l # gs, ds, mem', Some NGTCP2_ERR_NOMEM)
              | (Some ng, mem') \<Rightarrow> link_gap l (fill ng mem')
            else fill l mem
          else fill (if ngtcp2_range_len r \<noteq> 0 then r else g) mem
      else next_gap g ds mem)"

definition ngtcp2_rob_push ::
  "ngtcp2_rob \<Rightarrow> u64 \<Rightarrow> bytes \<Rightarrow> u64 \<Rightarrow> ngtcp2_mem \<Rightarrow> (ngtcp2_rob \<times> ngtcp2_mem \<times> rc) result" where
  "ngtcp2_rob_push rob offset data datalen mem =
     (let q = \<lparr>rg_begin = offset, rg_end = offset + datalen\<rparr> in
      rbind (rob_push_loop (rob_chunk rob) offset data q (rob_gap rob) (rob_data rob) mem)
        (\<lambda>(gs, ds, mem', rv). Ok (rob\<lparr>rob_gap := gs, rob_data := ds\<rparr>, mem', rv)))"

fun remove_prefix_gaps :: "u64 \<Rightarrow> ngtcp2_range list \<Rightarrow> ngtcp2_range list" where
  "remove_prefix_gaps offset [] = []"
| "remove_prefix_gaps offset (g # gs) =
     (if offset \<le> rg_begin g then g # gs
      else if offset < rg_end g then g\<lparr>rg_begin := offset\<rparr> # gs
      else remove_prefix_gaps offset gs)"

fun remove_prefix_data :: "u64 \<Rightarrow> u64 \<Rightarrow> ngtcp2_rob_data list \<Rightarrow> ngtcp2_rob_data list" where
  "remove_prefix_data chunk offset [] = []"
| "remove_prefix_data chunk offset (d # ds) =
     (if offset \<le> rd_offset d then d # ds
      else if offset < rd_offset d + chunk then d # ds
      else remove_prefix_data chunk offset ds)"

definition ngtcp2_rob_remove_prefix :: "ngtcp2_rob \<Rightarrow> u64 \<Rightarrow> ngtcp2_rob" where
  "ngtcp2_rob_remove_prefix rob offset =
     rob\<lparr>rob_gap := remove_prefix_gaps offset (rob_gap rob),
         rob_data := remove_prefix_data (rob_chunk rob) offset (rob_data rob)\<rparr>"

text \<open>
  \<open>ngtcp2_rob_data_at rob offset\<close> is the memory from \<open>*pdest\<close> to the end of its chunk
  (\<open>None\<close>: \<open>pdest\<close> is not assigned) and the return value; reading the first gap of an empty gap
  list is a \<open>NULL\<close> dereference.
\<close>

definition ngtcp2_rob_data_at :: "ngtcp2_rob \<Rightarrow> u64 \<Rightarrow> (u8 option list option \<times> u64) result" where
  "ngtcp2_rob_data_at rob offset =
     (case rob_gap rob of
        [] \<Rightarrow> Fault
      | g # _ \<Rightarrow>
          if rg_begin g \<le> offset then Ok (None, 0)
          else
            case rob_data rob of
              [] \<Rightarrow> Fault
            | d # _ \<Rightarrow>
                c_assert (rd_offset d \<le> offset) (c_assert (offset < rd_offset d + rob_chunk rob)
                  (Ok (Some (drop (unat (offset - rd_offset d)) (rd_bytes d)),
                       ngtcp2_min (rg_begin g) (rd_offset d + rob_chunk rob) - offset))))"

definition ngtcp2_rob_pop :: "ngtcp2_rob \<Rightarrow> u64 \<Rightarrow> u64 \<Rightarrow> ngtcp2_rob result" where
  "ngtcp2_rob_pop rob offset len =
     (case rob_data rob of
        [] \<Rightarrow> Fault
      | d # ds \<Rightarrow>
          if offset + len < rd_offset d + rob_chunk rob then Ok rob
          else Ok (rob\<lparr>rob_data := ds\<rparr>))"

definition ngtcp2_rob_first_gap_offset :: "ngtcp2_rob \<Rightarrow> u64" where
  "ngtcp2_rob_first_gap_offset rob = (case rob_gap rob of g # _ \<Rightarrow> rg_begin g | [] \<Rightarrow> UINT64_MAX)"

section \<open>The gaps are those of a gap tracker\<close>

lemma put_back_eq: "put_back d r = Ok (ds, mem, rv) \<longleftrightarrow> (\<exists>ds'. r = Ok (ds', mem, rv) \<and> ds = d # ds')"
  by (cases r) (auto simp: put_back_def)

lemma link_gap_eq:
  "link_gap g r = Ok (gs, ds, mem, rv) \<longleftrightarrow> (\<exists>gs'. r = Ok (gs', ds, mem, rv) \<and> gs = g # gs')"
  by (cases r) (auto simp: link_gap_def)

lemma rob_gaps_refine:
  "rob_push_loop chunk offset data q gs ds mem = Ok (gs', ds', mem', None) \<Longrightarrow>
    gaptr_push_loop q gs [] = (gs', [], None)"
proof (induction gs arbitrary: ds mem gs')
  case (Cons g gs)
  from Cons.prems show ?case
    by (simp add: Let_def split_beta link_gap_eq link_eq result_simps ngtcp2_rob_gap_new_def ngtcp2_gaptr_gap_new_def
        split: if_splits option.splits) (use Cons.IH in auto)
qed simp

section \<open>The data chunks\<close>

text \<open>
  \<open>data_ok c lo ds\<close>: the chunks are \<open>c\<close> bytes long, start at multiples of \<open>c\<close>, are ordered and
  disjoint, start at \<open>lo\<close> or later, and end before the offsets could wrap around.
  \<open>byte_at ds x\<close> is the byte stored for the stream offset \<open>x\<close>.
\<close>

fun data_ok :: "nat \<Rightarrow> nat \<Rightarrow> ngtcp2_rob_data list \<Rightarrow> bool" where
  "data_ok c lo [] \<longleftrightarrow> True"
| "data_ok c lo (d # ds) \<longleftrightarrow> lo \<le> unat (rd_offset d) \<and> c dvd unat (rd_offset d) \<and>
     length (rd_bytes d) = c \<and> unat (rd_offset d) + c \<le> 2 ^ 63 \<and> data_ok c (unat (rd_offset d) + c) ds"

fun byte_at :: "ngtcp2_rob_data list \<Rightarrow> u64 \<Rightarrow> u8 option" where
  "byte_at [] x = None"
| "byte_at (d # ds) x =
     (if unat (rd_offset d) \<le> unat x \<and> unat x < unat (rd_offset d) + length (rd_bytes d)
      then rd_bytes d ! (unat x - unat (rd_offset d)) else byte_at ds x)"

lemma data_ok_mono: "data_ok c lo ds \<Longrightarrow> lo' \<le> lo \<Longrightarrow> data_ok c lo' ds"
  by (cases ds) auto

lemma byte_at_below: "data_ok c lo ds \<Longrightarrow> unat x < lo \<Longrightarrow> byte_at ds x = None"
  by (induction ds arbitrary: lo) auto

lemma chunk_write_ok:
  assumes "i + n \<le> length (rd_bytes d)" and "n \<le> length src"
  obtains d' where "chunk_write d i src n = Ok d'" "rd_offset d' = rd_offset d"
    "length (rd_bytes d') = length (rd_bytes d)"
    "\<forall>j < length (rd_bytes d).
       rd_bytes d' ! j = (if i \<le> j \<and> j < i + n then Some (src ! (j - i)) else rd_bytes d ! j)"
proof -
  define d' where "d' = d\<lparr>rd_bytes := take i (rd_bytes d) @ map Some (take n src) @ drop (i + n) (rd_bytes d)\<rparr>"
  have "chunk_write d i src n = Ok d'" using assms by (simp add: chunk_write_def d'_def)
  moreover have "rd_bytes d' ! j = (if i \<le> j \<and> j < i + n then Some (src ! (j - i)) else rd_bytes d ! j)"
    if "j < length (rd_bytes d)" for j
    using assms that by (auto simp: d'_def nth_append)
  ultimately show ?thesis using assms by (intro that [of d']) (auto simp: d'_def)
qed

text \<open>The chunk that the C code allocates for an offset is the aligned one that contains it.\<close>

lemma new_chunk_bounds:
  assumes "unat (chunk::u64) = c" and "0 < c"
  shows "unat (offset div chunk * chunk) = unat offset div c * c"
    and "unat offset div c * c \<le> unat offset" and "unat offset < unat offset div c * c + c"
proof -
  show le: "unat offset div c * c \<le> unat offset" by (rule div_times_less_eq_dividend)
  show "unat offset < unat offset div c * c + c"
    using assms(2) by (metis add.commute div_mult_mod_eq mod_less_divisor nat_add_left_cancel_less)
  have "unat offset div c * c < 2 ^ 64" using le_less_trans [OF le, of "2 ^ 64"] by simp
  then show "unat (offset div chunk * chunk) = unat offset div c * c"
    using assms(1) unfolding unat_word_ariths(2) unat_div_distrib by simp
qed

definition written :: "u64 \<Rightarrow> nat \<Rightarrow> bytes \<Rightarrow> (u64 \<Rightarrow> u8 option) \<Rightarrow> u64 \<Rightarrow> u8 option" where
  "written offset n data old x =
     (if unat offset \<le> unat x \<and> unat x < unat offset + n then Some (data ! (unat x - unat offset)) else old x)"

text \<open>One iteration: copy to the chunk \<open>d\<close>, then continue behind it.\<close>

lemma write_one_chunk:
  assumes d: "unat (rd_offset d) + c \<le> 2 ^ 63" "length (rd_bytes d) = c" "c dvd unat (rd_offset d)"
    and chunk: "unat chunk = c"
    and offset: "unat (rd_offset d) \<le> unat offset" "unat offset \<le> unat (rd_offset d) + c"
    and len: "unat len \<le> length data"
    and n: "n = ngtcp2_min len (rd_offset d + chunk - offset)"
  obtains d' where "chunk_write d (unat (offset - rd_offset d)) data (unat n) = Ok d'"
    "rd_offset d' = rd_offset d" "length (rd_bytes d') = c"
    "unat n = min (unat len) (unat (rd_offset d) + c - unat offset)"
    "\<And>ds. byte_at (d' # ds) = written offset (unat n) data (byte_at (d # ds))"
proof -
  have "unat (rd_offset d + chunk) = unat (rd_offset d) + c" using d(1) chunk by (simp add: unat_add_small)
  then have un: "unat n = min (unat len) (unat (rd_offset d) + c - unat offset)"
    using offset by (simp add: n unat_min unat_sub word_le_nat_alt)
  have i: "unat (offset - rd_offset d) = unat offset - unat (rd_offset d)"
    using offset by (simp add: unat_sub word_le_nat_alt)
  have "unat (offset - rd_offset d) + unat n \<le> length (rd_bytes d)" "unat n \<le> length data"
    using un i d(2) offset len by auto
  then obtain d' where d': "chunk_write d (unat (offset - rd_offset d)) data (unat n) = Ok d'"
    "rd_offset d' = rd_offset d" "length (rd_bytes d') = length (rd_bytes d)"
    "\<forall>j < length (rd_bytes d). rd_bytes d' ! j =
       (if unat (offset - rd_offset d) \<le> j \<and> j < unat (offset - rd_offset d) + unat n
        then Some (data ! (j - unat (offset - rd_offset d))) else rd_bytes d ! j)"
    by (rule chunk_write_ok)
  have "byte_at (d' # ds) = written offset (unat n) data (byte_at (d # ds))" for ds
    by (rule ext) (use d' i un d(2) offset in \<open>auto simp: written_def\<close>)
  then show ?thesis using d' d(2) un by (intro that [of d']) auto
qed

lemma written_written:
  "written (offset + n) k (drop (unat n) data) (written offset (unat n) data old) =
    written offset (unat n + k) data old"
  if "unat (offset + n) = unat offset + unat n" "unat n + k \<le> length data"
  using that by (auto simp: written_def fun_eq_iff)

lemma put_back_Ok [simp]: "put_back d (Ok (ds, mem, rv)) = Ok (d # ds, mem, rv)"
  by (simp add: put_back_def)

text \<open>What a write that starts at the suffix \<open>ds\<close> establishes.\<close>

definition write_post ::
  "nat \<Rightarrow> nat \<Rightarrow> (u64 \<Rightarrow> u8 option) \<Rightarrow> u64 \<Rightarrow> bytes \<Rightarrow> u64 \<Rightarrow> ngtcp2_mem
    \<Rightarrow> (ngtcp2_rob_data list \<times> ngtcp2_mem \<times> rc) result \<Rightarrow> bool" where
  "write_post c lo old offset data len mem r \<longleftrightarrow>
     (\<exists>ds' mem' rv. r = Ok (ds', mem', rv) \<and> data_ok c lo ds' \<and> set mem' \<subseteq> set mem \<and>
       (rv = None \<or> rv = Some NGTCP2_ERR_NOMEM \<and> False \<in> set mem) \<and>
       (rv = None \<longrightarrow> byte_at ds' = written offset (unat len) data old))"

lemma write_post_mem:
  "write_post c lo old offset data len mem' r \<Longrightarrow> set mem' \<subseteq> set mem \<Longrightarrow> write_post c lo old offset data len mem r"
  unfolding write_post_def by blast

lemma write_step:
  fixes d chunk offset len
  defines "n \<equiv> ngtcp2_min len (rd_offset d + chunk - offset)"
  assumes ok: "data_ok c lo (d # ds)" and chunk: "unat chunk = c"
    and offset: "unat (rd_offset d) \<le> unat offset" "unat offset \<le> unat (rd_offset d) + c"
    and len: "unat len \<le> length data" and small: "unat offset + unat len \<le> 2 ^ 62"
    and IH: "len - n \<noteq> 0 \<Longrightarrow> unat (rd_offset d) + c \<le> unat (offset + n) \<Longrightarrow>
      unat (offset + n) + unat (len - n) \<le> 2 ^ 62 \<Longrightarrow> unat (len - n) \<le> length (drop (unat n) data) \<Longrightarrow>
      write_post c (unat (rd_offset d) + c) (byte_at ds) (offset + n) (drop (unat n) data) (len - n) mem
        (rob_write_data chunk ds (offset + n) (drop (unat n) data) (len - n) mem)"
  shows "write_post c lo (byte_at (d # ds)) offset data len mem
    (rbind (chunk_write d (unat (offset - rd_offset d)) data (unat n)) (\<lambda>d'.
       if len - n = 0 then Ok (d' # ds, mem, None)
       else put_back d' (rob_write_data chunk ds (offset + n) (drop (unat n) data) (len - n) mem)))"
proof -
  have d: "unat (rd_offset d) + c \<le> 2 ^ 63" "length (rd_bytes d) = c" "c dvd unat (rd_offset d)"
    using ok by auto
  obtain d' where d': "chunk_write d (unat (offset - rd_offset d)) data (unat n) = Ok d'"
    "rd_offset d' = rd_offset d" "length (rd_bytes d') = c"
    "unat n = min (unat len) (unat (rd_offset d) + c - unat offset)"
    "\<And>ds. byte_at (d' # ds) = written offset (unat n) data (byte_at (d # ds))"
    using write_one_chunk [OF d chunk offset len, of n] n_def by blast
  have off_n: "unat (offset + n) = unat offset + unat n" using small d'(4) by (simp add: unat_add_small)
  have "n \<le> len" using d'(4) by (simp add: word_le_nat_alt)
  then have len_n: "unat (len - n) = unat len - unat n" by (rule unat_sub)
  show ?thesis
  proof (cases "len - n = 0")
    case True
    then have "unat (len - n) = 0" by (simp only: unat_0)
    then have "unat n = unat len" using len_n \<open>n \<le> len\<close> by (simp add: word_le_nat_alt)
    then have "byte_at (d' # ds) = written offset (unat len) data (byte_at (d # ds))" using d'(5) by simp
    then show ?thesis using True d'(1-3) ok by (auto simp: write_post_def simp del: byte_at.simps)
  next
    case False
    then have "unat (len - n) \<noteq> 0" by (simp add: unat_eq_0)
    then have n_end: "unat offset + unat n = unat (rd_offset d) + c" "unat n < unat len"
      using d'(4) len_n offset(2) by (auto simp: min_def split: if_splits)
    then have "write_post c (unat (rd_offset d) + c) (byte_at ds) (offset + n) (drop (unat n) data) (len - n) mem
        (rob_write_data chunk ds (offset + n) (drop (unat n) data) (len - n) mem)"
      using False off_n len_n d'(4) small len offset by (intro IH) auto
    then obtain ds' mem' rv where
      run: "rob_write_data chunk ds (offset + n) (drop (unat n) data) (len - n) mem = Ok (ds', mem', rv)"
      and post: "data_ok c (unat (rd_offset d) + c) ds'" "set mem' \<subseteq> set mem"
        "rv = None \<or> rv = Some NGTCP2_ERR_NOMEM \<and> False \<in> set mem"
        "rv = None \<longrightarrow> byte_at ds' = written (offset + n) (unat (len - n)) (drop (unat n) data) (byte_at ds)"
      by (auto simp: write_post_def)
    have "byte_at (d' # ds') = written offset (unat len) data (byte_at (d # ds))" if "rv = None"
      unfolding d'(5) using that post(4) n_end off_n len_n d(2) len offset
      by (intro ext) (auto simp: written_def intro!: arg_cong [where f = "(!) data"])
    then show ?thesis using False d' run post ok by (auto simp: write_post_def simp del: byte_at.simps)
  qed
qed

lemma aligned_after: "c dvd k \<Longrightarrow> a < k \<Longrightarrow> a div c * c + c \<le> (k::nat)"
proof -
  assume "c dvd k" "a < k"
  then obtain j where j: "k = c * j" "a < c * j" unfolding dvd_def by blast
  then have "a div c < j" by (simp add: less_mult_imp_div_less mult.commute)
  then have "(a div c + 1) * c \<le> j * c" by (intro mult_le_mono1) simp
  then show ?thesis using j by (simp add: algebra_simps)
qed

lemma aligned_before: "0 < c \<Longrightarrow> c dvd k \<Longrightarrow> k \<le> a \<Longrightarrow> k \<le> a div c * (c::nat)"
  by (metis div_le_mono dvd_div_mult_self mult_le_mono1)

lemma data_ok_new:
  assumes "data_ok c lo ds" and "c dvd lo" and "lo \<le> unat offset" and c: "unat (chunk::u64) = c" "0 < c"
    and "c \<le> 2 ^ 62" and "unat offset \<le> 2 ^ 62" and "ds = [] \<or> offset < rd_offset (hd ds)"
    and nd: "nd = \<lparr>rd_offset = offset div chunk * chunk, rd_bytes = replicate (unat chunk) None\<rparr>"
  shows "data_ok c lo (nd # ds)" and "byte_at (nd # ds) = byte_at ds"
proof -
  note b = new_chunk_bounds [OF c, of offset]
  have top: "unat offset div c * c + c \<le> 2 ^ 63" 
    using add_mono [OF order_trans [OF b(2) assms(7)] assms(6)] by simp
  have "data_ok c (unat offset div c * c + c) ds"
    using assms(1,8) aligned_after [of c _ "unat offset"] by (cases ds) (auto simp: word_less_nat_alt)
  then show ok: "data_ok c lo (nd # ds)"
    using aligned_before [OF c(2) assms(2,3)] b(1) nd c top by simp
  then show "byte_at (nd # ds) = byte_at ds"
    using byte_at_below nd c by (intro ext) (auto simp: nth_replicate)
qed

lemma write_data_correct:
  assumes "data_ok c lo ds" and "c dvd lo" and "lo \<le> unat offset" and "unat offset + unat len \<le> 2 ^ 62"
    and "unat chunk = c" and "0 < c" and "c \<le> 2 ^ 62" and "unat len \<le> length data"
  shows "write_post c lo (byte_at ds) offset data len mem (rob_write_data chunk ds offset data len mem)"
  using assms
proof (induction "unat len + length ds" arbitrary: ds offset data len mem lo rule: less_induct)
  case less
  note ok = \<open>data_ok c lo ds\<close> and c = \<open>unat chunk = c\<close> \<open>0 < c\<close>
    and small = \<open>unat offset + unat len \<le> 2 ^ 62\<close> \<open>c \<le> 2 ^ 62\<close> and len = \<open>unat len \<le> length data\<close>
    and lo = \<open>c dvd lo\<close> \<open>lo \<le> unat offset\<close>
  have chunk: "chunk \<noteq> 0" using c by auto
  note step = rob_write_data.simps [of chunk ds offset data len mem]
  show ?case
  proof (cases "ds = [] \<or> offset < rd_offset (hd ds)")
    case new: True
    define nd where nd: "nd = \<lparr>rd_offset = offset div chunk * chunk, rd_bytes = replicate (unat chunk) None\<rparr>"
    have o62: "unat offset \<le> 2 ^ 62" using small by simp
    note nd_ok = data_ok_new [OF ok lo c small(2) o62 new nd]
    note b = new_chunk_bounds [OF c, of offset]
    show ?thesis
    proof (cases "ngtcp2_mem_malloc mem")
      case (Pair okm mem')
      note mem' = malloc_mem [OF Pair]
      have post: "write_post c lo (byte_at (nd # ds)) offset data len mem'
        (let n = ngtcp2_min len (rd_offset nd + chunk - offset) in
         rbind (chunk_write nd (unat (offset - rd_offset nd)) data (unat n)) (\<lambda>d.
          if len - n = 0 then Ok (d # ds, mem', None)
          else put_back d (rob_write_data chunk ds (offset + n) (drop (unat n) data) (len - n) mem')))"
        unfolding Let_def
      proof (rule write_step [OF nd_ok(1) c(1) _ _ len small(1)], goal_cases)
        case 3
        let ?k = "rd_offset nd + chunk - offset"
        have "unat ?k \<noteq> 0" using new_chunk_room(2) [OF chunk, of offset] nd by (simp add: unat_eq_0)
        moreover have "unat (len - ngtcp2_min len ?k) \<noteq> 0" using 3(1) by (simp only: unat_eq_0 not_False_eq_True)
        ultimately have "unat (len - ngtcp2_min len ?k) + length ds < unat len + length ds"
          unfolding unat_rest by simp
        then show ?case using nd_ok(1) 3 c small(2) by (intro less.hyps) auto
      qed (use b nd in auto)
      show ?thesis
      proof (cases okm)
        case True
        then show ?thesis
          using write_post_mem [OF post] mem' new chunk Pair unfolding step nd_ok(2)
          by (simp add: ngtcp2_rob_data_new_def nd)
      next
        case False
        then show ?thesis
          using mem' ok new chunk Pair unfolding step by (simp add: ngtcp2_rob_data_new_def write_post_def)
      qed
    qed
  next
    case False
    then obtain d es where ds: "ds = d # es" "rd_offset d \<le> offset" by (cases ds) auto
    have d: "unat (rd_offset d + chunk) = unat (rd_offset d) + c" "c dvd unat (rd_offset d) + c"
      "data_ok c (unat (rd_offset d) + c) es"
      using ok ds c by (auto simp: unat_add_small)
    show ?thesis
    proof (cases "rd_offset d + chunk < offset")
      case skip: True
      then have "write_post c (unat (rd_offset d) + c) (byte_at es) offset data len mem
          (rob_write_data chunk es offset data len mem)"
        using d ds small len c by (intro less.hyps) (auto simp: word_less_nat_alt)
      then show ?thesis
        using skip False ds ok d(1) unfolding step
        by (auto simp: write_post_def written_def fun_eq_iff word_less_nat_alt)
    next
      case use: False
      have "write_post c lo (byte_at (d # es)) offset data len mem
        (let n = ngtcp2_min len (rd_offset d + chunk - offset) in
         rbind (chunk_write d (unat (offset - rd_offset d)) data (unat n)) (\<lambda>d.
          if len - n = 0 then Ok (d # es, mem, None)
          else put_back d (rob_write_data chunk es (offset + n) (drop (unat n) data) (len - n) mem)))"
        unfolding Let_def
      proof (rule write_step [OF ok [unfolded ds] c(1) _ _ len small(1)], goal_cases)
        case 3
        then show ?case using d ds c small(2) by (intro less.hyps) (auto simp: unat_rest)
      qed (use ds d(1) use in \<open>auto simp: word_le_nat_alt word_less_nat_alt\<close>)
      then show ?thesis using use False ds unfolding step by (simp only: Let_def list.sel if_False if_True simp_thms)
    qed
  qed
qed

section \<open>Pushing data\<close>

text \<open>What a push of the range \<open>q\<close> establishes, from the suffix \<open>gs\<close> of the gap list on.\<close>

definition push_post ::
  "nat \<Rightarrow> nat \<Rightarrow> u64 \<Rightarrow> bytes \<Rightarrow> u64 set \<Rightarrow> (u64 \<Rightarrow> u8 option) \<Rightarrow> ngtcp2_mem
    \<Rightarrow> (ngtcp2_range list \<times> ngtcp2_rob_data list \<times> ngtcp2_mem \<times> rc) result \<Rightarrow> bool" where
  "push_post c lo offset data new old mem r \<longleftrightarrow>
     (\<exists>gs' ds' mem' rv. r = Ok (gs', ds', mem', rv) \<and> data_ok c lo ds' \<and> set mem' \<subseteq> set mem \<and>
       (rv = None \<or> rv = Some NGTCP2_ERR_NOMEM \<and> False \<in> set mem) \<and>
       (rv = None \<longrightarrow> byte_at ds' = (\<lambda>x. if x \<in> new then Some (data ! unat (x - offset)) else old x)))"

lemma push_post_link [simp]:
  "push_post c lo offset data new old mem (link_gap g r) \<longleftrightarrow> push_post c lo offset data new old mem r"
  by (cases r) (auto simp: push_post_def link_gap_def split_beta)

text \<open>A write of the part \<open>m\<close> of the pushed range, followed by the rest of the push.\<close>

lemma push_post_bind:
  assumes w: "write_post c lo old (rg_begin m) (drop (unat (rg_begin m - offset)) data) (ngtcp2_range_len m) mem w"
    and m: "rg_begin m < rg_end m" "offset \<le> rg_begin m" "unat (rg_end m - offset) \<le> length data"
    and k: "\<And>ds mem'. data_ok c lo ds \<Longrightarrow> set mem' \<subseteq> set mem \<Longrightarrow>
      push_post c lo offset data new (byte_at ds) mem' (k ds mem')"
    and all: "new \<union> offs m = all"
  shows "push_post c lo offset data all old mem
    (rbind w (\<lambda>(ds, mem', rv). if rv \<noteq> None then Ok (f ds mem' rv, ds, mem', rv) else k ds mem'))"
proof -
  obtain ds mem' rv where w': "w = Ok (ds, mem', rv)" and post: "data_ok c lo ds" "set mem' \<subseteq> set mem"
    "rv = None \<or> rv = Some NGTCP2_ERR_NOMEM \<and> False \<in> set mem"
    "rv = None \<longrightarrow> byte_at ds =
      written (rg_begin m) (unat (ngtcp2_range_len m)) (drop (unat (rg_begin m - offset)) data) old"
    using w by (auto simp: write_post_def)
  show ?thesis
  proof (cases rv)
    case (Some e)
    then show ?thesis using w' post by (auto simp: push_post_def)
  next
    case None
    have "unat (rg_begin m - offset) \<le> length data"
      using m by (simp add: unat_sub word_less_nat_alt word_le_nat_alt)
    moreover have "unat (ngtcp2_range_len m) = unat (rg_end m) - unat (rg_begin m)"
      using m by (simp add: ngtcp2_range_len_def unat_sub)
    ultimately have "byte_at ds x = (if x \<in> offs m then Some (data ! unat (x - offset)) else old x)" for x
      using post(4) None m
      by (auto simp: written_def word_le_nat_alt word_less_nat_alt unat_sub intro!: arg_cong [where f = "(!) data"])
    then show ?thesis using k [OF post(1,2)] None w' all post(2) by (fastforce simp: push_post_def)
  qed
qed

lemma push_post_mem:
  "push_post c lo offset data new old mem' r \<Longrightarrow> set mem' \<subseteq> set mem \<Longrightarrow> push_post c lo offset data new old mem r"
  unfolding push_post_def by blast

lemma rob_push_loop_correct:
  assumes "gaps_ok gs" and "data_ok c lo ds" and "\<forall>x \<in> gapset gs. lo \<le> unat x"
    and "c dvd lo" and chunk: "unat chunk = c" "0 < c" "c \<le> 2 ^ 62"
    and q: "rg_begin q = offset" "offset \<le> rg_end q" "unat (rg_end q) \<le> 2 ^ 62"
      "unat (rg_end q) = unat offset + length data"
  shows "push_post c lo offset data (gapset gs \<inter> offs q) (byte_at ds) mem
    (rob_push_loop chunk offset data q gs ds mem)"
  using assms(1-3)
proof (induction gs arbitrary: ds mem)
  case Nil
  then show ?case by (auto simp: push_post_def)
next
  case (Cons g gs)
  define m where m: "m = ngtcp2_range_intersect q g"
  have gs: "gaps_ok gs" "\<forall>x \<in> gapset gs. lo \<le> unat x" using Cons.prems by (auto simp: gaps_ok_Cons)
  let ?step = "\<lambda>cur ds mem. if ngtcp2_range_not_after q cur then Ok (cur # gs, ds, mem, None)
      else link_gap cur (rob_push_loop chunk offset data q gs ds mem)"
  have step: "push_post c lo offset data (gapset gs \<inter> offs q) (byte_at ds) mem (?step cur ds mem)"
    if "data_ok c lo ds" "rg_end cur \<le> rg_end g" for ds mem cur
  proof (cases "ngtcp2_range_not_after q cur")
    case True
    then have "rg_end q \<le> rg_end g" using that(2) by (simp add: ngtcp2_range_not_after_def)
    then have "gapset gs \<inter> offs q = {}" using push_stop [OF Cons.prems(1)] by blast
    then show ?thesis using True that(1) by (simp add: push_post_def)
  next
    case False
    then show ?thesis using Cons.IH [OF gs(1) that(1) gs(2)] by simp
  qed
  have all: "gapset (g # gs) \<inter> offs q = gapset gs \<inter> offs q \<union> offs m"
    unfolding m offs_intersect by auto
  show ?case
  proof (cases "ngtcp2_range_len m = 0")
    case True
    then have "offs m = {}" unfolding m intersect_len_0 offs_intersect .
    then show ?thesis using True step [OF Cons.prems(2), of g mem] all m by (simp add: Let_def)
  next
    case ne: False
    obtain l r where cut: "ngtcp2_range_cut g m = (l, r)" by force
    note b = intersect_bounds [OF m ne] and lr = cut_ends [OF cut] and facts = cut_gap [OF m ne cut]
    let ?w = "\<lambda>mem. rob_write_data chunk ds (rg_begin m) (drop (unat (rg_begin m - offset)) data)
        (ngtcp2_range_len m) mem"
    have "rg_begin m \<in> gapset (g # gs)" using b by auto
    then have w: "write_post c lo (byte_at ds) (rg_begin m) (drop (unat (rg_begin m - offset)) data)
        (ngtcp2_range_len m) mem (?w mem)" for mem
      using Cons.prems(2,3) assms(4) chunk b q
      by (intro write_data_correct) (auto simp: ngtcp2_range_len_def unat_sub word_less_nat_alt word_le_nat_alt)
    have m': "offset \<le> rg_begin m" "unat (rg_end m - offset) \<le> length data"
      using b q by (auto simp: unat_sub word_less_nat_alt word_le_nat_alt)
    note bind = push_post_bind [OF w b(1) m' _ all [symmetric]]
    have fill: "push_post c lo offset data (gapset (g # gs) \<inter> offs q) (byte_at ds) mem
        (rbind (?w mem) (\<lambda>(ds', mem', rv). if rv \<noteq> None then Ok (cur # gs, ds', mem', rv) else ?step cur ds' mem'))"
      if "rg_end cur \<le> rg_end g" for cur mem
      by (rule bind) (rule step [OF _ that])
    have last: "push_post c lo offset data (gapset (g # gs) \<inter> offs q) (byte_at ds) mem
        (rbind (?w mem) (\<lambda>(ds', mem', rv). if rv \<noteq> None then Ok (gs, ds', mem', rv)
           else rob_push_loop chunk offset data q gs ds' mem'))" for mem
      by (rule bind) (rule Cons.IH [OF gs(1) _ gs(2)])
    have r_end: "rg_end r \<le> rg_end g" using lr by simp
    show ?thesis
    proof (cases "rg_begin l < rg_end l \<and> rg_begin r < rg_end r")
      case True
      obtain okm mem' where mem': "ngtcp2_mem_malloc mem = (okm, mem')" by force
      have "push_post c lo offset data (gapset (g # gs) \<inter> offs q) (byte_at ds) mem
        (Ok (l # gs, ds, mem', Some NGTCP2_ERR_NOMEM))" if "\<not> okm"
        using malloc_mem [OF mem'] Cons.prems(2) that by (simp add: push_post_def)
      then show ?thesis
        using True ne facts mem' push_post_mem [OF fill [OF r_end, of mem']] malloc_mem [OF mem']
        by (simp add: m [symmetric] Let_def cut ngtcp2_rob_gap_new_def)
    next
      case False
      then show ?thesis
        using ne facts last [of mem] fill [of l mem] fill [OF r_end, of mem] by (auto simp: m [symmetric] Let_def cut)
    qed
  qed
qed

section \<open>The invariant of a reorder buffer\<close>

text \<open>
  \<open>rob_inv S base r\<close>: the application has read up to the offset \<open>base\<close> of the stream whose byte at
  the offset \<open>x\<close> is \<open>S x\<close>; every byte that is not missing and not read yet is stored. Offsets of
  a stream stay below \<open>2^62\<close>, so the last gap is never closed.
\<close>

definition rob_missing :: "ngtcp2_rob \<Rightarrow> u64 set" where
  "rob_missing r = gapset (rob_gap r)"

definition rob_inv :: "(u64 \<Rightarrow> u8) \<Rightarrow> u64 \<Rightarrow> ngtcp2_rob \<Rightarrow> bool" where
  "rob_inv S base r \<longleftrightarrow>
     gaps_ok (rob_gap r) \<and> (\<forall>x \<in> rob_missing r. base \<le> x) \<and>
     {x. 0x4000000000000000 \<le> x \<and> x < UINT64_MAX} \<subseteq> rob_missing r \<and> base \<le> 0x4000000000000000 \<and>
     rob_chunk r \<noteq> 0 \<and> rob_chunk r \<le> 0x4000000000000000 \<and>
     data_ok (unat (rob_chunk r)) (unat base div unat (rob_chunk r) * unat (rob_chunk r)) (rob_data r) \<and>
     (\<forall>x. base \<le> x \<and> x < UINT64_MAX \<and> x \<notin> rob_missing r \<longrightarrow> byte_at (rob_data r) x = Some (S x))"

text \<open>\<open>segment S offset data\<close>: the bytes are those of the stream from the offset on.\<close>

definition segment :: "(u64 \<Rightarrow> u8) \<Rightarrow> u64 \<Rightarrow> bytes \<Rightarrow> bool" where
  "segment S offset data \<longleftrightarrow> unat offset + length data \<le> 2 ^ 62 \<and>
     (\<forall>i < length data. data ! i = S (offset + of_nat i))"

lemma rob_inv_init:
  assumes "ngtcp2_rob_init chunk mem = (Ok r, mem')" and "chunk \<noteq> 0" and "chunk \<le> 0x4000000000000000"
  shows "rob_inv S 0 r"
proof -
  have "r = \<lparr>rob_gap = [ngtcp2_range_init 0 UINT64_MAX], rob_data = [], rob_chunk = chunk\<rparr>"
    using assms(1) by (auto simp: ngtcp2_rob_init_def ngtcp2_rob_gap_new_def split: prod.splits if_splits)
  then show ?thesis using assms(2,3) gapset_init gaps_ok_init by (auto simp: rob_inv_def rob_missing_def)
qed

lemma segment_word: "segment S offset data \<Longrightarrow> unat offset \<le> unat x \<Longrightarrow> unat x < unat offset + length data \<Longrightarrow>
    data ! unat (x - offset) = S x"
  by (simp add: segment_def unat_sub word_le_nat_alt)

lemma rob_push_ok:
  assumes inv: "rob_inv S base r" and seg: "segment S offset data"
  shows "\<exists>r' mem' rv. ngtcp2_rob_push r offset data (of_nat (length data)) mem = Ok (r', mem', rv) \<and>
    (rv = None \<or> rv = Some NGTCP2_ERR_NOMEM \<and> False \<in> set mem) \<and>
    (rv = None \<longrightarrow> rob_inv S base r' \<and>
      rob_missing r' = rob_missing r - {x. offset \<le> x \<and> x < offset + of_nat (length data)})"
proof -
  let ?q = "\<lparr>rg_begin = offset, rg_end = offset + of_nat (length data)\<rparr>" and ?c = "unat (rob_chunk r)"
  let ?lo = "unat base div ?c * ?c"
  have len: "unat (of_nat (length data) :: u64) = length data"
    using seg by (simp add: segment_def unat_of_nat_small)
  have e: "unat (offset + of_nat (length data)) = unat offset + length data"
    using seg len by (simp add: segment_def unat_add_small)
  have "?lo \<le> unat base" by (rule div_times_less_eq_dividend)
  moreover have "\<forall>x \<in> gapset (rob_gap r). unat base \<le> unat x"
    using inv by (simp add: rob_inv_def rob_missing_def word_le_nat_alt)
  ultimately have lo: "\<forall>x \<in> gapset (rob_gap r). ?lo \<le> unat x" by (meson order_trans)
  have "push_post ?c ?lo offset data (gapset (rob_gap r) \<inter> offs ?q) (byte_at (rob_data r)) mem
    (rob_push_loop (rob_chunk r) offset data ?q (rob_gap r) (rob_data r) mem)"
    using inv seg e by (intro rob_push_loop_correct lo)
      (auto simp: rob_inv_def segment_def unat_gt_0 word_le_nat_alt)
  then obtain gs ds mem' rv where
    run: "rob_push_loop (rob_chunk r) offset data ?q (rob_gap r) (rob_data r) mem = Ok (gs, ds, mem', rv)"
    and post: "data_ok ?c ?lo ds" "rv = None \<or> rv = Some NGTCP2_ERR_NOMEM \<and> False \<in> set mem"
      "rv = None \<longrightarrow> byte_at ds = (\<lambda>x. if x \<in> gapset (rob_gap r) \<inter> offs ?q
          then Some (data ! unat (x - offset)) else byte_at (rob_data r) x)"
    by (auto simp: push_post_def)
  let ?r = "r\<lparr>rob_gap := gs, rob_data := ds\<rparr>"
  have "rob_inv S base ?r \<and> rob_missing ?r = rob_missing r - offs ?q" if "rv = None"
  proof -
    have "gaps_ok (rob_gap r)" using inv by (simp add: rob_inv_def)
    note gs0 = push_loop_correct [OF this rob_gaps_refine [OF run [unfolded that]]]
    have gs: "gaps_ok gs" "gapset gs = gapset (rob_gap r) - offs ?q" using gs0 by auto
    have top: "{x. 0x4000000000000000 \<le> x \<and> x < UINT64_MAX} \<inter> offs ?q = {}"
      using e seg by (auto simp: segment_def word_le_nat_alt word_less_nat_alt)
    have "byte_at ds x = Some (S x)" if "base \<le> x" "x < UINT64_MAX" "x \<notin> gapset gs" for x
      using that post(3) \<open>rv = None\<close> gs(2) inv segment_word [OF seg, of x] e
      by (auto simp: rob_inv_def rob_missing_def word_le_nat_alt word_less_nat_alt)
    then show ?thesis
      using gs top inv post(1) by (auto simp: rob_inv_def rob_missing_def simp del: mem_offs)
  qed
  then show ?thesis
    using run post(2) by (auto simp: ngtcp2_rob_push_def offs_def)
qed

text \<open>Reading at the offset up to which the application has read.\<close>

lemma rob_gap_head:
  assumes "rob_inv S base r"
  obtains g gs where "rob_gap r = g # gs" "rg_begin g \<in> rob_missing r" "rg_begin g \<le> 0x4000000000000000"
    "\<forall>x < rg_begin g. x \<notin> rob_missing r"
proof -
  have "0x4000000000000000 \<in> rob_missing r" using assms by (auto simp: rob_inv_def)
  then have ne: "rob_gap r \<noteq> []" and le: "first_gap (rob_gap r) \<le> 0x4000000000000000"
    using assms first_gap_least(2) by (auto simp: rob_inv_def rob_missing_def)
  have ok: "gaps_ok (rob_gap r)" using assms by (simp add: rob_inv_def)
  obtain g gs where gs: "rob_gap r = g # gs" using ne by (cases "rob_gap r") auto
  then have g: "rg_begin g = first_gap (rob_gap r)" by (simp add: first_gap_def)
  show ?thesis
  proof (rule that [OF gs])
    show "rg_begin g \<in> rob_missing r" "rg_begin g \<le> 0x4000000000000000"
      using first_gap_least(1) [OF ok ne] le by (simp_all add: g rob_missing_def)
    show "\<forall>x < rg_begin g. x \<notin> rob_missing r"
      using first_gap_least(2) [OF ok] leD by (fastforce simp: g rob_missing_def)
  qed
qed

lemma data_ok_tl: "data_ok c lo ds \<Longrightarrow> ds = d # es \<Longrightarrow> data_ok c (unat (rd_offset d) + c) es"
  by simp

lemma below_next_chunk: "0 < c \<Longrightarrow> b < b div c * c + (c::nat)"
  by (metis add.commute div_mult_mod_eq mod_less_divisor nat_add_left_cancel_less)

lemma byte_at_head:
  assumes "data_ok c (b div c * c) ds" and "0 < c" and "unat x = b" and "byte_at ds x \<noteq> None"
  obtains d es where "ds = d # es" "unat (rd_offset d) = b div c * c"
proof (cases ds)
  case (Cons d es)
  have "b < b div c * c + c" using assms(2) by (rule below_next_chunk)
  moreover have "unat (rd_offset d) \<le> b"
    using assms(1,3,4) byte_at_below [of c "unat (rd_offset d) + c" es x] Cons
    by (auto simp: not_le split: if_splits)
  moreover have "b div c * c + c \<le> unat (rd_offset d)" if "b div c * c < unat (rd_offset d)"
    using assms(1,2) Cons that aligned_after [of c "unat (rd_offset d)" "b div c * c"] by simp
  ultimately have "unat (rd_offset d) = b div c * c"
    using assms(1) Cons by fastforce
  then show ?thesis using that Cons by blast
qed (use assms(4) in simp)

text \<open>The chunk at the front holds what is read next, and popping it keeps the invariant.\<close>

lemma rob_pop_ok:
  assumes inv: "rob_inv S base r" and d: "rob_data r = d # es"
    and c: "c = unat (rob_chunk r)" and off: "unat (rd_offset d) = unat base div c * c"
    and n: "unat base + unat n \<le> unat (rd_offset d) + c" "\<forall>x \<in> rob_missing r. unat base + unat n \<le> unat x"
      "unat base + unat n \<le> 2 ^ 62"
  shows "\<exists>r'. ngtcp2_rob_pop r base n = Ok r' \<and> rob_inv S (base + n) r' \<and> rob_missing r' = rob_missing r"
proof -
  have ok: "data_ok c (unat base div c * c) (d # es)" "0 < c" using inv d c by (auto simp: rob_inv_def unat_gt_0)
  have e: "unat (rd_offset d + rob_chunk r) = unat (rd_offset d) + c" using ok c by (simp add: unat_add_small)
  have bn: "unat (base + n) = unat base + unat n" using n(3) by (simp add: unat_add_small)
  have base_le: "unat (rd_offset d) \<le> unat base" unfolding off by (rule div_times_less_eq_dividend)
  define ds where "ds = (if base + n < rd_offset d + rob_chunk r then d # es else es)"
  have pop: "ngtcp2_rob_pop r base n = Ok (r\<lparr>rob_data := ds\<rparr>)"
    using d by (auto simp: ngtcp2_rob_pop_def ds_def)
  have "data_ok c (unat (base + n) div c * c) ds"
  proof (cases "base + n < rd_offset d + rob_chunk r")
    case True
    then have "unat base + unat n < unat base div c * c + c" using bn e off by (simp add: word_less_nat_alt)
    then have "(unat base + unat n) div c = unat base div c"
      using trans_le_add1 [OF base_le, of "unat n"] off by (intro div_nat_eqI) (simp_all add: mult.commute)
    then show ?thesis using True ok bn by (simp add: ds_def)
  next
    case False
    then have "unat (base + n) = unat (rd_offset d) + c" using n(1) e bn by (simp add: word_less_nat_alt)
    moreover have "(unat (rd_offset d) + c) div c * c = unat (rd_offset d) + c" using ok by simp
    ultimately show ?thesis using False ok by (simp only: ds_def if_False data_ok.simps)
  qed
  moreover have "byte_at ds x = byte_at (rob_data r) x" if "base + n \<le> x" for x
    using that ok(1) e bn d by (auto simp: ds_def word_le_nat_alt word_less_nat_alt)
  moreover have "base \<le> base + n" using bn by (simp add: word_le_nat_alt)
  ultimately have "rob_inv S (base + n) (r\<lparr>rob_data := ds\<rparr>)"
    using inv n bn c unfolding rob_inv_def rob_missing_def by (auto simp: word_le_nat_alt)
  then show ?thesis using pop by (simp add: rob_missing_def)
qed

lemma rob_data_at_ok:
  assumes inv: "rob_inv S base r"
  shows "base \<in> rob_missing r \<Longrightarrow> ngtcp2_rob_data_at r base = Ok (None, 0)"
    and "base \<notin> rob_missing r \<Longrightarrow> \<exists>bs n r'. ngtcp2_rob_data_at r base = Ok (Some bs, n) \<and> n \<noteq> 0 \<and>
      unat base + unat n \<le> 2 ^ 62 \<and> unat n \<le> length bs \<and>
      take (unat n) bs = map (\<lambda>i. Some (S (base + of_nat i))) [0..<unat n] \<and>
      ngtcp2_rob_pop r base n = Ok r' \<and> rob_inv S (base + n) r' \<and> rob_missing r' = rob_missing r"
proof -
  obtain g gs where g: "rob_gap r = g # gs" "rg_begin g \<in> rob_missing r" "rg_begin g \<le> 0x4000000000000000"
    "\<forall>x < rg_begin g. x \<notin> rob_missing r"
    using inv by (rule rob_gap_head)
  show "ngtcp2_rob_data_at r base = Ok (None, 0)" if "base \<in> rob_missing r"
    using that g(1,4) by (auto simp: ngtcp2_rob_data_at_def not_less)
  assume nm: "base \<notin> rob_missing r"
  let ?c = "unat (rob_chunk r)"
  have c: "0 < ?c" "?c \<le> 2 ^ 62" using inv by (auto simp: rob_inv_def unat_gt_0 word_le_nat_alt)
  have base: "base < rg_begin g"
    using nm inv g(2) by (metis order_le_imp_less_or_eq rob_inv_def)
  have stored: "byte_at (rob_data r) x = Some (S x)" if "base \<le> x" "x < rg_begin g" for x
    using inv g(3,4) that by (auto simp: rob_inv_def word_le_nat_alt word_less_nat_alt)
  obtain d es where d: "rob_data r = d # es" "unat (rd_offset d) = unat base div ?c * ?c"
    using byte_at_head [of ?c "unat base" "rob_data r" base] stored [of base] inv c base
    by (auto simp: rob_inv_def)
  let ?e = "unat (rd_offset d) + ?c" and ?n = "ngtcp2_min (rg_begin g) (rd_offset d + rob_chunk r) - base"
  let ?bs = "drop (unat (base - rd_offset d)) (rd_bytes d)"
  have ok: "data_ok ?c (unat base div ?c * ?c) (d # es)" using inv d by (simp add: rob_inv_def)
  have e: "unat (rd_offset d + rob_chunk r) = ?e" using ok by (simp add: unat_add_small)
  have be: "unat base < ?e" "unat (rd_offset d) \<le> unat base"
    unfolding d(2) using below_next_chunk [OF c(1)] by (simp_all add: div_times_less_eq_dividend)
  have n: "unat base + unat ?n = min (unat (rg_begin g)) ?e" "?n \<noteq> 0"
  proof -
    have "unat ?n = min (unat (rg_begin g)) ?e - unat base"
      using be base e by (simp add: unat_sub unat_min word_le_nat_alt word_less_nat_alt)
    then show "unat base + unat ?n = min (unat (rg_begin g)) ?e" "?n \<noteq> 0"
      using be base by (auto simp: word_less_nat_alt)
  qed
  have at: "ngtcp2_rob_data_at r base = Ok (Some ?bs, ?n)"
    using g(1) d(1) base be e by (simp add: ngtcp2_rob_data_at_def word_le_nat_alt word_less_nat_alt)
  have len: "length ?bs = ?e - unat base" using ok be by (simp add: unat_sub word_le_nat_alt)
  have "?bs ! i = Some (S (base + of_nat i))" if "i < unat ?n" for i
  proof -
    have "i < 2 ^ 64" using less_trans [OF that unat_u64_less] by simp
    then have x: "unat (base + of_nat i) = unat base + i"
      using that n(1) g(3) by (subst unat_add_small) (simp_all add: unat_of_nat_small word_le_nat_alt)
    have "unat base + i < unat (rg_begin g)" "unat base + i < ?e" using that n(1) by linarith+
    then show ?thesis
      using stored [of "base + of_nat i"] x ok be d(1) by (simp add: word_le_nat_alt word_less_nat_alt unat_sub)
  qed
  then have bs: "take (unat ?n) ?bs = map (\<lambda>i. Some (S (base + of_nat i))) [0..<unat ?n]"
    using len n(1) by (intro nth_equalityI) auto
  have "unat (rg_begin g) \<le> unat x" if "x \<in> rob_missing r" for x
    using g(4) that by (metis leI word_le_nat_alt)
  then have "\<exists>r'. ngtcp2_rob_pop r base ?n = Ok r' \<and> rob_inv S (base + ?n) r' \<and> rob_missing r' = rob_missing r"
    using n(1) g(3) by (intro rob_pop_ok [OF inv d(1) refl d(2)]) (auto simp: word_le_nat_alt intro: min.coboundedI1)
  moreover have "unat base + unat ?n \<le> 2 ^ 62" using n(1) g(3) by (simp add: word_le_nat_alt)
  moreover have "unat ?n \<le> length ?bs" using len n(1) be by simp
  ultimately show "\<exists>bs n r'. ngtcp2_rob_data_at r base = Ok (Some bs, n) \<and> n \<noteq> 0 \<and>
      unat base + unat n \<le> 2 ^ 62 \<and> unat n \<le> length bs \<and>
      take (unat n) bs = map (\<lambda>i. Some (S (base + of_nat i))) [0..<unat n] \<and>
      ngtcp2_rob_pop r base n = Ok r' \<and> rob_inv S (base + n) r' \<and> rob_missing r' = rob_missing r"
    using at bs n(2) by blast
qed

text \<open>Removing a prefix moves the offset up to which the application has read.\<close>

lemma remove_prefix_gaps_ok:
  assumes "gaps_ok gs"
  shows "gaps_ok (remove_prefix_gaps offset gs) \<and>
    gapset (remove_prefix_gaps offset gs) = {x \<in> gapset gs. offset \<le> x}"
  using assms
proof (induction gs)
  case (Cons g gs)
  have "\<forall>x \<in> gapset gs. rg_end g < x" using gapset_after Cons.prems by blast
  then show ?case using Cons by (force simp: gaps_ok_Cons)
qed simp

lemma remove_prefix_data_ok:
  assumes "data_ok c lo ds" and "unat chunk = c" and "0 < c"
  shows "data_ok c (unat offset div c * c) (remove_prefix_data chunk offset ds)"
    and "offset \<le> x \<Longrightarrow> byte_at (remove_prefix_data chunk offset ds) x = byte_at ds x"
  using assms(1)
proof (induction ds arbitrary: lo)
  case (Cons d ds)
  have d: "c dvd unat (rd_offset d)" "unat (rd_offset d + chunk) = unat (rd_offset d) + c"
    if "data_ok c lo (d # ds)" for lo
    using that assms(2) by (auto simp: unat_add_small)
  have le: "unat offset div c * c \<le> unat (rd_offset d)"
    if "c dvd unat (rd_offset d)" "unat offset < unat (rd_offset d) + c"
  proof (rule ccontr)
    assume "\<not> ?thesis"
    then have "unat (rd_offset d) div c * c + c \<le> unat offset div c * c" by (intro aligned_after) auto
    also have "\<dots> \<le> unat offset" by (rule div_times_less_eq_dividend)
    finally show False using that by simp
  qed
  { case 1
    then show ?case
      using Cons.IH(1) le [OF d(1) [OF 1]] d [OF 1] assms(3) by (auto simp: word_le_nat_alt word_less_nat_alt)
  next
    case 2
    then show ?case
      using Cons.IH(2) [OF 2(1)] d [OF 2(2)] by (auto simp: word_le_nat_alt word_less_nat_alt) }
qed simp_all

lemma rob_remove_prefix_ok:
  assumes inv: "rob_inv S base r" and le: "base \<le> offset" "offset \<le> 0x4000000000000000"
  shows "rob_inv S offset (ngtcp2_rob_remove_prefix r offset)"
    and "rob_missing (ngtcp2_rob_remove_prefix r offset) = {x \<in> rob_missing r. offset \<le> x}"
proof -
  let ?c = "unat (rob_chunk r)"
  have ok: "gaps_ok (rob_gap r)" "data_ok ?c (unat base div ?c * ?c) (rob_data r)" "0 < ?c"
    using inv by (auto simp: rob_inv_def unat_gt_0)
  show miss: "rob_missing (ngtcp2_rob_remove_prefix r offset) = {x \<in> rob_missing r. offset \<le> x}"
    using remove_prefix_gaps_ok [OF ok(1)] by (simp add: rob_missing_def ngtcp2_rob_remove_prefix_def)
  have "byte_at (rob_data (ngtcp2_rob_remove_prefix r offset)) x = Some (S x)"
    if "offset \<le> x" "x < UINT64_MAX" "x \<notin> rob_missing r" for x
    using remove_prefix_data_ok(2) [OF ok(2) refl ok(3) that(1)] inv that le
    by (simp add: rob_inv_def ngtcp2_rob_remove_prefix_def)
  moreover have "{x. 0x4000000000000000 \<le> x \<and> x < UINT64_MAX} \<subseteq> {x \<in> rob_missing r. offset \<le> x}"
    using inv le(2) by (auto simp: rob_inv_def)
  ultimately show "rob_inv S offset (ngtcp2_rob_remove_prefix r offset)"
    unfolding rob_inv_def miss using remove_prefix_gaps_ok [OF ok(1)] remove_prefix_data_ok(1) [OF ok(2) refl ok(3)] inv le
    by (auto simp: rob_inv_def ngtcp2_rob_remove_prefix_def)
qed

section \<open>Runs of a reorder buffer\<close>

text \<open>
  \<open>rob_reach S r base out\<close>: a buffer created by \<open>ngtcp2_rob_init\<close> has received segments of the
  stream \<open>S\<close>, in any order, overlapping or repeated; the application has received the bytes
  \<open>out\<close> up to the offset \<open>base\<close>, either from the buffer (\<open>ngtcp2_rob_data_at\<close>, then
  \<open>ngtcp2_rob_pop\<close>) or directly from a segment that arrived in order, followed by
  \<open>ngtcp2_rob_remove_prefix\<close>.
\<close>

inductive rob_reach :: "(u64 \<Rightarrow> u8) \<Rightarrow> ngtcp2_rob \<Rightarrow> u64 \<Rightarrow> bytes \<Rightarrow> bool" for S where
  init: "ngtcp2_rob_init chunk mem = (Ok r, mem') \<Longrightarrow> chunk \<noteq> 0 \<Longrightarrow> chunk \<le> 0x4000000000000000 \<Longrightarrow>
    rob_reach S r 0 []"
| push: "rob_reach S r base out \<Longrightarrow> segment S offset data \<Longrightarrow>
    ngtcp2_rob_push r offset data (of_nat (length data)) mem = Ok (r', mem', None) \<Longrightarrow> rob_reach S r' base out"
| read: "rob_reach S r base out \<Longrightarrow> ngtcp2_rob_data_at r base = Ok (Some p, n) \<Longrightarrow>
    ngtcp2_rob_pop r base n = Ok r' \<Longrightarrow> rob_reach S r' (base + n) (out @ map the (take (unat n) p))"
| direct: "rob_reach S r base out \<Longrightarrow> segment S base data \<Longrightarrow>
    rob_reach S (ngtcp2_rob_remove_prefix r (base + of_nat (length data))) (base + of_nat (length data)) (out @ data)"

definition stream_prefix :: "(u64 \<Rightarrow> u8) \<Rightarrow> nat \<Rightarrow> bytes" where
  "stream_prefix S n = map (\<lambda>i. S (of_nat i)) [0..<n]"

lemma stream_prefix_extend:
  assumes "unat (base + n) = unat base + unat n"
    and "length data = unat n" and "\<forall>i < length data. data ! i = S (base + of_nat i)"
  shows "stream_prefix S (unat base) @ data = stream_prefix S (unat (base + n))"
  using assms by (intro nth_equalityI) (auto simp: stream_prefix_def nth_append)

lemma rob_reach_inv:
  "rob_reach S r base out \<Longrightarrow> rob_inv S base r \<and> out = stream_prefix S (unat base)"
proof (induction rule: rob_reach.induct)
  case (init chunk mem r mem')
  then show ?case using rob_inv_init by (simp add: stream_prefix_def)
next
  case (push r base out offset data mem r' mem')
  then show ?case using rob_push_ok [of S base r offset data mem] by auto
next
  case (read r base out p n r')
  then have inv: "rob_inv S base r" and out: "out = stream_prefix S (unat base)" by auto
  have "base \<notin> rob_missing r" using rob_data_at_ok(1) [OF inv] read.hyps by auto
  then have n: "unat base + unat n \<le> 2 ^ 62" "unat n \<le> length p" "rob_inv S (base + n) r'"
    "take (unat n) p = map (\<lambda>i. Some (S (base + of_nat i))) [0..<unat n]"
    using rob_data_at_ok(2) [OF inv] read.hyps by auto
  then have "out @ map the (take (unat n) p) = stream_prefix S (unat (base + n))"
    unfolding out by (intro stream_prefix_extend) (auto simp: unat_add_small)
  then show ?case using n by simp
next
  case (direct r base out data)
  let ?n = "of_nat (length data) :: u64"
  have n: "unat ?n = length data" "unat (base + ?n) = unat base + unat ?n" "unat (base + ?n) \<le> 2 ^ 62"
    using direct.hyps by (simp_all add: segment_def unat_of_nat_small unat_add_small)
  have "out @ data = stream_prefix S (unat (base + ?n))"
    using direct n stream_prefix_extend [of base ?n data S] by (simp add: segment_def)
  then show ?case
    using rob_remove_prefix_ok(1) [of S base r "base + ?n"] direct.IH n by (simp add: word_le_nat_alt)
qed

section \<open>The reorder buffer as an offset tracker\<close>

text \<open>\<open>rob_mark S mem r off l\<close> is a push of the \<open>l\<close> bytes of the stream from \<open>off\<close> on that returned \<open>0\<close>.\<close>

definition rob_mark :: "(u64 \<Rightarrow> u8) \<Rightarrow> ngtcp2_mem \<Rightarrow> ngtcp2_rob \<Rightarrow> u64 \<Rightarrow> u64 \<Rightarrow> ngtcp2_rob option" where
  "rob_mark S mem r off l =
     (case ngtcp2_rob_push r off (map (\<lambda>i. S (off + of_nat i)) [0..<unat l]) l mem of
        Ok (r', _, None) \<Rightarrow> Some r' | _ \<Rightarrow> None)"

definition rob_gaps_ok :: "ngtcp2_rob \<Rightarrow> bool" where
  "rob_gaps_ok r \<longleftrightarrow> gaps_ok (rob_gap r)"

lemma rob_mark_ok:
  assumes "rob_gaps_ok r" and "rob_mark S mem r off l = Some r'"
  shows "rob_gaps_ok r'" and "rob_missing r' = rob_missing r - {x. off \<le> x \<and> x < off + l}"
proof -
  obtain ds mem' where "rob_push_loop (rob_chunk r) off (map (\<lambda>i. S (off + of_nat i)) [0..<unat l])
      \<lparr>rg_begin = off, rg_end = off + l\<rparr> (rob_gap r) (rob_data r) mem = Ok (rob_gap r', ds, mem', None)"
    using assms(2)
    by (auto simp: rob_mark_def ngtcp2_rob_push_def rbind_Ok_iff split: result.splits option.splits)
  note gs = push_loop_correct [OF assms(1) [unfolded rob_gaps_ok_def] rob_gaps_refine [OF this]]
  then show "rob_gaps_ok r'" "rob_missing r' = rob_missing r - {x. off \<le> x \<and> x < off + l}"
    by (auto simp: rob_gaps_ok_def rob_missing_def offs_def)
qed

lemma rob_first: "ngtcp2_rob_first_gap_offset r = first_gap (rob_gap r)"
  by (simp add: ngtcp2_rob_first_gap_offset_def first_gap_def)

interpretation rob: offset_tracker rob_gaps_ok rob_missing "rob_mark S mem" ngtcp2_rob_first_gap_offset
proof
  show "rob_gaps_ok s \<Longrightarrow> rob_mark S mem s off l = Some t \<Longrightarrow> rob_gaps_ok t" for s off l t
    by (rule rob_mark_ok(1))
  show "rob_gaps_ok s \<Longrightarrow> rob_mark S mem s off l = Some t \<Longrightarrow>
      rob_missing t = rob_missing s - {x. off \<le> x \<and> x < off + l}" for s off l t
    by (rule rob_mark_ok(2))
  show "rob_gaps_ok s \<Longrightarrow> rob_missing s \<noteq> {} \<Longrightarrow> ngtcp2_rob_first_gap_offset s \<in> rob_missing s" for s
    using first_gap_least(1) by (fastforce simp: rob_gaps_ok_def rob_missing_def rob_first)
  show "rob_gaps_ok s \<Longrightarrow> x \<in> rob_missing s \<Longrightarrow> ngtcp2_rob_first_gap_offset s \<le> x" for s x
    using first_gap_least(2) by (auto simp: rob_gaps_ok_def rob_missing_def rob_first)
  show "rob_gaps_ok s \<Longrightarrow> rob_missing s = {} \<Longrightarrow> ngtcp2_rob_first_gap_offset s = UINT64_MAX" for s
    by (simp add: rob_gaps_ok_def rob_missing_def rob_first gapset_empty_iff first_gap_def)
qed

lemma rob_reach_gaps_ok: "rob_reach S r base out \<Longrightarrow> rob_gaps_ok r"
  using rob_reach_inv by (auto simp: rob_inv_def rob_gaps_ok_def)

section \<open>A run\<close>

text \<open>
  The stream whose byte at an offset is its low byte, a chunk size of 4: the segment at offset 2
  arrives before the one at offset 0.
\<close>

abbreviation ex_S :: "u64 \<Rightarrow> u8" where
  "ex_S x \<equiv> ucast x"

abbreviation ex_rob0 :: ngtcp2_rob where
  "ex_rob0 \<equiv> \<lparr>rob_gap = [\<lparr>rg_begin = 0, rg_end = UINT64_MAX\<rparr>], rob_data = [], rob_chunk = 4\<rparr>"

abbreviation ex_rob1 :: ngtcp2_rob where
  "ex_rob1 \<equiv> \<lparr>rob_gap = [\<lparr>rg_begin = 0, rg_end = 2\<rparr>, \<lparr>rg_begin = 5, rg_end = UINT64_MAX\<rparr>],
     rob_data = [\<lparr>rd_offset = 0, rd_bytes = [None, None, Some 2, Some 3]\<rparr>,
                 \<lparr>rd_offset = 4, rd_bytes = [Some 4, None, None, None]\<rparr>], rob_chunk = 4\<rparr>"

abbreviation ex_rob2 :: ngtcp2_rob where
  "ex_rob2 \<equiv> \<lparr>rob_gap = [\<lparr>rg_begin = 5, rg_end = UINT64_MAX\<rparr>],
     rob_data = [\<lparr>rd_offset = 0, rd_bytes = [Some 0, Some 1, Some 2, Some 3]\<rparr>,
                 \<lparr>rd_offset = 4, rd_bytes = [Some 4, None, None, None]\<rparr>], rob_chunk = 4\<rparr>"

lemma ex_push1: "ngtcp2_rob_push ex_rob0 2 [2, 3, 4] 3 [] = Ok (ex_rob1, [], None)"
  by (simp add: ngtcp2_rob_push_def range_ops ngtcp2_rob_gap_new_def rob_write_data.simps ngtcp2_rob_data_new_def
      chunk_write_def put_back_def link_gap_def) (simp add: numeral_eq_Suc)

lemma ex_push2: "ngtcp2_rob_push ex_rob1 0 [0, 1] 2 [] = Ok (ex_rob2, [], None)"
  by (simp add: ngtcp2_rob_push_def range_ops ngtcp2_rob_gap_new_def rob_write_data.simps ngtcp2_rob_data_new_def
      chunk_write_def put_back_def link_gap_def)

lemma segment_map:
  "segment S offset data \<longleftrightarrow> unat offset + length data \<le> 2 ^ 62 \<and>
     data = map (\<lambda>i. S (offset + of_nat i)) [0..<length data]"
proof -
  have "(\<forall>i < length data. data ! i = f i) \<longleftrightarrow> data = map f [0..<length data]" for f
    unfolding list_eq_iff_nth_eq [of data] by simp
  then show ?thesis by (simp only: segment_def)
qed

lemma ex_reach: "rob_reach ex_S ex_rob2 0 []"
proof -
  have "rob_reach ex_S ex_rob0 0 []"
    by (rule rob_reach.init [of 4 "[]" _ "[]"]) (simp_all add: ngtcp2_rob_init_def ngtcp2_rob_gap_new_def range_ops)
  moreover have "segment ex_S 2 [2, 3, 4]" "segment ex_S 0 [0, 1]"
    by (simp_all add: segment_map upt_rec_numeral)
  ultimately show ?thesis
    using rob_reach.push [of ex_S ex_rob0 0 "[]" 2 "[2, 3, 4]" "[]" ex_rob1 "[]"]
      rob_reach.push [of ex_S ex_rob1 0 "[]" 0 "[0, 1]" "[]" ex_rob2 "[]"] ex_push1 ex_push2 by simp
qed

section \<open>Properties\<close>

text \<open>
  C13. Reassembly. Whatever segments of a stream a reorder buffer received, in whatever order, and
  however reading and receiving interleave: what the application got is exactly the beginning
  of the stream; when the next byte is missing, reading reports 0 bytes; when it was received,
  reading returns a non-empty run of initialised bytes of the stream, and the pop that follows
  succeeds. No assertion fails and no access leaves a chunk.
\<close>

theorem rob_reassembles:
  assumes "rob_reach S r base out"
  shows "out = stream_prefix S (unat base) \<and>
    (if base \<in> rob_missing r then ngtcp2_rob_data_at r base = Ok (None, 0)
     else \<exists>bs n r'. ngtcp2_rob_data_at r base = Ok (Some bs, n) \<and> n \<noteq> 0 \<and>
       take (unat n) bs = map (\<lambda>i. Some (S (base + of_nat i))) [0..<unat n] \<and>
       ngtcp2_rob_pop r base n = Ok r')"
  using rob_reach_inv [OF assms] rob_data_at_ok [of S base r] by (cases "base \<in> rob_missing r") auto

theorem rob_reassembles_witness:
  "rob_reach ex_S ex_rob2 0 [] \<and> 0 \<notin> rob_missing ex_rob2 \<and>
   (\<exists>bs n r'. ngtcp2_rob_data_at ex_rob2 0 = Ok (Some bs, n) \<and> n \<noteq> 0 \<and>
     take (unat n) bs = map (\<lambda>i. Some (ex_S (0 + of_nat i))) [0..<unat n] \<and> ngtcp2_rob_pop ex_rob2 0 n = Ok r')"
proof -
  have "0 \<notin> rob_missing ex_rob2" by (simp add: rob_missing_def word_le_nat_alt)
  then show ?thesis using rob_reassembles [OF ex_reach] ex_reach by presburger
qed

text \<open>
  C28. A push of a segment to a reachable buffer never faults; it returns \<open>0\<close> and marks exactly the
  pushed offsets as received, or it returns NGTCP2\_ERR\_NOMEM, only after an allocation failed.
\<close>

theorem rob_push_refines:
  assumes "rob_reach S r base out" and "segment S offset data"
  shows "\<exists>r' mem' rv. ngtcp2_rob_push r offset data (of_nat (length data)) mem = Ok (r', mem', rv) \<and>
    (rv = None \<longrightarrow> rob_missing r' = rob_missing r - {x. offset \<le> x \<and> x < offset + of_nat (length data)}) \<and>
    (rv = None \<or> rv = Some NGTCP2_ERR_NOMEM \<and> False \<in> set mem)"
  using rob_push_ok [of S base r offset data mem] rob_reach_inv [OF assms(1)] assms(2) by blast

theorem rob_push_refines_witness:
  "\<exists>r' mem' rv. ngtcp2_rob_push ex_rob2 4 [4, 5] (of_nat (length [4::u8, 5])) [] = Ok (r', mem', rv) \<and> rv = None \<and>
    rob_missing r' = rob_missing ex_rob2 - {x. 4 \<le> x \<and> x < 4 + of_nat (length [4::u8, 5])}"
proof -
  have "segment ex_S 4 [4, 5]" by (simp add: segment_map upt_rec_numeral)
  from rob_push_refines [OF ex_reach this, of "[]"] show ?thesis
    unfolding list.set empty_iff simp_thms by blast
qed

text \<open>
  The first missing offset of a reachable buffer: every offset below it was received, a push never
  moves it back, and a push that starts at or below it moves it to the end of the pushed range
  or beyond; pushing a range again changes nothing.
\<close>

theorem rob_first_gap:
  assumes "rob_reach S r base out" and "rob_mark S mem r off l = Some r1" and "rob_mark S mem r1 off l = Some r2"
  shows "(x < ngtcp2_rob_first_gap_offset r \<longrightarrow> x \<notin> rob_missing r) \<and>
    ngtcp2_rob_first_gap_offset r \<le> ngtcp2_rob_first_gap_offset r1 \<and>
    (off \<le> ngtcp2_rob_first_gap_offset r \<longrightarrow> off + l \<le> ngtcp2_rob_first_gap_offset r1) \<and>
    rob_missing r2 = rob_missing r1"
  using rob.below_first_seen [of r x] rob.first_mono [OF _ assms(2)] rob.first_advances [OF _ assms(2)]
    rob.mark_again [OF _ assms(2,3)] rob_reach_gaps_ok [OF assms(1)] by blast

theorem rob_first_gap_witness:
  "\<exists>r1. rob_mark ex_S [] ex_rob2 5 0 = Some r1 \<and> rob_mark ex_S [] r1 5 0 = Some r1 \<and>
    5 + 0 \<le> ngtcp2_rob_first_gap_offset r1"
proof -
  have mark: "rob_mark ex_S [] ex_rob2 5 0 = Some ex_rob2"
    by (simp add: rob_mark_def ngtcp2_rob_push_def range_ops)
  have "5 \<le> ngtcp2_rob_first_gap_offset ex_rob2" by (simp add: ngtcp2_rob_first_gap_offset_def)
  then show ?thesis using rob_first_gap [OF ex_reach mark mark] mark by blast
qed

end
