(* ===== verification/Hashmap.thy ===== *)
theory Hashmap
  imports Conv
begin

text \<open>
  \<^verbatim>\<open>lib/ngtcp2_map.c\<close>: a hash table from 64-bit keys to entries that are embedded in the objects of the
  client, with chaining. An entry is its key and the object it is embedded in; the chain of a bucket,
  linked by the field \<open>next\<close>, is a list. \<open>tail\<close> in the insertion is the chain that the field
  \<open>next\<close> of the new entry points to: \<^verbatim>\<open>ngtcp2_map_entry_init\<close> sets it to NULL, that is \<open>[]\<close>.
\<close>

section \<open>Operations\<close>

record 'v ngtcp2_map_entry =
  me_key :: u64
  me_obj :: 'v

record 'v ngtcp2_map =
  map_table :: "'v ngtcp2_map_entry list list"
  map_size :: u64
  map_tablelen :: u32

abbreviation INITIAL_TABLE_LENGTH :: u32 where "INITIAL_TABLE_LENGTH \<equiv> 256"

definition ngtcp2_map_init :: "ngtcp2_mem \<Rightarrow> 'v ngtcp2_map result \<times> ngtcp2_mem" where
  "ngtcp2_map_init mem =
     (let (ok, mem') = ngtcp2_mem_calloc mem in
      (ret_if (\<not> ok) NGTCP2_ERR_NOMEM
         (Ok \<lparr>map_table = replicate (unat INITIAL_TABLE_LENGTH) [], map_size = 0, map_tablelen = INITIAL_TABLE_LENGTH\<rparr>), mem'))"

definition ngtcp2_map_entry_init :: "u64 \<Rightarrow> 'v \<Rightarrow> 'v ngtcp2_map_entry" where
  "ngtcp2_map_entry_init key obj = \<lparr>me_key = key, me_obj = obj\<rparr>"

text \<open>FNV1a over the memory image of the swapped key.\<close>

definition fnv_step :: "u32 \<Rightarrow> u8 \<Rightarrow> u32" where
  "fnv_step h b = (h XOR ucast b) * 0x01000193"

definition hash :: "u64 \<Rightarrow> u32 \<Rightarrow> u32" where
  "hash key modulus = foldl fnv_step 0x811C9DC5 (store_le 8 (bswap64 key)) AND (modulus - 1)"

definition map_insert ::
  "'v ngtcp2_map_entry list list \<Rightarrow> u32 \<Rightarrow> 'v ngtcp2_map_entry \<Rightarrow> 'v ngtcp2_map_entry list
    \<Rightarrow> ('v ngtcp2_map_entry list list \<times> rc) result" where
  "map_insert table tablelen entry tail =
     (let h = unat (hash (me_key entry) tablelen) in
      c_assert (h < length table) (
      if table ! h = [] then Ok (table[h := entry # tail], None)
      else if \<exists>p \<in> set (table ! h). me_key p = me_key entry then Ok (table, Some NGTCP2_ERR_INVALID_ARGUMENT)
      else Ok (table[h := entry # table ! h], None)))"

text \<open>Every entry of the old table is unlinked and inserted to the new one; the result is ignored.\<close>

fun map_rehash ::
  "'v ngtcp2_map_entry list \<Rightarrow> u32 \<Rightarrow> 'v ngtcp2_map_entry list list \<Rightarrow> 'v ngtcp2_map_entry list list result" where
  "map_rehash [] new_tablelen new_table = Ok new_table"
| "map_rehash (entry # es) new_tablelen new_table =
     rbind (map_insert new_table new_tablelen entry []) (\<lambda>(new_table', _). map_rehash es new_tablelen new_table')"

definition map_resize :: "'v ngtcp2_map \<Rightarrow> u32 \<Rightarrow> ngtcp2_mem \<Rightarrow> ('v ngtcp2_map \<times> ngtcp2_mem \<times> rc) result" where
  "map_resize m new_tablelen mem =
     (let (ok, mem') = ngtcp2_mem_calloc mem in
      if \<not> ok then Ok (m, mem', Some NGTCP2_ERR_NOMEM)
      else rbind (map_rehash (concat (map_table m)) new_tablelen (replicate (unat new_tablelen) [])) (\<lambda>new_table.
        Ok (m\<lparr>map_tablelen := new_tablelen, map_table := new_table\<rparr>, mem', None)))"

definition ngtcp2_map_insert ::
  "'v ngtcp2_map \<Rightarrow> 'v ngtcp2_map_entry \<Rightarrow> 'v ngtcp2_map_entry list \<Rightarrow> ngtcp2_mem \<Rightarrow> ('v ngtcp2_map \<times> ngtcp2_mem \<times> rc) result" where
  "ngtcp2_map_insert m new_entry tail mem =
     rbind (if (map_size m + 1) * 4 > ucast (map_tablelen m * 3) then map_resize m (map_tablelen m * 2) mem
            else Ok (m, mem, None)) (\<lambda>(m, mem, rv).
     if rv \<noteq> None then Ok (m, mem, rv)
     else rbind (map_insert (map_table m) (map_tablelen m) new_entry tail) (\<lambda>(table, rv).
       if rv \<noteq> None then Ok (m, mem, rv)
       else Ok (m\<lparr>map_table := table, map_size := map_size m + 1\<rparr>, mem, None)))"

definition ngtcp2_map_find :: "'v ngtcp2_map \<Rightarrow> u64 \<Rightarrow> 'v ngtcp2_map_entry option result" where
  "ngtcp2_map_find m key =
     (let h = unat (hash key (map_tablelen m)) in
      c_assert (h < length (map_table m)) (Ok (find (\<lambda>entry. me_key entry = key) (map_table m ! h))))"

text \<open>Unlinking the first entry with a key from a chain.\<close>

fun chain_remove :: "u64 \<Rightarrow> 'v ngtcp2_map_entry list \<Rightarrow> 'v ngtcp2_map_entry list option" where
  "chain_remove key [] = None"
| "chain_remove key (e # es) = (if me_key e \<noteq> key then map_option ((#) e) (chain_remove key es) else Some es)"

definition ngtcp2_map_remove :: "'v ngtcp2_map \<Rightarrow> u64 \<Rightarrow> ('v ngtcp2_map \<times> rc) result" where
  "ngtcp2_map_remove m key =
     (let h = unat (hash key (map_tablelen m)) in
      c_assert (h < length (map_table m)) (
      case chain_remove key (map_table m ! h) of
        None \<Rightarrow> Ok (m, Some NGTCP2_ERR_INVALID_ARGUMENT)
      | Some es \<Rightarrow> Ok (m\<lparr>map_table := (map_table m)[h := es], map_size := map_size m - 1\<rparr>, None)))"

definition ngtcp2_map_size :: "'v ngtcp2_map \<Rightarrow> u64" where
  "ngtcp2_map_size m = map_size m"

text \<open>The callbacks return a state and an integer; \<open>ngtcp2_map_each\<close> stops at the first one that is not 0.\<close>

fun map_each_loop :: "('v ngtcp2_map_entry \<Rightarrow> 's \<Rightarrow> 's \<times> int) \<Rightarrow> 'v ngtcp2_map_entry list \<Rightarrow> 's \<Rightarrow> 's \<times> int" where
  "map_each_loop f [] s = (s, 0)"
| "map_each_loop f (e # es) s = (let (s', rv) = f e s in if rv \<noteq> 0 then (s', rv) else map_each_loop f es s')"

definition ngtcp2_map_each :: "'v ngtcp2_map \<Rightarrow> ('v ngtcp2_map_entry \<Rightarrow> 's \<Rightarrow> 's \<times> int) \<Rightarrow> 's \<Rightarrow> 's \<times> int" where
  "ngtcp2_map_each m f s = map_each_loop f (concat (map_table m)) s"

text \<open>\<open>ngtcp2_map_each_free\<close> empties the buckets; it does not reset the size.\<close>

definition ngtcp2_map_each_free :: "'v ngtcp2_map \<Rightarrow> ('v ngtcp2_map_entry \<Rightarrow> 's \<Rightarrow> 's) \<Rightarrow> 's \<Rightarrow> 'v ngtcp2_map \<times> 's" where
  "ngtcp2_map_each_free m f s =
     (m\<lparr>map_table := replicate (length (map_table m)) []\<rparr>, foldl (\<lambda>s e. f e s) s (concat (map_table m)))"

section \<open>Invariant\<close>

definition map_entries :: "'v ngtcp2_map \<Rightarrow> 'v ngtcp2_map_entry list" where
  "map_entries m = concat (map_table m)"

definition key_find :: "'v ngtcp2_map_entry list \<Rightarrow> u64 \<Rightarrow> 'v ngtcp2_map_entry option" where
  "key_find es key = find (\<lambda>e. me_key e = key) es"

text \<open>The partial map that a table stands for.\<close>

definition map_abs :: "'v ngtcp2_map \<Rightarrow> u64 \<rightharpoonup> 'v ngtcp2_map_entry" where
  "map_abs m = key_find (map_entries m)"

text \<open>
  The length of the table is a power of 2, every entry is in the bucket of its key, and no two
  entries have the same key.
\<close>

definition table_ok :: "'v ngtcp2_map_entry list list \<Rightarrow> u32 \<Rightarrow> bool" where
  "table_ok table n \<longleftrightarrow> 0 < n \<and> length table = unat n \<and>
     (\<forall>h < length table. \<forall>e \<in> set (table ! h). unat (hash (me_key e) n) = h) \<and>
     distinct (map me_key (concat table))"

definition map_inv :: "'v ngtcp2_map \<Rightarrow> bool" where
  "map_inv m \<longleftrightarrow> table_ok (map_table m) (map_tablelen m) \<and> (\<exists>k \<le> 30. unat (map_tablelen m) = 2 ^ k) \<and>
     unat (map_size m) = length (map_entries m)"

lemma hash_bound: "0 < n \<Longrightarrow> unat (hash key n) < unat n"
proof -
  assume "0 < n"
  then have "unat (n - 1) < unat n" by (simp add: unat_sub word_le_nat_alt word_less_nat_alt)
  moreover have "hash key n \<le> n - 1" unfolding hash_def by (rule word_and_le1)
  ultimately show ?thesis by (simp add: word_le_nat_alt)
qed

lemma mset_concat_update:
  "h < length t \<Longrightarrow> mset (concat (t[h := xs])) + mset (t ! h) = mset (concat t) + mset xs"
proof (induction t arbitrary: h)
  case (Cons a t)
  then show ?case by (cases h) (auto simp: ac_simps)
qed simp

lemma key_find_iff:
  "distinct (map me_key es) \<Longrightarrow> key_find es key = Some e \<longleftrightarrow> e \<in> set es \<and> me_key e = key"
  by (induction es) (auto simp: key_find_def)

lemma key_find_None: "key_find es key = None \<longleftrightarrow> key \<notin> me_key ` set es"
  by (auto simp: key_find_def find_None_iff)

lemma key_find_cong:
  assumes "mset es = mset fs" and "distinct (map me_key es)"
  shows "key_find es = key_find fs"
proof (rule ext)
  fix key
  have d: "distinct (map me_key fs)" using assms by (metis mset_eq_imp_distinct_iff mset_map)
  have s: "set es = set fs" using assms(1) by (rule mset_eq_setD)
  show "key_find es key = key_find fs key"
    by (rule option.expand) (auto simp: s key_find_None key_find_iff [OF assms(2)] key_find_iff [OF d], metis key_find_iff assms(2) d s option.sel)
qed

lemma key_find_bucket:
  assumes "table_ok table n"
  shows "find (\<lambda>e. me_key e = key) (table ! unat (hash key n)) = key_find (concat table) key"
proof -
  let ?b = "table ! unat (hash key n)"
  have h: "unat (hash key n) < length table" using assms hash_bound [of n key] by (simp add: table_ok_def)
  have e: "e \<in> set ?b" if "e \<in> set (concat table)" "me_key e = key" for e
    using that assms unfolding table_ok_def by (fastforce simp: in_set_conv_nth [of _ table])
  have d: "distinct (map me_key (concat table))" using assms by (simp add: table_ok_def)
  have "table = take (unat (hash key n)) table @ ?b # drop (Suc (unat (hash key n))) table" using h by (rule id_take_nth_drop)
  then have "distinct (map me_key ?b)" using d by (metis concat_append concat.simps(2) distinct_append map_append)
  note db = key_find_iff [OF this, unfolded key_find_def]
  show ?thesis
  proof (cases "key_find (concat table) key")
    case None
    then have "key \<notin> me_key ` set (concat table)" by (simp add: key_find_None)
    then have "\<not> (\<exists>e \<in> set ?b. me_key e = key)" using nth_mem [OF h] by (auto simp: image_iff)
    then show ?thesis using None by (simp add: find_None_iff)
  next
    case (Some e)
    then have "e \<in> set (concat table)" "me_key e = key" using key_find_iff [OF d] by auto
    then have "find (\<lambda>e. me_key e = key) ?b = Some e" using e db by blast
    then show ?thesis using Some by simp
  qed
qed

section \<open>Correctness\<close>

lemma bucket_key_iff:
  assumes "table_ok table n"
  shows "(\<exists>p \<in> set (table ! unat (hash key n)). me_key p = key) \<longleftrightarrow> key_find (concat table) key \<noteq> None"
  using key_find_bucket [OF assms, of key, symmetric] by (auto simp: find_None_iff)

lemma map_insert_ok:
  assumes ok: "table_ok table n"
  shows "(key_find (concat table) (me_key e) \<noteq> None \<and> map_insert table n e [] = Ok (table, Some NGTCP2_ERR_INVALID_ARGUMENT)) \<or>
    (key_find (concat table) (me_key e) = None \<and> (\<exists>table'. map_insert table n e [] = Ok (table', None) \<and> table_ok table' n \<and>
      mset (concat table') = add_mset e (mset (concat table))))"
proof -
  define h where "h = unat (hash (me_key e) n)"
  have h: "h < length table" using ok hash_bound [of n "me_key e"] by (simp add: table_ok_def h_def)
  let ?t = "table[h := e # table ! h]"
  show ?thesis
  proof (cases "key_find (concat table) (me_key e)")
    case (Some p)
    then have "\<exists>p \<in> set (table ! h). me_key p = me_key e" using bucket_key_iff [OF ok, of "me_key e"] by (simp add: h_def)
    with Some h show ?thesis by (auto simp: map_insert_def h_def [symmetric])
  next
    case None
    then have "\<not> (\<exists>p \<in> set (table ! h). me_key p = me_key e)" using bucket_key_iff [OF ok, of "me_key e"] by (simp add: h_def)
    then have "map_insert table n e [] = Ok (?t, None)" using h by (auto simp: map_insert_def h_def [symmetric])
    moreover have m: "mset (concat ?t) = add_mset e (mset (concat table))"
      using mset_concat_update [OF h, of "e # table ! h"] by simp
    moreover have "distinct (map me_key (concat ?t))"
    proof -
      have "mset (map me_key (concat ?t)) = mset (map me_key (e # concat table))" using m by (metis mset.simps(2) mset_map image_mset_add_mset)
      moreover have "distinct (map me_key (e # concat table))" using None ok by (simp add: key_find_None table_ok_def)
      ultimately show ?thesis by (metis mset_eq_imp_distinct_iff)
    qed
    moreover have "unat (hash (me_key p) n) = l" if "l < length table" "p \<in> set (?t ! l)" for l p
      using that ok by (cases "l = h") (auto simp: table_ok_def h_def)
    ultimately show ?thesis using None ok by (simp add: table_ok_def)
  qed
qed

lemma map_rehash_ok:
  assumes "table_ok table n" and "distinct (map me_key (es @ concat table))"
  shows "\<exists>table'. map_rehash es n table = Ok table' \<and> table_ok table' n \<and> mset (concat table') = mset es + mset (concat table)"
  using assms
proof (induction es arbitrary: table)
  case (Cons e es)
  have "key_find (concat table) (me_key e) = None" using Cons.prems(2) by (auto simp: key_find_None)
  then obtain t where t: "map_insert table n e [] = Ok (t, None)" "table_ok t n" "mset (concat t) = add_mset e (mset (concat table))"
    using map_insert_ok [OF Cons.prems(1), of e] by auto
  have "mset (map me_key (es @ concat t)) = mset (map me_key (e # es @ concat table))" using t(3) by simp
  then have "distinct (map me_key (es @ concat t))" using Cons.prems(2) by (metis mset_eq_imp_distinct_iff append_Cons)
  from Cons.IH [OF t(2) this] t show ?case by auto
qed simp

lemma table_ok_empty: "0 < n \<Longrightarrow> table_ok (replicate (unat n) []) n"
  by (simp add: table_ok_def concat_replicate_trivial)

lemma map_init_inv: "ngtcp2_map_init mem = (Ok m, mem') \<Longrightarrow> map_inv m \<and> map_abs m = Map.empty"
  by (auto simp: ngtcp2_map_init_def map_inv_def table_ok_def map_entries_def map_abs_def key_find_def ret_if_def Let_def
      concat_replicate_trivial split: prod.splits if_splits intro!: exI [of _ 8])

lemma map_find_ok: "map_inv m \<Longrightarrow> ngtcp2_map_find m key = Ok (map_abs m key)"
  using hash_bound [of "map_tablelen m" key] key_find_bucket [of "map_table m" "map_tablelen m" key]
  by (simp add: map_inv_def table_ok_def ngtcp2_map_find_def map_abs_def map_entries_def)

lemma map_grow_ok:
  assumes inv: "map_inv m" and size: "unat (map_size m) < 2 ^ 29"
    and grow: "(map_size m + 1) * 4 > ucast (map_tablelen m * 3)"
  shows "map_resize m (map_tablelen m * 2) mem = Ok (m, snd (ngtcp2_mem_calloc mem), Some NGTCP2_ERR_NOMEM) \<and> False \<in> set mem \<or>
    (\<exists>m'. map_resize m (map_tablelen m * 2) mem = Ok (m', snd (ngtcp2_mem_calloc mem), None) \<and> map_inv m' \<and>
      map_abs m' = map_abs m \<and> map_size m' = map_size m)"
proof -
  obtain k where k: "k \<le> 30" "unat (map_tablelen m) = 2 ^ k" using inv by (auto simp: map_inv_def)
  have p30: "(2::nat) ^ k \<le> 2 ^ 30" using k(1) by (intro power_increasing) auto
  have "unat (map_tablelen m * 3) = 2 ^ k * 3" using p30 by (simp add: unat_word_ariths k)
  moreover have "unat ((map_size m + 1) * 4) = (unat (map_size m) + 1) * 4" using size by (simp add: unat_word_ariths)
  ultimately have "2 ^ k * 3 < (unat (map_size m) + 1) * 4" using grow by (simp add: word_less_nat_alt)
  then have "(2::nat) ^ k < 2 ^ 30" using size by simp
  then have k29: "Suc k \<le> 30" using power_less_imp_less_exp [of "2::nat" k 30] by simp
  have n: "unat (map_tablelen m * 2) = 2 ^ Suc k" using \<open>(2::nat) ^ k < 2 ^ 30\<close> by (simp add: unat_word_ariths k)
  then have pos: "0 < map_tablelen m * 2" by (simp add: word_less_nat_alt)
  have d: "distinct (map me_key (map_entries m @ concat (replicate (unat (map_tablelen m * 2)) [])))"
    using inv by (simp add: map_inv_def table_ok_def map_entries_def concat_replicate_trivial)
  obtain t where t: "map_rehash (map_entries m) (map_tablelen m * 2) (replicate (unat (map_tablelen m * 2)) []) = Ok t"
    "table_ok t (map_tablelen m * 2)" "mset (concat t) = mset (map_entries m)"
    using map_rehash_ok [OF table_ok_empty [OF pos] d] by (auto simp: concat_replicate_trivial)
  let ?m = "m\<lparr>map_tablelen := map_tablelen m * 2, map_table := t\<rparr>"
  have "map_abs ?m = map_abs m"
    using key_find_cong [OF t(3)] t(2) by (simp add: map_abs_def map_entries_def table_ok_def)
  moreover have "length (concat t) = length (map_entries m)" using t(3) by (metis size_mset)
  then have "map_inv ?m"
    using t(2) k29 inv by (auto simp: map_inv_def map_entries_def simp del: power_Suc intro: exI [of _ "Suc k"] n)
  ultimately show ?thesis
    using t(1) by (cases mem) (auto simp: map_resize_def ngtcp2_mem_calloc_def map_entries_def)
qed

lemma map_add_ok:
  assumes inv: "map_inv m" and size: "unat (map_size m) < 2 ^ 29"
  shows "map_abs m (me_key e) \<noteq> None \<and>
      map_insert (map_table m) (map_tablelen m) e [] = Ok (map_table m, Some NGTCP2_ERR_INVALID_ARGUMENT) \<or>
    map_abs m (me_key e) = None \<and> (\<exists>t. map_insert (map_table m) (map_tablelen m) e [] = Ok (t, None) \<and>
      map_inv (m\<lparr>map_table := t, map_size := map_size m + 1\<rparr>) \<and>
      map_abs (m\<lparr>map_table := t, map_size := map_size m + 1\<rparr>) = (map_abs m)(me_key e \<mapsto> e))"
proof (cases "map_abs m (me_key e) = None")
  case False
  then show ?thesis using map_insert_ok [of "map_table m" "map_tablelen m" e] inv by (auto simp: map_inv_def map_abs_def map_entries_def)
next
  case True
  then obtain t where t: "map_insert (map_table m) (map_tablelen m) e [] = Ok (t, None)" "table_ok t (map_tablelen m)"
    "mset (concat t) = add_mset e (mset (map_entries m))"
    using map_insert_ok [of "map_table m" "map_tablelen m" e] inv by (auto simp: map_inv_def map_abs_def map_entries_def)
  let ?m = "m\<lparr>map_table := t, map_size := map_size m + 1\<rparr>"
  have "unat (map_size m + 1) = Suc (unat (map_size m))" using size by (simp add: unat_word_ariths)
  moreover have "length (concat t) = Suc (length (map_entries m))" using t(3) by (metis size_mset size_add_mset)
  ultimately have "map_inv ?m" using inv t(2) by (simp add: map_inv_def map_entries_def)
  have "key_find (concat t) = key_find (e # map_entries m)"
    using t(2,3) by (intro key_find_cong) (simp_all add: table_ok_def)
  then have "map_abs ?m = (map_abs m)(me_key e \<mapsto> e)"
    by (auto simp: map_abs_def map_entries_def key_find_def fun_eq_iff)
  with \<open>map_inv ?m\<close> t(1) True show ?thesis by auto
qed

lemma map_insert_refines:
  assumes inv: "map_inv m" and size: "unat (map_size m) < 2 ^ 29"
  shows "\<exists>m' mem' rv. ngtcp2_map_insert m e [] mem = Ok (m', mem', rv) \<and> map_inv m' \<and>
    (rv = None \<and> map_abs m (me_key e) = None \<and> map_abs m' = (map_abs m)(me_key e \<mapsto> e) \<and> map_size m' = map_size m + 1 \<or>
     rv = Some NGTCP2_ERR_INVALID_ARGUMENT \<and> map_abs m (me_key e) \<noteq> None \<and> map_abs m' = map_abs m \<and> map_size m' = map_size m \<or>
     rv = Some NGTCP2_ERR_NOMEM \<and> m' = m \<and> False \<in> set mem)"
proof (cases "(map_size m + 1) * 4 > ucast (map_tablelen m * 3)")
  case False
  then show ?thesis using map_add_ok [OF assms, of e] inv by (auto simp: ngtcp2_map_insert_def)
next
  case True
  show ?thesis
    using map_grow_ok [OF assms True, of mem]
  proof (elim disjE exE conjE)
    fix m'
    assume m': "map_resize m (map_tablelen m * 2) mem = Ok (m', snd (ngtcp2_mem_calloc mem), None)" "map_inv m'"
      "map_abs m' = map_abs m" "map_size m' = map_size m"
    then show ?thesis using map_add_ok [OF m'(2), of e] size True by (auto simp: ngtcp2_map_insert_def)
  qed (use True inv in \<open>auto simp: ngtcp2_map_insert_def\<close>)
qed

lemma chain_remove_cases:
  "chain_remove key es = None \<and> key \<notin> me_key ` set es \<or>
   (\<exists>e es'. chain_remove key es = Some es' \<and> me_key e = key \<and> mset es = add_mset e (mset es'))"
  by (induction es) auto

lemma map_remove_refines:
  assumes inv: "map_inv m"
  shows "map_abs m key = None \<and> ngtcp2_map_remove m key = Ok (m, Some NGTCP2_ERR_INVALID_ARGUMENT) \<or>
    map_abs m key \<noteq> None \<and> (\<exists>m'. ngtcp2_map_remove m key = Ok (m', None) \<and> map_inv m' \<and> map_abs m' = (map_abs m)(key := None) \<and>
      map_size m' = map_size m - 1)"
proof -
  define h where "h = unat (hash key (map_tablelen m))"
  have ok: "table_ok (map_table m) (map_tablelen m)" using inv by (simp add: map_inv_def)
  have h: "h < length (map_table m)" using ok hash_bound [of "map_tablelen m" key] by (simp add: table_ok_def h_def)
  have bucket: "map_abs m key = find (\<lambda>e. me_key e = key) (map_table m ! h)"
    using key_find_bucket [OF ok, of key] by (simp add: map_abs_def map_entries_def h_def)
  show ?thesis
    using chain_remove_cases [of key "map_table m ! h"]
  proof (elim disjE exE conjE)
    assume "chain_remove key (map_table m ! h) = None" "key \<notin> me_key ` set (map_table m ! h)"
    then show ?thesis using h bucket by (auto simp: ngtcp2_map_remove_def h_def [symmetric] find_None_iff)
  next
    fix e es'
    assume e: "chain_remove key (map_table m ! h) = Some es'" "me_key e = key" "mset (map_table m ! h) = add_mset e (mset es')"
    let ?t = "(map_table m)[h := es']"
    let ?m = "m\<lparr>map_table := ?t, map_size := map_size m - 1\<rparr>"
    have ms: "mset (map_entries m) = add_mset e (mset (concat ?t))"
      using mset_concat_update [OF h, of es'] e(3) by (simp add: map_entries_def)
    have len: "length (map_entries m) = Suc (length (concat ?t))" using ms by (metis size_mset size_add_mset)
    have ds: "distinct (map me_key (map_entries m))" using ok by (simp add: table_ok_def map_entries_def)
    have "mset (map me_key (e # concat ?t)) = mset (map me_key (map_entries m))" using ms by simp
    with ds have d: "distinct (map me_key (e # concat ?t))" by (metis mset_eq_imp_distinct_iff)
    have "unat (hash (me_key p) (map_tablelen m)) = l" if "l < length (map_table m)" "p \<in> set (?t ! l)" for l p
    proof (cases "l = h")
      case True
      then have "p \<in> set (map_table m ! h)" using that h e(3) by (metis nth_list_update_eq mset_eq_setD set_mset_mset insertCI set_mset_add_mset_insert)
      then show ?thesis using ok h True by (auto simp: table_ok_def)
    qed (use that ok in \<open>auto simp: table_ok_def\<close>)
    then have "table_ok ?t (map_tablelen m)" using ok d by (simp add: table_ok_def)
    moreover have "unat (map_size m - 1) = unat (map_size m) - 1"
      using unat_sub [of 1 "map_size m"] inv len by (simp add: map_inv_def word_le_nat_alt)
    ultimately have inv': "map_inv ?m" using inv len by (simp add: map_inv_def map_entries_def)
    have "key_find (map_entries m) = key_find (e # concat ?t)" using ms ds by (intro key_find_cong) simp_all
    moreover have "key_find (concat ?t) key = None" using d e(2) by (auto simp: key_find_None)
    ultimately have "map_abs ?m = (map_abs m)(key := None)" "map_abs m key = Some e"
      using e(2) by (auto simp: map_abs_def map_entries_def key_find_def fun_eq_iff)
    with inv' h e(1) show ?thesis by (auto simp: ngtcp2_map_remove_def h_def [symmetric])
  qed
qed

section \<open>The contract of a keyed store\<close>

locale keyed_store =
  fixes inv :: "'s \<Rightarrow> bool"
    and contents :: "'s \<Rightarrow> 'k \<rightharpoonup> 'e"
    and key_of :: "'e \<Rightarrow> 'k"
    and ins :: "'s \<Rightarrow> 'e \<Rightarrow> 's option"
    and del :: "'s \<Rightarrow> 'k \<Rightarrow> 's option"
  assumes ins: "inv s \<Longrightarrow> ins s e = Some s' \<Longrightarrow> inv s' \<and> contents s (key_of e) = None \<and> contents s' = (contents s)(key_of e \<mapsto> e)"
    and del: "inv s \<Longrightarrow> del s k = Some s' \<Longrightarrow> inv s' \<and> contents s' = (contents s)(k := None)"
    and del_Some: "inv s \<Longrightarrow> contents s k \<noteq> None \<Longrightarrow> \<exists>s'. del s k = Some s'"
begin

lemma ins_del:
  assumes "inv s" and "ins s e = Some s'"
  shows "\<exists>s''. del s' (key_of e) = Some s'' \<and> inv s'' \<and> contents s'' = contents s"
proof -
  note s' = ins [OF assms]
  then obtain s'' where "del s' (key_of e) = Some s''" using del_Some [of s' "key_of e"] by auto
  then show ?thesis using del [of s' "key_of e" s''] s' by (auto simp: fun_upd_idem)
qed

lemma ins_twice:
  assumes "inv s" and "ins s e = Some s'" and "key_of e = key_of f"
  shows "ins s' f = None"
proof (rule ccontr)
  assume "ins s' f \<noteq> None"
  then show False using ins [OF assms(1,2)] ins [of s' f] assms(3) by auto
qed

lemma ins_commute:
  assumes "inv s" and "ins s e = Some s1" and "ins s1 f = Some s12" and "ins s f = Some s2" and "ins s2 e = Some s21"
  shows "contents s12 = contents s21"
proof -
  have "key_of e \<noteq> key_of f" using ins_twice [OF assms(1,2), of f] assms(3) by auto
  then show ?thesis using ins [OF assms(1,2)] ins [OF _ assms(3)] ins [OF assms(1,4)] ins [OF _ assms(5)] by (auto simp: fun_upd_twist)
qed

end

text \<open>The table below half of a billion entries, where neither the size nor its length wrap around.\<close>

definition map_ins :: "ngtcp2_mem \<Rightarrow> 'v ngtcp2_map \<Rightarrow> 'v ngtcp2_map_entry \<Rightarrow> 'v ngtcp2_map option" where
  "map_ins mem m e =
     (if unat (map_size m) < 2 ^ 29 then
        case ngtcp2_map_insert m e [] mem of Ok (m', mem', None) \<Rightarrow> Some m' | _ \<Rightarrow> None
      else None)"

definition map_del :: "'v ngtcp2_map \<Rightarrow> u64 \<Rightarrow> 'v ngtcp2_map option" where
  "map_del m key = (case ngtcp2_map_remove m key of Ok (m', None) \<Rightarrow> Some m' | _ \<Rightarrow> None)"

interpretation hashmap: keyed_store map_inv map_abs me_key "map_ins mem" map_del
proof
  fix s s' :: "'a ngtcp2_map" and e k
  assume inv: "map_inv s"
  show "map_ins mem s e = Some s' \<Longrightarrow> map_inv s' \<and> map_abs s (me_key e) = None \<and> map_abs s' = (map_abs s)(me_key e \<mapsto> e)"
    using map_insert_refines [OF inv, of e mem] by (auto simp: map_ins_def split: if_splits result.splits option.splits)
  show "map_del s k = Some s' \<Longrightarrow> map_inv s' \<and> map_abs s' = (map_abs s)(k := None)"
    using map_remove_refines [OF inv, of k] by (auto simp: map_del_def)
  show "map_abs s k \<noteq> None \<Longrightarrow> \<exists>s'. map_del s k = Some s'"
    using map_remove_refines [OF inv, of k] by (auto simp: map_del_def)
qed

section \<open>Properties\<close>

text \<open>
  C20. Refinement of a partial map: on a table with less than \<open>2^29\<close> entries no operation faults. Finding a
  key returns the entry of the map; inserting a fresh entry adds it, fails with
  NGTCP2\_ERR\_INVALID\_ARGUMENT and keeps the map exactly when the key is present, or fails with
  NGTCP2\_ERR\_NOMEM and changes nothing after a failed allocation, also when the table grows;
  removing a key deletes exactly it and fails when it is absent. The size is the number of entries.
\<close>

theorem hashmap_refines:
  assumes "map_inv m" and "unat (ngtcp2_map_size m) < 2 ^ 29"
  shows "ngtcp2_map_find m key = Ok (map_abs m key) \<and>
    (\<exists>m' mem' rv. ngtcp2_map_insert m e [] mem = Ok (m', mem', rv) \<and> map_inv m' \<and>
      (rv = None \<and> map_abs m (me_key e) = None \<and> map_abs m' = (map_abs m)(me_key e \<mapsto> e) \<or>
       rv = Some NGTCP2_ERR_INVALID_ARGUMENT \<and> map_abs m (me_key e) \<noteq> None \<and> map_abs m' = map_abs m \<or>
       rv = Some NGTCP2_ERR_NOMEM \<and> m' = m \<and> False \<in> set mem)) \<and>
    (if map_abs m key = None then ngtcp2_map_remove m key = Ok (m, Some NGTCP2_ERR_INVALID_ARGUMENT)
     else \<exists>m'. ngtcp2_map_remove m key = Ok (m', None) \<and> map_inv m' \<and> map_abs m' = (map_abs m)(key := None)) \<and>
    unat (ngtcp2_map_size m) = length (map_entries m)"
  using map_find_ok [OF assms(1), of key] map_remove_refines [OF assms(1), of key]
    map_insert_refines [OF assms(1), of e mem] assms
  by (auto simp: ngtcp2_map_size_def map_inv_def)

theorem hashmap_refines_witness:
  "\<exists>m. ngtcp2_map_init [] = (Ok m, []) \<and> ngtcp2_map_find m 4 = Ok None \<and>
     (\<exists>m' mem'. ngtcp2_map_insert m (ngtcp2_map_entry_init 4 ''s'') [] [] = Ok (m', mem', None) \<and>
       map_abs m' = [4 \<mapsto> ngtcp2_map_entry_init 4 ''s''])"
proof -
  obtain m :: "string ngtcp2_map" where m: "ngtcp2_map_init [] = (Ok m, [])"
    by (auto simp: ngtcp2_map_init_def ngtcp2_mem_calloc_def)
  then have "map_inv m \<and> map_abs m = Map.empty" "map_size m = 0"
    by (simp add: map_init_inv) (use m in \<open>auto simp: ngtcp2_map_init_def ngtcp2_mem_calloc_def\<close>)
  with hashmap_refines [of m 4 "ngtcp2_map_entry_init 4 ''s''" "[]"] m show ?thesis
    by (auto simp: ngtcp2_map_size_def ngtcp2_map_entry_init_def)
qed

end
