(* ===== verification/Idtr.thy ===== *)
theory Idtr
  imports Gaptr
begin

text \<open>
  \<^verbatim>\<open>lib/ngtcp2_idtr.c\<close>: which stream identifiers of one kind the peer has used. The gaps are
  the identifiers not used yet. Opening the last identifier of a gap leaves an empty gap in
  the list, so the invariant of this component is weaker than the one of \<^verbatim>\<open>ngtcp2_gaptr\<close>:
  ranges may be empty.
\<close>

record ngtcp2_idtr =
  idtr_gap :: "ngtcp2_range list"
  idtr_server :: bool

definition ngtcp2_idtr_gap_new :: "u64 \<Rightarrow> u64 \<Rightarrow> ngtcp2_mem \<Rightarrow> ngtcp2_range option \<times> ngtcp2_mem" where
  "ngtcp2_idtr_gap_new b e mem =
     (let (ok, mem') = ngtcp2_mem_malloc mem in
      (if ok then Some (ngtcp2_range_init b e) else None, mem'))"

definition ngtcp2_idtr_init :: "bool \<Rightarrow> ngtcp2_mem \<Rightarrow> ngtcp2_idtr result \<times> ngtcp2_mem" where
  "ngtcp2_idtr_init server mem =
     (case ngtcp2_idtr_gap_new 0 UINT64_MAX mem of
        (None, mem') \<Rightarrow> (Err NGTCP2_ERR_NOMEM, mem')
      | (Some g, mem') \<Rightarrow> (Ok \<lparr>idtr_gap = [g], idtr_server = server\<rparr>, mem'))"

definition id_from_stream_id :: "u64 \<Rightarrow> u64" where
  "id_from_stream_id stream_id = drop_bit 2 stream_id"

text \<open>
  The asserted condition, with the precedence of the C operators:
  \<^verbatim>\<open>(server && id % 2) || ((!server && id % 2) == 0)\<close>.
\<close>

definition idtr_assert :: "bool \<Rightarrow> u64 \<Rightarrow> bool" where
  "idtr_assert server stream_id \<longleftrightarrow>
     (server \<and> stream_id mod 2 \<noteq> 0) \<or> \<not> (\<not> server \<and> stream_id mod 2 \<noteq> 0)"

fun idtr_open_loop :: "u64 \<Rightarrow> ngtcp2_range list \<Rightarrow> ngtcp2_mem \<Rightarrow> ngtcp2_range list \<times> ngtcp2_mem \<times> rc" where
  "idtr_open_loop q [] mem = ([], mem, Some NGTCP2_ERR_STREAM_IN_USE)"
| "idtr_open_loop q (g # gs) mem =
     (if q < rg_begin g then (g # gs, mem, Some NGTCP2_ERR_STREAM_IN_USE)
      else if rg_end g \<le> q then link g (idtr_open_loop q gs mem)
      else if q = rg_begin g then
        if ngtcp2_range_len g = 1 then (gs, mem, None)
        else (g\<lparr>rg_begin := rg_begin g + 1\<rparr> # gs, mem, None)
      else case ngtcp2_idtr_gap_new (rg_begin g) q mem of
             (None, mem') \<Rightarrow> (g # gs, mem', Some NGTCP2_ERR_NOMEM)
           | (Some ng, mem') \<Rightarrow> (ng # g\<lparr>rg_begin := q + 1\<rparr> # gs, mem', None))"

definition ngtcp2_idtr_open :: "ngtcp2_idtr \<Rightarrow> u64 \<Rightarrow> ngtcp2_mem \<Rightarrow> (ngtcp2_idtr \<times> ngtcp2_mem \<times> rc) result" where
  "ngtcp2_idtr_open idtr stream_id mem =
     c_assert (idtr_assert (idtr_server idtr) stream_id)
       (let (gs, mem', rv) = idtr_open_loop (id_from_stream_id stream_id) (idtr_gap idtr) mem
        in Ok (idtr\<lparr>idtr_gap := gs\<rparr>, mem', rv))"

fun idtr_is_open_loop :: "u64 \<Rightarrow> ngtcp2_range list \<Rightarrow> rc" where
  "idtr_is_open_loop q [] = None"
| "idtr_is_open_loop q (g # gs) =
     (if q < rg_begin g then Some NGTCP2_ERR_STREAM_IN_USE
      else if rg_end g \<le> q then idtr_is_open_loop q gs
      else None)"

definition ngtcp2_idtr_is_open :: "ngtcp2_idtr \<Rightarrow> u64 \<Rightarrow> rc result" where
  "ngtcp2_idtr_is_open idtr stream_id =
     c_assert (idtr_assert (idtr_server idtr) stream_id)
       (Ok (idtr_is_open_loop (id_from_stream_id stream_id) (idtr_gap idtr)))"

definition ngtcp2_idtr_first_gap :: "ngtcp2_idtr \<Rightarrow> u64" where
  "ngtcp2_idtr_first_gap idtr = (case idtr_gap idtr of g # _ \<Rightarrow> rg_begin g | [] \<Rightarrow> UINT64_MAX)"

section \<open>Invariant\<close>

text \<open>
  Ranges are ordered and separated but may be empty, and the last one still ends at
  \<open>UINT64_MAX\<close>: identifiers are quotients by four, so they never reach it.
\<close>

definition idgaps_ok :: "ngtcp2_range list \<Rightarrow> bool" where
  "idgaps_ok gs \<longleftrightarrow> (\<forall>g \<in> set gs. rg_begin g \<le> rg_end g) \<and> sorted_wrt (\<lambda>g h. rg_end g < rg_begin h) gs"

definition idtr_inv :: "ngtcp2_idtr \<Rightarrow> bool" where
  "idtr_inv t \<longleftrightarrow> idgaps_ok (idtr_gap t) \<and> {x. 0x3FFFFFFFFFFFFFFF < x \<and> x < UINT64_MAX} \<subseteq> gapset (idtr_gap t)"

definition idtr_unused :: "ngtcp2_idtr \<Rightarrow> u64 set" where
  "idtr_unused t = gapset (idtr_gap t)"

lemma idgaps_ok_Cons:
  "idgaps_ok (g # gs) \<longleftrightarrow> rg_begin g \<le> rg_end g \<and> (\<forall>h \<in> set gs. rg_end g < rg_begin h) \<and> idgaps_ok gs"
  by (auto simp: idgaps_ok_def)

lemma idgapset_after: "\<forall>h \<in> set gs. e < rg_begin h \<Longrightarrow> x \<in> gapset gs \<Longrightarrow> e < x"
  by (fastforce simp: gapset_def)

lemma id_from_stream_id_nat: "unat (id_from_stream_id s) = unat s div 4"
  unfolding id_from_stream_id_def unsigned_drop_bit_eq
  by (simp add: drop_bit_eq_div take_bit_nat_eq_self)

lemma id_from_stream_id_bound: "id_from_stream_id s \<le> 0x3FFFFFFFFFFFFFFF"
  using unat_u64_less [of s] by (simp add: word_le_nat_alt id_from_stream_id_nat del: unat_u64_less)

lemma idgaps_ok_raise:
  assumes "idgaps_ok (g # gs)" and "rg_begin g \<le> q" and "q < rg_end g"
  shows "idgaps_ok (g\<lparr>rg_begin := q + 1\<rparr> # gs)"
  using assms by (auto simp: idgaps_ok_Cons inc_le_iff)

lemma offs_raise:
  "q < rg_end g \<Longrightarrow> offs (g\<lparr>rg_begin := q + 1\<rparr>) = {x. q < x \<and> x < rg_end g}"
  by (simp add: offs_def inc_le_iff)

lemma open_loop_hit:
  assumes ok: "idgaps_ok (g # gs)" and hit: "rg_begin g \<le> q" "q < rg_end g"
    and run: "idtr_open_loop q (g # gs) mem = (gs', mem', rv)"
  shows "rv = None \<and> idgaps_ok gs' \<and> gapset gs' = gapset (g # gs) - {q} \<or>
    rv = Some NGTCP2_ERR_NOMEM \<and> gs' = g # gs \<and> False \<in> set mem"
proof -
  have later: "q \<notin> gapset gs" using ok hit idgapset_after [of gs "rg_end g" q] by (auto simp: idgaps_ok_Cons)
  note raise = idgaps_ok_raise [OF ok hit] less_inc [OF hit(2)] offs_raise [OF hit(2)]
  have step: "idtr_open_loop q (g # gs) mem =
     (if q = rg_begin g then
        if ngtcp2_range_len g = 1 then (gs, mem, None) else (g\<lparr>rg_begin := rg_begin g + 1\<rparr> # gs, mem, None)
      else if fst (ngtcp2_mem_malloc mem)
        then (ngtcp2_range_init (rg_begin g) q # g\<lparr>rg_begin := q + 1\<rparr> # gs, snd (ngtcp2_mem_malloc mem), None)
      else (g # gs, snd (ngtcp2_mem_malloc mem), Some NGTCP2_ERR_NOMEM))"
    using hit by (auto simp: ngtcp2_idtr_gap_new_def split: prod.splits)
  have "\<not> fst (ngtcp2_mem_malloc mem) \<Longrightarrow> False \<in> set mem" by (cases mem) auto
  then have "gs' = gs \<and> rv = None \<and> rg_begin g = q \<and> rg_end g - q = 1
    \<or> gs' = g\<lparr>rg_begin := q + 1\<rparr> # gs \<and> rv = None \<and> rg_begin g = q
    \<or> gs' = ngtcp2_range_init (rg_begin g) q # g\<lparr>rg_begin := q + 1\<rparr> # gs \<and> rv = None
    \<or> rv = Some NGTCP2_ERR_NOMEM \<and> gs' = g # gs \<and> False \<in> set mem"
    using run unfolding step ngtcp2_range_len_def
    by (cases "q = rg_begin g"; cases "rg_end g - rg_begin g = 1"; cases "fst (ngtcp2_mem_malloc mem)"; simp)
  then consider "gs' = gs" "rv = None" "rg_begin g = q" "rg_end g - q = 1"
    | "gs' = g\<lparr>rg_begin := q + 1\<rparr> # gs" "rv = None" "rg_begin g = q"
    | "gs' = ngtcp2_range_init (rg_begin g) q # g\<lparr>rg_begin := q + 1\<rparr> # gs" "rv = None"
    | "rv = Some NGTCP2_ERR_NOMEM" "gs' = g # gs" "False \<in> set mem" by blast
  then show ?thesis
  proof cases
    case 1
    then have "rg_end g = q + 1" by (simp add: algebra_simps)
    then have "x \<in> offs g \<longleftrightarrow> q \<le> x \<and> x \<le> q" for x
      unfolding mem_offs 1(3) using less_inc_iff [OF hit(2), of x] by simp
    then have "x \<in> offs g \<longleftrightarrow> x = q" for x by (metis order_antisym order_refl)
    then have "offs g = {q}" by blast
    then show ?thesis using 1 ok later by (simp add: idgaps_ok_Cons)
  next
    case 2
    have "offs g - {q} = {x. q < x \<and> x < rg_end g}" unfolding offs_def 2(3) by (auto simp: less_le)
    then have "gapset (g\<lparr>rg_begin := q + 1\<rparr> # gs) = gapset (g # gs) - {q}"
      using later unfolding gapset_simps raise(3) by blast
    then show ?thesis using 2 raise(1) by simp
  next
    case 3
    have "offs g - {q} = offs (ngtcp2_range_init (rg_begin g) q) \<union> {x. q < x \<and> x < rg_end g}"
      using hit by (auto simp: offs_def ngtcp2_range_init_def)
    moreover have "idgaps_ok gs'"
      using 3 raise(1,2) hit by (auto simp: idgaps_ok_Cons ngtcp2_range_init_def)
    moreover have "gapset gs' = gapset (g # gs) - {q}"
      using later calculation(1) unfolding 3(1) gapset_simps raise(3) by blast
    ultimately show ?thesis using 3 by simp
  qed simp
qed

lemma open_loop_correct:
  assumes "idgaps_ok gs" and "idtr_open_loop q gs mem = (gs', mem', rv)"
  shows "(\<forall>e. (\<forall>h \<in> set gs. e < rg_begin h) \<longrightarrow> (\<forall>h \<in> set gs'. e < rg_begin h)) \<and>
    idgaps_ok gs' \<and>
    (q \<in> gapset gs \<and> rv = None \<and> gapset gs' = gapset gs - {q} \<or>
     q \<notin> gapset gs \<and> rv = Some NGTCP2_ERR_STREAM_IN_USE \<and> gs' = gs \<or>
     q \<in> gapset gs \<and> rv = Some NGTCP2_ERR_NOMEM \<and> gs' = gs \<and> False \<in> set mem)"
  using assms
proof (induction gs arbitrary: gs')
  case Nil
  then show ?case by (auto simp: gapset_def)
next
  case (Cons g gs)
  have after: "\<forall>h \<in> set gs. rg_end g < rg_begin h" "rg_begin g \<le> rg_end g" "idgaps_ok gs"
    using Cons.prems(1) by (auto simp: idgaps_ok_Cons)
  consider "q < rg_begin g" | "rg_begin g \<le> q" "rg_end g \<le> q" | "rg_begin g \<le> q" "q < rg_end g"
    by fastforce
  then show ?case
  proof cases
    case 1
    moreover have "q \<notin> gapset gs" using 1 after idgapset_after [OF after(1), of q] by auto
    ultimately show ?thesis using Cons.prems by auto
  next
    case 2
    then obtain hs where hs: "idtr_open_loop q gs mem = (hs, mem', rv)" "gs' = g # hs"
      using Cons.prems(2) by (auto simp: link_eq not_less [symmetric])
    have "q \<notin> offs g" using 2 by simp
    with Cons.IH [OF after(3) hs(1)] hs(2) after show ?thesis
      by (auto simp: idgaps_ok_Cons simp del: mem_offs)
  next
    case 3
    note hit = open_loop_hit [OF Cons.prems(1) 3 Cons.prems(2)]
    have "\<forall>h \<in> set gs'. e < rg_begin h" if "\<forall>h \<in> set (g # gs). e < rg_begin h" for e
    proof -
      have "e < q + 1" by (rule less_trans [OF _ le_less_trans [OF 3(1) less_inc [OF 3(2)]]]) (use that in simp)
      then show ?thesis
        using that Cons.prems(2) 3
        by (auto simp: ngtcp2_idtr_gap_new_def ngtcp2_range_init_def split: if_splits prod.splits)
    qed
    moreover have "q \<in> gapset (g # gs)" using 3 by simp
    ultimately show ?thesis using hit Cons.prems(1) by blast
  qed
qed

lemma is_open_loop_correct:
  assumes "idgaps_ok gs" and "{x. 0x3FFFFFFFFFFFFFFF < x \<and> x < UINT64_MAX} \<subseteq> gapset gs"
    and "q \<le> 0x3FFFFFFFFFFFFFFF"
  shows "idtr_is_open_loop q gs = (if q \<in> gapset gs then None else Some NGTCP2_ERR_STREAM_IN_USE)"
proof -
  have "\<exists>x \<in> gapset gs. q < x"
    using assms(3) subsetD [OF assms(2), where c = "0x4000000000000000"]
    by (auto simp: word_le_nat_alt word_less_nat_alt intro!: bexI [where x = "0x4000000000000000"])
  with assms(1) show ?thesis
  proof (induction gs)
    case (Cons g gs)
    have after: "\<forall>h \<in> set gs. rg_end g < rg_begin h" "rg_begin g \<le> rg_end g" "idgaps_ok gs"
      using Cons.prems(1) by (auto simp: idgaps_ok_Cons)
    consider "q < rg_begin g" | "rg_begin g \<le> q" "rg_end g \<le> q" | "rg_begin g \<le> q" "q < rg_end g"
      by fastforce
    then show ?case
    proof cases
      case 1
      then show ?thesis using after idgapset_after [OF after(1), of q] by auto
    next
      case 2
      then have "\<exists>x \<in> gapset gs. q < x" using Cons.prems(2) by auto
      with 2 Cons.IH after show ?thesis by (auto simp flip: not_less)
    next
      case 3
      then show ?thesis by auto
    qed
  qed simp
qed

lemma idtr_assert_server [simp]: "idtr_assert True s"
  by (simp add: idtr_assert_def)

lemma idtr_open_ok:
  assumes "idtr_inv t" and "idtr_assert (idtr_server t) s"
  shows "\<exists>t' mem' rv. ngtcp2_idtr_open t s mem = Ok (t', mem', rv) \<and> idtr_inv t' \<and>
    (if id_from_stream_id s \<notin> idtr_unused t then rv = Some NGTCP2_ERR_STREAM_IN_USE \<and> t' = t
     else rv = None \<and> idtr_unused t' = idtr_unused t - {id_from_stream_id s} \<or>
          rv = Some NGTCP2_ERR_NOMEM \<and> t' = t \<and> False \<in> set mem) \<and>
    ngtcp2_idtr_is_open t s =
      Ok (if id_from_stream_id s \<in> idtr_unused t then None else Some NGTCP2_ERR_STREAM_IN_USE)"
proof -
  let ?q = "id_from_stream_id s"
  obtain gs mem' rv where run: "idtr_open_loop ?q (idtr_gap t) mem = (gs, mem', rv)"
    using prod_cases3 by blast
  have ok: "idgaps_ok (idtr_gap t)" and top: "{x. 0x3FFFFFFFFFFFFFFF < x \<and> x < UINT64_MAX} \<subseteq> gapset (idtr_gap t)"
    using assms(1) by (auto simp: idtr_inv_def)
  note corr = open_loop_correct [OF ok run]
  have top': "{x. 0x3FFFFFFFFFFFFFFF < x \<and> x < UINT64_MAX} \<subseteq> gapset gs"
    using corr top id_from_stream_id_bound [of s] by auto
  have "ngtcp2_idtr_open t s mem = Ok (t\<lparr>idtr_gap := gs\<rparr>, mem', rv)"
    using run assms(2) by (simp add: ngtcp2_idtr_open_def)
  moreover have "idtr_inv (t\<lparr>idtr_gap := gs\<rparr>)" using corr top' by (simp add: idtr_inv_def)
  moreover have "ngtcp2_idtr_is_open t s =
      Ok (if ?q \<in> idtr_unused t then None else Some NGTCP2_ERR_STREAM_IN_USE)"
    using is_open_loop_correct [OF ok top id_from_stream_id_bound] assms(2)
    by (simp add: ngtcp2_idtr_is_open_def idtr_unused_def)
  ultimately show ?thesis using corr by (auto simp: idtr_unused_def)
qed

section \<open>Properties\<close>

text \<open>
  C29. Refinement of the set of unused identifiers: for an identifier the assertion admits, opening
  it fails with NGTCP2\_ERR\_STREAM\_IN\_USE and changes nothing exactly when it was used, and
  otherwise marks exactly this identifier as used, or, only after a failed allocation,
  changes nothing and reports NGTCP2\_ERR\_NOMEM; \<open>ngtcp2_idtr_is_open\<close> returns \<open>0\<close> exactly for
  the identifiers that are not used.
\<close>

theorem idtr_open_refines:
  assumes "idtr_inv t" and "idtr_assert (idtr_server t) s"
  shows "\<exists>t' mem' rv. ngtcp2_idtr_open t s mem = Ok (t', mem', rv) \<and> idtr_inv t' \<and>
    (if id_from_stream_id s \<notin> idtr_unused t then rv = Some NGTCP2_ERR_STREAM_IN_USE \<and> t' = t
     else rv = None \<and> idtr_unused t' = idtr_unused t - {id_from_stream_id s} \<or>
          rv = Some NGTCP2_ERR_NOMEM \<and> t' = t \<and> False \<in> set mem) \<and>
    ngtcp2_idtr_is_open t s =
      Ok (if id_from_stream_id s \<in> idtr_unused t then None else Some NGTCP2_ERR_STREAM_IN_USE)"
  by (rule idtr_open_ok [OF assms])

theorem idtr_open_refines_witness:
  "\<exists>t' mem' rv. ngtcp2_idtr_open \<lparr>idtr_gap = [ngtcp2_range_init 0 UINT64_MAX], idtr_server = True\<rparr> 5 [] =
     Ok (t', mem', rv) \<and> rv = None \<and> idtr_unused t' = {x. x < UINT64_MAX} - {1}"
proof -
  let ?t = "\<lparr>idtr_gap = [ngtcp2_range_init 0 UINT64_MAX], idtr_server = True\<rparr>"
  have inv: "idtr_inv ?t"
    unfolding idtr_inv_def using gapset_init by (auto simp: idgaps_ok_def ngtcp2_range_init_def)
  have q: "id_from_stream_id 5 = 1" by (simp add: id_from_stream_id_def drop_bit_eq_div)
  have unused: "idtr_unused ?t = {x. x < UINT64_MAX}" unfolding idtr_unused_def using gapset_init by simp
  show ?thesis
    using idtr_open_refines [OF inv, of 5 "[]"] unfolding q unused by fastforce
qed

end
