(* ===== verification/Pq.thy ===== *)
theory Pq
  imports Ranges
begin

text \<open>
  \<^verbatim>\<open>lib/ngtcp2_pq.c\<close>: a priority queue as a binary heap of pointers to entries, each of which knows its
  index in the array. An entry is identified by its address, of type \<open>'e\<close>; \<open>pq_q\<close> is the array up to
  its \<open>length\<close>, \<open>pq_index\<close> the field \<open>index\<close> of the entries. The comparison is a parameter, as it is
  in the C code. Access to the array outside of the stored entries is \<open>Fault\<close>.
\<close>

section \<open>Operations\<close>

record 'e ngtcp2_pq =
  pq_q :: "'e list"
  pq_index :: "'e \<Rightarrow> nat"
  pq_capacity :: nat

definition ngtcp2_pq_init :: "('e \<Rightarrow> nat) \<Rightarrow> 'e ngtcp2_pq" where
  "ngtcp2_pq_init index = \<lparr>pq_q = [], pq_index = index, pq_capacity = 0\<rparr>"

definition pq_swap :: "'e ngtcp2_pq \<Rightarrow> nat \<Rightarrow> nat \<Rightarrow> 'e ngtcp2_pq" where
  "pq_swap pq i j =
     (let a = pq_q pq ! i; b = pq_q pq ! j in
      pq\<lparr>pq_q := (pq_q pq)[i := b, j := a], pq_index := (pq_index pq)(b := i, a := j)\<rparr>)"

fun bubble_up :: "('e \<Rightarrow> 'e \<Rightarrow> bool) \<Rightarrow> 'e ngtcp2_pq \<Rightarrow> nat \<Rightarrow> 'e ngtcp2_pq" where
  "bubble_up lt pq index =
     (if index = 0 then pq
      else let parent = (index - 1) div 2 in
        if \<not> lt (pq_q pq ! index) (pq_q pq ! parent) then pq
        else bubble_up lt (pq_swap pq parent index) parent)"

declare bubble_up.simps [simp del]

definition ngtcp2_pq_push :: "('e \<Rightarrow> 'e \<Rightarrow> bool) \<Rightarrow> 'e ngtcp2_pq \<Rightarrow> 'e \<Rightarrow> ngtcp2_mem \<Rightarrow> 'e ngtcp2_pq \<times> ngtcp2_mem \<times> rc" where
  "ngtcp2_pq_push lt pq item mem =
     (let add = (\<lambda>pq. let n = length (pq_q pq) in
                   bubble_up lt (pq\<lparr>pq_q := pq_q pq @ [item], pq_index := (pq_index pq)(item := n)\<rparr>) n)
      in if pq_capacity pq \<le> length (pq_q pq) then
           let (ok, mem') = ngtcp2_mem_realloc mem in
           if \<not> ok then (pq, mem', Some NGTCP2_ERR_NOMEM)
           else (add (pq\<lparr>pq_capacity := max 4 (pq_capacity pq * 2)\<rparr>), mem', None)
         else (add pq, mem, None))"

definition ngtcp2_pq_top :: "'e ngtcp2_pq \<Rightarrow> 'e option" where
  "ngtcp2_pq_top pq = (if pq_q pq = [] then None else Some (pq_q pq ! 0))"

text \<open>The inner loop over the two children, \<open>j\<close> being the first one.\<close>

definition pq_minindex :: "('e \<Rightarrow> 'e \<Rightarrow> bool) \<Rightarrow> 'e list \<Rightarrow> nat \<Rightarrow> nat" where
  "pq_minindex lt q index =
     (let j = index * 2 + 1;
          m1 = (if j < length q \<and> lt (q ! j) (q ! index) then j else index);
          m2 = (if Suc j < length q \<and> lt (q ! Suc j) (q ! m1) then Suc j else m1)
      in m2)"

lemma pq_minindex_cases:
  "pq_minindex lt q i = i \<or> (i < pq_minindex lt q i \<and> pq_minindex lt q i < length q)"
  by (auto simp: pq_minindex_def Let_def)

function bubble_down :: "('e \<Rightarrow> 'e \<Rightarrow> bool) \<Rightarrow> 'e ngtcp2_pq \<Rightarrow> nat \<Rightarrow> 'e ngtcp2_pq" where
  "bubble_down lt pq index =
     (let minindex = pq_minindex lt (pq_q pq) index in
      if minindex = index then pq else bubble_down lt (pq_swap pq index minindex) minindex)"
  by pat_completeness auto

termination
proof (relation "measure (\<lambda>(lt, pq, index). length (pq_q pq) - index)", goal_cases)
  case (2 lt pq index minindex)
  then show ?case using pq_minindex_cases [of lt "pq_q pq" index] by (auto simp: pq_swap_def Let_def)
qed simp

declare bubble_down.simps [simp del]

definition ngtcp2_pq_pop :: "('e \<Rightarrow> 'e \<Rightarrow> bool) \<Rightarrow> 'e ngtcp2_pq \<Rightarrow> 'e ngtcp2_pq" where
  "ngtcp2_pq_pop lt pq =
     (if pq_q pq \<noteq> [] then
        let b = last (pq_q pq) in
        bubble_down lt (pq\<lparr>pq_q := butlast ((pq_q pq)[0 := b]), pq_index := (pq_index pq)(b := 0)\<rparr>) 0
      else pq)"

definition ngtcp2_pq_remove :: "('e \<Rightarrow> 'e \<Rightarrow> bool) \<Rightarrow> 'e ngtcp2_pq \<Rightarrow> 'e \<Rightarrow> 'e ngtcp2_pq result" where
  "ngtcp2_pq_remove lt pq item =
     (let i = pq_index pq item in
      c_assert (i < length (pq_q pq) \<and> pq_q pq ! i = item) (
      if i = 0 then Ok (ngtcp2_pq_pop lt pq)
      else if i = length (pq_q pq) - 1 then Ok (pq\<lparr>pq_q := butlast (pq_q pq)\<rparr>)
      else
        let b = last (pq_q pq);
            pq = pq\<lparr>pq_q := butlast ((pq_q pq)[i := b]), pq_index := (pq_index pq)(b := i)\<rparr>
        in Ok (if lt item b then bubble_down lt pq i else bubble_up lt pq i)))"

definition ngtcp2_pq_empty :: "'e ngtcp2_pq \<Rightarrow> bool" where
  "ngtcp2_pq_empty pq \<longleftrightarrow> length (pq_q pq) = 0"

definition ngtcp2_pq_size :: "'e ngtcp2_pq \<Rightarrow> nat" where
  "ngtcp2_pq_size pq = length (pq_q pq)"

text \<open>
  \<open>ngtcp2_pq_update\<close> calls \<open>f\<close> on every entry; the call may change what the comparison depends on,
  the state \<open>s\<close>, and reports whether it did.
\<close>

fun pq_call :: "('e \<Rightarrow> 's \<Rightarrow> 's \<times> bool) \<Rightarrow> 'e list \<Rightarrow> 's \<Rightarrow> bool \<Rightarrow> 's \<times> bool" where
  "pq_call f [] s rv = (s, rv)"
| "pq_call f (e # es) s rv = (let (s', r) = f e s in pq_call f es s' (rv \<or> r))"

fun bubble_down_all :: "('e \<Rightarrow> 'e \<Rightarrow> bool) \<Rightarrow> 'e ngtcp2_pq \<Rightarrow> nat \<Rightarrow> 'e ngtcp2_pq" where
  "bubble_down_all lt pq 0 = pq"
| "bubble_down_all lt pq (Suc i) = bubble_down_all lt (bubble_down lt pq i) i"

definition ngtcp2_pq_update :: "('s \<Rightarrow> 'e \<Rightarrow> 'e \<Rightarrow> bool) \<Rightarrow> ('e \<Rightarrow> 's \<Rightarrow> 's \<times> bool) \<Rightarrow> 'e ngtcp2_pq \<Rightarrow> 's \<Rightarrow> 'e ngtcp2_pq \<times> 's" where
  "ngtcp2_pq_update lt f pq s =
     (if pq_q pq = [] then (pq, s)
      else let (s', rv) = pq_call f (pq_q pq) s False in
        (if rv then bubble_down_all (lt s') pq (length (pq_q pq)) else pq, s'))"

text \<open>\<open>ngtcp2_pq_each\<close> stops at the first entry on which \<open>f\<close> returns nonzero.\<close>

fun pq_each :: "('e \<Rightarrow> 's \<Rightarrow> 's \<times> bool) \<Rightarrow> 'e list \<Rightarrow> 's \<Rightarrow> 's \<times> bool" where
  "pq_each f [] s = (s, False)"
| "pq_each f (e # es) s = (let (s', r) = f e s in if r then (s', True) else pq_each f es s')"

definition ngtcp2_pq_each :: "('e \<Rightarrow> 's \<Rightarrow> 's \<times> bool) \<Rightarrow> 'e ngtcp2_pq \<Rightarrow> 's \<Rightarrow> 's \<times> bool" where
  "ngtcp2_pq_each f pq s = pq_each f (pq_q pq) s"

section \<open>Heap order\<close>

definition par :: "nat \<Rightarrow> nat" where
  "par i = (i - 1) div 2"

text \<open>Every entry from the children of \<open>m\<close> on is not less than its parent.\<close>

definition heap_from :: "('e \<Rightarrow> 'e \<Rightarrow> bool) \<Rightarrow> nat \<Rightarrow> 'e list \<Rightarrow> bool" where
  "heap_from lt m q \<longleftrightarrow> (\<forall>i. 0 < i \<and> i < length q \<and> m \<le> par i \<longrightarrow> \<not> lt (q ! i) (q ! par i))"

text \<open>A heap except that the entry at \<open>k\<close> may be less than its parent, or greater than its children.\<close>

definition hole_up :: "('e \<Rightarrow> 'e \<Rightarrow> bool) \<Rightarrow> 'e list \<Rightarrow> nat \<Rightarrow> bool" where
  "hole_up lt q k \<longleftrightarrow>
     (\<forall>i. 0 < i \<and> i < length q \<and> i \<noteq> k \<longrightarrow> \<not> lt (q ! i) (q ! par i)) \<and>
     (\<forall>i. 0 < k \<and> k < i \<and> i < length q \<and> par i = k \<longrightarrow> \<not> lt (q ! i) (q ! par k))"

definition hole_down :: "('e \<Rightarrow> 'e \<Rightarrow> bool) \<Rightarrow> nat \<Rightarrow> 'e list \<Rightarrow> nat \<Rightarrow> bool" where
  "hole_down lt m q k \<longleftrightarrow>
     (\<forall>i. 0 < i \<and> i < length q \<and> m \<le> par i \<and> par i \<noteq> k \<longrightarrow> \<not> lt (q ! i) (q ! par i)) \<and>
     (\<forall>i. 0 < k \<and> k < i \<and> i < length q \<and> par i = k \<and> m \<le> par k \<longrightarrow> \<not> lt (q ! i) (q ! par k))"

text \<open>The entries are different and each one's index is its position.\<close>

definition pq_indexed :: "'e ngtcp2_pq \<Rightarrow> bool" where
  "pq_indexed pq \<longleftrightarrow> distinct (pq_q pq) \<and> (\<forall>i < length (pq_q pq). pq_index pq (pq_q pq ! i) = i)"

lemma par_less: "0 < i \<Longrightarrow> par i < i"
  by (auto simp: par_def)

lemma par_iff: "0 < i \<Longrightarrow> par i = k \<longleftrightarrow> i = k * 2 + 1 \<or> i = Suc (k * 2 + 1)"
  by (auto simp: par_def)

lemma pq_swap_simps [simp]:
  "pq_q (pq_swap pq i j) = (pq_q pq)[i := pq_q pq ! j, j := pq_q pq ! i]"
  "pq_index (pq_swap pq i j) = (pq_index pq)(pq_q pq ! j := i, pq_q pq ! i := j)"
  "pq_capacity (pq_swap pq i j) = pq_capacity pq"
  by (simp_all add: pq_swap_def Let_def)

lemma pq_swap_mset: "i < length (pq_q pq) \<Longrightarrow> j < length (pq_q pq) \<Longrightarrow> mset (pq_q (pq_swap pq i j)) = mset (pq_q pq)"
  by (simp add: mset_swap)

lemma pq_swap_indexed:
  assumes "pq_indexed pq" and "i < length (pq_q pq)" and "j < length (pq_q pq)"
  shows "pq_indexed (pq_swap pq i j)"
  unfolding pq_indexed_def
proof (intro conjI allI impI)
  show "distinct (pq_q (pq_swap pq i j))"
    using assms by (simp add: pq_indexed_def distinct_swap)
  fix l
  assume "l < length (pq_q (pq_swap pq i j))"
  then show "pq_index (pq_swap pq i j) (pq_q (pq_swap pq i j) ! l) = l"
    using assms by (auto simp: pq_indexed_def nth_list_update nth_eq_iff_index_eq)
qed

text \<open>What bubbling keeps: the entries, their indices and the capacity.\<close>

definition pq_same :: "'e ngtcp2_pq \<Rightarrow> 'e ngtcp2_pq \<Rightarrow> bool" where
  "pq_same pq pq' \<longleftrightarrow> mset (pq_q pq') = mset (pq_q pq) \<and> (pq_indexed pq \<longrightarrow> pq_indexed pq') \<and> pq_capacity pq' = pq_capacity pq"

lemma pq_same_refl [simp]: "pq_same pq pq"
  by (simp add: pq_same_def)

lemma pq_same_trans: "pq_same a b \<Longrightarrow> pq_same b c \<Longrightarrow> pq_same a c"
  by (auto simp: pq_same_def)

lemma pq_same_length: "pq_same a b \<Longrightarrow> length (pq_q b) = length (pq_q a)"
  by (metis pq_same_def size_mset)

lemma pq_same_swap: "i < length (pq_q pq) \<Longrightarrow> j < length (pq_q pq) \<Longrightarrow> pq_same pq (pq_swap pq i j)"
  by (simp add: pq_same_def pq_swap_mset [simplified] pq_swap_indexed)

lemma bubble_up_same: "k < length (pq_q pq) \<Longrightarrow> pq_same pq (bubble_up lt pq k)"
proof (induction lt pq k rule: bubble_up.induct)
  case (1 lt pq k)
  show ?case
  proof (cases "k = 0 \<or> \<not> lt (pq_q pq ! k) (pq_q pq ! ((k - 1) div 2))")
    case False
    then have "pq_same (pq_swap pq ((k - 1) div 2) k) (bubble_up lt (pq_swap pq ((k - 1) div 2) k) ((k - 1) div 2))"
      using 1 by (intro 1) auto
    moreover have "pq_same pq (pq_swap pq ((k - 1) div 2) k)" using 1 by (intro pq_same_swap) auto
    ultimately show ?thesis
      using False pq_same_trans by (subst bubble_up.simps) (auto simp: Let_def)
  qed (subst bubble_up.simps, auto simp: Let_def)
qed

lemma bubble_down_same: "k < length (pq_q pq) \<or> pq_q pq = [] \<Longrightarrow> pq_same pq (bubble_down lt pq k)"
proof (induction lt pq k rule: bubble_down.induct)
  case (1 lt pq k)
  let ?m = "pq_minindex lt (pq_q pq) k"
  show ?case
  proof (cases "?m = k")
    case True
    then show ?thesis by (subst bubble_down.simps) simp
  next
    case False
    then have m: "k < ?m" "?m < length (pq_q pq)" using pq_minindex_cases [of lt "pq_q pq" k] by auto
    then have "pq_same (pq_swap pq k ?m) (bubble_down lt (pq_swap pq k ?m) ?m)"
      using False by (intro 1) auto
    moreover have "pq_same pq (pq_swap pq k ?m)" using m by (intro pq_same_swap) auto
    ultimately show ?thesis
      using False pq_same_trans by (subst bubble_down.simps) (auto simp: Let_def)
  qed
qed

section \<open>Operations under a strict weak order\<close>

text \<open>The contract of the comparison: the less function of \<^verbatim>\<open>ngtcp2_pq_init\<close>.\<close>

locale strict_weak_order =
  fixes lt :: "'e \<Rightarrow> 'e \<Rightarrow> bool"
  assumes asym: "lt a b \<Longrightarrow> \<not> lt b a"
    and negtrans: "\<not> lt a b \<Longrightarrow> \<not> lt b c \<Longrightarrow> \<not> lt a c"
begin

lemma hole_up_swap:
  assumes h: "hole_up lt q k" and k: "0 < k" "k < length q" and l: "lt (q ! k) (q ! par k)"
  shows "hole_up lt (q[par k := q ! k, k := q ! par k]) (par k)"
proof -
  have p: "par k < k" using k par_less by blast
  let ?q = "q[par k := q ! k, k := q ! par k]"
  have edge: "\<not> lt (q ! i) (q ! par i)" if "0 < i" "i < length q" "i \<noteq> k" for i using h that by (simp add: hole_up_def)
  have child: "\<not> lt (q ! i) (q ! par k)" if "0 < i" "i < length q" "par i = k" for i
    using h that k par_less [of i] by (simp add: hole_up_def)
  have upd: "?q ! i = (if i = k then q ! par k else if i = par k then q ! k else q ! i)" if "i < length q" for i
    using that p k by (auto simp: nth_list_update)
  show ?thesis
    unfolding hole_up_def
  proof (intro conjI allI impI)
    fix i
    assume i: "0 < i \<and> i < length ?q \<and> i \<noteq> par k"
    then have len: "i < length q" "par i < length q" "par i < i" using par_less [of i] by auto
    show "\<not> lt (?q ! i) (?q ! par i)"
      using i len k p l edge [of i] child [of i] asym [OF l] negtrans [of "q ! i" "q ! par k" "q ! k"]
      by (auto simp: upd split: if_splits)
  next
    fix i
    assume i: "0 < par k \<and> par k < i \<and> i < length ?q \<and> par i = par k"
    then have pp: "par (par k) < par k" using par_less by blast
    with i show "\<not> lt (?q ! i) (?q ! par (par k))"
      using k p edge [of i] edge [of "par k"] negtrans [of "q ! i" "q ! par k" "q ! par (par k)"]
      by (auto simp: upd split: if_splits)
  qed
qed

lemma bubble_up_heap: "k < length (pq_q pq) \<Longrightarrow> hole_up lt (pq_q pq) k \<Longrightarrow> heap_from lt 0 (pq_q (bubble_up lt pq k))"
proof (induction k arbitrary: pq rule: less_induct)
  case (less k)
  show ?case
  proof (cases "0 < k \<and> lt (pq_q pq ! k) (pq_q pq ! par k)")
    case True
    then have p: "par k < k" using par_less by blast
    have "hole_up lt (pq_q (pq_swap pq (par k) k)) (par k)"
      using True less.prems hole_up_swap [of "pq_q pq" k] by simp
    then have "heap_from lt 0 (pq_q (bubble_up lt (pq_swap pq (par k) k) (par k)))"
      using p less.prems by (intro less.IH) auto
    then show ?thesis using True by (subst bubble_up.simps) (simp add: Let_def par_def)
  next
    case False
    then have "bubble_up lt pq k = pq" by (subst bubble_up.simps) (auto simp: Let_def par_def)
    moreover have "heap_from lt 0 (pq_q pq)"
      using False less.prems(2) by (auto simp: heap_from_def hole_up_def)
    ultimately show ?thesis by simp
  qed
qed

lemma minindex:
  assumes m_def: "m = pq_minindex lt q k"
  shows "m = k \<or> 0 < m \<and> par m = k \<and> m < length q \<and> lt (q ! m) (q ! k)"
    and "0 < i \<Longrightarrow> i < length q \<Longrightarrow> par i = k \<Longrightarrow> \<not> lt (q ! i) (q ! m)"
proof -
  have irrefl: "\<not> lt a a" for a using asym by blast
  have trans: "lt a c" if "lt a b" "lt b c" for a b c using that negtrans asym by blast
  show "m = k \<or> 0 < m \<and> par m = k \<and> m < length q \<and> lt (q ! m) (q ! k)"
    unfolding m_def pq_minindex_def Let_def by (auto simp: par_def intro: trans)
  assume i: "0 < i" "i < length q" "par i = k"
  then have "i = k * 2 + 1 \<or> i = Suc (k * 2 + 1)" by (simp add: par_iff)
  then show "\<not> lt (q ! i) (q ! m)"
    using i(2) irrefl asym [of "q ! Suc (k * 2 + 1)" "q ! (k * 2 + 1)"] asym [of "q ! Suc (k * 2 + 1)" "q ! k"]
      negtrans [of "q ! (k * 2 + 1)" "q ! k" "q ! Suc (k * 2 + 1)"]
    unfolding m_def pq_minindex_def Let_def by (elim disjE) (simp_all split: if_splits)
qed

lemma hole_down_swap:
  assumes h: "hole_down lt b q k" and b: "b \<le> k" and m: "m = pq_minindex lt q k" "m \<noteq> k"
  shows "hole_down lt b (q[k := q ! m, m := q ! k]) m"
proof -
  have m': "0 < m" "par m = k" "m < length q" "lt (q ! m) (q ! k)" using minindex(1) [OF m(1)] m(2) by auto
  have k: "k < m" using m' par_less by blast
  have least: "\<not> lt (q ! i) (q ! m)" if "0 < i" "i < length q" "par i = k" for i using minindex(2) [OF m(1)] that by blast
  let ?q = "q[k := q ! m, m := q ! k]"
  have edge: "\<not> lt (q ! i) (q ! par i)" if "0 < i" "i < length q" "b \<le> par i" "par i \<noteq> k" for i
    using h that by (simp add: hole_down_def)
  have up: "\<not> lt (q ! i) (q ! par k)" if "0 < i" "i < length q" "par i = k" "0 < k" "b \<le> par k" for i
    using h that par_less [of i] by (simp add: hole_down_def)
  have upd: "?q ! i = (if i = m then q ! k else if i = k then q ! m else q ! i)" if "i < length q" for i
    using that k m' by (auto simp: nth_list_update)
  show ?thesis
    unfolding hole_down_def
  proof (intro conjI allI impI)
    fix i
    assume i: "0 < i \<and> i < length ?q \<and> b \<le> par i \<and> par i \<noteq> m"
    then have len: "i < length q" "par i < length q" "par i < i" using par_less [of i] by auto
    show "\<not> lt (?q ! i) (?q ! par i)"
      using i len k m' edge [of i] least [of i] up [of m] asym [OF m'(4)]
      by (auto simp: upd simp del: nth_list_update_neq split: if_splits)
  next
    fix i
    assume i: "0 < m \<and> m < i \<and> i < length ?q \<and> par i = m \<and> b \<le> par m"
    then show "\<not> lt (?q ! i) (?q ! par m)"
      using k b m' edge [of i] by (auto simp: upd)
  qed
qed

lemma bubble_down_heap: "b \<le> k \<Longrightarrow> hole_down lt b (pq_q pq) k \<Longrightarrow> heap_from lt b (pq_q (bubble_down lt pq k))"
proof (induction "length (pq_q pq) - k" arbitrary: pq k rule: less_induct)
  case less
  let ?m = "pq_minindex lt (pq_q pq) k"
  show ?case
  proof (cases "?m = k")
    case True
    then have "bubble_down lt pq k = pq" by (subst bubble_down.simps) simp
    moreover have "heap_from lt b (pq_q pq)"
      using less.prems(2) minindex(2) [of k "pq_q pq" k] True by (auto simp: heap_from_def hole_down_def)
    ultimately show ?thesis by simp
  next
    case False
    then have m: "k < ?m" "?m < length (pq_q pq)" using pq_minindex_cases [of lt "pq_q pq" k] by auto
    have "hole_down lt b (pq_q (pq_swap pq k ?m)) ?m"
      using hole_down_swap [OF less.prems(2,1) refl False] by simp
    then have "heap_from lt b (pq_q (bubble_down lt (pq_swap pq k ?m) ?m))"
      using m less.prems(1) by (intro less.hyps) auto
    then show ?thesis using False by (subst bubble_down.simps) (simp add: Let_def)
  qed
qed

lemma heap_least:
  assumes "heap_from lt 0 q" and "i < length q"
  shows "\<not> lt (q ! i) (q ! 0)"
  using assms(2)
proof (induction i rule: less_induct)
  case (less i)
  show ?case
  proof (cases "i = 0")
    case False
    then have "par i < i" using par_less by blast
    then have "\<not> lt (q ! par i) (q ! 0)" "\<not> lt (q ! i) (q ! par i)"
      using less False assms(1) by (auto simp: heap_from_def)
    then show ?thesis using negtrans by blast
  qed (use asym in blast)
qed

end

section \<open>The operations keep the invariant\<close>

definition pq_inv :: "('e \<Rightarrow> 'e \<Rightarrow> bool) \<Rightarrow> 'e ngtcp2_pq \<Rightarrow> bool" where
  "pq_inv lt pq \<longleftrightarrow> pq_indexed pq \<and> heap_from lt 0 (pq_q pq) \<and> length (pq_q pq) \<le> pq_capacity pq"

definition pq_elems :: "'e ngtcp2_pq \<Rightarrow> 'e multiset" where
  "pq_elems pq = mset (pq_q pq)"

lemma pq_inv_same:
  assumes "pq_same pq pq'" and "pq_indexed pq" and "length (pq_q pq) \<le> pq_capacity pq" and "heap_from lt 0 (pq_q pq')"
  shows "pq_inv lt pq'" and "pq_elems pq' = pq_elems pq"
  using assms pq_same_length [OF assms(1)] by (auto simp: pq_same_def pq_inv_def pq_elems_def)

text \<open>The last entry replaces the one at \<open>i\<close>.\<close>

definition pq_fill :: "'e ngtcp2_pq \<Rightarrow> nat \<Rightarrow> 'e ngtcp2_pq" where
  "pq_fill pq i = pq\<lparr>pq_q := butlast ((pq_q pq)[i := last (pq_q pq)]), pq_index := (pq_index pq)(last (pq_q pq) := i)\<rparr>"

lemma nth_fill: "l < length q - 1 \<Longrightarrow> i < length q \<Longrightarrow> butlast (q[i := last q]) ! l = (if l = i then last q else q ! l)"
  by (auto simp: nth_butlast)

lemma mset_fill: "i < length q \<Longrightarrow> mset (butlast (q[i := last q])) = mset q - {#q ! i#}"
proof -
  assume i: "i < length q"
  then have ne: "q[i := last q] \<noteq> []" by auto
  then have l: "last (q[i := last q]) = last q"
    using i by (auto simp: last_conv_nth nth_list_update)
  have "mset (q[i := last q]) = mset (butlast (q[i := last q])) + {#last q#}"
    using arg_cong [OF append_butlast_last_id [OF ne], of mset] l by simp
  then show ?thesis using i by (simp add: mset_update)
qed

lemma pq_fill_indexed:
  assumes "pq_indexed pq" and "i < length (pq_q pq)"
  shows "pq_indexed (pq_fill pq i)"
proof -
  let ?q = "pq_q pq"
  have last: "last ?q = ?q ! (length ?q - 1)" using assms(2) by (intro last_conv_nth) auto
  have eq: "?q ! a = ?q ! b \<longleftrightarrow> a = b" if "a < length ?q" "b < length ?q" for a b
    using assms(1) that by (simp add: pq_indexed_def nth_eq_iff_index_eq)
  have "distinct (butlast (?q[i := last ?q]))"
    unfolding distinct_conv_nth using assms(2) by (auto simp: nth_fill split: if_splits) (auto simp: last eq)
  moreover have "pq_index (pq_fill pq i) (butlast (?q[i := last ?q]) ! l) = l" if "l < length ?q - 1" for l
    using that assms(2) assms(1) by (simp add: nth_fill pq_fill_def) (auto simp: last eq pq_indexed_def)
  ultimately show ?thesis by (simp add: pq_indexed_def pq_fill_def)
qed

context strict_weak_order
begin

lemma push_add:
  assumes "pq_inv lt pq" and "item \<notin> set (pq_q pq)" and "length (pq_q pq) < cap"
  defines "pq1 \<equiv> pq\<lparr>pq_capacity := cap, pq_q := pq_q pq @ [item], pq_index := (pq_index pq)(item := length (pq_q pq))\<rparr>"
  shows "pq_inv lt (bubble_up lt pq1 (length (pq_q pq)))"
    and "pq_elems (bubble_up lt pq1 (length (pq_q pq))) = add_mset item (pq_elems pq)"
proof -
  let ?n = "length (pq_q pq)"
  have idx: "pq_indexed pq1" using assms(1,2) by (auto simp: pq_inv_def pq_indexed_def pq1_def nth_append less_Suc_eq dest: nth_mem)
  have "\<not> lt (pq_q pq1 ! i) (pq_q pq1 ! par i)" if "0 < i" "i < ?n" for i
    using assms(1) that par_less [of i] by (auto simp: pq_inv_def heap_from_def pq1_def nth_append)
  moreover have "\<not> (k < i \<and> i < Suc k)" for i k :: nat by simp
  ultimately have "hole_up lt (pq_q pq1) ?n" by (auto simp: hole_up_def pq1_def less_Suc_eq)
  then have "heap_from lt 0 (pq_q (bubble_up lt pq1 ?n))" by (intro bubble_up_heap) (simp add: pq1_def)
  moreover have "pq_same pq1 (bubble_up lt pq1 ?n)" by (intro bubble_up_same) (simp add: pq1_def)
  ultimately show "pq_inv lt (bubble_up lt pq1 ?n)" "pq_elems (bubble_up lt pq1 ?n) = add_mset item (pq_elems pq)"
    using pq_inv_same [of pq1] idx assms(3) by (auto simp: pq1_def pq_elems_def)
qed

lemma push_ok:
  assumes "pq_inv lt pq" and "item \<notin> set (pq_q pq)" and "ngtcp2_pq_push lt pq item mem = (pq', mem', rv)"
  shows "rv = None \<and> pq_inv lt pq' \<and> pq_elems pq' = add_mset item (pq_elems pq) \<or>
    rv = Some NGTCP2_ERR_NOMEM \<and> pq' = pq \<and> False \<in> set mem"
proof (cases "pq_capacity pq \<le> length (pq_q pq)")
  case True
  have "length (pq_q pq) < max 4 (pq_capacity pq * 2)" using assms(1) True by (auto simp: pq_inv_def)
  from push_add [OF assms(1,2) this] True assms(3) show ?thesis
    by (cases mem) (auto simp: ngtcp2_pq_push_def ngtcp2_mem_realloc_def Let_def split: if_splits)
next
  case False
  have "pq\<lparr>pq_capacity := pq_capacity pq\<rparr> = pq" by simp
  with push_add [OF assms(1,2), of "pq_capacity pq"] False assms(3) show ?thesis
    by (auto simp: ngtcp2_pq_push_def Let_def)
qed

lemma fill_heap:
  assumes "pq_inv lt pq" and i: "i < length (pq_q pq) - 1"
  shows "i = 0 \<or> lt (pq_q pq ! i) (last (pq_q pq)) \<Longrightarrow> hole_down lt 0 (pq_q (pq_fill pq i)) i"
    and "\<not> lt (pq_q pq ! i) (last (pq_q pq)) \<Longrightarrow> hole_up lt (pq_q (pq_fill pq i)) i"
proof -
  let ?q = "pq_q pq" and ?b = "last (pq_q pq)"
  have edge: "\<not> lt (?q ! j) (?q ! par j)" if "0 < j" "j < length ?q" for j
    using assms(1) that by (auto simp: pq_inv_def heap_from_def)
  have nth: "pq_q (pq_fill pq i) ! l = (if l = i then ?b else ?q ! l)" if "l < length ?q - 1" for l
    using that i by (simp add: pq_fill_def nth_fill)
  have len: "length (pq_q (pq_fill pq i)) = length ?q - 1" by (simp add: pq_fill_def)
  have two: "\<not> lt (?q ! j) (?q ! par i)" if "0 < j" "j < length ?q" "par j = i" "0 < i" for j
    using negtrans [of "?q ! j" "?q ! i" "?q ! par i"] edge [of j] edge [of i] that i by auto
  show "hole_down lt 0 (pq_q (pq_fill pq i)) i" if *: "i = 0 \<or> lt (?q ! i) ?b"
    unfolding hole_down_def len
  proof (intro conjI allI impI)
    fix j
    assume j: "0 < j \<and> j < length ?q - 1 \<and> 0 \<le> par j \<and> par j \<noteq> i"
    then have "par j < length ?q - 1" "j < length ?q" using par_less [of j] by auto
    then show "\<not> lt (pq_q (pq_fill pq i) ! j) (pq_q (pq_fill pq i) ! par j)"
      using j edge [of j] * asym [of "?q ! i" ?b] negtrans [of ?b "?q ! i" "?q ! par i"] by (auto simp: nth)
  next
    fix j
    assume j: "0 < i \<and> i < j \<and> j < length ?q - 1 \<and> par j = i \<and> 0 \<le> par i"
    then have "par i < i" "j < length ?q" using par_less by auto
    with j show "\<not> lt (pq_q (pq_fill pq i) ! j) (pq_q (pq_fill pq i) ! par i)" using two [of j] i by (auto simp: nth)
  qed
  show "hole_up lt (pq_q (pq_fill pq i)) i" if *: "\<not> lt (?q ! i) ?b"
    unfolding hole_up_def len
  proof (intro conjI allI impI)
    fix j
    assume j: "0 < j \<and> j < length ?q - 1 \<and> j \<noteq> i"
    then have "par j < length ?q - 1" "j < length ?q" using par_less [of j] by auto
    then show "\<not> lt (pq_q (pq_fill pq i) ! j) (pq_q (pq_fill pq i) ! par j)"
      using j edge [of j] * negtrans [of "?q ! j" "?q ! i" ?b] by (auto simp: nth)
  next
    fix j
    assume j: "0 < i \<and> i < j \<and> j < length ?q - 1 \<and> par j = i"
    then have "par i < i" "j < length ?q" using par_less by auto
    with j show "\<not> lt (pq_q (pq_fill pq i) ! j) (pq_q (pq_fill pq i) ! par i)" using two [of j] i by (auto simp: nth)
  qed
qed

lemma pop_ok:
  assumes "pq_inv lt pq" and ne: "pq_q pq \<noteq> []"
  shows "pq_inv lt (ngtcp2_pq_pop lt pq)" and "pq_elems (ngtcp2_pq_pop lt pq) = pq_elems pq - {#pq_q pq ! 0#}"
proof -
  have pop: "ngtcp2_pq_pop lt pq = bubble_down lt (pq_fill pq 0) 0" using ne by (simp add: ngtcp2_pq_pop_def pq_fill_def Let_def)
  have hole: "hole_down lt 0 (pq_q (pq_fill pq 0)) 0"
  proof (cases "0 < length (pq_q pq) - 1")
    case True
    then show ?thesis using fill_heap(1) [OF assms(1), of 0] by simp
  next
    case False
    then have "length (pq_q pq) = 1" using ne by (cases "pq_q pq") auto
    then show ?thesis by (simp add: hole_down_def pq_fill_def)
  qed
  have same: "pq_same (pq_fill pq 0) (bubble_down lt (pq_fill pq 0) 0)"
    using ne by (intro bubble_down_same) (auto simp: pq_fill_def length_greater_0_conv [symmetric] simp del: length_greater_0_conv)
  have idx: "pq_indexed (pq_fill pq 0)" using assms by (auto intro!: pq_fill_indexed simp: pq_inv_def)
  have len: "length (pq_q (pq_fill pq 0)) \<le> pq_capacity (pq_fill pq 0)" using assms(1) by (auto simp: pq_inv_def pq_fill_def)
  from pq_inv_same [OF same idx len bubble_down_heap [OF _ hole]]
  show "pq_inv lt (ngtcp2_pq_pop lt pq)" "pq_elems (ngtcp2_pq_pop lt pq) = pq_elems pq - {#pq_q pq ! 0#}"
    using mset_fill [of 0 "pq_q pq"] ne by (simp_all add: pop pq_elems_def) (simp add: pq_fill_def)
qed

lemma remove_ok:
  assumes inv: "pq_inv lt pq" and "item \<in> set (pq_q pq)"
  shows "\<exists>pq'. ngtcp2_pq_remove lt pq item = Ok pq' \<and> pq_inv lt pq' \<and> pq_elems pq' = pq_elems pq - {#item#}"
proof -
  obtain i where i: "i < length (pq_q pq)" "pq_q pq ! i = item" using assms(2) by (auto simp: in_set_conv_nth)
  have index: "pq_index pq item = i" using inv i by (auto simp: pq_inv_def pq_indexed_def)
  consider "i = 0" | "0 < i" "i = length (pq_q pq) - 1" | "0 < i" "i < length (pq_q pq) - 1" using i(1) by linarith
  then show ?thesis
  proof cases
    case 1
    have "pq_q pq \<noteq> []" using i by auto
    with pop_ok [OF inv this] 1 i index show ?thesis by (simp add: ngtcp2_pq_remove_def)
  next
    case 2
    let ?pq = "pq\<lparr>pq_q := butlast (pq_q pq)\<rparr>"
    have "pq_q pq \<noteq> []" using i by auto
    then have l: "last (pq_q pq) = item" using 2 i by (simp add: last_conv_nth)
    have elems: "pq_elems ?pq = pq_elems pq - {#item#}"
      using arg_cong [OF append_butlast_last_id [OF \<open>pq_q pq \<noteq> []\<close>], of mset] l by (simp add: pq_elems_def) (metis add_mset_remove_trivial)
    have "par j < length (pq_q pq) - Suc 0" if "0 < j" "j < length (pq_q pq) - Suc 0" for j using that par_less [of j] by simp
    then have "pq_inv lt ?pq" using inv by (auto simp: pq_inv_def pq_indexed_def heap_from_def nth_butlast distinct_butlast)
    then show ?thesis using elems 2 i index by (simp add: ngtcp2_pq_remove_def)
  next
    case 3
    let ?f = "pq_fill pq i" and ?down = "lt item (last (pq_q pq))"
    have len: "i < length (pq_q ?f)" using 3 by (simp add: pq_fill_def)
    have eq: "ngtcp2_pq_remove lt pq item = Ok (if ?down then bubble_down lt ?f i else bubble_up lt ?f i)"
      using 3 i index by (simp add: ngtcp2_pq_remove_def pq_fill_def Let_def)
    have heap: "heap_from lt 0 (pq_q (if ?down then bubble_down lt ?f i else bubble_up lt ?f i))"
      using fill_heap [OF inv 3(2)] i len by (auto intro: bubble_down_heap bubble_up_heap)
    have same: "pq_same ?f (if ?down then bubble_down lt ?f i else bubble_up lt ?f i)"
      using len by (auto intro: bubble_down_same bubble_up_same)
    have idx: "pq_indexed ?f" using inv i by (auto intro!: pq_fill_indexed simp: pq_inv_def)
    have cap: "length (pq_q ?f) \<le> pq_capacity ?f" using inv by (auto simp: pq_inv_def pq_fill_def)
    have "pq_elems ?f = pq_elems pq - {#item#}" using mset_fill [OF i(1)] i(2) by (simp add: pq_elems_def pq_fill_def)
    with pq_inv_same [OF same idx cap heap] eq show ?thesis by auto
  qed
qed

lemma bubble_down_all_ok:
  "n \<le> length (pq_q pq) \<Longrightarrow> heap_from lt n (pq_q pq) \<Longrightarrow>
    pq_same pq (bubble_down_all lt pq n) \<and> heap_from lt 0 (pq_q (bubble_down_all lt pq n))"
proof (induction n arbitrary: pq)
  case (Suc n)
  have same: "pq_same pq (bubble_down lt pq n)" using Suc.prems by (intro bubble_down_same) auto
  have "hole_down lt n (pq_q pq) n"
    using Suc.prems(2) par_less [of n] by (auto simp: hole_down_def heap_from_def)
  then have "heap_from lt n (pq_q (bubble_down lt pq n))" by (intro bubble_down_heap) auto
  then show ?case using Suc.IH [of "bubble_down lt pq n"] Suc.prems(1) pq_same_length [OF same] pq_same_trans [OF same] by simp
qed simp

end

section \<open>The contract of a priority queue\<close>

text \<open>Taking up to \<open>n\<close> entries from the front.\<close>

fun drain :: "('q \<Rightarrow> 'e option) \<Rightarrow> ('q \<Rightarrow> 'q) \<Rightarrow> nat \<Rightarrow> 'q \<Rightarrow> 'e list" where
  "drain front pop 0 q = []"
| "drain front pop (Suc n) q = (case front q of None \<Rightarrow> [] | Some x \<Rightarrow> x # drain front pop n (pop q))"

locale priority_queue = strict_weak_order lt for lt :: "'e \<Rightarrow> 'e \<Rightarrow> bool" +
  fixes inv :: "'q \<Rightarrow> bool"
    and elems :: "'q \<Rightarrow> 'e multiset"
    and front :: "'q \<Rightarrow> 'e option"
    and pop :: "'q \<Rightarrow> 'q"
  assumes front_None: "inv q \<Longrightarrow> front q = None \<longleftrightarrow> elems q = {#}"
    and front_least: "inv q \<Longrightarrow> front q = Some x \<Longrightarrow> x \<in># elems q \<and> (\<forall>y \<in># elems q. \<not> lt y x)"
    and pop: "inv q \<Longrightarrow> front q = Some x \<Longrightarrow> inv (pop q) \<and> elems (pop q) = elems q - {#x#}"
begin

lemma drain_all:
  assumes "inv q" and "size (elems q) \<le> n"
  shows "mset (drain front pop n q) = elems q \<and> sorted_wrt (\<lambda>a b. \<not> lt b a) (drain front pop n q)"
  using assms
proof (induction n arbitrary: q)
  case (Suc n)
  show ?case
  proof (cases "front q")
    case None
    then have "elems q = {#}" using Suc.prems(1) front_None by simp
    then show ?thesis by (simp add: None)
  next
    case (Some x)
    note x = front_least [OF Suc.prems(1) Some] and rest = pop [OF Suc.prems(1) Some]
    have "size (elems (pop q)) \<le> n" using Suc.prems(2) x rest by (simp add: size_Diff_singleton)
    then have IH: "mset (drain front pop n (pop q)) = elems q - {#x#}" "sorted_wrt (\<lambda>a b. \<not> lt b a) (drain front pop n (pop q))"
      using Suc.IH [of "pop q"] rest by auto
    have "\<not> lt y x" if "y \<in> set (drain front pop n (pop q))" for y
      using that IH(1) x by (metis in_diffD set_mset_mset)
    then show ?thesis using IH x Some by simp
  qed
qed simp

end

sublocale strict_weak_order \<subseteq> heap: priority_queue lt "pq_inv lt" pq_elems ngtcp2_pq_top "ngtcp2_pq_pop lt"
proof
  fix q :: "'e ngtcp2_pq" and x
  assume inv: "pq_inv lt q"
  show "ngtcp2_pq_top q = None \<longleftrightarrow> pq_elems q = {#}" by (simp add: ngtcp2_pq_top_def pq_elems_def)
  assume top: "ngtcp2_pq_top q = Some x"
  then have ne: "pq_q q \<noteq> []" "x = pq_q q ! 0" by (auto simp: ngtcp2_pq_top_def split: if_splits)
  have "\<not> lt y x" if "y \<in> set (pq_q q)" for y
    using that inv ne heap_least [of "pq_q q"] by (auto simp: pq_inv_def in_set_conv_nth)
  then show "x \<in># pq_elems q \<and> (\<forall>y \<in># pq_elems q. \<not> lt y x)" using ne by (auto simp: pq_elems_def)
  show "pq_inv lt (ngtcp2_pq_pop lt q) \<and> pq_elems (ngtcp2_pq_pop lt q) = pq_elems q - {#x#}"
    using pop_ok [OF inv ne(1)] ne(2) by simp
qed

context strict_weak_order
begin

lemma drain_ok:
  "pq_inv lt pq \<Longrightarrow> mset (drain ngtcp2_pq_top (ngtcp2_pq_pop lt) (ngtcp2_pq_size pq) pq) = pq_elems pq \<and>
    sorted_wrt (\<lambda>a b. \<not> lt b a) (drain ngtcp2_pq_top (ngtcp2_pq_pop lt) (ngtcp2_pq_size pq) pq)"
  by (rule heap.drain_all) (simp_all add: ngtcp2_pq_size_def pq_elems_def)

end

lemma nat_order: "strict_weak_order ((<) :: nat \<Rightarrow> nat \<Rightarrow> bool)"
  by unfold_locales auto

section \<open>Properties\<close>

text \<open>
  C21. Refinement of the multiset of entries: with a comparison that is a strict weak order, pushing a new
  entry adds it, or changes nothing and reports NGTCP2\_ERR\_NOMEM after a failed allocation; removing
  an entry of the queue never trips the assertion on its index and removes exactly it; the order of
  the heap and the indices of the entries are kept. Taking entries from the front until the queue
  is empty yields all of them, none after a greater one.
\<close>

theorem pq_refines:
  assumes "strict_weak_order lt" and "pq_inv lt pq"
  shows "(item \<notin># pq_elems pq \<longrightarrow> (case ngtcp2_pq_push lt pq item mem of (pq', mem', rv) \<Rightarrow>
        rv = None \<and> pq_inv lt pq' \<and> pq_elems pq' = add_mset item (pq_elems pq) \<or>
        rv = Some NGTCP2_ERR_NOMEM \<and> pq' = pq \<and> False \<in> set mem)) \<and>
    (item \<in># pq_elems pq \<longrightarrow> (\<exists>pq'. ngtcp2_pq_remove lt pq item = Ok pq' \<and> pq_inv lt pq' \<and> pq_elems pq' = pq_elems pq - {#item#})) \<and>
    (let out = drain ngtcp2_pq_top (ngtcp2_pq_pop lt) (ngtcp2_pq_size pq) pq in
       mset out = pq_elems pq \<and> sorted_wrt (\<lambda>a b. \<not> lt b a) out)"
  using strict_weak_order.push_ok [OF assms, of item mem] strict_weak_order.remove_ok [OF assms, of item]
    strict_weak_order.drain_ok [OF assms]
  by (auto simp: pq_elems_def Let_def split: prod.splits)

theorem pq_refines_witness:
  "let pq = \<lparr>pq_q = [2, 5, 3::nat], pq_index = (\<lambda>e. if e = 5 then 1 else if e = 3 then 2 else 0), pq_capacity = 4\<rparr> in
     pq_inv (<) pq \<and> (\<exists>pq'. ngtcp2_pq_remove (<) pq 5 = Ok pq' \<and> pq_elems pq' = {#2, 3#})"
proof -
  let ?pq = "\<lparr>pq_q = [2, 5, 3::nat], pq_index = (\<lambda>e. if e = 5 then 1 else if e = 3 then 2 else 0), pq_capacity = 4\<rparr>"
  have "pq_inv (<) ?pq"
    by (auto simp: pq_inv_def pq_indexed_def heap_from_def par_def less_Suc_eq numeral_3_eq_3)
  with pq_refines [OF nat_order, of ?pq 5 "[]"] show ?thesis by (auto simp: pq_elems_def)
qed

text \<open>
  Re-establishing the order after the keys changed: whatever the callback did to the state that
  the comparison depends on, if it reports a change, then after \<open>ngtcp2_pq_update\<close> the queue holds
  the same entries and is ordered for the new state.
\<close>

theorem pq_update_reorders:
  assumes "\<And>s. strict_weak_order (lt s)" and "pq_indexed pq" and "length (pq_q pq) \<le> pq_capacity pq"
    and "pq_call f (pq_q pq) s False = (s', True)"
  shows "\<exists>pq'. ngtcp2_pq_update lt f pq s = (pq', s') \<and> pq_inv (lt s') pq' \<and> pq_elems pq' = pq_elems pq"
proof -
  let ?b = "bubble_down_all (lt s') pq (length (pq_q pq))"
  have "pq_q pq \<noteq> []" using assms(4) by auto
  then have eq: "ngtcp2_pq_update lt f pq s = (?b, s')" using assms(4) by (simp add: ngtcp2_pq_update_def)
  have "heap_from (lt s') (length (pq_q pq)) (pq_q pq)"
    unfolding heap_from_def using par_less by (meson leD less_trans)
  from strict_weak_order.bubble_down_all_ok [OF assms(1) order_refl this]
  have "pq_inv (lt s') ?b" "pq_elems ?b = pq_elems pq"
    using pq_inv_same [OF _ assms(2,3), of ?b "lt s'"] by simp_all
  with eq show ?thesis by simp
qed

theorem pq_update_reorders_witness:
  "\<exists>pq'. ngtcp2_pq_update (\<lambda>s a b. (s a :: nat) < s b) (\<lambda>e s. (s(e := 10 - s e), True))
      \<lparr>pq_q = [7, 8::nat], pq_index = (\<lambda>e. e - 7), pq_capacity = 4\<rparr> (\<lambda>e. e) = (pq', (\<lambda>e. e)(7 := 3, 8 := 2)) \<and>
     pq_elems pq' = {#7, 8#}"
proof -
  let ?pq = "\<lparr>pq_q = [7, 8::nat], pq_index = (\<lambda>e. e - 7), pq_capacity = 4\<rparr>"
  have order: "strict_weak_order (\<lambda>a b. (s a :: nat) < s b)" for s :: "nat \<Rightarrow> nat" by unfold_locales auto
  have call: "pq_call (\<lambda>e s. (s(e := 10 - s e), True)) (pq_q ?pq) (\<lambda>e. e) False = ((\<lambda>e. e)(7 := 3, 8 := 2), True)"
    by (simp add: fun_eq_iff)
  have "pq_indexed ?pq" "length (pq_q ?pq) \<le> pq_capacity ?pq" by (simp_all add: pq_indexed_def less_Suc_eq)
  from pq_update_reorders [where lt = "\<lambda>s a b. (s a :: nat) < s b", OF order this call] show ?thesis by (auto simp: pq_elems_def)
qed

end
