(* ===== verification/Ringbuf.thy ===== *)
theory Ringbuf
  imports Ranges
begin

text \<open>
  \<^verbatim>\<open>lib/ngtcp2_ringbuf.c\<close>: a buffer of fixed capacity that keeps the most recent elements. One
  element, \<open>size\<close> bytes of the C buffer, is one slot of the list \<open>rb_buf\<close>; a slot is \<open>None\<close> until
  something is stored to it. A pointer to an element is the number of its slot, and the store of
  the caller through it is \<open>ringbuf_store\<close>.
\<close>

section \<open>Operations\<close>

record 'a ngtcp2_ringbuf =
  rb_buf :: "'a option list"
  rb_nmemb :: u64
  rb_size :: u64
  rb_first :: u64
  rb_len :: u64

definition popcount32 :: "u32 \<Rightarrow> nat" where
  "popcount32 w = length (filter (bit w) [0..<32])"

definition ngtcp2_ringbuf_init :: "u64 \<Rightarrow> u64 \<Rightarrow> ngtcp2_mem \<Rightarrow> 'a ngtcp2_ringbuf result \<times> ngtcp2_mem" where
  "ngtcp2_ringbuf_init nmemb elsize mem =
     (if popcount32 (ucast nmemb) \<noteq> 1 then (Fault, mem)
      else let (ok, mem') = ngtcp2_mem_malloc mem in
        (ret_if (\<not> ok) NGTCP2_ERR_NOMEM
           (Ok \<lparr>rb_buf = replicate (unat nmemb) None, rb_nmemb = nmemb, rb_size = elsize, rb_first = elsize - 1, rb_len = 0\<rparr>), mem'))"

definition ngtcp2_ringbuf_push_front :: "'a ngtcp2_ringbuf \<Rightarrow> 'a ngtcp2_ringbuf \<times> nat" where
  "ngtcp2_ringbuf_push_front rb =
     (let first = (rb_first rb - 1) AND (rb_nmemb rb - 1) in
      (rb\<lparr>rb_first := first, rb_len := ngtcp2_min (rb_nmemb rb) (rb_len rb + 1)\<rparr>, unat first))"

definition ringbuf_store :: "'a ngtcp2_ringbuf \<Rightarrow> nat \<Rightarrow> 'a \<Rightarrow> 'a ngtcp2_ringbuf result" where
  "ringbuf_store rb p x = c_assert (p < length (rb_buf rb)) (Ok (rb\<lparr>rb_buf := (rb_buf rb)[p := Some x]\<rparr>))"

definition ngtcp2_ringbuf_resize :: "'a ngtcp2_ringbuf \<Rightarrow> u64 \<Rightarrow> 'a ngtcp2_ringbuf result" where
  "ngtcp2_ringbuf_resize rb len = c_assert (len \<le> rb_nmemb rb) (Ok (rb\<lparr>rb_len := len\<rparr>))"

text \<open>The slot of an element, and the element a client reads from it.\<close>

definition ngtcp2_ringbuf_get :: "'a ngtcp2_ringbuf \<Rightarrow> u64 \<Rightarrow> nat result" where
  "ngtcp2_ringbuf_get rb offset =
     c_assert (offset < rb_len rb) (Ok (unat ((rb_first rb + offset) AND (rb_nmemb rb - 1))))"

definition ringbuf_load :: "'a ngtcp2_ringbuf \<Rightarrow> nat \<Rightarrow> 'a result" where
  "ringbuf_load rb p =
     c_assert (p < length (rb_buf rb)) (case rb_buf rb ! p of None \<Rightarrow> Fault | Some x \<Rightarrow> Ok x)"

definition ngtcp2_ringbuf_len :: "'a ngtcp2_ringbuf \<Rightarrow> u64" where
  "ngtcp2_ringbuf_len rb = rb_len rb"

section \<open>Invariant and contents\<close>

text \<open>The contents, first element first.\<close>

definition rb_slot :: "'a ngtcp2_ringbuf \<Rightarrow> nat \<Rightarrow> nat" where
  "rb_slot rb i = (unat (rb_first rb) + i) mod unat (rb_nmemb rb)"

definition rb_contents :: "'a ngtcp2_ringbuf \<Rightarrow> 'a list" where
  "rb_contents rb = map (\<lambda>i. the (rb_buf rb ! rb_slot rb i)) [0..<unat (rb_len rb)]"

definition ringbuf_inv :: "'a ngtcp2_ringbuf \<Rightarrow> bool" where
  "ringbuf_inv rb \<longleftrightarrow> (\<exists>k < 32. rb_nmemb rb = 2 ^ k) \<and> length (rb_buf rb) = unat (rb_nmemb rb) \<and> rb_len rb \<le> rb_nmemb rb \<and>
     (\<forall>i < unat (rb_len rb). rb_buf rb ! rb_slot rb i \<noteq> None)"

lemma ringbuf_inv_pow:
  assumes "ringbuf_inv rb"
  obtains k where "k < 32" "unat (rb_nmemb rb) = 2 ^ k" "rb_nmemb rb - 1 = mask k"
proof -
  obtain k where k: "k < 32" "rb_nmemb rb = 2 ^ k" using assms by (auto simp: ringbuf_inv_def)
  then have "(2::nat) ^ k < 2 ^ 64" by (intro power_strict_increasing) auto
  with k show ?thesis by (intro that [of k]) (simp_all add: mask_eq_decr_exp unat_of_nat_small [of "2 ^ k" , where 'a=64, simplified])
qed

lemma slot_of_word:
  assumes "ringbuf_inv rb"
  shows "unat ((rb_first rb + of_nat i) AND (rb_nmemb rb - 1)) = rb_slot rb i"
    and "unat ((rb_first rb - 1) AND (rb_nmemb rb - 1)) = (unat (rb_first rb) + (unat (rb_nmemb rb) - 1)) mod unat (rb_nmemb rb)"
    and "rb_slot rb i < unat (rb_nmemb rb)"
proof -
  from assms obtain k where k: "k < 32" "unat (rb_nmemb rb) = 2 ^ k" "rb_nmemb rb - 1 = mask k" by (rule ringbuf_inv_pow)
  have low: "unat (w AND mask k) = unat w mod 2 ^ k" for w :: u64
    using unsigned_take_bit_eq [of k w] take_bit_eq_mask [of k w] take_bit_eq_mod [of k "unat w"] by metis
  have red: "(n mod 2 ^ 64) mod 2 ^ k = n mod 2 ^ k" for n :: nat
    by (rule mod_mod_cancel, rule le_imp_power_dvd) (use k(1) in simp)
  have "unat (rb_first rb + of_nat i) = (unat (rb_first rb) + i) mod 2 ^ 64"
    by (simp add: unat_word_ariths unsigned_of_nat take_bit_eq_mod mod_simps)
  then show "unat ((rb_first rb + of_nat i) AND (rb_nmemb rb - 1)) = rb_slot rb i"
    by (simp only: k low red rb_slot_def)
  have "unat (rb_first rb - 1) = (unat (rb_first rb) + (2 ^ 64 - 1)) mod 2 ^ 64"
    using unat_word_ariths(1) [of "rb_first rb" "- 1"] by (simp add: unsigned_minus_1_eq_mask mask_eq_exp_minus_1)
  moreover have "(2 ^ 64 - 1) mod 2 ^ k = (2 ^ k - 1 :: nat)"
    using k(1) mask_mod_exp [of 64 k, where 'a=nat] by (simp add: min_def)
  ultimately show "unat ((rb_first rb - 1) AND (rb_nmemb rb - 1)) = (unat (rb_first rb) + (unat (rb_nmemb rb) - 1)) mod unat (rb_nmemb rb)"
    by (simp only: k low red) (metis mod_add_right_eq)
  show "rb_slot rb i < unat (rb_nmemb rb)" by (simp add: rb_slot_def k)
qed

text \<open>Storing to the element that a push returned puts it in front and drops what exceeds the capacity.\<close>

definition ringbuf_push :: "'a \<Rightarrow> 'a ngtcp2_ringbuf \<Rightarrow> 'a ngtcp2_ringbuf result" where
  "ringbuf_push x rb = (let (rb', p) = ngtcp2_ringbuf_push_front rb in ringbuf_store rb' p x)"

lemma slot_inj:
  assumes "(a + i) mod n = (a + j) mod n" and "i < n" and "j < (n::nat)"
  shows "i = j"
proof (rule ccontr)
  assume "i \<noteq> j"
  then have "min i j < max i j" by auto
  moreover have "(a + max i j) mod n = (a + min i j) mod n" using assms(1) by (auto simp: max_def min_def)
  ultimately have "n dvd max i j - min i j" by (simp add: mod_eq_dvd_iff_nat)
  then show False using \<open>min i j < max i j\<close> assms(2,3) by (auto dest!: dvd_imp_le)
qed

lemma rb_len_unat:
  assumes "ringbuf_inv rb"
  shows "unat (ngtcp2_min (rb_nmemb rb) (rb_len rb + 1)) = min (unat (rb_nmemb rb)) (Suc (unat (rb_len rb)))"
proof -
  from assms obtain k where k: "k < 32" "unat (rb_nmemb rb) = 2 ^ k" by (rule ringbuf_inv_pow)
  have "(2::nat) ^ k < 2 ^ 32" using k(1) by (intro power_strict_increasing) auto
  moreover have "unat (rb_len rb) \<le> 2 ^ k" using assms k(2) by (simp add: ringbuf_inv_def word_le_nat_alt)
  ultimately have "unat (rb_len rb + 1) = Suc (unat (rb_len rb))" using unat_add_small [of "rb_len rb" 1] by simp
  then show ?thesis by (simp add: ngtcp2_min_def word_less_nat_alt min_def)
qed

lemma ringbuf_push_ok:
  assumes inv: "ringbuf_inv rb"
  obtains rb' where "ringbuf_push x rb = Ok rb'" "ringbuf_inv rb'" "rb_nmemb rb' = rb_nmemb rb"
    "rb_contents rb' = take (unat (rb_nmemb rb)) (x # rb_contents rb)"
proof -
  define n where "n = unat (rb_nmemb rb)"
  define f where "f = (rb_first rb - 1) AND (rb_nmemb rb - 1)"
  define len where "len = ngtcp2_min (rb_nmemb rb) (rb_len rb + 1)"
  define rb' where "rb' = rb\<lparr>rb_first := f, rb_len := len, rb_buf := (rb_buf rb)[unat f := Some x]\<rparr>"
  obtain k where "n = 2 ^ k" using ringbuf_inv_pow [OF inv] unfolding n_def by metis
  then have n: "0 < n" by simp
  have f: "unat f = (unat (rb_first rb) + (n - 1)) mod n" unfolding f_def n_def by (rule slot_of_word(2) [OF inv])
  have len: "unat len = min n (Suc (unat (rb_len rb)))" unfolding len_def n_def by (rule rb_len_unat [OF inv])
  have fn: "unat f < n" using f n by simp
  have slot0: "rb_slot rb' 0 = unat f" using fn by (simp add: rb_slot_def rb'_def n_def)
  have slotS: "rb_slot rb' (Suc i) = rb_slot rb i" for i
  proof -
    have "(unat f + Suc i) mod n = (unat (rb_first rb) + (n - 1) + Suc i) mod n" unfolding f by (rule mod_add_left_eq)
    also have "unat (rb_first rb) + (n - 1) + Suc i = unat (rb_first rb) + i + n" using n by simp
    finally show ?thesis by (simp add: rb_slot_def rb'_def n_def)
  qed
  have other: "rb_buf rb' ! rb_slot rb i = rb_buf rb ! rb_slot rb i" if "Suc i < n" for i
  proof -
    have "rb_slot rb' (Suc i) \<noteq> rb_slot rb' 0"
      using that slot_inj [of "unat (rb_first rb')" "Suc i" n 0] n by (auto simp: rb_slot_def rb'_def n_def)
    then have "rb_slot rb i \<noteq> unat f" unfolding slotS slot0 .
    then show ?thesis by (simp add: rb'_def)
  qed
  have buf: "length (rb_buf rb) = n" using inv by (simp add: ringbuf_inv_def n_def)
  have push: "ringbuf_push x rb = Ok rb'"
    using buf fn by (simp add: ringbuf_push_def ngtcp2_ringbuf_push_front_def ringbuf_store_def rb'_def f_def len_def Let_def)
  have head: "rb_buf rb' ! rb_slot rb' 0 = Some x" unfolding slot0 using fn buf by (simp add: rb'_def)
  have lt: "unat (rb_len rb') = min n (Suc (unat (rb_len rb)))" by (simp add: rb'_def len)
  have ne: "rb_buf rb' ! rb_slot rb' i \<noteq> None" if "i < unat (rb_len rb')" for i
    using that inv head by (cases i) (auto simp: lt slotS other ringbuf_inv_def)
  have "rb_len rb' \<le> rb_nmemb rb'" unfolding word_le_nat_alt lt by (simp add: rb'_def n_def)
  then have inv': "ringbuf_inv rb'" using inv ne by (simp add: ringbuf_inv_def rb'_def)
  obtain m where m: "n = Suc m" using n by (cases n) auto
  have "rb_contents rb' = take n (x # rb_contents rb)"
  proof (rule nth_equalityI)
    fix i
    assume "i < length (rb_contents rb')"
    then show "rb_contents rb' ! i = take n (x # rb_contents rb) ! i"
      by (cases i) (auto simp: rb_contents_def lt head slotS other m simp del: upt_Suc)
  qed (simp add: rb_contents_def lt)
  then show ?thesis using that push inv' by (simp add: rb'_def n_def)
qed

lemma ringbuf_get_ok:
  assumes "ringbuf_inv rb" and "i < unat (rb_len rb)"
  shows "rbind (ngtcp2_ringbuf_get rb (of_nat i)) (ringbuf_load rb) = Ok (rb_contents rb ! i)"
proof -
  have i: "unat (of_nat i :: u64) = i"
    using assms(2) unat_u64_less [of "rb_len rb"] by (intro unat_of_nat_small) (simp del: unat_u64_less)
  have buf: "rb_slot rb i < length (rb_buf rb)" "rb_buf rb ! rb_slot rb i \<noteq> None"
    using assms slot_of_word(3) [of rb i] by (auto simp: ringbuf_inv_def)
  then obtain x where "rb_buf rb ! rb_slot rb i = Some x" by blast
  with buf(1) assms i show ?thesis
    by (simp add: ngtcp2_ringbuf_get_def ringbuf_load_def slot_of_word(1) word_less_nat_alt rb_contents_def)
qed

lemma ringbuf_resize_ok:
  assumes "ringbuf_inv rb" and "len \<le> rb_len rb"
  shows "\<exists>rb'. ngtcp2_ringbuf_resize rb len = Ok rb' \<and> ringbuf_inv rb' \<and> rb_contents rb' = take (unat len) (rb_contents rb)"
proof -
  have "len \<le> rb_nmemb rb" using assms by (auto simp: ringbuf_inv_def)
  moreover have "ringbuf_inv (rb\<lparr>rb_len := len\<rparr>)"
    using assms calculation by (auto simp: ringbuf_inv_def rb_slot_def word_le_nat_alt)
  moreover have "rb_contents (rb\<lparr>rb_len := len\<rparr>) = take (unat len) (rb_contents rb)"
    using assms by (auto simp: rb_contents_def rb_slot_def take_map word_le_nat_alt min_def)
  ultimately show ?thesis by (simp add: ngtcp2_ringbuf_resize_def)
qed

lemma popcount_pow2:
  assumes "k < 32"
  shows "popcount32 (ucast ((2::u64) ^ k)) = 1"
proof -
  have "bit (ucast ((2::u64) ^ k) :: u32) i \<longleftrightarrow> i = k" if "i < 32" for i
    using that assms by (auto simp: bit_ucast_iff bit_exp_iff)
  then have "filter (bit (ucast ((2::u64) ^ k) :: u32)) [0..<32] = filter (\<lambda>i. k = i) [0..<32]"
    by (intro filter_cong) auto
  also have "length \<dots> = card {i \<in> set [0..<32]. k = i}"
    by (simp add: distinct_length_filter Int_def conj_commute eq_commute [of k])
  also have "{i \<in> set [0..<32]. k = i} = {k}" using assms by auto
  finally show ?thesis by (simp add: popcount32_def)
qed

section \<open>The contract of a buffer of recent elements\<close>

text \<open>Pushing a sequence of elements, in order.\<close>

fun pushes :: "('a \<Rightarrow> 'b \<Rightarrow> 'b result) \<Rightarrow> 'a list \<Rightarrow> 'b \<Rightarrow> 'b result" where
  "pushes push [] b = Ok b"
| "pushes push (x # xs) b = rbind (push x b) (pushes push xs)"

locale recent_buffer =
  fixes inv :: "'b \<Rightarrow> bool"
    and contents :: "'b \<Rightarrow> 'a list"
    and cap :: "'b \<Rightarrow> nat"
    and push :: "'a \<Rightarrow> 'b \<Rightarrow> 'b result"
    and read :: "'b \<Rightarrow> nat \<Rightarrow> 'a result"
  assumes push: "inv b \<Longrightarrow> \<exists>b'. push x b = Ok b' \<and> inv b' \<and> cap b' = cap b \<and> contents b' = take (cap b) (x # contents b)"
    and read: "inv b \<Longrightarrow> i < length (contents b) \<Longrightarrow> read b i = Ok (contents b ! i)"
begin

lemma pushes_recent:
  "inv b \<Longrightarrow> \<exists>b'. pushes push xs b = Ok b' \<and> inv b' \<and> cap b' = cap b \<and> (xs \<noteq> [] \<longrightarrow> contents b' = take (cap b) (rev xs @ contents b))"
proof (induction xs arbitrary: b)
  case (Cons x xs)
  obtain b1 where b1: "push x b = Ok b1" "inv b1" "cap b1 = cap b" "contents b1 = take (cap b) (x # contents b)"
    using push [OF Cons.prems] by blast
  obtain b2 where b2: "pushes push xs b1 = Ok b2" "inv b2" "cap b2 = cap b1"
    "xs \<noteq> [] \<longrightarrow> contents b2 = take (cap b1) (rev xs @ contents b1)"
    using Cons.IH [OF b1(2)] by blast
  have "contents b2 = take (cap b) (rev (x # xs) @ contents b)"
  proof (cases "xs = []")
    case False
    then show ?thesis using b1 b2 by (simp add: take_append min_def)
  qed (use b1 b2 in simp)
  with b1 b2 show ?case by simp
qed simp

lemma read_back:
  assumes "inv b" and "i < length xs" and "i < cap b"
  shows "\<exists>b'. pushes push xs b = Ok b' \<and> read b' i = Ok (rev xs ! i)"
proof -
  obtain b' where b': "pushes push xs b = Ok b'" "inv b'" "contents b' = take (cap b) (rev xs @ contents b)"
    using pushes_recent [OF assms(1), of xs] assms(2) by (cases xs) auto
  moreover have "contents b' ! i = rev xs ! i" using assms b'(3) by (simp add: nth_append)
  ultimately show ?thesis using read [OF b'(2), of i] assms by simp
qed

end

definition ringbuf_read :: "'a ngtcp2_ringbuf \<Rightarrow> nat \<Rightarrow> 'a result" where
  "ringbuf_read rb i = rbind (ngtcp2_ringbuf_get rb (of_nat i)) (ringbuf_load rb)"

interpretation ringbuf: recent_buffer ringbuf_inv rb_contents "\<lambda>rb. unat (rb_nmemb rb)" ringbuf_push ringbuf_read
proof
  fix b :: "'a ngtcp2_ringbuf" and x
  assume "ringbuf_inv b"
  then show "\<exists>b'. ringbuf_push x b = Ok b' \<and> ringbuf_inv b' \<and> unat (rb_nmemb b') = unat (rb_nmemb b) \<and>
      rb_contents b' = take (unat (rb_nmemb b)) (x # rb_contents b)"
    by (metis ringbuf_push_ok)
qed (simp add: ringbuf_read_def ringbuf_get_ok rb_contents_def)

lemma ringbuf_init_inv:
  assumes "k < 32" and "ngtcp2_ringbuf_init (2 ^ k) elsize mem = (Ok rb, mem')"
  shows "ringbuf_inv rb" and "rb_contents rb = []" and "rb_nmemb rb = 2 ^ k"
  using assms
  by (auto simp: ngtcp2_ringbuf_init_def popcount_pow2 ringbuf_inv_def rb_contents_def Let_def ret_if_def split: prod.splits if_splits)

text \<open>
  A ring buffer whose capacity is a power of 2 keeps the most recent elements: initialisation either
  fails for lack of memory or gives a buffer in which, after storing any sequence of elements, each
  store succeeds within the buffer and element \<open>i\<close> is the one stored \<open>i\<close> steps before the last,
  for every \<open>i\<close> below the capacity. The initial position, \<open>size - 1\<close>, does not matter, even where it
  lies outside of the buffer.
\<close>

theorem ringbuf_keeps_recent:
  fixes xs :: "'a list"
  assumes "k < 32"
  shows "(\<exists>mem'. ngtcp2_ringbuf_init (2 ^ k) elsize mem = (Err NGTCP2_ERR_NOMEM :: 'a ngtcp2_ringbuf result, mem') \<and> False \<in> set mem) \<or>
    (\<exists>rb mem'. ngtcp2_ringbuf_init (2 ^ k) elsize mem = (Ok rb, mem') \<and>
      (\<exists>rb'. pushes ringbuf_push xs rb = Ok rb' \<and>
        (\<forall>i < length xs. i < 2 ^ k \<longrightarrow> ringbuf_read rb' i = Ok (rev xs ! i))))"
proof -
  obtain r mem' where r: "ngtcp2_ringbuf_init (2 ^ k) elsize mem = (r :: 'a ngtcp2_ringbuf result, mem')"
    by (meson surj_pair)
  then consider "r = Err NGTCP2_ERR_NOMEM" "False \<in> set mem" | rb where "r = Ok rb"
    using assms by (cases mem) (auto simp: ngtcp2_ringbuf_init_def popcount_pow2 ret_if_def split: if_splits)
  then show ?thesis
  proof cases
    case (2 rb)
    note init = ringbuf_init_inv [OF assms r [unfolded 2]]
    have "(2::nat) ^ k < 2 ^ 64" using assms by (intro power_strict_increasing) auto
    then have cap: "unat (rb_nmemb rb) = 2 ^ k" using init(3) by (simp add: unat_of_nat_small [of "2 ^ k", where 'a=64, simplified])
    obtain rb' where "pushes ringbuf_push xs rb = Ok rb'" using ringbuf.pushes_recent [OF init(1)] by blast
    with ringbuf.read_back [OF init(1), of _ xs] cap r 2 show ?thesis by fastforce
  qed (use r in blast)
qed

theorem ringbuf_keeps_recent_witness:
  "\<exists>rb rb'. ngtcp2_ringbuf_init (2 ^ 1) 24 [] = (Ok rb, []) \<and> pushes ringbuf_push [10, 20, 30::nat] rb = Ok rb' \<and>
     ringbuf_read rb' 0 = Ok 30 \<and> ringbuf_read rb' 1 = Ok 20"
  using ringbuf_keeps_recent [of 1 24 "[]" "[10, 20, 30::nat]"] popcount_pow2 [of 1]
  by (force simp: less_Suc_eq numeral_2_eq_2 ngtcp2_ringbuf_init_def)

end
