(* ===== verification/Ack_Ranges.thy ===== *)
theory Ack_Ranges
  imports Frame_Codec
begin

text \<open>
  The packet numbers that an ACK frame acknowledges, as the ranges the C code computes with 64-bit
  arithmetic, and a walk over a list in decreasing order of packet numbers. Shared by the ACK tracker
  and the retransmission buffer, which both process such a list against such ranges.
\<close>

section \<open>Ranges of an ACK frame\<close>

fun blk_ranges :: "u64 \<Rightarrow> ngtcp2_ack_blk list \<Rightarrow> (u64 \<times> u64) list" where
  "blk_ranges min_ack [] = []"
| "blk_ranges min_ack (blk # blks) =
     (let largest_ack = min_ack - blk_gap blk - 2; min_ack' = largest_ack - blk_blklen blk
      in (largest_ack, min_ack') # blk_ranges min_ack' blks)"

definition acked :: "ngtcp2_ack \<Rightarrow> u64 \<Rightarrow> bool" where
  "acked fr p \<longleftrightarrow> (\<exists>(hi, lo) \<in> set ((ack_largest_ack fr, ack_largest_ack fr - ack_first_ack_blklen fr)
     # blk_ranges (ack_largest_ack fr - ack_first_ack_blklen fr) (ack_blks fr)). lo \<le> p \<and> p \<le> hi)"

text \<open>Non-empty ranges, each below the ones before it and below \<open>b\<close>.\<close>

fun desc_ranges :: "u64 \<Rightarrow> (u64 \<times> u64) list \<Rightarrow> bool" where
  "desc_ranges b [] \<longleftrightarrow> True"
| "desc_ranges b ((hi, lo) # rs) \<longleftrightarrow> hi < b \<and> lo \<le> hi \<and> desc_ranges lo rs"

text \<open>
  A frame that passed validation, for which \<open>gap + 2\<close> does not wrap around: gaps that were decoded are
  variable-length integers.
\<close>

definition ack_valid :: "ngtcp2_ack \<Rightarrow> bool" where
  "ack_valid fr \<longleftrightarrow> ngtcp2_pkt_validate_ack fr = None \<and> (\<forall>b \<in> set (ack_blks fr). unat (blk_gap b) + 2 < 2 ^ 64)"

lemma desc_ranges_below: "desc_ranges b rs \<Longrightarrow> (hi, lo) \<in> set rs \<Longrightarrow> hi < b"
proof (induction b rs rule: desc_ranges.induct)
  case (2 b h l rs)
  then show ?case by fastforce
qed simp

lemma sub_two: "(m::u64) - g - 2 = m - (g + 2)"
  by (simp add: algebra_simps)

lemma desc_blk_ranges:
  "validate_blks m bl = None \<Longrightarrow> \<forall>b \<in> set bl. unat (blk_gap b) + 2 < 2 ^ 64 \<Longrightarrow> desc_ranges m (blk_ranges m bl)"
proof (induction bl arbitrary: m)
  case (Cons b bl)
  let ?h = "m - (blk_gap b + 2)"
  have v: "blk_gap b + 2 \<le> m" "blk_blklen b \<le> ?h" "validate_blks (?h - blk_blklen b) bl = None"
    using Cons.prems(1) by (auto simp: Let_def not_less split: if_splits)
  have g: "unat (blk_gap b + 2) = unat (blk_gap b) + 2"
    using Cons.prems unat_add_small [of "blk_gap b" 2] by simp
  have "unat ?h = unat m - (unat (blk_gap b) + 2)" "unat (blk_gap b) + 2 \<le> unat m"
    using v(1) g unat_sub [OF v(1)] by (simp_all add: word_le_nat_alt)
  then have "?h < m" by (simp add: word_less_nat_alt)
  moreover have "?h - blk_blklen b \<le> ?h" using v(2) by (rule word_sub_le)
  ultimately show ?case using Cons.IH [OF v(3)] Cons.prems(2) by (simp add: Let_def sub_two)
qed simp

lemma ack_valid_ranges:
  assumes "ack_valid fr"
  shows "ack_first_ack_blklen fr \<le> ack_largest_ack fr"
    and "ack_largest_ack fr - ack_first_ack_blklen fr \<le> ack_largest_ack fr"
    and "desc_ranges (ack_largest_ack fr - ack_first_ack_blklen fr)
      (blk_ranges (ack_largest_ack fr - ack_first_ack_blklen fr) (ack_blks fr))"
proof -
  show le: "ack_first_ack_blklen fr \<le> ack_largest_ack fr"
    using assms by (auto simp: ack_valid_def ngtcp2_pkt_validate_ack_def not_less split: if_splits)
  then show "ack_largest_ack fr - ack_first_ack_blklen fr \<le> ack_largest_ack fr" by (rule word_sub_le)
  show "desc_ranges (ack_largest_ack fr - ack_first_ack_blklen fr)
      (blk_ranges (ack_largest_ack fr - ack_first_ack_blklen fr) (ack_blks fr))"
    using assms le by (intro desc_blk_ranges) (auto simp: ack_valid_def ngtcp2_pkt_validate_ack_def split: if_splits)
qed

text \<open>The ranges are the ones of the specification of ACK validation, computed without wrap-around.\<close>

lemma blk_ranges_int:
  "validate_blks m bl = None \<Longrightarrow> \<forall>b \<in> set bl. unat (blk_gap b) + 2 < 2 ^ 64 \<Longrightarrow>
    map (\<lambda>(hi, lo). (uint hi, uint lo)) (blk_ranges m bl) = ack_ranges (uint m) bl"
proof (induction bl arbitrary: m)
  case (Cons b bl)
  let ?h = "m - (blk_gap b + 2)"
  have v: "blk_gap b + 2 \<le> m" "blk_blklen b \<le> ?h" "validate_blks (?h - blk_blklen b) bl = None"
    using Cons.prems(1) by (auto simp: Let_def not_less split: if_splits)
  have "unat (blk_gap b + 2) = unat (blk_gap b) + 2"
    using Cons.prems unat_add_small [of "blk_gap b" 2] by simp
  from arg_cong [OF this, of int] have g: "uint (blk_gap b + 2) = uint (blk_gap b) + 2"
    by (simp only: uint_nat of_nat_add of_nat_numeral)
  show ?case
    using uint_sub_le [OF v(1)] uint_sub_le [OF v(2)] g Cons.IH [OF v(3)] Cons.prems(2) by (simp add: Let_def sub_two diff_diff_eq)
qed simp

lemma acked_int:
  assumes "ack_valid fr"
  shows "acked fr p \<longleftrightarrow> (\<exists>(hi, lo) \<in> set (ack_frame_ranges fr). lo \<le> uint p \<and> uint p \<le> hi)"
proof -
  let ?m = "ack_largest_ack fr - ack_first_ack_blklen fr"
  have m: "uint ?m = uint (ack_largest_ack fr) - uint (ack_first_ack_blklen fr)"
    using ack_valid_ranges(1) [OF assms] by (rule uint_sub_le)
  have "validate_blks ?m (ack_blks fr) = None" "\<forall>b \<in> set (ack_blks fr). unat (blk_gap b) + 2 < 2 ^ 64"
    using assms by (auto simp: ack_valid_def ngtcp2_pkt_validate_ack_def split: if_splits)
  from blk_ranges_int [OF this, symmetric] show ?thesis
    by (auto simp: acked_def ack_frame_ranges_def m [symmetric] word_le_def)
qed

end
