(* ===== verification/Acktr.thy ===== *)
theory Acktr
  imports Ringbuf Ack_Ranges
begin

text \<open>
  \<^verbatim>\<open>lib/ngtcp2_acktr.c\<close>: the received packets that have to be acknowledged, in decreasing order of their
  packet numbers, and the ACK frames that were sent, the most recent first. The list linked by
  \<open>next\<close> and \<open>pprev\<close> is a list; a position in it, a pointer \<open>pent\<close> to a link, is the pair of the
  entries before and from it on. The pointer \<open>tail\<close> is kept apart from the list: it is NULL, an entry,
  given by its packet number, or \<open>TailHead\<close>, the address computed from the head of the list as if it
  were the link of an entry.
\<close>

section \<open>Operations\<close>

record ngtcp2_acktr_entry =
  ae_pkt_num :: u64
  ae_tstamp :: u64
  ae_unprotected :: u8

record ngtcp2_acktr_ack_entry =
  aa_ack :: ngtcp2_ack
  aa_pkt_num :: u64
  aa_unprotected :: u8

datatype acktr_tail = TailNull | TailEntry u64 | TailHead

record ngtcp2_acktr =
  at_acks :: "ngtcp2_acktr_ack_entry ngtcp2_ringbuf"
  at_ent :: "ngtcp2_acktr_entry list"
  at_tail :: acktr_tail
  at_nack :: u64
  at_active_ack :: bool

abbreviation NGTCP2_ACKTR_MAX_ENT :: u64 where "NGTCP2_ACKTR_MAX_ENT \<equiv> 1024"

text \<open>The entry whose link is at the end of \<open>pre\<close>.\<close>

definition tail_of :: "ngtcp2_acktr_entry list \<Rightarrow> acktr_tail" where
  "tail_of pre = (if pre = [] then TailHead else TailEntry (ae_pkt_num (last pre)))"

definition ngtcp2_acktr_entry_new :: "u64 \<Rightarrow> u64 \<Rightarrow> u8 \<Rightarrow> ngtcp2_mem \<Rightarrow> ngtcp2_acktr_entry result \<times> ngtcp2_mem" where
  "ngtcp2_acktr_entry_new pkt_num tstamp unprotected mem =
     (let (ok, mem') = ngtcp2_mem_malloc mem in
      (ret_if (\<not> ok) NGTCP2_ERR_NOMEM (Ok \<lparr>ae_pkt_num = pkt_num, ae_tstamp = tstamp, ae_unprotected = unprotected\<rparr>), mem'))"

text \<open>The size of an element of the ring buffer is 24 on the platforms with 64-bit pointers.\<close>

definition ngtcp2_acktr_init :: "ngtcp2_mem \<Rightarrow> ngtcp2_acktr result \<times> ngtcp2_mem" where
  "ngtcp2_acktr_init mem =
     (case ngtcp2_ringbuf_init 128 24 mem of
        (Ok rb, mem') \<Rightarrow> (Ok \<lparr>at_acks = rb, at_ent = [], at_tail = TailNull, at_nack = 0, at_active_ack = False\<rparr>, mem')
      | (Err e, mem') \<Rightarrow> (Err e, mem')
      | (Fault, mem') \<Rightarrow> (Fault, mem'))"

text \<open>The position at which a packet number is inserted; \<open>None\<close> for one that is already there.\<close>

fun acktr_position :: "u64 \<Rightarrow> ngtcp2_acktr_entry list \<Rightarrow> ngtcp2_acktr_entry list
    \<Rightarrow> (ngtcp2_acktr_entry list \<times> ngtcp2_acktr_entry list) option" where
  "acktr_position n pre [] = Some (pre, [])"
| "acktr_position n pre (x # xs) =
     (if ae_pkt_num x > n then acktr_position n (pre @ [x]) xs
      else if ae_pkt_num x = n then None
      else Some (pre, x # xs))"

text \<open>Unlinking the entry that \<open>tail\<close> points to, together with whatever follows it.\<close>

definition acktr_drop_tail :: "ngtcp2_acktr \<Rightarrow> ngtcp2_acktr result" where
  "acktr_drop_tail acktr =
     (case at_tail acktr of
        TailEntry n \<Rightarrow>
          let pre = takeWhile (\<lambda>e. ae_pkt_num e \<noteq> n) (at_ent acktr) in
          Ok (acktr\<lparr>at_ent := pre, at_tail := tail_of pre, at_nack := at_nack acktr - 1\<rparr>)
      | _ \<Rightarrow> Fault)"

definition ngtcp2_acktr_add :: "ngtcp2_acktr \<Rightarrow> ngtcp2_acktr_entry \<Rightarrow> bool \<Rightarrow> (ngtcp2_acktr \<times> rc) result" where
  "ngtcp2_acktr_add acktr ent active_ack =
     (case acktr_position (ae_pkt_num ent) [] (at_ent acktr) of
        None \<Rightarrow> Ok (acktr, Some NGTCP2_ERR_PROTO)
      | Some (pre, rest) \<Rightarrow>
          let acktr = acktr\<lparr>at_ent := pre @ ent # rest,
                at_tail := if rest = [] then TailEntry (ae_pkt_num ent) else at_tail acktr,
                at_active_ack := active_ack \<or> at_active_ack acktr, at_nack := at_nack acktr + 1\<rparr>
          in if at_nack acktr > NGTCP2_ACKTR_MAX_ENT then rbind (acktr_drop_tail acktr) (\<lambda>acktr. Ok (acktr, None))
             else Ok (acktr, None))"

text \<open>Removing the entries from the one with number \<open>n\<close> on, which is assumed to be in the list.\<close>

definition ngtcp2_acktr_forget :: "ngtcp2_acktr \<Rightarrow> u64 \<Rightarrow> ngtcp2_acktr" where
  "ngtcp2_acktr_forget acktr n =
     (let pre = takeWhile (\<lambda>e. ae_pkt_num e \<noteq> n) (at_ent acktr);
          rest = dropWhile (\<lambda>e. ae_pkt_num e \<noteq> n) (at_ent acktr)
      in acktr\<lparr>at_ent := pre, at_tail := if pre \<noteq> [] then tail_of pre else TailNull, at_nack := at_nack acktr - of_nat (length rest)\<rparr>)"

definition ngtcp2_acktr_get :: "ngtcp2_acktr \<Rightarrow> ngtcp2_acktr_entry list" where
  "ngtcp2_acktr_get acktr = at_ent acktr"

definition ngtcp2_acktr_pop :: "ngtcp2_acktr \<Rightarrow> ngtcp2_acktr result" where
  "ngtcp2_acktr_pop acktr =
     c_assert (at_ent acktr \<noteq> [])
       (Ok (acktr\<lparr>at_nack := at_nack acktr - 1, at_ent := tl (at_ent acktr),
                  at_tail := if tl (at_ent acktr) = [] then TailNull else at_tail acktr\<rparr>))"

definition ngtcp2_acktr_add_ack :: "ngtcp2_acktr \<Rightarrow> u64 \<Rightarrow> ngtcp2_ack \<Rightarrow> u8 \<Rightarrow> ngtcp2_acktr result" where
  "ngtcp2_acktr_add_ack acktr pkt_num fr unprotected =
     rbind (ringbuf_push \<lparr>aa_ack = fr, aa_pkt_num = pkt_num, aa_unprotected = unprotected\<rparr> (at_acks acktr))
       (\<lambda>rb. Ok (acktr\<lparr>at_acks := rb\<rparr>))"

text \<open>\<open>acktr_remove acktr pre xs\<close> removes the entry between \<open>pre\<close> and \<open>xs\<close>.\<close>

definition acktr_remove :: "ngtcp2_acktr \<Rightarrow> ngtcp2_acktr_entry list \<Rightarrow> ngtcp2_acktr_entry list \<Rightarrow> ngtcp2_acktr" where
  "acktr_remove acktr pre xs =
     acktr\<lparr>at_ent := pre @ xs, at_tail := if xs = [] then tail_of pre else at_tail acktr, at_nack := at_nack acktr - 1\<rparr>"

text \<open>The loops of \<open>acktr_on_ack\<close>, each from a position on: skip, first range, one further range.\<close>

fun on_ack_skip :: "u64 \<Rightarrow> ngtcp2_acktr_entry list \<Rightarrow> ngtcp2_acktr_entry list \<Rightarrow> ngtcp2_acktr_entry list \<times> ngtcp2_acktr_entry list" where
  "on_ack_skip largest_ack pre [] = (pre, [])"
| "on_ack_skip largest_ack pre (x # xs) =
     (if largest_ack \<ge> ae_pkt_num x then (pre, x # xs) else on_ack_skip largest_ack (pre @ [x]) xs)"

fun on_ack_first :: "u64 \<Rightarrow> u64 \<Rightarrow> ngtcp2_acktr \<Rightarrow> ngtcp2_acktr_entry list \<Rightarrow> ngtcp2_acktr_entry list
    \<Rightarrow> ngtcp2_acktr \<times> ngtcp2_acktr_entry list \<times> ngtcp2_acktr_entry list" where
  "on_ack_first largest_ack min_ack acktr pre [] = (acktr, pre, [])"
| "on_ack_first largest_ack min_ack acktr pre (x # xs) =
     (if min_ack \<le> ae_pkt_num x \<and> ae_pkt_num x \<le> largest_ack
      then on_ack_first largest_ack min_ack (acktr_remove acktr pre xs) pre xs
      else (acktr, pre, x # xs))"

fun on_ack_range :: "u64 \<Rightarrow> u64 \<Rightarrow> ngtcp2_acktr \<Rightarrow> ngtcp2_acktr_entry list \<Rightarrow> ngtcp2_acktr_entry list
    \<Rightarrow> ngtcp2_acktr \<times> ngtcp2_acktr_entry list \<times> ngtcp2_acktr_entry list" where
  "on_ack_range largest_ack min_ack acktr pre [] = (acktr, pre, [])"
| "on_ack_range largest_ack min_ack acktr pre (x # xs) =
     (if ae_pkt_num x > largest_ack then on_ack_range largest_ack min_ack acktr (pre @ [x]) xs
      else if ae_pkt_num x < min_ack then (acktr, pre, x # xs)
      else on_ack_range largest_ack min_ack (acktr_remove acktr pre xs) pre xs)"

fun on_ack_blks :: "u64 \<Rightarrow> ngtcp2_ack_blk list \<Rightarrow> ngtcp2_acktr \<Rightarrow> ngtcp2_acktr_entry list \<Rightarrow> ngtcp2_acktr_entry list \<Rightarrow> ngtcp2_acktr" where
  "on_ack_blks min_ack [] acktr pre rest = acktr"
| "on_ack_blks min_ack (blk # blks) acktr pre rest =
     (if rest = [] then acktr
      else
        let largest_ack = min_ack - blk_gap blk - 2; min_ack = largest_ack - blk_blklen blk;
            (acktr, pre, rest) = on_ack_range largest_ack min_ack acktr pre rest
        in on_ack_blks min_ack blks acktr pre rest)"

definition on_ack_entries :: "ngtcp2_acktr \<Rightarrow> ngtcp2_ack \<Rightarrow> ngtcp2_acktr" where
  "on_ack_entries acktr fr =
     (case on_ack_skip (ack_largest_ack fr) [] (at_ent acktr) of
        (pre, []) \<Rightarrow> acktr
      | (pre, rest) \<Rightarrow>
          let min_ack = ack_largest_ack fr - ack_first_ack_blklen fr;
              (acktr, pre, rest) = on_ack_first (ack_largest_ack fr) min_ack acktr pre rest
          in on_ack_blks min_ack (ack_blks fr) acktr pre rest)"

text \<open>
  \<open>acktr_on_ack\<close>; the loop after \<open>fin\<close> reads every element from \<open>ack_ent_offset\<close> on, to free its frame.
\<close>

fun ringbuf_read_from :: "'a ngtcp2_ringbuf \<Rightarrow> nat \<Rightarrow> nat \<Rightarrow> unit result" where
  "ringbuf_read_from rb 0 i = Ok ()"
| "ringbuf_read_from rb (Suc n) i = rbind (ringbuf_read rb i) (\<lambda>_. ringbuf_read_from rb n (Suc i))"

definition acktr_on_ack :: "ngtcp2_acktr \<Rightarrow> nat \<Rightarrow> ngtcp2_acktr result" where
  "acktr_on_ack acktr ack_ent_offset =
     rbind (ringbuf_read (at_acks acktr) ack_ent_offset) (\<lambda>ent.
     let acktr = on_ack_entries acktr (aa_ack ent) in
     rbind (ringbuf_read_from (at_acks acktr) (unat (rb_len (at_acks acktr)) - ack_ent_offset) ack_ent_offset) (\<lambda>_.
     rbind (ngtcp2_ringbuf_resize (at_acks acktr) (of_nat ack_ent_offset)) (\<lambda>rb. Ok (acktr\<lparr>at_acks := rb\<rparr>))))"

text \<open>
  The loops of \<open>ngtcp2_acktr_recv_ack\<close> over the sent ACK frames, with \<open>n\<close> elements from \<open>j\<close> on. They end
  with an acknowledged frame, at an element below the range, or at the end, where the function
  returns.
\<close>

datatype recv_state = Hit nat | Below nat | Done

fun recv_ack_find :: "ngtcp2_acktr_ack_entry ngtcp2_ringbuf \<Rightarrow> u64 \<Rightarrow> nat \<Rightarrow> nat \<Rightarrow> nat option result" where
  "recv_ack_find rb largest_ack 0 j = Ok None"
| "recv_ack_find rb largest_ack (Suc n) j =
     rbind (ringbuf_read rb j) (\<lambda>ent.
       if largest_ack \<ge> aa_pkt_num ent then Ok (Some j) else recv_ack_find rb largest_ack n (Suc j))"

fun recv_ack_first :: "ngtcp2_acktr_ack_entry ngtcp2_ringbuf \<Rightarrow> u64 \<Rightarrow> u64 \<Rightarrow> u8 \<Rightarrow> nat \<Rightarrow> nat \<Rightarrow> recv_state result" where
  "recv_ack_first rb largest_ack min_ack unprotected 0 j = Ok Done"
| "recv_ack_first rb largest_ack min_ack unprotected (Suc n) j =
     rbind (ringbuf_read rb j) (\<lambda>ent.
       if min_ack \<le> aa_pkt_num ent \<and> aa_pkt_num ent \<le> largest_ack then
         if unprotected \<noteq> 0 \<and> aa_unprotected ent = 0 then recv_ack_first rb largest_ack min_ack unprotected n (Suc j)
         else Ok (Hit j)
       else Ok (Below j))"

fun recv_ack_range :: "ngtcp2_acktr_ack_entry ngtcp2_ringbuf \<Rightarrow> u64 \<Rightarrow> u64 \<Rightarrow> u8 \<Rightarrow> nat \<Rightarrow> nat \<Rightarrow> recv_state result" where
  "recv_ack_range rb largest_ack min_ack unprotected 0 j = Ok Done"
| "recv_ack_range rb largest_ack min_ack unprotected (Suc n) j =
     rbind (ringbuf_read rb j) (\<lambda>ent.
       if aa_pkt_num ent > largest_ack then recv_ack_range rb largest_ack min_ack unprotected n (Suc j)
       else if aa_pkt_num ent < min_ack then Ok (Below j)
       else if unprotected \<noteq> 0 \<and> aa_unprotected ent = 0 then recv_ack_range rb largest_ack min_ack unprotected n (Suc j)
       else Ok (Hit j))"

fun recv_ack_blks :: "ngtcp2_acktr_ack_entry ngtcp2_ringbuf \<Rightarrow> u64 \<Rightarrow> ngtcp2_ack_blk list \<Rightarrow> u8 \<Rightarrow> nat \<Rightarrow> nat \<Rightarrow> recv_state result" where
  "recv_ack_blks rb min_ack [] unprotected nacks j = Ok Done"
| "recv_ack_blks rb min_ack (blk # blks) unprotected nacks j =
     (let largest_ack = min_ack - blk_gap blk - 2; min_ack = largest_ack - blk_blklen blk in
      rbind (recv_ack_range rb largest_ack min_ack unprotected (nacks - j) j) (\<lambda>r.
        case r of Below j' \<Rightarrow> recv_ack_blks rb min_ack blks unprotected nacks j' | _ \<Rightarrow> Ok r))"

definition ngtcp2_acktr_recv_ack :: "ngtcp2_acktr \<Rightarrow> ngtcp2_ack \<Rightarrow> u8 \<Rightarrow> ngtcp2_acktr result" where
  "ngtcp2_acktr_recv_ack acktr fr unprotected =
     (let rb = at_acks acktr; nacks = unat (ngtcp2_ringbuf_len rb); largest_ack = ack_largest_ack fr;
          min_ack = largest_ack - ack_first_ack_blklen fr
      in rbind (recv_ack_find rb largest_ack nacks 0) (\<lambda>oj.
         case oj of None \<Rightarrow> Ok acktr
         | Some j \<Rightarrow>
             rbind (recv_ack_first rb largest_ack min_ack unprotected (nacks - j) j) (\<lambda>r.
             rbind (case r of Below j' \<Rightarrow> recv_ack_blks rb min_ack (ack_blks fr) unprotected nacks j' | _ \<Rightarrow> Ok r) (\<lambda>r.
             case r of Hit j' \<Rightarrow> acktr_on_ack acktr j' | _ \<Rightarrow> Ok acktr))))"

section \<open>Invariant\<close>

text \<open>Decreasing packet numbers, the tail on the last entry of a non-empty list, and the counter.\<close>

definition desc_by :: "('a \<Rightarrow> u64) \<Rightarrow> 'a list \<Rightarrow> bool" where
  "desc_by f xs \<longleftrightarrow> sorted_wrt (\<lambda>a b. f b < f a) xs"

definition acktr_list_ok :: "ngtcp2_acktr \<Rightarrow> bool" where
  "acktr_list_ok acktr \<longleftrightarrow> desc_by ae_pkt_num (at_ent acktr) \<and>
     (at_ent acktr \<noteq> [] \<longrightarrow> at_tail acktr = TailEntry (ae_pkt_num (last (at_ent acktr)))) \<and>
     unat (at_nack acktr) = length (at_ent acktr) \<and> length (at_ent acktr) \<le> 1024"

definition acktr_acks :: "ngtcp2_acktr \<Rightarrow> ngtcp2_acktr_ack_entry list" where
  "acktr_acks acktr = rb_contents (at_acks acktr)"

text \<open>\<open>acktr_wf\<close>: the sent ACK frames are valid; \<open>acktr_inv\<close>: they moreover have decreasing packet numbers.\<close>

definition acktr_wf :: "ngtcp2_acktr \<Rightarrow> bool" where
  "acktr_wf acktr \<longleftrightarrow> acktr_list_ok acktr \<and> ringbuf_inv (at_acks acktr) \<and> (\<forall>a \<in> set (acktr_acks acktr). ack_valid (aa_ack a))"

definition acktr_inv :: "ngtcp2_acktr \<Rightarrow> bool" where
  "acktr_inv acktr \<longleftrightarrow> acktr_list_ok acktr \<and> ringbuf_inv (at_acks acktr) \<and> desc_by aa_pkt_num (acktr_acks acktr) \<and>
     (\<forall>a \<in> set (acktr_acks acktr). ack_valid (aa_ack a))"

lemma acktr_inv_wf: "acktr_inv acktr \<longleftrightarrow> acktr_wf acktr \<and> desc_by aa_pkt_num (acktr_acks acktr)"
  by (auto simp: acktr_inv_def acktr_wf_def)

lemma desc_by_simps [simp]:
  "desc_by f []" "desc_by f (x # xs) \<longleftrightarrow> (\<forall>y \<in> set xs. f y < f x) \<and> desc_by f xs"
  "desc_by f (xs @ ys) \<longleftrightarrow> desc_by f xs \<and> desc_by f ys \<and> (\<forall>x \<in> set xs. \<forall>y \<in> set ys. f y < f x)"
  by (auto simp: desc_by_def sorted_wrt_append)

lemma desc_by_filter: "desc_by f xs \<Longrightarrow> desc_by f (filter P xs)"
  by (simp add: desc_by_def sorted_wrt_filter)

lemma desc_by_take: "desc_by f xs \<Longrightarrow> desc_by f (take n xs)"
  by (simp add: desc_by_def sorted_wrt_take)

section \<open>Adding and removing entries\<close>

lemma acktr_position_ok:
  assumes "desc_by ae_pkt_num (pre @ xs)" and "\<forall>e \<in> set pre. n < ae_pkt_num e"
  shows "case acktr_position n pre xs of
      None \<Rightarrow> n \<in> ae_pkt_num ` set xs
    | Some (p, r) \<Rightarrow> p @ r = pre @ xs \<and> (\<forall>e \<in> set p. n < ae_pkt_num e) \<and> (\<forall>e \<in> set r. ae_pkt_num e < n)"
  using assms
proof (induction xs arbitrary: pre)
  case (Cons x xs)
  show ?case
  proof (cases "n < ae_pkt_num x")
    case True
    then show ?thesis using Cons.IH [of "pre @ [x]"] Cons.prems by (auto split: option.splits)
  next
    case False
    then show ?thesis using Cons.prems by (auto simp: not_less)
  qed
qed simp

lemma takeWhile_last:
  assumes "desc_by ae_pkt_num xs" and "xs \<noteq> []"
  shows "takeWhile (\<lambda>e. ae_pkt_num e \<noteq> ae_pkt_num (last xs)) xs = butlast xs"
proof -
  obtain ys y where xs: "xs = ys @ [y]" using assms(2) by (metis append_butlast_last_id)
  then have "takeWhile (\<lambda>e. ae_pkt_num e \<noteq> ae_pkt_num y) (ys @ [y]) = ys" using assms(1) by (subst takeWhile_append2) auto
  then show ?thesis by (simp add: xs)
qed

lemma acktr_add_ok:
  assumes ok: "acktr_list_ok acktr"
  shows "\<exists>acktr' rv. ngtcp2_acktr_add acktr ent active = Ok (acktr', rv) \<and> acktr_list_ok acktr' \<and> at_acks acktr' = at_acks acktr \<and>
    (if ae_pkt_num ent \<in> ae_pkt_num ` set (at_ent acktr) then rv = Some NGTCP2_ERR_PROTO \<and> acktr' = acktr
     else rv = None \<and> (active \<longrightarrow> at_active_ack acktr') \<and>
       at_ent acktr' = take 1024 (filter (\<lambda>e. ae_pkt_num ent < ae_pkt_num e) (at_ent acktr)
         @ ent # filter (\<lambda>e. ae_pkt_num e < ae_pkt_num ent) (at_ent acktr)))"
proof (cases "acktr_position (ae_pkt_num ent) [] (at_ent acktr)")
  case None
  then have "ae_pkt_num ent \<in> ae_pkt_num ` set (at_ent acktr)"
    using acktr_position_ok [of "[]" "at_ent acktr" "ae_pkt_num ent"] ok by (simp add: acktr_list_ok_def)
  with None ok show ?thesis by (auto simp: ngtcp2_acktr_add_def)
next
  case (Some q)
  obtain p r where q: "q = (p, r)" by (cases q)
  have pr: "p @ r = at_ent acktr" "\<forall>e \<in> set p. ae_pkt_num ent < ae_pkt_num e" "\<forall>e \<in> set r. ae_pkt_num e < ae_pkt_num ent"
    using acktr_position_ok [of "[]" "at_ent acktr" "ae_pkt_num ent"] ok Some q by (auto simp: acktr_list_ok_def)
  have fresh: "ae_pkt_num ent \<notin> ae_pkt_num ` set (at_ent acktr)" unfolding pr(1) [symmetric] using pr(2,3) by auto
  have flt: "filter (\<lambda>e. ae_pkt_num ent < ae_pkt_num e) (at_ent acktr) = p" "filter (\<lambda>e. ae_pkt_num e < ae_pkt_num ent) (at_ent acktr) = r"
    unfolding pr(1) [symmetric] using pr(2,3) by (auto simp: filter_id_conv filter_empty_conv)
  let ?es = "p @ ent # r"
  let ?a = "acktr\<lparr>at_ent := ?es, at_tail := if r = [] then TailEntry (ae_pkt_num ent) else at_tail acktr,
      at_active_ack := active \<or> at_active_ack acktr, at_nack := at_nack acktr + 1\<rparr>"
  have desc: "desc_by ae_pkt_num ?es" using ok pr(2,3) unfolding acktr_list_ok_def pr(1) [symmetric] by auto
  have tail: "at_tail ?a = TailEntry (ae_pkt_num (last ?es))" using ok unfolding acktr_list_ok_def pr(1) [symmetric] by (cases "r = []") auto
  have len: "length ?es = Suc (length (at_ent acktr))" by (simp flip: pr(1))
  have nack: "unat (at_nack acktr + 1) = Suc (length (at_ent acktr))"
    using ok unat_add_small [of "at_nack acktr" 1] by (simp add: acktr_list_ok_def)
  show ?thesis
  proof (cases "at_nack acktr + 1 > NGTCP2_ACKTR_MAX_ENT")
    case False
    then have "length ?es \<le> 1024" using nack len by (simp add: word_less_nat_alt)
    moreover have "acktr_list_ok ?a" using desc tail nack len calculation by (simp add: acktr_list_ok_def del: append.simps)
    ultimately show ?thesis using False Some q fresh flt by (simp add: ngtcp2_acktr_add_def)
  next
    case True
    then have full: "length (at_ent acktr) = 1024" using nack ok by (simp add: word_less_nat_alt acktr_list_ok_def)
    let ?b = "?a\<lparr>at_ent := butlast ?es, at_tail := tail_of (butlast ?es), at_nack := at_nack acktr\<rparr>"
    have drop: "acktr_drop_tail ?a = Ok ?b"
      using takeWhile_last [OF desc] tail by (simp add: acktr_drop_tail_def Let_def)
    have ne: "butlast ?es \<noteq> []" using len full by (metis length_butlast diff_Suc_1 list.size(3) zero_neq_numeral)
    have "butlast ?es = take 1024 ?es" using len full by (simp add: butlast_conv_take)
    moreover have "acktr_list_ok ?b"
      using ok desc_by_take [OF desc, of 1024] ne full len calculation
      by (simp add: acktr_list_ok_def tail_of_def del: append.simps desc_by_simps)
    ultimately show ?thesis using True Some q fresh flt drop by (simp add: ngtcp2_acktr_add_def)
  qed
qed

lemma acktr_pop_ok:
  assumes ok: "acktr_list_ok acktr" and ne: "at_ent acktr \<noteq> []"
  shows "\<exists>acktr'. ngtcp2_acktr_pop acktr = Ok acktr' \<and> acktr_list_ok acktr' \<and> at_ent acktr' = tl (at_ent acktr)"
proof -
  obtain x xs where e: "at_ent acktr = x # xs" using ne by (cases "at_ent acktr") auto
  have "unat (at_nack acktr - 1) = unat (at_nack acktr) - 1"
    using unat_sub [of 1 "at_nack acktr"] ok e by (simp add: acktr_list_ok_def word_le_nat_alt)
  then show ?thesis using ok e by (auto simp: ngtcp2_acktr_pop_def acktr_list_ok_def)
qed

lemma acktr_forget_ok:
  assumes ok: "acktr_list_ok acktr" and n: "n \<in> ae_pkt_num ` set (at_ent acktr)"
  shows "acktr_list_ok (ngtcp2_acktr_forget acktr n)"
    and "at_ent (ngtcp2_acktr_forget acktr n) = filter (\<lambda>e. n < ae_pkt_num e) (at_ent acktr)"
proof -
  let ?pre = "takeWhile (\<lambda>e. ae_pkt_num e \<noteq> n) (at_ent acktr)" and ?rest = "dropWhile (\<lambda>e. ae_pkt_num e \<noteq> n) (at_ent acktr)"
  have split: "at_ent acktr = ?pre @ ?rest" by simp
  obtain e es where r: "?rest = e # es" using n by (cases ?rest) (auto simp: dropWhile_eq_Nil_conv)
  then have en: "ae_pkt_num e = n" using hd_dropWhile [of "\<lambda>e. ae_pkt_num e \<noteq> n" "at_ent acktr"] by fastforce
  have desc: "desc_by ae_pkt_num (?pre @ e # es)" using ok split r by (simp only: acktr_list_ok_def)
  have "filter (\<lambda>e. n < ae_pkt_num e) (?pre @ e # es) = ?pre"
    using desc en by (auto simp: filter_id_conv filter_empty_conv less_le_not_le)
  then have "filter (\<lambda>e. n < ae_pkt_num e) (at_ent acktr) = ?pre" using split r by metis
  then show "at_ent (ngtcp2_acktr_forget acktr n) = filter (\<lambda>e. n < ae_pkt_num e) (at_ent acktr)"
    by (simp add: ngtcp2_acktr_forget_def Let_def)
  have len: "length (at_ent acktr) = length ?pre + length ?rest" by (metis split length_append)
  then have "length ?rest \<le> unat (at_nack acktr)" using ok by (simp add: acktr_list_ok_def)
  then have "unat (at_nack acktr - of_nat (length ?rest)) = length ?pre"
    using ok len unat_sub [of "of_nat (length ?rest)" "at_nack acktr"] unat_u64_less [of "at_nack acktr"]
    by (simp add: acktr_list_ok_def word_le_nat_alt unat_of_nat_small del: unat_u64_less)
  then show "acktr_list_ok (ngtcp2_acktr_forget acktr n)"
    using ok desc len by (auto simp: acktr_list_ok_def ngtcp2_acktr_forget_def tail_of_def Let_def)
qed

section \<open>Acknowledged ACK frames\<close>

lemma on_ack_skip_ok:
  "on_ack_skip h pre xs = (pre @ takeWhile (\<lambda>e. h < ae_pkt_num e) xs, dropWhile (\<lambda>e. h < ae_pkt_num e) xs)"
  by (induction h pre xs rule: on_ack_skip.induct) (auto simp: not_less)

text \<open>Removing keeps the invariant of the list; the entry removed stands between \<open>pre\<close> and \<open>xs\<close>.\<close>

lemma acktr_remove_ok:
  assumes ok: "acktr_list_ok acktr" and e: "at_ent acktr = pre @ x # xs"
  shows "acktr_list_ok (acktr_remove acktr pre xs)" and "at_ent (acktr_remove acktr pre xs) = pre @ xs"
    and "at_acks (acktr_remove acktr pre xs) = at_acks acktr"
proof -
  have "unat (at_nack acktr - 1) = unat (at_nack acktr) - 1"
    using unat_sub [of 1 "at_nack acktr"] ok e by (simp add: acktr_list_ok_def word_le_nat_alt)
  then show "acktr_list_ok (acktr_remove acktr pre xs)"
    using ok e by (auto simp: acktr_list_ok_def acktr_remove_def tail_of_def)
qed (simp_all add: acktr_remove_def)

lemma on_ack_first_ok:
  assumes "acktr_list_ok acktr" and "at_ent acktr = pre @ xs" and "\<forall>e \<in> set xs. ae_pkt_num e \<le> h"
    and "on_ack_first h l acktr pre xs = (acktr', p, r)"
  shows "acktr_list_ok acktr' \<and> at_acks acktr' = at_acks acktr \<and> at_ent acktr' = p @ r \<and> p = pre \<and>
    r = filter (\<lambda>e. \<not> (l \<le> ae_pkt_num e \<and> ae_pkt_num e \<le> h)) xs \<and> (\<forall>e \<in> set r. ae_pkt_num e < l)"
  using assms
proof (induction h l acktr pre xs rule: on_ack_first.induct)
  case (2 h l acktr pre x xs)
  show ?case
  proof (cases "l \<le> ae_pkt_num x \<and> ae_pkt_num x \<le> h")
    case True
    then show ?thesis using 2 acktr_remove_ok [OF 2(2,3)] by (simp cong: conj_cong)
  next
    case False
    then have x: "ae_pkt_num x < l" using 2(4) by auto
    moreover have "ae_pkt_num e < l" if "e \<in> set xs" for e
      using 2(2,3) that x by (auto simp: acktr_list_ok_def)
    ultimately have "filter (\<lambda>e. \<not> (l \<le> ae_pkt_num e \<and> ae_pkt_num e \<le> h)) (x # xs) = x # xs" by (auto simp: filter_id_conv not_le)
    then show ?thesis using 2 False x \<open>\<And>e. e \<in> set xs \<Longrightarrow> ae_pkt_num e < l\<close> by auto
  qed
qed auto

lemma on_ack_range_ok:
  assumes "acktr_list_ok acktr" and "at_ent acktr = pre @ xs" and "on_ack_range h l acktr pre xs = (acktr', p, r)"
  shows "acktr_list_ok acktr' \<and> at_acks acktr' = at_acks acktr \<and> at_ent acktr' = p @ r \<and>
    p @ r = pre @ filter (\<lambda>e. \<not> (l \<le> ae_pkt_num e \<and> ae_pkt_num e \<le> h)) xs \<and>
    (\<exists>q. p = pre @ q \<and> (\<forall>e \<in> set q. h < ae_pkt_num e)) \<and> (\<forall>e \<in> set r. ae_pkt_num e < l)"
  using assms
proof (induction h l acktr pre xs rule: on_ack_range.induct)
  case (2 h l acktr pre x xs)
  consider "h < ae_pkt_num x" | "ae_pkt_num x \<le> h" "ae_pkt_num x < l" | "ae_pkt_num x \<le> h" "l \<le> ae_pkt_num x" by fastforce
  then show ?case
  proof cases
    case 1
    then have "acktr_list_ok acktr' \<and> at_acks acktr' = at_acks acktr \<and> at_ent acktr' = p @ r \<and>
      p @ r = (pre @ [x]) @ filter (\<lambda>e. \<not> (l \<le> ae_pkt_num e \<and> ae_pkt_num e \<le> h)) xs \<and>
      (\<exists>q. p = (pre @ [x]) @ q \<and> (\<forall>e \<in> set q. h < ae_pkt_num e)) \<and> (\<forall>e \<in> set r. ae_pkt_num e < l)"
      using 2 by auto
    with 1 show ?thesis by auto
  next
    case 2
    have "ae_pkt_num e < l" if "e \<in> set xs" for e
      using "2.prems"(1,2) that 2 by (auto simp: acktr_list_ok_def)
    with 2 have "filter (\<lambda>e. \<not> (l \<le> ae_pkt_num e \<and> ae_pkt_num e \<le> h)) (x # xs) = x # xs" "\<forall>e \<in> set (x # xs). ae_pkt_num e < l"
      by (auto simp: filter_id_conv not_le)
    moreover have "acktr' = acktr" "p = pre" "r = x # xs" using 2 "2.prems"(3) by (auto simp: leD)
    ultimately show ?thesis using "2.prems"(1,2) by auto
  next
    case 3
    then show ?thesis using "2.IH"(2) "2.prems" acktr_remove_ok [OF "2.prems"(1,2)] by (simp add: leD)
  qed
qed auto

lemma on_ack_blks_ok:
  assumes "acktr_list_ok acktr" and "at_ent acktr = pre @ xs" and "desc_ranges m (blk_ranges m bl)"
  shows "acktr_list_ok (on_ack_blks m bl acktr pre xs) \<and> at_acks (on_ack_blks m bl acktr pre xs) = at_acks acktr \<and>
    at_ent (on_ack_blks m bl acktr pre xs) =
      pre @ filter (\<lambda>e. \<not> (\<exists>(hi, lo) \<in> set (blk_ranges m bl). lo \<le> ae_pkt_num e \<and> ae_pkt_num e \<le> hi)) xs"
  using assms
proof (induction m bl acktr pre xs rule: on_ack_blks.induct)
  case (2 m b bl acktr pre xs)
  let ?h = "m - blk_gap b - 2" and ?l = "m - blk_gap b - 2 - blk_blklen b"
  obtain acktr' p r where run: "on_ack_range ?h ?l acktr pre xs = (acktr', p, r)" by (metis prod_cases3)
  have R: "acktr_list_ok acktr'" "at_acks acktr' = at_acks acktr" "at_ent acktr' = p @ r"
      "p @ r = pre @ filter (\<lambda>e. \<not> (?l \<le> ae_pkt_num e \<and> ae_pkt_num e \<le> ?h)) xs"
    using on_ack_range_ok [OF 2(2,3) run] by simp_all
  from on_ack_range_ok [OF 2(2,3) run] obtain q where q: "p = pre @ q" "\<forall>e \<in> set q. ?h < ae_pkt_num e" by auto
  let ?P = "\<lambda>e. \<not> (\<exists>(hi, lo) \<in> set (blk_ranges ?l bl). lo \<le> ae_pkt_num e \<and> ae_pkt_num e \<le> hi)"
  have D: "desc_ranges ?l (blk_ranges ?l bl)" "?l \<le> ?h" using 2(4) by (simp_all add: Let_def)
  have qP: "filter ?P q = q"
    using q(2) D desc_ranges_below [OF D(1)] by (fastforce simp: filter_id_conv)
  have qr: "q @ r = filter (\<lambda>e. \<not> (?l \<le> ae_pkt_num e \<and> ae_pkt_num e \<le> ?h)) xs" using R(4) q(1) by simp
  show ?case
  proof (cases "xs = []")
    case False
    with 2(1) [OF False refl refl run [symmetric] refl refl] R D run
    have "acktr_list_ok (on_ack_blks m (b # bl) acktr pre xs) \<and> at_acks (on_ack_blks m (b # bl) acktr pre xs) = at_acks acktr \<and>
      at_ent (on_ack_blks m (b # bl) acktr pre xs) = p @ filter ?P r" by (simp add: Let_def)
    moreover have "p @ filter ?P r = pre @ filter ?P (q @ r)" using q(1) qP by simp
    ultimately show ?thesis unfolding qr by (auto simp: Let_def intro!: filter_cong)
  qed (use 2 in simp)
qed simp

lemma on_ack_entries_ok:
  assumes ok: "acktr_list_ok acktr" and v: "ack_valid fr"
  shows "acktr_list_ok (on_ack_entries acktr fr)" and "at_acks (on_ack_entries acktr fr) = at_acks acktr"
    and "at_ent (on_ack_entries acktr fr) = filter (\<lambda>e. \<not> acked fr (ae_pkt_num e)) (at_ent acktr)"
proof -
  let ?h = "ack_largest_ack fr" and ?l = "ack_largest_ack fr - ack_first_ack_blklen fr"
  let ?pre = "takeWhile (\<lambda>e. ?h < ae_pkt_num e) (at_ent acktr)" and ?rest = "dropWhile (\<lambda>e. ?h < ae_pkt_num e) (at_ent acktr)"
  let ?N = "\<lambda>e. \<not> (\<exists>(hi, lo) \<in> set (blk_ranges ?l (ack_blks fr)). lo \<le> ae_pkt_num e \<and> ae_pkt_num e \<le> hi)"
  note V = ack_valid_ranges [OF v]
  have split: "at_ent acktr = ?pre @ ?rest" by simp
  have pre: "filter (\<lambda>e. \<not> acked fr (ae_pkt_num e)) ?pre = ?pre"
    using desc_ranges_below [OF V(3)] V(2) by (fastforce simp: filter_id_conv acked_def dest: set_takeWhileD)
  have low: "\<forall>e \<in> set ?rest. ae_pkt_num e \<le> ?h"
  proof (cases ?rest)
    case (Cons e es)
    then have "ae_pkt_num e \<le> ?h" using hd_dropWhile [of "\<lambda>e. ?h < ae_pkt_num e" "at_ent acktr"] by fastforce
    moreover have "desc_by ae_pkt_num (?pre @ e # es)" using ok split Cons by (metis acktr_list_ok_def)
    ultimately show ?thesis unfolding Cons by auto
  next
    case Nil
    then show ?thesis by (metis empty_iff list.set(1))
  qed
  obtain acktr' p r where run: "on_ack_first ?h ?l acktr ?pre ?rest = (acktr', p, r)" by (metis prod_cases3)
  note F = on_ack_first_ok [OF ok split low run]
  have B: "acktr_list_ok (on_ack_blks ?l (ack_blks fr) acktr' p r) \<and> at_acks (on_ack_blks ?l (ack_blks fr) acktr' p r) = at_acks acktr' \<and>
    at_ent (on_ack_blks ?l (ack_blks fr) acktr' p r) = p @ filter ?N r"
    using F by (intro on_ack_blks_ok V(3)) auto
  have "p @ filter ?N r = filter (\<lambda>e. \<not> acked fr (ae_pkt_num e)) ?pre @ filter (\<lambda>e. \<not> acked fr (ae_pkt_num e)) ?rest"
    using F pre by (auto simp: acked_def intro: filter_cong)
  also have "\<dots> = filter (\<lambda>e. \<not> acked fr (ae_pkt_num e)) (at_ent acktr)" by (metis split filter_append)
  finally have E: "p @ filter ?N r = filter (\<lambda>e. \<not> acked fr (ae_pkt_num e)) (at_ent acktr)" .
  have run': "on_ack_entries acktr fr = (if ?rest = [] then acktr else on_ack_blks ?l (ack_blks fr) acktr' p r)"
    using run by (cases ?rest) (simp_all only: on_ack_entries_def on_ack_skip_ok Let_def prod.case list.case append_Nil if_True if_False simp_thms list.distinct)
  have "at_ent acktr = p @ filter ?N r" if "?rest = []"
    using run split unfolding that by (simp only: on_ack_first.simps prod.inject) auto
  then show "acktr_list_ok (on_ack_entries acktr fr)" "at_acks (on_ack_entries acktr fr) = at_acks acktr"
    "at_ent (on_ack_entries acktr fr) = filter (\<lambda>e. \<not> acked fr (ae_pkt_num e)) (at_ent acktr)"
    unfolding run' using ok B F E by auto
qed

section \<open>Receiving an ACK frame\<close>

text \<open>The sent ACK frames that may be confirmed by a packet with the given protection.\<close>

definition ack_usable :: "u8 \<Rightarrow> ngtcp2_acktr_ack_entry \<Rightarrow> bool" where
  "ack_usable unprotected a \<longleftrightarrow> \<not> (unprotected \<noteq> 0 \<and> aa_unprotected a = 0)"

text \<open>What one range leaves: the entries passed lie above the range or are not usable.\<close>

definition scan_ok :: "u64 \<Rightarrow> u64 \<Rightarrow> u8 \<Rightarrow> ngtcp2_acktr_ack_entry list \<Rightarrow> nat \<Rightarrow> recv_state \<Rightarrow> bool" where
  "scan_ok hi lo u as j r \<longleftrightarrow> (case r of
     Hit i \<Rightarrow> j \<le> i \<and> i < length as \<and> ack_usable u (as ! i) \<and> lo \<le> aa_pkt_num (as ! i) \<and> aa_pkt_num (as ! i) \<le> hi \<and>
       (\<forall>k \<in> {j..<i}. hi < aa_pkt_num (as ! k) \<or> \<not> ack_usable u (as ! k))
   | Below i \<Rightarrow> j \<le> i \<and> i < length as \<and> aa_pkt_num (as ! i) < lo \<and>
       (\<forall>k \<in> {j..<i}. hi < aa_pkt_num (as ! k) \<or> \<not> ack_usable u (as ! k))
   | Done \<Rightarrow> \<forall>k \<in> {j..<length as}. hi < aa_pkt_num (as ! k) \<or> \<not> ack_usable u (as ! k))"

text \<open>The first element from \<open>j\<close> on with property \<open>P\<close>.\<close>

definition first_hit :: "('a \<Rightarrow> bool) \<Rightarrow> 'a list \<Rightarrow> nat \<Rightarrow> recv_state \<Rightarrow> bool" where
  "first_hit P as j r \<longleftrightarrow> (case r of
     Hit i \<Rightarrow> j \<le> i \<and> i < length as \<and> P (as ! i) \<and> (\<forall>k \<in> {j..<i}. \<not> P (as ! k))
   | _ \<Rightarrow> \<forall>k \<in> {j..<length as}. \<not> P (as ! k))"

lemma ball_from: "(\<forall>k \<in> {j..<n}. P k) \<longleftrightarrow> (j < n \<longrightarrow> P j) \<and> (\<forall>k \<in> {Suc j..<n}. P k)"
  by (auto simp: Ball_def) (metis Suc_leI le_neq_implies_less)

lemma scan_ok_Suc: "scan_ok hi lo u as (Suc j) r \<Longrightarrow> hi < aa_pkt_num (as ! j) \<or> \<not> ack_usable u (as ! j) \<Longrightarrow> scan_ok hi lo u as j r"
  by (cases r) (simp_all add: scan_ok_def ball_from [of j])

lemma recv_ack_range_ok:
  assumes "ringbuf_inv rb" and "n = length (rb_contents rb) - j" and "j \<le> length (rb_contents rb)"
  shows "\<exists>r. recv_ack_range rb hi lo u n j = Ok r \<and> scan_ok hi lo u (rb_contents rb) j r"
  using assms(2,3)
proof (induction n arbitrary: j)
  case (Suc n)
  then have IH: "\<exists>r. recv_ack_range rb hi lo u n (Suc j) = Ok r \<and> scan_ok hi lo u (rb_contents rb) (Suc j) r"
    by (intro Suc.IH) auto
  have j: "j < length (rb_contents rb)" using Suc.prems by simp
  from IH show ?case
    using j by (auto simp: ringbuf.read [OF assms(1)] ack_usable_def [of u "rb_contents rb ! j"] scan_ok_Suc)
      (auto simp: scan_ok_def ack_usable_def)
qed (auto simp: scan_ok_def)

lemma recv_ack_first_ok:
  assumes "ringbuf_inv rb" and "n = length (rb_contents rb) - j" and "j \<le> length (rb_contents rb)"
    and "\<forall>k \<in> {j..<length (rb_contents rb)}. aa_pkt_num (rb_contents rb ! k) \<le> hi"
  shows "\<exists>r. recv_ack_first rb hi lo u n j = Ok r \<and> scan_ok hi lo u (rb_contents rb) j r"
  using assms(2-)
proof (induction n arbitrary: j)
  case (Suc n)
  then have IH: "\<exists>r. recv_ack_first rb hi lo u n (Suc j) = Ok r \<and> scan_ok hi lo u (rb_contents rb) (Suc j) r"
    by (intro Suc.IH) auto
  have j: "j < length (rb_contents rb)" "aa_pkt_num (rb_contents rb ! j) \<le> hi" using Suc.prems by simp_all
  from IH show ?case
    using j by (auto simp: ringbuf.read [OF assms(1)] ack_usable_def [of u "rb_contents rb ! j"] scan_ok_Suc)
      (auto simp: scan_ok_def ack_usable_def)
qed (auto simp: scan_ok_def)

lemma recv_ack_find_ok:
  assumes "ringbuf_inv rb" and "n = length (rb_contents rb) - j" and "j \<le> length (rb_contents rb)"
  shows "\<exists>r. recv_ack_find rb hi n j = Ok r \<and> (case r of
      None \<Rightarrow> \<forall>k \<in> {j..<length (rb_contents rb)}. hi < aa_pkt_num (rb_contents rb ! k)
    | Some i \<Rightarrow> j \<le> i \<and> i < length (rb_contents rb) \<and> aa_pkt_num (rb_contents rb ! i) \<le> hi \<and>
        (\<forall>k \<in> {j..<i}. hi < aa_pkt_num (rb_contents rb ! k)))"
  using assms(2,3)
proof (induction n arbitrary: j)
  case (Suc n)
  have j: "j < length (rb_contents rb)" using Suc.prems by simp
  have "n = length (rb_contents rb) - Suc j" "Suc j \<le> length (rb_contents rb)" using Suc.prems by simp_all
  from Suc.IH [OF this] obtain r where r: "recv_ack_find rb hi n (Suc j) = Ok r" "case r of
      None \<Rightarrow> \<forall>k \<in> {Suc j..<length (rb_contents rb)}. hi < aa_pkt_num (rb_contents rb ! k)
    | Some i \<Rightarrow> Suc j \<le> i \<and> i < length (rb_contents rb) \<and> aa_pkt_num (rb_contents rb ! i) \<le> hi \<and>
        (\<forall>k \<in> {Suc j..<i}. hi < aa_pkt_num (rb_contents rb ! k))" by blast
  show ?case
  proof (cases "aa_pkt_num (rb_contents rb ! j) \<le> hi")
    case False
    with r j show ?thesis by (cases r) (simp_all add: ringbuf.read [OF assms(1)] ball_from [of j])
  qed (use j in \<open>simp add: ringbuf.read [OF assms(1)]\<close>)
qed auto

lemma desc_by_nth: "desc_by f xs \<Longrightarrow> i \<le> k \<Longrightarrow> k < length xs \<Longrightarrow> f (xs ! k) \<le> f (xs ! i)"
  by (cases "i = k") (auto simp: desc_by_def sorted_wrt_iff_nth_less intro: less_imp_le)

lemma first_hit_extend:
  assumes hit: "first_hit Q as i r" and j: "j \<le> i" "i \<le> length as" and pre: "\<forall>k \<in> {j..<i}. \<not> P (as ! k)"
    and eq: "\<And>k. i \<le> k \<Longrightarrow> k < length as \<Longrightarrow> P (as ! k) \<longleftrightarrow> Q (as ! k)"
  shows "first_hit P as j r"
proof -
  have "\<forall>k \<in> {j..<n}. \<not> P (as ! k)" if "\<forall>k \<in> {i..<n}. \<not> Q (as ! k)" "n \<le> length as" for n
  proof
    fix k
    assume "k \<in> {j..<n}"
    then show "\<not> P (as ! k)" using pre eq [of k] that by (cases "k < i") auto
  qed
  with hit j eq show ?thesis by (cases r) (auto simp: first_hit_def)
qed

text \<open>The next ranges are searched from the element at which a range ended.\<close>

lemma scan_first_hit:
  assumes scan: "scan_ok hi lo u as j r" and desc: "desc_by aa_pkt_num as" and rs: "desc_ranges lo rs" "lo \<le> hi"
    and P: "\<And>a. P a \<longleftrightarrow> ack_usable u a \<and> (lo \<le> aa_pkt_num a \<and> aa_pkt_num a \<le> hi \<or> Q a)"
    and Q: "\<And>a. Q a \<longleftrightarrow> (\<exists>(h, l) \<in> set rs. l \<le> aa_pkt_num a \<and> aa_pkt_num a \<le> h)"
    and rest: "case r of Below i \<Rightarrow> first_hit (\<lambda>a. ack_usable u a \<and> Q a) as i r' | _ \<Rightarrow> r' = r"
  shows "first_hit P as j r'"
proof -
  have above: "\<not> P a" if "hi < aa_pkt_num a \<or> \<not> ack_usable u a" for a
    using that rs desc_ranges_below [OF rs(1)] unfolding P Q by fastforce
  show ?thesis
  proof (cases r)
    case (Below i)
    have i: "j \<le> i" "i < length as" "aa_pkt_num (as ! i) < lo" "\<forall>k \<in> {j..<i}. \<not> P (as ! k)"
      using scan Below above by (auto simp: scan_ok_def)
    have "P (as ! k) \<longleftrightarrow> ack_usable u (as ! k) \<and> Q (as ! k)" if "i \<le> k" "k < length as" for k
      using desc_by_nth [OF desc that] i(3) unfolding P by fastforce
    with rest i show ?thesis by (intro first_hit_extend [of _ as i r' j P]) (simp_all add: Below)
  qed (use scan above rest P in \<open>auto simp: scan_ok_def first_hit_def\<close>)
qed

lemma recv_ack_blks_ok:
  assumes "ringbuf_inv rb" and "desc_by aa_pkt_num (rb_contents rb)" and "desc_ranges m (blk_ranges m bl)"
    and "j \<le> length (rb_contents rb)"
  shows "\<exists>r. recv_ack_blks rb m bl u (length (rb_contents rb)) j = Ok r \<and>
    first_hit (\<lambda>a. ack_usable u a \<and> (\<exists>(h, l) \<in> set (blk_ranges m bl). l \<le> aa_pkt_num a \<and> aa_pkt_num a \<le> h)) (rb_contents rb) j r"
  using assms(3,4)
proof (induction bl arbitrary: m j)
  case (Cons b bl)
  let ?h = "m - blk_gap b - 2" and ?l = "m - blk_gap b - 2 - blk_blklen b"
  have D: "desc_ranges ?l (blk_ranges ?l bl)" "?l \<le> ?h" using Cons.prems by (simp_all add: Let_def)
  obtain r where r: "recv_ack_range rb ?h ?l u (length (rb_contents rb) - j) j = Ok r" "scan_ok ?h ?l u (rb_contents rb) j r"
    using recv_ack_range_ok [OF assms(1) refl Cons.prems(2)] by blast
  obtain r' where r': "(case r of Below j' \<Rightarrow> recv_ack_blks rb ?l bl u (length (rb_contents rb)) j' | _ \<Rightarrow> Ok r) = Ok r'"
    "case r of Below i \<Rightarrow>
      first_hit (\<lambda>a. ack_usable u a \<and> (\<exists>(h, l) \<in> set (blk_ranges ?l bl). l \<le> aa_pkt_num a \<and> aa_pkt_num a \<le> h)) (rb_contents rb) i r'
      | _ \<Rightarrow> r' = r"
    using r(2) Cons.IH [OF D(1) less_imp_le] by (cases r) (auto simp: scan_ok_def)
  have "first_hit (\<lambda>a. ack_usable u a \<and> (\<exists>(h, l) \<in> set (blk_ranges m (b # bl)). l \<le> aa_pkt_num a \<and> aa_pkt_num a \<le> h)) (rb_contents rb) j r'"
    by (rule scan_first_hit [OF r(2) assms(2) D _ refl r'(2)]) (auto simp: Let_def)
  with r r' show ?case by (auto simp: Let_def)
qed (simp add: first_hit_def)

lemma recv_ack_search_ok:
  assumes inv: "ringbuf_inv rb" and desc: "desc_by aa_pkt_num (rb_contents rb)" and v: "ack_valid fr"
    and j: "j < length (rb_contents rb)" "aa_pkt_num (rb_contents rb ! j) \<le> ack_largest_ack fr"
  shows "\<exists>r r'. recv_ack_first rb (ack_largest_ack fr) (ack_largest_ack fr - ack_first_ack_blklen fr) u (length (rb_contents rb) - j) j = Ok r \<and>
    (case r of Below j' \<Rightarrow> recv_ack_blks rb (ack_largest_ack fr - ack_first_ack_blklen fr) (ack_blks fr) u (length (rb_contents rb)) j'
      | _ \<Rightarrow> Ok r) = Ok r' \<and>
    first_hit (\<lambda>a. ack_usable u a \<and> acked fr (aa_pkt_num a)) (rb_contents rb) j r'"
proof -
  let ?h = "ack_largest_ack fr" and ?l = "ack_largest_ack fr - ack_first_ack_blklen fr"
  note V = ack_valid_ranges [OF v]
  have low: "\<forall>k \<in> {j..<length (rb_contents rb)}. aa_pkt_num (rb_contents rb ! k) \<le> ?h"
    using desc_by_nth [OF desc, of j] j(2) by (meson atLeastLessThan_iff order.trans)
  obtain r where r: "recv_ack_first rb ?h ?l u (length (rb_contents rb) - j) j = Ok r" "scan_ok ?h ?l u (rb_contents rb) j r"
    using recv_ack_first_ok [OF inv refl less_imp_le [OF j(1)] low] by blast
  have "\<exists>r'. (case r of Below j' \<Rightarrow> recv_ack_blks rb ?l (ack_blks fr) u (length (rb_contents rb)) j' | _ \<Rightarrow> Ok r) = Ok r' \<and>
    (case r of Below i \<Rightarrow>
      first_hit (\<lambda>a. ack_usable u a \<and> (\<exists>(h, l) \<in> set (blk_ranges ?l (ack_blks fr)). l \<le> aa_pkt_num a \<and> aa_pkt_num a \<le> h)) (rb_contents rb) i r'
      | _ \<Rightarrow> r' = r)"
    using r(2) recv_ack_blks_ok [OF inv desc V(3) less_imp_le] by (cases r) (simp_all add: scan_ok_def)
  then obtain r' where r': "(case r of Below j' \<Rightarrow> recv_ack_blks rb ?l (ack_blks fr) u (length (rb_contents rb)) j' | _ \<Rightarrow> Ok r) = Ok r'"
    "case r of Below i \<Rightarrow>
      first_hit (\<lambda>a. ack_usable u a \<and> (\<exists>(h, l) \<in> set (blk_ranges ?l (ack_blks fr)). l \<le> aa_pkt_num a \<and> aa_pkt_num a \<le> h)) (rb_contents rb) i r'
      | _ \<Rightarrow> r' = r" by blast
  have "first_hit (\<lambda>a. ack_usable u a \<and> acked fr (aa_pkt_num a)) (rb_contents rb) j r'"
    by (rule scan_first_hit [OF r(2) desc V(3,2) _ refl r'(2)]) (auto simp: acked_def)
  with r r' show ?thesis by blast
qed

lemma ringbuf_read_from_ok:
  assumes "ringbuf_inv rb" and "i + n \<le> length (rb_contents rb)"
  shows "ringbuf_read_from rb n i = Ok ()"
  using assms(2) by (induction n arbitrary: i) (simp_all add: ringbuf.read [OF assms(1)])

lemma acktr_on_ack_ok:
  assumes wf: "acktr_wf acktr" and i: "i < length (acktr_acks acktr)"
  shows "\<exists>acktr'. acktr_on_ack acktr i = Ok acktr' \<and> acktr_wf acktr' \<and> acktr_acks acktr' = take i (acktr_acks acktr) \<and>
    at_ent acktr' = filter (\<lambda>e. \<not> acked (aa_ack (acktr_acks acktr ! i)) (ae_pkt_num e)) (at_ent acktr)"
proof -
  let ?rb = "at_acks acktr" and ?fr = "aa_ack (acktr_acks acktr ! i)"
  have rb: "ringbuf_inv ?rb" "acktr_list_ok acktr" "ack_valid ?fr"
    using wf i by (auto simp: acktr_wf_def)
  note E = on_ack_entries_ok [OF rb(2,3)]
  have len: "length (rb_contents ?rb) = unat (rb_len ?rb)" by (simp add: rb_contents_def)
  have iw: "unat (of_nat i :: u64) = i" "of_nat i \<le> rb_len ?rb"
    using i len unat_u64_less [of "rb_len ?rb"] unat_of_nat_small [of i, where 'a=64]
    by (auto simp: acktr_acks_def word_le_nat_alt simp del: unat_u64_less)
  obtain rb' where rb': "ngtcp2_ringbuf_resize ?rb (of_nat i) = Ok rb'" "ringbuf_inv rb'" "rb_contents rb' = take i (rb_contents ?rb)"
    using ringbuf_resize_ok [OF rb(1) iw(2)] iw(1) by auto
  have run: "acktr_on_ack acktr i = Ok ((on_ack_entries acktr ?fr)\<lparr>at_acks := rb'\<rparr>)"
    using i len E(2) rb' ringbuf_read_from_ok [OF rb(1), of i] ringbuf.read [OF rb(1), of i]
    by (simp add: acktr_on_ack_def acktr_acks_def)
  have "acktr_wf ((on_ack_entries acktr ?fr)\<lparr>at_acks := rb'\<rparr>)"
    using wf E rb'
    by (auto simp: acktr_wf_def acktr_acks_def acktr_list_ok_def dest: in_set_takeD)
  with run E(3) rb'(3) show ?thesis by (simp add: acktr_acks_def)
qed

lemma acktr_recv_ack_ok:
  assumes inv: "acktr_inv acktr" and v: "ack_valid fr"
  shows "\<exists>acktr'. ngtcp2_acktr_recv_ack acktr fr u = Ok acktr' \<and> acktr_inv acktr' \<and>
    (let confirms = (\<lambda>a. ack_usable u a \<and> acked fr (aa_pkt_num a)) in
     acktr_acks acktr' = takeWhile (\<lambda>a. \<not> confirms a) (acktr_acks acktr) \<and>
     at_ent acktr' = (case find confirms (acktr_acks acktr) of
         None \<Rightarrow> at_ent acktr
       | Some a \<Rightarrow> filter (\<lambda>e. \<not> acked (aa_ack a) (ae_pkt_num e)) (at_ent acktr)))"
proof -
  let ?rb = "at_acks acktr" and ?P = "\<lambda>a. ack_usable u a \<and> acked fr (aa_pkt_num a)"
  have rb: "ringbuf_inv ?rb" "desc_by aa_pkt_num (rb_contents ?rb)" using inv by (auto simp: acktr_inv_def acktr_acks_def)
  have len: "unat (ngtcp2_ringbuf_len ?rb) = length (rb_contents ?rb)" by (simp add: rb_contents_def ngtcp2_ringbuf_len_def)
  note V = ack_valid_ranges [OF v]
  have above: "\<not> ?P a" if "ack_largest_ack fr < aa_pkt_num a" for a
    using that V(2) desc_ranges_below [OF V(3)] by (fastforce simp: acked_def)
  obtain oj where oj: "recv_ack_find ?rb (ack_largest_ack fr) (length (rb_contents ?rb)) 0 = Ok oj" "case oj of
      None \<Rightarrow> \<forall>k \<in> {0..<length (rb_contents ?rb)}. ack_largest_ack fr < aa_pkt_num (rb_contents ?rb ! k)
    | Some i \<Rightarrow> 0 \<le> i \<and> i < length (rb_contents ?rb) \<and> aa_pkt_num (rb_contents ?rb ! i) \<le> ack_largest_ack fr \<and>
        (\<forall>k \<in> {0..<i}. ack_largest_ack fr < aa_pkt_num (rb_contents ?rb ! k))"
    using recv_ack_find_ok [OF rb(1), of "length (rb_contents ?rb)" 0 "ack_largest_ack fr"] by auto
  have none: "takeWhile (\<lambda>a. \<not> ?P a) (rb_contents ?rb) = rb_contents ?rb \<and> find ?P (rb_contents ?rb) = None"
    if "\<forall>k < length (rb_contents ?rb). \<not> ?P (rb_contents ?rb ! k)"
    using that by (auto simp: takeWhile_eq_all_conv find_None_iff in_set_conv_nth)
  show ?thesis
  proof (cases oj)
    case None
    with oj none above inv show ?thesis
      by (simp add: ngtcp2_acktr_recv_ack_def len acktr_acks_def del: takeWhile_eq_all_conv)
  next
    case (Some j)
    then obtain r r' where r: "recv_ack_first ?rb (ack_largest_ack fr) (ack_largest_ack fr - ack_first_ack_blklen fr) u (length (rb_contents ?rb) - j) j = Ok r"
      "(case r of Below j' \<Rightarrow> recv_ack_blks ?rb (ack_largest_ack fr - ack_first_ack_blklen fr) (ack_blks fr) u (length (rb_contents ?rb)) j'
        | _ \<Rightarrow> Ok r) = Ok r'"
      "first_hit ?P (rb_contents ?rb) j r'"
      using recv_ack_search_ok [OF rb v, of j u] oj(2) by auto
    have run: "ngtcp2_acktr_recv_ack acktr fr u = (case r' of Hit i \<Rightarrow> acktr_on_ack acktr i | _ \<Rightarrow> Ok acktr)"
      unfolding ngtcp2_acktr_recv_ack_def len Let_def using oj Some r by simp
    have before: "\<not> ?P (rb_contents ?rb ! k)" if "k < j" for k using that oj(2) Some above by simp
    have hit0: "first_hit ?P (rb_contents ?rb) 0 r'"
      by (rule first_hit_extend [OF r(3)]) (use before oj(2) Some in auto)
    show ?thesis
    proof (cases "\<exists>i. r' = Hit i")
      case False
      then have "\<forall>k < length (rb_contents ?rb). \<not> ?P (rb_contents ?rb ! k)" "ngtcp2_acktr_recv_ack acktr fr u = Ok acktr"
        using hit0 run by (cases r'; simp add: first_hit_def)+
      with none inv show ?thesis by (simp add: acktr_acks_def del: takeWhile_eq_all_conv)
    next
      case True
      then obtain i where i: "r' = Hit i" "i < length (acktr_acks acktr)" "?P (acktr_acks acktr ! i)" "\<forall>k < i. \<not> ?P (acktr_acks acktr ! k)"
        using hit0 by (auto simp: first_hit_def acktr_acks_def)
      have "takeWhile (\<lambda>a. \<not> ?P a) (acktr_acks acktr) = take i (acktr_acks acktr)"
        using i by (intro takeWhile_eq_take_P_nth) auto
      moreover have "find ?P (acktr_acks acktr) = Some (acktr_acks acktr ! i)" using i by (auto simp: find_Some_iff)
      ultimately show ?thesis using acktr_on_ack_ok [OF _ i(2)] inv run i(1) by (auto simp: Let_def acktr_inv_wf desc_by_take)
    qed
  qed
qed

text \<open>Without the order of the sent ACK frames the search may end elsewhere, but stays in the buffer.\<close>

definition state_within :: "nat \<Rightarrow> recv_state \<Rightarrow> bool" where
  "state_within n r \<longleftrightarrow> (case r of Hit i \<Rightarrow> i < n | Below i \<Rightarrow> i < n | Done \<Rightarrow> True)"

lemma recv_ack_first_within:
  assumes "ringbuf_inv rb" and "n = length (rb_contents rb) - j"
  shows "\<exists>r. recv_ack_first rb hi lo u n j = Ok r \<and> state_within (length (rb_contents rb)) r"
  using assms(2)
proof (induction n arbitrary: j)
  case (Suc n)
  have "n = length (rb_contents rb) - Suc j" "j < length (rb_contents rb)" using Suc.prems by simp_all
  with Suc.IH [of "Suc j"] show ?case by (auto simp: ringbuf.read [OF assms(1)] state_within_def [of _ "Hit _"] state_within_def [of _ "Below _"])
qed (simp add: state_within_def)

lemma recv_ack_blks_within:
  assumes "ringbuf_inv rb" and "j \<le> length (rb_contents rb)"
  shows "\<exists>r. recv_ack_blks rb m bl u (length (rb_contents rb)) j = Ok r \<and> state_within (length (rb_contents rb)) r"
  using assms(2)
proof (induction bl arbitrary: m j)
  case (Cons b bl)
  obtain r where r: "recv_ack_range rb (m - blk_gap b - 2) (m - blk_gap b - 2 - blk_blklen b) u (length (rb_contents rb) - j) j = Ok r"
      "scan_ok (m - blk_gap b - 2) (m - blk_gap b - 2 - blk_blklen b) u (rb_contents rb) j r"
    using recv_ack_range_ok [OF assms(1) refl Cons.prems] by blast
  then show ?case using Cons.IH by (cases r) (auto simp: Let_def scan_ok_def state_within_def)
qed (simp add: state_within_def)

lemma acktr_recv_ack_wf:
  assumes wf: "acktr_wf acktr"
  shows "\<exists>acktr'. ngtcp2_acktr_recv_ack acktr fr u = Ok acktr' \<and> acktr_wf acktr'"
proof -
  let ?rb = "at_acks acktr" and ?l = "ack_largest_ack fr - ack_first_ack_blklen fr"
  have rb: "ringbuf_inv ?rb" using wf by (simp add: acktr_wf_def)
  have len: "unat (ngtcp2_ringbuf_len ?rb) = length (rb_contents ?rb)" by (simp add: rb_contents_def ngtcp2_ringbuf_len_def)
  obtain oj where oj: "recv_ack_find ?rb (ack_largest_ack fr) (length (rb_contents ?rb)) 0 = Ok oj"
    using recv_ack_find_ok [OF rb, of "length (rb_contents ?rb)" 0 "ack_largest_ack fr"] by auto
  have search: "\<exists>r. rbind (recv_ack_first ?rb (ack_largest_ack fr) ?l u (length (rb_contents ?rb) - j) j)
      (\<lambda>r. case r of Below j' \<Rightarrow> recv_ack_blks ?rb ?l (ack_blks fr) u (length (rb_contents ?rb)) j' | _ \<Rightarrow> Ok r) = Ok r \<and>
      state_within (length (rb_contents ?rb)) r" for j
  proof -
    obtain r where r: "recv_ack_first ?rb (ack_largest_ack fr) ?l u (length (rb_contents ?rb) - j) j = Ok r" "state_within (length (rb_contents ?rb)) r"
      using recv_ack_first_within [OF rb refl] by blast
    then show ?thesis using recv_ack_blks_within [OF rb] by (cases r) (auto simp: state_within_def [of _ "Below _"])
  qed
  then show ?thesis
  proof (cases oj)
    case (Some j)
    then obtain r r' where r: "recv_ack_first ?rb (ack_largest_ack fr) ?l u (length (rb_contents ?rb) - j) j = Ok r"
        "(case r of Below j' \<Rightarrow> recv_ack_blks ?rb ?l (ack_blks fr) u (length (rb_contents ?rb)) j' | _ \<Rightarrow> Ok r) = Ok r'"
        "state_within (length (rb_contents ?rb)) r'"
      using search [of j] by (auto simp: rbind_Ok_iff)
    have run: "ngtcp2_acktr_recv_ack acktr fr u = (case r' of Hit i \<Rightarrow> acktr_on_ack acktr i | _ \<Rightarrow> Ok acktr)"
      unfolding ngtcp2_acktr_recv_ack_def len Let_def using oj Some r by simp
    show ?thesis
    proof (cases r')
      case (Hit i)
      then show ?thesis using acktr_on_ack_ok [OF wf, of i] r(3) run by (auto simp: state_within_def acktr_acks_def)
    qed (use run wf in simp_all)
  qed (use oj wf in \<open>simp add: ngtcp2_acktr_recv_ack_def len\<close>)
qed

section \<open>States of the tracker\<close>

text \<open>
  The states that the operations reach from an initialised tracker. A sent ACK frame is valid and
  comes with a packet number above those of the frames before it, and the frames received were
  validated; \<open>forget\<close> is given an entry of the list, \<open>pop\<close> a list that is not empty.
\<close>

inductive acktr_reachable :: "ngtcp2_acktr \<Rightarrow> bool" where
  init: "ngtcp2_acktr_init mem = (Ok acktr, mem') \<Longrightarrow> acktr_reachable acktr"
| add: "acktr_reachable acktr \<Longrightarrow> ngtcp2_acktr_add acktr ent active_ack = Ok (acktr', rv) \<Longrightarrow> acktr_reachable acktr'"
| forget: "acktr_reachable acktr \<Longrightarrow> n \<in> ae_pkt_num ` set (at_ent acktr) \<Longrightarrow> acktr_reachable (ngtcp2_acktr_forget acktr n)"
| pop: "acktr_reachable acktr \<Longrightarrow> at_ent acktr \<noteq> [] \<Longrightarrow> ngtcp2_acktr_pop acktr = Ok acktr' \<Longrightarrow> acktr_reachable acktr'"
| add_ack: "acktr_reachable acktr \<Longrightarrow> ack_valid fr \<Longrightarrow> \<forall>a \<in> set (acktr_acks acktr). aa_pkt_num a < n \<Longrightarrow>
    ngtcp2_acktr_add_ack acktr n fr unprotected = Ok acktr' \<Longrightarrow> acktr_reachable acktr'"
| recv_ack: "acktr_reachable acktr \<Longrightarrow> ack_valid fr \<Longrightarrow> ngtcp2_acktr_recv_ack acktr fr unprotected = Ok acktr' \<Longrightarrow> acktr_reachable acktr'"

lemma acktr_init_inv:
  assumes "ngtcp2_acktr_init mem = (Ok acktr, mem')"
  shows "acktr_inv acktr"
proof -
  obtain rb where rb: "ngtcp2_ringbuf_init (2 ^ 7) 24 mem = (Ok rb, mem')"
      "acktr = \<lparr>at_acks = rb, at_ent = [], at_tail = TailNull, at_nack = 0, at_active_ack = False\<rparr>"
    using assms by (auto simp: ngtcp2_acktr_init_def split: prod.splits result.splits)
  from ringbuf_init_inv [OF _ rb(1)] show ?thesis by (simp add: rb(2) acktr_inv_def acktr_acks_def acktr_list_ok_def)
qed

lemma acktr_add_ack_wf:
  assumes wf: "acktr_wf acktr" and fr: "ack_valid fr"
  shows "\<exists>acktr'. ngtcp2_acktr_add_ack acktr n fr unprotected = Ok acktr' \<and> acktr_wf acktr' \<and> at_ent acktr' = at_ent acktr \<and>
    acktr_acks acktr' = take (unat (rb_nmemb (at_acks acktr)))
      (\<lparr>aa_ack = fr, aa_pkt_num = n, aa_unprotected = unprotected\<rparr> # acktr_acks acktr)"
proof -
  let ?a = "\<lparr>aa_ack = fr, aa_pkt_num = n, aa_unprotected = unprotected\<rparr>"
  obtain rb where rb: "ringbuf_push ?a (at_acks acktr) = Ok rb" "ringbuf_inv rb"
      "rb_contents rb = take (unat (rb_nmemb (at_acks acktr))) (?a # acktr_acks acktr)"
    using wf ringbuf_push_ok [of "at_acks acktr" ?a] by (auto simp: acktr_wf_def acktr_acks_def)
  have "\<forall>a \<in> set (rb_contents rb). ack_valid (aa_ack a)"
    unfolding rb(3) using wf fr by (auto simp: acktr_wf_def dest!: in_set_takeD)
  then show ?thesis using wf rb
    by (simp add: ngtcp2_acktr_add_ack_def acktr_wf_def acktr_acks_def acktr_list_ok_def)
qed

lemma acktr_add_ack_ok:
  assumes inv: "acktr_inv acktr" and fr: "ack_valid fr" and n: "\<forall>a \<in> set (acktr_acks acktr). aa_pkt_num a < n"
  shows "\<exists>acktr'. ngtcp2_acktr_add_ack acktr n fr unprotected = Ok acktr' \<and> acktr_inv acktr' \<and>
    acktr_acks acktr' = take (unat (rb_nmemb (at_acks acktr)))
      (\<lparr>aa_ack = fr, aa_pkt_num = n, aa_unprotected = unprotected\<rparr> # acktr_acks acktr)"
proof -
  have "desc_by aa_pkt_num (\<lparr>aa_ack = fr, aa_pkt_num = n, aa_unprotected = unprotected\<rparr> # acktr_acks acktr)"
    using inv n by (simp add: acktr_inv_def)
  from acktr_add_ack_wf [OF _ fr, of acktr n unprotected] desc_by_take [OF this] inv show ?thesis by (force simp: acktr_inv_wf)
qed

lemma acktr_wf_cong:
  "acktr_wf acktr \<Longrightarrow> acktr_list_ok acktr' \<Longrightarrow> at_acks acktr' = at_acks acktr \<Longrightarrow> acktr_wf acktr'"
  by (simp add: acktr_wf_def acktr_acks_def)

lemma acktr_inv_cong:
  "acktr_inv acktr \<Longrightarrow> acktr_list_ok acktr' \<Longrightarrow> at_acks acktr' = at_acks acktr \<Longrightarrow> acktr_inv acktr'"
  by (simp add: acktr_inv_def acktr_acks_def)

lemma acktr_same_acks:
  "at_acks (ngtcp2_acktr_forget acktr n) = at_acks acktr"
  "ngtcp2_acktr_pop acktr = Ok acktr' \<Longrightarrow> at_acks acktr' = at_acks acktr"
  by (auto simp: ngtcp2_acktr_forget_def ngtcp2_acktr_pop_def Let_def result_simps)

lemma acktr_reachable_inv: "acktr_reachable acktr \<Longrightarrow> acktr_inv acktr"
proof (induction rule: acktr_reachable.induct)
  case (add acktr ent active_ack acktr' rv)
  then show ?case using acktr_add_ok [of acktr ent active_ack] acktr_inv_cong [of acktr acktr'] by (auto simp: acktr_inv_def [of acktr])
next
  case (forget acktr n)
  then show ?case using acktr_forget_ok(1) acktr_same_acks(1) acktr_inv_cong by (meson acktr_inv_def)
next
  case (pop acktr acktr')
  then have "acktr_list_ok acktr'" using acktr_pop_ok [of acktr] by (auto simp: acktr_inv_def)
  then show ?case using pop.IH acktr_same_acks(2) [OF pop.hyps(3)] acktr_inv_cong by blast
next
  case (add_ack acktr fr n unprotected acktr')
  then show ?case using acktr_add_ack_ok [of acktr fr n unprotected] by auto
next
  case (recv_ack acktr fr unprotected acktr')
  then show ?case using acktr_recv_ack_ok [of acktr fr unprotected] by auto
qed (rule acktr_init_inv)

text \<open>
  C25. Every operation of the ACK tracker succeeds in every state that the operations reach, without a
  failed assertion or an access outside of the list or of the ring buffer: adding a packet, removing
  the first entry of a list that is not empty, recording a sent ACK frame and processing a validated
  ACK frame. In each such state the entries are in decreasing order of their packet numbers, the
  counter is their number, and there are at most 1024 of them.
\<close>

theorem acktr_never_faults:
  assumes "acktr_reachable acktr"
  shows "ngtcp2_acktr_add acktr ent active_ack \<noteq> Fault \<and>
    (ngtcp2_acktr_pop acktr = Fault \<longleftrightarrow> ngtcp2_acktr_get acktr = []) \<and>
    (ack_valid fr \<longrightarrow> ngtcp2_acktr_recv_ack acktr fr unprotected \<noteq> Fault) \<and>
    (ack_valid fr \<longrightarrow> (\<forall>a \<in> set (acktr_acks acktr). aa_pkt_num a < n) \<longrightarrow> ngtcp2_acktr_add_ack acktr n fr unprotected \<noteq> Fault) \<and>
    desc_by ae_pkt_num (ngtcp2_acktr_get acktr) \<and>
    unat (at_nack acktr) = length (ngtcp2_acktr_get acktr) \<and> length (ngtcp2_acktr_get acktr) \<le> 1024"
proof (intro conjI impI)
  have inv: "acktr_inv acktr" using assms by (rule acktr_reachable_inv)
  then have ok: "acktr_list_ok acktr" by (simp add: acktr_inv_def)
  show "ngtcp2_acktr_add acktr ent active_ack \<noteq> Fault" using acktr_add_ok [OF ok, of ent active_ack] by auto
  show "ngtcp2_acktr_pop acktr = Fault \<longleftrightarrow> ngtcp2_acktr_get acktr = []"
    by (simp add: ngtcp2_acktr_pop_def ngtcp2_acktr_get_def result_simps)
  show "ngtcp2_acktr_recv_ack acktr fr unprotected \<noteq> Fault" if "ack_valid fr"
    using acktr_recv_ack_ok [OF inv that, of unprotected] by auto
  show "ngtcp2_acktr_add_ack acktr n fr unprotected \<noteq> Fault" if "ack_valid fr" "\<forall>a \<in> set (acktr_acks acktr). aa_pkt_num a < n"
    using acktr_add_ack_ok [OF inv that, of unprotected] by auto
qed (use acktr_reachable_inv [OF assms] in \<open>auto simp: acktr_inv_def acktr_list_ok_def ngtcp2_acktr_get_def\<close>)

theorem acktr_never_faults_witness:
  "\<exists>acktr. ngtcp2_acktr_init [] = (Ok acktr, []) \<and>
     ngtcp2_acktr_add acktr \<lparr>ae_pkt_num = 1, ae_tstamp = 0, ae_unprotected = 0\<rparr> True \<noteq> Fault \<and> length (ngtcp2_acktr_get acktr) \<le> 1024"
proof -
  obtain acktr where a: "ngtcp2_acktr_init [] = (Ok acktr, [])"
    using popcount_pow2 [of 7] by (simp add: ngtcp2_acktr_init_def ngtcp2_ringbuf_init_def)
  then have "acktr_reachable acktr" by (rule acktr_reachable.init)
  with a acktr_never_faults [of acktr] show ?thesis by blast
qed

text \<open>
  C26. Adding a received packet: a packet number that is already recorded gives \<open>NGTCP2_ERR_PROTO\<close>
  and leaves the tracker as it is; any other one is inserted in its place in decreasing order, and of
  the result the 1024 largest packet numbers are kept. An entry that asks for it makes the tracker
  send an acknowledgement.
\<close>

theorem acktr_add_keeps_largest:
  assumes "acktr_reachable acktr"
  shows "\<exists>acktr' rv. ngtcp2_acktr_add acktr ent active_ack = Ok (acktr', rv) \<and>
    (if ae_pkt_num ent \<in> ae_pkt_num ` set (ngtcp2_acktr_get acktr) then rv = Some NGTCP2_ERR_PROTO \<and> acktr' = acktr
     else rv = None \<and> (active_ack \<longrightarrow> at_active_ack acktr') \<and>
       ngtcp2_acktr_get acktr' = take 1024 (filter (\<lambda>e. ae_pkt_num ent < ae_pkt_num e) (ngtcp2_acktr_get acktr)
         @ ent # filter (\<lambda>e. ae_pkt_num e < ae_pkt_num ent) (ngtcp2_acktr_get acktr)))"
  using acktr_add_ok [of acktr ent active_ack] acktr_reachable_inv [OF assms] unfolding ngtcp2_acktr_get_def acktr_inv_def by metis

theorem acktr_add_keeps_largest_witness:
  "\<exists>acktr. ngtcp2_acktr_init [] = (Ok acktr, []) \<and> (\<exists>acktr' rv.
     ngtcp2_acktr_add acktr \<lparr>ae_pkt_num = 1, ae_tstamp = 0, ae_unprotected = 0\<rparr> True = Ok (acktr', rv) \<and> rv = None \<and> at_active_ack acktr')"
proof -
  obtain acktr where a: "ngtcp2_acktr_init [] = (Ok acktr, [])"
    using popcount_pow2 [of 7] by (simp add: ngtcp2_acktr_init_def ngtcp2_ringbuf_init_def)
  then have "ngtcp2_acktr_get acktr = []"
    using popcount_pow2 [of 7] by (auto simp: ngtcp2_acktr_init_def ngtcp2_ringbuf_init_def ngtcp2_acktr_get_def)
  with a acktr_add_keeps_largest [OF acktr_reachable.init [OF a], of "\<lparr>ae_pkt_num = 1, ae_tstamp = 0, ae_unprotected = 0\<rparr>" True]
  show ?thesis by auto
qed

text \<open>
  C24. Processing a validated ACK frame: the most recent of the sent ACK frames whose packet it
  acknowledges (an unprotected packet can only confirm frames sent in unprotected packets) is taken;
  the packets which that frame acknowledged are no longer reported, that frame and the older ones are
  forgotten, and the more recent ones stay. Without such a frame nothing changes in the lists.
\<close>

theorem acktr_recv_ack_confirms:
  assumes "acktr_reachable acktr" and "ack_valid fr"
  shows "\<exists>acktr'. ngtcp2_acktr_recv_ack acktr fr unprotected = Ok acktr' \<and>
    (let confirms = (\<lambda>a. ack_usable unprotected a \<and> acked fr (aa_pkt_num a)) in
     acktr_acks acktr' = takeWhile (\<lambda>a. \<not> confirms a) (acktr_acks acktr) \<and>
     ngtcp2_acktr_get acktr' = (case find confirms (acktr_acks acktr) of
         None \<Rightarrow> ngtcp2_acktr_get acktr
       | Some a \<Rightarrow> filter (\<lambda>e. \<not> acked (aa_ack a) (ae_pkt_num e)) (ngtcp2_acktr_get acktr)))"
  using acktr_recv_ack_ok [OF acktr_reachable_inv [OF assms(1)] assms(2), of unprotected]
  unfolding ngtcp2_acktr_get_def Let_def by blast

theorem acktr_recv_ack_confirms_witness:
  "\<exists>acktr. ngtcp2_acktr_init [] = (Ok acktr, []) \<and> (\<exists>acktr2.
     ngtcp2_acktr_add_ack acktr 7 \<lparr>ack_largest_ack = 5, ack_ack_delay = 0, ack_first_ack_blklen = 0, ack_blks = []\<rparr> 0 = Ok acktr2 \<and>
     (\<exists>acktr3. ngtcp2_acktr_recv_ack acktr2 \<lparr>ack_largest_ack = 7, ack_ack_delay = 0, ack_first_ack_blklen = 0, ack_blks = []\<rparr> 0 = Ok acktr3 \<and>
       acktr_acks acktr2 \<noteq> [] \<and> acktr_acks acktr3 = []))"
proof -
  let ?f = "\<lambda>n. \<lparr>ack_largest_ack = n, ack_ack_delay = 0, ack_first_ack_blklen = 0, ack_blks = []\<rparr>"
  obtain acktr where a: "ngtcp2_acktr_init [] = (Ok acktr, [])"
    using popcount_pow2 [of 7] by (simp add: ngtcp2_acktr_init_def ngtcp2_ringbuf_init_def)
  then have e: "acktr_acks acktr = []" "unat (rb_nmemb (at_acks acktr)) = 128"
    using popcount_pow2 [of 7] by (auto simp: ngtcp2_acktr_init_def ngtcp2_ringbuf_init_def acktr_acks_def rb_contents_def)
  have v: "ack_valid (?f n)" for n by (simp add: ack_valid_def ngtcp2_pkt_validate_ack_def)
  obtain acktr2 where b: "ngtcp2_acktr_add_ack acktr 7 (?f 5) 0 = Ok acktr2"
      "acktr_acks acktr2 = [\<lparr>aa_ack = ?f 5, aa_pkt_num = 7, aa_unprotected = 0\<rparr>]"
    using acktr_add_ack_ok [OF acktr_init_inv [OF a] v, of 7 5 0] e by auto
  have "acktr_reachable acktr2" using acktr_reachable.add_ack [OF acktr_reachable.init [OF a] v _ b(1)] e by simp
  from acktr_recv_ack_confirms [OF this v, of 7 0] a b show ?thesis by (auto simp: Let_def ack_usable_def acked_def)
qed

end
