(* ===== verification/Rtb.thy ===== *)
theory Rtb
  imports Pq Acktr
begin

text \<open>
  \<^verbatim>\<open>lib/ngtcp2_rtb.c\<close>: the sent packets that wait for an acknowledgement. An entry is identified by
  its address, a natural number, and \<open>rtb_store\<close> gives the contents of the entries; \<open>rtb_head\<close> is the
  linked list, in decreasing order of packet numbers, and \<open>rtb_pq\<close> the priority queue ordered by
  expiry, both of addresses. What the connection does for an acknowledged packet is an argument of
  \<open>ngtcp2_rtb_recv_ack\<close>, on the state \<open>'s\<close> of the connection; it is \<open>None\<close> without a connection or
  without the callback.
\<close>

section \<open>Operations\<close>

record ngtcp2_rtb_entry =
  re_hd :: ngtcp2_pkt_hd
  re_frc :: "ngtcp2_frame list"
  re_expiry :: u64
  re_deadline :: u64
  re_count :: u64
  re_pktlen :: u64
  re_flags :: u8

record ngtcp2_rtb =
  rtb_pq :: "nat ngtcp2_pq"
  rtb_head :: "nat list"
  rtb_store :: "nat \<Rightarrow> ngtcp2_rtb_entry"
  rtb_bytes_in_flight :: u64
  rtb_largest_acked :: u64

abbreviation NGTCP2_INITIAL_EXPIRY :: u64 where "NGTCP2_INITIAL_EXPIRY \<equiv> 1000000"
abbreviation NGTCP2_RTB_FLAG_UNPROTECTED :: u8 where "NGTCP2_RTB_FLAG_UNPROTECTED \<equiv> 0x1"

definition ngtcp2_rtb_entry_new :: "ngtcp2_pkt_hd \<Rightarrow> ngtcp2_frame list \<Rightarrow> u64 \<Rightarrow> u64 \<Rightarrow> u64 \<Rightarrow> u8 \<Rightarrow> ngtcp2_mem
    \<Rightarrow> ngtcp2_rtb_entry result \<times> ngtcp2_mem" where
  "ngtcp2_rtb_entry_new hdr frc ts deadline pktlen flags mem =
     (let (ok, mem') = ngtcp2_mem_calloc mem in
      (ret_if (\<not> ok) NGTCP2_ERR_NOMEM
         (Ok \<lparr>re_hd = hdr, re_frc = frc, re_expiry = ts + NGTCP2_INITIAL_EXPIRY, re_deadline = deadline, re_count = 0,
              re_pktlen = pktlen, re_flags = flags\<rparr>), mem'))"

text \<open>A shift by the width of the type or more is undefined.\<close>

definition ngtcp2_rtb_entry_extend_expiry :: "ngtcp2_rtb_entry \<Rightarrow> u64 \<Rightarrow> ngtcp2_rtb_entry result" where
  "ngtcp2_rtb_entry_extend_expiry ent ts =
     (let count = re_count ent + 1 in
      c_assert (count < 64) (Ok (ent\<lparr>re_count := count, re_expiry := ts + push_bit (unat count) NGTCP2_INITIAL_EXPIRY\<rparr>)))"

definition expiry_less :: "(nat \<Rightarrow> ngtcp2_rtb_entry) \<Rightarrow> nat \<Rightarrow> nat \<Rightarrow> bool" where
  "expiry_less st lhs rhs \<longleftrightarrow> re_expiry (st lhs) < re_expiry (st rhs)"

definition ngtcp2_rtb_init :: "(nat \<Rightarrow> nat) \<Rightarrow> (nat \<Rightarrow> ngtcp2_rtb_entry) \<Rightarrow> ngtcp2_rtb" where
  "ngtcp2_rtb_init index st =
     \<lparr>rtb_pq = ngtcp2_pq_init index, rtb_head = [], rtb_store = st, rtb_bytes_in_flight = 0, rtb_largest_acked = 0\<rparr>"

text \<open>\<open>ngtcp2_rtb_add rtb p ent\<close>: \<open>ent\<close> is the contents of the entry at address \<open>p\<close>.\<close>

definition ngtcp2_rtb_add :: "ngtcp2_rtb \<Rightarrow> nat \<Rightarrow> ngtcp2_rtb_entry \<Rightarrow> ngtcp2_mem \<Rightarrow> ngtcp2_rtb \<times> ngtcp2_mem \<times> rc" where
  "ngtcp2_rtb_add rtb p ent mem =
     (let rtb = rtb\<lparr>rtb_store := (rtb_store rtb)(p := ent)\<rparr>;
          (pq, mem', rv) = ngtcp2_pq_push (expiry_less (rtb_store rtb)) (rtb_pq rtb) p mem
      in case rv of Some e \<Rightarrow> (rtb\<lparr>rtb_pq := pq\<rparr>, mem', Some e)
         | None \<Rightarrow> (rtb\<lparr>rtb_pq := pq, rtb_head := p # rtb_head rtb,
                       rtb_bytes_in_flight := rtb_bytes_in_flight rtb + re_pktlen ent\<rparr>, mem', None))"

definition ngtcp2_rtb_top :: "ngtcp2_rtb \<Rightarrow> nat option" where
  "ngtcp2_rtb_top rtb = (if ngtcp2_pq_empty (rtb_pq rtb) then None else ngtcp2_pq_top (rtb_pq rtb))"

definition ngtcp2_rtb_pop :: "ngtcp2_rtb \<Rightarrow> ngtcp2_rtb result" where
  "ngtcp2_rtb_pop rtb =
     (if ngtcp2_pq_empty (rtb_pq rtb) then Ok rtb
      else case ngtcp2_pq_top (rtb_pq rtb) of None \<Rightarrow> Fault
        | Some p \<Rightarrow>
            let ent = rtb_store rtb p; pq = ngtcp2_pq_pop (expiry_less (rtb_store rtb)) (rtb_pq rtb) in
            c_assert (rtb_bytes_in_flight rtb \<ge> re_pktlen ent)
              (Ok (rtb\<lparr>rtb_pq := pq, rtb_bytes_in_flight := rtb_bytes_in_flight rtb - re_pktlen ent,
                       rtb_head := remove1 p (rtb_head rtb)\<rparr>)))"

text \<open>\<open>rtb_remove rtb pre p xs\<close> removes the entry \<open>p\<close>, which stands between \<open>pre\<close> and \<open>xs\<close>.\<close>

definition rtb_remove :: "ngtcp2_rtb \<Rightarrow> nat list \<Rightarrow> nat \<Rightarrow> nat list \<Rightarrow> ngtcp2_rtb result" where
  "rtb_remove rtb pre p xs =
     rbind (ngtcp2_pq_remove (expiry_less (rtb_store rtb)) (rtb_pq rtb) p) (\<lambda>pq.
     c_assert (rtb_bytes_in_flight rtb \<ge> re_pktlen (rtb_store rtb p))
       (Ok (rtb\<lparr>rtb_head := pre @ xs, rtb_pq := pq,
                rtb_bytes_in_flight := rtb_bytes_in_flight rtb - re_pktlen (rtb_store rtb p)\<rparr>)))"

type_synonym 's on_acked = "(ngtcp2_rtb_entry \<Rightarrow> 's \<Rightarrow> 's \<times> rc) option"

abbreviation num_of :: "(nat \<Rightarrow> ngtcp2_rtb_entry) \<Rightarrow> nat \<Rightarrow> u64" where
  "num_of st p \<equiv> hd_pkt_num (re_hd (st p))"

text \<open>An acknowledged entry: the connection is told, then the entry is removed.\<close>

definition rtb_ack_one :: "'s on_acked \<Rightarrow> ngtcp2_rtb \<Rightarrow> nat list \<Rightarrow> nat \<Rightarrow> nat list \<Rightarrow> 's \<Rightarrow> (ngtcp2_rtb \<times> 's \<times> rc) result" where
  "rtb_ack_one f rtb pre p xs c =
     (let (c, rv) = (case f of None \<Rightarrow> (c, None) | Some call \<Rightarrow> call (rtb_store rtb p) c) in
      case rv of Some e \<Rightarrow> Ok (rtb, c, Some e)
      | None \<Rightarrow>
          rbind (rtb_remove (rtb\<lparr>rtb_largest_acked := ngtcp2_max (rtb_largest_acked rtb) (num_of (rtb_store rtb) p)\<rparr>) pre p xs)
            (\<lambda>rtb. Ok (rtb, c, None)))"

definition rtb_skips :: "u8 \<Rightarrow> ngtcp2_rtb_entry \<Rightarrow> bool" where
  "rtb_skips unprotected ent \<longleftrightarrow> unprotected \<noteq> 0 \<and> re_flags ent AND NGTCP2_RTB_FLAG_UNPROTECTED = 0"

type_synonym 's rtb_pos = "ngtcp2_rtb \<times> nat list \<times> nat list \<times> 's \<times> rc"

fun rtb_recv_skip :: "ngtcp2_rtb \<Rightarrow> u64 \<Rightarrow> nat list \<Rightarrow> nat list \<Rightarrow> nat list \<times> nat list" where
  "rtb_recv_skip rtb largest_ack pre [] = (pre, [])"
| "rtb_recv_skip rtb largest_ack pre (p # xs) =
     (if largest_ack \<ge> num_of (rtb_store rtb) p then (pre, p # xs) else rtb_recv_skip rtb largest_ack (pre @ [p]) xs)"

fun rtb_recv_first :: "'s on_acked \<Rightarrow> u8 \<Rightarrow> u64 \<Rightarrow> u64 \<Rightarrow> ngtcp2_rtb \<Rightarrow> nat list \<Rightarrow> nat list \<Rightarrow> 's \<Rightarrow> 's rtb_pos result" where
  "rtb_recv_first f unprotected largest_ack min_ack rtb pre [] c = Ok (rtb, pre, [], c, None)"
| "rtb_recv_first f unprotected largest_ack min_ack rtb pre (p # xs) c =
     (let n = num_of (rtb_store rtb) p in
      if min_ack \<le> n \<and> n \<le> largest_ack then
        if rtb_skips unprotected (rtb_store rtb p) then rtb_recv_first f unprotected largest_ack min_ack rtb (pre @ [p]) xs c
        else rbind (rtb_ack_one f rtb pre p xs c) (\<lambda>(rtb, c, rv).
          case rv of Some e \<Rightarrow> Ok (rtb, pre, p # xs, c, Some e)
          | None \<Rightarrow> rtb_recv_first f unprotected largest_ack min_ack rtb pre xs c)
      else Ok (rtb, pre, p # xs, c, None))"

fun rtb_recv_range :: "'s on_acked \<Rightarrow> u8 \<Rightarrow> u64 \<Rightarrow> u64 \<Rightarrow> ngtcp2_rtb \<Rightarrow> nat list \<Rightarrow> nat list \<Rightarrow> 's \<Rightarrow> 's rtb_pos result" where
  "rtb_recv_range f unprotected largest_ack min_ack rtb pre [] c = Ok (rtb, pre, [], c, None)"
| "rtb_recv_range f unprotected largest_ack min_ack rtb pre (p # xs) c =
     (let n = num_of (rtb_store rtb) p in
      if n > largest_ack then rtb_recv_range f unprotected largest_ack min_ack rtb (pre @ [p]) xs c
      else if n < min_ack then Ok (rtb, pre, p # xs, c, None)
      else if rtb_skips unprotected (rtb_store rtb p) then rtb_recv_range f unprotected largest_ack min_ack rtb (pre @ [p]) xs c
      else rbind (rtb_ack_one f rtb pre p xs c) (\<lambda>(rtb, c, rv).
        case rv of Some e \<Rightarrow> Ok (rtb, pre, p # xs, c, Some e)
        | None \<Rightarrow> rtb_recv_range f unprotected largest_ack min_ack rtb pre xs c))"

fun rtb_recv_blks :: "'s on_acked \<Rightarrow> u8 \<Rightarrow> u64 \<Rightarrow> ngtcp2_ack_blk list \<Rightarrow> ngtcp2_rtb \<Rightarrow> nat list \<Rightarrow> nat list \<Rightarrow> 's
    \<Rightarrow> (ngtcp2_rtb \<times> 's \<times> rc) result" where
  "rtb_recv_blks f unprotected min_ack [] rtb pre xs c = Ok (rtb, c, None)"
| "rtb_recv_blks f unprotected min_ack (blk # blks) rtb pre xs c =
     (if xs = [] then Ok (rtb, c, None)
      else
        let largest_ack = min_ack - blk_gap blk - 2; min_ack = largest_ack - blk_blklen blk in
        rbind (rtb_recv_range f unprotected largest_ack min_ack rtb pre xs c) (\<lambda>(rtb, pre, xs, c, rv).
          case rv of Some e \<Rightarrow> Ok (rtb, c, Some e)
          | None \<Rightarrow> rtb_recv_blks f unprotected min_ack blks rtb pre xs c))"

definition ngtcp2_rtb_recv_ack :: "'s on_acked \<Rightarrow> ngtcp2_rtb \<Rightarrow> ngtcp2_ack \<Rightarrow> u8 \<Rightarrow> 's \<Rightarrow> (ngtcp2_rtb \<times> 's \<times> rc) result" where
  "ngtcp2_rtb_recv_ack f rtb fr unprotected c =
     (let largest_ack = ack_largest_ack fr; (pre, xs) = rtb_recv_skip rtb largest_ack [] (rtb_head rtb) in
      if xs = [] then Ok (rtb, c, None)
      else
        let min_ack = largest_ack - ack_first_ack_blklen fr in
        rbind (rtb_recv_first f unprotected largest_ack min_ack rtb pre xs c) (\<lambda>(rtb, pre, xs, c, rv).
          case rv of Some e \<Rightarrow> Ok (rtb, c, Some e)
          | None \<Rightarrow> rtb_recv_blks f unprotected min_ack (ack_blks fr) rtb pre xs c))"

section \<open>Invariant\<close>

interpretation by_expiry: strict_weak_order "expiry_less st" for st
  by unfold_locales (auto simp: expiry_less_def)

text \<open>
  \<open>rtb_wf\<close>: the queue and the list hold the same entries, and the bytes in flight are the sum of their
  lengths. \<open>rtb_inv\<close>: moreover the list is in decreasing order of the packet numbers.
\<close>

definition rtb_wf :: "ngtcp2_rtb \<Rightarrow> bool" where
  "rtb_wf rtb \<longleftrightarrow> pq_inv (expiry_less (rtb_store rtb)) (rtb_pq rtb) \<and> pq_elems (rtb_pq rtb) = mset (rtb_head rtb) \<and>
     unat (rtb_bytes_in_flight rtb) = (\<Sum>p \<leftarrow> rtb_head rtb. unat (re_pktlen (rtb_store rtb p)))"

definition rtb_inv :: "ngtcp2_rtb \<Rightarrow> bool" where
  "rtb_inv rtb \<longleftrightarrow> rtb_wf rtb \<and> desc_by (num_of (rtb_store rtb)) (rtb_head rtb)"

lemma pq_inv_cong:
  assumes "pq_inv lt pq" and "\<And>a b. a \<in> set (pq_q pq) \<Longrightarrow> b \<in> set (pq_q pq) \<Longrightarrow> lt' a b \<longleftrightarrow> lt a b"
  shows "pq_inv lt' pq"
  unfolding pq_inv_def heap_from_def
proof (intro conjI allI impI)
  fix i
  assume i: "0 < i \<and> i < length (pq_q pq) \<and> 0 \<le> par i"
  then have "par i < length (pq_q pq)" using par_less [of i] by simp
  with i assms show "\<not> lt' (pq_q pq ! i) (pq_q pq ! par i)" by (auto simp: pq_inv_def heap_from_def)
qed (use assms(1) in \<open>simp_all add: pq_inv_def\<close>)

lemma rtb_wf_distinct: "rtb_wf rtb \<Longrightarrow> distinct (rtb_head rtb)"
  unfolding rtb_wf_def pq_inv_def pq_indexed_def pq_elems_def by (metis mset_eq_imp_distinct_iff)

lemma rtb_wf_set: "rtb_wf rtb \<Longrightarrow> set (pq_q (rtb_pq rtb)) = set (rtb_head rtb)"
  unfolding rtb_wf_def pq_elems_def by (metis mset_eq_setD)

lemma rtb_inv_init: "rtb_inv (ngtcp2_rtb_init index st)"
  by (simp add: rtb_inv_def rtb_wf_def ngtcp2_rtb_init_def ngtcp2_pq_init_def pq_inv_def pq_indexed_def heap_from_def pq_elems_def)

lemma rtb_pktlen_le: "rtb_wf rtb \<Longrightarrow> p \<in> set (rtb_head rtb) \<Longrightarrow> re_pktlen (rtb_store rtb p) \<le> rtb_bytes_in_flight rtb"
  unfolding rtb_wf_def word_le_nat_alt by (auto intro: member_le_sum_list)

section \<open>Adding and removing entries\<close>

lemma rtb_add_wf:
  assumes wf: "rtb_wf rtb" and p: "p \<notin> set (rtb_head rtb)"
    and len: "unat (rtb_bytes_in_flight rtb) + unat (re_pktlen ent) < 2 ^ 64"
    and run: "ngtcp2_rtb_add rtb p ent mem = (rtb', mem', rv)"
  shows "rtb_wf rtb' \<and> rtb_store rtb' = (rtb_store rtb)(p := ent) \<and> rtb_largest_acked rtb' = rtb_largest_acked rtb \<and>
    (rv = None \<and> rtb_head rtb' = p # rtb_head rtb \<and> rtb_bytes_in_flight rtb' = rtb_bytes_in_flight rtb + re_pktlen ent \<or>
     rv = Some NGTCP2_ERR_NOMEM \<and> rtb_head rtb' = rtb_head rtb \<and> rtb_bytes_in_flight rtb' = rtb_bytes_in_flight rtb \<and> False \<in> set mem)"
proof -
  let ?st = "(rtb_store rtb)(p := ent)"
  have fresh: "p \<notin> set (pq_q (rtb_pq rtb))" using p rtb_wf_set [OF wf] by simp
  have pq: "pq_inv (expiry_less ?st) (rtb_pq rtb)"
  proof (rule pq_inv_cong)
    show "pq_inv (expiry_less (rtb_store rtb)) (rtb_pq rtb)" using wf by (simp add: rtb_wf_def)
  qed (use fresh in \<open>auto simp: expiry_less_def\<close>)
  obtain pq' m rv' where push: "ngtcp2_pq_push (expiry_less ?st) (rtb_pq rtb) p mem = (pq', m, rv')" by (metis prod_cases3)
  have st: "map (\<lambda>q. unat (re_pktlen (?st q))) (rtb_head rtb) = map (\<lambda>q. unat (re_pktlen (rtb_store rtb q))) (rtb_head rtb)"
    using p by auto
  have sum: "(\<Sum>q \<leftarrow> p # rtb_head rtb. unat (re_pktlen (?st q))) = unat (rtb_bytes_in_flight rtb + re_pktlen ent)"
    using wf unat_add_small [OF len] unfolding list.map(2) st by (simp add: rtb_wf_def)
  consider "rv' = None" "pq_inv (expiry_less ?st) pq'" "pq_elems pq' = add_mset p (pq_elems (rtb_pq rtb))"
    | "rv' = Some NGTCP2_ERR_NOMEM" "pq' = rtb_pq rtb" "False \<in> set mem"
    using by_expiry.push_ok [OF pq fresh push] by blast
  then show ?thesis
  proof cases
    case 1
    then have "rtb' = rtb\<lparr>rtb_store := ?st, rtb_pq := pq', rtb_head := p # rtb_head rtb,
        rtb_bytes_in_flight := rtb_bytes_in_flight rtb + re_pktlen ent\<rparr>" "rv = None"
      using run push by (auto simp: ngtcp2_rtb_add_def)
    then show ?thesis using 1 wf sum by (simp add: rtb_wf_def del: fun_upd_apply list.map)
  next
    case 2
    then have "rtb' = rtb\<lparr>rtb_store := ?st, rtb_pq := pq'\<rparr>" "rv = Some NGTCP2_ERR_NOMEM"
      using run push by (auto simp: ngtcp2_rtb_add_def)
    then show ?thesis using 2 wf pq arg_cong [OF st, of sum_list] by (simp add: rtb_wf_def del: fun_upd_apply)
  qed
qed

lemma rtb_add_ok:
  assumes inv: "rtb_inv rtb" and p: "p \<notin> set (rtb_head rtb)"
    and num: "\<forall>q \<in> set (rtb_head rtb). num_of (rtb_store rtb) q < hd_pkt_num (re_hd ent)"
    and len: "unat (rtb_bytes_in_flight rtb) + unat (re_pktlen ent) < 2 ^ 64"
    and run: "ngtcp2_rtb_add rtb p ent mem = (rtb', mem', rv)"
  shows "rtb_inv rtb' \<and> rtb_store rtb' = (rtb_store rtb)(p := ent) \<and> rtb_largest_acked rtb' = rtb_largest_acked rtb \<and>
    (rv = None \<and> rtb_head rtb' = p # rtb_head rtb \<or> rv = Some NGTCP2_ERR_NOMEM \<and> rtb_head rtb' = rtb_head rtb \<and> False \<in> set mem)"
proof -
  let ?st = "(rtb_store rtb)(p := ent)"
  have wf: "rtb_wf rtb" and desc: "desc_by (num_of (rtb_store rtb)) (rtb_head rtb)" using inv by (simp_all add: rtb_inv_def)
  have agree: "num_of ?st q = num_of (rtb_store rtb) q" if "q \<in> set (rtb_head rtb)" for q using p that by auto
  have "sorted_wrt (\<lambda>a b. num_of ?st b < num_of ?st a) (rtb_head rtb)"
    using desc unfolding desc_by_def by (rule sorted_wrt_mono_rel [rotated]) (simp only: agree)
  then have "desc_by (num_of ?st) (rtb_head rtb)" "\<forall>q \<in> set (rtb_head rtb). num_of ?st q < num_of ?st p"
    using num agree unfolding desc_by_def by auto
  then show ?thesis using rtb_add_wf [OF wf p len run] by (auto simp: rtb_inv_def)
qed

lemma rtb_shrink:
  assumes wf: "rtb_wf rtb" and e: "rtb_head rtb = pre @ p # xs" and pq: "pq_inv (expiry_less (rtb_store rtb)) pq"
    and elems: "pq_elems pq = pq_elems (rtb_pq rtb) - {#p#}"
  shows "rtb_wf (rtb\<lparr>rtb_head := pre @ xs, rtb_pq := pq, rtb_bytes_in_flight := rtb_bytes_in_flight rtb - re_pktlen (rtb_store rtb p)\<rparr>)"
proof -
  have le: "re_pktlen (rtb_store rtb p) \<le> rtb_bytes_in_flight rtb" using rtb_pktlen_le [OF wf, of p] e by simp
  have "unat (rtb_bytes_in_flight rtb) = (\<Sum>q \<leftarrow> pre @ p # xs. unat (re_pktlen (rtb_store rtb q)))" using wf e by (simp add: rtb_wf_def)
  then show ?thesis using wf e pq elems unat_sub [OF le] by (simp add: rtb_wf_def)
qed

lemma rtb_remove_wf:
  assumes wf: "rtb_wf rtb" and e: "rtb_head rtb = pre @ p # xs"
  shows "\<exists>rtb'. rtb_remove rtb pre p xs = Ok rtb' \<and> rtb_wf rtb' \<and> rtb_head rtb' = pre @ xs \<and>
    rtb_store rtb' = rtb_store rtb \<and> rtb_largest_acked rtb' = rtb_largest_acked rtb"
proof -
  have "p \<in> set (pq_q (rtb_pq rtb))" using rtb_wf_set [OF wf] e by simp
  then obtain pq where pq: "ngtcp2_pq_remove (expiry_less (rtb_store rtb)) (rtb_pq rtb) p = Ok pq"
      "pq_inv (expiry_less (rtb_store rtb)) pq" "pq_elems pq = pq_elems (rtb_pq rtb) - {#p#}"
    using by_expiry.remove_ok [of "rtb_store rtb" "rtb_pq rtb" p] wf by (auto simp: rtb_wf_def)
  moreover have "re_pktlen (rtb_store rtb p) \<le> rtb_bytes_in_flight rtb" using rtb_pktlen_le [OF wf, of p] e by simp
  ultimately show ?thesis using rtb_shrink [OF wf e pq(2,3)] by (simp add: rtb_remove_def)
qed

lemma rtb_pop_wf:
  assumes wf: "rtb_wf rtb"
  shows "\<exists>rtb'. ngtcp2_rtb_pop rtb = Ok rtb' \<and> rtb_wf rtb' \<and> rtb_store rtb' = rtb_store rtb \<and> rtb_bytes_in_flight rtb' \<le> rtb_bytes_in_flight rtb \<and>
    rtb_largest_acked rtb' = rtb_largest_acked rtb \<and>
    rtb_head rtb' = (case ngtcp2_rtb_top rtb of None \<Rightarrow> rtb_head rtb | Some p \<Rightarrow> remove1 p (rtb_head rtb))"
proof (cases "pq_q (rtb_pq rtb) = []")
  case True
  then show ?thesis using wf by (simp add: ngtcp2_rtb_pop_def ngtcp2_pq_empty_def ngtcp2_rtb_top_def)
next
  case False
  let ?p = "pq_q (rtb_pq rtb) ! 0"
  have "?p \<in> set (rtb_head rtb)" unfolding rtb_wf_set [OF wf, symmetric] using False by simp
  then obtain pre xs where e: "rtb_head rtb = pre @ ?p # xs" "?p \<notin> set pre" by (meson split_list_first)
  have r: "remove1 ?p (rtb_head rtb) = pre @ xs" unfolding e(1) using e(2) by (simp add: remove1_append)
  have "pq_inv (expiry_less (rtb_store rtb)) (rtb_pq rtb)" using wf by (simp add: rtb_wf_def)
  note pop = by_expiry.pop_ok [OF this False]
  have le: "re_pktlen (rtb_store rtb ?p) \<le> rtb_bytes_in_flight rtb" using rtb_pktlen_le [OF wf, of ?p] e by simp
  moreover have "rtb_wf (rtb\<lparr>rtb_pq := ngtcp2_pq_pop (expiry_less (rtb_store rtb)) (rtb_pq rtb),
      rtb_bytes_in_flight := rtb_bytes_in_flight rtb - re_pktlen (rtb_store rtb ?p), rtb_head := pre @ xs\<rparr>)"
    using rtb_shrink [OF wf e(1) pop] by (simp add: rtb_wf_def)
  ultimately show ?thesis using False r word_sub_le [OF le]
    by (simp add: ngtcp2_rtb_pop_def ngtcp2_pq_empty_def ngtcp2_rtb_top_def ngtcp2_pq_top_def Let_def)
qed

lemma desc_by_remove1: "desc_by f xs \<Longrightarrow> desc_by f (remove1 p xs)"
  by (induction xs) (auto dest: notin_set_remove1)

lemma rtb_pop_ok:
  assumes inv: "rtb_inv rtb"
  shows "\<exists>rtb'. ngtcp2_rtb_pop rtb = Ok rtb' \<and> rtb_inv rtb' \<and> rtb_store rtb' = rtb_store rtb \<and>
    rtb_head rtb' = (case ngtcp2_rtb_top rtb of None \<Rightarrow> rtb_head rtb | Some p \<Rightarrow> remove1 p (rtb_head rtb))"
  using rtb_pop_wf [of rtb] inv by (auto simp: rtb_inv_def desc_by_remove1 split: option.splits)

section \<open>Receiving an ACK frame\<close>

text \<open>
  The reference for the loops of \<open>ngtcp2_rtb_recv_ack\<close>: one pass over the list that treats the entries
  for which \<open>hit\<close> holds and stops at the first error.
\<close>

fun ack_pass :: "(ngtcp2_rtb_entry \<Rightarrow> bool) \<Rightarrow> 's on_acked \<Rightarrow> ngtcp2_rtb \<Rightarrow> nat list \<Rightarrow> nat list \<Rightarrow> 's \<Rightarrow> (ngtcp2_rtb \<times> 's \<times> rc) result" where
  "ack_pass hit f rtb pre [] c = Ok (rtb, c, None)"
| "ack_pass hit f rtb pre (p # xs) c =
     (if hit (rtb_store rtb p) then
        rbind (rtb_ack_one f rtb pre p xs c) (\<lambda>(rtb, c, rv).
          case rv of Some e \<Rightarrow> Ok (rtb, c, Some e) | None \<Rightarrow> ack_pass hit f rtb pre xs c)
      else ack_pass hit f rtb (pre @ [p]) xs c)"

lemma rtb_ack_one_store: "rtb_ack_one f rtb pre p xs c = Ok (rtb', c', rv) \<Longrightarrow> rtb_store rtb' = rtb_store rtb"
  by (auto simp: rtb_ack_one_def rtb_remove_def result_simps Let_def split: prod.splits option.splits)

lemma ack_pass_none: "\<forall>p \<in> set xs. \<not> hit (rtb_store rtb p) \<Longrightarrow> ack_pass hit f rtb pre xs c = Ok (rtb, c, None)"
  by (induction xs arbitrary: pre) auto

lemma ack_pass_cong:
  "\<forall>p \<in> set xs. hit (rtb_store rtb p) \<longleftrightarrow> hit' (rtb_store rtb p) \<Longrightarrow> ack_pass hit f rtb pre xs c = ack_pass hit' f rtb pre xs c"
proof (induction hit f rtb pre xs c rule: ack_pass.induct)
  case (2 hit f rtb pre p xs c)
  show ?case
  proof (cases "rtb_ack_one f rtb pre p xs c")
    case (Ok t)
    obtain rtb1 c1 rv where t: "t = (rtb1, c1, rv)" by (metis prod_cases3)
    have st: "rtb_store rtb1 = rtb_store rtb" by (rule rtb_ack_one_store [OF Ok [unfolded t]])
    show ?thesis using 2 Ok t st by (cases rv) auto
  qed (use 2 in auto)
qed simp

lemma rtb_recv_range_pass:
  assumes "desc_by (num_of (rtb_store rtb)) xs" and "\<And>e. hit' e \<Longrightarrow> hd_pkt_num (re_hd e) < lo" and "lo \<le> hi"
    and "\<And>rtb pre xs c. \<forall>p \<in> set xs. num_of (rtb_store rtb) p < lo \<Longrightarrow> desc_by (num_of (rtb_store rtb)) xs \<Longrightarrow>
      K rtb pre xs c = ack_pass hit' f rtb pre xs c"
  shows "rbind (rtb_recv_range f u hi lo rtb pre xs c) (\<lambda>(rtb, pre, xs, c, rv).
      case rv of Some e \<Rightarrow> Ok (rtb, c, Some e) | None \<Rightarrow> K rtb pre xs c) =
    ack_pass (\<lambda>e. \<not> rtb_skips u e \<and> lo \<le> hd_pkt_num (re_hd e) \<and> hd_pkt_num (re_hd e) \<le> hi \<or> hit' e) f rtb pre xs c"
  using assms
proof (induction f u hi lo rtb pre xs c rule: rtb_recv_range.induct)
  case (1 f u hi lo rtb pre c)
  then show ?case by simp
next
  case (2 f u hi lo rtb pre p xs c)
  let ?n = "num_of (rtb_store rtb) p"
  let ?hit = "\<lambda>e. \<not> rtb_skips u e \<and> lo \<le> hd_pkt_num (re_hd e) \<and> hd_pkt_num (re_hd e) \<le> hi \<or> hit' e"
  have desc: "desc_by (num_of (rtb_store rtb)) xs" "\<forall>q \<in> set xs. num_of (rtb_store rtb) q < ?n" using "2.prems"(1) by auto
  have no: "\<not> hit' (rtb_store rtb p)" if "lo \<le> ?n" using "2.prems"(2) that by force
  consider "hi < ?n" | "?n \<le> hi" "?n < lo" | "lo \<le> ?n" "?n \<le> hi" "rtb_skips u (rtb_store rtb p)"
    | "lo \<le> ?n" "?n \<le> hi" "\<not> rtb_skips u (rtb_store rtb p)" by fastforce
  then show ?case
  proof cases
    case 1
    then have "\<not> ?hit (rtb_store rtb p)" using no "2.prems"(3) by auto
    then show ?thesis using 1 "2.IH"(1) [OF refl 1 desc(1) "2.prems"(2-)] by (simp add: linorder_not_le [THEN iffD2])
  next
    case 2
    have "\<forall>q \<in> set (p # xs). num_of (rtb_store rtb) q < lo" using 2 desc by auto
    moreover have "ack_pass ?hit f rtb pre (p # xs) c = ack_pass hit' f rtb pre (p # xs) c"
      using calculation by (intro ack_pass_cong) auto
    ultimately show ?thesis using 2 "2.prems"(4) [of "p # xs" rtb pre c] "2.prems"(1) by (simp add: leD)
  next
    case 3
    then have "\<not> ?hit (rtb_store rtb p)" using no by auto
    then show ?thesis using 3 "2.IH"(2) [OF refl _ _ 3(3) desc(1) "2.prems"(2-)] by (simp add: leD)
  next
    case 4
    show ?thesis
    proof (cases "rtb_ack_one f rtb pre p xs c")
      case (Ok t)
      obtain rtb1 c1 rv where t: "t = (rtb1, c1, rv)" by (metis prod_cases3)
      have st: "rtb_store rtb1 = rtb_store rtb" by (rule rtb_ack_one_store [OF Ok [unfolded t]])
      show ?thesis
        using 4 Ok t desc "2.IH"(3) [where xa = rtb1 and xb = c1, OF refl _ _ 4(3)] "2.prems"(2-) by (cases rv) (simp_all add: leD st)
    qed (use 4 in \<open>simp_all add: leD\<close>)
  qed
qed

lemma rtb_recv_first_pass:
  assumes "desc_by (num_of (rtb_store rtb)) xs" and "\<forall>p \<in> set xs. num_of (rtb_store rtb) p \<le> hi" and "\<And>e. hit' e \<Longrightarrow> hd_pkt_num (re_hd e) < lo"
    and "lo \<le> hi"
    and "\<And>rtb pre xs c. \<forall>p \<in> set xs. num_of (rtb_store rtb) p < lo \<Longrightarrow> desc_by (num_of (rtb_store rtb)) xs \<Longrightarrow>
      K rtb pre xs c = ack_pass hit' f rtb pre xs c"
  shows "rbind (rtb_recv_first f u hi lo rtb pre xs c) (\<lambda>(rtb, pre, xs, c, rv).
      case rv of Some e \<Rightarrow> Ok (rtb, c, Some e) | None \<Rightarrow> K rtb pre xs c) =
    ack_pass (\<lambda>e. \<not> rtb_skips u e \<and> lo \<le> hd_pkt_num (re_hd e) \<and> hd_pkt_num (re_hd e) \<le> hi \<or> hit' e) f rtb pre xs c"
proof -
  have "rtb_recv_first f u hi lo rtb pre xs c = rtb_recv_range f u hi lo rtb pre xs c"
    using assms(2)
  proof (induction f u hi lo rtb pre xs c rule: rtb_recv_first.induct)
    case (2 f u hi lo rtb pre p xs c)
    let ?n = "num_of (rtb_store rtb) p"
    have hi: "\<not> hi < ?n" "\<forall>q \<in> set xs. num_of (rtb_store rtb) q \<le> hi" using "2.prems" by auto
    consider "?n < lo" | "\<not> ?n < lo" "rtb_skips u (rtb_store rtb p)" | "\<not> ?n < lo" "\<not> rtb_skips u (rtb_store rtb p)" by blast
    then show ?case
    proof cases
      case 1
      then show ?thesis using hi by (simp add: linorder_not_le [THEN iffD2])
    next
      case 2
      then show ?thesis using hi "2.IH"(1) by (auto simp: Let_def not_less)
    next
      case 3
      then have le: "lo \<le> ?n" "?n \<le> hi" using hi by auto
      show ?thesis
      proof (cases "rtb_ack_one f rtb pre p xs c")
        case (Ok t)
        obtain rtb1 c1 rv where t: "t = (rtb1, c1, rv)" by (metis prod_cases3)
        have st: "rtb_store rtb1 = rtb_store rtb" by (rule rtb_ack_one_store [OF Ok [unfolded t]])
        have "rtb_recv_first f u hi lo rtb1 pre xs c1 = rtb_recv_range f u hi lo rtb1 pre xs c1"
          using 3 hi st by (intro "2.IH"(2)) auto
        then show ?thesis using 3(2) le Ok t by (cases rv) (simp_all add: Let_def leD)
      qed (use 3(2) le in \<open>simp_all add: Let_def leD\<close>)
    qed
  qed simp
  then show ?thesis using rtb_recv_range_pass [OF assms(1,3-)] by simp
qed

text \<open>The ranges of a frame one after the other are one pass.\<close>

definition rtb_hit :: "u8 \<Rightarrow> (u64 \<times> u64) list \<Rightarrow> ngtcp2_rtb_entry \<Rightarrow> bool" where
  "rtb_hit u rs e \<longleftrightarrow> \<not> rtb_skips u e \<and> (\<exists>(hi, lo) \<in> set rs. lo \<le> hd_pkt_num (re_hd e) \<and> hd_pkt_num (re_hd e) \<le> hi)"

lemma rtb_hit_Cons:
  "rtb_hit u ((hi, lo) # rs) = (\<lambda>e. \<not> rtb_skips u e \<and> lo \<le> hd_pkt_num (re_hd e) \<and> hd_pkt_num (re_hd e) \<le> hi \<or> rtb_hit u rs e)"
  by (auto simp: rtb_hit_def fun_eq_iff)

lemma rtb_hit_below: "desc_ranges b rs \<Longrightarrow> rtb_hit u rs e \<Longrightarrow> hd_pkt_num (re_hd e) < b"
  using desc_ranges_below by (fastforce simp: rtb_hit_def)

lemma rtb_recv_blks_pass:
  "desc_ranges m (blk_ranges m bl) \<Longrightarrow> desc_by (num_of (rtb_store rtb)) xs \<Longrightarrow>
    rtb_recv_blks f u m bl rtb pre xs c = ack_pass (rtb_hit u (blk_ranges m bl)) f rtb pre xs c"
proof (induction bl arbitrary: m rtb pre xs c)
  case Nil
  then show ?case by (simp add: ack_pass_none rtb_hit_def)
next
  case (Cons b bl)
  let ?h = "m - blk_gap b - 2" and ?l = "m - blk_gap b - 2 - blk_blklen b"
  have D: "desc_ranges ?l (blk_ranges ?l bl)" "?l \<le> ?h" using Cons.prems by (simp_all add: Let_def)
  have "rbind (rtb_recv_range f u ?h ?l rtb pre xs c) (\<lambda>(rtb, pre, xs, c, rv).
      case rv of Some e \<Rightarrow> Ok (rtb, c, Some e) | None \<Rightarrow> rtb_recv_blks f u ?l bl rtb pre xs c) =
    ack_pass (rtb_hit u (blk_ranges m (b # bl))) f rtb pre xs c"
    unfolding blk_ranges.simps Let_def rtb_hit_Cons
    by (rule rtb_recv_range_pass [OF Cons.prems(2) rtb_hit_below [OF D(1), where u = u] D(2)]) (assumption, rule Cons.IH [OF D(1)])
  then show ?case by (cases "xs = []") (simp_all add: Let_def)
qed

lemma rtb_recv_skip_eq:
  "rtb_recv_skip rtb h pre xs = (pre @ takeWhile (\<lambda>p. h < num_of (rtb_store rtb) p) xs, dropWhile (\<lambda>p. h < num_of (rtb_store rtb) p) xs)"
  by (induction rtb h pre xs rule: rtb_recv_skip.induct) (auto simp: not_less)

lemma ack_pass_append: "\<forall>p \<in> set ys. \<not> hit (rtb_store rtb p) \<Longrightarrow> ack_pass hit f rtb pre (ys @ xs) c = ack_pass hit f rtb (pre @ ys) xs c"
  by (induction ys arbitrary: pre) auto

lemma desc_by_dropWhile:
  "desc_by g xs \<Longrightarrow> p \<in> set (dropWhile (\<lambda>p. h < g p) xs) \<Longrightarrow> g p \<le> h"
  by (induction xs) (auto simp: not_less split: if_splits intro: less_imp_le order.trans)

text \<open>An acknowledged entry that a packet of the given protection may acknowledge.\<close>

definition rtb_acks :: "u8 \<Rightarrow> ngtcp2_ack \<Rightarrow> ngtcp2_rtb_entry \<Rightarrow> bool" where
  "rtb_acks u fr e \<longleftrightarrow> \<not> rtb_skips u e \<and> acked fr (hd_pkt_num (re_hd e))"

lemma rtb_recv_ack_pass:
  assumes "rtb_inv rtb" and v: "ack_valid fr"
  shows "ngtcp2_rtb_recv_ack f rtb fr u c = ack_pass (rtb_acks u fr) f rtb [] (rtb_head rtb) c"
proof -
  let ?h = "ack_largest_ack fr" and ?l = "ack_largest_ack fr - ack_first_ack_blklen fr"
  let ?rs = "blk_ranges ?l (ack_blks fr)"
  define ys where "ys = takeWhile (\<lambda>p. ?h < num_of (rtb_store rtb) p) (rtb_head rtb)"
  define xs where "xs = dropWhile (\<lambda>p. ?h < num_of (rtb_store rtb) p) (rtb_head rtb)"
  note V = ack_valid_ranges [OF v]
  have split: "rtb_head rtb = ys @ xs" by (simp add: ys_def xs_def)
  have desc: "desc_by (num_of (rtb_store rtb)) (ys @ xs)" using assms(1) split by (simp add: rtb_inv_def)
  have low: "\<forall>p \<in> set xs. num_of (rtb_store rtb) p \<le> ?h"
    using desc_by_dropWhile [OF desc, folded split] by (simp add: xs_def)
  have acks: "rtb_acks u fr = rtb_hit u ((?h, ?l) # ?rs)" by (auto simp: rtb_acks_def rtb_hit_def acked_def fun_eq_iff)
  have above: "\<not> rtb_acks u fr (rtb_store rtb p)" if "p \<in> set ys" for p
    using set_takeWhileD [OF that [unfolded ys_def]] V(2) rtb_hit_below [OF V(3), where u = u] unfolding acks rtb_hit_Cons by force
  have "ack_pass (rtb_acks u fr) f rtb ys xs c = rbind (rtb_recv_first f u ?h ?l rtb ys xs c) (\<lambda>(rtb, pre, xs, c, rv).
      case rv of Some e \<Rightarrow> Ok (rtb, c, Some e) | None \<Rightarrow> rtb_recv_blks f u ?l (ack_blks fr) rtb pre xs c)"
    unfolding acks rtb_hit_Cons
    by (rule rtb_recv_first_pass [OF _ low rtb_hit_below [OF V(3), where u = u] V(2), symmetric])
      (use desc rtb_recv_blks_pass [OF V(3)] in auto)
  then have "ngtcp2_rtb_recv_ack f rtb fr u c = ack_pass (rtb_acks u fr) f rtb ys xs c"
    by (cases "xs = []")
      (simp_all add: ngtcp2_rtb_recv_ack_def rtb_recv_skip_eq Let_def dropWhile_eq_Nil_conv del: dropWhile_eq_Nil_conv flip: ys_def xs_def)
  then show ?thesis unfolding split using above by (subst ack_pass_append) simp_all
qed

text \<open>
  What a pass does to the connection: the call for each entry in turn, up to the first that fails;
  the entries that were acknowledged before it are returned.
\<close>

fun acked_run :: "'s on_acked \<Rightarrow> ngtcp2_rtb_entry list \<Rightarrow> 's \<Rightarrow> nat \<times> 's \<times> rc" where
  "acked_run f [] c = (0, c, None)"
| "acked_run f (e # es) c =
     (case (case f of None \<Rightarrow> (c, None) | Some call \<Rightarrow> call e c) of
        (c, Some err) \<Rightarrow> (0, c, Some err)
      | (c, None) \<Rightarrow> (let (n, c, rv) = acked_run f es c in (Suc n, c, rv)))"

lemma rtb_wf_largest: "rtb_wf (rtb\<lparr>rtb_largest_acked := n\<rparr>) \<longleftrightarrow> rtb_wf rtb"
  by (simp add: rtb_wf_def)

lemma rtb_ack_one_wf:
  assumes "rtb_wf rtb" and "rtb_head rtb = pre @ p # xs"
  shows "\<exists>rtb' c' rv. rtb_ack_one f rtb pre p xs c = Ok (rtb', c', rv) \<and>
    (case f of None \<Rightarrow> (c, None) | Some call \<Rightarrow> call (rtb_store rtb p) c) = (c', rv) \<and>
    (rv \<noteq> None \<longrightarrow> rtb' = rtb) \<and>
    (rv = None \<longrightarrow> rtb_wf rtb' \<and> rtb_head rtb' = pre @ xs \<and> rtb_store rtb' = rtb_store rtb \<and>
      rtb_largest_acked rtb' = max (rtb_largest_acked rtb) (num_of (rtb_store rtb) p))"
proof -
  let ?rtb = "rtb\<lparr>rtb_largest_acked := ngtcp2_max (rtb_largest_acked rtb) (num_of (rtb_store rtb) p)\<rparr>"
  obtain c' rv where call: "(case f of None \<Rightarrow> (c, None) | Some call \<Rightarrow> call (rtb_store rtb p) c) = (c', rv)" by fastforce
  have mx: "ngtcp2_max a b = max a b" for a b by (auto simp: ngtcp2_max_def max_def)
  show ?thesis
  proof (cases rv)
    case None
    with rtb_remove_wf [of ?rtb pre p xs] assms call show ?thesis by (auto simp: rtb_ack_one_def rtb_wf_largest mx)
  qed (use call in \<open>simp add: rtb_ack_one_def\<close>)
qed

lemma rtb_ack_one_ok:
  assumes "rtb_inv rtb" and "rtb_head rtb = pre @ p # xs"
  shows "\<exists>rtb' c' rv. rtb_ack_one f rtb pre p xs c = Ok (rtb', c', rv) \<and>
    (case f of None \<Rightarrow> (c, None) | Some call \<Rightarrow> call (rtb_store rtb p) c) = (c', rv) \<and>
    (rv \<noteq> None \<longrightarrow> rtb' = rtb) \<and>
    (rv = None \<longrightarrow> rtb_inv rtb' \<and> rtb_head rtb' = pre @ xs \<and> rtb_store rtb' = rtb_store rtb \<and>
      rtb_largest_acked rtb' = max (rtb_largest_acked rtb) (num_of (rtb_store rtb) p))"
  using rtb_ack_one_wf [of rtb pre p xs f c] assms by (fastforce simp: rtb_inv_def)

lemma ack_pass_ok:
  assumes "rtb_inv rtb" and "rtb_head rtb = pre @ xs"
  shows "\<exists>rtb' c' rv n. ack_pass hit f rtb pre xs c = Ok (rtb', c', rv) \<and> rtb_inv rtb' \<and> rtb_store rtb' = rtb_store rtb \<and>
    acked_run f (map (rtb_store rtb) (filter (\<lambda>p. hit (rtb_store rtb p)) xs)) c = (n, c', rv) \<and>
    (let done = take n (filter (\<lambda>p. hit (rtb_store rtb p)) xs) in
     rtb_head rtb' = pre @ filter (\<lambda>p. p \<notin> set done) xs \<and>
     rtb_largest_acked rtb' = fold max (map (num_of (rtb_store rtb)) done) (rtb_largest_acked rtb))"
  using assms
proof (induction hit f rtb pre xs c rule: ack_pass.induct)
  case (2 hit f rtb pre p xs c)
  have fresh: "p \<notin> set xs" using rtb_wf_distinct [of rtb] "2.prems" by (simp add: rtb_inv_def)
  show ?case
  proof (cases "hit (rtb_store rtb p)")
    case False
    have "p \<notin> set (take n (filter (\<lambda>p. hit (rtb_store rtb p)) xs))" for n using False by (auto dest: in_set_takeD)
    with False "2.IH"(2) "2.prems" show ?thesis by (simp add: Let_def)
  next
    case True
    obtain rtb1 c1 rv where one: "rtb_ack_one f rtb pre p xs c = Ok (rtb1, c1, rv)"
        "(case f of None \<Rightarrow> (c, None) | Some call \<Rightarrow> call (rtb_store rtb p) c) = (c1, rv)" "rv \<noteq> None \<longrightarrow> rtb1 = rtb"
        "rv = None \<longrightarrow> rtb_inv rtb1 \<and> rtb_head rtb1 = pre @ xs \<and> rtb_store rtb1 = rtb_store rtb \<and>
          rtb_largest_acked rtb1 = max (rtb_largest_acked rtb) (num_of (rtb_store rtb) p)"
      using rtb_ack_one_ok [OF "2.prems", of f c] by blast
    show ?thesis
    proof (cases rv)
      case None
      with one have R: "rtb_inv rtb1" "rtb_head rtb1 = pre @ xs" "rtb_store rtb1 = rtb_store rtb"
        "rtb_largest_acked rtb1 = max (rtb_largest_acked rtb) (num_of (rtb_store rtb) p)" by auto
      obtain rtb2 c2 rv2 n where S: "ack_pass hit f rtb1 pre xs c1 = Ok (rtb2, c2, rv2)" "rtb_inv rtb2" "rtb_store rtb2 = rtb_store rtb"
        "acked_run f (map (rtb_store rtb) (filter (\<lambda>p. hit (rtb_store rtb p)) xs)) c1 = (n, c2, rv2)"
        "rtb_head rtb2 = pre @ filter (\<lambda>q. q \<notin> set (take n (filter (\<lambda>p. hit (rtb_store rtb p)) xs))) xs"
        "rtb_largest_acked rtb2 = fold max (map (num_of (rtb_store rtb)) (take n (filter (\<lambda>p. hit (rtb_store rtb p)) xs))) (rtb_largest_acked rtb1)"
        using "2.IH"(1) [OF True R(1,2), of c1] R(3) by (auto simp: Let_def)
      have "filter (\<lambda>q. q \<noteq> p \<and> q \<notin> set (take n (filter (\<lambda>p. hit (rtb_store rtb p)) xs))) xs =
          filter (\<lambda>q. q \<notin> set (take n (filter (\<lambda>p. hit (rtb_store rtb p)) xs))) xs"
        using fresh by (intro filter_cong) auto
      with True None one(1,2) R S show ?thesis by (simp add: Let_def max.commute)
    next
      case (Some e)
      from Some one True "2.prems" show ?thesis by (simp add: Let_def)
    qed
  qed
qed simp

lemma acked_run_all: "acked_run f es c = (n, c', None) \<Longrightarrow> n = length es"
  by (induction es arbitrary: c n) (auto split: prod.splits option.splits)

section \<open>States of the buffer\<close>

text \<open>
  The states that the operations reach. An entry is added with the largest packet number so far, as
  each packet gets a new one, at an address that is not in use, and the sum of the packet lengths stays
  below \<open>2 ^ 64\<close>; the frames received were validated. The state of the connection matters here for
  the outcomes of its calls only; a number is enough for any sequence of them.
\<close>

inductive rtb_reachable :: "ngtcp2_rtb \<Rightarrow> bool" where
  init: "rtb_reachable (ngtcp2_rtb_init index st)"
| add: "rtb_reachable rtb \<Longrightarrow> p \<notin> set (rtb_head rtb) \<Longrightarrow>
    \<forall>q \<in> set (rtb_head rtb). num_of (rtb_store rtb) q < hd_pkt_num (re_hd ent) \<Longrightarrow>
    unat (rtb_bytes_in_flight rtb) + unat (re_pktlen ent) < 2 ^ 64 \<Longrightarrow>
    ngtcp2_rtb_add rtb p ent mem = (rtb', mem', rv) \<Longrightarrow> rtb_reachable rtb'"
| pop: "rtb_reachable rtb \<Longrightarrow> ngtcp2_rtb_pop rtb = Ok rtb' \<Longrightarrow> rtb_reachable rtb'"
| recv_ack: "rtb_reachable rtb \<Longrightarrow> ack_valid fr \<Longrightarrow>
    ngtcp2_rtb_recv_ack (f :: nat on_acked) rtb fr unprotected c = Ok (rtb', c', rv) \<Longrightarrow> rtb_reachable rtb'"

lemma rtb_recv_ack_ok:
  assumes inv: "rtb_inv rtb" and v: "ack_valid fr"
  shows "\<exists>rtb' c' rv n. ngtcp2_rtb_recv_ack f rtb fr u c = Ok (rtb', c', rv) \<and> rtb_inv rtb' \<and> rtb_store rtb' = rtb_store rtb \<and>
    acked_run f (map (rtb_store rtb) (filter (\<lambda>p. rtb_acks u fr (rtb_store rtb p)) (rtb_head rtb))) c = (n, c', rv) \<and>
    (let done = take n (filter (\<lambda>p. rtb_acks u fr (rtb_store rtb p)) (rtb_head rtb)) in
     rtb_head rtb' = filter (\<lambda>p. p \<notin> set done) (rtb_head rtb) \<and>
     rtb_largest_acked rtb' = fold max (map (num_of (rtb_store rtb)) done) (rtb_largest_acked rtb))"
  unfolding rtb_recv_ack_pass [OF assms]
  using ack_pass_ok [OF inv, of "[]" "rtb_head rtb" "rtb_acks u fr" f c] by simp

text \<open>
  Without the order of the list the frame acknowledges some packets only, but it does no harm. The
  loops keep a condition on the state of the connection that the calls keep.
\<close>

definition keeps_cond :: "('s \<Rightarrow> bool) \<Rightarrow> ('s \<Rightarrow> bool) \<Rightarrow> 's on_acked \<Rightarrow> bool" where
  "keeps_cond I J f \<longleftrightarrow> (\<forall>call e c c' rv. f = Some call \<longrightarrow> I c \<longrightarrow> call e c = (c', rv) \<longrightarrow> J c' \<and> (rv = None \<longrightarrow> I c'))"

definition pass_ok :: "('s \<Rightarrow> bool) \<Rightarrow> ('s \<Rightarrow> bool) \<Rightarrow> 's rtb_pos result \<Rightarrow> bool" where
  "pass_ok I J r \<longleftrightarrow> (\<exists>rtb pre xs c rv. r = Ok (rtb, pre, xs, c, rv) \<and> rtb_wf rtb \<and> rtb_head rtb = pre @ xs \<and> J c \<and> (rv = None \<longrightarrow> I c))"

lemma pass_ok_Ok [simp]: "pass_ok I J (Ok (rtb, pre, xs, c, rv)) \<longleftrightarrow> rtb_wf rtb \<and> rtb_head rtb = pre @ xs \<and> J c \<and> (rv = None \<longrightarrow> I c)"
  by (auto simp: pass_ok_def)

lemma pass_ok_one:
  assumes f: "keeps_cond I J f" and IJ: "\<And>c. I c \<Longrightarrow> J c" and wf: "rtb_wf rtb" "rtb_head rtb = pre @ p # xs" and c: "I c"
    and k: "\<And>rtb c. rtb_wf rtb \<Longrightarrow> rtb_head rtb = pre @ xs \<Longrightarrow> I c \<Longrightarrow> pass_ok I J (k rtb c)"
  shows "pass_ok I J (rbind (rtb_ack_one f rtb pre p xs c) (\<lambda>(rtb, c, rv).
      case rv of Some e \<Rightarrow> Ok (rtb, pre, p # xs, c, Some e) | None \<Rightarrow> k rtb c))"
proof -
  obtain rtb' c' rv where one: "rtb_ack_one f rtb pre p xs c = Ok (rtb', c', rv)"
      "(case f of None \<Rightarrow> (c, None) | Some call \<Rightarrow> call (rtb_store rtb p) c) = (c', rv)" "rv \<noteq> None \<longrightarrow> rtb' = rtb"
      "rv = None \<longrightarrow> rtb_wf rtb' \<and> rtb_head rtb' = pre @ xs"
    using rtb_ack_one_wf [OF wf, of f c] by blast
  have "J c' \<and> (rv = None \<longrightarrow> I c')"
  proof (cases f)
    case None
    then show ?thesis using one(2) c IJ by simp
  next
    case (Some call)
    then show ?thesis using f c one(2) unfolding keeps_cond_def by simp
  qed
  then show ?thesis using one wf k by (cases rv) simp_all
qed

lemma rtb_recv_first_wf:
  assumes f: "keeps_cond I J f" and IJ: "\<And>c. I c \<Longrightarrow> J c"
  shows "rtb_wf rtb \<Longrightarrow> rtb_head rtb = pre @ xs \<Longrightarrow> I c \<Longrightarrow> pass_ok I J (rtb_recv_first f u hi lo rtb pre xs c)"
proof (induction xs arbitrary: rtb pre c)
  case (Cons p xs)
  then show ?case using pass_ok_one [OF f IJ Cons.prems, where k = "\<lambda>rtb c. rtb_recv_first f u hi lo rtb pre xs c"] IJ by (simp add: Let_def)
qed (use IJ in simp)

lemma rtb_recv_range_wf:
  assumes f: "keeps_cond I J f" and IJ: "\<And>c. I c \<Longrightarrow> J c"
  shows "rtb_wf rtb \<Longrightarrow> rtb_head rtb = pre @ xs \<Longrightarrow> I c \<Longrightarrow> pass_ok I J (rtb_recv_range f u hi lo rtb pre xs c)"
proof (induction xs arbitrary: rtb pre c)
  case (Cons p xs)
  then show ?case using pass_ok_one [OF f IJ Cons.prems, where k = "\<lambda>rtb c. rtb_recv_range f u hi lo rtb pre xs c"] IJ by (simp add: Let_def)
qed (use IJ in simp)

lemma rtb_recv_blks_wf:
  assumes f: "keeps_cond I J f" and IJ: "\<And>c. I c \<Longrightarrow> J c"
  shows "rtb_wf rtb \<Longrightarrow> rtb_head rtb = pre @ xs \<Longrightarrow> I c \<Longrightarrow>
    \<exists>rtb' c' rv. rtb_recv_blks f u m bl rtb pre xs c = Ok (rtb', c', rv) \<and> rtb_wf rtb' \<and> J c' \<and> (rv = None \<longrightarrow> I c')"
proof (induction bl arbitrary: m rtb pre xs c)
  case (Cons b bl)
  let ?h = "m - blk_gap b - 2" and ?l = "m - blk_gap b - 2 - blk_blklen b"
  obtain rtb1 pre1 xs1 c1 rv where R: "rtb_recv_range f u ?h ?l rtb pre xs c = Ok (rtb1, pre1, xs1, c1, rv)" "rtb_wf rtb1"
      "rtb_head rtb1 = pre1 @ xs1" "J c1" "rv = None \<longrightarrow> I c1"
    using rtb_recv_range_wf [OF f IJ Cons.prems, of u ?h ?l] unfolding pass_ok_def by blast
  then show ?case using Cons.IH [of rtb1 pre1 xs1 c1 ?l] Cons.prems IJ by (cases rv) (auto simp: Let_def)
qed (use IJ in simp)

lemma rtb_recv_skip_split: "rtb_recv_skip rtb h pre xs = (pre', xs') \<Longrightarrow> pre' @ xs' = pre @ xs"
  by (induction xs arbitrary: pre) (auto split: if_splits)

lemma rtb_recv_ack_wf:
  assumes f: "keeps_cond I J f" and IJ: "\<And>c. I c \<Longrightarrow> J c" and wf: "rtb_wf rtb" and c: "I c"
  shows "\<exists>rtb' c' rv. ngtcp2_rtb_recv_ack f rtb fr u c = Ok (rtb', c', rv) \<and> rtb_wf rtb' \<and> J c' \<and> (rv = None \<longrightarrow> I c')"
proof -
  let ?h = "ack_largest_ack fr" and ?l = "ack_largest_ack fr - ack_first_ack_blklen fr"
  obtain pre xs where skip: "rtb_recv_skip rtb ?h [] (rtb_head rtb) = (pre, xs)" by fastforce
  then have head: "rtb_head rtb = pre @ xs" using rtb_recv_skip_split by fastforce
  obtain rtb1 pre1 xs1 c1 rv where R: "rtb_recv_first f u ?h ?l rtb pre xs c = Ok (rtb1, pre1, xs1, c1, rv)" "rtb_wf rtb1"
      "rtb_head rtb1 = pre1 @ xs1" "J c1" "rv = None \<longrightarrow> I c1"
    using rtb_recv_first_wf [OF f IJ wf head c, of u ?h ?l] unfolding pass_ok_def by blast
  then show ?thesis using rtb_recv_blks_wf [OF f IJ R(2,3), of c1 u ?l "ack_blks fr"] wf c IJ skip
    by (cases rv) (auto simp: ngtcp2_rtb_recv_ack_def Let_def)
qed

lemma rtb_reachable_inv: "rtb_reachable rtb \<Longrightarrow> rtb_inv rtb"
proof (induction rule: rtb_reachable.induct)
  case (add rtb p ent mem rtb' mem' rv)
  then show ?case using rtb_add_ok by blast
next
  case (pop rtb rtb')
  then show ?case using rtb_pop_ok [of rtb] by auto
next
  case (recv_ack rtb fr f unprotected c rtb' c' rv)
  then show ?case using rtb_recv_ack_ok [of rtb fr f unprotected c] by auto
qed (rule rtb_inv_init)

text \<open>
  C27. The retransmission buffer in every state that its operations reach: it reports the entry with the
  earliest expiry, and none exactly when it is empty; taking that entry out succeeds and removes it
  alone; the bytes in flight are the sum of the lengths of the packets that are still linked, and the
  list is in decreasing order of the packet numbers.
\<close>

theorem rtb_top_earliest:
  assumes "rtb_reachable rtb"
  shows "\<exists>rtb'. ngtcp2_rtb_pop rtb = Ok rtb' \<and> rtb_store rtb' = rtb_store rtb \<and>
      (case ngtcp2_rtb_top rtb of
         None \<Rightarrow> rtb_head rtb = [] \<and> rtb_head rtb' = []
       | Some p \<Rightarrow> p \<in> set (rtb_head rtb) \<and> rtb_head rtb' = remove1 p (rtb_head rtb) \<and>
           (\<forall>q \<in> set (rtb_head rtb). re_expiry (rtb_store rtb p) \<le> re_expiry (rtb_store rtb q))) \<and>
    desc_by (num_of (rtb_store rtb)) (rtb_head rtb) \<and>
    unat (rtb_bytes_in_flight rtb) = (\<Sum>p \<leftarrow> rtb_head rtb. unat (re_pktlen (rtb_store rtb p)))"
proof -
  have inv: "rtb_inv rtb" using assms by (rule rtb_reachable_inv)
  then have pq: "pq_inv (expiry_less (rtb_store rtb)) (rtb_pq rtb)" "pq_elems (rtb_pq rtb) = mset (rtb_head rtb)"
    by (simp_all add: rtb_inv_def rtb_wf_def)
  have top: "ngtcp2_rtb_top rtb = ngtcp2_pq_top (rtb_pq rtb)" by (simp add: ngtcp2_rtb_top_def ngtcp2_pq_empty_def ngtcp2_pq_top_def)
  show ?thesis
  proof (cases "ngtcp2_pq_top (rtb_pq rtb)")
    case None
    then have "rtb_head rtb = []" using by_expiry.heap.front_None [OF pq(1)] pq(2) by simp
    with None top rtb_pop_ok [OF inv] inv show ?thesis by (auto simp: rtb_inv_def rtb_wf_def)
  next
    case (Some p)
    from by_expiry.heap.front_least [OF pq(1) Some] have "p \<in> set (rtb_head rtb)"
      "\<forall>q \<in> set (rtb_head rtb). re_expiry (rtb_store rtb p) \<le> re_expiry (rtb_store rtb q)"
      using pq(2) by (auto simp: expiry_less_def not_less)
    with Some top rtb_pop_ok [OF inv] inv show ?thesis by (auto simp: rtb_inv_def rtb_wf_def)
  qed
qed

text \<open>A buffer with two packets, the later one with the earlier expiry.\<close>

definition sample_entry :: "u64 \<Rightarrow> u64 \<Rightarrow> u64 \<Rightarrow> ngtcp2_rtb_entry" where
  "sample_entry n expiry len = \<lparr>re_hd = ngtcp2_pkt_hd_init 0 NGTCP2_PKT_01 0 n 1, re_frc = [], re_expiry = expiry, re_deadline = 20,
     re_count = 0, re_pktlen = len, re_flags = 0\<rparr>"

lemma two_entries:
  "\<exists>rtb. rtb_reachable rtb \<and> rtb_head rtb = [1, 0] \<and> ngtcp2_rtb_top rtb = Some 1 \<and>
     rtb_store rtb 0 = sample_entry 1 9 100 \<and> rtb_store rtb 1 = sample_entry 2 5 50"
proof -
  let ?add = "\<lambda>p ent rtb. ngtcp2_rtb_add rtb p ent []" and ?init = "ngtcp2_rtb_init (\<lambda>_. 0) (\<lambda>_. sample_entry 0 0 0)"
  have "case ?add 0 (sample_entry 1 9 100) ?init of (rtb1, _) \<Rightarrow> rtb_head rtb1 = [0] \<and> num_of (rtb_store rtb1) 0 = 1 \<and> rtb_bytes_in_flight rtb1 = 100 \<and>
      (case ?add 1 (sample_entry 2 5 50) rtb1 of (rtb2, _) \<Rightarrow> rtb_head rtb2 = [1, 0] \<and> ngtcp2_rtb_top rtb2 = Some 1 \<and>
        rtb_store rtb2 0 = sample_entry 1 9 100 \<and> rtb_store rtb2 1 = sample_entry 2 5 50)" by code_simp
  then obtain rtb1 m1 r1 rtb2 m2 r2 where run: "?add 0 (sample_entry 1 9 100) ?init = (rtb1, m1, r1)" "?add 1 (sample_entry 2 5 50) rtb1 = (rtb2, m2, r2)"
    and ok: "rtb_head rtb1 = [0]" "num_of (rtb_store rtb1) 0 = 1" "rtb_bytes_in_flight rtb1 = 100" "rtb_head rtb2 = [1, 0]" "ngtcp2_rtb_top rtb2 = Some 1"
      "rtb_store rtb2 0 = sample_entry 1 9 100" "rtb_store rtb2 1 = sample_entry 2 5 50"
    by (auto split: prod.splits)
  have "rtb_reachable rtb1"
    by (rule rtb_reachable.add [OF rtb_reachable.init _ _ _ run(1)]) (simp_all add: ngtcp2_rtb_init_def sample_entry_def)
  then have "rtb_reachable rtb2"
    by (rule rtb_reachable.add [OF _ _ _ _ run(2)]) (simp_all add: ok sample_entry_def ngtcp2_pkt_hd_init_def)
  then show ?thesis using ok by blast
qed

theorem rtb_top_earliest_witness:
  "\<exists>rtb rtb'. rtb_reachable rtb \<and> rtb_head rtb = [1, 0] \<and> ngtcp2_rtb_top rtb = Some 1 \<and> re_expiry (rtb_store rtb 1) = 5 \<and> re_expiry (rtb_store rtb 0) = 9 \<and>
     unat (rtb_bytes_in_flight rtb) = 150 \<and> ngtcp2_rtb_pop rtb = Ok rtb' \<and> rtb_head rtb' = [0]"
proof -
  obtain rtb where rtb: "rtb_reachable rtb" "rtb_head rtb = [1, 0]" "ngtcp2_rtb_top rtb = Some 1" "rtb_store rtb 0 = sample_entry 1 9 100"
      "rtb_store rtb 1 = sample_entry 2 5 50"
    using two_entries by blast
  from rtb_top_earliest [OF rtb(1)] obtain rtb' where "ngtcp2_rtb_pop rtb = Ok rtb'" "rtb_head rtb' = [0]" "unat (rtb_bytes_in_flight rtb) = 150"
    by (auto simp: rtb rtb(5) [unfolded One_nat_def] sample_entry_def)
  then show ?thesis using rtb by (auto simp: sample_entry_def)
qed

text \<open>
  C23. Processing a validated ACK frame in such a state never trips an assertion. The connection is told
  of the packets that the frame acknowledges (an unprotected frame acknowledges only packets that were
  sent unprotected), in decreasing order of packet numbers, up to the first for which it reports an
  error, which is returned. Exactly the packets before that one are removed, all of them without
  an error, and the largest acknowledged packet number is updated with them.
\<close>

theorem rtb_recv_ack_removes:
  assumes "rtb_reachable rtb" and "ack_valid fr"
  shows "\<exists>rtb' c' rv n. ngtcp2_rtb_recv_ack f rtb fr unprotected c = Ok (rtb', c', rv) \<and> rtb_store rtb' = rtb_store rtb \<and>
    (let hits = filter (\<lambda>p. rtb_acks unprotected fr (rtb_store rtb p)) (rtb_head rtb) in
     acked_run f (map (rtb_store rtb) hits) c = (n, c', rv) \<and> (rv = None \<longrightarrow> n = length hits) \<and>
     rtb_head rtb' = filter (\<lambda>p. p \<notin> set (take n hits)) (rtb_head rtb) \<and>
     rtb_largest_acked rtb' = fold max (map (num_of (rtb_store rtb)) (take n hits)) (rtb_largest_acked rtb) \<and>
     unat (rtb_bytes_in_flight rtb') = (\<Sum>p \<leftarrow> rtb_head rtb'. unat (re_pktlen (rtb_store rtb p))))"
proof -
  obtain rtb' c' rv n where R: "ngtcp2_rtb_recv_ack f rtb fr unprotected c = Ok (rtb', c', rv)" "rtb_inv rtb'" "rtb_store rtb' = rtb_store rtb"
      "acked_run f (map (rtb_store rtb) (filter (\<lambda>p. rtb_acks unprotected fr (rtb_store rtb p)) (rtb_head rtb))) c = (n, c', rv)"
      "let done = take n (filter (\<lambda>p. rtb_acks unprotected fr (rtb_store rtb p)) (rtb_head rtb)) in
       rtb_head rtb' = filter (\<lambda>p. p \<notin> set done) (rtb_head rtb) \<and>
       rtb_largest_acked rtb' = fold max (map (num_of (rtb_store rtb)) done) (rtb_largest_acked rtb)"
    using rtb_recv_ack_ok [OF rtb_reachable_inv [OF assms(1)] assms(2), of f unprotected c] by blast
  have "rv = None \<longrightarrow> n = length (filter (\<lambda>p. rtb_acks unprotected fr (rtb_store rtb p)) (rtb_head rtb))"
    using R(4) acked_run_all by fastforce
  moreover have "unat (rtb_bytes_in_flight rtb') = (\<Sum>p \<leftarrow> rtb_head rtb'. unat (re_pktlen (rtb_store rtb p)))"
    using R(2,3) by (simp add: rtb_inv_def rtb_wf_def)
  ultimately show ?thesis using R(1,3,4,5) unfolding Let_def by blast
qed

theorem rtb_recv_ack_removes_witness:
  "let hdr = \<lparr>hd_flags = 0, hd_type = 0, hd_conn_id = 0, hd_pkt_num = 7, hd_version = 1\<rparr>;
       ent = \<lparr>re_hd = hdr, re_frc = [], re_expiry = 5, re_deadline = 9, re_count = 0, re_pktlen = 100, re_flags = 0\<rparr>;
       rtb = fst (ngtcp2_rtb_add (ngtcp2_rtb_init (\<lambda>_. 0) (\<lambda>_. ent)) 3 ent []);
       fr = \<lparr>ack_largest_ack = 7, ack_ack_delay = 0, ack_first_ack_blklen = 0, ack_blks = []\<rparr>
   in rtb_head rtb = [3] \<and> (\<exists>rtb'. ngtcp2_rtb_recv_ack None rtb fr 0 () = Ok (rtb', (), None) \<and> rtb_head rtb' = [] \<and> rtb_largest_acked rtb' = 7)"
proof -
  let ?hdr = "\<lparr>hd_flags = 0, hd_type = 0, hd_conn_id = 0, hd_pkt_num = 7, hd_version = 1\<rparr>"
  let ?ent = "\<lparr>re_hd = ?hdr, re_frc = [], re_expiry = 5, re_deadline = 9, re_count = 0, re_pktlen = 100, re_flags = 0\<rparr>"
  let ?r0 = "ngtcp2_rtb_init (\<lambda>_. 0) (\<lambda>_. ?ent)"
  let ?fr = "\<lparr>ack_largest_ack = 7, ack_ack_delay = 0, ack_first_ack_blklen = 0, ack_blks = []\<rparr>"
  have v: "ack_valid ?fr" by (simp add: ack_valid_def ngtcp2_pkt_validate_ack_def)
  obtain rtb m rv where add: "ngtcp2_rtb_add ?r0 3 ?ent [] = (rtb, m, rv)" by (metis prod_cases3)
  have r0: "rtb_head ?r0 = []" "rtb_largest_acked ?r0 = 0" "unat (rtb_bytes_in_flight ?r0) = 0" "rtb_store ?r0 = (\<lambda>_. ?ent)"
    by (simp_all add: ngtcp2_rtb_init_def)
  have rtb: "rtb_head rtb = [3]" "rtb_store rtb = (\<lambda>_. ?ent)" "rtb_largest_acked rtb = 0"
    using rtb_add_ok [OF rtb_inv_init _ _ _ add] r0 by (auto simp: fun_eq_iff)
  have "rtb_reachable rtb" using rtb_reachable.add [OF rtb_reachable.init _ _ _ add] r0 by auto
  from rtb_recv_ack_removes [OF this v, of None 0 "()"] rtb add show ?thesis
    by (auto simp: Let_def rtb_acks_def rtb_skips_def acked_def)
qed

end
