(* ===== verification/Strm.thy ===== *)
theory Strm
  imports Rob Gaptr Pkt_Frames
begin

text \<open>
  \<^verbatim>\<open>lib/ngtcp2_strm.c\<close> and \<^verbatim>\<open>lib/ngtcp2_buf.c\<close>: the state of one stream and the buffers that data is
  written to. A buffer is the bytes from \<open>begin\<close> to \<open>end\<close> with the positions \<open>pos\<close> and \<open>last\<close> in it. The
  links of a stream in the hash table and in the list of streams whose flow control window is to be
  extended belong to the connection.
\<close>

section \<open>Buffers\<close>

record ngtcp2_buf =
  buf_mem :: bytes
  buf_pos :: nat
  buf_last :: nat

definition ngtcp2_buf_init :: "bytes \<Rightarrow> ngtcp2_buf" where
  "ngtcp2_buf_init out = \<lparr>buf_mem = out, buf_pos = 0, buf_last = 0\<rparr>"

definition ngtcp2_buf_left :: "ngtcp2_buf \<Rightarrow> nat" where
  "ngtcp2_buf_left buf = length (buf_mem buf) - buf_last buf"

definition ngtcp2_buf_len :: "ngtcp2_buf \<Rightarrow> nat" where
  "ngtcp2_buf_len buf = buf_last buf - buf_pos buf"

text \<open>Storing bytes at position \<open>i\<close>, and at \<open>last\<close>, which then moves behind them.\<close>

definition buf_store :: "ngtcp2_buf \<Rightarrow> nat \<Rightarrow> bytes \<Rightarrow> ngtcp2_buf result" where
  "buf_store buf i bs =
     c_assert (i + length bs \<le> length (buf_mem buf))
       (Ok (buf\<lparr>buf_mem := take i (buf_mem buf) @ bs @ drop (i + length bs) (buf_mem buf), buf_last := i + length bs\<rparr>))"

definition buf_append :: "ngtcp2_buf \<Rightarrow> bytes \<Rightarrow> ngtcp2_buf result" where
  "buf_append buf bs = buf_store buf (buf_last buf) bs"

section \<open>Streams\<close>

record ngtcp2_strm =
  sm_tx_offset :: u64
  sm_acked_tx_offset :: ngtcp2_gaptr
  sm_max_tx_offset :: u64
  sm_last_rx_offset :: u64
  sm_rob :: ngtcp2_rob
  sm_max_rx_offset :: u64
  sm_unsent_max_rx_offset :: u64
  sm_nbuffered :: nat
  sm_tx_buf :: ngtcp2_buf
  sm_stream_id :: u64
  sm_stream_user_data :: nat
  sm_flags :: u32
  sm_app_error_code :: u16

abbreviation NGTCP2_STRM_FLAG_NONE :: u32 where "NGTCP2_STRM_FLAG_NONE \<equiv> 0"
abbreviation NGTCP2_STRM_FLAG_SHUT_RD :: u32 where "NGTCP2_STRM_FLAG_SHUT_RD \<equiv> 0x01"
abbreviation NGTCP2_STRM_FLAG_SHUT_WR :: u32 where "NGTCP2_STRM_FLAG_SHUT_WR \<equiv> 0x02"
abbreviation NGTCP2_STRM_FLAG_SHUT_RDWR :: u32 where "NGTCP2_STRM_FLAG_SHUT_RDWR \<equiv> 0x03"
abbreviation NGTCP2_STRM_FLAG_SENT_RST :: u32 where "NGTCP2_STRM_FLAG_SENT_RST \<equiv> 0x04"
abbreviation NGTCP2_STRM_FLAG_RECV_RST :: u32 where "NGTCP2_STRM_FLAG_RECV_RST \<equiv> 0x08"
abbreviation NGTCP2_STRM_FLAG_STOP_SENDING :: u32 where "NGTCP2_STRM_FLAG_STOP_SENDING \<equiv> 0x10"

definition ngtcp2_strm_init :: "u64 \<Rightarrow> u32 \<Rightarrow> u64 \<Rightarrow> u64 \<Rightarrow> nat \<Rightarrow> ngtcp2_mem \<Rightarrow> ngtcp2_strm result \<times> ngtcp2_mem" where
  "ngtcp2_strm_init stream_id flags max_rx_offset max_tx_offset stream_user_data mem =
     (case ngtcp2_gaptr_init mem of
        (Ok acked, mem) \<Rightarrow>
          (case ngtcp2_rob_init (8 * 1024) mem of
             (Ok rob, mem) \<Rightarrow>
               (Ok \<lparr>sm_tx_offset = 0, sm_acked_tx_offset = acked, sm_max_tx_offset = max_tx_offset, sm_last_rx_offset = 0,
                    sm_rob = rob, sm_max_rx_offset = max_rx_offset, sm_unsent_max_rx_offset = max_rx_offset, sm_nbuffered = 0,
                    sm_tx_buf = ngtcp2_buf_init [], sm_stream_id = stream_id, sm_stream_user_data = stream_user_data,
                    sm_flags = flags, sm_app_error_code = 0\<rparr>, mem)
           | (Err e, mem) \<Rightarrow> (Err e, mem)
           | (Fault, mem) \<Rightarrow> (Fault, mem))
      | (Err e, mem) \<Rightarrow> (Err e, mem)
      | (Fault, mem) \<Rightarrow> (Fault, mem))"

definition ngtcp2_strm_rx_offset :: "ngtcp2_strm \<Rightarrow> u64" where
  "ngtcp2_strm_rx_offset strm = ngtcp2_rob_first_gap_offset (sm_rob strm)"

definition ngtcp2_strm_recv_reordering :: "ngtcp2_strm \<Rightarrow> ngtcp2_stream \<Rightarrow> ngtcp2_mem \<Rightarrow> (ngtcp2_strm \<times> ngtcp2_mem \<times> rc) result" where
  "ngtcp2_strm_recv_reordering strm fr mem =
     rbind (ngtcp2_rob_push (sm_rob strm) (st_offset fr) (st_data fr) (of_nat (length (st_data fr))) mem)
       (\<lambda>(rob, mem, rv). Ok (strm\<lparr>sm_rob := rob\<rparr>, mem, rv))"

definition ngtcp2_strm_shutdown :: "ngtcp2_strm \<Rightarrow> u32 \<Rightarrow> ngtcp2_strm" where
  "ngtcp2_strm_shutdown strm flags = strm\<lparr>sm_flags := sm_flags strm OR (flags AND NGTCP2_STRM_FLAG_SHUT_RDWR)\<rparr>"

end
