(* ===== verification/Transport_Params.thy ===== *)
theory Transport_Params
  imports Pkt_Header
begin

text \<open>
  \<^verbatim>\<open>lib/ngtcp2_crypto.c\<close>: keying material, the nonce of a protected packet, and the codec of the
  transport parameters that the endpoints exchange in the TLS handshake, including the
  parameters this fork adds (unicast address of the server, resource sensitivities, client
  identification, time stamp). A decoder pointer \<open>p\<close> is the list of the bytes from \<open>p\<close> to \<open>end\<close>.
\<close>

section \<open>Keying material and nonce\<close>

record ngtcp2_crypto_km =
  km_key :: bytes
  km_iv :: bytes

definition ngtcp2_crypto_km_new :: "bytes \<Rightarrow> nat \<Rightarrow> bytes \<Rightarrow> nat \<Rightarrow> ngtcp2_mem \<Rightarrow> ngtcp2_crypto_km result \<times> ngtcp2_mem" where
  "ngtcp2_crypto_km_new key keylen iv ivlen mem =
     (let (ok, mem') = ngtcp2_mem_malloc mem in
      (ret_if (\<not> ok) NGTCP2_ERR_NOMEM
         (c_assert (keylen \<le> length key \<and> ivlen \<le> length iv)
            (Ok \<lparr>km_key = ngtcp2_cpymem key keylen, km_iv = ngtcp2_cpymem iv ivlen\<rparr>)), mem'))"

text \<open>
  The low 8 bytes of the nonce are the ones of the initialisation vector combined with the memory
  image of the swapped packet number; with an initialisation vector shorter than 8 bytes the index
  of the destination wraps around.
\<close>

definition ngtcp2_crypto_create_nonce :: "bytes \<Rightarrow> u64 \<Rightarrow> bytes result" where
  "ngtcp2_crypto_create_nonce iv pkt_num =
     c_assert (8 \<le> length iv)
       (Ok (take (length iv - 8) iv
            @ map2 (\<lambda>a b. a XOR b) (drop (length iv - 8) iv) (store_le 8 (bswap64 pkt_num))))"

section \<open>Transport parameters\<close>

abbreviation NGTCP2_TRANSPORT_PARAM_INITIAL_MAX_STREAM_DATA :: u16 where "NGTCP2_TRANSPORT_PARAM_INITIAL_MAX_STREAM_DATA \<equiv> 0"
abbreviation NGTCP2_TRANSPORT_PARAM_INITIAL_MAX_DATA :: u16 where "NGTCP2_TRANSPORT_PARAM_INITIAL_MAX_DATA \<equiv> 1"
abbreviation NGTCP2_TRANSPORT_PARAM_INITIAL_MAX_STREAM_ID_BIDI :: u16 where "NGTCP2_TRANSPORT_PARAM_INITIAL_MAX_STREAM_ID_BIDI \<equiv> 2"
abbreviation NGTCP2_TRANSPORT_PARAM_IDLE_TIMEOUT :: u16 where "NGTCP2_TRANSPORT_PARAM_IDLE_TIMEOUT \<equiv> 3"
abbreviation NGTCP2_TRANSPORT_PARAM_OMIT_CONNECTION_ID :: u16 where "NGTCP2_TRANSPORT_PARAM_OMIT_CONNECTION_ID \<equiv> 4"
abbreviation NGTCP2_TRANSPORT_PARAM_MAX_PACKET_SIZE :: u16 where "NGTCP2_TRANSPORT_PARAM_MAX_PACKET_SIZE \<equiv> 5"
abbreviation NGTCP2_TRANSPORT_PARAM_STATELESS_RESET_TOKEN :: u16 where "NGTCP2_TRANSPORT_PARAM_STATELESS_RESET_TOKEN \<equiv> 6"
abbreviation NGTCP2_TRANSPORT_PARAM_ACK_DELAY_EXPONENT :: u16 where "NGTCP2_TRANSPORT_PARAM_ACK_DELAY_EXPONENT \<equiv> 7"
abbreviation NGTCP2_TRANSPORT_PARAM_INITIAL_MAX_STREAM_ID_UNI :: u16 where "NGTCP2_TRANSPORT_PARAM_INITIAL_MAX_STREAM_ID_UNI \<equiv> 8"
abbreviation NGTCP2_TRANSPORT_PARAM_SERVER_UNICAST_IP :: u16 where "NGTCP2_TRANSPORT_PARAM_SERVER_UNICAST_IP \<equiv> 9"
abbreviation NGTCP2_TRANSPORT_PARAM_SERVER_UNICAST_TTL :: u16 where "NGTCP2_TRANSPORT_PARAM_SERVER_UNICAST_TTL \<equiv> 10"
abbreviation NGTCP2_TRANSPORT_PARAM_TEST_METADATA :: u16 where "NGTCP2_TRANSPORT_PARAM_TEST_METADATA \<equiv> 11"
abbreviation NGTCP2_TRANSPORT_PARAM_CPU_SENSITIVE :: u16 where "NGTCP2_TRANSPORT_PARAM_CPU_SENSITIVE \<equiv> 12"
abbreviation NGTCP2_TRANSPORT_PARAM_THROUGHPUT_SENSITIVE :: u16 where "NGTCP2_TRANSPORT_PARAM_THROUGHPUT_SENSITIVE \<equiv> 13"
abbreviation NGTCP2_TRANSPORT_PARAM_RTT_SENSITIVE :: u16 where "NGTCP2_TRANSPORT_PARAM_RTT_SENSITIVE \<equiv> 14"
abbreviation NGTCP2_TRANSPORT_PARAM_CLIENT_IP :: u16 where "NGTCP2_TRANSPORT_PARAM_CLIENT_IP \<equiv> 15"
abbreviation NGTCP2_TRANSPORT_PARAM_CLIENT_PROCESS :: u16 where "NGTCP2_TRANSPORT_PARAM_CLIENT_PROCESS \<equiv> 16"
abbreviation NGTCP2_TRANSPORT_PARAM_TIME_STAMP :: u16 where "NGTCP2_TRANSPORT_PARAM_TIME_STAMP \<equiv> 17"

abbreviation NGTCP2_TRANSPORT_PARAMS_TYPE_CLIENT_HELLO :: u8 where "NGTCP2_TRANSPORT_PARAMS_TYPE_CLIENT_HELLO \<equiv> 0"
abbreviation NGTCP2_TRANSPORT_PARAMS_TYPE_ENCRYPTED_EXTENSIONS :: u8 where "NGTCP2_TRANSPORT_PARAMS_TYPE_ENCRYPTED_EXTENSIONS \<equiv> 1"
abbreviation NGTCP2_TRANSPORT_PARAMS_TYPE_NEW_SESSION_TICKET :: u8 where "NGTCP2_TRANSPORT_PARAMS_TYPE_NEW_SESSION_TICKET \<equiv> 2"

abbreviation NGTCP2_MAX_PKT_SIZE :: u16 where "NGTCP2_MAX_PKT_SIZE \<equiv> 65527"
abbreviation NGTCP2_DEFAULT_ACK_DELAY_EXPONENT :: u8 where "NGTCP2_DEFAULT_ACK_DELAY_EXPONENT \<equiv> 3"

text \<open>
  The two members of the union \<open>v\<close> share their first word, \<open>initial_version\<close> and
  \<open>negotiated_version\<close>: it is \<open>tp_version\<close>. The array of supported versions and the number of its
  elements in use are the list \<open>tp_supported_versions\<close>; the array has room for 63.
\<close>

record ngtcp2_transport_params =
  tp_version :: u32
  tp_supported_versions :: "u32 list"
  initial_max_stream_data :: u32
  initial_max_data :: u32
  initial_max_stream_id_bidi :: u32
  initial_max_stream_id_uni :: u32
  idle_timeout :: u16
  omit_connection_id :: u8
  max_packet_size :: u16
  stateless_reset_token :: bytes
  ack_delay_exponent :: u8
  server_unicast_ip :: u32
  server_unicast_ttl :: u32
  test_metadata :: u32
  cpu_sensitive :: u32
  throughput_sensitive :: u32
  rtt_sensitive :: u32
  client_ip :: u64
  client_process :: u64
  time_stamp :: u64

subsection \<open>Encoder\<close>

text \<open>The number of bytes that depends on the kind of the message (\<open>vlen\<close> and its share of \<open>len\<close>).\<close>

definition encode_vlen :: "u8 \<Rightarrow> ngtcp2_transport_params \<Rightarrow> nat \<times> nat" where
  "encode_vlen exttype params =
     (if exttype = NGTCP2_TRANSPORT_PARAMS_TYPE_CLIENT_HELLO then (4, 0)
      else if exttype = NGTCP2_TRANSPORT_PARAMS_TYPE_ENCRYPTED_EXTENSIONS then
        (4 + 1 + length (tp_supported_versions params) * 4, 20)
      else (0, 20))"

definition encode_params_len :: "u8 \<Rightarrow> ngtcp2_transport_params \<Rightarrow> nat" where
  "encode_params_len exttype params =
     2 + 8 + 8 + 6 + snd (encode_vlen exttype params) + fst (encode_vlen exttype params)
     + (if initial_max_stream_id_bidi params \<noteq> 0 then 8 else 0)
     + (if initial_max_stream_id_uni params \<noteq> 0 then 8 else 0)
     + (if omit_connection_id params \<noteq> 0 then 4 else 0)
     + (if max_packet_size params \<noteq> NGTCP2_MAX_PKT_SIZE then 6 else 0)
     + (if ack_delay_exponent params \<noteq> NGTCP2_DEFAULT_ACK_DELAY_EXPONENT then 5 else 0)
     + (if server_unicast_ip params \<noteq> 0 then 8 else 0)
     + (if server_unicast_ttl params \<noteq> 0 then 8 else 0)
     + (if test_metadata params \<noteq> 0 then 8 else 0)
     + (if cpu_sensitive params \<noteq> 0 then 8 else 0)
     + (if throughput_sensitive params \<noteq> 0 then 8 else 0)
     + (if rtt_sensitive params \<noteq> 0 then 8 else 0)
     + (if client_ip params \<noteq> 0 then 12 else 0)
     + (if client_process params \<noteq> 0 then 12 else 0)
     + (if time_stamp params \<noteq> 0 then 12 else 0)"

text \<open>One parameter: its identifier, the length of its value and the value.\<close>

definition put_param :: "u16 \<Rightarrow> bytes \<Rightarrow> bytes" where
  "put_param param_type bs = ngtcp2_put_uint16be param_type @ ngtcp2_put_uint16be (of_nat (length bs)) @ bs"

definition put_param_if :: "bool \<Rightarrow> u16 \<Rightarrow> bytes \<Rightarrow> bytes" where
  "put_param_if c param_type bs = (if c then put_param param_type bs else [])"

definition put_version :: "u8 \<Rightarrow> ngtcp2_transport_params \<Rightarrow> bytes" where
  "put_version exttype params =
     (if exttype = NGTCP2_TRANSPORT_PARAMS_TYPE_CLIENT_HELLO then ngtcp2_put_uint32be (tp_version params)
      else if exttype = NGTCP2_TRANSPORT_PARAMS_TYPE_ENCRYPTED_EXTENSIONS then
        ngtcp2_put_uint32be (tp_version params)
        @ [of_nat (length (tp_supported_versions params) * 4)]
        @ concat (map ngtcp2_put_uint32be (tp_supported_versions params))
      else [])"

definition put_params :: "u8 \<Rightarrow> ngtcp2_transport_params \<Rightarrow> bytes" where
  "put_params exttype params =
     put_param NGTCP2_TRANSPORT_PARAM_INITIAL_MAX_STREAM_DATA (ngtcp2_put_uint32be (initial_max_stream_data params))
     @ put_param NGTCP2_TRANSPORT_PARAM_INITIAL_MAX_DATA (ngtcp2_put_uint32be (initial_max_data params))
     @ put_param NGTCP2_TRANSPORT_PARAM_IDLE_TIMEOUT (ngtcp2_put_uint16be (idle_timeout params))
     @ put_param_if (exttype = NGTCP2_TRANSPORT_PARAMS_TYPE_ENCRYPTED_EXTENSIONS \<or> exttype = NGTCP2_TRANSPORT_PARAMS_TYPE_NEW_SESSION_TICKET)
         NGTCP2_TRANSPORT_PARAM_STATELESS_RESET_TOKEN (stateless_reset_token params)
     @ put_param_if (initial_max_stream_id_bidi params \<noteq> 0)
         NGTCP2_TRANSPORT_PARAM_INITIAL_MAX_STREAM_ID_BIDI (ngtcp2_put_uint32be (initial_max_stream_id_bidi params))
     @ put_param_if (initial_max_stream_id_uni params \<noteq> 0)
         NGTCP2_TRANSPORT_PARAM_INITIAL_MAX_STREAM_ID_UNI (ngtcp2_put_uint32be (initial_max_stream_id_uni params))
     @ put_param_if (omit_connection_id params \<noteq> 0) NGTCP2_TRANSPORT_PARAM_OMIT_CONNECTION_ID []
     @ put_param_if (max_packet_size params \<noteq> NGTCP2_MAX_PKT_SIZE)
         NGTCP2_TRANSPORT_PARAM_MAX_PACKET_SIZE (ngtcp2_put_uint16be (max_packet_size params))
     @ put_param_if (server_unicast_ip params \<noteq> 0)
         NGTCP2_TRANSPORT_PARAM_SERVER_UNICAST_IP (ngtcp2_put_uint32be (server_unicast_ip params))
     @ put_param_if (server_unicast_ttl params \<noteq> 0)
         NGTCP2_TRANSPORT_PARAM_SERVER_UNICAST_TTL (ngtcp2_put_uint32be (server_unicast_ttl params))
     @ put_param_if (test_metadata params \<noteq> 0)
         NGTCP2_TRANSPORT_PARAM_TEST_METADATA (ngtcp2_put_uint32be (test_metadata params))
     @ put_param_if (cpu_sensitive params \<noteq> 0)
         NGTCP2_TRANSPORT_PARAM_CPU_SENSITIVE (ngtcp2_put_uint32be (cpu_sensitive params))
     @ put_param_if (throughput_sensitive params \<noteq> 0)
         NGTCP2_TRANSPORT_PARAM_THROUGHPUT_SENSITIVE (ngtcp2_put_uint32be (throughput_sensitive params))
     @ put_param_if (rtt_sensitive params \<noteq> 0)
         NGTCP2_TRANSPORT_PARAM_RTT_SENSITIVE (ngtcp2_put_uint32be (rtt_sensitive params))
     @ put_param_if (client_ip params \<noteq> 0)
         NGTCP2_TRANSPORT_PARAM_CLIENT_IP (ngtcp2_put_uint64be (client_ip params))
     @ put_param_if (client_process params \<noteq> 0)
         NGTCP2_TRANSPORT_PARAM_CLIENT_PROCESS (ngtcp2_put_uint64be (client_process params))
     @ put_param_if (time_stamp params \<noteq> 0)
         NGTCP2_TRANSPORT_PARAM_TIME_STAMP (ngtcp2_put_uint64be (time_stamp params))
     @ put_param_if (ack_delay_exponent params \<noteq> NGTCP2_DEFAULT_ACK_DELAY_EXPONENT)
         NGTCP2_TRANSPORT_PARAM_ACK_DELAY_EXPONENT [ack_delay_exponent params]"

text \<open>
  The encoder; the array of versions is only read for ENCRYPTED\_EXTENSIONS, and not past its end.
\<close>

definition ngtcp2_encode_transport_params :: "nat \<Rightarrow> u8 \<Rightarrow> ngtcp2_transport_params \<Rightarrow> bytes result" where
  "ngtcp2_encode_transport_params destlen exttype params =
     (let len = encode_params_len exttype params; vlen = fst (encode_vlen exttype params) in
      ret_if (destlen < len) NGTCP2_ERR_NOBUF (
      c_assert (exttype = NGTCP2_TRANSPORT_PARAMS_TYPE_ENCRYPTED_EXTENSIONS \<longrightarrow> length (tp_supported_versions params) \<le> 63) (
      let bs = put_version exttype params @ ngtcp2_put_uint16be (of_nat (len - vlen - 2)) @ put_params exttype params in
      c_assert (length bs = len) (Ok bs))))"

subsection \<open>Decoder\<close>

abbreviation MALFORMED :: ngtcp2_lib_error where "MALFORMED \<equiv> NGTCP2_ERR_MALFORMED_TRANSPORT_PARAM"

definition valid_stream_id_bidi :: "u32 \<Rightarrow> u8 \<Rightarrow> bool result" where
  "valid_stream_id_bidi n exttype =
     (if exttype = NGTCP2_TRANSPORT_PARAMS_TYPE_CLIENT_HELLO then Ok (n AND 3 = 1)
      else if exttype = NGTCP2_TRANSPORT_PARAMS_TYPE_ENCRYPTED_EXTENSIONS \<or> exttype = NGTCP2_TRANSPORT_PARAMS_TYPE_NEW_SESSION_TICKET
      then Ok (n AND 3 = 0)
      else Fault)"

definition valid_stream_id_uni :: "u32 \<Rightarrow> u8 \<Rightarrow> bool result" where
  "valid_stream_id_uni n exttype =
     (if exttype = NGTCP2_TRANSPORT_PARAMS_TYPE_CLIENT_HELLO then Ok (n AND 3 = 3)
      else if exttype = NGTCP2_TRANSPORT_PARAMS_TYPE_ENCRYPTED_EXTENSIONS \<or> exttype = NGTCP2_TRANSPORT_PARAMS_TYPE_NEW_SESSION_TICKET
      then Ok (n AND 3 = 2)
      else Fault)"

text \<open>\<open>param_value n p\<close>: the length field at \<open>p\<close> must be \<open>n\<close> and \<open>n\<close> bytes must follow it.\<close>

definition param_value :: "nat \<Rightarrow> bytes \<Rightarrow> bytes result" where
  "param_value n p =
     rbind (rd_u16 p 0) (\<lambda>l. ret_if (unat l \<noteq> n) MALFORMED (
     let p = drop 2 p in ret_if (length p < n) MALFORMED (Ok p)))"

definition param_u16 :: "(u16 \<Rightarrow> 'a) \<Rightarrow> bytes \<Rightarrow> ('a \<times> bytes) result" where
  "param_u16 f p = rbind (param_value 2 p) (\<lambda>p. rbind (rd_u16 p 0) (\<lambda>x. Ok (f x, drop 2 p)))"

definition param_u32 :: "(u32 \<Rightarrow> 'a) \<Rightarrow> bytes \<Rightarrow> ('a \<times> bytes) result" where
  "param_u32 f p = rbind (param_value 4 p) (\<lambda>p. rbind (rd_u32 p 0) (\<lambda>x. Ok (f x, drop 4 p)))"

definition param_u64 :: "(u64 \<Rightarrow> 'a) \<Rightarrow> bytes \<Rightarrow> ('a \<times> bytes) result" where
  "param_u64 f p = rbind (param_value 8 p) (\<lambda>p. rbind (rd_u64 p 0) (\<lambda>x. Ok (f x, drop 8 p)))"

text \<open>A stream identifier is checked before it is stored.\<close>

definition param_stream_id :: "(u32 \<Rightarrow> bool result) \<Rightarrow> (u32 \<Rightarrow> 'a) \<Rightarrow> bytes \<Rightarrow> ('a \<times> bytes) result" where
  "param_stream_id valid f p =
     rbind (param_value 4 p) (\<lambda>p. rbind (rd_u32 p 0) (\<lambda>x.
     rbind (valid x) (\<lambda>b. ret_if (\<not> b) MALFORMED (Ok (f x, drop 4 p)))))"

text \<open>The parameters of this fork, with the identifiers 9 to 17.\<close>

definition decode_ext_param ::
  "u16 \<Rightarrow> bytes \<Rightarrow> ngtcp2_transport_params \<Rightarrow> (ngtcp2_transport_params \<times> bytes) result" where
  "decode_ext_param param_type p params =
     (if param_type = NGTCP2_TRANSPORT_PARAM_SERVER_UNICAST_IP then
        param_u32 (\<lambda>v. params\<lparr>server_unicast_ip := v\<rparr>) p
      else if param_type = NGTCP2_TRANSPORT_PARAM_SERVER_UNICAST_TTL then
        param_u32 (\<lambda>v. params\<lparr>server_unicast_ttl := v\<rparr>) p
      else if param_type = NGTCP2_TRANSPORT_PARAM_TEST_METADATA then
        param_u32 (\<lambda>v. params\<lparr>test_metadata := v\<rparr>) p
      else if param_type = NGTCP2_TRANSPORT_PARAM_CPU_SENSITIVE then
        param_u32 (\<lambda>v. params\<lparr>cpu_sensitive := v\<rparr>) p
      else if param_type = NGTCP2_TRANSPORT_PARAM_THROUGHPUT_SENSITIVE then
        param_u32 (\<lambda>v. params\<lparr>throughput_sensitive := v\<rparr>) p
      else if param_type = NGTCP2_TRANSPORT_PARAM_RTT_SENSITIVE then
        param_u32 (\<lambda>v. params\<lparr>rtt_sensitive := v\<rparr>) p
      else if param_type = NGTCP2_TRANSPORT_PARAM_CLIENT_IP then
        param_u64 (\<lambda>v. params\<lparr>client_ip := v\<rparr>) p
      else if param_type = NGTCP2_TRANSPORT_PARAM_CLIENT_PROCESS then
        param_u64 (\<lambda>v. params\<lparr>client_process := v\<rparr>) p
      else
        param_u64 (\<lambda>v. params\<lparr>time_stamp := v\<rparr>) p)"

text \<open>
  The body of the loop for the parameter \<open>param_type\<close>, with \<open>p\<close> behind the identifier: the
  parameters stored so far with the new one, and the rest of the bytes.
\<close>

definition decode_param ::
  "u8 \<Rightarrow> u16 \<Rightarrow> bytes \<Rightarrow> ngtcp2_transport_params \<Rightarrow> (ngtcp2_transport_params \<times> bytes) result" where
  "decode_param exttype param_type p params =
     (if param_type = NGTCP2_TRANSPORT_PARAM_INITIAL_MAX_STREAM_DATA then
        param_u32 (\<lambda>v. params\<lparr>initial_max_stream_data := v\<rparr>) p
      else if param_type = NGTCP2_TRANSPORT_PARAM_INITIAL_MAX_DATA then
        param_u32 (\<lambda>v. params\<lparr>initial_max_data := v\<rparr>) p
      else if param_type = NGTCP2_TRANSPORT_PARAM_INITIAL_MAX_STREAM_ID_BIDI then
        param_stream_id (\<lambda>v. valid_stream_id_bidi v exttype) (\<lambda>v. params\<lparr>initial_max_stream_id_bidi := v\<rparr>) p
      else if param_type = NGTCP2_TRANSPORT_PARAM_INITIAL_MAX_STREAM_ID_UNI then
        param_stream_id (\<lambda>v. valid_stream_id_uni v exttype) (\<lambda>v. params\<lparr>initial_max_stream_id_uni := v\<rparr>) p
      else if param_type = NGTCP2_TRANSPORT_PARAM_IDLE_TIMEOUT then
        param_u16 (\<lambda>v. params\<lparr>idle_timeout := v\<rparr>) p
      else if param_type = NGTCP2_TRANSPORT_PARAM_OMIT_CONNECTION_ID then
        rbind (rd_u16 p 0) (\<lambda>l. ret_if (l \<noteq> 0) MALFORMED (Ok (params\<lparr>omit_connection_id := 1\<rparr>, drop 2 p)))
      else if param_type = NGTCP2_TRANSPORT_PARAM_MAX_PACKET_SIZE then
        param_u16 (\<lambda>v. params\<lparr>max_packet_size := v\<rparr>) p
      else if param_type = NGTCP2_TRANSPORT_PARAM_STATELESS_RESET_TOKEN then
        ret_if (exttype \<noteq> NGTCP2_TRANSPORT_PARAMS_TYPE_ENCRYPTED_EXTENSIONS \<and> exttype \<noteq> NGTCP2_TRANSPORT_PARAMS_TYPE_NEW_SESSION_TICKET)
          MALFORMED (
        rbind (param_value NGTCP2_STATELESS_RESET_TOKENLEN p) (\<lambda>p.
        rbind (rd_block p 0 NGTCP2_STATELESS_RESET_TOKENLEN) (\<lambda>v.
          Ok (params\<lparr>stateless_reset_token := v\<rparr>, drop NGTCP2_STATELESS_RESET_TOKENLEN p))))
      else if param_type = NGTCP2_TRANSPORT_PARAM_ACK_DELAY_EXPONENT then
        rbind (rd_u16 p 0) (\<lambda>l. ret_if (l \<noteq> 1) MALFORMED (
        let p = drop 2 p in ret_if (p = []) MALFORMED (
        rbind (rd_u8 p 0) (\<lambda>v. ret_if (20 < v) MALFORMED (
          Ok (params\<lparr>ack_delay_exponent := v\<rparr>, drop 1 p))))))
      else if NGTCP2_TRANSPORT_PARAM_SERVER_UNICAST_IP \<le> param_type \<and> param_type \<le> NGTCP2_TRANSPORT_PARAM_TIME_STAMP then
        decode_ext_param param_type p params
      else
        rbind (rd_u16 p 0) (\<lambda>valuelen. let p = drop 2 p in
        ret_if (length p < unat valuelen) MALFORMED (Ok (params, drop (unat valuelen) p))))"

text \<open>The flag of a known parameter; an unknown one sets none.\<close>

definition param_flag :: "u16 \<Rightarrow> u32" where
  "param_flag param_type = (if param_type \<le> NGTCP2_TRANSPORT_PARAM_TIME_STAMP then push_bit (unat param_type) 1 else 0)"

lemmas param_defs = param_value_def param_u16_def param_u32_def param_u64_def param_stream_id_def

lemma decode_param_shrinks:
  assumes "decode_param exttype t p params = Ok (params', p')"
  shows "length p' + 2 \<le> length p"
  using assms unfolding decode_param_def decode_ext_param_def
  by (auto simp: param_defs rd_defs result_simps Let_def split: if_splits)

function decode_params_loop ::
  "u8 \<Rightarrow> bytes \<Rightarrow> ngtcp2_transport_params \<Rightarrow> u32 \<Rightarrow> (ngtcp2_transport_params \<times> u32 \<times> bytes) result" where
  "decode_params_loop exttype p params flags =
     (if 2 * 2 \<le> length p then
        case decode_param exttype (ngtcp2_get_uint16 p) (drop 2 p) params of
          Ok (params', p') \<Rightarrow> decode_params_loop exttype p' params' (flags OR param_flag (ngtcp2_get_uint16 p))
        | Err e \<Rightarrow> Err e
        | Fault \<Rightarrow> Fault
      else Ok (params, flags, p))"
  by pat_completeness auto

termination
  by (relation "measure (\<lambda>(exttype, p, params, flags). length p)") (auto dest!: decode_param_shrinks)

declare decode_params_loop.simps [simp del]

text \<open>The part before the list of parameters; it returns \<open>vlen\<close> too.\<close>

definition decode_version ::
  "u8 \<Rightarrow> bytes \<Rightarrow> ngtcp2_transport_params \<Rightarrow> (ngtcp2_transport_params \<times> bytes \<times> nat) result" where
  "decode_version exttype p params =
     (if exttype = NGTCP2_TRANSPORT_PARAMS_TYPE_CLIENT_HELLO then
        ret_if (length p < 4) MALFORMED (
        rbind (rd_u32 p 0) (\<lambda>v. Ok (params\<lparr>tp_version := v\<rparr>, drop 4 p, 4)))
      else if exttype = NGTCP2_TRANSPORT_PARAMS_TYPE_ENCRYPTED_EXTENSIONS then
        ret_if (length p < 4 + 1) MALFORMED (
        rbind (rd_u32 p 0) (\<lambda>v. let p = drop 4 p in
        rbind (rd_u8 p 0) (\<lambda>l. let p = drop 1 p; supported_versionslen = unat l in
        ret_if (length p < supported_versionslen \<or> supported_versionslen mod 4 \<noteq> 0) MALFORMED (
        rbind (rd_block p 0 supported_versionslen) (\<lambda>blk.
        rbind (version_loop blk) (\<lambda>vs.
        c_assert (length vs \<le> 63) (
          Ok (params\<lparr>tp_version := v, tp_supported_versions := vs\<rparr>, drop supported_versionslen p,
              4 + 1 + supported_versionslen))))))))
      else Ok (params, p, 0))"

abbreviation NGTCP2_REQUIRED_TRANSPORT_PARAMS :: u32 where
  "NGTCP2_REQUIRED_TRANSPORT_PARAMS \<equiv>
     param_flag NGTCP2_TRANSPORT_PARAM_INITIAL_MAX_STREAM_DATA OR param_flag NGTCP2_TRANSPORT_PARAM_INITIAL_MAX_DATA
     OR param_flag NGTCP2_TRANSPORT_PARAM_IDLE_TIMEOUT"

definition reset_missing :: "u32 \<Rightarrow> ngtcp2_transport_params \<Rightarrow> ngtcp2_transport_params" where
  "reset_missing flags params =
     (let absent = (\<lambda>param_type. flags AND param_flag param_type = 0);
        params = (if absent NGTCP2_TRANSPORT_PARAM_INITIAL_MAX_STREAM_ID_BIDI then params\<lparr>initial_max_stream_id_bidi := 0\<rparr> else params);
        params = (if absent NGTCP2_TRANSPORT_PARAM_INITIAL_MAX_STREAM_ID_UNI then params\<lparr>initial_max_stream_id_uni := 0\<rparr> else params);
        params = (if absent NGTCP2_TRANSPORT_PARAM_OMIT_CONNECTION_ID then params\<lparr>omit_connection_id := 0\<rparr> else params);
        params = (if absent NGTCP2_TRANSPORT_PARAM_MAX_PACKET_SIZE then params\<lparr>max_packet_size := NGTCP2_MAX_PKT_SIZE\<rparr> else params)
      in if absent NGTCP2_TRANSPORT_PARAM_ACK_DELAY_EXPONENT
         then params\<lparr>ack_delay_exponent := NGTCP2_DEFAULT_ACK_DELAY_EXPONENT\<rparr> else params)"

definition ngtcp2_decode_transport_params ::
  "ngtcp2_transport_params \<Rightarrow> u8 \<Rightarrow> bytes \<Rightarrow> ngtcp2_transport_params result" where
  "ngtcp2_decode_transport_params params exttype data =
     rbind (decode_version exttype data params) (\<lambda>(params, p, vlen).
     ret_if (length p < 2) MALFORMED (
     rbind (rd_u16 p 0) (\<lambda>l.
     ret_if (vlen + 2 + unat l \<noteq> length data) MALFORMED (
     rbind (decode_params_loop exttype (drop 2 p) params 0) (\<lambda>(params, flags, p).
     ret_if (p \<noteq> []) MALFORMED (
     ret_if (flags AND NGTCP2_REQUIRED_TRANSPORT_PARAMS \<noteq> NGTCP2_REQUIRED_TRANSPORT_PARAMS) NGTCP2_ERR_REQUIRED_TRANSPORT_PARAM (
     ret_if ((exttype = NGTCP2_TRANSPORT_PARAMS_TYPE_ENCRYPTED_EXTENSIONS \<or> exttype = NGTCP2_TRANSPORT_PARAMS_TYPE_NEW_SESSION_TICKET)
             \<and> flags AND param_flag NGTCP2_TRANSPORT_PARAM_STATELESS_RESET_TOKEN = 0) NGTCP2_ERR_REQUIRED_TRANSPORT_PARAM (
     Ok (reset_missing flags params)))))))))"

section \<open>Safety of the decoder\<close>

text \<open>A result that is no fault: a value with the property \<open>P\<close> or the error for malformed parameters.\<close>

definition dec_param_ok :: "('a \<Rightarrow> bool) \<Rightarrow> 'a result \<Rightarrow> bool" where
  "dec_param_ok P r = (case r of Ok x \<Rightarrow> P x | Err e \<Rightarrow> e = MALFORMED | Fault \<Rightarrow> False)"

lemma dec_param_ok_simps [simp]:
  "dec_param_ok P (Ok x) = P x" "dec_param_ok P (Err e) \<longleftrightarrow> e = MALFORMED" "\<not> dec_param_ok P Fault"
  by (simp_all add: dec_param_ok_def)

text \<open>
  What the flags say about the parameters stored so far: identifiers that were received have the
  form their message demands, and a received exponent is at most 20.
\<close>

definition params_flags_ok :: "u8 \<Rightarrow> u32 \<Rightarrow> ngtcp2_transport_params \<Rightarrow> bool" where
  "params_flags_ok exttype flags params \<longleftrightarrow>
     (bit flags 2 \<longrightarrow> valid_stream_id_bidi (initial_max_stream_id_bidi params) exttype = Ok True) \<and>
     (bit flags 8 \<longrightarrow> valid_stream_id_uni (initial_max_stream_id_uni params) exttype = Ok True) \<and>
     (bit flags 7 \<longrightarrow> ack_delay_exponent params \<le> 20) \<and>
     length (stateless_reset_token params) = 16"

lemma bit_param_flag: "bit (param_flag t) k \<longleftrightarrow> unat t = k \<and> k \<le> 17"
  by (auto simp: param_flag_def bit_simps word_le_nat_alt)

lemma and_flag_0_iff: "t \<le> 17 \<Longrightarrow> flags AND param_flag t = 0 \<longleftrightarrow> \<not> bit flags (unat t)"
  by (simp add: param_flag_def push_bit_eq_mult and_exp_eq_0_iff_not_bit)

lemma exttype_cases: "exttype \<le> (2::u8) \<Longrightarrow> exttype = 0 \<or> exttype = 1 \<or> exttype = 2"
  by (auto simp: word_le_nat_alt word_unat_eq_iff)

lemma valid_stream_id_no_fault:
  "exttype \<le> 2 \<Longrightarrow> \<exists>b. valid_stream_id_bidi n exttype = Ok b"
  "exttype \<le> 2 \<Longrightarrow> \<exists>b. valid_stream_id_uni n exttype = Ok b"
  by (auto simp: valid_stream_id_bidi_def valid_stream_id_uni_def dest!: exttype_cases)

lemma dec_param_value: "2 \<le> length p \<Longrightarrow> (\<And>q. n \<le> length q \<Longrightarrow> dec_param_ok P (k q)) \<Longrightarrow> dec_param_ok P (rbind (param_value n p) k)"
  by (auto simp: param_value_def rd_defs ret_if_def Let_def)

lemma dec_param_u:
  assumes "2 \<le> length p"
  shows "(\<And>v q. P (f v, q)) \<Longrightarrow> dec_param_ok P (param_u16 f p)"
    and "(\<And>v q. P (g v, q)) \<Longrightarrow> dec_param_ok P (param_u32 g p)"
    and "(\<And>v q. P (h v, q)) \<Longrightarrow> dec_param_ok P (param_u64 h p)"
  using assms unfolding param_u16_def param_u32_def param_u64_def
  by (auto intro!: dec_param_value simp: rd_defs)

lemma dec_param_stream_id:
  assumes "2 \<le> length p" and "\<And>v. \<exists>b. valid v = Ok b" and "\<And>v q. valid v = Ok True \<Longrightarrow> P (f v, q)"
  shows "dec_param_ok P (param_stream_id valid f p)"
  unfolding param_stream_id_def
proof (rule dec_param_value [OF assms(1)])
  fix q :: bytes
  assume "4 \<le> length q"
  then show "dec_param_ok P (rbind (rd_u32 q 0) (\<lambda>x. rbind (valid x) (\<lambda>b. ret_if (\<not> b) MALFORMED (Ok (f x, drop 4 q)))))"
    using assms(2) [of "ngtcp2_get_uint32 q"] assms(3) by (auto simp: rd_defs ret_if_def)
qed

lemma decode_ext_param_inv:
  assumes "2 \<le> length p" and "params_flags_ok exttype flags params" and "9 \<le> t"
  shows "dec_param_ok (\<lambda>(params', p'). params_flags_ok exttype (flags OR param_flag t) params')
    (decode_ext_param t p params)"
  using assms unfolding decode_ext_param_def
  by (auto intro!: dec_param_u simp: params_flags_ok_def bit_or_iff bit_param_flag word_le_nat_alt)

lemma dec_param_if:
  "(c \<Longrightarrow> dec_param_ok P a) \<Longrightarrow> (\<not> c \<Longrightarrow> dec_param_ok P b) \<Longrightarrow> dec_param_ok P (if c then a else b)"
  by simp

lemma params_flags_upd:
  assumes "params_flags_ok exttype flags params"
    and "t = 2 \<Longrightarrow> valid_stream_id_bidi (initial_max_stream_id_bidi params') exttype = Ok True"
    and "t = 8 \<Longrightarrow> valid_stream_id_uni (initial_max_stream_id_uni params') exttype = Ok True"
    and "t = 7 \<Longrightarrow> ack_delay_exponent params' \<le> 20"
    and "length (stateless_reset_token params') = 16"
    and "t \<noteq> 2 \<Longrightarrow> initial_max_stream_id_bidi params' = initial_max_stream_id_bidi params"
    and "t \<noteq> 8 \<Longrightarrow> initial_max_stream_id_uni params' = initial_max_stream_id_uni params"
    and "t \<noteq> 7 \<Longrightarrow> ack_delay_exponent params' = ack_delay_exponent params"
  shows "params_flags_ok exttype (flags OR param_flag t) params'"
proof -
  have "unat t = 2 \<longleftrightarrow> t = 2" "unat t = 8 \<longleftrightarrow> t = 8" "unat t = 7 \<longleftrightarrow> t = 7" by (simp_all add: word_unat_eq_iff)
  then show ?thesis
    using assms unfolding params_flags_ok_def
    by (cases "t = 2"; cases "t = 8"; cases "t = 7") (auto simp: bit_or_iff bit_param_flag)
qed

lemma decode_param_inv:
  assumes "exttype \<le> 2" and "2 \<le> length p" and "params_flags_ok exttype flags params"
  shows "dec_param_ok (\<lambda>(params', p'). params_flags_ok exttype (flags OR param_flag t) params')
    (decode_param exttype t p params)"
proof -
  have token: "length (stateless_reset_token params) = 16" using assms(3) by (simp add: params_flags_ok_def)
  note upd = params_flags_upd [OF assms(3)]
  have rd: "rbind (rd_u16 p 0) k = k (ngtcp2_get_uint16 p)" for k :: "u16 \<Rightarrow> (ngtcp2_transport_params \<times> bytes) result"
    using assms(2) by (simp add: rd_u16_def)
  have tok: "16 \<le> length q \<Longrightarrow> params_flags_ok exttype (flags OR param_flag 6) (params\<lparr>stateless_reset_token := take 16 q\<rparr>)" for q
    by (rule upd) auto
  show ?thesis
    using tok unfolding decode_param_def rd ret_if_def Let_def
    by (intro dec_param_if dec_param_u dec_param_stream_id dec_param_value decode_ext_param_inv assms valid_stream_id_no_fault)
      (auto intro!: upd simp: token rd_defs)
qed

lemma decode_loop_inv:
  assumes "exttype \<le> 2" and "params_flags_ok exttype flags params"
  shows "dec_param_ok (\<lambda>(params', flags', p'). params_flags_ok exttype flags' params')
    (decode_params_loop exttype p params flags)"
  using assms
proof (induction exttype p params flags rule: decode_params_loop.induct)
  case (1 exttype p params flags)
  show ?case
  proof (cases "4 \<le> length p")
    case True
    then have "dec_param_ok (\<lambda>(params', p'). params_flags_ok exttype (flags OR param_flag (ngtcp2_get_uint16 p)) params')
      (decode_param exttype (ngtcp2_get_uint16 p) (drop 2 p) params)"
      using 1 by (intro decode_param_inv) auto
    then show ?thesis
      using 1 True
      by (cases "decode_param exttype (ngtcp2_get_uint16 p) (drop 2 p) params")
        (auto simp: decode_params_loop.simps [of exttype p])
  qed (use 1 in \<open>simp add: decode_params_loop.simps [of exttype p]\<close>)
qed

lemma version_loop_ok: "length p mod 4 = 0 \<Longrightarrow> \<exists>vs. version_loop p = Ok vs \<and> length vs = length p div 4"
proof (induction p rule: version_loop.induct)
  case (2 b bs)
  then obtain n where n: "length (b # bs) = 4 * n" by (metis mod_0_imp_dvd dvd_def)
  then obtain m where "n = Suc m" by (cases n) auto
  with 2 n show ?case by (auto simp: rd_u32_def)
qed simp

lemma decode_version_ok:
  assumes "length (stateless_reset_token params) = 16"
  shows "dec_param_ok (\<lambda>(params', p', vlen). params_flags_ok exttype 0 params' \<and> length p' \<le> length p) (decode_version exttype p params)"
proof -
  have loop: "\<exists>vs. version_loop q = Ok vs \<and> length vs \<le> 63" if "length q = unat l" "unat l mod 4 = 0" for q and l :: u8
    using version_loop_ok [of q] that unat_u8_less [of l] by fastforce
  have "dec_param_ok (\<lambda>(params', p', vlen). params_flags_ok exttype 0 params' \<and> length p' \<le> length p) (decode_version 1 p params)"
  proof (cases "length p < 5 \<or> length p - 5 < unat (p ! 4) \<or> unat (p ! 4) mod 4 \<noteq> 0")
    case True
    then show ?thesis unfolding decode_version_def by (auto simp: rd_defs ret_if_def Let_def)
  next
    case False
    then obtain vs where "version_loop (take (unat (p ! 4)) (drop 5 p)) = Ok vs" "length vs \<le> 63"
      using loop [of "take (unat (p ! 4)) (drop 5 p)" "p ! 4"] by auto
    with False show ?thesis
      using assms unfolding decode_version_def params_flags_ok_def by (auto simp: rd_defs ret_if_def Let_def)
  qed
  moreover have "dec_param_ok (\<lambda>(params', p', vlen). params_flags_ok exttype 0 params' \<and> length p' \<le> length p) (decode_version exttype p params)"
    if "exttype \<noteq> 1"
    using assms that unfolding decode_version_def params_flags_ok_def by (auto simp: rd_defs ret_if_def)
  ultimately show ?thesis by (cases "exttype = 1") auto
qed

lemma dec_param_ok_D:
  assumes "dec_param_ok P r"
  obtains x where "r = Ok x" "P x" | "r = Err MALFORMED"
  using assms by (cases r) auto

text \<open>What the decoder guarantees of the parameters it returns.\<close>

definition params_ok :: "u8 \<Rightarrow> ngtcp2_transport_params \<Rightarrow> bool" where
  "params_ok exttype params \<longleftrightarrow>
     (initial_max_stream_id_bidi params = 0 \<or> valid_stream_id_bidi (initial_max_stream_id_bidi params) exttype = Ok True) \<and>
     (initial_max_stream_id_uni params = 0 \<or> valid_stream_id_uni (initial_max_stream_id_uni params) exttype = Ok True) \<and>
     ack_delay_exponent params \<le> 20 \<and> length (stateless_reset_token params) = 16"

lemma reset_missing_ok: "params_flags_ok exttype flags params \<Longrightarrow> params_ok exttype (reset_missing flags params)"
  by (auto simp: params_flags_ok_def params_ok_def reset_missing_def and_flag_0_iff Let_def)

text \<open>
  C16. Safety of the decoder of transport parameters: for the three kinds of messages and whatever
  bytes the peer sent, no assertion fails and nothing is read or written outside of the message
  and the arrays; the result is NGTCP2\_ERR\_MALFORMED\_TRANSPORT\_PARAM,
  NGTCP2\_ERR\_REQUIRED\_TRANSPORT\_PARAM or parameters in which a stream identifier limit is 0 or
  of the kind that the peer may open, and the exponent of the acknowledgement delay is at most 20.
\<close>

theorem decode_transport_params_safe:
  assumes "exttype \<le> NGTCP2_TRANSPORT_PARAMS_TYPE_NEW_SESSION_TICKET" and "length (stateless_reset_token params) = 16"
  shows "(\<exists>params'. ngtcp2_decode_transport_params params exttype data = Ok params' \<and> params_ok exttype params') \<or>
    ngtcp2_decode_transport_params params exttype data = Err NGTCP2_ERR_MALFORMED_TRANSPORT_PARAM \<or>
    ngtcp2_decode_transport_params params exttype data = Err NGTCP2_ERR_REQUIRED_TRANSPORT_PARAM"
proof (cases rule: dec_param_ok_D [OF decode_version_ok [OF assms(2), of exttype data]])
  case (1 x)
  obtain params1 p vlen where x: "x = (params1, p, vlen)" by (cases x)
  show ?thesis
  proof (cases rule: dec_param_ok_D [OF decode_loop_inv [OF assms(1), of 0 params1 "drop 2 p"]])
    case 1
    then show ?case using \<open>case x of (params', p', vlen) \<Rightarrow> params_flags_ok exttype 0 params' \<and> length p' \<le> length data\<close> x by simp
  next
    case (2 y)
    obtain params2 flags q where "y = (params2, flags, q)" by (cases y)
    with 1 2 x show ?thesis
      using reset_missing_ok [of exttype flags params2]
      by (auto simp: ngtcp2_decode_transport_params_def rd_defs ret_if_def)
  next
    case 3
    with 1 x show ?thesis by (auto simp: ngtcp2_decode_transport_params_def rd_defs ret_if_def)
  qed
qed (simp add: ngtcp2_decode_transport_params_def)

theorem decode_transport_params_safe_witness:
  "(2::u8) \<le> NGTCP2_TRANSPORT_PARAMS_TYPE_NEW_SESSION_TICKET \<and>
   ngtcp2_decode_transport_params
      \<lparr>tp_version = 0, tp_supported_versions = [], initial_max_stream_data = 0, initial_max_data = 0,
        initial_max_stream_id_bidi = 0, initial_max_stream_id_uni = 0, idle_timeout = 0, omit_connection_id = 0,
        max_packet_size = 0, stateless_reset_token = replicate 16 0, ack_delay_exponent = 0,
        server_unicast_ip = 0, server_unicast_ttl = 0, test_metadata = 0, cpu_sensitive = 0, throughput_sensitive = 0,
        rtt_sensitive = 0, client_ip = 0, client_process = 0, time_stamp = 0\<rparr> 2 [0, 5, 0, 7, 0, 1, 21] \<noteq> Fault"
  using decode_transport_params_safe [of 2
      "\<lparr>tp_version = 0, tp_supported_versions = [], initial_max_stream_data = 0, initial_max_data = 0,
        initial_max_stream_id_bidi = 0, initial_max_stream_id_uni = 0, idle_timeout = 0, omit_connection_id = 0,
        max_packet_size = 0, stateless_reset_token = replicate 16 0, ack_delay_exponent = 0,
        server_unicast_ip = 0, server_unicast_ttl = 0, test_metadata = 0, cpu_sensitive = 0, throughput_sensitive = 0,
        rtt_sensitive = 0, client_ip = 0, client_process = 0, time_stamp = 0\<rparr>" "[0, 5, 0, 7, 0, 1, 21]"]
  by auto

section \<open>Round trip\<close>

lemma param_value_put:
  "n < 65536 \<Longrightarrow> length bs = n \<Longrightarrow> param_value n (ngtcp2_put_uint16be (of_nat n) @ bs @ rest) = Ok (bs @ rest)"
  by (simp add: param_value_def rd_u16_def get_put_uint16 unat_of_nat_small)

lemma param_u_put:
  "param_u16 f (ngtcp2_put_uint16be 2 @ ngtcp2_put_uint16be u @ rest) = Ok (f u, rest)"
  "param_u32 g (ngtcp2_put_uint16be 4 @ ngtcp2_put_uint32be v @ rest) = Ok (g v, rest)"
  "param_u64 h (ngtcp2_put_uint16be 8 @ ngtcp2_put_uint64be w @ rest) = Ok (h w, rest)"
  "valid v = Ok True \<Longrightarrow> param_stream_id valid g (ngtcp2_put_uint16be 4 @ ngtcp2_put_uint32be v @ rest) = Ok (g v, rest)"
  using param_value_put [of 2 "ngtcp2_put_uint16be u" rest] param_value_put [of 4 "ngtcp2_put_uint32be v" rest]
    param_value_put [of 8 "ngtcp2_put_uint64be w" rest]
  by (simp_all add: param_u16_def param_u32_def param_u64_def param_stream_id_def rd_defs codec_simps)

lemma loop_param:
  assumes "decode_param exttype t (ngtcp2_put_uint16be (of_nat (length bs)) @ bs @ rest) params = Ok (params', rest)"
  shows "decode_params_loop exttype (put_param t bs @ rest) params flags = decode_params_loop exttype rest params' (flags OR param_flag t)"
  using assms by (subst decode_params_loop.simps) (simp add: put_param_def get_put_uint16)

text \<open>The parameter \<open>t\<close> with a value \<open>bs\<close> that stores to a field as \<open>upd\<close> does.\<close>

definition decodes_to :: "u8 \<Rightarrow> u16 \<Rightarrow> bytes \<Rightarrow> (ngtcp2_transport_params \<Rightarrow> ngtcp2_transport_params) \<Rightarrow> bool" where
  "decodes_to exttype t bs upd \<longleftrightarrow>
     (\<forall>params rest. decode_param exttype t (ngtcp2_put_uint16be (of_nat (length bs)) @ bs @ rest) params = Ok (upd params, rest))"

lemma decodes_to_std:
  "decodes_to e 0 (ngtcp2_put_uint32be v) (initial_max_stream_data_update (\<lambda>_. v))"
  "decodes_to e 1 (ngtcp2_put_uint32be v) (initial_max_data_update (\<lambda>_. v))"
  "decodes_to e 3 (ngtcp2_put_uint16be u) (idle_timeout_update (\<lambda>_. u))"
  "decodes_to e 5 (ngtcp2_put_uint16be u) (max_packet_size_update (\<lambda>_. u))"
  "decodes_to e 4 [] (omit_connection_id_update (\<lambda>_. 1))"
  "valid_stream_id_bidi v e = Ok True \<Longrightarrow> decodes_to e 2 (ngtcp2_put_uint32be v) (initial_max_stream_id_bidi_update (\<lambda>_. v))"
  "valid_stream_id_uni v e = Ok True \<Longrightarrow> decodes_to e 8 (ngtcp2_put_uint32be v) (initial_max_stream_id_uni_update (\<lambda>_. v))"
  "x \<le> 20 \<Longrightarrow> decodes_to e 7 [x] (ack_delay_exponent_update (\<lambda>_. x))"
  by (simp_all add: decodes_to_def decode_param_def param_u_put rd_defs get_put_uint16 ret_if_def)

lemma decodes_to_token:
  "e = 1 \<or> e = 2 \<Longrightarrow> length token = 16 \<Longrightarrow> decodes_to e 6 token (stateless_reset_token_update (\<lambda>_. token))"
  using param_value_put [of 16 token] by (auto simp add: decodes_to_def decode_param_def rd_defs)

lemma decodes_to_ext:
  "decodes_to e 9 (ngtcp2_put_uint32be v) (server_unicast_ip_update (\<lambda>_. v))"
  "decodes_to e 10 (ngtcp2_put_uint32be v) (server_unicast_ttl_update (\<lambda>_. v))"
  "decodes_to e 11 (ngtcp2_put_uint32be v) (test_metadata_update (\<lambda>_. v))"
  "decodes_to e 12 (ngtcp2_put_uint32be v) (cpu_sensitive_update (\<lambda>_. v))"
  "decodes_to e 13 (ngtcp2_put_uint32be v) (throughput_sensitive_update (\<lambda>_. v))"
  "decodes_to e 14 (ngtcp2_put_uint32be v) (rtt_sensitive_update (\<lambda>_. v))"
  "decodes_to e 15 (ngtcp2_put_uint64be w) (client_ip_update (\<lambda>_. w))"
  "decodes_to e 16 (ngtcp2_put_uint64be w) (client_process_update (\<lambda>_. w))"
  "decodes_to e 17 (ngtcp2_put_uint64be w) (time_stamp_update (\<lambda>_. w))"
  by (simp_all add: decodes_to_def decode_param_def decode_ext_param_def param_u_put)

lemma loop_decodes:
  "decodes_to e t bs upd \<Longrightarrow>
    decode_params_loop e (put_param t bs @ rest) params flags = decode_params_loop e rest (upd params) (flags OR param_flag t)"
  by (auto intro!: loop_param simp: decodes_to_def)

text \<open>A conditional parameter, with the update \<open>U\<close> of its field.\<close>

lemma loop_decodes_if:
  assumes "U (\<lambda>x. x) params = params" and "c \<longrightarrow> decodes_to e t bs (U (\<lambda>_. v))"
  shows "decode_params_loop e (put_param_if c t bs @ rest) params flags =
    decode_params_loop e rest (U (\<lambda>x. if c then v else x) params) (flags OR (if c then param_flag t else 0))"
  using assms by (cases c) (auto simp: put_param_if_def loop_decodes)

lemma update_id:
  fixes params :: ngtcp2_transport_params
  shows
  "stateless_reset_token_update (\<lambda>x. x) params = params"
  "initial_max_stream_id_bidi_update (\<lambda>x. x) params = params"
  "initial_max_stream_id_uni_update (\<lambda>x. x) params = params"
  "omit_connection_id_update (\<lambda>x. x) params = params"
  "max_packet_size_update (\<lambda>x. x) params = params"
  "server_unicast_ip_update (\<lambda>x. x) params = params"
  "server_unicast_ttl_update (\<lambda>x. x) params = params"
  "test_metadata_update (\<lambda>x. x) params = params"
  "cpu_sensitive_update (\<lambda>x. x) params = params"
  "throughput_sensitive_update (\<lambda>x. x) params = params"
  "rtt_sensitive_update (\<lambda>x. x) params = params"
  "client_ip_update (\<lambda>x. x) params = params"
  "client_process_update (\<lambda>x. x) params = params"
  "time_stamp_update (\<lambda>x. x) params = params"
  "ack_delay_exponent_update (\<lambda>x. x) params = params"
  by simp_all

text \<open>
  The structure after decoding: what was sent, where fields that the message does not carry keep
  their old contents, and so do the parameters of this fork that are 0.
\<close>

definition params_received :: "u8 \<Rightarrow> ngtcp2_transport_params \<Rightarrow> ngtcp2_transport_params \<Rightarrow> ngtcp2_transport_params" where
  "params_received exttype old params = params\<lparr>
     tp_version := if exttype = 2 then tp_version old else tp_version params,
     tp_supported_versions := if exttype = 1 then tp_supported_versions params else tp_supported_versions old,
     stateless_reset_token := if exttype = 0 then stateless_reset_token old else stateless_reset_token params,
     omit_connection_id := if omit_connection_id params \<noteq> 0 then 1 else 0,
     server_unicast_ip := if server_unicast_ip params \<noteq> 0 then server_unicast_ip params else server_unicast_ip old,
     server_unicast_ttl := if server_unicast_ttl params \<noteq> 0 then server_unicast_ttl params else server_unicast_ttl old,
     test_metadata := if test_metadata params \<noteq> 0 then test_metadata params else test_metadata old,
     cpu_sensitive := if cpu_sensitive params \<noteq> 0 then cpu_sensitive params else cpu_sensitive old,
     throughput_sensitive := if throughput_sensitive params \<noteq> 0 then throughput_sensitive params else throughput_sensitive old,
     rtt_sensitive := if rtt_sensitive params \<noteq> 0 then rtt_sensitive params else rtt_sensitive old,
     client_ip := if client_ip params \<noteq> 0 then client_ip params else client_ip old,
     client_process := if client_process params \<noteq> 0 then client_process params else client_process old,
     time_stamp := if time_stamp params \<noteq> 0 then time_stamp params else time_stamp old\<rparr>"

lemma bit_if_flag: "bit (if c then param_flag t else 0) k \<longleftrightarrow> c \<and> unat t = k \<and> k \<le> 17"
  by (simp add: bit_param_flag)

lemma and_flags_eqI: "(\<And>k. bit w k \<Longrightarrow> bit (flags::u32) k) \<Longrightarrow> flags AND w = w"
  by (rule bit_word_eqI) (auto simp: bit_and_iff)

lemmas loop_steps =
  decodes_to_std(1-3) [THEN loop_decodes]
  loop_decodes_if [where U = max_packet_size_update, OF update_id(5) impI [OF decodes_to_std(4)]] loop_decodes_if [where U = omit_connection_id_update, OF update_id(4) impI [OF decodes_to_std(5)]]
  loop_decodes_if [where U = server_unicast_ip_update, OF update_id(6) impI [OF decodes_to_ext(1)]] loop_decodes_if [where U = server_unicast_ttl_update, OF update_id(7) impI [OF decodes_to_ext(2)]]
  loop_decodes_if [where U = test_metadata_update, OF update_id(8) impI [OF decodes_to_ext(3)]] loop_decodes_if [where U = cpu_sensitive_update, OF update_id(9) impI [OF decodes_to_ext(4)]]
  loop_decodes_if [where U = throughput_sensitive_update, OF update_id(10) impI [OF decodes_to_ext(5)]] loop_decodes_if [where U = rtt_sensitive_update, OF update_id(11) impI [OF decodes_to_ext(6)]]
  loop_decodes_if [where U = client_ip_update, OF update_id(12) impI [OF decodes_to_ext(7)]] loop_decodes_if [where U = client_process_update, OF update_id(13) impI [OF decodes_to_ext(8)]]
  loop_decodes_if [where U = time_stamp_update, OF update_id(14) impI [OF decodes_to_ext(9)]]

text \<open>The fields and the flags after the loop has run over the parameters of \<open>q\<close>.\<close>

definition params_stored :: "u8 \<Rightarrow> ngtcp2_transport_params \<Rightarrow> ngtcp2_transport_params \<Rightarrow> ngtcp2_transport_params" where
  "params_stored e old q =
     ack_delay_exponent_update (\<lambda>x. if ack_delay_exponent q \<noteq> NGTCP2_DEFAULT_ACK_DELAY_EXPONENT then ack_delay_exponent q else x) (
     time_stamp_update (\<lambda>x. if time_stamp q \<noteq> 0 then time_stamp q else x) (
     client_process_update (\<lambda>x. if client_process q \<noteq> 0 then client_process q else x) (
     client_ip_update (\<lambda>x. if client_ip q \<noteq> 0 then client_ip q else x) (
     rtt_sensitive_update (\<lambda>x. if rtt_sensitive q \<noteq> 0 then rtt_sensitive q else x) (
     throughput_sensitive_update (\<lambda>x. if throughput_sensitive q \<noteq> 0 then throughput_sensitive q else x) (
     cpu_sensitive_update (\<lambda>x. if cpu_sensitive q \<noteq> 0 then cpu_sensitive q else x) (
     test_metadata_update (\<lambda>x. if test_metadata q \<noteq> 0 then test_metadata q else x) (
     server_unicast_ttl_update (\<lambda>x. if server_unicast_ttl q \<noteq> 0 then server_unicast_ttl q else x) (
     server_unicast_ip_update (\<lambda>x. if server_unicast_ip q \<noteq> 0 then server_unicast_ip q else x) (
     max_packet_size_update (\<lambda>x. if max_packet_size q \<noteq> NGTCP2_MAX_PKT_SIZE then max_packet_size q else x) (
     omit_connection_id_update (\<lambda>x. if omit_connection_id q \<noteq> 0 then 1 else x) (
     initial_max_stream_id_uni_update (\<lambda>x. if initial_max_stream_id_uni q \<noteq> 0 then initial_max_stream_id_uni q else x) (
     initial_max_stream_id_bidi_update (\<lambda>x. if initial_max_stream_id_bidi q \<noteq> 0 then initial_max_stream_id_bidi q else x) (
     stateless_reset_token_update (\<lambda>x. if e = 1 \<or> e = 2 then stateless_reset_token q else x) (
     idle_timeout_update (\<lambda>_. idle_timeout q) (initial_max_data_update (\<lambda>_. initial_max_data q)
     (initial_max_stream_data_update (\<lambda>_. initial_max_stream_data q) old)))))))))))))))))"

definition flags_stored :: "u8 \<Rightarrow> ngtcp2_transport_params \<Rightarrow> u32" where
  "flags_stored e q = param_flag 0 OR param_flag 1 OR param_flag 3 OR (if e = 1 \<or> e = 2 then param_flag 6 else 0)
     OR (if initial_max_stream_id_bidi q \<noteq> 0 then param_flag 2 else 0)
     OR (if initial_max_stream_id_uni q \<noteq> 0 then param_flag 8 else 0)
     OR (if omit_connection_id q \<noteq> 0 then param_flag 4 else 0)
     OR (if max_packet_size q \<noteq> NGTCP2_MAX_PKT_SIZE then param_flag 5 else 0)
     OR (if server_unicast_ip q \<noteq> 0 then param_flag 9 else 0)
     OR (if server_unicast_ttl q \<noteq> 0 then param_flag 10 else 0)
     OR (if test_metadata q \<noteq> 0 then param_flag 11 else 0)
     OR (if cpu_sensitive q \<noteq> 0 then param_flag 12 else 0)
     OR (if throughput_sensitive q \<noteq> 0 then param_flag 13 else 0)
     OR (if rtt_sensitive q \<noteq> 0 then param_flag 14 else 0)
     OR (if client_ip q \<noteq> 0 then param_flag 15 else 0)
     OR (if client_process q \<noteq> 0 then param_flag 16 else 0)
     OR (if time_stamp q \<noteq> 0 then param_flag 17 else 0)
     OR (if ack_delay_exponent q \<noteq> NGTCP2_DEFAULT_ACK_DELAY_EXPONENT then param_flag 7 else 0)"

lemma loop_put_params:
  assumes "params_ok e q"
  shows "decode_params_loop e (put_params e q) old 0 = Ok (params_stored e old q, flags_stored e q, [])"
proof -
  note ok = assms [unfolded params_ok_def]
  have token: "e = 1 \<or> e = 2 \<longrightarrow> decodes_to e 6 (stateless_reset_token q) (stateless_reset_token_update (\<lambda>_. stateless_reset_token q))"
    using ok by (auto intro: decodes_to_token)
  have bidi: "initial_max_stream_id_bidi q \<noteq> 0 \<longrightarrow> decodes_to e 2 (ngtcp2_put_uint32be (initial_max_stream_id_bidi q))
      (initial_max_stream_id_bidi_update (\<lambda>_. initial_max_stream_id_bidi q))"
    using ok by (auto intro: decodes_to_std)
  have uni: "initial_max_stream_id_uni q \<noteq> 0 \<longrightarrow> decodes_to e 8 (ngtcp2_put_uint32be (initial_max_stream_id_uni q))
      (initial_max_stream_id_uni_update (\<lambda>_. initial_max_stream_id_uni q))"
    using ok by (auto intro: decodes_to_std)
  have delay: "ack_delay_exponent q \<noteq> 3 \<longrightarrow> decodes_to e 7 [ack_delay_exponent q]
      (ack_delay_exponent_update (\<lambda>_. ack_delay_exponent q))"
    using ok by (auto intro: decodes_to_std)
  note steps = loop_decodes_if [where U = stateless_reset_token_update, OF update_id(1) token] loop_decodes_if [where U = initial_max_stream_id_bidi_update, OF update_id(2) bidi] loop_decodes_if [where U = initial_max_stream_id_uni_update, OF update_id(3) uni]
    loop_decodes_if [where U = ack_delay_exponent_update, OF update_id(15) delay]
  have "decode_params_loop e (put_params e q @ []) old 0 = decode_params_loop e [] (params_stored e old q) (flags_stored e q)"
    unfolding put_params_def append_assoc steps loop_steps params_stored_def flags_stored_def or.assoc or.left_neutral
    by (rule refl)
  then show ?thesis by (simp add: decode_params_loop.simps)
qed


lemma reset_missing_eq:
  "reset_missing flags p = p\<lparr>initial_max_stream_id_bidi := if bit flags 2 then initial_max_stream_id_bidi p else 0,
     initial_max_stream_id_uni := if bit flags 8 then initial_max_stream_id_uni p else 0,
     omit_connection_id := if bit flags 4 then omit_connection_id p else 0,
     max_packet_size := if bit flags 5 then max_packet_size p else NGTCP2_MAX_PKT_SIZE,
     ack_delay_exponent := if bit flags 7 then ack_delay_exponent p else NGTCP2_DEFAULT_ACK_DELAY_EXPONENT\<rparr>"
  by (simp add: reset_missing_def and_flag_0_iff Let_def)

lemma flags_stored_bits:
  assumes "e \<le> 2"
  shows "bit (flags_stored e q) 2 \<longleftrightarrow> initial_max_stream_id_bidi q \<noteq> 0" "bit (flags_stored e q) 8 \<longleftrightarrow> initial_max_stream_id_uni q \<noteq> 0"
    "bit (flags_stored e q) 4 \<longleftrightarrow> omit_connection_id q \<noteq> 0" "bit (flags_stored e q) 5 \<longleftrightarrow> max_packet_size q \<noteq> NGTCP2_MAX_PKT_SIZE"
    "bit (flags_stored e q) 7 \<longleftrightarrow> ack_delay_exponent q \<noteq> NGTCP2_DEFAULT_ACK_DELAY_EXPONENT"
    "bit (flags_stored e q) 6 \<longleftrightarrow> e \<noteq> 0"
    "flags_stored e q AND NGTCP2_REQUIRED_TRANSPORT_PARAMS = NGTCP2_REQUIRED_TRANSPORT_PARAMS"
proof -
  have *: "bit (flags_stored e q) 6 \<longleftrightarrow> e = 1 \<or> e = 2"
    by (simp only: flags_stored_def bit_or_iff bit_if_flag bit_param_flag) simp
  show "bit (flags_stored e q) 6 \<longleftrightarrow> e \<noteq> 0"
    unfolding * using exttype_cases [OF assms] by auto
  show "flags_stored e q AND NGTCP2_REQUIRED_TRANSPORT_PARAMS = NGTCP2_REQUIRED_TRANSPORT_PARAMS"
  proof (rule and_flags_eqI)
    fix k
    assume "bit NGTCP2_REQUIRED_TRANSPORT_PARAMS k"
    then have "k = 0 \<or> k = 1 \<or> k = 3" by (auto simp: bit_or_iff bit_param_flag)
    moreover have "bit (flags_stored e q) 0" "bit (flags_stored e q) 1" "bit (flags_stored e q) 3"
      by (simp_all only: flags_stored_def bit_or_iff bit_param_flag) simp_all
    ultimately show "bit (flags_stored e q) k" by blast
  qed
qed (simp_all only: flags_stored_def bit_or_iff bit_if_flag bit_param_flag, simp_all)

text \<open>The structure that the part before the parameters leaves.\<close>

definition version_stored :: "u8 \<Rightarrow> ngtcp2_transport_params \<Rightarrow> ngtcp2_transport_params \<Rightarrow> ngtcp2_transport_params" where
  "version_stored e old q =
     (if e = 0 then old\<lparr>tp_version := tp_version q\<rparr>
      else if e = 1 then old\<lparr>tp_version := tp_version q, tp_supported_versions := tp_supported_versions q\<rparr>
      else old)"

lemma reset_stored:
  assumes "e \<le> 2"
  shows "reset_missing (flags_stored e q) (params_stored e (version_stored e old q) q) = params_received e old q"
proof -
  note fields = reset_missing_eq flags_stored_bits params_stored_def params_received_def version_stored_def
  have "e = 0 \<or> e = 1 \<or> e = 2" by (rule exttype_cases [OF assms])
  then show ?thesis
    by (intro ngtcp2_transport_params.equality) (elim disjE; simp add: fields)+
qed

lemma length_put_param [simp]: "length (put_param t bs) = 4 + length bs"
  "length (put_param_if c t bs) = (if c then 4 + length bs else 0)"
  by (simp_all add: put_param_def put_param_if_def)

lemma length_put_param_le: "length (put_param t bs) \<le> 4 + length bs" "length (put_param_if c t bs) \<le> 4 + length bs"
  by simp_all

lemma length_append_le: "length xs \<le> m \<Longrightarrow> length ys \<le> n \<Longrightarrow> length (xs @ ys) \<le> m + n"
  by simp

lemma put_params_length:
  assumes "e \<le> 2" and "length (stateless_reset_token q) = 16"
  shows "length (put_params e q) + 2 + fst (encode_vlen e q) = encode_params_len e q"
    and "length (put_params e q) < 65536"
proof -
  have e: "e = 0 \<or> e = 1 \<or> e = 2" by (rule exttype_cases [OF assms(1)])
  then show "length (put_params e q) + 2 + fst (encode_vlen e q) = encode_params_len e q"
    by (elim disjE) (simp_all add: put_params_def encode_params_len_def encode_vlen_def assms cong: if_cong split del: if_split)
  show "length (put_params e q) < 65536"
    unfolding put_params_def by (rule le_less_trans, (rule length_append_le length_put_param_le)+, simp add: assms)
qed

lemma put_version_codec:
  assumes "e \<le> 2" and "length (tp_supported_versions q) \<le> 63"
  shows "length (put_version e q) = fst (encode_vlen e q)"
    and "decode_version e (put_version e q @ rest) old = Ok (version_stored e old q, rest, fst (encode_vlen e q))"
proof -
  have n: "unat (of_nat (length (tp_supported_versions q) * 4) :: u8) = length (tp_supported_versions q) * 4"
    by (rule unat_of_nat_small) (use assms(2) in simp)
  note simps = put_version_def encode_vlen_def length_put_versions version_stored_def
  show "length (put_version e q) = fst (encode_vlen e q)"
    using exttype_cases [OF assms(1)] by (elim disjE) (simp_all add: simps)
  show "decode_version e (put_version e q @ rest) old = Ok (version_stored e old q, rest, fst (encode_vlen e q))"
    using exttype_cases [OF assms(1)] n version_loop_put [of "tp_supported_versions q"] assms(2)
    by (elim disjE) (simp_all add: simps decode_version_def rd_defs get_put_uint32 ret_if_def Let_def nth_append drop_append mult.commute)
qed

lemma tp_example_ok:
  "params_ok 1 \<lparr>tp_version = 0xff000008, tp_supported_versions = [1, 2], initial_max_stream_data = 65536, initial_max_data = 131072,
     initial_max_stream_id_bidi = 400, initial_max_stream_id_uni = 2, idle_timeout = 30, omit_connection_id = 0,
     max_packet_size = NGTCP2_MAX_PKT_SIZE, stateless_reset_token = replicate 16 7, ack_delay_exponent = 4,
     server_unicast_ip = 0x0a000001, server_unicast_ttl = 60, test_metadata = 0, cpu_sensitive = 0, throughput_sensitive = 1,
     rtt_sensitive = 0, client_ip = 0, client_process = 0, time_stamp = 12345\<rparr>"
  by (simp add: params_ok_def valid_stream_id_bidi_def valid_stream_id_uni_def)

text \<open>
  C17. Transport parameters survive a round trip: parameters that are valid for the message are
  encoded exactly when the buffer has room for them, otherwise NGTCP2\_ERR\_NOBUF is returned, and
  decoding the encoding into any structure gives the parameters sent. The structure keeps its
  contents for what the message does not carry, in particular for each parameter of this fork
  that is 0.
\<close>

theorem transport_params_roundtrip:
  assumes "exttype \<le> NGTCP2_TRANSPORT_PARAMS_TYPE_NEW_SESSION_TICKET" and "params_ok exttype params"
    and "length (tp_supported_versions params) \<le> 63"
  shows "\<exists>bs. (\<forall>destlen. ngtcp2_encode_transport_params destlen exttype params =
        (if length bs \<le> destlen then Ok bs else Err NGTCP2_ERR_NOBUF)) \<and>
    ngtcp2_decode_transport_params old exttype bs = Ok (params_received exttype old params)"
proof -
  let ?vlen = "fst (encode_vlen exttype params)" and ?len = "encode_params_len exttype params"
  let ?bs = "put_version exttype params @ ngtcp2_put_uint16be (of_nat (?len - ?vlen - 2)) @ put_params exttype params"
  have token: "length (stateless_reset_token params) = 16" using assms(2) by (simp add: params_ok_def)
  note ver = put_version_codec [OF assms(1,3)]
  note len = put_params_length [OF assms(1) token]
  have field: "?len - ?vlen - 2 = length (put_params exttype params)" using len(1) by simp
  have bs: "length ?bs = ?len" using ver(1) len(1) by simp
  have flags: "\<not> ((exttype = 1 \<or> exttype = 2) \<and> flags_stored exttype params AND param_flag 6 = 0)"
    using flags_stored_bits(6) [OF assms(1), of params] by (auto simp: and_flag_0_iff)
  have "ngtcp2_decode_transport_params old exttype ?bs = Ok (params_received exttype old params)"
    unfolding field ngtcp2_decode_transport_params_def ver(2)
    by (simp add: rd_u16_def get_put_uint16 unat_of_nat_small len(2) ret_if_False [OF flags] ver(1)
        flags_stored_bits(7) [OF assms(1)] loop_put_params [OF assms(2)] reset_stored [OF assms(1)])
  moreover have "ngtcp2_encode_transport_params destlen exttype params =
      (if length ?bs \<le> destlen then Ok ?bs else Err NGTCP2_ERR_NOBUF)" for destlen
    using assms(3) unfolding bs by (simp add: ngtcp2_encode_transport_params_def Let_def ret_if_def bs [simplified])
  ultimately show ?thesis by blast
qed

theorem transport_params_roundtrip_witness:
  "\<exists>bs. ngtcp2_decode_transport_params
      \<lparr>tp_version = 0, tp_supported_versions = [], initial_max_stream_data = 0, initial_max_data = 0,
        initial_max_stream_id_bidi = 0, initial_max_stream_id_uni = 0, idle_timeout = 0, omit_connection_id = 0,
        max_packet_size = 0, stateless_reset_token = replicate 16 0, ack_delay_exponent = 0,
        server_unicast_ip = 0, server_unicast_ttl = 0, test_metadata = 0, cpu_sensitive = 0, throughput_sensitive = 0,
        rtt_sensitive = 0, client_ip = 99, client_process = 0, time_stamp = 0\<rparr> 1 bs = Ok
      \<lparr>tp_version = 0xff000008, tp_supported_versions = [1, 2], initial_max_stream_data = 65536, initial_max_data = 131072,
        initial_max_stream_id_bidi = 400, initial_max_stream_id_uni = 2, idle_timeout = 30, omit_connection_id = 0,
        max_packet_size = NGTCP2_MAX_PKT_SIZE, stateless_reset_token = replicate 16 7, ack_delay_exponent = 4,
        server_unicast_ip = 0x0a000001, server_unicast_ttl = 60, test_metadata = 0, cpu_sensitive = 0, throughput_sensitive = 1,
        rtt_sensitive = 0, client_ip = 99, client_process = 0, time_stamp = 12345\<rparr>"
  using transport_params_roundtrip [OF _ tp_example_ok, of
      "\<lparr>tp_version = 0, tp_supported_versions = [], initial_max_stream_data = 0, initial_max_data = 0,
        initial_max_stream_id_bidi = 0, initial_max_stream_id_uni = 0, idle_timeout = 0, omit_connection_id = 0,
        max_packet_size = 0, stateless_reset_token = replicate 16 0, ack_delay_exponent = 0,
        server_unicast_ip = 0, server_unicast_ttl = 0, test_metadata = 0, cpu_sensitive = 0, throughput_sensitive = 0,
        rtt_sensitive = 0, client_ip = 99, client_process = 0, time_stamp = 0\<rparr>"]
  by (auto simp: params_received_def)

section \<open>Nonces\<close>

lemma put_uint64be_inj: "ngtcp2_put_uint64be a = ngtcp2_put_uint64be b \<longleftrightarrow> a = b"
  using get_put_uint64 by metis

lemma xor_left_inj: "(y::u8) XOR x = y XOR z \<longleftrightarrow> x = z"
proof
  assume "y XOR x = y XOR z"
  then have "y XOR (y XOR x) = y XOR (y XOR z)" by simp
  then show "x = z" by (simp add: xor.assoc [symmetric])
qed simp

lemma map2_xor_inj:
  "length xs = length ys \<Longrightarrow> length zs = length ys \<Longrightarrow> map2 (\<lambda>a b. a XOR b) (ys::bytes) xs = map2 (\<lambda>a b. a XOR b) ys zs \<longleftrightarrow> xs = zs"
proof (induction xs ys arbitrary: zs rule: list_induct2)
  case (Cons x xs y ys)
  then show ?case by (cases zs) (auto simp: xor_left_inj)
qed simp

text \<open>
  C33. The nonces of the packets protected with one key are different: with an initialisation vector
  of at least 8 bytes the nonce has its length and is determined by the packet number, one-to-one.
\<close>

theorem nonce_injective:
  assumes "8 \<le> length iv"
  shows "\<exists>na nb. ngtcp2_crypto_create_nonce iv a = Ok na \<and> ngtcp2_crypto_create_nonce iv b = Ok nb \<and>
    length na = length iv \<and> length nb = length iv \<and> (na = nb \<longleftrightarrow> a = b)"
proof -
  have "length (drop (length iv - 8) iv) = 8" using assms by simp
  then have "map2 (\<lambda>a b. a XOR b) (drop (length iv - 8) iv) (ngtcp2_put_uint64be a) =
      map2 (\<lambda>a b. a XOR b) (drop (length iv - 8) iv) (ngtcp2_put_uint64be b) \<longleftrightarrow> ngtcp2_put_uint64be a = ngtcp2_put_uint64be b"
    by (intro map2_xor_inj) simp_all
  then show ?thesis
    using assms by (auto simp: ngtcp2_crypto_create_nonce_def put_uint64be_inj ngtcp2_put_uint64be_def [symmetric])
qed

theorem nonce_injective_witness:
  "\<exists>na nb. ngtcp2_crypto_create_nonce (replicate 12 (0x55::u8)) 0 = Ok na \<and>
     ngtcp2_crypto_create_nonce (replicate 12 0x55) 1 = Ok nb \<and> na \<noteq> nb"
  using nonce_injective [of "replicate 12 0x55" 0 1] by auto

end
