(* ===== verification/Ppe.thy ===== *)
theory Ppe
  imports Strm Frame_Codec Transport_Params
begin

text \<open>
  \<^verbatim>\<open>lib/ngtcp2_ppe.c\<close>: the encoder of protected packets writes the header and the frames to a buffer,
  leaving room for the authentication tag, and encrypts the payload in place. The encryption is the
  function of the application that the crypto context holds: from the length of the
  destination, the plaintext, the key, the nonce and the associated data it makes the bytes it writes
  to the destination, or fails.
\<close>

section \<open>Operations\<close>

type_synonym ngtcp2_encrypt = "nat \<Rightarrow> bytes \<Rightarrow> bytes \<Rightarrow> bytes \<Rightarrow> bytes \<Rightarrow> bytes option"

record ngtcp2_crypto_ctx =
  ctx_ckm :: ngtcp2_crypto_km
  ctx_aead_overhead :: nat
  ctx_encrypt :: ngtcp2_encrypt

record ngtcp2_ppe =
  ppe_buf :: ngtcp2_buf
  ppe_ctx :: ngtcp2_crypto_ctx
  ppe_hdlen :: nat
  ppe_pkt_num :: u64
  ppe_nonce :: bytes

definition ngtcp2_ppe_init :: "bytes \<Rightarrow> ngtcp2_crypto_ctx \<Rightarrow> bytes \<Rightarrow> ngtcp2_ppe" where
  "ngtcp2_ppe_init out cctx nonce =
     \<lparr>ppe_buf = ngtcp2_buf_init out, ppe_ctx = cctx, ppe_hdlen = 0, ppe_pkt_num = 0, ppe_nonce = nonce\<rparr>"

definition ngtcp2_ppe_encode_hd :: "ngtcp2_ppe \<Rightarrow> ngtcp2_pkt_hd \<Rightarrow> ngtcp2_ppe result" where
  "ngtcp2_ppe_encode_hd ppe hdr =
     (let buf = ppe_buf ppe; overhead = ctx_aead_overhead (ppe_ctx ppe) in
      ret_if (ngtcp2_buf_left buf < overhead) NGTCP2_ERR_NOBUF (
      rbind (if hd_flags hdr AND NGTCP2_PKT_FLAG_LONG_FORM \<noteq> 0
             then ngtcp2_pkt_encode_hd_long (ngtcp2_buf_left buf - overhead) hdr
             else ngtcp2_pkt_encode_hd_short (ngtcp2_buf_left buf - overhead) hdr) (\<lambda>bs.
      rbind (buf_append buf bs) (\<lambda>buf.
      Ok (ppe\<lparr>ppe_buf := buf, ppe_hdlen := length bs, ppe_pkt_num := hd_pkt_num hdr\<rparr>)))))"

text \<open>The encoder of a frame also sets fields of the frame, which is returned.\<close>

definition ngtcp2_ppe_encode_frame :: "ngtcp2_ppe \<Rightarrow> ngtcp2_frame \<Rightarrow> (ngtcp2_ppe \<times> ngtcp2_frame) result" where
  "ngtcp2_ppe_encode_frame ppe fr =
     (let buf = ppe_buf ppe; overhead = ctx_aead_overhead (ppe_ctx ppe) in
      ret_if (ngtcp2_buf_left buf < overhead) NGTCP2_ERR_NOBUF (
      rbind (ngtcp2_pkt_encode_frame (ngtcp2_buf_left buf - overhead) fr) (\<lambda>(bs, fr).
      rbind (buf_append buf bs) (\<lambda>buf.
      Ok (ppe\<lparr>ppe_buf := buf\<rparr>, fr)))))"

text \<open>The nonce is written to an array of 32 bytes; the ciphertext must fit the destination.\<close>

definition ngtcp2_ppe_final :: "ngtcp2_ppe \<Rightarrow> (ngtcp2_ppe \<times> bytes) result" where
  "ngtcp2_ppe_final ppe =
     (let buf = ppe_buf ppe; ckm = ctx_ckm (ppe_ctx ppe); hdlen = ppe_hdlen ppe;
          payloadlen = ngtcp2_buf_len buf - hdlen; destlen = length (buf_mem buf) - hdlen
      in c_assert (length (km_iv ckm) \<le> 32) (
      rbind (ngtcp2_crypto_create_nonce (km_iv ckm) (ppe_pkt_num ppe)) (\<lambda>nonce.
      case ctx_encrypt (ppe_ctx ppe) destlen (take payloadlen (drop hdlen (buf_mem buf))) (km_key ckm) nonce (take hdlen (buf_mem buf)) of
        None \<Rightarrow> Err NGTCP2_ERR_CALLBACK_FAILURE
      | Some ct \<Rightarrow>
          rbind (buf_store buf hdlen ct) (\<lambda>buf.
          Ok (ppe\<lparr>ppe_buf := buf, ppe_nonce := nonce\<rparr>, take (ngtcp2_buf_len buf) (buf_mem buf))))))"

definition ngtcp2_ppe_left :: "ngtcp2_ppe \<Rightarrow> nat" where
  "ngtcp2_ppe_left ppe =
     (if ngtcp2_buf_left (ppe_buf ppe) < ctx_aead_overhead (ppe_ctx ppe) then 0
      else ngtcp2_buf_left (ppe_buf ppe) - ctx_aead_overhead (ppe_ctx ppe))"

definition ngtcp2_ppe_padding :: "ngtcp2_ppe \<Rightarrow> (ngtcp2_ppe \<times> nat) result" where
  "ngtcp2_ppe_padding ppe =
     (let buf = ppe_buf ppe; overhead = ctx_aead_overhead (ppe_ctx ppe) in
      c_assert (ngtcp2_buf_left buf \<ge> overhead) (
      let len = ngtcp2_buf_left buf - overhead in
      rbind (buf_append buf (replicate len 0)) (\<lambda>buf. Ok (ppe\<lparr>ppe_buf := buf\<rparr>, len))))"

section \<open>The bytes written so far\<close>

definition is_padding :: "ngtcp2_frame \<Rightarrow> bool" where
  "is_padding fr \<longleftrightarrow> (\<exists>len. fr = FR_PADDING len)"

text \<open>A frame other than PADDING has one encoding, whatever follows it.\<close>

lemma codec_any_rest:
  assumes "frame_ok fr" and "\<not> is_padding fr"
  shows "\<exists>bs. bs \<noteq> [] \<and>
    (\<forall>outlen. ngtcp2_pkt_encode_frame outlen fr = (if outlen < length bs then Err NGTCP2_ERR_NOBUF else Ok (bs, sent fr))) \<and>
    (\<forall>rest. ngtcp2_pkt_decode_frame (bs @ rest) = Ok (Some (sent fr), length bs))"
proof -
  have codec: "codec_ok rest fr" for rest using assms by (intro codec_frame) (auto simp: is_padding_def)
  obtain bs where bs: "bs \<noteq> []"
      "\<forall>outlen. ngtcp2_pkt_encode_frame outlen fr = (if outlen < length bs then Err NGTCP2_ERR_NOBUF else Ok (bs, sent fr))"
    using codec [of "[]"] by (auto simp: codec_ok_def)
  have "ngtcp2_pkt_decode_frame (bs @ rest) = Ok (Some (sent fr), length bs)" for rest
  proof -
    obtain bs' where bs': "\<forall>outlen. ngtcp2_pkt_encode_frame outlen fr = (if outlen < length bs' then Err NGTCP2_ERR_NOBUF else Ok (bs', sent fr))"
        "ngtcp2_pkt_decode_frame (bs' @ rest) = Ok (Some (sent fr), length bs')"
      using codec [of rest] by (auto simp: codec_ok_def)
    have "ngtcp2_pkt_encode_frame (length bs + length bs') fr = Ok (bs, sent fr)" using bs(2) by simp
    moreover have "ngtcp2_pkt_encode_frame (length bs + length bs') fr = Ok (bs', sent fr)" using bs'(1) by simp
    ultimately show ?thesis using bs'(2) by simp
  qed
  with bs show ?thesis by blast
qed

text \<open>Encoding several frames, and decoding them one after the other as the receiver does.\<close>

fun ppe_encode_frames :: "ngtcp2_ppe \<Rightarrow> ngtcp2_frame list \<Rightarrow> ngtcp2_ppe result" where
  "ppe_encode_frames ppe [] = Ok ppe"
| "ppe_encode_frames ppe (fr # frs) = rbind (ngtcp2_ppe_encode_frame ppe fr) (\<lambda>(ppe, _). ppe_encode_frames ppe frs)"

fun decode_frames :: "nat \<Rightarrow> bytes \<Rightarrow> ngtcp2_frame list option" where
  "decode_frames 0 payload = (if payload = [] then Some [] else None)"
| "decode_frames (Suc n) payload =
     (if payload = [] then Some []
      else case ngtcp2_pkt_decode_frame payload of
          Ok (Some fr, nread) \<Rightarrow> map_option ((#) fr) (decode_frames n (drop nread payload))
        | _ \<Rightarrow> None)"

definition ppe_holds :: "ngtcp2_ppe \<Rightarrow> nat \<Rightarrow> bytes \<Rightarrow> bytes \<Rightarrow> bool" where
  "ppe_holds ppe outlen hdb pl \<longleftrightarrow> length (buf_mem (ppe_buf ppe)) = outlen \<and> buf_pos (ppe_buf ppe) = 0 \<and>
     buf_last (ppe_buf ppe) = length (hdb @ pl) \<and> length (hdb @ pl) + ctx_aead_overhead (ppe_ctx ppe) \<le> outlen \<and>
     take (length (hdb @ pl)) (buf_mem (ppe_buf ppe)) = hdb @ pl \<and> ppe_hdlen ppe = length hdb"

lemma buf_append_ok:
  assumes "buf_last buf + length bs \<le> length (buf_mem buf)" and "take (buf_last buf) (buf_mem buf) = xs"
  shows "\<exists>buf'. buf_append buf bs = Ok buf' \<and> buf_pos buf' = buf_pos buf \<and> buf_last buf' = buf_last buf + length bs \<and>
    length (buf_mem buf') = length (buf_mem buf) \<and> take (buf_last buf + length bs) (buf_mem buf') = xs @ bs"
  using assms by (auto simp: buf_append_def buf_store_def)

lemma ppe_encode_frame_ok:
  assumes "ppe_holds ppe outlen hdb pl" and "frame_ok fr" and "\<not> is_padding fr"
  shows "\<exists>bs. (\<forall>rest. ngtcp2_pkt_decode_frame (bs @ rest) = Ok (Some (sent fr), length bs)) \<and> bs \<noteq> [] \<and>
    (if length bs \<le> ngtcp2_ppe_left ppe
     then \<exists>ppe'. ngtcp2_ppe_encode_frame ppe fr = Ok (ppe', sent fr) \<and> ppe_holds ppe' outlen hdb (pl @ bs) \<and>
       ppe_ctx ppe' = ppe_ctx ppe \<and> ppe_pkt_num ppe' = ppe_pkt_num ppe
     else ngtcp2_ppe_encode_frame ppe fr = Err NGTCP2_ERR_NOBUF)"
proof -
  obtain bs where bs: "bs \<noteq> []"
      "\<forall>outlen. ngtcp2_pkt_encode_frame outlen fr = (if outlen < length bs then Err NGTCP2_ERR_NOBUF else Ok (bs, sent fr))"
      "\<forall>rest. ngtcp2_pkt_decode_frame (bs @ rest) = Ok (Some (sent fr), length bs)"
    using codec_any_rest [OF assms(2,3)] by blast
  let ?left = "ngtcp2_buf_left (ppe_buf ppe)" and ?oh = "ctx_aead_overhead (ppe_ctx ppe)"
  have left: "?left = outlen - length (hdb @ pl)" "?oh \<le> ?left" "ngtcp2_ppe_left ppe = ?left - ?oh"
    using assms(1) by (auto simp: ppe_holds_def ngtcp2_buf_left_def ngtcp2_ppe_left_def)
  show ?thesis
  proof (cases "length bs \<le> ?left - ?oh")
    case True
    then have "buf_last (ppe_buf ppe) + length bs \<le> length (buf_mem (ppe_buf ppe))"
      "take (buf_last (ppe_buf ppe)) (buf_mem (ppe_buf ppe)) = hdb @ pl" "length (hdb @ pl @ bs) + ?oh \<le> outlen"
      using assms(1) left by (auto simp: ppe_holds_def)
    then obtain buf where "buf_append (ppe_buf ppe) bs = Ok buf" "buf_pos buf = buf_pos (ppe_buf ppe)"
      "buf_last buf = buf_last (ppe_buf ppe) + length bs" "length (buf_mem buf) = length (buf_mem (ppe_buf ppe))"
      "take (buf_last (ppe_buf ppe) + length bs) (buf_mem buf) = hdb @ pl @ bs" "length (hdb @ pl @ bs) + ?oh \<le> outlen"
      using buf_append_ok [of "ppe_buf ppe" bs "hdb @ pl"] by auto
    with True bs left assms(1) show ?thesis
      by (intro exI [of _ bs]) (simp add: ngtcp2_ppe_encode_frame_def ppe_holds_def add.assoc)
  next
    case False
    with bs left show ?thesis by (intro exI [of _ bs]) (simp add: ngtcp2_ppe_encode_frame_def)
  qed
qed

lemma decode_frames_more: "decode_frames n p = Some frs \<Longrightarrow> n \<le> m \<Longrightarrow> decode_frames m p = Some frs"
proof (induction n p arbitrary: frs m rule: decode_frames.induct)
  case (1 p)
  then show ?case by (cases m) (auto split: if_splits)
next
  case (2 n p)
  obtain k where m: "m = Suc k" "n \<le> k" using 2(3) by (cases m) auto
  show ?case
  proof (cases "p = []")
    case False
    with 2(2) obtain fr nread frs' where dec: "ngtcp2_pkt_decode_frame p = Ok (Some fr, nread)"
        "decode_frames n (drop nread p) = Some frs'" "frs = fr # frs'"
      by (auto split: result.splits option.splits)
    then have "decode_frames k (drop nread p) = Some frs'" using 2(1) [OF False dec(1) refl refl dec(2) m(2)] by simp
    with False dec m show ?thesis by simp
  qed (use 2 m in simp)
qed

lemma ppe_encode_frames_ok:
  "ppe_holds ppe outlen hdb pl \<Longrightarrow> \<forall>fr \<in> set frs. frame_ok fr \<and> \<not> is_padding fr \<Longrightarrow>
    ppe_encode_frames ppe frs = Err NGTCP2_ERR_NOBUF \<or>
    (\<exists>ppe' bs. ppe_encode_frames ppe frs = Ok ppe' \<and> ppe_holds ppe' outlen hdb (pl @ bs) \<and>
      ppe_ctx ppe' = ppe_ctx ppe \<and> ppe_pkt_num ppe' = ppe_pkt_num ppe \<and> decode_frames (length bs) bs = Some (map sent frs))"
proof (induction frs arbitrary: ppe pl)
  case (Cons fr frs)
  obtain b where b: "\<forall>rest. ngtcp2_pkt_decode_frame (b @ rest) = Ok (Some (sent fr), length b)" "b \<noteq> []"
    "if length b \<le> ngtcp2_ppe_left ppe
     then \<exists>ppe'. ngtcp2_ppe_encode_frame ppe fr = Ok (ppe', sent fr) \<and> ppe_holds ppe' outlen hdb (pl @ b) \<and>
       ppe_ctx ppe' = ppe_ctx ppe \<and> ppe_pkt_num ppe' = ppe_pkt_num ppe
     else ngtcp2_ppe_encode_frame ppe fr = Err NGTCP2_ERR_NOBUF"
    using ppe_encode_frame_ok [OF Cons.prems(1), of fr] Cons.prems(2) by auto
  show ?case
  proof (cases "length b \<le> ngtcp2_ppe_left ppe")
    case True
    with b(3) obtain ppe1 where p1: "ngtcp2_ppe_encode_frame ppe fr = Ok (ppe1, sent fr)" "ppe_holds ppe1 outlen hdb (pl @ b)"
      "ppe_ctx ppe1 = ppe_ctx ppe" "ppe_pkt_num ppe1 = ppe_pkt_num ppe" by auto
    from Cons.IH [OF p1(2)] Cons.prems(2) consider "ppe_encode_frames ppe1 frs = Err NGTCP2_ERR_NOBUF"
      | ppe2 bs where "ppe_encode_frames ppe1 frs = Ok ppe2" "ppe_holds ppe2 outlen hdb ((pl @ b) @ bs)"
        "ppe_ctx ppe2 = ppe_ctx ppe1" "ppe_pkt_num ppe2 = ppe_pkt_num ppe1" "decode_frames (length bs) bs = Some (map sent frs)"
      by auto
    then show ?thesis
    proof cases
      case (2 ppe2 bs)
      obtain m where m: "length (b @ bs) = Suc m" "length bs \<le> m" using b(2) by (cases b) auto
      have "decode_frames (length (b @ bs)) (b @ bs) = Some (map sent (fr # frs))"
        unfolding m(1) using b(1,2) decode_frames_more [OF 2(5) m(2)] by simp
      with 2 p1 show ?thesis by (intro disjI2 exI [of _ ppe2] exI [of _ "b @ bs"]) simp
    qed (use p1 in simp)
  qed (use b(3) in simp)
next
  case Nil
  then show ?case by (intro disjI2 exI [of _ ppe] exI [of _ "[]"]) simp
qed

text \<open>The contract of the application's encryption, with its decryption \<open>dec\<close>.\<close>

definition aead_ok :: "ngtcp2_crypto_ctx \<Rightarrow> (bytes \<Rightarrow> bytes \<Rightarrow> bytes \<Rightarrow> bytes \<Rightarrow> bytes option) \<Rightarrow> bool" where
  "aead_ok ctx dec \<longleftrightarrow> (\<forall>destlen pt key nonce ad. length pt + ctx_aead_overhead ctx \<le> destlen \<longrightarrow>
     (\<exists>ct. ctx_encrypt ctx destlen pt key nonce ad = Some ct \<and> length ct = length pt + ctx_aead_overhead ctx \<and>
       dec ct key nonce ad = Some pt))"

lemma ppe_final_ok:
  assumes holds: "ppe_holds ppe outlen hdb pl" and aead: "aead_ok (ppe_ctx ppe) dec"
    and nonce: "ngtcp2_crypto_create_nonce (km_iv (ctx_ckm (ppe_ctx ppe))) (ppe_pkt_num ppe) = Ok nonce"
    and iv: "length (km_iv (ctx_ckm (ppe_ctx ppe))) \<le> 32"
  shows "\<exists>ppe' ct. ngtcp2_ppe_final ppe = Ok (ppe', hdb @ ct) \<and> length ct = length pl + ctx_aead_overhead (ppe_ctx ppe) \<and>
    length (hdb @ ct) \<le> outlen \<and> dec ct (km_key (ctx_ckm (ppe_ctx ppe))) nonce hdb = Some pl"
proof -
  let ?mem = "buf_mem (ppe_buf ppe)" and ?ctx = "ppe_ctx ppe"
  have h: "length ?mem = outlen" "buf_pos (ppe_buf ppe) = 0" "buf_last (ppe_buf ppe) = length (hdb @ pl)"
    "length (hdb @ pl) + ctx_aead_overhead ?ctx \<le> outlen" "take (length (hdb @ pl)) ?mem = hdb @ pl" "ppe_hdlen ppe = length hdb"
    using holds by (simp_all add: ppe_holds_def)
  have "take (length hdb) ?mem = take (length hdb) (take (length (hdb @ pl)) ?mem)" by (simp add: min_def)
  then have hdb: "take (length hdb) ?mem = hdb" by (simp only: h(5)) simp
  have "take (length pl) (drop (length hdb) ?mem) = drop (length hdb) (take (length (hdb @ pl)) ?mem)" by (simp add: drop_take)
  then have pl: "take (length pl) (drop (length hdb) ?mem) = pl" by (simp only: h(5)) simp
  have "length pl + ctx_aead_overhead ?ctx \<le> outlen - length hdb" using h(4) by simp
  with aead obtain ct where ct: "ctx_encrypt ?ctx (outlen - length hdb) pl (km_key (ctx_ckm ?ctx)) nonce hdb = Some ct"
      "length ct = length pl + ctx_aead_overhead ?ctx" "dec ct (km_key (ctx_ckm ?ctx)) nonce hdb = Some pl"
    unfolding aead_ok_def by blast
  have "buf_store (ppe_buf ppe) (length hdb) ct =
      Ok ((ppe_buf ppe)\<lparr>buf_mem := hdb @ ct @ drop (length hdb + length ct) ?mem, buf_last := length hdb + length ct\<rparr>)"
    using h ct(2) hdb by (simp add: buf_store_def)
  with h hdb pl ct nonce iv show ?thesis by (simp add: ngtcp2_ppe_final_def ngtcp2_buf_len_def Let_def)
qed

section \<open>Property\<close>

text \<open>What a receiver sees of the header.\<close>

definition hd_sent :: "ngtcp2_pkt_hd \<Rightarrow> ngtcp2_pkt_hd" where
  "hd_sent h =
     (if hd_flags h AND NGTCP2_PKT_FLAG_LONG_FORM \<noteq> 0
      then h\<lparr>hd_flags := NGTCP2_PKT_FLAG_LONG_FORM, hd_pkt_num := take_bit 32 (hd_pkt_num h)\<rparr>
      else \<lparr>hd_flags = hd_flags h AND (NGTCP2_PKT_FLAG_OMIT_CONN_ID OR NGTCP2_PKT_FLAG_KEY_PHASE), hd_type = hd_type h,
            hd_conn_id = (if hd_flags h AND NGTCP2_PKT_FLAG_OMIT_CONN_ID = 0 then hd_conn_id h else 0),
            hd_pkt_num = take_bit (hd_num_bits (hd_type h)) (hd_pkt_num h), hd_version = 0\<rparr>)"

definition hd_encodable :: "ngtcp2_pkt_hd \<Rightarrow> bool" where
  "hd_encodable h \<longleftrightarrow>
     (if hd_flags h AND NGTCP2_PKT_FLAG_LONG_FORM \<noteq> 0
      then hd_type h \<in> {NGTCP2_PKT_INITIAL, NGTCP2_PKT_RETRY, NGTCP2_PKT_HANDSHAKE, NGTCP2_PKT_0RTT_PROTECTED}
      else hd_type h \<in> {NGTCP2_PKT_01, NGTCP2_PKT_02, NGTCP2_PKT_03})"

lemma ppe_encode_hd_ok:
  assumes "hd_encodable h" and "17 + ctx_aead_overhead ctx \<le> length out"
  shows "\<exists>ppe hdb. ngtcp2_ppe_encode_hd (ngtcp2_ppe_init out ctx nonce) h = Ok ppe \<and> ppe_holds ppe (length out) hdb [] \<and>
    ppe_ctx ppe = ctx \<and> ppe_pkt_num ppe = hd_pkt_num h \<and>
    (\<forall>rest. ngtcp2_pkt_decode_hd (hdb @ rest) = Ok (hd_sent h, length hdb)) \<and> length hdb \<le> 17"
proof -
  let ?left = "length out - ctx_aead_overhead ctx"
  let ?enc = "if hd_flags h AND NGTCP2_PKT_FLAG_LONG_FORM \<noteq> 0 then ngtcp2_pkt_encode_hd_long ?left h else ngtcp2_pkt_encode_hd_short ?left h"
  have left: "17 \<le> ?left" "13 \<le> ?left" using assms(2) by simp_all
  obtain bs where bs: "?enc = Ok bs" "length bs \<le> 17" "\<forall>rest. ngtcp2_pkt_decode_hd (bs @ rest) = Ok (hd_sent h, length bs)"
  proof (cases "hd_flags h AND NGTCP2_PKT_FLAG_LONG_FORM \<noteq> 0")
    case True
    with assms(1) have "hd_type h \<in> {NGTCP2_PKT_INITIAL, NGTCP2_PKT_RETRY, NGTCP2_PKT_HANDSHAKE, NGTCP2_PKT_0RTT_PROTECTED}"
      unfolding hd_encodable_def by simp
    from hd_long_codec [OF this left(1)] obtain bs where "ngtcp2_pkt_encode_hd_long ?left h = Ok bs" "length bs = 17"
      "\<forall>rest. ngtcp2_pkt_decode_hd (bs @ rest) =
        Ok (h\<lparr>hd_flags := NGTCP2_PKT_FLAG_LONG_FORM, hd_pkt_num := take_bit 32 (hd_pkt_num h)\<rparr>, 17)" by blast
    with True show ?thesis by (intro that [of bs]) (simp_all add: hd_sent_def)
  next
    case False
    with assms(1) have "hd_type h \<in> {NGTCP2_PKT_01, NGTCP2_PKT_02, NGTCP2_PKT_03}" unfolding hd_encodable_def by simp
    moreover have "hd_num_bits (hd_type h) div 8 \<le> 8" using calculation by (auto simp: hd_num_bits_def)
    ultimately obtain bs where "ngtcp2_pkt_encode_hd_short ?left h = Ok bs" "length bs \<le> 17"
      "\<forall>rest. ngtcp2_pkt_decode_hd (bs @ rest) = Ok (hd_sent h, length bs)"
      using hd_short_codec [of h ?left] left(2) False by (auto simp: hd_sent_def split: if_splits)
    with False show ?thesis by (intro that [of bs]) simp_all
  qed
  have "length bs \<le> length out" using bs(2) assms(2) by simp
  then obtain buf where buf: "buf_append (ngtcp2_buf_init out) bs = Ok buf" "buf_pos buf = 0" "buf_last buf = length bs"
      "length (buf_mem buf) = length out" "take (length bs) (buf_mem buf) = bs"
    using buf_append_ok [of "ngtcp2_buf_init out" bs "[]"] by (auto simp: ngtcp2_buf_init_def)
  have "ngtcp2_buf_left (ngtcp2_buf_init out) = length out" by (simp add: ngtcp2_buf_left_def ngtcp2_buf_init_def)
  moreover have "length bs + ctx_aead_overhead ctx \<le> length out" using bs(2) assms(2) by simp
  ultimately show ?thesis using bs buf assms(2)
    by (intro exI [of _ bs] exI) (auto simp: ngtcp2_ppe_encode_hd_def ngtcp2_ppe_init_def ppe_holds_def Let_def)
qed

text \<open>
  C22. Protecting a packet and taking it apart again: with a buffer that has room for a header and the
  overhead of the encryption, encoding the header succeeds, and encoding frames either reports
  NGTCP2\_ERR\_NOBUF or ends with a packet within the buffer. The receiver of that packet decodes the
  header, finds the payload authenticated together with exactly the bytes of the header under the nonce of
  the packet number, and decodes the frames that were sent. Nothing is ever written
  outside of the buffer. The encryption is only assumed to be undone by the decryption and
  to add the announced overhead.
\<close>

theorem ppe_roundtrip:
  assumes "hd_encodable h" and "17 + ctx_aead_overhead ctx \<le> length out" and "aead_ok ctx dec"
    and "8 \<le> length (km_iv (ctx_ckm ctx))" and "length (km_iv (ctx_ckm ctx)) \<le> 32"
    and "\<forall>fr \<in> set frs. frame_ok fr \<and> \<not> is_padding fr"
  shows "\<exists>ppe. ngtcp2_ppe_encode_hd (ngtcp2_ppe_init out ctx nonce0) h = Ok ppe \<and>
    (ppe_encode_frames ppe frs = Err NGTCP2_ERR_NOBUF \<or>
     (\<exists>ppe2 ppe3 pkt hdlen nonce payload. ppe_encode_frames ppe frs = Ok ppe2 \<and> ngtcp2_ppe_final ppe2 = Ok (ppe3, pkt) \<and>
       length pkt \<le> length out \<and> ngtcp2_pkt_decode_hd pkt = Ok (hd_sent h, hdlen) \<and>
       ngtcp2_crypto_create_nonce (km_iv (ctx_ckm ctx)) (hd_pkt_num h) = Ok nonce \<and>
       dec (drop hdlen pkt) (km_key (ctx_ckm ctx)) nonce (take hdlen pkt) = Some payload \<and>
       decode_frames (length payload) payload = Some (map sent frs)))"
proof -
  obtain ppe hdb where p: "ngtcp2_ppe_encode_hd (ngtcp2_ppe_init out ctx nonce0) h = Ok ppe" "ppe_holds ppe (length out) hdb []"
      "ppe_ctx ppe = ctx" "ppe_pkt_num ppe = hd_pkt_num h" "\<forall>rest. ngtcp2_pkt_decode_hd (hdb @ rest) = Ok (hd_sent h, length hdb)"
    using ppe_encode_hd_ok [OF assms(1,2)] by blast
  obtain nonce where nonce: "ngtcp2_crypto_create_nonce (km_iv (ctx_ckm ctx)) (hd_pkt_num h) = Ok nonce"
    using assms(4) by (simp add: ngtcp2_crypto_create_nonce_def)
  from ppe_encode_frames_ok [OF p(2) assms(6)] consider "ppe_encode_frames ppe frs = Err NGTCP2_ERR_NOBUF"
    | ppe2 bs where "ppe_encode_frames ppe frs = Ok ppe2" "ppe_holds ppe2 (length out) hdb bs" "ppe_ctx ppe2 = ctx"
        "ppe_pkt_num ppe2 = hd_pkt_num h" "decode_frames (length bs) bs = Some (map sent frs)"
    using p(3,4) by auto
  then show ?thesis
  proof cases
    case (2 ppe2 bs)
    then obtain ppe3 ct where "ngtcp2_ppe_final ppe2 = Ok (ppe3, hdb @ ct)" "length (hdb @ ct) \<le> length out"
        "dec ct (km_key (ctx_ckm ctx)) nonce hdb = Some bs"
      using ppe_final_ok [OF 2(2), of dec nonce] nonce assms(3,5) by auto
    then show ?thesis using p(1,5) 2(1,5) nonce
      by (intro exI [of _ ppe] conjI disjI2 exI [of _ ppe2] exI [of _ ppe3] exI [of _ "hdb @ ct"] exI [of _ "length hdb"] exI [of _ nonce] exI [of _ bs])
        simp_all
  qed (use p(1) in blast)
qed

text \<open>A cipher with an overhead of one byte, for the witness only.\<close>

definition toy_ctx :: ngtcp2_crypto_ctx where
  "toy_ctx = \<lparr>ctx_ckm = \<lparr>km_key = [], km_iv = [1, 2, 3, 4, 5, 6, 7, 8]\<rparr>, ctx_aead_overhead = 1,
     ctx_encrypt = (\<lambda>destlen pt key nonce ad. Some (0x55 # pt))\<rparr>"

theorem ppe_roundtrip_witness:
  "\<exists>ppe. ngtcp2_ppe_encode_hd (ngtcp2_ppe_init (replicate 40 0) toy_ctx []) (ngtcp2_pkt_hd_init NGTCP2_PKT_FLAG_LONG_FORM NGTCP2_PKT_HANDSHAKE 77 5 0xff000008) = Ok ppe \<and>
    (ppe_encode_frames ppe [FR_MAX_DATA 9] = Err NGTCP2_ERR_NOBUF \<or> (\<exists>ppe2 ppe3 pkt. ppe_encode_frames ppe [FR_MAX_DATA 9] = Ok ppe2 \<and>
      ngtcp2_ppe_final ppe2 = Ok (ppe3, pkt)))"
  using ppe_roundtrip [of "ngtcp2_pkt_hd_init NGTCP2_PKT_FLAG_LONG_FORM NGTCP2_PKT_HANDSHAKE 77 5 0xff000008" toy_ctx "replicate 40 0"
      "\<lambda>ct key nonce ad. Some (tl ct)" "[FR_MAX_DATA 9]" "[]"]
  by (auto simp: toy_ctx_def aead_ok_def hd_encodable_def ngtcp2_pkt_hd_init_def is_padding_def)

end
