(* ===== verification/Conn_State.thy ===== *)
theory Conn_State
  imports Hashmap Idtr Rtb Ppe
begin

text \<open>
  \<^verbatim>\<open>lib/ngtcp2_conn.c\<close>: the state of a connection and its simpler operations. A stream is identified by
  its stream identifier: the hash table \<open>cn_strms\<close> holds the identifiers of the live streams, and
  \<open>cn_strm\<close> gives the contents of each; \<open>cn_fc_strms\<close> is the list linked by \<open>fc_next\<close>, and \<open>fc_pprev\<close> of
  a stream is not NULL exactly if it is in that list. \<open>strm0\<close> is the stream with identifier 0. The
  state of the application is \<open>cn_app\<close>, of type \<open>'a\<close>; a callback is a function of its arguments and of
  that state which reports whether it failed. Callbacks that call back into the connection are not
  modelled. The remaining outcomes of the allocator are \<open>cn_mem\<close>.
\<close>

section \<open>State\<close>

datatype ngtcp2_conn_state =
    NGTCP2_CS_CLIENT_INITIAL
  | NGTCP2_CS_CLIENT_WAIT_HANDSHAKE
  | NGTCP2_CS_CLIENT_HANDSHAKE_ALMOST_FINISHED
  | NGTCP2_CS_CLIENT_TLS_HANDSHAKE_FAILED
  | NGTCP2_CS_SERVER_INITIAL
  | NGTCP2_CS_SERVER_WAIT_HANDSHAKE
  | NGTCP2_CS_SERVER_TLS_HANDSHAKE_FAILED
  | NGTCP2_CS_POST_HANDSHAKE
  | NGTCP2_CS_CLOSING
  | NGTCP2_CS_DRAINING

record ngtcp2_settings =
  se_max_stream_data :: u32
  se_max_data :: u32
  se_max_stream_id_bidi :: u32
  se_max_stream_id_uni :: u32
  se_idle_timeout :: u16
  se_omit_connection_id :: u8
  se_max_packet_size :: u16
  se_stateless_reset_token :: bytes
  se_ack_delay_exponent :: u8
  se_server_unicast_ip :: u32
  se_server_unicast_ttl :: u32
  se_test_metadata :: u32
  se_cpu_sensitive :: u32
  se_throughput_sensitive :: u32
  se_rtt_sensitive :: u32
  se_client_ip :: u64
  se_client_process :: u64
  se_time_stamp :: u64

type_synonym 'a callback = "'a \<Rightarrow> 'a \<times> bool"

text \<open>
  The callbacks that make the handshake data: the argument says whether the packet number of the
  first packet is asked for. They fail, or return that number and the payload.
\<close>

type_synonym 'a send_initial = "bool \<Rightarrow> 'a \<Rightarrow> 'a \<times> (u64 \<times> bytes) option"

text \<open>
  A decryption callback: the capacity of the destination, the ciphertext, the key, the nonce and the
  additional data; it returns an error or the plaintext.
\<close>

type_synonym 'a ngtcp2_decrypt = "nat \<Rightarrow> bytes \<Rightarrow> bytes \<Rightarrow> bytes \<Rightarrow> bytes \<Rightarrow> 'a \<Rightarrow> 'a \<times> (ngtcp2_lib_error + bytes)"

record 'a ngtcp2_conn_callbacks =
  cb_send_client_initial :: "'a send_initial option"
  cb_send_client_handshake :: "('a \<Rightarrow> 'a \<times> bytes option) option"
  cb_recv_client_initial :: "(u64 \<Rightarrow> 'a callback) option"
  cb_send_server_handshake :: "'a send_initial option"
  cb_recv_stream0_data :: "bytes \<Rightarrow> 'a \<Rightarrow> 'a \<times> rc"
  cb_send_pkt :: "(ngtcp2_pkt_hd \<Rightarrow> 'a callback) option"
  cb_send_frame :: "(ngtcp2_pkt_hd \<Rightarrow> ngtcp2_frame \<Rightarrow> 'a callback) option"
  cb_recv_pkt :: "(ngtcp2_pkt_hd \<Rightarrow> 'a callback) option"
  cb_recv_frame :: "(ngtcp2_pkt_hd \<Rightarrow> ngtcp2_frame \<Rightarrow> 'a callback) option"
  cb_handshake_completed :: "'a callback option"
  cb_recv_version_negotiation :: "(ngtcp2_pkt_hd \<Rightarrow> u32 list \<Rightarrow> 'a callback) option"
  cb_hs_encrypt :: ngtcp2_encrypt
  cb_hs_decrypt :: "'a ngtcp2_decrypt"
  cb_encrypt :: ngtcp2_encrypt
  cb_decrypt :: "'a ngtcp2_decrypt"
  cb_recv_stream_data :: "(u64 \<Rightarrow> bool \<Rightarrow> bytes \<Rightarrow> nat \<Rightarrow> 'a callback) option"
  cb_acked_stream_data_offset :: "(u64 \<Rightarrow> u64 \<Rightarrow> u64 \<Rightarrow> nat \<Rightarrow> 'a callback) option"
  cb_stream_close :: "(u64 \<Rightarrow> u16 \<Rightarrow> nat \<Rightarrow> 'a callback) option"
  cb_recv_stateless_reset :: "(ngtcp2_pkt_hd \<Rightarrow> ngtcp2_pkt_stateless_reset \<Rightarrow> 'a callback) option"
  cb_recv_server_stateless_retry :: "'a callback option"
  cb_extend_max_stream_id :: "(u64 \<Rightarrow> 'a callback) option"

record 'a ngtcp2_conn =
  cn_state :: ngtcp2_conn_state
  cn_callbacks :: "'a ngtcp2_conn_callbacks"
  cn_app :: 'a
  cn_strms :: "unit ngtcp2_map"
  cn_strm :: "u64 \<Rightarrow> ngtcp2_strm"
  cn_fc_strms :: "u64 list"
  cn_remote_bidi_idtr :: ngtcp2_idtr
  cn_remote_uni_idtr :: ngtcp2_idtr
  cn_conn_id :: u64
  cn_client_conn_id :: u64
  cn_last_tx_pkt_num :: u64
  cn_max_rx_pkt_num :: u64
  cn_unsent_max_remote_stream_id_bidi :: u64
  cn_max_remote_stream_id_bidi :: u64
  cn_remote_stream_id_bidi_window_start :: u64
  cn_max_local_stream_id_bidi :: u64
  cn_next_local_stream_id_bidi :: u64
  cn_unsent_max_remote_stream_id_uni :: u64
  cn_max_remote_stream_id_uni :: u64
  cn_remote_stream_id_uni_window_start :: u64
  cn_max_local_stream_id_uni :: u64
  cn_next_local_stream_id_uni :: u64
  cn_unsent_max_rx_offset :: u64
  cn_max_rx_offset :: u64
  cn_rx_offset :: u64
  cn_tx_offset :: u64
  cn_max_tx_offset :: u64
  cn_frq :: "ngtcp2_frame list"
  cn_mem :: ngtcp2_mem
  cn_acktr :: ngtcp2_acktr
  cn_rtb :: ngtcp2_rtb
  cn_version :: u32
  cn_flags :: u8
  cn_server :: bool
  cn_hs_tx_ckm :: "ngtcp2_crypto_km option"
  cn_hs_rx_ckm :: "ngtcp2_crypto_km option"
  cn_early_ckm :: "ngtcp2_crypto_km option"
  cn_tx_ckm :: "ngtcp2_crypto_km option"
  cn_rx_ckm :: "ngtcp2_crypto_km option"
  cn_aead_overhead :: nat
  cn_buffed_rx_ppkts :: "(bytes \<times> u64) list"
  cn_early_rtb :: "ngtcp2_rtb_entry list"
  cn_local_settings :: ngtcp2_settings
  cn_remote_settings :: ngtcp2_settings
  cn_next_ack_expiry :: u64
  cn_immediate_ack :: bool
  cn_decrypt_buf_len :: nat

abbreviation NGTCP2_CONN_FLAG_NONE :: u8 where "NGTCP2_CONN_FLAG_NONE \<equiv> 0x00"
abbreviation NGTCP2_CONN_FLAG_HANDSHAKE_COMPLETED :: u8 where "NGTCP2_CONN_FLAG_HANDSHAKE_COMPLETED \<equiv> 0x01"
abbreviation NGTCP2_CONN_FLAG_CONN_ID_NEGOTIATED :: u8 where "NGTCP2_CONN_FLAG_CONN_ID_NEGOTIATED \<equiv> 0x02"
abbreviation NGTCP2_CONN_FLAG_TRANSPORT_PARAM_RECVED :: u8 where "NGTCP2_CONN_FLAG_TRANSPORT_PARAM_RECVED \<equiv> 0x04"
abbreviation NGTCP2_CONN_FLAG_RECV_PROTECTED_PKT :: u8 where "NGTCP2_CONN_FLAG_RECV_PROTECTED_PKT \<equiv> 0x08"
abbreviation NGTCP2_CONN_FLAG_STATELESS_RETRY :: u8 where "NGTCP2_CONN_FLAG_STATELESS_RETRY \<equiv> 0x10"
abbreviation NGTCP2_CONN_FLAG_EARLY_DATA_REJECTED :: u8 where "NGTCP2_CONN_FLAG_EARLY_DATA_REJECTED \<equiv> 0x20"
abbreviation NGTCP2_DELAYED_ACK_TIMEOUT :: u64 where "NGTCP2_DELAYED_ACK_TIMEOUT \<equiv> 25000"
abbreviation NGTCP2_STRM0_MAX_STREAM_DATA :: u64 where "NGTCP2_STRM0_MAX_STREAM_DATA \<equiv> 65535"
abbreviation NGTCP2_MAX_NUM_BUFFED_RX_PPKTS :: nat where "NGTCP2_MAX_NUM_BUFFED_RX_PPKTS \<equiv> 16"
abbreviation NGTCP2_PROTO_VER_D8 :: u32 where "NGTCP2_PROTO_VER_D8 \<equiv> 0xff000008"

text \<open>
  A step of a handler: the state afterwards with the value that the C function returns. \<open>then_ok m k\<close>
  goes on with \<open>k\<close> when \<open>m\<close> returned 0, and returns the error of \<open>m\<close> otherwise.
\<close>

type_synonym 'a step = "('a ngtcp2_conn \<times> rc) result"

definition then_ok :: "'a step \<Rightarrow> ('a ngtcp2_conn \<Rightarrow> 'a step) \<Rightarrow> 'a step" where
  "then_ok m k = rbind m (\<lambda>(conn, rv). case rv of Some e \<Rightarrow> Ok (conn, Some e) | None \<Rightarrow> k conn)"

abbreviation done0 :: "'a ngtcp2_conn \<Rightarrow> 'a step" where "done0 conn \<equiv> Ok (conn, None)"
abbreviation fails :: "'a ngtcp2_conn \<Rightarrow> ngtcp2_lib_error \<Rightarrow> 'a step" where "fails conn e \<equiv> Ok (conn, Some e)"

definition upd_strm :: "'a ngtcp2_conn \<Rightarrow> u64 \<Rightarrow> (ngtcp2_strm \<Rightarrow> ngtcp2_strm) \<Rightarrow> 'a ngtcp2_conn" where
  "upd_strm conn sid f = conn\<lparr>cn_strm := (cn_strm conn)(sid := f (cn_strm conn sid))\<rparr>"

section \<open>Stream identifiers and callbacks\<close>

definition conn_local_stream :: "'a ngtcp2_conn \<Rightarrow> u64 \<Rightarrow> bool" where
  "conn_local_stream conn stream_id = (if cn_server conn then stream_id mod 2 \<noteq> 0 else stream_id mod 2 = 0)"

definition bidi_stream :: "u64 \<Rightarrow> bool" where
  "bidi_stream stream_id \<longleftrightarrow> stream_id AND 0x2 = 0"

text \<open>An optional callback; any failure of it is \<open>NGTCP2_ERR_CALLBACK_FAILURE\<close>.\<close>

definition call_cb :: "'a callback option \<Rightarrow> 'a ngtcp2_conn \<Rightarrow> 'a ngtcp2_conn \<times> rc" where
  "call_cb cb conn =
     (case cb of None \<Rightarrow> (conn, None)
      | Some f \<Rightarrow> (let (a, err) = f (cn_app conn) in (conn\<lparr>cn_app := a\<rparr>, if err then Some NGTCP2_ERR_CALLBACK_FAILURE else None)))"

definition conn_call_send_pkt :: "'a ngtcp2_conn \<Rightarrow> ngtcp2_pkt_hd \<Rightarrow> 'a ngtcp2_conn \<times> rc" where
  "conn_call_send_pkt conn hdr = call_cb (map_option (\<lambda>f. f hdr) (cb_send_pkt (cn_callbacks conn))) conn"

definition conn_call_send_frame :: "'a ngtcp2_conn \<Rightarrow> ngtcp2_pkt_hd \<Rightarrow> ngtcp2_frame \<Rightarrow> 'a ngtcp2_conn \<times> rc" where
  "conn_call_send_frame conn hdr fr = call_cb (map_option (\<lambda>f. f hdr fr) (cb_send_frame (cn_callbacks conn))) conn"

definition conn_call_recv_client_initial :: "'a ngtcp2_conn \<Rightarrow> 'a step" where
  "conn_call_recv_client_initial conn =
     c_assert (cb_recv_client_initial (cn_callbacks conn) \<noteq> None)
       (Ok (call_cb (map_option (\<lambda>f. f (cn_client_conn_id conn)) (cb_recv_client_initial (cn_callbacks conn))) conn))"

definition conn_call_recv_pkt :: "'a ngtcp2_conn \<Rightarrow> ngtcp2_pkt_hd \<Rightarrow> 'a ngtcp2_conn \<times> rc" where
  "conn_call_recv_pkt conn hdr = call_cb (map_option (\<lambda>f. f hdr) (cb_recv_pkt (cn_callbacks conn))) conn"

definition conn_call_recv_frame :: "'a ngtcp2_conn \<Rightarrow> ngtcp2_pkt_hd \<Rightarrow> ngtcp2_frame \<Rightarrow> 'a ngtcp2_conn \<times> rc" where
  "conn_call_recv_frame conn hdr fr = call_cb (map_option (\<lambda>f. f hdr fr) (cb_recv_frame (cn_callbacks conn))) conn"

definition conn_call_handshake_completed :: "'a ngtcp2_conn \<Rightarrow> 'a ngtcp2_conn \<times> rc" where
  "conn_call_handshake_completed conn = call_cb (cb_handshake_completed (cn_callbacks conn)) conn"

definition conn_call_recv_stream_data :: "'a ngtcp2_conn \<Rightarrow> ngtcp2_strm \<Rightarrow> bool \<Rightarrow> bytes \<Rightarrow> 'a ngtcp2_conn \<times> rc" where
  "conn_call_recv_stream_data conn strm fin data =
     call_cb (map_option (\<lambda>f. f (sm_stream_id strm) fin data (sm_stream_user_data strm)) (cb_recv_stream_data (cn_callbacks conn))) conn"

definition conn_call_recv_stream0_data :: "'a ngtcp2_conn \<Rightarrow> bytes \<Rightarrow> 'a ngtcp2_conn \<times> rc" where
  "conn_call_recv_stream0_data conn data =
     (let (a, rv) = cb_recv_stream0_data (cn_callbacks conn) data (cn_app conn) in
      (conn\<lparr>cn_app := a\<rparr>,
       if rv \<in> {None, Some NGTCP2_ERR_TLS_HANDSHAKE, Some NGTCP2_ERR_TLS_FATAL_ALERT_GENERATED,
                Some NGTCP2_ERR_TLS_FATAL_ALERT_RECEIVED, Some NGTCP2_ERR_CALLBACK_FAILURE} then rv
       else Some NGTCP2_ERR_CALLBACK_FAILURE))"

definition conn_call_stream_close :: "'a ngtcp2_conn \<Rightarrow> ngtcp2_strm \<Rightarrow> u16 \<Rightarrow> 'a ngtcp2_conn \<times> rc" where
  "conn_call_stream_close conn strm app_error_code =
     call_cb (map_option (\<lambda>f. f (sm_stream_id strm) app_error_code (sm_stream_user_data strm)) (cb_stream_close (cn_callbacks conn))) conn"

definition conn_call_extend_max_stream_id :: "'a ngtcp2_conn \<Rightarrow> u64 \<Rightarrow> 'a ngtcp2_conn \<times> rc" where
  "conn_call_extend_max_stream_id conn max_stream_id =
     call_cb (map_option (\<lambda>f. f max_stream_id) (cb_extend_max_stream_id (cn_callbacks conn))) conn"

definition conn_handshake_completed :: "'a ngtcp2_conn \<Rightarrow> 'a step" where
  "conn_handshake_completed conn =
     then_ok (Ok (conn_call_handshake_completed conn)) (\<lambda>conn.
     then_ok (if cn_max_local_stream_id_bidi conn > 0 then Ok (conn_call_extend_max_stream_id conn (cn_max_local_stream_id_bidi conn)) else done0 conn) (\<lambda>conn.
     then_ok (if cn_max_local_stream_id_uni conn > 0 then Ok (conn_call_extend_max_stream_id conn (cn_max_local_stream_id_uni conn)) else done0 conn) done0))"

section \<open>Creation\<close>

text \<open>Sequencing of operations that allocate.\<close>

definition mbind :: "'x result \<times> ngtcp2_mem \<Rightarrow> ('x \<Rightarrow> ngtcp2_mem \<Rightarrow> 'y result \<times> ngtcp2_mem) \<Rightarrow> 'y result \<times> ngtcp2_mem" where
  "mbind m k = (case m of (Ok x, mem) \<Rightarrow> k x mem | (Err e, mem) \<Rightarrow> (Err e, mem) | (Fault, mem) \<Rightarrow> (Fault, mem))"

definition malloc_or_nomem :: "ngtcp2_mem \<Rightarrow> unit result \<times> ngtcp2_mem" where
  "malloc_or_nomem mem = (let (ok, mem) = ngtcp2_mem_malloc mem in (ret_if (\<not> ok) NGTCP2_ERR_NOMEM (Ok ()), mem))"

definition zero_settings :: ngtcp2_settings where
  "zero_settings = \<lparr>se_max_stream_data = 0, se_max_data = 0, se_max_stream_id_bidi = 0, se_max_stream_id_uni = 0, se_idle_timeout = 0,
     se_omit_connection_id = 0, se_max_packet_size = 0, se_stateless_reset_token = replicate 16 0, se_ack_delay_exponent = 0,
     se_server_unicast_ip = 0, se_server_unicast_ttl = 0, se_test_metadata = 0, se_cpu_sensitive = 0, se_throughput_sensitive = 0,
     se_rtt_sensitive = 0, se_client_ip = 0, se_client_process = 0, se_time_stamp = 0\<rparr>"

text \<open>
  The structure is allocated with calloc, so what \<open>conn_new\<close> does not set is 0 or NULL. The arguments
  \<open>index\<close> and \<open>st\<close> are the contents of memory that is not in use yet.
\<close>

definition conn_new :: "(nat \<Rightarrow> nat) \<Rightarrow> (nat \<Rightarrow> ngtcp2_rtb_entry) \<Rightarrow> u64 \<Rightarrow> u32 \<Rightarrow> 'a ngtcp2_conn_callbacks \<Rightarrow> ngtcp2_settings
    \<Rightarrow> 'a \<Rightarrow> bool \<Rightarrow> ngtcp2_mem \<Rightarrow> 'a ngtcp2_conn result \<times> ngtcp2_mem" where
  "conn_new index st conn_id version callbacks settings app server mem =
     mbind (malloc_or_nomem mem) (\<lambda>_ mem.
     mbind (malloc_or_nomem mem) (\<lambda>_ mem.
     mbind (ngtcp2_strm_init 0 NGTCP2_STRM_FLAG_NONE (ucast (se_max_stream_data settings)) NGTCP2_STRM0_MAX_STREAM_DATA 0 mem) (\<lambda>strm0 mem.
     mbind (ngtcp2_map_init mem) (\<lambda>strms mem.
     mbind (case ngtcp2_map_insert strms (ngtcp2_map_entry_init 0 ()) [] mem of
              Ok (strms, mem, None) \<Rightarrow> (Ok strms, mem) | Ok (strms, mem, Some e) \<Rightarrow> (Err e, mem)
            | Err e \<Rightarrow> (Err e, mem) | Fault \<Rightarrow> (Fault, mem)) (\<lambda>strms mem.
     mbind (ngtcp2_idtr_init (\<not> server) mem) (\<lambda>bidi_idtr mem.
     mbind (ngtcp2_idtr_init (\<not> server) mem) (\<lambda>uni_idtr mem.
     mbind (ngtcp2_acktr_init mem) (\<lambda>acktr mem.
       (Ok \<lparr>cn_state = if server then NGTCP2_CS_SERVER_INITIAL else NGTCP2_CS_CLIENT_INITIAL,
          cn_callbacks = callbacks, cn_app = app, cn_strms = strms, cn_strm = (\<lambda>_. strm0), cn_fc_strms = [],
          cn_remote_bidi_idtr = bidi_idtr, cn_remote_uni_idtr = uni_idtr, cn_conn_id = conn_id, cn_client_conn_id = 0,
          cn_last_tx_pkt_num = 0, cn_max_rx_pkt_num = 0,
          cn_unsent_max_remote_stream_id_bidi = ucast (se_max_stream_id_bidi settings),
          cn_max_remote_stream_id_bidi = ucast (se_max_stream_id_bidi settings),
          cn_remote_stream_id_bidi_window_start = 0, cn_max_local_stream_id_bidi = 0, cn_next_local_stream_id_bidi = 0,
          cn_unsent_max_remote_stream_id_uni = ucast (se_max_stream_id_uni settings),
          cn_max_remote_stream_id_uni = ucast (se_max_stream_id_uni settings),
          cn_remote_stream_id_uni_window_start = 0, cn_max_local_stream_id_uni = 0, cn_next_local_stream_id_uni = 0,
          cn_unsent_max_rx_offset = ucast (se_max_data settings), cn_max_rx_offset = ucast (se_max_data settings),
          cn_rx_offset = 0, cn_tx_offset = 0, cn_max_tx_offset = 0, cn_frq = [], cn_mem = mem, cn_acktr = acktr,
          cn_rtb = ngtcp2_rtb_init index st, cn_version = version, cn_flags = 0, cn_server = server,
          cn_hs_tx_ckm = None, cn_hs_rx_ckm = None, cn_early_ckm = None, cn_tx_ckm = None, cn_rx_ckm = None,
          cn_aead_overhead = 0, cn_buffed_rx_ppkts = [], cn_early_rtb = [], cn_local_settings = settings, cn_remote_settings = zero_settings,
          cn_next_ack_expiry = 0, cn_immediate_ack = False, cn_decrypt_buf_len = 0\<rparr>, mem)))))))))"

definition ngtcp2_conn_client_new :: "(nat \<Rightarrow> nat) \<Rightarrow> (nat \<Rightarrow> ngtcp2_rtb_entry) \<Rightarrow> u64 \<Rightarrow> u32 \<Rightarrow> 'a ngtcp2_conn_callbacks \<Rightarrow> ngtcp2_settings
    \<Rightarrow> 'a \<Rightarrow> ngtcp2_mem \<Rightarrow> 'a ngtcp2_conn result \<times> ngtcp2_mem" where
  "ngtcp2_conn_client_new index st conn_id version callbacks settings app mem =
     mbind (conn_new index st conn_id version callbacks settings app False mem) (\<lambda>conn mem.
       (Ok (conn\<lparr>cn_client_conn_id := conn_id, cn_next_local_stream_id_bidi := 4, cn_next_local_stream_id_uni := 2\<rparr>), mem))"

definition ngtcp2_conn_server_new :: "(nat \<Rightarrow> nat) \<Rightarrow> (nat \<Rightarrow> ngtcp2_rtb_entry) \<Rightarrow> u64 \<Rightarrow> u32 \<Rightarrow> 'a ngtcp2_conn_callbacks \<Rightarrow> ngtcp2_settings
    \<Rightarrow> 'a \<Rightarrow> ngtcp2_mem \<Rightarrow> 'a ngtcp2_conn result \<times> ngtcp2_mem" where
  "ngtcp2_conn_server_new index st conn_id version callbacks settings app mem =
     mbind (conn_new index st conn_id version callbacks settings app True mem) (\<lambda>conn mem.
       case ngtcp2_idtr_open (cn_remote_bidi_idtr conn) 0 mem of
         Ok (idtr, mem, _) \<Rightarrow>
           (Ok (conn\<lparr>cn_remote_bidi_idtr := idtr, cn_mem := mem, cn_next_local_stream_id_bidi := 1, cn_next_local_stream_id_uni := 3\<rparr>), mem)
       | Err e \<Rightarrow> (Err e, mem)
       | Fault \<Rightarrow> (Fault, mem))"

section \<open>Timers, keys and packet numbers\<close>

definition conn_set_next_ack_expiry :: "'a ngtcp2_conn \<Rightarrow> u64 \<Rightarrow> 'a ngtcp2_conn" where
  "conn_set_next_ack_expiry conn ts = conn\<lparr>cn_next_ack_expiry := ts + NGTCP2_DELAYED_ACK_TIMEOUT, cn_immediate_ack := False\<rparr>"

definition conn_invalidate_next_ack_expiry :: "'a ngtcp2_conn \<Rightarrow> 'a ngtcp2_conn" where
  "conn_invalidate_next_ack_expiry conn = conn\<lparr>cn_next_ack_expiry := 0, cn_immediate_ack := False\<rparr>"

definition conn_immediate_ack :: "'a ngtcp2_conn \<Rightarrow> 'a ngtcp2_conn" where
  "conn_immediate_ack conn = conn\<lparr>cn_immediate_ack := True\<rparr>"

definition conn_next_ack_expired :: "'a ngtcp2_conn \<Rightarrow> u64 \<Rightarrow> bool" where
  "conn_next_ack_expired conn ts \<longleftrightarrow> cn_immediate_ack conn \<or> (cn_next_ack_expiry conn \<noteq> 0 \<and> cn_next_ack_expiry conn \<le> ts)"

definition ngtcp2_conn_earliest_expiry :: "'a ngtcp2_conn \<Rightarrow> u64" where
  "ngtcp2_conn_earliest_expiry conn =
     (case ngtcp2_rtb_top (cn_rtb conn) of
        None \<Rightarrow> cn_next_ack_expiry conn
      | Some p \<Rightarrow>
          let expiry = re_expiry (rtb_store (cn_rtb conn) p) in
          if cn_next_ack_expiry conn > 0 then ngtcp2_min (cn_next_ack_expiry conn) expiry else expiry)"

definition ngtcp2_conn_sched_ack :: "'a ngtcp2_conn \<Rightarrow> u64 \<Rightarrow> bool \<Rightarrow> u64 \<Rightarrow> u8 \<Rightarrow> 'a step" where
  "ngtcp2_conn_sched_ack conn pkt_num active_ack ts unprotected =
     (case ngtcp2_acktr_entry_new pkt_num ts unprotected (cn_mem conn) of
        (Err e, mem) \<Rightarrow> fails (conn\<lparr>cn_mem := mem\<rparr>) e
      | (Fault, mem) \<Rightarrow> Fault
      | (Ok rpkt, mem) \<Rightarrow>
          rbind (ngtcp2_acktr_add (cn_acktr conn) rpkt active_ack) (\<lambda>(acktr, rv).
          let conn = conn\<lparr>cn_mem := mem, cn_acktr := acktr\<rparr> in
          case rv of Some e \<Rightarrow> fails conn e
          | None \<Rightarrow>
              done0 (if \<not> cn_immediate_ack conn \<and> cn_next_ack_expiry conn = 0 \<and> at_active_ack (cn_acktr conn)
                     then conn_set_next_ack_expiry conn ts else conn)))"

text \<open>The type of a short header determines the width of the packet number in it.\<close>

definition conn_select_pkt_type :: "'a ngtcp2_conn \<Rightarrow> u64 \<Rightarrow> u8" where
  "conn_select_pkt_type conn pkt_num =
     (let n = pkt_num - rtb_largest_acked (cn_rtb conn) in
      if UINT64_MAX div 2 \<le> pkt_num then NGTCP2_PKT_03
      else
        let n = n * 2 + 1 in
        if n > 0xffff then NGTCP2_PKT_03 else if n > 0xff then NGTCP2_PKT_02 else NGTCP2_PKT_01)"

text \<open>The key that a function installs, unless it is there already.\<close>

definition set_keys :: "('a ngtcp2_conn \<Rightarrow> ngtcp2_crypto_km option) \<Rightarrow> (ngtcp2_crypto_km \<Rightarrow> 'a ngtcp2_conn \<Rightarrow> 'a ngtcp2_conn)
    \<Rightarrow> 'a ngtcp2_conn \<Rightarrow> bytes \<Rightarrow> bytes \<Rightarrow> 'a step" where
  "set_keys get put conn key iv =
     (if get conn \<noteq> None then fails conn NGTCP2_ERR_INVALID_STATE
      else case ngtcp2_crypto_km_new key (length key) iv (length iv) (cn_mem conn) of
          (Ok ckm, mem) \<Rightarrow> done0 (put ckm (conn\<lparr>cn_mem := mem\<rparr>))
        | (Err e, mem) \<Rightarrow> fails (conn\<lparr>cn_mem := mem\<rparr>) e
        | (Fault, mem) \<Rightarrow> Fault)"

definition ngtcp2_conn_set_handshake_tx_keys :: "'a ngtcp2_conn \<Rightarrow> bytes \<Rightarrow> bytes \<Rightarrow> 'a step" where
  "ngtcp2_conn_set_handshake_tx_keys = set_keys cn_hs_tx_ckm (\<lambda>k conn. conn\<lparr>cn_hs_tx_ckm := Some k\<rparr>)"

definition ngtcp2_conn_set_handshake_rx_keys :: "'a ngtcp2_conn \<Rightarrow> bytes \<Rightarrow> bytes \<Rightarrow> 'a step" where
  "ngtcp2_conn_set_handshake_rx_keys = set_keys cn_hs_rx_ckm (\<lambda>k conn. conn\<lparr>cn_hs_rx_ckm := Some k\<rparr>)"

definition ngtcp2_conn_update_early_keys :: "'a ngtcp2_conn \<Rightarrow> bytes \<Rightarrow> bytes \<Rightarrow> 'a step" where
  "ngtcp2_conn_update_early_keys = set_keys cn_early_ckm (\<lambda>k conn. conn\<lparr>cn_early_ckm := Some k\<rparr>)"

definition ngtcp2_conn_update_tx_keys :: "'a ngtcp2_conn \<Rightarrow> bytes \<Rightarrow> bytes \<Rightarrow> 'a step" where
  "ngtcp2_conn_update_tx_keys = set_keys cn_tx_ckm (\<lambda>k conn. conn\<lparr>cn_tx_ckm := Some k\<rparr>)"

definition ngtcp2_conn_update_rx_keys :: "'a ngtcp2_conn \<Rightarrow> bytes \<Rightarrow> bytes \<Rightarrow> 'a step" where
  "ngtcp2_conn_update_rx_keys = set_keys cn_rx_ckm (\<lambda>k conn. conn\<lparr>cn_rx_ckm := Some k\<rparr>)"

section \<open>Settings and transport parameters\<close>

definition settings_copy_from_transport_params :: "ngtcp2_settings \<Rightarrow> ngtcp2_transport_params \<Rightarrow> ngtcp2_settings" where
  "settings_copy_from_transport_params dest src =
     dest\<lparr>se_max_stream_data := initial_max_stream_data src, se_max_data := initial_max_data src,
       se_max_stream_id_bidi := initial_max_stream_id_bidi src, se_max_stream_id_uni := initial_max_stream_id_uni src,
       se_idle_timeout := idle_timeout src, se_omit_connection_id := omit_connection_id src,
       se_max_packet_size := max_packet_size src, se_stateless_reset_token := stateless_reset_token src,
       se_server_unicast_ip := server_unicast_ip src, se_server_unicast_ttl := server_unicast_ttl src,
       se_ack_delay_exponent := ack_delay_exponent src\<rparr>"

definition transport_params_copy_from_settings :: "ngtcp2_transport_params \<Rightarrow> ngtcp2_settings \<Rightarrow> ngtcp2_transport_params" where
  "transport_params_copy_from_settings dest src =
     dest\<lparr>initial_max_stream_data := se_max_stream_data src, initial_max_data := se_max_data src,
       initial_max_stream_id_bidi := se_max_stream_id_bidi src, initial_max_stream_id_uni := se_max_stream_id_uni src,
       idle_timeout := se_idle_timeout src, omit_connection_id := se_omit_connection_id src,
       max_packet_size := se_max_packet_size src, stateless_reset_token := se_stateless_reset_token src,
       server_unicast_ip := se_server_unicast_ip src, server_unicast_ttl := se_server_unicast_ttl src,
       ack_delay_exponent := se_ack_delay_exponent src\<rparr>"

definition conn_client_validate_transport_params :: "'a ngtcp2_conn \<Rightarrow> ngtcp2_transport_params \<Rightarrow> rc" where
  "conn_client_validate_transport_params conn params =
     (if tp_version params \<noteq> cn_version conn then Some NGTCP2_ERR_VERSION_NEGOTIATION
      else if cn_version conn \<in> set (tp_supported_versions params) then None
      else Some NGTCP2_ERR_VERSION_NEGOTIATION)"

definition ngtcp2_conn_set_remote_transport_params :: "'a ngtcp2_conn \<Rightarrow> u8 \<Rightarrow> ngtcp2_transport_params \<Rightarrow> 'a ngtcp2_conn \<times> rc" where
  "ngtcp2_conn_set_remote_transport_params conn exttype params =
     (let check =
        if exttype = NGTCP2_TRANSPORT_PARAMS_TYPE_CLIENT_HELLO then
          if \<not> cn_server conn then Some NGTCP2_ERR_INVALID_ARGUMENT else None
        else if exttype = NGTCP2_TRANSPORT_PARAMS_TYPE_ENCRYPTED_EXTENSIONS then
          if cn_server conn then Some NGTCP2_ERR_INVALID_ARGUMENT else conn_client_validate_transport_params conn params
        else if exttype = NGTCP2_TRANSPORT_PARAMS_TYPE_NEW_SESSION_TICKET then
          if cn_server conn then Some NGTCP2_ERR_INVALID_ARGUMENT else None
        else Some NGTCP2_ERR_INVALID_ARGUMENT
      in case check of Some e \<Rightarrow> (conn, Some e)
         | None \<Rightarrow>
             let remote = settings_copy_from_transport_params (cn_remote_settings conn) params;
                 conn = conn\<lparr>cn_remote_settings := remote,
                   cn_max_local_stream_id_bidi := ucast (se_max_stream_id_bidi remote),
                   cn_max_local_stream_id_uni := ucast (se_max_stream_id_uni remote),
                   cn_max_tx_offset := ucast (se_max_data remote)\<rparr>;
                 conn = upd_strm conn 0 (\<lambda>strm0. strm0\<lparr>sm_max_tx_offset := ucast (se_max_stream_data remote)\<rparr>)
             in (conn\<lparr>cn_flags := cn_flags conn OR NGTCP2_CONN_FLAG_TRANSPORT_PARAM_RECVED\<rparr>, None))"

definition ngtcp2_conn_set_early_remote_transport_params :: "'a ngtcp2_conn \<Rightarrow> ngtcp2_transport_params \<Rightarrow> 'a ngtcp2_conn \<times> rc" where
  "ngtcp2_conn_set_early_remote_transport_params conn params =
     (if cn_server conn then (conn, Some NGTCP2_ERR_INVALID_STATE)
      else
        let remote = settings_copy_from_transport_params (cn_remote_settings conn) params in
        (conn\<lparr>cn_remote_settings := remote,
           cn_max_local_stream_id_bidi := ucast (se_max_stream_id_bidi remote),
           cn_max_local_stream_id_uni := ucast (se_max_stream_id_uni remote),
           cn_max_tx_offset := ucast (se_max_data remote)\<rparr>, None))"

definition ngtcp2_conn_get_local_transport_params :: "'a ngtcp2_conn \<Rightarrow> ngtcp2_transport_params \<Rightarrow> u8 \<Rightarrow> ngtcp2_transport_params \<times> rc" where
  "ngtcp2_conn_get_local_transport_params conn params exttype =
     (if exttype = NGTCP2_TRANSPORT_PARAMS_TYPE_CLIENT_HELLO then
        if cn_server conn then (params, Some NGTCP2_ERR_INVALID_ARGUMENT)
        else (transport_params_copy_from_settings (params\<lparr>tp_version := cn_version conn\<rparr>) (cn_local_settings conn), None)
      else if exttype = NGTCP2_TRANSPORT_PARAMS_TYPE_ENCRYPTED_EXTENSIONS then
        if \<not> cn_server conn then (params, Some NGTCP2_ERR_INVALID_ARGUMENT)
        else (transport_params_copy_from_settings
                (params\<lparr>tp_version := cn_version conn, tp_supported_versions := [cn_version conn]\<rparr>) (cn_local_settings conn), None)
      else if exttype = NGTCP2_TRANSPORT_PARAMS_TYPE_NEW_SESSION_TICKET then
        if \<not> cn_server conn then (params, Some NGTCP2_ERR_INVALID_ARGUMENT)
        else (transport_params_copy_from_settings params (cn_local_settings conn), None)
      else (params, Some NGTCP2_ERR_INVALID_ARGUMENT))"

section \<open>Accessors\<close>

definition ngtcp2_conn_handshake_completed :: "'a ngtcp2_conn \<Rightarrow> 'a ngtcp2_conn" where
  "ngtcp2_conn_handshake_completed conn = conn\<lparr>cn_flags := cn_flags conn OR NGTCP2_CONN_FLAG_HANDSHAKE_COMPLETED\<rparr>"

definition ngtcp2_conn_get_handshake_completed :: "'a ngtcp2_conn \<Rightarrow> bool" where
  "ngtcp2_conn_get_handshake_completed conn \<longleftrightarrow> cn_flags conn AND NGTCP2_CONN_FLAG_HANDSHAKE_COMPLETED > 0"

definition ngtcp2_conn_in_closing_period :: "'a ngtcp2_conn \<Rightarrow> bool" where
  "ngtcp2_conn_in_closing_period conn \<longleftrightarrow> cn_state conn = NGTCP2_CS_CLOSING"

definition ngtcp2_conn_in_draining_period :: "'a ngtcp2_conn \<Rightarrow> bool" where
  "ngtcp2_conn_in_draining_period conn \<longleftrightarrow> cn_state conn = NGTCP2_CS_DRAINING"

definition ngtcp2_conn_bytes_in_flight :: "'a ngtcp2_conn \<Rightarrow> u64" where
  "ngtcp2_conn_bytes_in_flight conn = rtb_bytes_in_flight (cn_rtb conn)"

definition ngtcp2_conn_negotiated_conn_id :: "'a ngtcp2_conn \<Rightarrow> u64" where
  "ngtcp2_conn_negotiated_conn_id conn = cn_conn_id conn"

definition ngtcp2_conn_negotiated_version :: "'a ngtcp2_conn \<Rightarrow> u32" where
  "ngtcp2_conn_negotiated_version conn = cn_version conn"

definition ngtcp2_conn_set_aead_overhead :: "'a ngtcp2_conn \<Rightarrow> nat \<Rightarrow> 'a ngtcp2_conn" where
  "ngtcp2_conn_set_aead_overhead conn aead_overhead = conn\<lparr>cn_aead_overhead := aead_overhead\<rparr>"

definition ngtcp2_conn_early_data_rejected :: "'a ngtcp2_conn \<Rightarrow> 'a ngtcp2_conn" where
  "ngtcp2_conn_early_data_rejected conn = conn\<lparr>cn_flags := cn_flags conn OR NGTCP2_CONN_FLAG_EARLY_DATA_REJECTED\<rparr>"

definition conn_recv_connection_close :: "'a ngtcp2_conn \<Rightarrow> 'a ngtcp2_conn" where
  "conn_recv_connection_close conn = conn\<lparr>cn_state := NGTCP2_CS_DRAINING\<rparr>"

text \<open>Packets that arrive before they can be decrypted are kept, up to a fixed number.\<close>

definition conn_buffer_protected_pkt :: "'a ngtcp2_conn \<Rightarrow> bytes \<Rightarrow> u64 \<Rightarrow> 'a ngtcp2_conn \<times> rc" where
  "conn_buffer_protected_pkt conn pkt ts =
     (if NGTCP2_MAX_NUM_BUFFED_RX_PPKTS \<le> length (cn_buffed_rx_ppkts conn) then (conn, None)
      else let (ok, mem) = ngtcp2_mem_malloc (cn_mem conn) in
        if \<not> ok then (conn\<lparr>cn_mem := mem\<rparr>, Some NGTCP2_ERR_NOMEM)
        else (conn\<lparr>cn_mem := mem, cn_buffed_rx_ppkts := cn_buffed_rx_ppkts conn @ [(pkt, ts)]\<rparr>, None))"

text \<open>The acceptance test of a server for the first packet of a client: \<open>-1\<close>, \<open>0\<close> or \<open>1\<close>.\<close>

definition ngtcp2_accept :: "bytes \<Rightarrow> int result" where
  "ngtcp2_accept pkt =
     (if length pkt = 0 \<or> pkt ! 0 AND NGTCP2_HEADER_FORM_BIT = 0 then Ok (-1)
      else case ngtcp2_pkt_decode_hd_long pkt of
          Fault \<Rightarrow> Fault
        | Err e \<Rightarrow> Ok (-1)
        | Ok (p, nread) \<Rightarrow>
            if hd_type p \<notin> {NGTCP2_PKT_INITIAL, NGTCP2_PKT_0RTT_PROTECTED} then Ok (-1)
            else if hd_version p \<noteq> NGTCP2_PROTO_VER_D8 then Ok 1 else Ok 0)"

section \<open>Property\<close>

text \<open>
  C36. The width that the sender chooses for a packet number is enough: when the short header of a packet has
  the selected type, a receiver whose largest received packet number is at least the largest number that
  the sender knows to be acknowledged, and below the number of the packet, recovers the
  number from the header, provided that fewer than \<open>2 ^ 31\<close> packets are outstanding.
\<close>

theorem selected_type_recovers_pkt_num:
  assumes "hd_type h = conn_select_pkt_type conn (hd_pkt_num h)"
    and "rtb_largest_acked (cn_rtb conn) \<le> max_rx" and "max_rx < hd_pkt_num h" and "unat (hd_pkt_num h) < 2 ^ 62"
    and "unat (hd_pkt_num h) < unat (rtb_largest_acked (cn_rtb conn)) + 2 ^ 31" and "13 \<le> outlen"
  shows "\<exists>bs h'. ngtcp2_pkt_encode_hd_short outlen h = Ok bs \<and> ngtcp2_pkt_decode_hd (bs @ rest) = Ok (h', length bs) \<and>
    ngtcp2_pkt_adjust_pkt_num max_rx (hd_pkt_num h') (hd_num_bits (hd_type h')) = hd_pkt_num h"
proof -
  define P where "P = unat (hd_pkt_num h)"
  define L where "L = unat (rtb_largest_acked (cn_rtb conn))"
  let ?n = "hd_num_bits (hd_type h)"
  have le: "L \<le> unat max_rx" "unat max_rx < P" "P < 2 ^ 62" "P < L + 2 ^ 31"
    using assms(2-5) by (simp_all add: P_def L_def word_le_nat_alt word_less_nat_alt)
  have d: "unat (hd_pkt_num h - rtb_largest_acked (cn_rtb conn)) = P - L"
    using assms(2,3) by (simp add: P_def L_def unat_sub)
  have big: "P - L < 9223372036854775808" using le(4) by simp
  have "unat ((hd_pkt_num h - rtb_largest_acked (cn_rtb conn)) * 2) = (P - L) * 2"
    using d big unat_mult_lem [where x = "hd_pkt_num h - rtb_largest_acked (cn_rtb conn)" and y = 2] by simp
  then have d2: "unat ((hd_pkt_num h - rtb_largest_acked (cn_rtb conn)) * 2 + 1) = (P - L) * 2 + 1"
    using le unat_add_small [of "(hd_pkt_num h - rtb_largest_acked (cn_rtb conn)) * 2" 1] by simp
  have small: "\<not> UINT64_MAX div 2 \<le> hd_pkt_num h" using le by (simp add: P_def word_le_nat_alt)
  have type: "hd_type h \<in> {NGTCP2_PKT_01, NGTCP2_PKT_02, NGTCP2_PKT_03}" "?n < 62" "2 * (P - L) < 2 ^ ?n"
    using d2 small le by (auto simp: assms(1) conn_select_pkt_type_def Let_def hd_num_bits_def word_less_nat_alt split: if_splits)
  obtain bs where bs: "ngtcp2_pkt_encode_hd_short outlen h = Ok bs"
      "ngtcp2_pkt_decode_hd (bs @ rest) =
        Ok (\<lparr>hd_flags = hd_flags h AND (NGTCP2_PKT_FLAG_OMIT_CONN_ID OR NGTCP2_PKT_FLAG_KEY_PHASE), hd_type = hd_type h,
             hd_conn_id = (if hd_flags h AND NGTCP2_PKT_FLAG_OMIT_CONN_ID = 0 then hd_conn_id h else 0),
             hd_pkt_num = take_bit ?n (hd_pkt_num h), hd_version = 0\<rparr>, length bs)"
    using hd_short_codec [OF type(1) assms(6)] by blast
  have "take_bit ?n (hd_pkt_num h) = of_nat (P mod 2 ^ ?n)"
    by (simp add: P_def flip: take_bit_eq_mod unsigned_take_bit_eq)
  moreover have "ngtcp2_pkt_adjust_pkt_num max_rx (of_nat (P mod 2 ^ ?n)) ?n = of_nat P"
  proof (rule adjust_pkt_num_ok [OF type(2) refl le(3)])
    show "(unat max_rx + 1) div 2 ^ ?n \<le> P div 2 ^ ?n" using le by (intro div_le_mono) simp
  qed (use type(3) le in auto)
  ultimately show ?thesis using bs by (simp add: P_def)
qed

theorem selected_type_recovers_pkt_num_witness:
  "\<exists>c :: unit ngtcp2_conn. rtb_largest_acked (cn_rtb c) = 0 \<and> (\<exists>bs h'.
     ngtcp2_pkt_encode_hd_short 13 (ngtcp2_pkt_hd_init 0 (conn_select_pkt_type c 5) 77 5 0) = Ok bs \<and>
     ngtcp2_pkt_decode_hd (bs @ []) = Ok (h', length bs) \<and> ngtcp2_pkt_adjust_pkt_num 2 (hd_pkt_num h') (hd_num_bits (hd_type h')) = 5)"
proof -
  let ?c = "(undefined :: unit ngtcp2_conn)\<lparr>cn_rtb := ngtcp2_rtb_init (\<lambda>_. 0) (\<lambda>_. undefined)\<rparr>"
  have "rtb_largest_acked (cn_rtb ?c) = 0" by (simp add: ngtcp2_rtb_init_def)
  with selected_type_recovers_pkt_num [of "ngtcp2_pkt_hd_init 0 (conn_select_pkt_type ?c 5) 77 5 0" ?c 2 13 "[]"]
  show ?thesis by (intro exI [of _ ?c]) (simp add: ngtcp2_pkt_hd_init_def)
qed

end
