(* ===== verification/Conn_Streams.thy ===== *)
theory Conn_Streams
  imports Conn_State
begin

text \<open>
  The streams of a connection, \<^verbatim>\<open>lib/ngtcp2_conn.c\<close>: opening and closing them, the frames that concern
  one stream, flow control, and the processing of acknowledgements. A handler is a step on the state
  of the connection.
\<close>

section \<open>Finding, opening and closing\<close>

abbreviation NGTCP2_NO_ERROR :: u16 where "NGTCP2_NO_ERROR \<equiv> 0"
abbreviation NGTCP2_STOPPING :: u16 where "NGTCP2_STOPPING \<equiv> 0"
abbreviation NGTCP2_MAX_VARINT :: u64 where "NGTCP2_MAX_VARINT \<equiv> 0x3fffffffffffffff"

definition ngtcp2_conn_find_stream :: "'a ngtcp2_conn \<Rightarrow> u64 \<Rightarrow> ngtcp2_strm option result" where
  "ngtcp2_conn_find_stream conn stream_id =
     rbind (ngtcp2_map_find (cn_strms conn) stream_id) (\<lambda>me. Ok (map_option (\<lambda>_. cn_strm conn stream_id) me))"

text \<open>\<open>ngtcp2_conn_init_stream\<close> initialises the structure that its caller allocated.\<close>

definition ngtcp2_conn_init_stream :: "'a ngtcp2_conn \<Rightarrow> u64 \<Rightarrow> nat \<Rightarrow> 'a step" where
  "ngtcp2_conn_init_stream conn stream_id stream_user_data =
     (case ngtcp2_strm_init stream_id NGTCP2_STRM_FLAG_NONE (ucast (se_max_stream_data (cn_local_settings conn)))
             (ucast (se_max_stream_data (cn_remote_settings conn))) stream_user_data (cn_mem conn) of
        (Fault, mem) \<Rightarrow> Fault
      | (Err e, mem) \<Rightarrow> fails (conn\<lparr>cn_mem := mem\<rparr>) e
      | (Ok strm, mem) \<Rightarrow>
          rbind (ngtcp2_map_insert (cn_strms conn) (ngtcp2_map_entry_init stream_id ()) [] mem) (\<lambda>(strms, mem, rv).
          let conn' = conn\<lparr>cn_mem := mem, cn_strms := strms\<rparr> in
          case rv of
            Some NGTCP2_ERR_INVALID_ARGUMENT \<Rightarrow> Fault
          | Some e \<Rightarrow> fails conn' e
          | None \<Rightarrow> done0 (conn'\<lparr>cn_strm := (cn_strm conn)(stream_id := strm)\<rparr>)))"

definition malloc_strm :: "'a ngtcp2_conn \<Rightarrow> ('a ngtcp2_conn \<Rightarrow> 'a step) \<Rightarrow> 'a step" where
  "malloc_strm conn k =
     (let (ok, mem) = ngtcp2_mem_malloc (cn_mem conn); conn = conn\<lparr>cn_mem := mem\<rparr> in
      if \<not> ok then fails conn NGTCP2_ERR_NOMEM else k conn)"

definition ngtcp2_conn_open_bidi_stream :: "'a ngtcp2_conn \<Rightarrow> nat \<Rightarrow> ('a ngtcp2_conn \<times> rc \<times> u64) result" where
  "ngtcp2_conn_open_bidi_stream conn stream_user_data =
     (let sid = cn_next_local_stream_id_bidi conn in
      if sid > cn_max_local_stream_id_bidi conn then Ok (conn, Some NGTCP2_ERR_STREAM_ID_BLOCKED, 0)
      else
        rbind (malloc_strm conn (\<lambda>conn. ngtcp2_conn_init_stream conn sid stream_user_data)) (\<lambda>(conn, rv).
        if rv \<noteq> None then Ok (conn, rv, 0)
        else Ok (conn\<lparr>cn_next_local_stream_id_bidi := sid + 4\<rparr>, None, sid)))"

definition ngtcp2_conn_open_uni_stream :: "'a ngtcp2_conn \<Rightarrow> nat \<Rightarrow> ('a ngtcp2_conn \<times> rc \<times> u64) result" where
  "ngtcp2_conn_open_uni_stream conn stream_user_data =
     (let sid = cn_next_local_stream_id_uni conn in
      if sid > cn_max_local_stream_id_uni conn then Ok (conn, Some NGTCP2_ERR_STREAM_ID_BLOCKED, 0)
      else
        rbind (malloc_strm conn (\<lambda>conn. ngtcp2_conn_init_stream conn sid stream_user_data)) (\<lambda>(conn, rv).
        if rv \<noteq> None then Ok (conn, rv, 0)
        else
          let conn = upd_strm conn sid (\<lambda>strm. ngtcp2_strm_shutdown strm NGTCP2_STRM_FLAG_SHUT_RD)
          in Ok (conn\<lparr>cn_next_local_stream_id_uni := sid + 4\<rparr>, None, sid)))"

text \<open>
  The new limit of the peer's stream identifiers. The C function also increments its second argument,
  which is a pointer to the start of the window, instead of what it points to.
\<close>

definition handle_remote_stream_id_extension :: "u64 \<Rightarrow> u64 \<Rightarrow> ngtcp2_idtr \<Rightarrow> u64" where
  "handle_remote_stream_id_extension unsent_max_remote_stream_id remote_stream_id_window_start idtr =
     (if unsent_max_remote_stream_id \<le> NGTCP2_MAX_VARINT - 4 \<and> remote_stream_id_window_start < ngtcp2_idtr_first_gap idtr
      then unsent_max_remote_stream_id + 4 else unsent_max_remote_stream_id)"

text \<open>Taking a stream out of the list of streams whose window is to be extended, if it is there.\<close>

definition fc_unlink :: "'a ngtcp2_conn \<Rightarrow> u64 \<Rightarrow> 'a ngtcp2_conn" where
  "fc_unlink conn sid = conn\<lparr>cn_fc_strms := remove1 sid (cn_fc_strms conn)\<rparr>"

definition ngtcp2_conn_close_stream :: "'a ngtcp2_conn \<Rightarrow> u64 \<Rightarrow> u16 \<Rightarrow> 'a step" where
  "ngtcp2_conn_close_stream conn sid app_error_code =
     (let strm = cn_strm conn sid;
          app_error_code = (if sm_app_error_code strm = 0 then sm_app_error_code strm else app_error_code)
      in rbind (ngtcp2_map_remove (cn_strms conn) sid) (\<lambda>(strms, rv).
         let conn = conn\<lparr>cn_strms := strms\<rparr> in
         if rv \<noteq> None then Ok (conn, rv)
         else then_ok (Ok (conn_call_stream_close conn strm app_error_code)) (\<lambda>conn.
           let conn =
             (if conn_local_stream conn (sm_stream_id strm) then conn
              else if bidi_stream (sm_stream_id strm) then
                conn\<lparr>cn_unsent_max_remote_stream_id_bidi :=
                  handle_remote_stream_id_extension (cn_unsent_max_remote_stream_id_bidi conn)
                    (cn_remote_stream_id_bidi_window_start conn) (cn_remote_bidi_idtr conn)\<rparr>
              else
                conn\<lparr>cn_unsent_max_remote_stream_id_uni :=
                  handle_remote_stream_id_extension (cn_unsent_max_remote_stream_id_uni conn)
                    (cn_remote_stream_id_uni_window_start conn) (cn_remote_uni_idtr conn)\<rparr>)
           in done0 (conn_immediate_ack (fc_unlink conn sid)))))"

definition ngtcp2_conn_close_stream_if_shut_rdwr :: "'a ngtcp2_conn \<Rightarrow> u64 \<Rightarrow> u16 \<Rightarrow> 'a step" where
  "ngtcp2_conn_close_stream_if_shut_rdwr conn sid app_error_code =
     (let strm = cn_strm conn sid in
      if sm_flags strm AND NGTCP2_STRM_FLAG_SHUT_RDWR = NGTCP2_STRM_FLAG_SHUT_RDWR \<and>
         (sm_flags strm AND NGTCP2_STRM_FLAG_RECV_RST \<noteq> 0 \<or> ngtcp2_rob_first_gap_offset (sm_rob strm) = sm_last_rx_offset strm) \<and>
         (sm_flags strm AND NGTCP2_STRM_FLAG_SENT_RST \<noteq> 0 \<or> ngtcp2_gaptr_first_gap_offset (sm_acked_tx_offset strm) = sm_tx_offset strm)
      then ngtcp2_conn_close_stream conn sid app_error_code
      else done0 conn)"

section \<open>Shutting down\<close>

text \<open>A frame is prepended to the transmission queue.\<close>

definition frq_push :: "'a ngtcp2_conn \<Rightarrow> ngtcp2_frame \<Rightarrow> 'a ngtcp2_conn \<times> rc" where
  "frq_push conn fr =
     (let (ok, mem) = ngtcp2_mem_malloc (cn_mem conn); conn = conn\<lparr>cn_mem := mem\<rparr> in
      if \<not> ok then (conn, Some NGTCP2_ERR_NOMEM) else (conn\<lparr>cn_frq := fr # cn_frq conn\<rparr>, None))"

definition conn_rst_stream :: "'a ngtcp2_conn \<Rightarrow> u64 \<Rightarrow> u16 \<Rightarrow> 'a ngtcp2_conn \<times> rc" where
  "conn_rst_stream conn sid app_error_code =
     frq_push conn (FR_RST_STREAM \<lparr>rst_stream_id = sm_stream_id (cn_strm conn sid), rst_app_error_code = app_error_code,
       rst_final_offset = sm_tx_offset (cn_strm conn sid)\<rparr>)"

definition conn_stop_sending :: "'a ngtcp2_conn \<Rightarrow> u64 \<Rightarrow> u16 \<Rightarrow> 'a ngtcp2_conn \<times> rc" where
  "conn_stop_sending conn sid app_error_code =
     (case frq_push conn (FR_STOP_SENDING \<lparr>ss_stream_id = sm_stream_id (cn_strm conn sid), ss_app_error_code = app_error_code\<rparr>) of
        (conn, Some e) \<Rightarrow> (conn, Some e)
      | (conn, None) \<Rightarrow> (fc_unlink conn sid, None))"

definition conn_shutdown_stream_write :: "'a ngtcp2_conn \<Rightarrow> u64 \<Rightarrow> u16 \<Rightarrow> 'a ngtcp2_conn \<times> rc" where
  "conn_shutdown_stream_write conn sid app_error_code =
     (if sm_flags (cn_strm conn sid) AND NGTCP2_STRM_FLAG_SENT_RST \<noteq> 0 then (conn, None)
      else conn_rst_stream
        (upd_strm conn sid (\<lambda>strm. strm\<lparr>sm_flags := sm_flags strm OR (NGTCP2_STRM_FLAG_SHUT_WR OR NGTCP2_STRM_FLAG_SENT_RST),
           sm_app_error_code := app_error_code\<rparr>)) sid app_error_code)"

definition conn_shutdown_stream_read :: "'a ngtcp2_conn \<Rightarrow> u64 \<Rightarrow> u16 \<Rightarrow> 'a ngtcp2_conn \<times> rc" where
  "conn_shutdown_stream_read conn sid app_error_code =
     (if sm_flags (cn_strm conn sid) AND NGTCP2_STRM_FLAG_STOP_SENDING \<noteq> 0 then (conn, None)
      else conn_stop_sending
        (upd_strm conn sid (\<lambda>strm. strm\<lparr>sm_flags := sm_flags strm OR NGTCP2_STRM_FLAG_STOP_SENDING, sm_app_error_code := app_error_code\<rparr>))
        sid app_error_code)"

text \<open>The check of the arguments that the three functions of the interface share.\<close>

definition with_stream :: "'a ngtcp2_conn \<Rightarrow> u64 \<Rightarrow> u16 \<Rightarrow> 'a step \<Rightarrow> 'a step" where
  "with_stream conn stream_id app_error_code k =
     (if stream_id = 0 \<or> app_error_code = NGTCP2_STOPPING then fails conn NGTCP2_ERR_INVALID_ARGUMENT
      else rbind (ngtcp2_conn_find_stream conn stream_id) (\<lambda>strm.
        if strm = None then fails conn NGTCP2_ERR_STREAM_NOT_FOUND else k))"

definition ngtcp2_conn_shutdown_stream :: "'a ngtcp2_conn \<Rightarrow> u64 \<Rightarrow> u16 \<Rightarrow> 'a step" where
  "ngtcp2_conn_shutdown_stream conn stream_id app_error_code =
     with_stream conn stream_id app_error_code
       (then_ok (Ok (conn_shutdown_stream_read conn stream_id app_error_code)) (\<lambda>conn.
        Ok (conn_shutdown_stream_write conn stream_id app_error_code)))"

definition ngtcp2_conn_shutdown_stream_write :: "'a ngtcp2_conn \<Rightarrow> u64 \<Rightarrow> u16 \<Rightarrow> 'a step" where
  "ngtcp2_conn_shutdown_stream_write conn stream_id app_error_code =
     with_stream conn stream_id app_error_code (Ok (conn_shutdown_stream_write conn stream_id app_error_code))"

definition ngtcp2_conn_shutdown_stream_read :: "'a ngtcp2_conn \<Rightarrow> u64 \<Rightarrow> u16 \<Rightarrow> 'a step" where
  "ngtcp2_conn_shutdown_stream_read conn stream_id app_error_code =
     with_stream conn stream_id app_error_code (Ok (conn_shutdown_stream_read conn stream_id app_error_code))"

section \<open>Flow control\<close>

definition conn_should_send_max_stream_data :: "'a ngtcp2_conn \<Rightarrow> ngtcp2_strm \<Rightarrow> bool" where
  "conn_should_send_max_stream_data conn strm \<longleftrightarrow>
     ucast (se_max_stream_data (cn_local_settings conn) div 2) < sm_unsent_max_rx_offset strm - sm_max_rx_offset strm"

definition conn_should_send_max_data :: "'a ngtcp2_conn \<Rightarrow> bool" where
  "conn_should_send_max_data conn \<longleftrightarrow>
     ucast (se_max_data (cn_local_settings conn) div 2) < cn_unsent_max_rx_offset conn - cn_max_rx_offset conn"

definition conn_max_data_violated :: "'a ngtcp2_conn \<Rightarrow> u64 \<Rightarrow> bool" where
  "conn_max_data_violated conn datalen \<longleftrightarrow> cn_max_rx_offset conn - cn_rx_offset conn < datalen"

definition conn_extend_max_stream_offset :: "'a ngtcp2_conn \<Rightarrow> u64 \<Rightarrow> u64 \<Rightarrow> 'a ngtcp2_conn" where
  "conn_extend_max_stream_offset conn sid datalen =
     (let conn = upd_strm conn sid (\<lambda>strm.
            if sm_unsent_max_rx_offset strm \<le> NGTCP2_MAX_VARINT - datalen
            then strm\<lparr>sm_unsent_max_rx_offset := sm_unsent_max_rx_offset strm + datalen\<rparr> else strm)
      in if sm_flags (cn_strm conn sid) AND (NGTCP2_STRM_FLAG_SHUT_RD OR NGTCP2_STRM_FLAG_STOP_SENDING) = 0 \<and>
            sid \<notin> set (cn_fc_strms conn) \<and> conn_should_send_max_stream_data conn (cn_strm conn sid)
         then conn\<lparr>cn_fc_strms := sid # cn_fc_strms conn\<rparr> else conn)"

definition ngtcp2_conn_extend_max_stream_offset :: "'a ngtcp2_conn \<Rightarrow> u64 \<Rightarrow> u64 \<Rightarrow> 'a step" where
  "ngtcp2_conn_extend_max_stream_offset conn stream_id datalen =
     rbind (ngtcp2_conn_find_stream conn stream_id) (\<lambda>strm.
       if strm = None then fails conn NGTCP2_ERR_STREAM_NOT_FOUND
       else done0 (conn_extend_max_stream_offset conn stream_id datalen))"

definition ngtcp2_conn_extend_max_offset :: "'a ngtcp2_conn \<Rightarrow> u64 \<Rightarrow> 'a ngtcp2_conn" where
  "ngtcp2_conn_extend_max_offset conn datalen =
     (if NGTCP2_MAX_VARINT < datalen \<or> cn_unsent_max_rx_offset conn > NGTCP2_MAX_VARINT - datalen
      then conn\<lparr>cn_unsent_max_rx_offset := NGTCP2_MAX_VARINT\<rparr>
      else conn\<lparr>cn_unsent_max_rx_offset := cn_unsent_max_rx_offset conn + datalen\<rparr>)"

definition conn_recv_max_data :: "'a ngtcp2_conn \<Rightarrow> u64 \<Rightarrow> 'a ngtcp2_conn" where
  "conn_recv_max_data conn max_data = conn\<lparr>cn_max_tx_offset := ngtcp2_max (cn_max_tx_offset conn) max_data\<rparr>"

definition conn_recv_max_stream_id :: "'a ngtcp2_conn \<Rightarrow> u64 \<Rightarrow> 'a ngtcp2_conn \<times> rc" where
  "conn_recv_max_stream_id conn max_stream_id =
     (let conn = (if bidi_stream max_stream_id
        then conn\<lparr>cn_max_local_stream_id_bidi := ngtcp2_max (cn_max_local_stream_id_bidi conn) max_stream_id\<rparr>
        else conn\<lparr>cn_max_local_stream_id_uni := ngtcp2_max (cn_max_local_stream_id_uni conn) max_stream_id\<rparr>)
      in conn_call_extend_max_stream_id conn max_stream_id)"

section \<open>Receiving frames\<close>

text \<open>
  The check of a stream identifier that the handlers of the frames share: a local stream must have been
  opened, a remote one must not exceed the limit.
\<close>

definition stream_id_check :: "'a ngtcp2_conn \<Rightarrow> u64 \<Rightarrow> rc" where
  "stream_id_check conn sid =
     (if bidi_stream sid then
        if conn_local_stream conn sid then
          if cn_next_local_stream_id_bidi conn \<le> sid then Some NGTCP2_ERR_STREAM_STATE else None
        else if cn_max_remote_stream_id_bidi conn < sid then Some NGTCP2_ERR_STREAM_ID else None
      else
        if conn_local_stream conn sid then
          if cn_next_local_stream_id_uni conn \<le> sid then Some NGTCP2_ERR_STREAM_STATE else None
        else if cn_max_remote_stream_id_uni conn < sid then Some NGTCP2_ERR_STREAM_ID else None)"

definition remote_idtr :: "'a ngtcp2_conn \<Rightarrow> u64 \<Rightarrow> ngtcp2_idtr" where
  "remote_idtr conn sid = (if bidi_stream sid then cn_remote_bidi_idtr conn else cn_remote_uni_idtr conn)"

definition set_remote_idtr :: "'a ngtcp2_conn \<Rightarrow> u64 \<Rightarrow> ngtcp2_idtr \<Rightarrow> 'a ngtcp2_conn" where
  "set_remote_idtr conn sid idtr =
     (if bidi_stream sid then conn\<lparr>cn_remote_bidi_idtr := idtr\<rparr> else conn\<lparr>cn_remote_uni_idtr := idtr\<rparr>)"

definition conn_idtr_open :: "'a ngtcp2_conn \<Rightarrow> u64 \<Rightarrow> ('a ngtcp2_conn \<times> rc) result" where
  "conn_idtr_open conn sid =
     rbind (ngtcp2_idtr_open (remote_idtr conn sid) sid (cn_mem conn)) (\<lambda>(idtr, mem, rv).
       Ok ((set_remote_idtr conn sid idtr)\<lparr>cn_mem := mem\<rparr>, rv))"

text \<open>A stream that the peer opens with its first frame.\<close>

definition conn_create_remote_stream :: "'a ngtcp2_conn \<Rightarrow> u64 \<Rightarrow> 'a step" where
  "conn_create_remote_stream conn sid =
     malloc_strm conn (\<lambda>conn.
     then_ok (ngtcp2_conn_init_stream conn sid 0) (\<lambda>conn.
     done0 (if bidi_stream sid then conn else upd_strm conn sid (\<lambda>strm. ngtcp2_strm_shutdown strm NGTCP2_STRM_FLAG_SHUT_WR))))"

definition conn_recv_max_stream_data :: "'a ngtcp2_conn \<Rightarrow> ngtcp2_max_stream_data \<Rightarrow> 'a step" where
  "conn_recv_max_stream_data conn fr =
     (let sid = msd_stream_id fr;
          update = (\<lambda>conn. done0 (upd_strm conn sid (\<lambda>strm.
            strm\<lparr>sm_max_tx_offset := ngtcp2_max (sm_max_tx_offset strm) (msd_max_stream_data fr)\<rparr>)))
      in case stream_id_check conn sid of Some e \<Rightarrow> fails conn e
      | None \<Rightarrow>
        rbind (ngtcp2_conn_find_stream conn sid) (\<lambda>strm.
        if strm \<noteq> None then update conn
        else if conn_local_stream conn sid then done0 conn
        else rbind (conn_idtr_open conn sid) (\<lambda>(conn, rv).
          if rv = Some NGTCP2_ERR_STREAM_IN_USE then done0 conn
          else then_ok (conn_create_remote_stream conn sid) update)))"

text \<open>
  Delivering the buffered data from \<open>rx_offset\<close> on. Every round delivers at least one byte, and no byte
  behind the first gap, so the number of the bytes before it bounds the rounds; running out of them is
  \<open>Fault\<close>. The application reads the bytes, which must have been written.
\<close>

definition read_bytes :: "u8 option list option \<Rightarrow> u64 \<Rightarrow> bytes result" where
  "read_bytes p n =
     (case p of None \<Rightarrow> Fault
      | Some bs \<Rightarrow> c_assert (unat n \<le> length bs \<and> None \<notin> set (take (unat n) bs)) (Ok (map the (take (unat n) bs))))"

fun emit_loop :: "(bytes \<Rightarrow> u64 \<Rightarrow> 'a ngtcp2_conn \<Rightarrow> 'a ngtcp2_conn \<times> rc) \<Rightarrow> ('a ngtcp2_conn \<Rightarrow> u64 \<Rightarrow> 'a ngtcp2_conn)
    \<Rightarrow> nat \<Rightarrow> 'a ngtcp2_conn \<Rightarrow> u64 \<Rightarrow> u64 \<Rightarrow> 'a step" where
  "emit_loop call after 0 conn sid rx_offset = Fault"
| "emit_loop call after (Suc n) conn sid rx_offset =
     rbind (ngtcp2_rob_data_at (sm_rob (cn_strm conn sid)) rx_offset) (\<lambda>(p, datalen).
       if datalen = 0 then c_assert (rx_offset = ngtcp2_strm_rx_offset (cn_strm conn sid)) (done0 conn)
       else
         rbind (read_bytes p datalen) (\<lambda>data.
         then_ok (Ok (call data (rx_offset + datalen) conn)) (\<lambda>conn.
         let conn = after conn datalen in
         rbind (ngtcp2_rob_pop (sm_rob (cn_strm conn sid)) rx_offset datalen) (\<lambda>rob.
         emit_loop call after n (upd_strm conn sid (\<lambda>strm. strm\<lparr>sm_rob := rob\<rparr>)) sid (rx_offset + datalen)))))"

definition emit_rounds :: "'a ngtcp2_conn \<Rightarrow> u64 \<Rightarrow> u64 \<Rightarrow> nat" where
  "emit_rounds conn sid rx_offset = Suc (unat (ngtcp2_strm_rx_offset (cn_strm conn sid) - rx_offset))"

definition strm_fin_at :: "ngtcp2_strm \<Rightarrow> u64 \<Rightarrow> bool" where
  "strm_fin_at strm rx_offset \<longleftrightarrow> sm_flags strm AND NGTCP2_STRM_FLAG_SHUT_RD \<noteq> 0 \<and> rx_offset = sm_last_rx_offset strm"

definition conn_emit_pending_stream_data :: "'a ngtcp2_conn \<Rightarrow> u64 \<Rightarrow> u64 \<Rightarrow> 'a step" where
  "conn_emit_pending_stream_data conn sid rx_offset =
     emit_loop (\<lambda>data rx_offset conn. conn_call_recv_stream_data conn (cn_strm conn sid) (strm_fin_at (cn_strm conn sid) rx_offset) data)
       (\<lambda>conn datalen. conn) (emit_rounds conn sid rx_offset) conn sid rx_offset"

definition conn_emit_pending_stream0_data :: "'a ngtcp2_conn \<Rightarrow> u64 \<Rightarrow> 'a step" where
  "conn_emit_pending_stream0_data conn rx_offset =
     emit_loop (\<lambda>data rx_offset conn. conn_call_recv_stream0_data conn data)
       (\<lambda>conn datalen. conn_extend_max_stream_offset
          (upd_strm conn 0 (\<lambda>strm. strm\<lparr>sm_unsent_max_rx_offset := sm_unsent_max_rx_offset strm + datalen\<rparr>)) 0 datalen)
       (emit_rounds conn 0 rx_offset) conn 0 rx_offset"

text \<open>The end of \<open>conn_recv_stream\<close>: the data is delivered, or kept when data before it is missing.\<close>

definition recv_stream_data :: "'a ngtcp2_conn \<Rightarrow> ngtcp2_stream \<Rightarrow> u64 \<Rightarrow> 'a step" where
  "recv_stream_data conn fr rx_offset =
     (let sid = st_stream_id fr in
      if st_offset fr \<le> rx_offset then
        let ncut = rx_offset - st_offset fr; data = drop (unat ncut) (st_data fr);
            rx_offset = rx_offset + (of_nat (length (st_data fr)) - ncut);
            conn = upd_strm conn sid (\<lambda>strm. strm\<lparr>sm_rob := ngtcp2_rob_remove_prefix (sm_rob strm) rx_offset\<rparr>)
        in if sid = 0 then
             then_ok (Ok (conn_call_recv_stream0_data conn data)) (\<lambda>conn. conn_emit_pending_stream0_data conn rx_offset)
           else
             then_ok (Ok (conn_call_recv_stream_data conn (cn_strm conn sid) (strm_fin_at (cn_strm conn sid) rx_offset) data))
               (\<lambda>conn. conn_emit_pending_stream_data conn sid rx_offset)
      else
        rbind (ngtcp2_strm_recv_reordering (cn_strm conn sid) fr (cn_mem conn)) (\<lambda>(strm, mem, rv).
          Ok ((upd_strm conn sid (\<lambda>_. strm))\<lparr>cn_mem := mem\<rparr>, rv)))"

definition recv_stream_deliver :: "'a ngtcp2_conn \<Rightarrow> ngtcp2_stream \<Rightarrow> u64 \<Rightarrow> 'a step" where
  "recv_stream_deliver conn fr rx_offset =
     then_ok (recv_stream_data conn fr rx_offset)
       (\<lambda>conn. ngtcp2_conn_close_stream_if_shut_rdwr conn (st_stream_id fr) NGTCP2_NO_ERROR)"

text \<open>The flow control and the final offset, for a stream that exists.\<close>

definition recv_stream_fin :: "'a ngtcp2_conn \<Rightarrow> ngtcp2_stream \<Rightarrow> u64 \<Rightarrow> 'a step" where
  "recv_stream_fin conn fr fr_end_offset =
     (let sid = st_stream_id fr; strm = cn_strm conn sid in
      if sm_flags strm AND NGTCP2_STRM_FLAG_SHUT_RD \<noteq> 0 then
        if sm_last_rx_offset strm \<noteq> fr_end_offset then fails conn NGTCP2_ERR_FINAL_OFFSET else done0 conn
      else if sm_last_rx_offset strm > fr_end_offset then fails conn NGTCP2_ERR_FINAL_OFFSET
      else
        let conn = upd_strm conn sid (\<lambda>strm. ngtcp2_strm_shutdown (strm\<lparr>sm_last_rx_offset := fr_end_offset\<rparr>) NGTCP2_STRM_FLAG_SHUT_RD)
        in if sm_flags (cn_strm conn sid) AND NGTCP2_STRM_FLAG_STOP_SENDING \<noteq> 0
           then ngtcp2_conn_close_stream_if_shut_rdwr conn sid (sm_app_error_code (cn_strm conn sid))
           else
             let conn = fc_unlink conn sid; rx_offset = ngtcp2_strm_rx_offset (cn_strm conn sid) in
             if fr_end_offset = rx_offset then
               then_ok (Ok (conn_call_recv_stream_data conn (cn_strm conn sid) True []))
                 (\<lambda>conn. ngtcp2_conn_close_stream_if_shut_rdwr conn sid NGTCP2_NO_ERROR)
             else recv_stream_deliver conn fr rx_offset)"

definition recv_stream_nofin :: "'a ngtcp2_conn \<Rightarrow> ngtcp2_stream \<Rightarrow> u64 \<Rightarrow> 'a step" where
  "recv_stream_nofin conn fr fr_end_offset =
     (let sid = st_stream_id fr; strm = cn_strm conn sid in
      if sm_flags strm AND NGTCP2_STRM_FLAG_SHUT_RD \<noteq> 0 \<and> sm_last_rx_offset strm < fr_end_offset then fails conn NGTCP2_ERR_FINAL_OFFSET
      else
        let conn = upd_strm conn sid (\<lambda>strm. strm\<lparr>sm_last_rx_offset := ngtcp2_max (sm_last_rx_offset strm) fr_end_offset\<rparr>);
            rx_offset = ngtcp2_strm_rx_offset (cn_strm conn sid)
        in if fr_end_offset \<le> rx_offset then done0 conn
           else if sm_flags (cn_strm conn sid) AND NGTCP2_STRM_FLAG_STOP_SENDING \<noteq> 0 then done0 conn
           else recv_stream_deliver conn fr rx_offset)"

definition recv_stream_existing :: "'a ngtcp2_conn \<Rightarrow> ngtcp2_stream \<Rightarrow> 'a step" where
  "recv_stream_existing conn fr =
     (let sid = st_stream_id fr; strm = cn_strm conn sid; fr_end_offset = st_offset fr + of_nat (length (st_data fr));
          datalen = fr_end_offset - sm_last_rx_offset strm;
          new_data = sm_last_rx_offset strm < fr_end_offset \<and> sid \<noteq> 0
      in if sm_max_rx_offset strm < fr_end_offset then fails conn NGTCP2_ERR_FLOW_CONTROL
      else if new_data \<and> conn_max_data_violated conn datalen then fails conn NGTCP2_ERR_FLOW_CONTROL
      else
        let conn = (if new_data then conn\<lparr>cn_rx_offset := cn_rx_offset conn + datalen\<rparr> else conn) in
        if st_fin fr then recv_stream_fin conn fr fr_end_offset else recv_stream_nofin conn fr fr_end_offset)"

definition conn_recv_stream :: "'a ngtcp2_conn \<Rightarrow> ngtcp2_stream \<Rightarrow> 'a step" where
  "conn_recv_stream conn fr =
     (let sid = st_stream_id fr; datalen = of_nat (length (st_data fr)) in
      if sid = 0 \<and> st_fin fr then fails conn NGTCP2_ERR_PROTO
      else if \<not> st_fin fr \<and> datalen = 0 then fails conn NGTCP2_ERR_FRAME_FORMAT
      else case stream_id_check conn sid of Some e \<Rightarrow> fails conn e
      | None \<Rightarrow>
        if \<not> bidi_stream sid \<and> conn_local_stream conn sid \<and> st_offset fr + datalen \<noteq> 0 then fails conn NGTCP2_ERR_FINAL_OFFSET
        else if NGTCP2_MAX_VARINT - datalen < st_offset fr then fails conn NGTCP2_ERR_PROTO
        else
          rbind (ngtcp2_conn_find_stream conn sid) (\<lambda>strm.
          if strm \<noteq> None then recv_stream_existing conn fr
          else if conn_local_stream conn sid then done0 conn
          else rbind (conn_idtr_open conn sid) (\<lambda>(conn, rv).
            if rv = Some NGTCP2_ERR_STREAM_IN_USE then done0 conn
            else c_assert (rv = None)
              (then_ok (conn_create_remote_stream conn sid) (\<lambda>conn. recv_stream_existing conn fr)))))"

definition conn_recv_rst_stream :: "'a ngtcp2_conn \<Rightarrow> ngtcp2_rst_stream \<Rightarrow> 'a step" where
  "conn_recv_rst_stream conn fr =
     (let sid = rst_stream_id fr in
      if sid = 0 then fails conn NGTCP2_ERR_PROTO
      else case stream_id_check conn sid of Some e \<Rightarrow> fails conn e
      | None \<Rightarrow>
        rbind (ngtcp2_conn_find_stream conn sid) (\<lambda>ostrm.
        case ostrm of
          None \<Rightarrow>
            if conn_local_stream conn sid then
              if \<not> bidi_stream sid \<and> rst_final_offset fr \<noteq> 0 then fails conn NGTCP2_ERR_FINAL_OFFSET else done0 conn
            else rbind (ngtcp2_idtr_is_open (remote_idtr conn sid) sid) (\<lambda>is_open.
              if is_open = None then
                if ucast (se_max_stream_data (cn_local_settings conn)) < rst_final_offset fr \<or> conn_max_data_violated conn (rst_final_offset fr)
                then fails conn NGTCP2_ERR_FLOW_CONTROL
                else rbind (conn_idtr_open conn sid) (\<lambda>(conn, rv).
                  done0 (conn\<lparr>cn_rx_offset := cn_rx_offset conn + rst_final_offset fr\<rparr>))
              else done0 conn)
        | Some strm \<Rightarrow>
            if sm_flags strm AND NGTCP2_STRM_FLAG_SHUT_RD \<noteq> 0 \<and> sm_last_rx_offset strm \<noteq> rst_final_offset fr \<or>
               sm_flags strm AND NGTCP2_STRM_FLAG_SHUT_RD = 0 \<and> sm_last_rx_offset strm > rst_final_offset fr
            then fails conn NGTCP2_ERR_FINAL_OFFSET
            else
              let datalen = rst_final_offset fr - sm_last_rx_offset strm in
              if sm_max_rx_offset strm < rst_final_offset fr \<or> conn_max_data_violated conn datalen then fails conn NGTCP2_ERR_FLOW_CONTROL
              else
                let conn = conn\<lparr>cn_rx_offset := cn_rx_offset conn + datalen\<rparr>;
                    conn = upd_strm conn sid (\<lambda>strm.
                      strm\<lparr>sm_flags := sm_flags strm OR (NGTCP2_STRM_FLAG_SHUT_RD OR NGTCP2_STRM_FLAG_RECV_RST)\<rparr>)
                in ngtcp2_conn_close_stream_if_shut_rdwr conn sid (rst_app_error_code fr)))"

definition conn_recv_stop_sending :: "'a ngtcp2_conn \<Rightarrow> ngtcp2_stop_sending \<Rightarrow> 'a step" where
  "conn_recv_stop_sending conn fr =
     (let sid = ss_stream_id fr in
      if sid = 0 then fails conn NGTCP2_ERR_PROTO
      else case stream_id_check conn sid of Some e \<Rightarrow> fails conn e
      | None \<Rightarrow>
        rbind (ngtcp2_conn_find_stream conn sid) (\<lambda>ostrm.
        if ostrm = None then
          if conn_local_stream conn sid then done0 conn
          else rbind (ngtcp2_idtr_is_open (remote_idtr conn sid) sid) (\<lambda>is_open.
            if is_open = None then rbind (conn_idtr_open conn sid) (\<lambda>(conn, rv). done0 conn) else done0 conn)
        else
          then_ok (Ok (conn_rst_stream conn sid NGTCP2_STOPPING)) (\<lambda>conn.
          ngtcp2_conn_close_stream_if_shut_rdwr
            (upd_strm conn sid (\<lambda>strm. strm\<lparr>sm_flags := sm_flags strm OR (NGTCP2_STRM_FLAG_SHUT_WR OR NGTCP2_STRM_FLAG_SENT_RST)\<rparr>))
            sid (ss_app_error_code fr))))"

definition conn_recv_pong :: "'a ngtcp2_conn \<Rightarrow> bytes \<Rightarrow> 'a ngtcp2_conn \<times> rc" where
  "conn_recv_pong conn data = (conn, if data = [] then Some NGTCP2_ERR_FRAME_FORMAT else None)"

definition conn_recv_ping :: "'a ngtcp2_conn \<Rightarrow> bytes \<Rightarrow> 'a ngtcp2_conn \<times> rc" where
  "conn_recv_ping conn data = (if data = [] then (conn, None) else frq_push conn (FR_PONG data))"

section \<open>Acknowledgements\<close>

text \<open>
  \<open>call_acked_stream_offset\<close> for the frames of an acknowledged packet; it is only called when the
  callback exists.
\<close>

fun call_acked_stream_offset :: "ngtcp2_frame list \<Rightarrow> 'a ngtcp2_conn \<Rightarrow> 'a step" where
  "call_acked_stream_offset [] conn = done0 conn"
| "call_acked_stream_offset (FR_STREAM fr # frs) conn =
     (let sid = st_stream_id fr in
      rbind (ngtcp2_conn_find_stream conn sid) (\<lambda>ostrm.
      case ostrm of None \<Rightarrow> call_acked_stream_offset frs conn
      | Some strm \<Rightarrow>
          let prev_stream_offset = ngtcp2_gaptr_first_gap_offset (sm_acked_tx_offset strm);
              (gaptr, mem, rv) = ngtcp2_gaptr_push (sm_acked_tx_offset strm) (st_offset fr) (of_nat (length (st_data fr))) (cn_mem conn);
              conn = (upd_strm conn sid (\<lambda>strm. strm\<lparr>sm_acked_tx_offset := gaptr\<rparr>))\<lparr>cn_mem := mem\<rparr>
          in if rv \<noteq> None then Ok (conn, rv)
          else
            let datalen = ngtcp2_gaptr_first_gap_offset gaptr - prev_stream_offset in
            if datalen = 0 \<and> \<not> st_fin fr then call_acked_stream_offset frs conn
            else
              then_ok (Ok (call_cb (map_option (\<lambda>f. f (sm_stream_id strm) prev_stream_offset datalen (sm_stream_user_data strm))
                  (cb_acked_stream_data_offset (cn_callbacks conn))) conn)) (\<lambda>conn.
              then_ok (ngtcp2_conn_close_stream_if_shut_rdwr conn sid NGTCP2_NO_ERROR) (\<lambda>conn.
              call_acked_stream_offset frs conn))))"
| "call_acked_stream_offset (fr # frs) conn = call_acked_stream_offset frs conn"

text \<open>
  The call of the retransmission buffer for an acknowledged packet, on the state of the connection
  without the buffer itself; \<open>None\<close> is the state after a fault.
\<close>

definition rtb_on_acked :: "'a ngtcp2_conn \<Rightarrow> 'a ngtcp2_conn option on_acked" where
  "rtb_on_acked conn =
     (if cb_acked_stream_data_offset (cn_callbacks conn) = None then None
      else Some (\<lambda>ent oconn.
        case oconn of None \<Rightarrow> (None, Some NGTCP2_ERR_INTERNAL)
        | Some c \<Rightarrow>
            (case call_acked_stream_offset (re_frc ent) c of
               Ok (c, rv) \<Rightarrow> (Some c, rv)
             | _ \<Rightarrow> (None, Some NGTCP2_ERR_INTERNAL))))"

definition conn_recv_ack :: "'a ngtcp2_conn \<Rightarrow> ngtcp2_ack \<Rightarrow> u8 \<Rightarrow> 'a step" where
  "conn_recv_ack conn fr unprotected =
     (case ngtcp2_pkt_validate_ack fr of Some e \<Rightarrow> fails conn e
      | None \<Rightarrow>
        rbind (ngtcp2_acktr_recv_ack (cn_acktr conn) fr unprotected) (\<lambda>acktr.
        let conn = conn\<lparr>cn_acktr := acktr\<rparr> in
        rbind (ngtcp2_rtb_recv_ack (rtb_on_acked conn) (cn_rtb conn) fr unprotected (Some conn)) (\<lambda>(rtb, oconn, rv).
        case oconn of None \<Rightarrow> Fault | Some conn \<Rightarrow> Ok (conn\<lparr>cn_rtb := rtb\<rparr>, rv))))"

end
