(* ===== verification/Conn_Recv.thy ===== *)
theory Conn_Recv
  imports Conn_Streams
begin

text \<open>
  The receipt of packets, \<^verbatim>\<open>lib/ngtcp2_conn.c\<close>: decryption, the loops over the frames of a packet, the handlers of
  protected packets, of handshake packets, and of handshake packets after the handshake, Version
  Negotiation, Stateless Reset and Retry, and the entry point \<open>ngtcp2_conn_recv\<close>. The decryption is a callback of
  the application. The debugging output of \<open>conn_recv_handshake_pkt\<close>, which prints twenty bytes of
  the payload and the elapsed time, is left out.
\<close>

section \<open>Decryption\<close>

text \<open>The doubling of the capacity; it starts from a positive value.\<close>

function grow_len :: "nat \<Rightarrow> nat \<Rightarrow> nat" where
  "grow_len len n = (if 0 < len \<and> len < n then grow_len (len * 2) n else len)"
  by auto
termination by (relation "measure (\<lambda>(len, n). n - len)") auto

declare grow_len.simps [simp del]

definition conn_ensure_decrypt_buffer :: "'a ngtcp2_conn \<Rightarrow> nat \<Rightarrow> 'a step" where
  "conn_ensure_decrypt_buffer conn n =
     (if cn_decrypt_buf_len conn \<ge> n then done0 conn
      else
        let len = grow_len (if cn_decrypt_buf_len conn = 0 then 2048 else cn_decrypt_buf_len conn * 2) n;
            (ok, mem) = ngtcp2_mem_realloc (cn_mem conn); conn = conn\<lparr>cn_mem := mem\<rparr>
        in if \<not> ok then fails conn NGTCP2_ERR_NOMEM else done0 (conn\<lparr>cn_decrypt_buf_len := len\<rparr>))"

text \<open>The missing key is a null pointer that the C function dereferences.\<close>

definition conn_decrypt_pkt :: "'a ngtcp2_conn \<Rightarrow> nat \<Rightarrow> bytes \<Rightarrow> bytes \<Rightarrow> u64 \<Rightarrow> ngtcp2_crypto_km option \<Rightarrow> 'a ngtcp2_decrypt
    \<Rightarrow> ('a ngtcp2_conn \<times> (ngtcp2_lib_error + bytes)) result" where
  "conn_decrypt_pkt conn destlen payload ad pkt_num ckm decrypt =
     (case ckm of None \<Rightarrow> Fault
      | Some km \<Rightarrow>
          c_assert (length (km_iv km) \<le> 64)
            (rbind (ngtcp2_crypto_create_nonce (km_iv km) pkt_num) (\<lambda>nonce.
              let (a, r) = decrypt destlen payload (km_key km) nonce ad (cn_app conn); conn = conn\<lparr>cn_app := a\<rparr> in
              Ok (conn, case r of Inl e \<Rightarrow> Inl (if e = NGTCP2_ERR_TLS_DECRYPT then e else NGTCP2_ERR_CALLBACK_FAILURE) | Inr pt \<Rightarrow> Inr pt))))"

text \<open>The payload is decrypted into the buffer of the connection, from which the plaintext is read.\<close>

definition decrypt_payload :: "'a ngtcp2_conn \<Rightarrow> bytes \<Rightarrow> bytes \<Rightarrow> u64 \<Rightarrow> ngtcp2_crypto_km option \<Rightarrow> 'a ngtcp2_decrypt
    \<Rightarrow> ('a ngtcp2_conn \<Rightarrow> ngtcp2_lib_error \<Rightarrow> 'a step) \<Rightarrow> ('a ngtcp2_conn \<Rightarrow> bytes \<Rightarrow> 'a step) \<Rightarrow> 'a step" where
  "decrypt_payload conn payload ad pkt_num ckm decrypt bad good =
     then_ok (conn_ensure_decrypt_buffer conn (length payload)) (\<lambda>conn.
     rbind (conn_decrypt_pkt conn (length payload) payload ad pkt_num ckm decrypt) (\<lambda>(conn, r).
       case r of Inl e \<Rightarrow> bad conn e | Inr pt \<Rightarrow> c_assert (length pt \<le> cn_decrypt_buf_len conn) (good conn pt)))"

section \<open>The frames of a packet\<close>

text \<open>
  The loop over the frames of a payload with a handler and its state. A frame of length 0 would make it
  run forever, which is \<open>Fault\<close>.
\<close>

function frames_loop :: "(ngtcp2_frame \<Rightarrow> 's \<Rightarrow> ('s \<times> rc) result) \<Rightarrow> bytes \<Rightarrow> 's \<Rightarrow> ('s \<times> rc) result" where
  "frames_loop handle payload s =
     (if payload = [] then Ok (s, None)
      else case ngtcp2_pkt_decode_frame payload of
          Ok (Some fr, nread) \<Rightarrow>
            if nread = 0 then Fault
            else rbind (handle fr s) (\<lambda>(s, rv). case rv of Some e \<Rightarrow> Ok (s, Some e) | None \<Rightarrow> frames_loop handle (drop nread payload) s)
        | Ok (None, nread) \<Rightarrow> Fault
        | Err e \<Rightarrow> Ok (s, Some e)
        | Fault \<Rightarrow> Fault)"
  by pat_completeness auto
termination by (relation "measure (\<lambda>(h, payload, s). length payload)") auto

declare frames_loop.simps [simp del]

text \<open>A step of the connection that also yields a flag of the loop.\<close>

definition with_flag :: "'f \<Rightarrow> 'a step \<Rightarrow> (('a ngtcp2_conn \<times> 'f) \<times> rc) result" where
  "with_flag flag m = rbind m (\<lambda>(conn, rv). Ok ((conn, flag), rv))"

text \<open>The second \<open>switch\<close> of \<open>conn_recv_pkt\<close>.\<close>

definition conn_recv_frame :: "'a ngtcp2_conn \<Rightarrow> ngtcp2_pkt_hd \<Rightarrow> ngtcp2_frame \<Rightarrow> 'a step" where
  "conn_recv_frame conn hdr fr =
     (case fr of
        FR_ACK ack \<Rightarrow> conn_recv_ack conn ack 0
      | FR_STREAM st \<Rightarrow>
          if st_stream_id st = 0 \<and> hd_flags hdr AND NGTCP2_PKT_FLAG_LONG_FORM \<noteq> 0 then fails conn NGTCP2_ERR_PROTO
          else conn_recv_stream conn st
      | FR_RST_STREAM rst \<Rightarrow> conn_recv_rst_stream conn rst
      | FR_STOP_SENDING ss \<Rightarrow> conn_recv_stop_sending conn ss
      | FR_MAX_STREAM_DATA msd \<Rightarrow> conn_recv_max_stream_data conn msd
      | FR_MAX_DATA m \<Rightarrow> done0 (conn_recv_max_data conn m)
      | FR_MAX_STREAM_ID m \<Rightarrow> Ok (conn_recv_max_stream_id conn m)
      | FR_PING data \<Rightarrow> Ok (conn_recv_ping conn data)
      | FR_PONG data \<Rightarrow> Ok (conn_recv_pong conn data)
      | FR_CONNECTION_CLOSE c \<Rightarrow> done0 (conn_recv_connection_close conn)
      | FR_APPLICATION_CLOSE c \<Rightarrow> done0 (conn_recv_connection_close conn)
      | _ \<Rightarrow> done0 conn)"

definition requires_ack :: "ngtcp2_frame \<Rightarrow> bool" where
  "requires_ack fr = (case fr of FR_ACK _ \<Rightarrow> False | FR_PADDING _ \<Rightarrow> False | FR_CONNECTION_CLOSE _ \<Rightarrow> False | _ \<Rightarrow> True)"

definition recv_pkt_frame :: "ngtcp2_pkt_hd \<Rightarrow> ngtcp2_frame \<Rightarrow> 'a ngtcp2_conn \<times> bool \<Rightarrow> (('a ngtcp2_conn \<times> bool) \<times> rc) result" where
  "recv_pkt_frame hdr fr = (\<lambda>(conn, require_ack).
     with_flag (require_ack \<or> requires_ack fr)
       (then_ok (Ok (conn_call_recv_frame conn hdr fr)) (\<lambda>conn. conn_recv_frame conn hdr fr)))"

section \<open>Stateless Reset and Version Negotiation\<close>

definition conn_on_stateless_reset :: "'a ngtcp2_conn \<Rightarrow> ngtcp2_pkt_hd \<Rightarrow> bytes \<Rightarrow> 'a step" where
  "conn_on_stateless_reset conn hdr payload =
     (case ngtcp2_pkt_decode_stateless_reset payload of
        Fault \<Rightarrow> Fault
      | Err e \<Rightarrow> fails conn e
      | Ok sr \<Rightarrow>
          let token = (if cn_server conn then se_stateless_reset_token (cn_local_settings conn)
                       else se_stateless_reset_token (cn_remote_settings conn)) in
          if take NGTCP2_STATELESS_RESET_TOKENLEN token \<noteq> take NGTCP2_STATELESS_RESET_TOKENLEN (sr_token sr)
          then fails conn NGTCP2_ERR_INVALID_ARGUMENT
          else
            let conn = conn\<lparr>cn_state := NGTCP2_CS_DRAINING\<rparr> in
            Ok (call_cb (map_option (\<lambda>f. f hdr sr) (cb_recv_stateless_reset (cn_callbacks conn))) conn))"

text \<open>
  The callback is given the local array of 16 versions, whatever buffer the versions were decoded to,
  and their number; the application reads that many elements.
\<close>

definition conn_on_version_negotiation :: "'a ngtcp2_conn \<Rightarrow> ngtcp2_pkt_hd \<Rightarrow> bytes \<Rightarrow> 'a step" where
  "conn_on_version_negotiation conn hdr payload =
     (if length payload mod 4 \<noteq> 0 then fails conn NGTCP2_ERR_PROTO
      else case cb_recv_version_negotiation (cn_callbacks conn) of None \<Rightarrow> done0 conn
      | Some f \<Rightarrow>
          let big = length payload > 64;
              (ok, mem) = (if big then ngtcp2_mem_malloc (cn_mem conn) else (True, cn_mem conn));
              conn = conn\<lparr>cn_mem := mem\<rparr>
          in if \<not> ok then fails conn NGTCP2_ERR_NOMEM
          else
            rbind (ngtcp2_pkt_decode_version_negotiation payload) (\<lambda>(versions, nsv).
            c_assert (\<not> big \<and> nsv \<le> 16) (Ok (call_cb (Some (f hdr versions)) conn))))"

section \<open>Protected packets\<close>

text \<open>
  \<open>conn_recv_delayed_handshake_pkt\<close> decodes into a variable of type \<open>ngtcp2_frame\<close>, which has room for one
  ACK block; writing a second one is out of bounds.
\<close>

definition fits_frame :: "ngtcp2_frame \<Rightarrow> bool" where
  "fits_frame fr = (case fr of FR_ACK ack \<Rightarrow> length (ack_blks ack) \<le> 1 | _ \<Rightarrow> True)"

definition delayed_handshake_frame :: "ngtcp2_pkt_hd \<Rightarrow> ngtcp2_frame \<Rightarrow> 'a ngtcp2_conn \<times> bool \<Rightarrow> (('a ngtcp2_conn \<times> bool) \<times> rc) result" where
  "delayed_handshake_frame hdr fr = (\<lambda>(conn, require_ack).
     c_assert (fits_frame fr)
       (with_flag (require_ack \<or> (case fr of FR_STREAM _ \<Rightarrow> True | _ \<Rightarrow> False))
         (then_ok (Ok (conn_call_recv_frame conn hdr fr)) (\<lambda>conn.
           case fr of
             FR_ACK ack \<Rightarrow> if hd_type hdr = NGTCP2_PKT_INITIAL then fails conn NGTCP2_ERR_PROTO else conn_recv_ack conn ack 1
           | FR_PADDING _ \<Rightarrow> done0 conn
           | FR_STREAM st \<Rightarrow> conn_recv_stream conn st
           | _ \<Rightarrow> fails conn NGTCP2_ERR_PROTO))))"

text \<open>What follows the loop: the packet is recorded, and its acknowledgement is scheduled.\<close>

definition recv_pkt_done :: "ngtcp2_pkt_hd \<Rightarrow> u64 \<Rightarrow> u8 \<Rightarrow> ('a ngtcp2_conn \<times> bool) \<times> rc \<Rightarrow> 'a step" where
  "recv_pkt_done hdr ts unprotected = (\<lambda>((conn, require_ack), rv).
     if rv \<noteq> None then Ok (conn, rv)
     else ngtcp2_conn_sched_ack (conn\<lparr>cn_max_rx_pkt_num := ngtcp2_max (cn_max_rx_pkt_num conn) (hd_pkt_num hdr)\<rparr>)
            (hd_pkt_num hdr) require_ack ts unprotected)"

definition conn_recv_delayed_handshake_pkt :: "'a ngtcp2_conn \<Rightarrow> ngtcp2_pkt_hd \<Rightarrow> bytes \<Rightarrow> bytes \<Rightarrow> u64 \<Rightarrow> 'a step" where
  "conn_recv_delayed_handshake_pkt conn hdr payload ad ts =
     (if (if hd_type hdr = NGTCP2_PKT_INITIAL then \<not> cn_server conn \<or> cn_client_conn_id conn \<noteq> hd_conn_id hdr
          else cn_conn_id conn \<noteq> hd_conn_id hdr) then done0 conn
      else
        decrypt_payload conn payload ad (hd_pkt_num hdr) (cn_hs_rx_ckm conn) (cb_hs_decrypt (cn_callbacks conn)) fails (\<lambda>conn payload.
          rbind (frames_loop (delayed_handshake_frame hdr) payload (conn, False)) (recv_pkt_done hdr ts 1)))"

text \<open>Decoding the header of a packet, up to the number of the packet.\<close>

definition protected_payload :: "'a ngtcp2_conn \<Rightarrow> ngtcp2_pkt_hd \<Rightarrow> bytes \<Rightarrow> bytes \<Rightarrow> ngtcp2_crypto_km option \<Rightarrow> u64 \<Rightarrow> 'a step" where
  "protected_payload conn hdr payload ad ckm ts =
     (let long = hd_flags hdr AND NGTCP2_PKT_FLAG_LONG_FORM \<noteq> 0 in
      decrypt_payload conn payload ad (hd_pkt_num hdr) ckm (cb_decrypt (cn_callbacks conn))
        (\<lambda>conn e.
          if e \<noteq> NGTCP2_ERR_TLS_DECRYPT \<or> long then fails conn e
          else rbind (conn_on_stateless_reset conn hdr payload) (\<lambda>(conn, rv). Ok (conn, if rv = None then None else Some e)))
        (\<lambda>conn pt.
          let conn = (if long then conn else conn\<lparr>cn_flags := cn_flags conn OR NGTCP2_CONN_FLAG_RECV_PROTECTED_PKT\<rparr>) in
          if \<not> long \<and> hd_flags hdr AND NGTCP2_PKT_FLAG_OMIT_CONN_ID = 0 \<and> cn_conn_id conn \<noteq> hd_conn_id hdr then done0 conn
          else rbind (frames_loop (recv_pkt_frame hdr) pt (conn, False)) (recv_pkt_done hdr ts 0)))"

definition conn_recv_pkt_body :: "'a ngtcp2_conn \<Rightarrow> bytes \<Rightarrow> u64 \<Rightarrow> ngtcp2_pkt_hd \<Rightarrow> nat \<Rightarrow> 'a step" where
  "conn_recv_pkt_body conn pkt ts hdr nread =
     (let ad = take nread pkt; payload = drop nread pkt; long = hd_flags hdr AND NGTCP2_PKT_FLAG_LONG_FORM \<noteq> 0 in
      c_assert (long \<or> hd_type hdr \<in> {NGTCP2_PKT_01, NGTCP2_PKT_02, NGTCP2_PKT_03})
        (let hdr = hdr\<lparr>hd_pkt_num := ngtcp2_pkt_adjust_pkt_num (cn_max_rx_pkt_num conn) (hd_pkt_num hdr)
               (if long then 32 else hd_num_bits (hd_type hdr))\<rparr> in
         then_ok (Ok (conn_call_recv_pkt conn hdr)) (\<lambda>conn.
         if \<not> long then protected_payload conn hdr payload ad (cn_rx_ckm conn) ts
         else if hd_type hdr = NGTCP2_PKT_INITIAL \<or> hd_type hdr = NGTCP2_PKT_HANDSHAKE
         then conn_recv_delayed_handshake_pkt conn hdr payload ad ts
         else if hd_type hdr = NGTCP2_PKT_0RTT_PROTECTED then
           if \<not> cn_server conn \<or> cn_client_conn_id conn \<noteq> hd_conn_id hdr \<or> cn_version conn \<noteq> hd_version hdr \<or> cn_early_ckm conn = None
           then done0 conn
           else protected_payload conn hdr payload ad (cn_early_ckm conn) ts
         else done0 conn)))"

definition conn_recv_pkt :: "'a ngtcp2_conn \<Rightarrow> bytes \<Rightarrow> u64 \<Rightarrow> 'a step" where
  "conn_recv_pkt conn pkt ts =
     rbind (rd_u8 pkt 0) (\<lambda>b.
     if b AND NGTCP2_HEADER_FORM_BIT \<noteq> 0 then
       (case ngtcp2_pkt_decode_hd_long pkt of Fault \<Rightarrow> Fault | Err e \<Rightarrow> fails conn e
        | Ok (hdr, nread) \<Rightarrow>
            if hd_version hdr = 0 then
              if cn_server conn \<or> cn_client_conn_id conn \<noteq> hd_conn_id hdr then done0 conn
              else Ok (conn_call_recv_pkt conn (hdr\<lparr>hd_type := NGTCP2_PKT_VERSION_NEGOTIATION, hd_pkt_num := 0\<rparr>))
            else if cn_version conn \<noteq> hd_version hdr then done0 conn
            else conn_recv_pkt_body conn pkt ts hdr nread)
     else
       (case ngtcp2_pkt_decode_hd_short pkt of Fault \<Rightarrow> Fault | Err e \<Rightarrow> fails conn e
        | Ok (hdr, nread) \<Rightarrow>
            if se_omit_connection_id (cn_local_settings conn) = 0 \<and> hd_flags hdr AND NGTCP2_PKT_FLAG_OMIT_CONN_ID \<noteq> 0
            then fails conn NGTCP2_ERR_PROTO
            else conn_recv_pkt_body conn pkt ts hdr nread))"

section \<open>Handshake packets\<close>

text \<open>
  The new stream 0 replaces the old one, which is freed; the list of windows must not hold it. The results
  of the allocations that follow are not looked at: an ACK tracker that could not be initialised is
  left with freed memory, and an identifier that could not be inserted is missing from the hash table.
\<close>

definition conn_recv_server_stateless_retry :: "(nat \<Rightarrow> nat) \<Rightarrow> 'a ngtcp2_conn \<Rightarrow> 'a step" where
  "conn_recv_server_stateless_retry index conn =
     (let conn = conn\<lparr>cn_flags := cn_flags conn OR NGTCP2_CONN_FLAG_STATELESS_RETRY\<rparr> in
      then_ok (Ok (call_cb (cb_recv_server_stateless_retry (cn_callbacks conn)) conn)) (\<lambda>conn.
      case mbind (malloc_or_nomem (cn_mem conn)) (\<lambda>_ mem.
          ngtcp2_strm_init 0 NGTCP2_STRM_FLAG_NONE (ucast (se_max_stream_data (cn_local_settings conn))) NGTCP2_STRM0_MAX_STREAM_DATA 0 mem) of
        (Fault, mem) \<Rightarrow> Fault
      | (Err e, mem) \<Rightarrow> fails (conn\<lparr>cn_mem := mem\<rparr>) e
      | (Ok strm0, mem) \<Rightarrow>
          rbind (ngtcp2_map_remove (cn_strms conn) 0) (\<lambda>(strms, rv).
          c_assert (0 \<notin> set (cn_fc_strms conn))
          (case ngtcp2_acktr_init mem of
            (Fault, mem) \<Rightarrow> Fault
          | (Err e, mem) \<Rightarrow> Fault
          | (Ok acktr, mem) \<Rightarrow>
              rbind (ngtcp2_map_insert strms (ngtcp2_map_entry_init 0 ()) [] mem) (\<lambda>(strms, mem, rv).
              done0 (conn\<lparr>cn_mem := mem, cn_last_tx_pkt_num := 0, cn_max_rx_pkt_num := 0, cn_strms := strms,
                cn_strm := (cn_strm conn)(0 := strm0), cn_acktr := acktr, cn_rtb := ngtcp2_rtb_init index (rtb_store (cn_rtb conn)),
                cn_flags := cn_flags conn AND NOT NGTCP2_CONN_FLAG_CONN_ID_NEGOTIATED, cn_state := NGTCP2_CS_CLIENT_INITIAL\<rparr>))))))"

text \<open>
  STREAM frames of handshake packets; the flag says that the handshake failed. After a failure the frames
  still have to be well-formed, but buffered data is not delivered.
\<close>

definition handshake_stream :: "ngtcp2_pkt_hd \<Rightarrow> ngtcp2_stream \<Rightarrow> 'a ngtcp2_conn \<Rightarrow> bool \<Rightarrow> (('a ngtcp2_conn \<times> bool) \<times> rc) result" where
  "handshake_stream hdr st conn failed =
     (if st_stream_id st \<noteq> 0 then Ok ((conn, failed), None)
      else if st_data st = [] then Ok ((conn, failed), Some NGTCP2_ERR_FRAME_FORMAT)
      else if hd_type hdr = NGTCP2_PKT_INITIAL \<and> st_offset st \<noteq> 0 \<or> st_fin st then Ok ((conn, failed), Some NGTCP2_ERR_PROTO)
      else
        let fr_end_offset = st_offset st + of_nat (length (st_data st)); rx_offset = ngtcp2_strm_rx_offset (cn_strm conn 0) in
        if rx_offset \<ge> fr_end_offset then Ok ((conn, failed), None)
        else
          let conn = upd_strm conn 0 (\<lambda>strm. strm\<lparr>sm_last_rx_offset := ngtcp2_max (sm_last_rx_offset strm) fr_end_offset\<rparr>) in
          if sm_max_rx_offset (cn_strm conn 0) < fr_end_offset then Ok ((conn, failed), Some NGTCP2_ERR_FLOW_CONTROL)
          else if st_offset st \<le> rx_offset then
            let ncut = rx_offset - st_offset st; data = drop (unat ncut) (st_data st); datalen = of_nat (length (st_data st)) - ncut;
                rx_offset = rx_offset + datalen;
                conn = upd_strm conn 0 (\<lambda>strm. strm\<lparr>sm_rob := ngtcp2_rob_remove_prefix (sm_rob strm) rx_offset\<rparr>);
                (conn, rv) = conn_call_recv_stream0_data conn data
            in if rv \<notin> {None, Some NGTCP2_ERR_TLS_HANDSHAKE} then Ok ((conn, failed), rv)
            else
              let failed = (failed \<or> rv \<noteq> None);
                  conn = upd_strm conn 0 (\<lambda>strm. strm\<lparr>sm_unsent_max_rx_offset := sm_unsent_max_rx_offset strm + datalen\<rparr>)
              in if failed then Ok ((conn, failed), None) else with_flag failed (conn_emit_pending_stream0_data conn rx_offset)
          else if \<not> failed then
            rbind (ngtcp2_strm_recv_reordering (cn_strm conn 0) st (cn_mem conn)) (\<lambda>(strm, mem, rv).
              Ok (((upd_strm conn 0 (\<lambda>_. strm))\<lparr>cn_mem := mem\<rparr>, failed), rv))
          else Ok ((conn, failed), None))"

definition handshake_frame :: "ngtcp2_pkt_hd \<Rightarrow> ngtcp2_frame \<Rightarrow> 'a ngtcp2_conn \<times> bool \<times> bool
    \<Rightarrow> (('a ngtcp2_conn \<times> bool \<times> bool) \<times> rc) result" where
  "handshake_frame hdr fr = (\<lambda>(conn, require_ack, failed).
     let (conn, rv) = conn_call_recv_frame conn hdr fr in
     if rv \<noteq> None then Ok ((conn, require_ack, failed), rv)
     else case fr of
         FR_ACK ack \<Rightarrow>
           if hd_type hdr = NGTCP2_PKT_INITIAL \<or> hd_type hdr = NGTCP2_PKT_RETRY then Ok ((conn, require_ack, failed), Some NGTCP2_ERR_PROTO)
           else with_flag (require_ack, failed) (conn_recv_ack conn ack 1)
       | FR_PADDING _ \<Rightarrow> Ok ((conn, require_ack, failed), if hd_type hdr = NGTCP2_PKT_RETRY then Some NGTCP2_ERR_PROTO else None)
       | FR_STREAM st \<Rightarrow> rbind (handshake_stream hdr st conn failed) (\<lambda>((conn, failed), rv). Ok ((conn, True, failed), rv))
       | FR_CONNECTION_CLOSE _ \<Rightarrow>
           if hd_type hdr = NGTCP2_PKT_HANDSHAKE then Ok ((conn_recv_connection_close conn, True, failed), None)
           else Ok ((conn, require_ack, failed), Some NGTCP2_ERR_PROTO)
       | _ \<Rightarrow> Ok ((conn, require_ack, failed), Some NGTCP2_ERR_PROTO))"

text \<open>What follows the loop.\<close>

definition handshake_done :: "(nat \<Rightarrow> nat) \<Rightarrow> ngtcp2_pkt_hd \<Rightarrow> u64 \<Rightarrow> ('a ngtcp2_conn \<times> bool \<times> bool) \<times> rc \<Rightarrow> 'a step" where
  "handshake_done index hdr ts = (\<lambda>((conn, require_ack, failed), rv).
     if rv \<noteq> None then Ok (conn, rv)
     else if (hd_type hdr = NGTCP2_PKT_INITIAL \<or> hd_type hdr = NGTCP2_PKT_RETRY) \<and> ngtcp2_rob_first_gap_offset (sm_rob (cn_strm conn 0)) = 0
     then fails conn NGTCP2_ERR_PROTO
     else
       let conn = conn\<lparr>cn_max_rx_pkt_num := ngtcp2_max (cn_max_rx_pkt_num conn) (hd_pkt_num hdr)\<rparr> in
       if hd_type hdr = NGTCP2_PKT_RETRY then
         if failed then fails conn NGTCP2_ERR_PROTO else conn_recv_server_stateless_retry index conn
       else then_ok (ngtcp2_conn_sched_ack conn (hd_pkt_num hdr) require_ack ts 1) (\<lambda>conn.
         Ok (conn, if failed then Some NGTCP2_ERR_TLS_HANDSHAKE else None)))"

text \<open>
  The checks on the type of the packet: what ends the processing, with the value that is returned, or the
  connection with which it goes on.
\<close>

definition handshake_type :: "'a ngtcp2_conn \<Rightarrow> bytes \<Rightarrow> u64 \<Rightarrow> ngtcp2_pkt_hd \<Rightarrow> bytes \<Rightarrow> ('a ngtcp2_conn \<Rightarrow> 'a step) \<Rightarrow> 'a step" where
  "handshake_type conn pkt ts hdr payload k =
     (if cn_server conn then
        if hd_type hdr = NGTCP2_PKT_INITIAL then
          if cn_flags conn AND NGTCP2_CONN_FLAG_CONN_ID_NEGOTIATED = 0 then
            then_ok (conn_call_recv_client_initial
              (conn\<lparr>cn_flags := cn_flags conn OR NGTCP2_CONN_FLAG_CONN_ID_NEGOTIATED, cn_client_conn_id := hd_conn_id hdr\<rparr>)) k
          else k conn
        else if hd_type hdr = NGTCP2_PKT_HANDSHAKE then
          if cn_conn_id conn \<noteq> hd_conn_id hdr then done0 conn else k conn
        else if hd_type hdr = NGTCP2_PKT_0RTT_PROTECTED then
          if cn_flags conn AND NGTCP2_CONN_FLAG_CONN_ID_NEGOTIATED = 0 then Ok (conn_buffer_protected_pkt conn pkt ts)
          else done0 conn
        else fails conn NGTCP2_ERR_PROTO
      else
        if hd_type hdr = NGTCP2_PKT_HANDSHAKE then
          if cn_flags conn AND NGTCP2_CONN_FLAG_CONN_ID_NEGOTIATED \<noteq> 0 then
            if cn_conn_id conn \<noteq> hd_conn_id hdr then done0 conn else k conn
          else k (conn\<lparr>cn_flags := cn_flags conn OR NGTCP2_CONN_FLAG_CONN_ID_NEGOTIATED, cn_conn_id := hd_conn_id hdr\<rparr>)
        else if hd_type hdr = NGTCP2_PKT_RETRY then
          if sm_last_rx_offset (cn_strm conn 0) \<noteq> 0 then fails conn NGTCP2_ERR_PROTO
          else if cn_conn_id conn \<noteq> hd_conn_id hdr then done0 conn
          else k conn
        else if hd_type hdr = NGTCP2_PKT_VERSION_NEGOTIATION then
          if cn_client_conn_id conn \<noteq> hd_conn_id hdr then done0 conn
          else then_ok (conn_on_version_negotiation conn hdr payload) (\<lambda>conn. fails conn NGTCP2_ERR_VERSION_NEGOTIATION)
        else fails conn NGTCP2_ERR_PROTO)"

definition conn_recv_handshake_pkt :: "(nat \<Rightarrow> nat) \<Rightarrow> 'a ngtcp2_conn \<Rightarrow> bytes \<Rightarrow> u64 \<Rightarrow> 'a step" where
  "conn_recv_handshake_pkt index conn pkt ts =
     rbind (rd_u8 pkt 0) (\<lambda>b.
     if b AND NGTCP2_HEADER_FORM_BIT = 0 then
       if cn_state conn = NGTCP2_CS_SERVER_INITIAL then done0 conn else Ok (conn_buffer_protected_pkt conn pkt ts)
     else case ngtcp2_pkt_decode_hd_long pkt of Fault \<Rightarrow> Fault | Err e \<Rightarrow> fails conn e
     | Ok (hdr, nread) \<Rightarrow>
         if cn_server conn \<and> cn_early_ckm conn \<noteq> None \<and> cn_client_conn_id conn = hd_conn_id hdr \<and> hd_type hdr = NGTCP2_PKT_0RTT_PROTECTED
         then conn_recv_pkt conn pkt ts
         else if hd_version hdr \<noteq> 0 \<and> cn_version conn \<noteq> hd_version hdr then done0 conn
         else
           let hdpktlen = (if hd_version hdr = 0 then nread - 4 else nread);
               hdr = (if hd_version hdr = 0 then hdr\<lparr>hd_type := NGTCP2_PKT_VERSION_NEGOTIATION, hd_pkt_num := 0\<rparr>
                      else hdr\<lparr>hd_pkt_num := ngtcp2_pkt_adjust_pkt_num (cn_max_rx_pkt_num conn) (hd_pkt_num hdr) 32\<rparr>);
               payload = drop hdpktlen pkt
           in then_ok (Ok (conn_call_recv_pkt conn hdr)) (\<lambda>conn.
              handshake_type conn pkt ts hdr payload (\<lambda>conn.
              decrypt_payload conn payload (take hdpktlen pkt) (hd_pkt_num hdr) (cn_hs_rx_ckm conn) (cb_hs_decrypt (cn_callbacks conn)) fails
                (\<lambda>conn pt. rbind (frames_loop (handshake_frame hdr) pt (conn, False, False)) (handshake_done index hdr ts)))))"

section \<open>The entry point\<close>

text \<open>The packets that were kept; they are discarded when all have been processed.\<close>

fun process_pkts :: "('a ngtcp2_conn \<Rightarrow> bytes \<Rightarrow> 'a step) \<Rightarrow> (bytes \<times> u64) list \<Rightarrow> 'a ngtcp2_conn \<Rightarrow> 'a step" where
  "process_pkts recv [] conn = done0 conn"
| "process_pkts recv ((pkt, _) # pkts) conn = then_ok (recv conn pkt) (process_pkts recv pkts)"

definition conn_process_buffered_protected_pkt :: "'a ngtcp2_conn \<Rightarrow> u64 \<Rightarrow> 'a step" where
  "conn_process_buffered_protected_pkt conn ts =
     then_ok (process_pkts (\<lambda>conn pkt. conn_recv_pkt conn pkt ts) (cn_buffed_rx_ppkts conn) conn)
       (\<lambda>conn. done0 (conn\<lparr>cn_buffed_rx_ppkts := []\<rparr>))"

definition conn_process_buffered_0rtt_pkt :: "(nat \<Rightarrow> nat) \<Rightarrow> 'a ngtcp2_conn \<Rightarrow> u64 \<Rightarrow> 'a step" where
  "conn_process_buffered_0rtt_pkt index conn ts =
     then_ok (process_pkts (\<lambda>conn pkt. conn_recv_handshake_pkt index conn pkt ts) (cn_buffed_rx_ppkts conn) conn)
       (\<lambda>conn. done0 (conn\<lparr>cn_buffed_rx_ppkts := []\<rparr>))"

text \<open>A failed TLS handshake is an error of the state, and not of the call.\<close>

definition recv_handshake_step :: "(nat \<Rightarrow> nat) \<Rightarrow> ngtcp2_conn_state \<Rightarrow> 'a ngtcp2_conn \<Rightarrow> bytes \<Rightarrow> u64 \<Rightarrow> ('a ngtcp2_conn \<Rightarrow> 'a step) \<Rightarrow> 'a step" where
  "recv_handshake_step index failed conn pkt ts k =
     rbind (conn_recv_handshake_pkt index conn pkt ts) (\<lambda>(conn, rv).
       case rv of
         Some e \<Rightarrow> if e = NGTCP2_ERR_TLS_HANDSHAKE then done0 (conn\<lparr>cn_state := failed\<rparr>) else fails conn e
       | None \<Rightarrow> k conn)"

definition ngtcp2_conn_recv :: "(nat \<Rightarrow> nat) \<Rightarrow> 'a ngtcp2_conn \<Rightarrow> bytes \<Rightarrow> u64 \<Rightarrow> 'a step" where
  "ngtcp2_conn_recv index conn pkt ts =
     (if pkt = [] then fails conn NGTCP2_ERR_INVALID_ARGUMENT
      else if cn_state conn = NGTCP2_CS_CLIENT_WAIT_HANDSHAKE then
        recv_handshake_step index NGTCP2_CS_CLIENT_TLS_HANDSHAKE_FAILED conn pkt ts (\<lambda>conn.
          if cn_flags conn AND NGTCP2_CONN_FLAG_HANDSHAKE_COMPLETED = 0 then done0 conn
          else then_ok (conn_handshake_completed conn) (\<lambda>conn.
            conn_process_buffered_protected_pkt (conn\<lparr>cn_state := NGTCP2_CS_CLIENT_HANDSHAKE_ALMOST_FINISHED\<rparr>) ts))
      else if cn_state conn \<in> {NGTCP2_CS_SERVER_INITIAL, NGTCP2_CS_SERVER_WAIT_HANDSHAKE} then
        recv_handshake_step index NGTCP2_CS_SERVER_TLS_HANDSHAKE_FAILED conn pkt ts (\<lambda>conn.
          if cn_state conn = NGTCP2_CS_SERVER_INITIAL \<and> cn_flags conn AND NGTCP2_CONN_FLAG_CONN_ID_NEGOTIATED \<noteq> 0
          then conn_process_buffered_0rtt_pkt index conn ts
          else if cn_flags conn AND NGTCP2_CONN_FLAG_HANDSHAKE_COMPLETED = 0 then done0 conn
          else then_ok (conn_handshake_completed conn) (\<lambda>conn.
            let conn = conn\<lparr>cn_state := NGTCP2_CS_POST_HANDSHAKE\<rparr> in
            if cn_flags conn AND NGTCP2_CONN_FLAG_TRANSPORT_PARAM_RECVED = 0 then fails conn NGTCP2_ERR_REQUIRED_TRANSPORT_PARAM
            else conn_process_buffered_protected_pkt conn ts))
      else if cn_state conn \<in> {NGTCP2_CS_CLIENT_TLS_HANDSHAKE_FAILED, NGTCP2_CS_SERVER_TLS_HANDSHAKE_FAILED} then
        conn_recv_handshake_pkt index conn pkt ts
      else if cn_state conn \<in> {NGTCP2_CS_CLIENT_HANDSHAKE_ALMOST_FINISHED, NGTCP2_CS_POST_HANDSHAKE} then
        conn_recv_pkt conn pkt ts
      else done0 conn)"

text \<open>
  A function of this fork: it decrypts a packet and prints the plaintext. None of the results is
  looked at, so a header that does not decode is read uninitialised, and a negative result of the
  decryption is taken for a length.
\<close>

definition ngtcp2_conn_get_domain_name :: "'a ngtcp2_conn \<Rightarrow> bytes \<Rightarrow> 'a step" where
  "ngtcp2_conn_get_domain_name conn data =
     (case ngtcp2_pkt_decode_hd_long data of Fault \<Rightarrow> Fault | Err e \<Rightarrow> Fault
      | Ok (hdr, nread) \<Rightarrow>
          let pkt_num = ngtcp2_pkt_adjust_pkt_num (cn_max_rx_pkt_num conn) (hd_pkt_num hdr) 32; payload = drop 17 data in
          rbind (conn_call_recv_client_initial conn) (\<lambda>(conn, rv).
          rbind (conn_ensure_decrypt_buffer conn (length payload)) (\<lambda>(conn, rv).
          rbind (conn_decrypt_pkt conn (length payload) payload (take 17 data) pkt_num (cn_hs_rx_ckm conn) (cb_hs_decrypt (cn_callbacks conn))) (\<lambda>(conn, r).
          case r of Inl e \<Rightarrow> Fault | Inr pt \<Rightarrow> c_assert (length pt \<le> cn_decrypt_buf_len conn) (done0 conn)))))"

end
