(* ===== verification/Conn_Write.thy ===== *)
theory Conn_Write
  imports Conn_Recv Err
begin

text \<open>
  \<^verbatim>\<open>lib/ngtcp2_conn.c\<close>: the writers of packets. ACK frames are made from the tracker of received packets;
  the frames of a packet are encoded one after the other; lost packets are retransmitted; handshake
  packets carry the data that a callback made, protected packets the queue of frames; streams are
  written by the application. An entry of the retransmission buffer that the code has removed is passed on by its contents.
\<close>

section \<open>Results of a writer\<close>

text \<open>
  A writer returns the length of the packet that it wrote to the destination, or a negative error code; the
  model returns the packet, and \<open>Inr []\<close> stands for 0. The state \<open>'s\<close> is the connection, with whatever
  else is changed.
\<close>

type_synonym 's written = "('s \<times> (ngtcp2_lib_error + bytes)) result"

abbreviation writes :: "'s \<Rightarrow> bytes \<Rightarrow> 's written" where "writes s pkt \<equiv> Ok (s, Inr pkt)"
abbreviation refuses :: "'s \<Rightarrow> ngtcp2_lib_error \<Rightarrow> 's written" where "refuses s e \<equiv> Ok (s, Inl e)"

text \<open>Going on after a step that returned 0, or with the value of a function that can fail.\<close>

definition then_write :: "'a step \<Rightarrow> ('a ngtcp2_conn \<Rightarrow> 'a ngtcp2_conn written) \<Rightarrow> 'a ngtcp2_conn written" where
  "then_write m k = rbind m (\<lambda>(conn, rv). case rv of Some e \<Rightarrow> refuses conn e | None \<Rightarrow> k conn)"

definition on_ok :: "'s \<Rightarrow> 'x result \<Rightarrow> ('x \<Rightarrow> 's written) \<Rightarrow> 's written" where
  "on_ok s r k = (case r of Ok x \<Rightarrow> k x | Err e \<Rightarrow> refuses s e | Fault \<Rightarrow> Fault)"

text \<open>An allocation: what follows when it fails, and when it succeeds.\<close>

definition with_malloc :: "'a ngtcp2_conn \<Rightarrow> ('a ngtcp2_conn \<Rightarrow> 'r) \<Rightarrow> ('a ngtcp2_conn \<Rightarrow> 'r) \<Rightarrow> 'r" where
  "with_malloc conn failed k = (let (ok, mem) = ngtcp2_mem_malloc (cn_mem conn); conn = conn\<lparr>cn_mem := mem\<rparr> in if ok then k conn else failed conn)"

section \<open>ACK frames\<close>

text \<open>
  The state of the loop that turns packet numbers, the largest first, into ranges. \<open>ab_first_blklen\<close> and
  \<open>ab_gap\<close> are not initialised in the code; they are assigned before they are used.
\<close>

record ack_build =
  ab_first :: u64
  ab_last :: u64
  ab_initial :: bool
  ab_first_blklen :: u64
  ab_gap :: u64
  ab_blks :: "ngtcp2_ack_blk list"
  ab_max :: nat
  ab_mem :: ngtcp2_mem

definition conn_ensure_ack_blks :: "ack_build \<Rightarrow> nat \<Rightarrow> ack_build \<times> rc" where
  "conn_ensure_ack_blks b n =
     (if n \<le> ab_max b then (b, None)
      else let (ok, mem) = ngtcp2_mem_realloc (ab_mem b) in
        (b\<lparr>ab_max := ab_max b * 2, ab_mem := mem\<rparr>, if ok then None else Some NGTCP2_ERR_NOMEM))"

text \<open>The range from \<open>ab_last\<close> to \<open>ab_first\<close> is complete.\<close>

definition ack_close_range :: "ack_build \<Rightarrow> ack_build \<times> rc" where
  "ack_close_range b =
     (let blklen = ab_first b - ab_last b in
      if ab_initial b then (b\<lparr>ab_initial := False, ab_first_blklen := blklen\<rparr>, None)
      else case conn_ensure_ack_blks b (length (ab_blks b) + 1) of
          (b, Some e) \<Rightarrow> (b, Some e)
        | (b, None) \<Rightarrow> (b\<lparr>ab_blks := ab_blks b @ [\<lparr>blk_gap = ab_gap b, blk_blklen = blklen\<rparr>]\<rparr>, None))"

text \<open>The loop returns the entries from \<open>*prpkt\<close> on.\<close>

fun ack_loop :: "bool \<Rightarrow> ngtcp2_acktr_entry list \<Rightarrow> ack_build \<Rightarrow> ack_build \<times> ngtcp2_acktr_entry list \<times> rc" where
  "ack_loop unprotected [] b = (b, [], None)"
| "ack_loop unprotected (e # es) b =
     (if unprotected \<and> ae_unprotected e = 0 then ack_loop unprotected es b
      else if ae_pkt_num e + 1 = ab_last b then ack_loop unprotected es (b\<lparr>ab_last := ae_pkt_num e\<rparr>)
      else case ack_close_range b of
          (b, Some err) \<Rightarrow> (b, e # es, Some err)
        | (b, None) \<Rightarrow>
            let b = b\<lparr>ab_gap := ab_last b - ae_pkt_num e - 2, ab_first := ae_pkt_num e, ab_last := ae_pkt_num e\<rparr> in
            if length (ab_blks b) = NGTCP2_MAX_ACK_BLKS then (b, e # es, None) else ack_loop unprotected es b)"

text \<open>A shift by the width of the type or more is undefined.\<close>

definition conn_create_ack_frame :: "'a ngtcp2_conn \<Rightarrow> u64 \<Rightarrow> bool
    \<Rightarrow> ('a ngtcp2_conn \<times> (ngtcp2_lib_error + ngtcp2_ack option)) result" where
  "conn_create_ack_frame conn ts unprotected =
     (if \<not> at_active_ack (cn_acktr conn) then Ok (conn_invalidate_next_ack_expiry conn, Inr None)
      else case (if unprotected then dropWhile (\<lambda>e. ae_unprotected e = 0) (ngtcp2_acktr_get (cn_acktr conn)) else ngtcp2_acktr_get (cn_acktr conn)) of
          [] \<Rightarrow> Ok (conn_invalidate_next_ack_expiry conn, Inr None)
        | rpkt # rest \<Rightarrow>
            with_malloc conn (\<lambda>conn. Ok (conn, Inl NGTCP2_ERR_NOMEM)) (\<lambda>conn.
            let num = ae_pkt_num rpkt; exponent = unat (se_ack_delay_exponent (cn_local_settings conn)) in
            c_assert (exponent < 64)
              (case ack_loop unprotected rest
                  \<lparr>ab_first = num, ab_last = num, ab_initial = True, ab_first_blklen = 0, ab_gap = 0, ab_blks = [], ab_max = 8, ab_mem = cn_mem conn\<rparr> of
                (b, rest, Some e) \<Rightarrow> Ok (conn\<lparr>cn_mem := ab_mem b\<rparr>, Inl e)
              | (b, rest, None) \<Rightarrow>
                  (case ack_close_range b of
                    (b, Some e) \<Rightarrow> Ok (conn\<lparr>cn_mem := ab_mem b\<rparr>, Inl e)
                  | (b, None) \<Rightarrow>
                      Ok (conn\<lparr>cn_mem := ab_mem b,
                            cn_acktr := (case rest of [] \<Rightarrow> cn_acktr conn | x # _ \<Rightarrow> ngtcp2_acktr_forget (cn_acktr conn) (ae_pkt_num x))\<rparr>,
                          Inr (Some \<lparr>ack_largest_ack = num, ack_ack_delay = drop_bit exponent (ts - ae_tstamp rpkt),
                                     ack_first_ack_blklen = ab_first_blklen b, ack_blks = ab_blks b\<rparr>))))))"

definition conn_commit_tx_ack :: "'a ngtcp2_conn \<Rightarrow> 'a ngtcp2_conn" where
  "conn_commit_tx_ack conn =
     (let conn = conn_invalidate_next_ack_expiry conn in conn\<lparr>cn_acktr := cn_acktr conn\<lparr>at_active_ack := False\<rparr>\<rparr>)"

text \<open>The ACK frame is written: it belongs to the tracker from now on.\<close>

definition conn_add_ack :: "'a ngtcp2_conn \<Rightarrow> u64 \<Rightarrow> ngtcp2_ack \<Rightarrow> u8 \<Rightarrow> 'a ngtcp2_conn result" where
  "conn_add_ack conn pkt_num ack unprotected =
     rbind (ngtcp2_acktr_add_ack (cn_acktr conn) pkt_num ack unprotected) (\<lambda>acktr. Ok (conn\<lparr>cn_acktr := acktr\<rparr>))"

abbreviation NGTCP2_HANDSHAKE_AEAD_OVERHEAD :: nat where "NGTCP2_HANDSHAKE_AEAD_OVERHEAD \<equiv> 16"
abbreviation NGTCP2_STREAM_OVERHEAD :: nat where "NGTCP2_STREAM_OVERHEAD \<equiv> 15"
abbreviation NGTCP2_PKT_DEADLINE_PERIOD :: u64 where "NGTCP2_PKT_DEADLINE_PERIOD \<equiv> 5000000"
abbreviation NGTCP2_RTB_FLAG_NONE :: u8 where "NGTCP2_RTB_FLAG_NONE \<equiv> 0"

section \<open>Frames of a packet\<close>

text \<open>The crypto context of a packet. A missing key is a null pointer, which \<open>ngtcp2_ppe_final\<close> follows.\<close>

definition pkt_ctx :: "ngtcp2_crypto_km option \<Rightarrow> nat \<Rightarrow> ngtcp2_encrypt \<Rightarrow> ngtcp2_crypto_ctx" where
  "pkt_ctx ckm overhead encrypt =
     \<lparr>ctx_ckm = (case ckm of Some km \<Rightarrow> km | None \<Rightarrow> \<lparr>km_key = [], km_iv = []\<rparr>), ctx_aead_overhead = overhead, ctx_encrypt = encrypt\<rparr>"

definition handshake_ctx :: "'a ngtcp2_conn \<Rightarrow> ngtcp2_crypto_ctx" where
  "handshake_ctx conn = pkt_ctx (cn_hs_tx_ckm conn) NGTCP2_HANDSHAKE_AEAD_OVERHEAD (cb_hs_encrypt (cn_callbacks conn))"

definition protected_ctx :: "'a ngtcp2_conn \<Rightarrow> ngtcp2_crypto_km option \<Rightarrow> ngtcp2_crypto_ctx" where
  "protected_ctx conn ckm = pkt_ctx ckm (cn_aead_overhead conn) (cb_encrypt (cn_callbacks conn))"

definition pkt_begin :: "bytes \<Rightarrow> ngtcp2_crypto_ctx \<Rightarrow> ngtcp2_pkt_hd \<Rightarrow> ngtcp2_ppe result" where
  "pkt_begin dest ctx hdr = ngtcp2_ppe_encode_hd (ngtcp2_ppe_init dest ctx []) hdr"

definition pkt_final :: "ngtcp2_crypto_km option \<Rightarrow> ngtcp2_ppe \<Rightarrow> bytes result" where
  "pkt_final ckm ppe = c_assert (ckm \<noteq> None) (rbind (ngtcp2_ppe_final ppe) (\<lambda>(ppe, pkt). Ok pkt))"

text \<open>A packet being written: the connection, the encoder, and whether the callback of the packet was called.\<close>

type_synonym 'a pkt_state = "'a ngtcp2_conn \<times> ngtcp2_ppe \<times> bool"

definition conn_ppe_write_frame :: "ngtcp2_pkt_hd \<Rightarrow> 'a pkt_state \<Rightarrow> ngtcp2_frame \<Rightarrow> ('a pkt_state \<times> ngtcp2_frame \<times> rc) result" where
  "conn_ppe_write_frame hdr s fr =
     (case s of (conn, ppe, called) \<Rightarrow>
       (case ngtcp2_ppe_encode_frame ppe fr of
          Fault \<Rightarrow> Fault
        | Err e \<Rightarrow> Ok ((conn, ppe, called), fr, Some e)
        | Ok (ppe, fr) \<Rightarrow>
            (case (if called then (conn, None) else conn_call_send_pkt conn hdr) of
               (conn, Some e) \<Rightarrow> Ok ((conn, ppe, called), fr, Some e)
             | (conn, None) \<Rightarrow>
                 (case conn_call_send_frame conn hdr fr of (conn, rv) \<Rightarrow> Ok ((conn, ppe, True), fr, rv)))))"

text \<open>
  The loops that write the frames of a list. Before a frame is written it may be found obsolete; it is then
  removed, and the loop goes on with the next one. In \<open>conn_retransmit_protected\<close> a \<open>continue\<close> is missing after the removal of
  a STOP_SENDING frame: the frame after it is written without the test, and if there is none, a null pointer is followed.
  The result holds the frames that were written, in the form that the encoder gave them, and those from the position of the
  loop on.
\<close>

datatype frame_check = FrameSend | FrameCancel | FrameCancelSendNext

fun write_frames :: "('a ngtcp2_conn \<Rightarrow> ngtcp2_frame \<Rightarrow> frame_check result) \<Rightarrow> ngtcp2_pkt_hd \<Rightarrow> 'a pkt_state \<Rightarrow> ngtcp2_frame list \<Rightarrow> ngtcp2_frame list
    \<Rightarrow> ('a pkt_state \<times> ngtcp2_frame list \<times> ngtcp2_frame list \<times> rc) result" where
  "write_frames check hdr s done [] = Ok (s, done, [], None)"
| "write_frames check hdr s done (fr # frs) =
     (case check (fst s) fr of
        Fault \<Rightarrow> Fault
      | Err e \<Rightarrow> Fault
      | Ok FrameCancel \<Rightarrow> write_frames check hdr s done frs
      | Ok FrameSend \<Rightarrow>
          rbind (conn_ppe_write_frame hdr s fr) (\<lambda>(s, fr, rv).
          case rv of Some e \<Rightarrow> Ok (s, done, fr # frs, Some e) | None \<Rightarrow> write_frames check hdr s (done @ [fr]) frs)
      | Ok FrameCancelSendNext \<Rightarrow>
          (case frs of [] \<Rightarrow> Fault
           | fr # frs \<Rightarrow>
               rbind (conn_ppe_write_frame hdr s fr) (\<lambda>(s, fr, rv).
               case rv of Some e \<Rightarrow> Ok (s, done, fr # frs, Some e) | None \<Rightarrow> write_frames check hdr s (done @ [fr]) frs)))"

text \<open>The tests of \<open>conn_retransmit_protected\<close> and of \<open>conn_write_pkt\<close>.\<close>

definition retransmit_check :: "'a ngtcp2_conn \<Rightarrow> ngtcp2_frame \<Rightarrow> frame_check result" where
  "retransmit_check conn fr =
     (case fr of
        FR_STREAM st \<Rightarrow> rbind (ngtcp2_conn_find_stream conn (st_stream_id st)) (\<lambda>strm.
          Ok (case strm of None \<Rightarrow> FrameCancel
              | Some strm \<Rightarrow> if sm_flags strm AND NGTCP2_STRM_FLAG_SENT_RST \<noteq> 0 then FrameCancel else FrameSend))
      | FR_STOP_SENDING ss \<Rightarrow> rbind (ngtcp2_conn_find_stream conn (ss_stream_id ss)) (\<lambda>strm.
          Ok (case strm of None \<Rightarrow> FrameCancelSendNext
              | Some strm \<Rightarrow> if sm_flags strm AND NGTCP2_STRM_FLAG_SHUT_RD \<noteq> 0 then FrameCancelSendNext else FrameSend))
      | FR_MAX_STREAM_ID m \<Rightarrow>
          Ok (if m < (if bidi_stream m then cn_max_remote_stream_id_bidi conn else cn_max_remote_stream_id_uni conn) then FrameCancel else FrameSend)
      | FR_MAX_STREAM_DATA m \<Rightarrow> rbind (ngtcp2_conn_find_stream conn (msd_stream_id m)) (\<lambda>strm.
          Ok (case strm of None \<Rightarrow> FrameCancel
              | Some strm \<Rightarrow> if msd_max_stream_data m < sm_max_rx_offset strm then FrameCancel else FrameSend))
      | FR_MAX_DATA m \<Rightarrow> Ok (if m < cn_max_rx_offset conn then FrameCancel else FrameSend)
      | _ \<Rightarrow> Ok FrameSend)"

definition frq_check :: "'a ngtcp2_conn \<Rightarrow> ngtcp2_frame \<Rightarrow> frame_check result" where
  "frq_check conn fr =
     (case fr of
        FR_RST_STREAM r \<Rightarrow> rbind (ngtcp2_conn_find_stream conn (rst_stream_id r)) (\<lambda>strm.
          Ok (if strm = None \<and> rst_app_error_code r \<noteq> NGTCP2_STOPPING then FrameCancel else FrameSend))
      | FR_STOP_SENDING ss \<Rightarrow> rbind (ngtcp2_conn_find_stream conn (ss_stream_id ss)) (\<lambda>strm.
          Ok (case strm of None \<Rightarrow> FrameCancel
              | Some strm \<Rightarrow> if sm_flags strm AND NGTCP2_STRM_FLAG_SHUT_RD \<noteq> 0 then FrameCancel else FrameSend))
      | _ \<Rightarrow> Ok FrameSend)"

section \<open>The retransmission buffer\<close>

text \<open>The address of a new entry, different from those in use.\<close>

definition new_addr :: "nat list \<Rightarrow> nat" where
  "new_addr ps = Suc (foldr max ps 0)"

definition conn_rtb_add :: "'a ngtcp2_conn \<Rightarrow> nat \<Rightarrow> ngtcp2_rtb_entry \<Rightarrow> 'a step" where
  "conn_rtb_add conn p ent =
     (let (rtb, mem, rv) = ngtcp2_rtb_add (cn_rtb conn) p ent (cn_mem conn) in Ok (conn\<lparr>cn_rtb := rtb, cn_mem := mem\<rparr>, rv))"

text \<open>A new entry for a packet that was written; the code asserts that the number was not in use.\<close>

definition conn_track :: "'a ngtcp2_conn \<Rightarrow> nat list \<Rightarrow> ngtcp2_rtb_entry \<Rightarrow> 'a step" where
  "conn_track conn used ent =
     rbind (conn_rtb_add conn (new_addr (used @ rtb_head (cn_rtb conn))) ent) (\<lambda>(conn, rv).
     c_assert (rv \<noteq> Some NGTCP2_ERR_INVALID_ARGUMENT) (Ok (conn, rv)))"

definition conn_rtb_entry_new :: "'a ngtcp2_conn \<Rightarrow> ngtcp2_pkt_hd \<Rightarrow> ngtcp2_frame list \<Rightarrow> u64 \<Rightarrow> u64 \<Rightarrow> bytes \<Rightarrow> u8
    \<Rightarrow> 'a ngtcp2_conn \<times> ngtcp2_rtb_entry result" where
  "conn_rtb_entry_new conn hdr frc ts deadline pkt flags =
     (let (r, mem) = ngtcp2_rtb_entry_new hdr frc ts deadline (of_nat (length pkt)) flags (cn_mem conn) in (conn\<lparr>cn_mem := mem\<rparr>, r))"

definition inc_tx_pkt_num :: "'a ngtcp2_conn \<Rightarrow> 'a ngtcp2_conn" where
  "inc_tx_pkt_num conn = conn\<lparr>cn_last_tx_pkt_num := cn_last_tx_pkt_num conn + 1\<rparr>"

text \<open>The frames that were written, \<open>gone\<close>, are moved to an entry of their own; \<open>ent\<close> keeps the rest.\<close>

definition retransmit_split :: "'a ngtcp2_conn \<Rightarrow> nat \<Rightarrow> ngtcp2_rtb_entry \<Rightarrow> ngtcp2_pkt_hd \<Rightarrow> ngtcp2_frame list \<Rightarrow> ngtcp2_frame list \<Rightarrow> bytes \<Rightarrow> u8 \<Rightarrow> u64
    \<Rightarrow> ('a ngtcp2_conn \<times> ngtcp2_rtb_entry) written" where
  "retransmit_split conn p ent hdr gone rest pkt flags ts =
     (if gone = [] then writes (inc_tx_pkt_num conn, ent) pkt
      else case conn_rtb_entry_new conn hdr [] ts (re_deadline ent) pkt flags of
          (conn, Err e) \<Rightarrow> refuses (conn, ent) e
        | (conn, Fault) \<Rightarrow> Fault
        | (conn, Ok nent) \<Rightarrow>
            rbind (ngtcp2_rtb_entry_extend_expiry (nent\<lparr>re_count := re_count ent\<rparr>) ts) (\<lambda>nent.
            let ent = ent\<lparr>re_frc := rest\<rparr> in
            rbind (conn_track conn [p] (nent\<lparr>re_frc := gone\<rparr>)) (\<lambda>(conn, rv).
            case rv of Some e \<Rightarrow> refuses (conn, ent) e | None \<Rightarrow> writes (inc_tx_pkt_num conn, ent) pkt)))"

definition conn_retransmit_unprotected :: "'a ngtcp2_conn \<Rightarrow> bytes \<Rightarrow> nat \<Rightarrow> ngtcp2_rtb_entry \<Rightarrow> u64 \<Rightarrow> ('a ngtcp2_conn \<times> ngtcp2_rtb_entry) written" where
  "conn_retransmit_unprotected conn dest p ent ts =
     (let hdr = (re_hd ent)\<lparr>hd_version := cn_version conn, hd_conn_id := cn_conn_id conn, hd_pkt_num := cn_last_tx_pkt_num conn + 1\<rparr> in
      on_ok (conn, ent) (pkt_begin dest (handshake_ctx conn) hdr) (\<lambda>ppe.
      rbind (write_frames (\<lambda>_ _. Ok FrameSend) hdr (conn, ppe, False) [] (re_frc ent)) (\<lambda>((conn, ppe, called), gone, rest, rv).
      let ent = ent\<lparr>re_frc := gone @ rest\<rparr> in
      if rv \<noteq> None \<and> rv \<noteq> Some NGTCP2_ERR_NOBUF then refuses (conn, ent) (the rv)
      else if gone = [] then (case rv of Some e \<Rightarrow> refuses (conn, ent) e | None \<Rightarrow> writes (conn, ent) [])
      else if rest = [] then
        rbind (ngtcp2_rtb_entry_extend_expiry (ent\<lparr>re_hd := hdr\<rparr>) ts) (\<lambda>ent.
        rbind (if hd_type hdr = NGTCP2_PKT_INITIAL
               then rbind (ngtcp2_ppe_padding ppe) (\<lambda>(ppe, len). Ok (ppe, conn_call_send_frame conn hdr (FR_PADDING len)))
               else Ok (ppe, conn, None)) (\<lambda>(ppe, conn, rv).
        case rv of Some e \<Rightarrow> refuses (conn, ent) e
        | None \<Rightarrow> on_ok (inc_tx_pkt_num conn, ent) (pkt_final (cn_hs_tx_ckm conn) ppe) (writes (inc_tx_pkt_num conn, ent))))
      else
        on_ok (conn, ent) (pkt_final (cn_hs_tx_ckm conn) ppe) (\<lambda>pkt.
        retransmit_split conn p ent hdr gone rest pkt NGTCP2_RTB_FLAG_UNPROTECTED ts))))"

text \<open>An ACK frame at the end of a packet that holds other frames. Whether it does not fit is not an error.\<close>

definition append_ack :: "ngtcp2_pkt_hd \<Rightarrow> u64 \<Rightarrow> 'a pkt_state \<Rightarrow> ('a pkt_state \<times> rc) result" where
  "append_ack hdr ts s =
     (case s of (conn, ppe, called) \<Rightarrow>
        rbind (conn_create_ack_frame conn ts False) (\<lambda>(conn, ackfr).
        case ackfr of
          Inl e \<Rightarrow> Ok ((conn, ppe, called), Some e)
        | Inr None \<Rightarrow> Ok ((conn, ppe, called), None)
        | Inr (Some ack) \<Rightarrow>
            rbind (conn_ppe_write_frame hdr (conn, ppe, called) (FR_ACK ack)) (\<lambda>((conn, ppe, called), fr, rv).
            case rv of
              Some e \<Rightarrow> Ok ((conn, ppe, called), if e = NGTCP2_ERR_NOBUF then None else Some e)
            | None \<Rightarrow>
                rbind (conn_add_ack (conn_commit_tx_ack conn) (hd_pkt_num hdr) ack 0) (\<lambda>conn. Ok ((conn, ppe, called), None)))))"

definition conn_retransmit_protected :: "'a ngtcp2_conn \<Rightarrow> bytes \<Rightarrow> nat \<Rightarrow> ngtcp2_rtb_entry \<Rightarrow> u64 \<Rightarrow> ('a ngtcp2_conn \<times> ngtcp2_rtb_entry) written" where
  "conn_retransmit_protected conn dest p ent ts =
     (let ack_expired = conn_next_ack_expired conn ts; num = cn_last_tx_pkt_num conn + 1;
          hdr = (re_hd ent)\<lparr>hd_version := cn_version conn, hd_conn_id := cn_conn_id conn, hd_pkt_num := num, hd_type := conn_select_pkt_type conn num\<rparr> in
      on_ok (conn, ent) (pkt_begin dest (protected_ctx conn (cn_tx_ckm conn)) hdr) (\<lambda>ppe.
      rbind (write_frames retransmit_check hdr (conn, ppe, False) [] (re_frc ent)) (\<lambda>((conn, ppe, called), gone, rest, rv).
      let ent = ent\<lparr>re_frc := gone @ rest\<rparr> in
      if rv \<noteq> None \<and> rv \<noteq> Some NGTCP2_ERR_NOBUF then refuses (conn, ent) (the rv)
      else if gone = [] then (case rv of Some e \<Rightarrow> refuses (conn, ent) e | None \<Rightarrow> writes (conn, ent) [])
      else
        rbind (if ack_expired then append_ack hdr ts (conn, ppe, called) else Ok ((conn, ppe, called), None)) (\<lambda>((conn, ppe, called), rv).
        case rv of Some e \<Rightarrow> refuses (conn, ent) e
        | None \<Rightarrow>
            if rest = [] then
              rbind (ngtcp2_rtb_entry_extend_expiry (ent\<lparr>re_hd := hdr\<rparr>) ts) (\<lambda>ent.
              on_ok (conn, ent) (pkt_final (cn_tx_ckm conn) ppe) (writes (inc_tx_pkt_num conn, ent)))
            else
              on_ok (conn, ent) (pkt_final (cn_tx_ckm conn) ppe) (\<lambda>pkt.
              retransmit_split conn p ent hdr gone rest pkt NGTCP2_RTB_FLAG_NONE ts)))))"

text \<open>
  The choice of the writer for an entry that was removed from the buffer; \<open>conn_retransmit\<close> deletes the entry
  when it cannot be sent again.
\<close>

definition conn_retransmit_entry :: "'a ngtcp2_conn \<Rightarrow> bytes \<Rightarrow> nat \<Rightarrow> ngtcp2_rtb_entry \<Rightarrow> u64 \<Rightarrow> ('a ngtcp2_conn \<times> ngtcp2_rtb_entry) written" where
  "conn_retransmit_entry conn dest p ent ts =
     (if re_deadline ent \<le> ts then refuses (conn, ent) NGTCP2_ERR_PKT_TIMEOUT
      else if hd_flags (re_hd ent) AND NGTCP2_PKT_FLAG_LONG_FORM \<noteq> 0 then
        if hd_type (re_hd ent) \<in> {NGTCP2_PKT_INITIAL, NGTCP2_PKT_HANDSHAKE} then
          if cn_flags conn AND NGTCP2_CONN_FLAG_RECV_PROTECTED_PKT \<noteq> 0 then writes (conn, ent) []
          else conn_retransmit_unprotected conn dest p ent ts
        else refuses (conn, ent) NGTCP2_ERR_INVALID_ARGUMENT
      else if hd_type (re_hd ent) \<in> {NGTCP2_PKT_01, NGTCP2_PKT_02, NGTCP2_PKT_03} then conn_retransmit_protected conn dest p ent ts
      else refuses (conn, ent) NGTCP2_ERR_INVALID_ARGUMENT)"

text \<open>The entry returns to the buffer; an error of \<open>ngtcp2_rtb_add\<close> is asserted to be fatal.\<close>

definition retransmit_return :: "'a ngtcp2_conn \<Rightarrow> nat \<Rightarrow> ngtcp2_rtb_entry \<Rightarrow> (ngtcp2_lib_error + bytes) \<Rightarrow> 'a ngtcp2_conn written" where
  "retransmit_return conn p ent r =
     rbind (conn_rtb_add conn p ent) (\<lambda>(conn, rv).
     case rv of Some e \<Rightarrow> c_assert (ngtcp2_err_fatal (lib_error_code e)) (refuses conn e) | None \<Rightarrow> Ok (conn, r))"

text \<open>The loop removes an entry in every round but the last; \<open>conn_retransmit\<close> allows as many rounds as there are entries, and one more.\<close>

fun retransmit_loop :: "nat \<Rightarrow> 'a ngtcp2_conn \<Rightarrow> bytes \<Rightarrow> u64 \<Rightarrow> 'a ngtcp2_conn written" where
  "retransmit_loop 0 conn dest ts = Fault"
| "retransmit_loop (Suc n) conn dest ts =
     (case ngtcp2_rtb_top (cn_rtb conn) of
        None \<Rightarrow> writes conn []
      | Some p \<Rightarrow>
          let ent = rtb_store (cn_rtb conn) p in
          if re_expiry ent > ts then writes conn []
          else
            rbind (ngtcp2_rtb_pop (cn_rtb conn)) (\<lambda>rtb.
            rbind (conn_retransmit_entry (conn\<lparr>cn_rtb := rtb\<rparr>) dest p ent ts) (\<lambda>((conn, ent), r).
            case r of
              Inl e \<Rightarrow> if e = NGTCP2_ERR_NOBUF then retransmit_return conn p ent (Inl e) else refuses conn e
            | Inr pkt \<Rightarrow>
                if pkt = [] then retransmit_loop n conn dest ts
                else if re_frc ent = [] then writes conn pkt
                else retransmit_return conn p (ent\<lparr>re_pktlen := of_nat (length pkt)\<rparr>) (Inr pkt))))"

definition conn_retransmit :: "'a ngtcp2_conn \<Rightarrow> bytes \<Rightarrow> u64 \<Rightarrow> 'a ngtcp2_conn written" where
  "conn_retransmit conn dest ts = retransmit_loop (Suc (length (pq_q (rtb_pq (cn_rtb conn))))) conn dest ts"

section \<open>Handshake packets\<close>

definition conn_pkt_hd :: "'a ngtcp2_conn \<Rightarrow> u8 \<Rightarrow> u8 \<Rightarrow> u64 \<Rightarrow> ngtcp2_pkt_hd" where
  "conn_pkt_hd conn flags type conn_id = ngtcp2_pkt_hd_init flags type conn_id (cn_last_tx_pkt_num conn + 1) (cn_version conn)"

text \<open>A frame in a packet whose callback was called already.\<close>

definition encode_and_call :: "ngtcp2_pkt_hd \<Rightarrow> 'a ngtcp2_conn \<Rightarrow> ngtcp2_ppe \<Rightarrow> ngtcp2_frame
    \<Rightarrow> ('a ngtcp2_conn \<Rightarrow> ngtcp2_ppe \<Rightarrow> ngtcp2_frame \<Rightarrow> 'a ngtcp2_conn written) \<Rightarrow> 'a ngtcp2_conn written" where
  "encode_and_call hdr conn ppe fr k =
     on_ok conn (ngtcp2_ppe_encode_frame ppe fr) (\<lambda>(ppe, fr).
     then_write (Ok (conn_call_send_frame conn hdr fr)) (\<lambda>conn. k conn ppe fr))"

text \<open>The packet of the frames \<open>frc\<close> is complete: it is protected and, if it holds any of them, tracked for retransmission.\<close>

definition handshake_pkt_done :: "ngtcp2_pkt_hd \<Rightarrow> u64 \<Rightarrow> 'a ngtcp2_conn \<Rightarrow> ngtcp2_ppe \<Rightarrow> ngtcp2_frame list \<Rightarrow> 'a ngtcp2_conn written" where
  "handshake_pkt_done hdr ts conn ppe frc =
     on_ok conn (pkt_final (cn_hs_tx_ckm conn) ppe) (\<lambda>pkt.
     if frc = [] then writes (inc_tx_pkt_num conn) pkt
     else case conn_rtb_entry_new conn hdr frc ts (ts + NGTCP2_PKT_DEADLINE_PERIOD) pkt NGTCP2_RTB_FLAG_UNPROTECTED of
         (conn, Err e) \<Rightarrow> refuses conn e
       | (conn, Fault) \<Rightarrow> Fault
       | (conn, Ok ent) \<Rightarrow> then_write (conn_track conn [] ent) (\<lambda>conn. writes (inc_tx_pkt_num conn) pkt))"

text \<open>After the handshake data: padding of an Initial packet, or the CONNECTION_CLOSE frame of a failed handshake.\<close>

definition handshake_pkt_rest :: "ngtcp2_pkt_hd \<Rightarrow> u64 \<Rightarrow> 'a ngtcp2_conn \<Rightarrow> ngtcp2_ppe \<Rightarrow> ngtcp2_frame list \<Rightarrow> 'a ngtcp2_conn written" where
  "handshake_pkt_rest hdr ts conn ppe frc =
     (if hd_type hdr = NGTCP2_PKT_INITIAL then
        rbind (ngtcp2_ppe_padding ppe) (\<lambda>(ppe, len).
        then_write (Ok (if len > 0 then conn_call_send_frame conn hdr (FR_PADDING len) else (conn, None))) (\<lambda>conn.
        handshake_pkt_done hdr ts conn ppe frc))
      else if cn_state conn \<in> {NGTCP2_CS_CLIENT_TLS_HANDSHAKE_FAILED, NGTCP2_CS_SERVER_TLS_HANDSHAKE_FAILED} then
        with_malloc conn (\<lambda>conn. refuses conn NGTCP2_ERR_NOMEM) (\<lambda>conn.
        encode_and_call hdr conn ppe (FR_CONNECTION_CLOSE \<lparr>cc_error_code = transport_error_code NGTCP2_TLS_HANDSHAKE_FAILED, cc_reason = []\<rparr>) (\<lambda>conn ppe fr.
        handshake_pkt_done hdr ts conn ppe (frc @ [fr])))
      else handshake_pkt_done hdr ts conn ppe frc)"

text \<open>The handshake data: as much of the buffer of stream 0 as fits. The room is computed in \<open>size_t\<close>, where it can wrap around.\<close>

definition handshake_pkt_data :: "ngtcp2_pkt_hd \<Rightarrow> u64 \<Rightarrow> 'a ngtcp2_conn \<Rightarrow> ngtcp2_ppe \<Rightarrow> 'a ngtcp2_conn written" where
  "handshake_pkt_data hdr ts conn ppe =
     (let buf = sm_tx_buf (cn_strm conn 0);
          nwrite = unat (ngtcp2_min (of_nat (ngtcp2_buf_len buf) :: u64) (of_nat (ngtcp2_ppe_left ppe) - of_nat NGTCP2_STREAM_OVERHEAD))
      in if nwrite \<noteq> ngtcp2_buf_len buf \<and> hd_type hdr = NGTCP2_PKT_INITIAL then refuses conn NGTCP2_ERR_NOBUF
      else if nwrite = 0 then handshake_pkt_rest hdr ts conn ppe []
      else with_malloc conn (\<lambda>conn. refuses conn NGTCP2_ERR_NOMEM) (\<lambda>conn.
        encode_and_call hdr conn ppe
          (FR_STREAM \<lparr>st_flags = 0, st_fin = False, st_stream_id = 0, st_offset = sm_tx_offset (cn_strm conn 0),
             st_data = take nwrite (drop (buf_pos buf) (buf_mem buf))\<rparr>)
          (\<lambda>conn ppe fr.
             let conn = upd_strm conn 0 (\<lambda>strm0. strm0\<lparr>sm_tx_buf := buf\<lparr>buf_pos := buf_pos buf + nwrite\<rparr>,
                                                      sm_tx_offset := sm_tx_offset strm0 + of_nat nwrite\<rparr>)
             in handshake_pkt_rest hdr ts conn ppe [fr])))"

definition conn_write_handshake_pkt :: "'a ngtcp2_conn \<Rightarrow> bytes \<Rightarrow> u8 \<Rightarrow> u64 \<Rightarrow> 'a ngtcp2_conn written" where
  "conn_write_handshake_pkt conn dest type ts =
     (let ack_expired = conn_next_ack_expired conn ts; hdr = conn_pkt_hd conn NGTCP2_PKT_FLAG_LONG_FORM type (cn_conn_id conn) in
      on_ok conn (pkt_begin dest (handshake_ctx conn) hdr) (\<lambda>ppe.
      then_write (Ok (conn_call_send_pkt conn hdr)) (\<lambda>conn.
      if type \<noteq> NGTCP2_PKT_INITIAL \<and> ack_expired then
        rbind (conn_create_ack_frame conn ts True) (\<lambda>(conn, ackfr).
        let room = (\<lambda>conn ppe.
          if ngtcp2_ppe_left ppe < NGTCP2_STREAM_OVERHEAD + 1
          then on_ok (inc_tx_pkt_num conn) (pkt_final (cn_hs_tx_ckm conn) ppe) (writes (inc_tx_pkt_num conn))
          else handshake_pkt_data hdr ts conn ppe)
        in case ackfr of
            Inl e \<Rightarrow> refuses conn e
          | Inr None \<Rightarrow> room conn ppe
          | Inr (Some ack) \<Rightarrow>
              encode_and_call hdr conn ppe (FR_ACK ack) (\<lambda>conn ppe fr.
              rbind (conn_add_ack (conn_commit_tx_ack conn) (hd_pkt_num hdr) ack 1) (\<lambda>conn. room conn ppe)))
      else handshake_pkt_data hdr ts conn ppe)))"

definition conn_write_handshake_ack_pkt :: "'a ngtcp2_conn \<Rightarrow> bytes \<Rightarrow> u8 \<Rightarrow> u64 \<Rightarrow> 'a ngtcp2_conn written" where
  "conn_write_handshake_ack_pkt conn dest type ts =
     (if \<not> conn_next_ack_expired conn ts then writes conn []
      else rbind (conn_create_ack_frame conn ts True) (\<lambda>(conn, ackfr).
        case ackfr of
          Inl e \<Rightarrow> refuses conn e
        | Inr None \<Rightarrow> writes conn []
        | Inr (Some ack) \<Rightarrow>
            let hdr = conn_pkt_hd conn NGTCP2_PKT_FLAG_LONG_FORM type (cn_conn_id conn) in
            on_ok conn (pkt_begin dest (handshake_ctx conn) hdr) (\<lambda>ppe.
            then_write (Ok (conn_call_send_pkt conn hdr)) (\<lambda>conn.
            encode_and_call hdr conn ppe (FR_ACK ack) (\<lambda>conn ppe fr.
            rbind (conn_add_ack (conn_commit_tx_ack conn) (hd_pkt_num hdr) ack 1) (\<lambda>conn.
            on_ok (inc_tx_pkt_num conn) (pkt_final (cn_hs_tx_ckm conn) ppe) (writes (inc_tx_pkt_num conn))))))))"

text \<open>The handshake data that a callback made becomes the buffer of stream 0.\<close>

definition set_tx_buf :: "'a ngtcp2_conn \<Rightarrow> bytes \<Rightarrow> 'a ngtcp2_conn" where
  "set_tx_buf conn payload =
     upd_strm conn 0 (\<lambda>strm0. strm0\<lparr>sm_tx_buf := (ngtcp2_buf_init payload)\<lparr>buf_last := length payload\<rparr>\<rparr>)"

definition conn_write_client_initial :: "'a ngtcp2_conn \<Rightarrow> bytes \<Rightarrow> u64 \<Rightarrow> 'a ngtcp2_conn written" where
  "conn_write_client_initial conn dest ts =
     (case cb_send_client_initial (cn_callbacks conn) of None \<Rightarrow> Fault
      | Some f \<Rightarrow>
          let retry = cn_flags conn AND NGTCP2_CONN_FLAG_STATELESS_RETRY \<noteq> 0; (a, r) = f (\<not> retry) (cn_app conn); conn = conn\<lparr>cn_app := a\<rparr> in
          (case r of None \<Rightarrow> refuses conn NGTCP2_ERR_CALLBACK_FAILURE
           | Some (pkt_num, payload) \<Rightarrow>
               if payload = [] then refuses conn NGTCP2_ERR_CALLBACK_FAILURE
               else
                 let conn = set_tx_buf conn payload; conn = (if retry then conn else conn\<lparr>cn_last_tx_pkt_num := pkt_num - 1\<rparr>)
                 in conn_write_handshake_pkt conn dest NGTCP2_PKT_INITIAL ts))"

definition conn_write_client_handshake :: "'a ngtcp2_conn \<Rightarrow> bytes \<Rightarrow> u64 \<Rightarrow> 'a ngtcp2_conn written" where
  "conn_write_client_handshake conn dest ts =
     (if ngtcp2_buf_len (sm_tx_buf (cn_strm conn 0)) = 0 then
        case cb_send_client_handshake (cn_callbacks conn) of None \<Rightarrow> Fault
        | Some f \<Rightarrow>
            let (a, r) = f (cn_app conn); conn = conn\<lparr>cn_app := a\<rparr> in
            (case r of None \<Rightarrow> refuses conn NGTCP2_ERR_CALLBACK_FAILURE
             | Some payload \<Rightarrow>
                 if payload = [] then
                   if cn_state conn = NGTCP2_CS_CLIENT_TLS_HANDSHAKE_FAILED then refuses conn NGTCP2_ERR_TLS_HANDSHAKE
                   else conn_write_handshake_ack_pkt conn dest NGTCP2_PKT_HANDSHAKE ts
                 else conn_write_handshake_pkt (set_tx_buf conn payload) dest NGTCP2_PKT_HANDSHAKE ts)
      else conn_write_handshake_pkt conn dest NGTCP2_PKT_HANDSHAKE ts)"

text \<open>The packet number is 0 when the callback is not called.\<close>

definition conn_write_server_handshake :: "'a ngtcp2_conn \<Rightarrow> bytes \<Rightarrow> bool \<Rightarrow> u64 \<Rightarrow> 'a ngtcp2_conn written" where
  "conn_write_server_handshake conn dest initial ts =
     (let send = (\<lambda>conn pkt_num.
        let conn = (if initial then conn\<lparr>cn_last_tx_pkt_num := pkt_num - 1, cn_rtb := cn_rtb conn\<lparr>rtb_largest_acked := pkt_num - 1\<rparr>\<rparr> else conn)
        in conn_write_handshake_pkt conn dest NGTCP2_PKT_HANDSHAKE ts)
      in if ngtcp2_buf_len (sm_tx_buf (cn_strm conn 0)) = 0 then
        case cb_send_server_handshake (cn_callbacks conn) of None \<Rightarrow> Fault
        | Some f \<Rightarrow>
            let (a, r) = f initial (cn_app conn); conn = conn\<lparr>cn_app := a\<rparr> in
            (case r of None \<Rightarrow> refuses conn NGTCP2_ERR_CALLBACK_FAILURE
             | Some (pkt_num, payload) \<Rightarrow>
                 if payload = [] then
                   if initial then refuses conn NGTCP2_ERR_CALLBACK_FAILURE
                   else if cn_state conn = NGTCP2_CS_SERVER_TLS_HANDSHAKE_FAILED then refuses conn NGTCP2_ERR_TLS_HANDSHAKE
                   else conn_write_handshake_ack_pkt conn dest NGTCP2_PKT_HANDSHAKE ts
                 else send (set_tx_buf conn payload) pkt_num)
      else send conn 0)"

section \<open>Protected packets\<close>

text \<open>A MAX_STREAM_DATA frame for every stream in the list of those whose window is to be extended.\<close>

fun flush_fc_strms :: "'a ngtcp2_conn \<Rightarrow> u64 list \<Rightarrow> 'a step" where
  "flush_fc_strms conn [] = done0 conn"
| "flush_fc_strms conn (sid # sids) =
     then_ok (Ok (frq_push conn (FR_MAX_STREAM_DATA \<lparr>msd_stream_id = sm_stream_id (cn_strm conn sid),
                                   msd_max_stream_data = sm_unsent_max_rx_offset (cn_strm conn sid)\<rparr>))) (\<lambda>conn.
     flush_fc_strms ((upd_strm conn sid (\<lambda>strm. strm\<lparr>sm_max_rx_offset := sm_unsent_max_rx_offset strm\<rparr>))\<lparr>cn_fc_strms := sids\<rparr>) sids)"

definition flush_max_data :: "'a ngtcp2_conn \<Rightarrow> bool \<Rightarrow> 'a step" where
  "flush_max_data conn ackfr =
     (if (ackfr \<or> cn_frq conn \<noteq> [] \<or> conn_should_send_max_data conn) \<and> cn_unsent_max_rx_offset conn > cn_max_rx_offset conn
      then then_ok (Ok (frq_push conn (FR_MAX_DATA (cn_unsent_max_rx_offset conn)))) (\<lambda>conn.
             done0 (conn\<lparr>cn_max_rx_offset := cn_unsent_max_rx_offset conn\<rparr>))
      else done0 conn)"

text \<open>
  The state of \<open>conn_write_pkt\<close> between the frames: those written, those left in the queue, and the return
  code of the last one.
\<close>

type_synonym 'a frq_state = "'a pkt_state \<times> ngtcp2_frame list \<times> ngtcp2_frame list \<times> rc"

text \<open>
  A MAX_STREAM_ID frame for one kind of streams, when everything before it was written. Its allocation can fail, which
  ends the writer; any error of writing it other than \<open>NGTCP2_ERR_NOBUF\<close> fails an assertion.
\<close>

definition write_max_stream_id :: "ngtcp2_pkt_hd \<Rightarrow> ('a ngtcp2_conn \<Rightarrow> u64) \<Rightarrow> ('a ngtcp2_conn \<Rightarrow> u64) \<Rightarrow> (u64 \<Rightarrow> 'a ngtcp2_conn \<Rightarrow> 'a ngtcp2_conn)
    \<Rightarrow> 'a frq_state \<Rightarrow> ('a frq_state \<Rightarrow> 'a ngtcp2_conn written) \<Rightarrow> 'a ngtcp2_conn written" where
  "write_max_stream_id hdr unsent sent_max put s k =
     (case s of ((conn, ppe, called), gone, rest, rv) \<Rightarrow>
        if rv \<noteq> Some NGTCP2_ERR_NOBUF \<and> rest = [] \<and> unsent conn > sent_max conn then
          with_malloc conn (\<lambda>conn. refuses (conn\<lparr>cn_frq := gone\<rparr>) NGTCP2_ERR_NOMEM) (\<lambda>conn.
          rbind (conn_ppe_write_frame hdr (put (unsent conn) conn, ppe, called) (FR_MAX_STREAM_ID (unsent conn))) (\<lambda>(s, fr, rv).
          case rv of
            Some e \<Rightarrow> c_assert (e = NGTCP2_ERR_NOBUF) (k (s, gone, [fr], rv))
          | None \<Rightarrow> k (s, gone @ [fr], [], rv)))
        else k s)"

definition conn_write_pkt_done :: "ngtcp2_pkt_hd \<Rightarrow> u64 \<Rightarrow> bool \<Rightarrow> 'a frq_state \<Rightarrow> 'a ngtcp2_conn written" where
  "conn_write_pkt_done hdr ts has_ack s =
     (case s of ((conn, ppe, called), gone, rest, rv) \<Rightarrow>
        let conn = conn\<lparr>cn_frq := gone @ rest\<rparr> in
        if \<not> has_ack \<and> gone = [] then (case rv of Some e \<Rightarrow> refuses conn e | None \<Rightarrow> writes conn [])
        else on_ok conn (pkt_final (cn_tx_ckm conn) ppe) (\<lambda>pkt.
          if gone = [] then writes (inc_tx_pkt_num conn) pkt
          else case conn_rtb_entry_new conn hdr [] ts (ts + NGTCP2_PKT_DEADLINE_PERIOD) pkt NGTCP2_RTB_FLAG_NONE of
              (conn, Err e) \<Rightarrow> refuses conn e
            | (conn, Fault) \<Rightarrow> Fault
            | (conn, Ok ent) \<Rightarrow>
                then_write (conn_track (conn\<lparr>cn_frq := rest\<rparr>) [] (ent\<lparr>re_frc := gone\<rparr>)) (\<lambda>conn. writes (inc_tx_pkt_num conn) pkt)))"

definition conn_write_pkt_frames :: "ngtcp2_pkt_hd \<Rightarrow> u64 \<Rightarrow> bool \<Rightarrow> 'a pkt_state \<Rightarrow> 'a ngtcp2_conn written" where
  "conn_write_pkt_frames hdr ts has_ack s =
     rbind (write_frames frq_check hdr s [] (cn_frq (fst s))) (\<lambda>(s, gone, rest, rv).
     c_assert (rv = None \<or> rv = Some NGTCP2_ERR_NOBUF)
       (write_max_stream_id hdr cn_unsent_max_remote_stream_id_bidi cn_max_remote_stream_id_bidi (\<lambda>m conn. conn\<lparr>cn_max_remote_stream_id_bidi := m\<rparr>)
         (s, gone, rest, rv)
         (\<lambda>s. write_max_stream_id hdr cn_unsent_max_remote_stream_id_uni cn_max_remote_stream_id_uni (\<lambda>m conn. conn\<lparr>cn_max_remote_stream_id_uni := m\<rparr>)
           s (conn_write_pkt_done hdr ts has_ack))))"

definition conn_write_pkt :: "'a ngtcp2_conn \<Rightarrow> bytes \<Rightarrow> u64 \<Rightarrow> 'a ngtcp2_conn written" where
  "conn_write_pkt conn dest ts =
     rbind (if conn_next_ack_expired conn ts then conn_create_ack_frame conn ts False else Ok (conn, Inr None)) (\<lambda>(conn, ackfr).
     case ackfr of Inl e \<Rightarrow> refuses conn e
     | Inr ackfr \<Rightarrow>
         then_write (flush_max_data conn (ackfr \<noteq> None)) (\<lambda>conn.
         then_write (flush_fc_strms conn (cn_fc_strms conn)) (\<lambda>conn.
         if ackfr = None \<and> cn_unsent_max_remote_stream_id_bidi conn = cn_max_remote_stream_id_bidi conn \<and>
            cn_unsent_max_remote_stream_id_uni conn = cn_max_remote_stream_id_uni conn \<and> cn_frq conn = []
         then writes conn []
         else
           let hdr = conn_pkt_hd conn NGTCP2_PKT_FLAG_NONE (conn_select_pkt_type conn (cn_last_tx_pkt_num conn + 1)) (cn_conn_id conn) in
           on_ok conn (pkt_begin dest (protected_ctx conn (cn_tx_ckm conn)) hdr) (\<lambda>ppe.
           case ackfr of
             None \<Rightarrow> conn_write_pkt_frames hdr ts False (conn, ppe, False)
           | Some ack \<Rightarrow>
               rbind (conn_ppe_write_frame hdr (conn, ppe, False) (FR_ACK ack)) (\<lambda>((conn, ppe, called), fr, rv).
               case rv of Some e \<Rightarrow> refuses conn e
               | None \<Rightarrow>
                   rbind (conn_add_ack (conn_commit_tx_ack conn) (hd_pkt_num hdr) ack 0) (\<lambda>conn.
                   conn_write_pkt_frames hdr ts True (conn, ppe, called)))))))"

definition conn_write_single_frame_pkt :: "'a ngtcp2_conn \<Rightarrow> bytes \<Rightarrow> ngtcp2_frame \<Rightarrow> 'a ngtcp2_conn written" where
  "conn_write_single_frame_pkt conn dest fr =
     (let hdr = conn_pkt_hd conn NGTCP2_PKT_FLAG_NONE (conn_select_pkt_type conn (cn_last_tx_pkt_num conn + 1)) (cn_conn_id conn) in
      on_ok conn (pkt_begin dest (protected_ctx conn (cn_tx_ckm conn)) hdr) (\<lambda>ppe.
      then_write (Ok (conn_call_send_pkt conn hdr)) (\<lambda>conn.
      encode_and_call hdr conn ppe fr (\<lambda>conn ppe fr.
      on_ok conn (pkt_final (cn_tx_ckm conn) ppe) (\<lambda>pkt.
      case fr of
        FR_ACK ack \<Rightarrow> rbind (conn_add_ack conn (hd_pkt_num hdr) ack 0) (\<lambda>conn. writes (inc_tx_pkt_num conn) pkt)
      | _ \<Rightarrow> writes (inc_tx_pkt_num conn) pkt)))))"

definition conn_write_protected_ack_pkt :: "'a ngtcp2_conn \<Rightarrow> bytes \<Rightarrow> u64 \<Rightarrow> 'a ngtcp2_conn written" where
  "conn_write_protected_ack_pkt conn dest ts =
     (if \<not> conn_next_ack_expired conn ts then writes conn []
      else rbind (conn_create_ack_frame conn ts False) (\<lambda>(conn, ackfr).
        case ackfr of
          Inl e \<Rightarrow> refuses conn e
        | Inr None \<Rightarrow> writes conn []
        | Inr (Some ack) \<Rightarrow>
            rbind (conn_write_single_frame_pkt conn dest (FR_ACK ack)) (\<lambda>(conn, r).
            Ok (case r of Inl e \<Rightarrow> conn | Inr pkt \<Rightarrow> conn_commit_tx_ack conn, r))))"

text \<open>The 0-RTT packets are added to the buffer; after a failure the remaining ones are deleted.\<close>

fun early_rtb_loop :: "'a ngtcp2_conn \<Rightarrow> ngtcp2_rtb_entry list \<Rightarrow> 'a step" where
  "early_rtb_loop conn [] = done0 (conn\<lparr>cn_early_rtb := []\<rparr>)"
| "early_rtb_loop conn (ent # ents) =
     (let ent = (if cn_flags conn AND NGTCP2_CONN_FLAG_EARLY_DATA_REJECTED \<noteq> 0 then ent\<lparr>re_expiry := 0\<rparr> else ent) in
      rbind (conn_track conn [] ent) (\<lambda>(conn, rv).
      case rv of Some e \<Rightarrow> fails (conn\<lparr>cn_early_rtb := []\<rparr>) e | None \<Rightarrow> early_rtb_loop conn ents))"

definition conn_process_early_rtb :: "'a ngtcp2_conn \<Rightarrow> 'a step" where
  "conn_process_early_rtb conn = early_rtb_loop conn (cn_early_rtb conn)"

section \<open>Entry points\<close>

text \<open>Going on when a writer returned 0, or did not return an error.\<close>

definition if_zero :: "'a ngtcp2_conn written \<Rightarrow> ('a ngtcp2_conn \<Rightarrow> 'a ngtcp2_conn written) \<Rightarrow> 'a ngtcp2_conn written" where
  "if_zero m k = rbind m (\<lambda>(conn, r). if r = Inr [] then k conn else Ok (conn, r))"

definition enter_state :: "'a ngtcp2_conn written \<Rightarrow> ngtcp2_conn_state \<Rightarrow> 'a ngtcp2_conn written" where
  "enter_state m state = rbind m (\<lambda>(conn, r). Ok (case r of Inl e \<Rightarrow> conn | Inr pkt \<Rightarrow> conn\<lparr>cn_state := state\<rparr>, r))"

definition client_handshake_finish :: "'a ngtcp2_conn \<Rightarrow> bytes \<Rightarrow> u64 \<Rightarrow> 'a ngtcp2_conn written" where
  "client_handshake_finish conn dest ts =
     (let conn = conn\<lparr>cn_state := NGTCP2_CS_POST_HANDSHAKE\<rparr> in
      if cn_flags conn AND NGTCP2_CONN_FLAG_TRANSPORT_PARAM_RECVED = 0 then refuses conn NGTCP2_ERR_REQUIRED_TRANSPORT_PARAM
      else if cn_early_rtb conn = [] then writes conn []
      else then_write (conn_process_early_rtb conn) (\<lambda>conn. conn_retransmit conn dest ts))"

definition ngtcp2_conn_write_pkt :: "'a ngtcp2_conn \<Rightarrow> bytes \<Rightarrow> u64 \<Rightarrow> 'a ngtcp2_conn written" where
  "ngtcp2_conn_write_pkt conn dest ts =
     (if cn_last_tx_pkt_num conn = UINT64_MAX then refuses conn NGTCP2_ERR_PKT_NUM_EXHAUSTED
      else if_zero (conn_retransmit conn dest ts) (\<lambda>conn.
        case cn_state conn of
          NGTCP2_CS_CLIENT_INITIAL \<Rightarrow> enter_state (conn_write_client_initial conn dest ts) NGTCP2_CS_CLIENT_WAIT_HANDSHAKE
        | NGTCP2_CS_CLIENT_WAIT_HANDSHAKE \<Rightarrow> conn_write_client_handshake conn dest ts
        | NGTCP2_CS_CLIENT_HANDSHAKE_ALMOST_FINISHED \<Rightarrow>
            if_zero (conn_write_client_handshake conn dest ts) (\<lambda>conn. client_handshake_finish conn dest ts)
        | NGTCP2_CS_CLIENT_TLS_HANDSHAKE_FAILED \<Rightarrow> conn_write_client_handshake conn dest ts
        | NGTCP2_CS_SERVER_INITIAL \<Rightarrow> enter_state (conn_write_server_handshake conn dest True ts) NGTCP2_CS_SERVER_WAIT_HANDSHAKE
        | NGTCP2_CS_SERVER_WAIT_HANDSHAKE \<Rightarrow> conn_write_server_handshake conn dest False ts
        | NGTCP2_CS_SERVER_TLS_HANDSHAKE_FAILED \<Rightarrow> conn_write_server_handshake conn dest (sm_tx_offset (cn_strm conn 0) = 0) ts
        | NGTCP2_CS_POST_HANDSHAKE \<Rightarrow> conn_write_pkt conn dest ts
        | _ \<Rightarrow> writes conn []))"

definition ngtcp2_conn_write_ack_pkt :: "'a ngtcp2_conn \<Rightarrow> bytes \<Rightarrow> u64 \<Rightarrow> 'a ngtcp2_conn written" where
  "ngtcp2_conn_write_ack_pkt conn dest ts =
     (if cn_last_tx_pkt_num conn = UINT64_MAX then refuses conn NGTCP2_ERR_PKT_NUM_EXHAUSTED
      else if_zero (conn_retransmit conn dest ts) (\<lambda>conn.
        if cn_state conn \<in> {NGTCP2_CS_CLIENT_INITIAL, NGTCP2_CS_CLIENT_WAIT_HANDSHAKE, NGTCP2_CS_CLIENT_HANDSHAKE_ALMOST_FINISHED,
             NGTCP2_CS_SERVER_INITIAL, NGTCP2_CS_SERVER_WAIT_HANDSHAKE}
        then conn_write_handshake_ack_pkt conn dest NGTCP2_PKT_HANDSHAKE ts
        else if cn_state conn = NGTCP2_CS_POST_HANDSHAKE then conn_write_protected_ack_pkt conn dest ts
        else writes conn []))"

text \<open>
  The key of a packet with stream data: that of 1-RTT packets, or of 0-RTT packets of a client. The
  result holds the flags and the type of the header and the connection identifier.
\<close>

definition stream_pkt_key :: "'a ngtcp2_conn \<Rightarrow> ngtcp2_lib_error + (u8 \<times> u8 \<times> u64 \<times> ngtcp2_crypto_km)" where
  "stream_pkt_key conn =
     (case cn_tx_ckm conn of
        Some ckm \<Rightarrow> Inr (NGTCP2_PKT_FLAG_NONE, conn_select_pkt_type conn (cn_last_tx_pkt_num conn + 1), cn_conn_id conn, ckm)
      | None \<Rightarrow>
          (case cn_early_ckm conn of
             Some ckm \<Rightarrow>
               if cn_server conn then Inl NGTCP2_ERR_NOKEY
               else if cn_flags conn AND NGTCP2_CONN_FLAG_EARLY_DATA_REJECTED \<noteq> 0 then Inl NGTCP2_ERR_EARLY_DATA_REJECTED
               else Inr (NGTCP2_PKT_FLAG_LONG_FORM, NGTCP2_PKT_0RTT_PROTECTED, cn_client_conn_id conn, ckm)
           | None \<Rightarrow> Inl NGTCP2_ERR_NOKEY))"

text \<open>A 0-RTT packet is kept apart until the handshake has completed, and is retransmitted with a short header.\<close>

definition stream_pkt_track :: "'a ngtcp2_conn \<Rightarrow> u8 \<Rightarrow> ngtcp2_rtb_entry \<Rightarrow> 'a step" where
  "stream_pkt_track conn pkt_type ent =
     (if pkt_type = NGTCP2_PKT_0RTT_PROTECTED then
        done0 (conn\<lparr>cn_early_rtb := cn_early_rtb conn @
          [ent\<lparr>re_hd := (re_hd ent)\<lparr>hd_flags := hd_flags (re_hd ent) AND NOT NGTCP2_PKT_FLAG_LONG_FORM, hd_type := NGTCP2_PKT_01\<rparr>\<rparr>]\<rparr>)
      else conn_track conn [] ent)"

text \<open>The length that flow control and the room in the packet allow.\<close>

definition stream_datalen :: "'a ngtcp2_conn \<Rightarrow> u64 \<Rightarrow> nat \<Rightarrow> nat \<Rightarrow> u64" where
  "stream_datalen conn sid datalen left =
     (let strm = cn_strm conn sid; n = ngtcp2_min (of_nat datalen) (of_nat left);
          n = ngtcp2_min n (sm_max_tx_offset strm - sm_tx_offset strm)
      in ngtcp2_min n (cn_max_tx_offset conn - cn_tx_offset conn))"

text \<open>What is left to do when a packet with \<open>n\<close> bytes of data has been written.\<close>

definition stream_pkt_sent :: "'a ngtcp2_conn \<Rightarrow> u64 \<Rightarrow> u64 \<Rightarrow> bool \<Rightarrow> 'a ngtcp2_conn" where
  "stream_pkt_sent conn stream_id n fin =
     (let conn = upd_strm conn stream_id (\<lambda>strm. strm\<lparr>sm_tx_offset := sm_tx_offset strm + n\<rparr>);
          conn = (if stream_id \<noteq> 0 then conn\<lparr>cn_tx_offset := cn_tx_offset conn + n\<rparr> else conn);
          conn = inc_tx_pkt_num conn
      in if fin then upd_strm conn stream_id (\<lambda>strm. ngtcp2_strm_shutdown strm NGTCP2_STRM_FLAG_SHUT_WR) else conn)"

text \<open>
  The packet with the first \<open>n\<close> bytes of the data. The third component of the result is their number, \<open>*pdatalen\<close>;
  \<open>None\<close> if it is not set.
\<close>

definition write_stream_pkt :: "'a ngtcp2_conn \<Rightarrow> ngtcp2_pkt_hd \<Rightarrow> u8 \<Rightarrow> ngtcp2_crypto_km \<Rightarrow> ngtcp2_ppe \<Rightarrow> u64 \<Rightarrow> bool \<Rightarrow> bytes \<Rightarrow> u64 \<Rightarrow> u64
    \<Rightarrow> ('a ngtcp2_conn \<times> nat option) written" where
  "write_stream_pkt conn hdr pkt_type ckm ppe stream_id fin data n ts =
     (case conn_call_send_pkt conn hdr of (conn, Some e) \<Rightarrow> refuses (conn, None) e
      | (conn, None) \<Rightarrow>
        with_malloc conn (\<lambda>conn. refuses (conn, None) NGTCP2_ERR_NOMEM) (\<lambda>conn.
        on_ok (conn, None) (ngtcp2_ppe_encode_frame ppe
            (FR_STREAM \<lparr>st_flags = 0, st_fin = fin, st_stream_id = stream_id, st_offset = sm_tx_offset (cn_strm conn stream_id),
               st_data = take (unat n) data\<rparr>))
          (\<lambda>(ppe, fr).
        case conn_call_send_frame conn hdr fr of (conn, Some e) \<Rightarrow> refuses (conn, None) e
        | (conn, None) \<Rightarrow>
          on_ok (conn, None) (pkt_final (Some ckm) ppe) (\<lambda>pkt.
          case conn_rtb_entry_new conn hdr [fr] ts (ts + NGTCP2_PKT_DEADLINE_PERIOD) pkt NGTCP2_RTB_FLAG_NONE of
            (conn, Err e) \<Rightarrow> refuses (conn, None) e
          | (conn, Fault) \<Rightarrow> Fault
          | (conn, Ok ent) \<Rightarrow>
            rbind (stream_pkt_track conn pkt_type ent) (\<lambda>(conn, rv).
            case rv of Some e \<Rightarrow> refuses (conn, None) e
            | None \<Rightarrow> writes (stream_pkt_sent conn stream_id n fin, Some (unat n)) pkt)))))"

definition ngtcp2_conn_write_stream :: "'a ngtcp2_conn \<Rightarrow> bytes \<Rightarrow> u64 \<Rightarrow> bool \<Rightarrow> bytes \<Rightarrow> u64 \<Rightarrow> ('a ngtcp2_conn \<times> nat option) written" where
  "ngtcp2_conn_write_stream conn dest stream_id fin data ts =
     (if cn_last_tx_pkt_num conn = UINT64_MAX then refuses (conn, None) NGTCP2_ERR_PKT_NUM_EXHAUSTED
      else rbind (ngtcp2_conn_find_stream conn stream_id) (\<lambda>strm.
      case strm of None \<Rightarrow> refuses (conn, None) NGTCP2_ERR_STREAM_NOT_FOUND
      | Some strm \<Rightarrow>
        if sm_flags strm AND NGTCP2_STRM_FLAG_SHUT_WR \<noteq> 0 then refuses (conn, None) NGTCP2_ERR_STREAM_SHUT_WR
        else case stream_pkt_key conn of Inl e \<Rightarrow> refuses (conn, None) e
        | Inr (pkt_flags, pkt_type, conn_id, ckm) \<Rightarrow>
          let hdr = conn_pkt_hd conn pkt_flags pkt_type conn_id in
          on_ok (conn, None) (pkt_begin dest (protected_ctx conn (Some ckm)) hdr) (\<lambda>ppe.
          let left = ngtcp2_ppe_left ppe in
          if left \<le> NGTCP2_STREAM_OVERHEAD then refuses (conn, None) NGTCP2_ERR_NOBUF
          else
            let n = stream_datalen conn stream_id (length data) (left - NGTCP2_STREAM_OVERHEAD) in
            if data \<noteq> [] \<and> n = 0 then refuses (conn, None) NGTCP2_ERR_STREAM_DATA_BLOCKED
            else write_stream_pkt conn hdr pkt_type ckm ppe stream_id (fin \<and> unat n = length data) data n ts)))"

definition ngtcp2_conn_write_connection_close :: "'a ngtcp2_conn \<Rightarrow> bytes \<Rightarrow> u16 \<Rightarrow> 'a ngtcp2_conn written" where
  "ngtcp2_conn_write_connection_close conn dest error_code =
     (if cn_last_tx_pkt_num conn = UINT64_MAX then refuses conn NGTCP2_ERR_PKT_NUM_EXHAUSTED
      else if cn_state conn = NGTCP2_CS_POST_HANDSHAKE then
        rbind (conn_write_single_frame_pkt conn dest (FR_CONNECTION_CLOSE \<lparr>cc_error_code = error_code, cc_reason = []\<rparr>)) (\<lambda>(conn, r).
        Ok (case r of Inr (_ # _) \<Rightarrow> conn\<lparr>cn_state := NGTCP2_CS_CLOSING\<rparr> | _ \<Rightarrow> conn, r))
      else refuses conn NGTCP2_ERR_INVALID_STATE)"

definition ngtcp2_conn_write_application_close :: "'a ngtcp2_conn \<Rightarrow> bytes \<Rightarrow> u16 \<Rightarrow> 'a ngtcp2_conn written" where
  "ngtcp2_conn_write_application_close conn dest app_error_code =
     (if app_error_code = NGTCP2_STOPPING then refuses conn NGTCP2_ERR_INVALID_ARGUMENT
      else if cn_last_tx_pkt_num conn = UINT64_MAX then refuses conn NGTCP2_ERR_PKT_NUM_EXHAUSTED
      else if cn_state conn = NGTCP2_CS_POST_HANDSHAKE then
        enter_state (conn_write_single_frame_pkt conn dest (FR_APPLICATION_CLOSE \<lparr>cc_error_code = app_error_code, cc_reason = []\<rparr>)) NGTCP2_CS_CLOSING
      else refuses conn NGTCP2_ERR_INVALID_STATE)"

end
