(* ===== verification/Conn_Ack.thy ===== *)
theory Conn_Ack
  imports Conn_Write Acktr
begin

text \<open>
  The ACK frames that \<open>conn_create_ack_frame\<close> makes: the loop over the tracker keeps a frame of complete ranges and the
  range that is being extended (\<open>build_ok\<close>); together they cover the packets seen so far (\<open>covered\<close>).
\<close>

section \<open>Ranges at the end of a frame\<close>

fun blks_min :: "u64 \<Rightarrow> ngtcp2_ack_blk list \<Rightarrow> u64" where
  "blks_min m [] = m"
| "blks_min m (b # bl) = blks_min (m - blk_gap b - 2 - blk_blklen b) bl"

lemma blk_ranges_append:
  "blk_ranges m (bl @ [b]) = blk_ranges m bl @ [(blks_min m bl - blk_gap b - 2, blks_min m bl - blk_gap b - 2 - blk_blklen b)]"
  by (induction m bl rule: blks_min.induct) (simp_all add: Let_def)

lemma blks_min_append: "blks_min m (bl @ [b]) = blks_min m bl - blk_gap b - 2 - blk_blklen b"
  by (induction m bl rule: blks_min.induct) simp_all

lemma validate_append:
  "validate_blks m (bl @ [b]) = None \<longleftrightarrow>
     validate_blks m bl = None \<and> blk_gap b + 2 \<le> blks_min m bl \<and> blk_blklen b \<le> blks_min m bl - blk_gap b - 2"
  by (induction m bl rule: blks_min.induct) (auto simp: Let_def not_less sub_two)

section \<open>Construction of a frame\<close>

text \<open>The frame with the ranges that are complete, and whether it exists yet.\<close>

definition built_frame :: "u64 \<Rightarrow> u64 \<Rightarrow> ack_build \<Rightarrow> ngtcp2_ack" where
  "built_frame num delay b = \<lparr>ack_largest_ack = num, ack_ack_delay = delay, ack_first_ack_blklen = ab_first_blklen b, ack_blks = ab_blks b\<rparr>"

definition covered :: "u64 \<Rightarrow> ack_build \<Rightarrow> u64 \<Rightarrow> bool" where
  "covered num b p \<longleftrightarrow> \<not> ab_initial b \<and> acked (built_frame num 0 b) p \<or> ab_last b \<le> p \<and> p \<le> ab_first b"

definition build_ok :: "u64 \<Rightarrow> ack_build \<Rightarrow> bool" where
  "build_ok num b \<longleftrightarrow> ab_last b \<le> ab_first b \<and> ab_mem b = [] \<and>
     (if ab_initial b then ab_blks b = [] \<and> ab_first b = num
      else ack_valid (built_frame num 0 b) \<and> unat (ab_gap b) + 2 < 2 ^ 64 \<and>
        (let m = blks_min (num - ab_first_blklen b) (ab_blks b) in ab_gap b + 2 \<le> m \<and> ab_first b = m - ab_gap b - 2))"

lemma ensure_blks_ok:
  assumes "ab_mem b = []"
  shows "\<exists>n. conn_ensure_ack_blks b k = (b\<lparr>ab_max := n\<rparr>, None)"
  using assms by (cases b) (auto simp: conn_ensure_ack_blks_def ngtcp2_mem_realloc_def)

lemma close_range_ok:
  assumes ok: "build_ok num b"
  obtains b' where "ack_close_range b = (b', None)" and "\<not> ab_initial b'" and "ack_valid (built_frame num delay b')"
    and "ab_mem b' = []" and "ab_last b' = ab_last b" and "blks_min (num - ab_first_blklen b') (ab_blks b') = ab_last b"
    and "length (ab_blks b') = length (ab_blks b) + (if ab_initial b then 0 else 1)"
    and "\<And>p. acked (built_frame num delay b') p \<longleftrightarrow> covered num b p"
proof (cases "ab_initial b")
  case True
  let ?b = "b\<lparr>ab_initial := False, ab_first_blklen := ab_first b - ab_last b\<rparr>"
  have le: "ab_last b \<le> num" and b: "ab_mem b = []" "ab_blks b = []" "ab_first b = num" using ok True by (auto simp: build_ok_def)
  then have "num - ab_last b \<le> num" by (simp add: word_sub_le)
  then show thesis using that [of ?b] True b
    by (auto simp: ack_close_range_def ack_valid_def ngtcp2_pkt_validate_ack_def built_frame_def acked_def covered_def not_less)
next
  case False
  let ?m = "blks_min (num - ab_first_blklen b) (ab_blks b)"
  have b: "ab_mem b = []" "ab_last b \<le> ab_first b" "ack_valid (built_frame num 0 b)" "unat (ab_gap b) + 2 < 2 ^ 64"
    "ab_gap b + 2 \<le> ?m" "ab_first b = ?m - ab_gap b - 2"
    using ok False by (auto simp: build_ok_def Let_def)
  obtain n where n: "conn_ensure_ack_blks b (length (ab_blks b) + 1) = (b\<lparr>ab_max := n\<rparr>, None)" using ensure_blks_ok [OF b(1)] by blast
  let ?blk = "\<lparr>blk_gap = ab_gap b, blk_blklen = ab_first b - ab_last b\<rparr>"
  let ?b = "b\<lparr>ab_max := n, ab_blks := ab_blks b @ [?blk]\<rparr>"
  have run: "ack_close_range b = (?b, None)" using False n by (simp add: ack_close_range_def Let_def)
  have "ab_first b - ab_last b \<le> ab_first b" using b(2) by (rule word_sub_le)
  then have "validate_blks (num - ab_first_blklen b) (ab_blks b @ [?blk]) = None"
    using b(3,5) unfolding validate_append by (auto simp: ack_valid_def ngtcp2_pkt_validate_ack_def built_frame_def b(6) split: if_splits)
  then have "ack_valid (built_frame num delay ?b)"
    using b(3,4) by (auto simp: ack_valid_def ngtcp2_pkt_validate_ack_def built_frame_def split: if_splits)
  moreover have "acked (built_frame num delay ?b) p \<longleftrightarrow> covered num b p" for p
    using False by (auto simp: acked_def built_frame_def blk_ranges_append covered_def b(6) [symmetric])
  moreover have "blks_min (num - ab_first_blklen ?b) (ab_blks ?b) = ab_last b" by (simp add: blks_min_append b(6) [symmetric])
  ultimately show thesis using that [of ?b] run b(1) False by simp
qed

text \<open>The packets that an ACK frame reports: all of them, or those that were not protected.\<close>

abbreviation reported :: "bool \<Rightarrow> ngtcp2_acktr_entry \<Rightarrow> bool" where
  "reported unprotected e \<equiv> unprotected \<longrightarrow> ae_unprotected e \<noteq> 0"

lemma next_below:
  assumes "(n :: u64) < l" and "n + 1 \<noteq> l"
  shows "unat (l - n - 2) + 2 < 2 ^ 64" and "l - n - 2 + 2 \<le> l" and "n = l - (l - n - 2) - 2"
proof -
  have "unat (n + 1) = unat n + 1"
    using assms(1) unat_u64_less [of l] by (subst unat_add_small) (simp_all add: word_less_nat_alt del: unat_u64_less)
  then have "unat n + 1 \<noteq> unat l" using assms(2) by (metis word_unat_eq_iff)
  then have lt: "unat n + 2 \<le> unat l" using assms(1) by (simp add: word_less_nat_alt)
  have 1: "unat (l - n) = unat l - unat n" using assms(1) by (simp add: unat_sub word_less_nat_alt word_le_nat_alt)
  then have "2 \<le> l - n" using lt by (simp add: word_le_nat_alt)
  then have 2: "unat (l - n - 2) = unat l - unat n - 2" by (simp add: unat_sub 1)
  show "unat (l - n - 2) + 2 < 2 ^ 64" using lt 2 unat_u64_less [of l] by (simp del: unat_u64_less)
  show "l - n - 2 + 2 \<le> l" using 1 by (simp add: word_le_nat_alt)
  show "n = l - (l - n - 2) - 2" by simp
qed

lemma succ_le: "(n :: u64) < l \<Longrightarrow> n < p \<longleftrightarrow> n + 1 \<le> p"
  using unat_add_small [of n 1] unat_u64_less [of l] by (auto simp: word_less_nat_alt word_le_nat_alt simp del: unat_u64_less)

lemma cover_step:
  assumes "\<forall>p. c2 p \<longleftrightarrow> c1 p \<or> p \<in> f ` {x \<in> set (pre @ xs). P x}" and "\<And>p. c1 p \<longleftrightarrow> c p \<or> p = f e" and "P e"
  shows "\<forall>p. c2 p \<longleftrightarrow> c p \<or> p \<in> f ` {x \<in> set ((e # pre) @ xs). P x}"
  using assms by auto

lemma ack_loop_ok:
  "build_ok num b \<Longrightarrow> desc_by ae_pkt_num es \<Longrightarrow> \<forall>e \<in> set es. ae_pkt_num e < ab_last b \<Longrightarrow> length (ab_blks b) < NGTCP2_MAX_ACK_BLKS \<Longrightarrow>
   \<exists>b' pre rest. ack_loop unprotected es b = (b', rest, None) \<and> es = pre @ rest \<and> build_ok num b' \<and>
     (\<forall>p. covered num b' p \<longleftrightarrow> covered num b p \<or> p \<in> ae_pkt_num ` {e \<in> set (pre @ take 1 rest). reported unprotected e}) \<and>
     (if rest = [] then length (ab_blks b') < NGTCP2_MAX_ACK_BLKS
      else \<not> ab_initial b' \<and> length (ab_blks b') = NGTCP2_MAX_ACK_BLKS)"
proof (induction unprotected es b rule: ack_loop.induct)
  case (1 unprotected b)
  then show ?case by (intro exI [of _ b] exI [of _ "[]"]) simp
next
  case (2 unprotected e es b)
  let ?P = "reported unprotected" and ?n = "ae_pkt_num e"
  have es: "desc_by ae_pkt_num es" "\<forall>x \<in> set es. ae_pkt_num x < ?n" "?n < ab_last b" using "2.prems" by simp_all
  consider (skip) "\<not> ?P e" | (extend) "?P e" "?n + 1 = ab_last b" | (close) "?P e" "?n + 1 \<noteq> ab_last b" by blast
  then show ?case
  proof cases
    case skip
    have "\<forall>x \<in> set es. ae_pkt_num x < ab_last b" using es by auto
    from "2.IH"(1) [OF _ "2.prems"(1) es(1) this "2.prems"(4)] skip obtain b' pre rest where
      "ack_loop unprotected es b = (b', rest, None)" "es = pre @ rest" "build_ok num b'"
      "\<forall>p. covered num b' p \<longleftrightarrow> covered num b p \<or> p \<in> ae_pkt_num ` {e \<in> set (pre @ take 1 rest). ?P e}"
      "if rest = [] then length (ab_blks b') < NGTCP2_MAX_ACK_BLKS else \<not> ab_initial b' \<and> length (ab_blks b') = NGTCP2_MAX_ACK_BLKS" by auto
    with skip show ?thesis by (intro exI [of _ b'] exI [of _ "e # pre"] exI [of _ rest]) auto
  next
    case extend
    let ?b = "b\<lparr>ab_last := ?n\<rparr>"
    have le: "?n < ab_first b" "ab_last b \<le> ab_first b" using "2.prems"(1) es(3) by (auto simp: build_ok_def)
    have ok: "build_ok num ?b" using "2.prems"(1) le unfolding build_ok_def by (auto simp: built_frame_def Let_def split: if_splits)
    have cov: "covered num ?b p \<longleftrightarrow> covered num b p \<or> p = ?n" for p
    proof -
      have "?n \<le> p \<and> p \<le> ab_first b \<longleftrightarrow> ab_last b \<le> p \<and> p \<le> ab_first b \<or> p = ?n"
      proof -
        have "?n < p \<longleftrightarrow> ab_last b \<le> p" using succ_le [OF es(3), of p] extend(2) by simp
        then show ?thesis using le by (auto simp: order.order_iff_strict)
      qed
      then show ?thesis by (auto simp: covered_def built_frame_def)
    qed
    from "2.IH"(2) [OF _ _ ok es(1)] extend es(2) "2.prems"(4) obtain b' pre rest where r:
      "ack_loop unprotected es ?b = (b', rest, None)" "es = pre @ rest" "build_ok num b'"
      "\<forall>p. covered num b' p \<longleftrightarrow> covered num ?b p \<or> p \<in> ae_pkt_num ` {e \<in> set (pre @ take 1 rest). ?P e}"
      "if rest = [] then length (ab_blks b') < NGTCP2_MAX_ACK_BLKS else \<not> ab_initial b' \<and> length (ab_blks b') = NGTCP2_MAX_ACK_BLKS" by auto
    have "ack_loop unprotected (e # es) b = (b', rest, None)" using extend r(1) by auto
    then show ?thesis using r(2,3,5) cover_step [OF r(4) cov extend(1)]
      by (intro exI [of _ b'] exI [of _ "e # pre"] exI [of _ rest] conjI) simp_all
  next
    case close
    obtain b1 where b1: "ack_close_range b = (b1, None)" "\<not> ab_initial b1" "ack_valid (built_frame num 0 b1)" "ab_mem b1 = []" "ab_last b1 = ab_last b"
      "blks_min (num - ab_first_blklen b1) (ab_blks b1) = ab_last b" "length (ab_blks b1) = length (ab_blks b) + (if ab_initial b then 0 else 1)"
      "\<And>p. acked (built_frame num 0 b1) p \<longleftrightarrow> covered num b p"
      using close_range_ok [OF "2.prems"(1)] by metis
    let ?b = "b1\<lparr>ab_gap := ab_last b1 - ?n - 2, ab_first := ?n, ab_last := ?n\<rparr>"
    have ok: "build_ok num ?b" using b1 next_below [OF es(3) close(2)] unfolding build_ok_def by (simp add: built_frame_def Let_def)
    have cov: "covered num ?b p \<longleftrightarrow> covered num b p \<or> p = ?n" for p
    proof -
      have "built_frame num 0 ?b = built_frame num 0 b1" by (simp add: built_frame_def)
      then have "covered num ?b p \<longleftrightarrow> acked (built_frame num 0 b1) p \<or> p = ?n" using b1(2) unfolding covered_def by auto
      then show ?thesis unfolding b1(8) .
    qed
    show ?thesis
    proof (cases "length (ab_blks ?b) = NGTCP2_MAX_ACK_BLKS")
      case True
      then show ?thesis using close b1(1,2) ok
        by (intro exI [of _ ?b] exI [of _ "[]"] exI [of _ "e # es"]) (auto simp: cov Let_def)
    next
      case False
      then have len: "length (ab_blks ?b) < NGTCP2_MAX_ACK_BLKS" using b1(7) "2.prems"(4) by (auto split: if_splits)
      from "2.IH"(3) [OF _ _ b1(1) [symmetric] refl refl _ ok es(1) _ len] close False es(2) obtain b' pre rest where r:
        "ack_loop unprotected es ?b = (b', rest, None)" "es = pre @ rest" "build_ok num b'"
        "\<forall>p. covered num b' p \<longleftrightarrow> covered num ?b p \<or> p \<in> ae_pkt_num ` {e \<in> set (pre @ take 1 rest). ?P e}"
        "if rest = [] then length (ab_blks b') < NGTCP2_MAX_ACK_BLKS else \<not> ab_initial b' \<and> length (ab_blks b') = NGTCP2_MAX_ACK_BLKS" by auto
      have "ack_loop unprotected (e # es) b = (b', rest, None)" using close b1(1) False r(1) by (auto simp: Let_def)
      then show ?thesis using r(2,3,5) cover_step [OF r(4) cov close(1)]
        by (intro exI [of _ b'] exI [of _ "e # pre"] exI [of _ rest] conjI) simp_all
    qed
  qed
qed


text \<open>
  The frame \<open>fr\<close> made from a tracker, which is left as \<open>acktr'\<close>: it is valid and acknowledges exactly the first \<open>k\<close> packets of the tracker,
  of which only those are counted that the frame is to report. These are all of them unless the frame has 256 blocks; then the tracker
  keeps the packets above the last one that is acknowledged.
\<close>

definition ack_reports :: "ngtcp2_acktr \<Rightarrow> bool \<Rightarrow> ngtcp2_ack \<Rightarrow> ngtcp2_acktr \<Rightarrow> bool" where
  "ack_reports acktr unprotected fr acktr' \<longleftrightarrow> ack_valid fr \<and> (\<exists>k \<le> length (at_ent acktr).
     (\<forall>p. acked fr p \<longleftrightarrow> p \<in> ae_pkt_num ` {e \<in> set (take k (at_ent acktr)). reported unprotected e}) \<and>
     (if length (ack_blks fr) \<le> 255 then k = length (at_ent acktr) \<and> acktr' = acktr
      else length (ack_blks fr) = 256 \<and> 0 < k \<and> at_ent acktr' = take (k - 1) (at_ent acktr)))"

lemma create_ack_frame_ok:
  assumes list: "acktr_list_ok (cn_acktr conn)" and mem: "cn_mem conn = []"
  shows "if \<not> at_active_ack (cn_acktr conn) \<or> \<not> (\<exists>e \<in> set (at_ent (cn_acktr conn)). reported unprotected e)
    then conn_create_ack_frame conn ts unprotected = Ok (conn_invalidate_next_ack_expiry conn, Inr None)
    else if unat (se_ack_delay_exponent (cn_local_settings conn)) < 64
    then \<exists>acktr fr. conn_create_ack_frame conn ts unprotected = Ok (conn\<lparr>cn_acktr := acktr\<rparr>, Inr (Some fr)) \<and>
      acktr_list_ok acktr \<and> at_acks acktr = at_acks (cn_acktr conn) \<and> ack_reports (cn_acktr conn) unprotected fr acktr
    else conn_create_ack_frame conn ts unprotected = Fault"
proof -
  let ?ents = "at_ent (cn_acktr conn)" and ?P = "reported unprotected"
  let ?from = "if unprotected then dropWhile (\<lambda>e. ae_unprotected e = 0) ?ents else ?ents"
  have mem': "conn\<lparr>cn_mem := []\<rparr> = conn" using mem by simp
  have from': "(if unprotected then dropWhile (\<lambda>e. ae_unprotected e = 0) (ngtcp2_acktr_get (cn_acktr conn)) else ngtcp2_acktr_get (cn_acktr conn)) = ?from"
    by (simp only: ngtcp2_acktr_get_def)
  have none: "?from = [] \<longleftrightarrow> \<not> (\<exists>e \<in> set ?ents. ?P e)" by (auto simp: neq_Nil_conv)
  show ?thesis
  proof (cases "\<not> at_active_ack (cn_acktr conn) \<or> ?from = []")
    case True
    then have "conn_create_ack_frame conn ts unprotected = Ok (conn_invalidate_next_ack_expiry conn, Inr None)"
      unfolding conn_create_ack_frame_def from' by (elim disjE) simp_all
    then show ?thesis using True unfolding none by simp
  next
    case False
    then obtain e es where 2: "at_active_ack (cn_acktr conn)" "?from = e # es" by (cases ?from) auto
    let ?b = "\<lparr>ab_first = ae_pkt_num e, ab_last = ae_pkt_num e, ab_initial = True, ab_first_blklen = 0, ab_gap = 0, ab_blks = [], ab_max = 8, ab_mem = []\<rparr>"
    obtain sk where sk: "?ents = sk @ e # es" "\<forall>x \<in> set sk. \<not> ?P x" "?P e"
    proof (cases unprotected)
      case True
      then have "?ents = takeWhile (\<lambda>e. ae_unprotected e = 0) ?ents @ e # es" using 2 by (metis takeWhile_dropWhile_id)
      moreover have "ae_unprotected e \<noteq> 0" using True 2 hd_dropWhile [of "\<lambda>e. ae_unprotected e = 0" ?ents] by auto
      ultimately show thesis using that True by (auto dest: set_takeWhileD)
    qed (use 2 that [of "[]"] in auto)
    have desc: "desc_by ae_pkt_num es" "\<forall>x \<in> set es. ae_pkt_num x < ae_pkt_num e" using list unfolding acktr_list_ok_def sk(1) by simp_all
    have "build_ok (ae_pkt_num e) ?b" by (simp add: build_ok_def)
    from ack_loop_ok [OF this desc(1), of unprotected] desc(2) obtain b1 pre rest where loop:
      "ack_loop unprotected es ?b = (b1, rest, None)" "es = pre @ rest" "build_ok (ae_pkt_num e) b1"
      "\<And>p. covered (ae_pkt_num e) b1 p \<longleftrightarrow> covered (ae_pkt_num e) ?b p \<or> p \<in> ae_pkt_num ` {e \<in> set (pre @ take 1 rest). ?P e}"
      "if rest = [] then length (ab_blks b1) < NGTCP2_MAX_ACK_BLKS else \<not> ab_initial b1 \<and> length (ab_blks b1) = NGTCP2_MAX_ACK_BLKS"
      by auto
    let ?delay = "drop_bit (unat (se_ack_delay_exponent (cn_local_settings conn))) (ts - ae_tstamp e)"
    obtain b2 where b2: "ack_close_range b1 = (b2, None)" "ack_valid (built_frame (ae_pkt_num e) ?delay b2)" "ab_mem b2 = []"
      "length (ab_blks b2) = length (ab_blks b1) + (if ab_initial b1 then 0 else 1)"
      "\<And>p. acked (built_frame (ae_pkt_num e) ?delay b2) p \<longleftrightarrow> covered (ae_pkt_num e) b1 p"
      using close_range_ok [OF loop(3)] by metis
    let ?fr = "built_frame (ae_pkt_num e) ?delay b2"
    let ?acktr = "case rest of [] \<Rightarrow> cn_acktr conn | x # _ \<Rightarrow> ngtcp2_acktr_forget (cn_acktr conn) (ae_pkt_num x)"
    have res: "conn_create_ack_frame conn ts unprotected =
        (if unat (se_ack_delay_exponent (cn_local_settings conn)) < 64 then Ok (conn\<lparr>cn_acktr := ?acktr\<rparr>, Inr (Some ?fr)) else Fault)"
      unfolding conn_create_ack_frame_def from' 2(2)
      using 2(1) loop(1) b2(1,3) by (cases rest) (auto simp: mem mem' with_malloc_def c_assert_def built_frame_def Let_def)
    have reported: "\<exists>e \<in> set ?ents. ?P e" using none 2(2) by simp
    let ?k = "length (sk @ [e] @ pre @ take 1 rest)"
    have take: "take ?k ?ents = sk @ [e] @ pre @ take 1 rest" unfolding sk(1) loop(2) by (cases rest) simp_all
    have ack: "\<forall>p. acked ?fr p \<longleftrightarrow> p \<in> ae_pkt_num ` {e \<in> set (take ?k ?ents). ?P e}"
      unfolding take b2(5) loop(4) using sk(2,3) by (auto simp: covered_def)
    have k: "?k \<le> length ?ents" unfolding sk(1) loop(2) by (cases rest) simp_all
    show ?thesis
    proof (cases rest)
      case Nil
      then have "?k = length ?ents" "length (ack_blks ?fr) \<le> 255" using loop(2,5) b2(4) sk(1) by (auto simp: built_frame_def)
      then have "ack_reports (cn_acktr conn) unprotected ?fr (cn_acktr conn)"
        unfolding ack_reports_def by (intro conjI exI [of _ ?k]) (use ack b2(2) in simp_all)
      then show ?thesis using res Nil list reported 2(1) by (auto intro!: exI [of _ "cn_acktr conn"])
    next
      case (Cons x xs)
      then have n: "ae_pkt_num x \<in> ae_pkt_num ` set ?ents" unfolding sk(1) loop(2) by simp
      have "desc_by ae_pkt_num ((sk @ e # pre) @ x # xs)" using list unfolding acktr_list_ok_def sk(1) loop(2) Cons by simp
      then have "filter (\<lambda>y. ae_pkt_num x < ae_pkt_num y) ((sk @ e # pre) @ x # xs) = sk @ e # pre"
        by (auto simp: filter_id_conv filter_empty_conv not_less less_imp_le)
      then have f: "at_ent (ngtcp2_acktr_forget (cn_acktr conn) (ae_pkt_num x)) = take (?k - 1) ?ents"
        using acktr_forget_ok(2) [OF list n] unfolding sk(1) loop(2) Cons by simp
      have len: "length (ack_blks ?fr) = 256" using loop(5) b2(4) Cons by (simp add: built_frame_def)
      have "ack_reports (cn_acktr conn) unprotected ?fr (ngtcp2_acktr_forget (cn_acktr conn) (ae_pkt_num x))"
        unfolding ack_reports_def by (intro conjI exI [of _ ?k]) (use ack b2(2) len f k in simp_all)
      then show ?thesis using res Cons acktr_forget_ok(1) [OF list n] reported 2(1) by (auto simp: acktr_same_acks)
    qed
  qed
qed


section \<open>Properties\<close>

text \<open>
  C9. The ACK frame that is made from a tracker with packets to report passes the validation of a receiver, and acknowledges
  exactly the first \<open>k\<close> of the packets of the tracker, or those of them that were not protected when the frame is for a
  handshake packet: no packet that was not received is acknowledged. These are all of them, unless the frame has
  256 blocks after the first range; then the tracker keeps the packets above the last one that is acknowledged.
\<close>

theorem ack_frame_reports:
  assumes "acktr_wf (cn_acktr conn)" and "cn_mem conn = []" and "at_active_ack (cn_acktr conn)"
    and "\<exists>e \<in> set (at_ent (cn_acktr conn)). unprotected \<longrightarrow> ae_unprotected e \<noteq> 0"
    and "unat (se_ack_delay_exponent (cn_local_settings conn)) < 64"
  shows "\<exists>acktr fr. conn_create_ack_frame conn ts unprotected = Ok (conn\<lparr>cn_acktr := acktr\<rparr>, Inr (Some fr)) \<and> acktr_wf acktr \<and>
    ngtcp2_pkt_validate_ack fr = None \<and> (\<exists>k \<le> length (at_ent (cn_acktr conn)).
      (\<forall>p. acked fr p \<longleftrightarrow> p \<in> ae_pkt_num ` {e \<in> set (take k (at_ent (cn_acktr conn))). unprotected \<longrightarrow> ae_unprotected e \<noteq> 0}) \<and>
      (if length (ack_blks fr) \<le> 255 then k = length (at_ent (cn_acktr conn)) \<and> acktr = cn_acktr conn
       else length (ack_blks fr) = 256 \<and> 0 < k \<and> at_ent acktr = take (k - 1) (at_ent (cn_acktr conn))))"
proof -
  have "acktr_list_ok (cn_acktr conn)" using assms(1) by (simp add: acktr_wf_def)
  from create_ack_frame_ok [OF this assms(2), of unprotected ts] assms(3-5) obtain acktr fr where
    run: "conn_create_ack_frame conn ts unprotected = Ok (conn\<lparr>cn_acktr := acktr\<rparr>, Inr (Some fr))" "acktr_list_ok acktr"
      "at_acks acktr = at_acks (cn_acktr conn)" and rep: "ack_reports (cn_acktr conn) unprotected fr acktr"
    by (auto split: if_splits)
  have "ngtcp2_pkt_validate_ack fr = None" using rep by (simp add: ack_reports_def ack_valid_def)
  then show ?thesis using run acktr_wf_cong [OF assms(1) run(2,3)] rep unfolding ack_reports_def by blast
qed

theorem ack_frame_reports_witness:
  "\<exists>conn conn' :: unit ngtcp2_conn. \<exists>fr. map ae_pkt_num (at_ent (cn_acktr conn)) = [5, 4, 2] \<and>
     conn_create_ack_frame conn 9 False = Ok (conn', Inr (Some fr)) \<and> acked fr 5 \<and> \<not> acked fr 3"
proof -
  obtain acktr where a: "ngtcp2_acktr_init [] = (Ok acktr, [])"
    using popcount_pow2 [of 7] by (simp add: ngtcp2_acktr_init_def ngtcp2_ringbuf_init_def)
  let ?e = "\<lambda>n. \<lparr>ae_pkt_num = n, ae_tstamp = 1, ae_unprotected = 0\<rparr>"
  let ?t = "acktr\<lparr>at_ent := [?e 5, ?e 4, ?e 2], at_tail := TailEntry 2, at_active_ack := True, at_nack := 3\<rparr>"
  let ?c = "undefined\<lparr>cn_acktr := ?t, cn_mem := [], cn_local_settings := undefined\<lparr>se_ack_delay_exponent := 3\<rparr>\<rparr> :: unit ngtcp2_conn"
  have "acktr_wf ?t" using acktr_init_inv [OF a] by - (rule acktr_wf_cong [of acktr], simp_all add: acktr_inv_wf acktr_list_ok_def)
  then have "acktr_wf (cn_acktr ?c)" "cn_mem ?c = []" "at_active_ack (cn_acktr ?c)" "\<exists>e \<in> set (at_ent (cn_acktr ?c)). False \<longrightarrow> ae_unprotected e \<noteq> 0"
    "unat (se_ack_delay_exponent (cn_local_settings ?c)) < 64" by simp_all blast
  from ack_frame_reports [OF this, of 9] obtain acktr' fr k where run: "conn_create_ack_frame ?c 9 False = Ok (?c\<lparr>cn_acktr := acktr'\<rparr>, Inr (Some fr))"
    and k: "\<forall>p. acked fr p \<longleftrightarrow> p \<in> ae_pkt_num ` {e \<in> set (take k (at_ent (cn_acktr ?c))). False \<longrightarrow> ae_unprotected e \<noteq> 0}"
      "if length (ack_blks fr) \<le> 255 then k = length (at_ent (cn_acktr ?c)) \<and> acktr' = cn_acktr ?c
       else length (ack_blks fr) = 256 \<and> 0 < k \<and> at_ent acktr' = take (k - 1) (at_ent (cn_acktr ?c))"
    by blast
  have "0 < k" using k(2) by (auto split: if_splits)
  then have "acked fr 5" using k(1) by (cases k) (auto intro: rev_image_eqI [of "?e 5"])
  moreover have "\<not> acked fr 3" using k(1) by (auto dest!: in_set_takeD)
  ultimately show ?thesis using run by (intro exI [of _ ?c] exI conjI) (simp, assumption+)
qed

end
