(* ===== verification/Alloc.thy ===== *)
theory Alloc
  imports Strm Idtr Hashmap
begin

section \<open>An allocator that does not fail\<close>

text \<open>
  No operation adds outcomes of the allocator, so an allocator that has none left, and does not fail any
  more, stays so. The connection relies on it for the operations that allocate.
\<close>

lemma gap_new_total:
  "ngtcp2_gaptr_gap_new b e [] = (Some (ngtcp2_range_init b e), [])" "ngtcp2_idtr_gap_new b e [] = (Some (ngtcp2_range_init b e), [])"
  "ngtcp2_rob_gap_new b e [] = (Some (ngtcp2_range_init b e), [])"
  by (simp_all add: ngtcp2_gaptr_gap_new_def ngtcp2_idtr_gap_new_def ngtcp2_rob_gap_new_def)

lemma link_mem: "fst (snd (link l r)) = fst (snd r)"
  by (simp add: link_def split: prod.splits)

lemma if_mem: "fst (snd (if b then x else y)) = [] \<longleftrightarrow> (if b then fst (snd x) = [] else fst (snd y) = [])"
  by simp

lemma gaptr_push_loop_total: "fst (snd (gaptr_push_loop q gs [])) = []"
proof (induction gs)
  case (Cons g gs)
  show ?case by (simp add: Let_def gap_new_total case_prod_unfold if_mem link_mem Cons)
qed simp

lemma gaptr_push_total: "ngtcp2_gaptr_push gaptr offset datalen [] = (gaptr', mem', rv) \<Longrightarrow> mem' = []"
  using gaptr_push_loop_total [of "ngtcp2_range_init offset (offset + datalen)" "gaptr_gap gaptr"]
  by (auto simp: ngtcp2_gaptr_push_def Let_def split: prod.splits)

lemma idtr_open_total: "ngtcp2_idtr_open idtr sid [] = Ok (idtr', mem', rv) \<Longrightarrow> mem' = []"
proof -
  have loop: "fst (snd (idtr_open_loop q gs [])) = []" for q gs
    by (induction gs) (simp_all add: gap_new_total if_mem link_mem)
  show "ngtcp2_idtr_open idtr sid [] = Ok (idtr', mem', rv) \<Longrightarrow> mem' = []"
    using loop [of "id_from_stream_id sid" "idtr_gap idtr"]
    by (auto simp: ngtcp2_idtr_open_def c_assert_def split: prod.splits if_splits)
qed

definition no_alloc :: "('x \<times> 'm list \<times> rc) result \<Rightarrow> bool" where
  "no_alloc r \<longleftrightarrow> (\<forall>x mem rv. r = Ok (x, mem, rv) \<longrightarrow> mem = [])"

lemma no_alloc_simps:
  "no_alloc (Ok (x, mem, rv)) \<longleftrightarrow> mem = []" "no_alloc Fault" "no_alloc (put_back d r) \<longleftrightarrow> no_alloc r"
  "no_alloc (if b then r1 else r2) \<longleftrightarrow> (if b then no_alloc r1 else no_alloc r2)"
  by (auto simp: no_alloc_def put_back_def rbind_Ok_iff)

lemma no_alloc_rbind: "(\<And>x. m = Ok x \<Longrightarrow> no_alloc (f x)) \<Longrightarrow> no_alloc (rbind m f)"
  by (cases m) (auto simp: no_alloc_def)

lemma rob_write_data_total: "no_alloc (rob_write_data chunk ds offset data len [])"
proof (induction chunk ds offset data len "[] :: ngtcp2_mem" rule: rob_write_data.induct)
  case (1 chunk ds offset data len)
  have new: "ngtcp2_rob_data_new b e [] = (Some d, [])" if "ngtcp2_rob_data_new b e [] = (Some d, mem)" for b e d mem
    using that by (simp add: ngtcp2_rob_data_new_def)
  obtain d where d: "ngtcp2_rob_data_new (offset div chunk * chunk) chunk [] = (Some d, [])"
    by (simp add: ngtcp2_rob_data_new_def)
  show ?case
    by (subst rob_write_data.simps) (use 1 d in \<open>auto simp: no_alloc_simps Let_def intro!: no_alloc_rbind\<close>)
qed

definition no_allocs :: "('x \<times> 'y \<times> 'm list \<times> rc) result \<Rightarrow> bool" where
  "no_allocs r \<longleftrightarrow> (\<forall>x y mem rv. r = Ok (x, y, mem, rv) \<longrightarrow> mem = [])"

lemma no_allocs_simps:
  "no_allocs (Ok (x, y, mem, rv)) \<longleftrightarrow> mem = []" "no_allocs (link_gap g r) \<longleftrightarrow> no_allocs r"
  "no_allocs (if b then r1 else r2) \<longleftrightarrow> (if b then no_allocs r1 else no_allocs r2)"
  by (auto simp: no_allocs_def link_gap_def rbind_Ok_iff)

lemma no_allocs_rbind: "no_alloc m \<Longrightarrow> (\<And>x rv. no_allocs (f (x, [], rv))) \<Longrightarrow> no_allocs (rbind m f)"
  by (cases m) (fastforce simp: no_allocs_def no_alloc_def)+

lemma rob_push_loop_total: "no_allocs (rob_push_loop chunk offset data q gs ds [])"
proof (induction gs arbitrary: ds)
  case (Cons g gs)
  show ?case
    by (auto simp: Let_def gap_new_total case_prod_unfold no_allocs_simps Cons intro!: no_allocs_rbind rob_write_data_total)
qed (simp add: no_allocs_simps)

lemma rob_push_total: "ngtcp2_rob_push rob offset data n [] = Ok (rob', mem', rv) \<Longrightarrow> mem' = []"
  using rob_push_loop_total [of "rob_chunk rob" offset data "\<lparr>rg_begin = offset, rg_end = offset + n\<rparr>" "rob_gap rob" "rob_data rob"]
  by (auto simp: ngtcp2_rob_push_def Let_def rbind_Ok_iff no_allocs_def)

lemma map_insert_total: "no_alloc (ngtcp2_map_insert m e tail [])"
  by (auto simp: ngtcp2_map_insert_def map_resize_def ngtcp2_mem_calloc_def no_alloc_simps intro!: no_alloc_rbind split: if_splits
     simp: rbind_Ok_iff)

lemma strm_init_total: "ngtcp2_strm_init sid fl rx tx ud [] = (r, mem') \<Longrightarrow> mem' = []"
  by (auto simp: ngtcp2_strm_init_def ngtcp2_gaptr_init_def ngtcp2_rob_init_def gap_new_total split: if_splits)

end
