(* ===== verification/Conn_Invariant.thy ===== *)
theory Conn_Invariant
  imports Conn_Recv Alloc
begin

text \<open>
  The invariant of a connection while it receives data, and the lemma of every handler that keeps it. The
  invariant relates the streams to what the application has been given of them; \<open>returns\<close> is the
  total correctness of a step: it does not fault, and when it returns 0 the state satisfies a condition.
\<close>

section \<open>The receiving side of a stream\<close>

text \<open>
  \<open>got a sid\<close> is what the application in state \<open>a\<close> has been given of the stream \<open>sid\<close>: the callbacks that
  deliver data append to it, and the others leave it alone. The TLS handshake does not fail: after a
  failure, which \<open>cb_recv_stream0_data\<close> reports, buffered data of stream 0 is dropped.
\<close>

definition quiet :: "('a \<Rightarrow> 'g) \<Rightarrow> ('a \<Rightarrow> 'a \<times> 'r) \<Rightarrow> bool" where
  "quiet got f \<longleftrightarrow> (\<forall>a. got (fst (f a)) = got a)"

definition delivers :: "('a \<Rightarrow> u64 \<Rightarrow> bytes) \<Rightarrow> 'a ngtcp2_conn_callbacks \<Rightarrow> bool" where
  "delivers got cbs \<longleftrightarrow>
     (\<forall>data a. got (fst (cb_recv_stream0_data cbs data a)) = (got a)(0 := got a 0 @ data) \<and>
       snd (cb_recv_stream0_data cbs data a) \<noteq> Some NGTCP2_ERR_TLS_HANDSHAKE) \<and>
     (\<exists>f. cb_recv_stream_data cbs = Some f \<and>
       (\<forall>sid fin data ud a. got (fst (f sid fin data ud a)) = (got a)(sid := got a sid @ data))) \<and>
     (\<forall>f sid e ud. cb_stream_close cbs = Some f \<longrightarrow> quiet got (f sid e ud)) \<and>
     (\<forall>f m. cb_extend_max_stream_id cbs = Some f \<longrightarrow> quiet got (f m)) \<and>
     (\<forall>f sid off n ud. cb_acked_stream_data_offset cbs = Some f \<longrightarrow> quiet got (f sid off n ud)) \<and>
     (\<forall>f cid. cb_recv_client_initial cbs = Some f \<longrightarrow> quiet got (f cid)) \<and>
     (\<forall>f. cb_handshake_completed cbs = Some f \<longrightarrow> quiet got f) \<and>
     (\<forall>f hdr. cb_recv_pkt cbs = Some f \<longrightarrow> quiet got (f hdr)) \<and>
     (\<forall>f hdr fr. cb_recv_frame cbs = Some f \<longrightarrow> quiet got (f hdr fr)) \<and>
     (\<forall>f hdr sr. cb_recv_stateless_reset cbs = Some f \<longrightarrow> quiet got (f hdr sr)) \<and>
     (\<forall>destlen ct key nonce ad. quiet got (cb_decrypt cbs destlen ct key nonce ad)) \<and>
     (\<forall>destlen ct key nonce ad. quiet got (cb_hs_decrypt cbs destlen ct key nonce ad)) \<and>
     (\<forall>f hdr. cb_send_pkt cbs = Some f \<longrightarrow> quiet got (f hdr)) \<and>
     (\<forall>f hdr fr. cb_send_frame cbs = Some f \<longrightarrow> quiet got (f hdr fr)) \<and>
     (\<forall>f b a. cb_send_client_initial cbs = Some f \<longrightarrow> got (fst (f b a)) = got a) \<and>
     (\<forall>f a. cb_send_client_handshake cbs = Some f \<longrightarrow> got (fst (f a)) = got a) \<and>
     (\<forall>f b a. cb_send_server_handshake cbs = Some f \<longrightarrow> got (fst (f b a)) = got a)"

definition strm_rx_ok :: "(u64 \<Rightarrow> u8) \<Rightarrow> ngtcp2_strm \<Rightarrow> bytes \<Rightarrow> bool" where
  "strm_rx_ok S strm out \<longleftrightarrow>
     rob_inv S (ngtcp2_strm_rx_offset strm) (sm_rob strm) \<and> out = stream_prefix S (unat (ngtcp2_strm_rx_offset strm)) \<and>
     (\<forall>x. sm_last_rx_offset strm \<le> x \<and> x < UINT64_MAX \<longrightarrow> x \<in> rob_missing (sm_rob strm)) \<and>
     sm_last_rx_offset strm \<le> sm_max_rx_offset strm \<and> sm_max_rx_offset strm \<le> NGTCP2_MAX_VARINT"

lemma rob_first_missing:
  assumes "rob_inv S base r"
  shows "ngtcp2_rob_first_gap_offset r \<in> rob_missing r" and "x \<in> rob_missing r \<Longrightarrow> ngtcp2_rob_first_gap_offset r \<le> x"
    and "base \<le> ngtcp2_rob_first_gap_offset r" and "ngtcp2_rob_first_gap_offset r \<le> 0x4000000000000000"
proof -
  have ok: "rob_gaps_ok r" using assms by (simp add: rob_inv_def rob_gaps_ok_def)
  have "0x4000000000000000 \<in> rob_missing r" using assms by (auto simp: rob_inv_def)
  then show "ngtcp2_rob_first_gap_offset r \<in> rob_missing r" "ngtcp2_rob_first_gap_offset r \<le> 0x4000000000000000"
    using rob.first_missing [OF ok] rob.first_least [OF ok] by blast+
  then show "base \<le> ngtcp2_rob_first_gap_offset r" using assms by (simp add: rob_inv_def)
  show "x \<in> rob_missing r \<Longrightarrow> ngtcp2_rob_first_gap_offset r \<le> x" by (rule rob.first_least [OF ok])
qed

lemma rob_first_cong:
  assumes "rob_inv S base r" and "rob_inv S' base' r'" and "rob_missing r' = rob_missing r"
  shows "ngtcp2_rob_first_gap_offset r' = ngtcp2_rob_first_gap_offset r"
  using rob_first_missing(1,2) [OF assms(1)] rob_first_missing(1,2) [OF assms(2)] assms(3) by (metis antisym)

section \<open>Delivering the buffered data\<close>

text \<open>What the delivery of data of the stream \<open>sid\<close> may change.\<close>

definition emits :: "u64 \<Rightarrow> 'a ngtcp2_conn \<Rightarrow> 'a ngtcp2_conn \<Rightarrow> bool" where
  "emits sid conn conn' \<longleftrightarrow> (\<exists>a fcs mem rob u. set mem \<subseteq> set (cn_mem conn) \<and>
     conn' = conn\<lparr>cn_app := a, cn_fc_strms := fcs, cn_mem := mem,
       cn_strm := (cn_strm conn)(sid := (cn_strm conn sid)\<lparr>sm_rob := rob, sm_unsent_max_rx_offset := u\<rparr>)\<rparr>)"

lemma emitsI:
  "conn' = conn\<lparr>cn_app := a, cn_fc_strms := fcs, cn_mem := mem,
     cn_strm := (cn_strm conn)(sid := (cn_strm conn sid)\<lparr>sm_rob := rob, sm_unsent_max_rx_offset := u\<rparr>)\<rparr> \<Longrightarrow>
   set mem \<subseteq> set (cn_mem conn) \<Longrightarrow> emits sid conn conn'"
  unfolding emits_def by blast

lemma emits_trans:
  assumes "emits sid c c1" and "emits sid c1 c2"
  shows "emits sid c c2"
proof -
  obtain a fcs mem rob u where m: "set mem \<subseteq> set (cn_mem c)" and 1: "c1 = c\<lparr>cn_app := a, cn_fc_strms := fcs, cn_mem := mem,
     cn_strm := (cn_strm c)(sid := (cn_strm c sid)\<lparr>sm_rob := rob, sm_unsent_max_rx_offset := u\<rparr>)\<rparr>"
    using assms(1) unfolding emits_def by blast
  obtain a' fcs' mem' rob' u' where m': "set mem' \<subseteq> set (cn_mem c1)" and 2: "c2 = c1\<lparr>cn_app := a', cn_fc_strms := fcs', cn_mem := mem',
     cn_strm := (cn_strm c1)(sid := (cn_strm c1 sid)\<lparr>sm_rob := rob', sm_unsent_max_rx_offset := u'\<rparr>)\<rparr>"
    using assms(2) unfolding emits_def by blast
  show ?thesis unfolding 2 1 by (rule emitsI [where a = a' and fcs = fcs' and mem = mem' and rob = rob' and u = u']) (use m m' in \<open>auto simp: 1\<close>)
qed

lemma strm_same: "strm\<lparr>sm_rob := sm_rob strm, sm_unsent_max_rx_offset := sm_unsent_max_rx_offset strm\<rparr> = strm"
  by simp

lemma emits_app: "emits sid c (c\<lparr>cn_app := a\<rparr>)"
  by (rule emitsI [where a = a and fcs = "cn_fc_strms c" and mem = "cn_mem c" and rob = "sm_rob (cn_strm c sid)" and u = "sm_unsent_max_rx_offset (cn_strm c sid)"]) simp_all

lemma emits_refl: "emits sid c c"
  using emits_app [of sid c "cn_app c"] by simp

lemma emits_rob: "emits sid c (upd_strm c sid (\<lambda>strm. strm\<lparr>sm_rob := rob\<rparr>))"
  by (rule emitsI [where a = "cn_app c" and fcs = "cn_fc_strms c" and mem = "cn_mem c" and rob = rob and u = "sm_unsent_max_rx_offset (cn_strm c sid)"])
    (simp_all add: upd_strm_def)

lemma emits_mem: "set mem \<subseteq> set (cn_mem c) \<Longrightarrow> emits sid c (c\<lparr>cn_mem := mem\<rparr>)"
  by (rule emitsI [where a = "cn_app c" and fcs = "cn_fc_strms c" and mem = mem and rob = "sm_rob (cn_strm c sid)" and u = "sm_unsent_max_rx_offset (cn_strm c sid)"]) simp_all

lemma emits_unsent: "emits sid c (upd_strm c sid (\<lambda>strm. strm\<lparr>sm_unsent_max_rx_offset := f strm\<rparr>))"
  by (rule emitsI [where a = "cn_app c" and fcs = "cn_fc_strms c" and mem = "cn_mem c" and rob = "sm_rob (cn_strm c sid)" and u = "f (cn_strm c sid)"])
    (simp_all add: upd_strm_def)

lemma emits_fc: "emits sid c (c\<lparr>cn_fc_strms := fcs\<rparr>)"
  by (rule emitsI [where a = "cn_app c" and fcs = fcs and mem = "cn_mem c" and rob = "sm_rob (cn_strm c sid)" and u = "sm_unsent_max_rx_offset (cn_strm c sid)"]) simp_all

lemma emits_eq:
  assumes "emits sid c c'"
  shows "cn_callbacks c' = cn_callbacks c" "cn_strms c' = cn_strms c" "cn_server c' = cn_server c"
    "cn_remote_bidi_idtr c' = cn_remote_bidi_idtr c" "cn_remote_uni_idtr c' = cn_remote_uni_idtr c"
    "cn_next_local_stream_id_bidi c' = cn_next_local_stream_id_bidi c" "cn_next_local_stream_id_uni c' = cn_next_local_stream_id_uni c"
    "cn_max_local_stream_id_bidi c' = cn_max_local_stream_id_bidi c" "cn_max_local_stream_id_uni c' = cn_max_local_stream_id_uni c"
    "cn_rx_offset c' = cn_rx_offset c" "cn_max_rx_offset c' = cn_max_rx_offset c" "cn_acktr c' = cn_acktr c" "cn_rtb c' = cn_rtb c"
    "cn_hs_rx_ckm c' = cn_hs_rx_ckm c" "cn_rx_ckm c' = cn_rx_ckm c" "cn_early_ckm c' = cn_early_ckm c" "cn_flags c' = cn_flags c" "cn_buffed_rx_ppkts c' = cn_buffed_rx_ppkts c"
    "cn_max_remote_stream_id_bidi c' = cn_max_remote_stream_id_bidi c" "cn_max_remote_stream_id_uni c' = cn_max_remote_stream_id_uni c"
    "set (cn_mem c') \<subseteq> set (cn_mem c)"
    "t \<noteq> sid \<Longrightarrow> cn_strm c' t = cn_strm c t"
    "sm_stream_id (cn_strm c' sid) = sm_stream_id (cn_strm c sid)" "sm_flags (cn_strm c' sid) = sm_flags (cn_strm c sid)"
    "sm_last_rx_offset (cn_strm c' sid) = sm_last_rx_offset (cn_strm c sid)"
    "sm_max_rx_offset (cn_strm c' sid) = sm_max_rx_offset (cn_strm c sid)"
    "sm_stream_user_data (cn_strm c' sid) = sm_stream_user_data (cn_strm c sid)"
  using assms by (auto simp: emits_def)

lemma emits_extend: "emits sid c (conn_extend_max_stream_offset c sid n)"
proof -
  let ?c = "upd_strm c sid (\<lambda>strm. if sm_unsent_max_rx_offset strm \<le> NGTCP2_MAX_VARINT - n
            then strm\<lparr>sm_unsent_max_rx_offset := sm_unsent_max_rx_offset strm + n\<rparr> else strm)"
  have "?c = upd_strm c sid (\<lambda>strm. strm\<lparr>sm_unsent_max_rx_offset :=
      if sm_unsent_max_rx_offset strm \<le> NGTCP2_MAX_VARINT - n then sm_unsent_max_rx_offset strm + n else sm_unsent_max_rx_offset strm\<rparr>)"
    by (simp add: upd_strm_def)
  then have "emits sid c ?c" by (simp only: emits_unsent)
  then show ?thesis by (auto simp: conn_extend_max_stream_offset_def Let_def intro: emits_trans [OF _ emits_fc])
qed

lemma extend_app_rob:
  "cn_app (conn_extend_max_stream_offset c sid n) = cn_app c"
  "sm_rob (cn_strm (conn_extend_max_stream_offset c sid n) t) = sm_rob (cn_strm c t)"
  by (simp_all add: conn_extend_max_stream_offset_def upd_strm_def Let_def)

text \<open>
  One call that delivers data of the stream \<open>sid\<close>, and what follows it, in a connection with the callbacks
  \<open>cbs\<close>.
\<close>

definition delivers_step :: "('a \<Rightarrow> u64 \<Rightarrow> bytes) \<Rightarrow> 'a ngtcp2_conn_callbacks \<Rightarrow> u64 \<Rightarrow>
    (bytes \<Rightarrow> u64 \<Rightarrow> 'a ngtcp2_conn \<Rightarrow> 'a ngtcp2_conn \<times> rc) \<Rightarrow> bool" where
  "delivers_step got cbs sid call \<longleftrightarrow>
     (\<forall>data rx c. cn_callbacks c = cbs \<and> sm_stream_id (cn_strm c sid) = sid \<longrightarrow>
        (\<exists>a rv. call data rx c = (c\<lparr>cn_app := a\<rparr>, rv) \<and> got a = (got (cn_app c))(sid := got (cn_app c) sid @ data)))"

lemma delivers_step_stream:
  assumes "delivers got cbs"
  shows "delivers_step got cbs sid (\<lambda>data rx conn. conn_call_recv_stream_data conn (cn_strm conn sid) (fin conn rx) data)"
proof -
  obtain f where f: "cb_recv_stream_data cbs = Some f"
      "\<forall>t fin data ud a. got (fst (f t fin data ud a)) = (got a)(t := got a t @ data)"
    using assms unfolding delivers_def by auto
  show ?thesis
    unfolding delivers_step_def
  proof (intro allI impI)
    fix data rx and c :: "'a ngtcp2_conn"
    assume c: "cn_callbacks c = cbs \<and> sm_stream_id (cn_strm c sid) = sid"
    obtain a err where run: "f sid (fin c rx) data (sm_stream_user_data (cn_strm c sid)) (cn_app c) = (a, err)" by fastforce
    then have "got a = (got (cn_app c))(sid := got (cn_app c) sid @ data)" by (metis f(2) fst_conv)
    then show "\<exists>a rv. conn_call_recv_stream_data c (cn_strm c sid) (fin c rx) data = (c\<lparr>cn_app := a\<rparr>, rv) \<and>
        got a = (got (cn_app c))(sid := got (cn_app c) sid @ data)"
      using c f(1) run by (auto simp: conn_call_recv_stream_data_def call_cb_def)
  qed
qed

lemma delivers_step_stream0:
  assumes "delivers got cbs"
  shows "delivers_step got cbs 0 (\<lambda>data rx conn. conn_call_recv_stream0_data conn data)"
  unfolding delivers_step_def
proof (intro allI impI)
  fix data rx and c :: "'a ngtcp2_conn"
  assume c: "cn_callbacks c = cbs \<and> sm_stream_id (cn_strm c 0) = 0"
  obtain a rv where run: "cb_recv_stream0_data cbs data (cn_app c) = (a, rv)" by fastforce
  moreover have "got (fst (cb_recv_stream0_data cbs data (cn_app c))) = (got (cn_app c))(0 := got (cn_app c) 0 @ data)"
    using assms by (simp add: delivers_def)
  ultimately have "got a = (got (cn_app c))(0 := got (cn_app c) 0 @ data)" by simp
  then show "\<exists>a rv. conn_call_recv_stream0_data c data = (c\<lparr>cn_app := a\<rparr>, rv) \<and>
      got a = (got (cn_app c))(0 := got (cn_app c) 0 @ data)"
    using c run by (simp add: conn_call_recv_stream0_data_def del: fun_upd_apply) blast
qed

lemma read_bytes_ok:
  assumes "unat n \<le> length bs" and "take (unat n) bs = map (\<lambda>i. Some (f i)) [0..<unat n]"
  shows "read_bytes (Some bs) n = Ok (map f [0..<unat n])"
  using assms by (auto simp: read_bytes_def c_assert_def comp_def)

lemma first_upd: "ngtcp2_strm_rx_offset (strm\<lparr>sm_rob := rob\<rparr>) = ngtcp2_rob_first_gap_offset rob"
  by (simp add: ngtcp2_strm_rx_offset_def)

lemma emit_loop_ok:
  assumes call: "delivers_step got cbs sid call"
    and after: "\<And>c n. emits sid c (after c n) \<and> cn_app (after c n) = cn_app c \<and> sm_rob (cn_strm (after c n) sid) = sm_rob (cn_strm c sid)"
  shows "cn_callbacks c = cbs \<Longrightarrow> sm_stream_id (cn_strm c sid) = sid \<Longrightarrow> rob_inv S rx (sm_rob (cn_strm c sid)) \<Longrightarrow>
    first = ngtcp2_strm_rx_offset (cn_strm c sid) \<Longrightarrow> unat (first - rx) < n \<Longrightarrow> got (cn_app c) sid = stream_prefix S (unat rx) \<Longrightarrow>
    \<exists>c' rv. emit_loop call after n c sid rx = Ok (c', rv) \<and>
      (rv = None \<longrightarrow> emits sid c c' \<and> rob_inv S first (sm_rob (cn_strm c' sid)) \<and>
        rob_missing (sm_rob (cn_strm c' sid)) = rob_missing (sm_rob (cn_strm c sid)) \<and>
        got (cn_app c') = (got (cn_app c))(sid := stream_prefix S (unat first)))"
proof (induction n arbitrary: c rx)
  case (Suc n)
  let ?rob = "sm_rob (cn_strm c sid)"
  note inv = Suc.prems(3)
  have first: "first \<in> rob_missing ?rob" "\<And>x. x \<in> rob_missing ?rob \<Longrightarrow> first \<le> x" "rx \<le> first"
    using rob_first_missing [OF inv] by (simp_all add: Suc.prems(4) ngtcp2_strm_rx_offset_def)
  show ?case
  proof (cases "rx \<in> rob_missing ?rob")
    case True
    then have "rx = first" using first(2,3) by (simp add: antisym)
    then show ?thesis
      using rob_data_at_ok(1) [OF inv True] Suc.prems by (auto simp: emits_refl fun_upd_idem)
  next
    case False
    then obtain bs k r' where at: "ngtcp2_rob_data_at ?rob rx = Ok (Some bs, k)" and k: "k \<noteq> 0" "unat rx + unat k \<le> 2 ^ 62" "unat k \<le> length bs"
        "take (unat k) bs = map (\<lambda>i. Some (S (rx + of_nat i))) [0..<unat k]"
      and pop: "ngtcp2_rob_pop ?rob rx k = Ok r'" "rob_inv S (rx + k) r'" "rob_missing r' = rob_missing ?rob"
      using rob_data_at_ok(2) [OF inv] by blast
    let ?data = "map (\<lambda>i. S (rx + of_nat i)) [0..<unat k]"
    obtain a rv where run: "call ?data (rx + k) c = (c\<lparr>cn_app := a\<rparr>, rv)" "got a = (got (cn_app c))(sid := got (cn_app c) sid @ ?data)"
      using call Suc.prems(1,2) unfolding delivers_step_def by blast
    note read = read_bytes_ok [OF k(3,4)]
    show ?thesis
    proof (cases rv)
      case (Some e)
      then show ?thesis using at k(1) read run by (simp add: then_ok_def)
    next
      case None
      let ?c1 = "after (c\<lparr>cn_app := a\<rparr>) k"
      let ?c2 = "upd_strm ?c1 sid (\<lambda>strm. strm\<lparr>sm_rob := r'\<rparr>)"
      have em: "emits sid c ?c2"
        using emits_trans [OF emits_app emits_trans [OF after [THEN conjunct1] emits_rob]] .
      have c1: "cn_app ?c1 = a" "sm_rob (cn_strm ?c1 sid) = ?rob" using after [of "c\<lparr>cn_app := a\<rparr>" k] by simp_all
      then have c2: "cn_app ?c2 = a" "sm_rob (cn_strm ?c2 sid) = r'" by (simp_all add: upd_strm_def)
      have r1: "rx + k \<le> first"
        using rob_first_missing(3) [OF pop(2)] rob_first_cong [OF inv pop(2,3)] by (simp add: Suc.prems(4) ngtcp2_strm_rx_offset_def)
      have u: "unat (rx + k) = unat rx + unat k" using k(2) by (simp add: unat_add_small)
      have pre: "stream_prefix S (unat rx) @ ?data = stream_prefix S (unat (rx + k))"
        by (rule stream_prefix_extend) (simp_all add: u)
      have "unat (first - rx) = unat first - unat rx" "unat (first - (rx + k)) = unat first - (unat rx + unat k)"
        using first(3) r1 u by (simp_all add: unat_sub)
      moreover have "0 < unat k" using k(1) by (simp add: unat_gt_0)
      ultimately have dec: "unat (first - (rx + k)) < n" using Suc.prems(5) r1 u by (simp add: word_le_nat_alt)
      have "\<exists>c' rv. emit_loop call after n ?c2 sid (rx + k) = Ok (c', rv) \<and>
          (rv = None \<longrightarrow> emits sid ?c2 c' \<and> rob_inv S first (sm_rob (cn_strm c' sid)) \<and>
            rob_missing (sm_rob (cn_strm c' sid)) = rob_missing (sm_rob (cn_strm ?c2 sid)) \<and>
            got (cn_app c') = (got (cn_app ?c2))(sid := stream_prefix S (unat first)))"
        using emits_eq [OF em] Suc.prems c2 pop run(2) pre dec rob_first_cong [OF inv pop(2,3)]
        by (intro Suc.IH) (simp_all add: ngtcp2_strm_rx_offset_def)
      then obtain c' rv' where rest: "emit_loop call after n ?c2 sid (rx + k) = Ok (c', rv')"
          "rv' = None \<longrightarrow> emits sid ?c2 c' \<and> rob_inv S first (sm_rob (cn_strm c' sid)) \<and>
            rob_missing (sm_rob (cn_strm c' sid)) = rob_missing r' \<and>
            got (cn_app c') = (got a)(sid := stream_prefix S (unat first))"
        unfolding c2 by blast
      have "emit_loop call after (Suc n) c sid rx = Ok (c', rv')"
        using at k(1) read run None pop(1) c1 rest(1) by (simp add: then_ok_def Let_def)
      then show ?thesis using rest(2) emits_trans [OF em] pop(3) run(2) by auto
    qed
  qed
qed simp

lemma emit_stream_ok:
  assumes cbs: "delivers got (cn_callbacks c)" and id: "sm_stream_id (cn_strm c sid) = sid"
    and inv: "rob_inv S rx (sm_rob (cn_strm c sid))" and out: "got (cn_app c) sid = stream_prefix S (unat rx)"
  defines "first \<equiv> ngtcp2_strm_rx_offset (cn_strm c sid)"
  shows "\<exists>c' rv. (if sid = 0 then conn_emit_pending_stream0_data c rx else conn_emit_pending_stream_data c sid rx) = Ok (c', rv) \<and>
    (rv = None \<longrightarrow> emits sid c c' \<and> rob_inv S first (sm_rob (cn_strm c' sid)) \<and>
      rob_missing (sm_rob (cn_strm c' sid)) = rob_missing (sm_rob (cn_strm c sid)) \<and>
      got (cn_app c') = (got (cn_app c))(sid := stream_prefix S (unat first)))"
proof (cases "sid = 0")
  case True
  let ?after = "\<lambda>conn datalen. conn_extend_max_stream_offset
      (upd_strm conn 0 (\<lambda>strm. strm\<lparr>sm_unsent_max_rx_offset := sm_unsent_max_rx_offset strm + datalen\<rparr>)) 0 datalen"
  have "emits 0 c (?after c n) \<and> cn_app (?after c n) = cn_app c \<and> sm_rob (cn_strm (?after c n) 0) = sm_rob (cn_strm c 0)" for c n
    using emits_trans [OF emits_unsent emits_extend] by (simp add: extend_app_rob) (simp add: upd_strm_def)
  from emit_loop_ok [OF delivers_step_stream0 [OF cbs] this, where n = "Suc (unat (first - rx))"] show ?thesis
    unfolding conn_emit_pending_stream0_data_def emit_rounds_def if_P [OF True]
    using True id inv out by (simp add: first_def del: emit_loop.simps)
next
  case False
  show ?thesis
    unfolding conn_emit_pending_stream_data_def emit_rounds_def if_not_P [OF False]
    using emit_loop_ok [OF delivers_step_stream [OF cbs, where sid = sid and fin = "\<lambda>conn rx. strm_fin_at (cn_strm conn sid) rx"],
        of "\<lambda>conn datalen. conn" c S rx first "Suc (unat (first - rx))"] id inv out
    by (simp add: first_def emits_refl del: emit_loop.simps)
qed

text \<open>
  The data of a frame that reaches past the first gap: afterwards exactly its offsets are no longer
  missing, and the application has been given everything before the first gap.
\<close>

definition received :: "('a \<Rightarrow> u64 \<Rightarrow> bytes) \<Rightarrow> (u64 \<Rightarrow> u8) \<Rightarrow> ngtcp2_stream \<Rightarrow> 'a ngtcp2_conn \<Rightarrow> 'a ngtcp2_conn \<Rightarrow> bool" where
  "received got S fr c c' \<longleftrightarrow>
     (let sid = st_stream_id fr; first = ngtcp2_strm_rx_offset (cn_strm c' sid) in
      emits sid c c' \<and> rob_inv S first (sm_rob (cn_strm c' sid)) \<and>
      rob_missing (sm_rob (cn_strm c' sid)) =
        rob_missing (sm_rob (cn_strm c sid)) - {x. st_offset fr \<le> x \<and> x < st_offset fr + of_nat (length (st_data fr))} \<and>
      got (cn_app c') = (got (cn_app c))(sid := stream_prefix S (unat first)))"

lemma recv_stream_reordered:
  assumes inv: "rob_inv S rx (sm_rob (cn_strm c (st_stream_id fr)))" and rx: "rx = ngtcp2_strm_rx_offset (cn_strm c (st_stream_id fr))"
    and out: "got (cn_app c) (st_stream_id fr) = stream_prefix S (unat rx)"
    and seg: "segment S (st_offset fr) (st_data fr)" and mem: "cn_mem c = []" and gap: "\<not> st_offset fr \<le> rx"
  shows "\<exists>c' rv. recv_stream_data c fr rx = Ok (c', rv) \<and> (rv = None \<longrightarrow> received got S fr c c')"
proof -
  let ?sid = "st_stream_id fr" and ?len = "of_nat (length (st_data fr)) :: u64"
  let ?rob = "sm_rob (cn_strm c ?sid)"
  obtain r' mem' rv where push: "ngtcp2_rob_push ?rob (st_offset fr) (st_data fr) ?len (cn_mem c) = Ok (r', mem', rv)"
      "rv = None \<longrightarrow> rob_inv S rx r' \<and> rob_missing r' = rob_missing ?rob - {x. st_offset fr \<le> x \<and> x < st_offset fr + ?len}"
    using rob_push_ok [OF inv seg, of "cn_mem c"] by blast
  let ?c = "(upd_strm c ?sid (\<lambda>strm. strm\<lparr>sm_rob := r'\<rparr>))\<lparr>cn_mem := mem'\<rparr>"
  have "received got S fr c ?c" if "rv = None"
  proof -
    from push(2) that have r': "rob_inv S rx r'" "rob_missing r' = rob_missing ?rob - {x. st_offset fr \<le> x \<and> x < st_offset fr + ?len}"
      by simp_all
    have "rx \<in> rob_missing r'" using r'(2) rob_first_missing(1) [OF inv] gap by (simp add: rx ngtcp2_strm_rx_offset_def)
    then have "ngtcp2_rob_first_gap_offset r' = rx" using rob_first_missing(2,3) [OF r'(1)] by (simp add: antisym)
    moreover have "mem' = []" using push(1) rob_push_total by (simp add: mem)
    moreover from this have "emits ?sid c ?c" by (intro emits_trans [OF emits_rob emits_mem]) simp
    ultimately show ?thesis
      using r' out
      by (simp add: received_def Let_def upd_strm_def ngtcp2_strm_rx_offset_def fun_upd_idem)
  qed
  moreover have "recv_stream_data c fr rx = Ok (?c, rv)"
    using push(1) gap by (simp add: recv_stream_data_def Let_def ngtcp2_strm_recv_reordering_def upd_strm_def)
  ultimately show ?thesis by blast
qed

abbreviation fr_end :: "ngtcp2_stream \<Rightarrow> u64" where
  "fr_end fr \<equiv> st_offset fr + of_nat (length (st_data fr))"

lemma in_order_call:
  assumes call: "delivers_step got (cn_callbacks c) (st_stream_id fr) call" and id: "sm_stream_id (cn_strm c (st_stream_id fr)) = st_stream_id fr"
    and inv: "rob_inv S rx (sm_rob (cn_strm c (st_stream_id fr)))" and rx: "rx = ngtcp2_strm_rx_offset (cn_strm c (st_stream_id fr))"
    and out: "got (cn_app c) (st_stream_id fr) = stream_prefix S (unat rx)"
    and seg: "segment S (st_offset fr) (st_data fr)" and past: "unat rx < unat (st_offset fr) + length (st_data fr)"
    and le: "st_offset fr \<le> rx"
  defines "c1 \<equiv> upd_strm c (st_stream_id fr) (\<lambda>strm. strm\<lparr>sm_rob := ngtcp2_rob_remove_prefix (sm_rob strm) (fr_end fr)\<rparr>)"
  shows "\<exists>a rv. call (drop (unat (rx - st_offset fr)) (st_data fr)) (fr_end fr) c1 = (c1\<lparr>cn_app := a\<rparr>, rv) \<and>
    emits (st_stream_id fr) c (c1\<lparr>cn_app := a\<rparr>) \<and> rob_inv S (fr_end fr) (sm_rob (cn_strm c1 (st_stream_id fr))) \<and>
    rob_missing (sm_rob (cn_strm c1 (st_stream_id fr))) =
      rob_missing (sm_rob (cn_strm c (st_stream_id fr))) - {x. st_offset fr \<le> x \<and> x < fr_end fr} \<and>
    got a = (got (cn_app c))(st_stream_id fr := stream_prefix S (unat (fr_end fr)))"
proof -
  let ?sid = "st_stream_id fr" and ?len = "of_nat (length (st_data fr)) :: u64"
  let ?rob = "sm_rob (cn_strm c ?sid)" and ?ncut = "rx - st_offset fr"
  define e where "e = fr_end fr"
  define data where "data = drop (unat ?ncut) (st_data fr)"
  have len: "unat ?len = length (st_data fr)" using seg by (simp add: segment_def unat_of_nat_small)
  have ncut: "unat ?ncut = unat rx - unat (st_offset fr)" using le by (simp add: unat_sub)
  have ue: "unat e = unat (st_offset fr) + length (st_data fr)" "unat e \<le> 2 ^ 62"
    using seg len by (simp_all add: e_def segment_def unat_add_small)
  have re: "rx \<le> e" "e \<le> 0x4000000000000000" using past ue by (simp_all add: word_le_nat_alt)
  let ?r1 = "ngtcp2_rob_remove_prefix ?rob e"
  note r1 = rob_remove_prefix_ok [OF inv re]
  have "rx \<le> x" if "x \<in> rob_missing ?rob" for x using inv that by (simp add: rob_inv_def)
  then have miss: "rob_missing ?r1 = rob_missing ?rob - {x. st_offset fr \<le> x \<and> x < e}"
    using r1(2) le by (auto dest: order_trans)
  have ld: "length data = unat e - unat rx" using le past by (simp add: data_def ncut ue(1) word_le_nat_alt)
  have "stream_prefix S (unat rx) @ data = stream_prefix S (unat (rx + (e - rx)))"
  proof (rule stream_prefix_extend)
    show "unat (rx + (e - rx)) = unat rx + unat (e - rx)" using re(1) by (simp add: unat_sub word_le_nat_alt)
    show "length data = unat (e - rx)" using re(1) ld by (simp add: unat_sub)
    show "\<forall>i < length data. data ! i = S (rx + of_nat i)"
    proof (intro allI impI)
      fix i assume i: "i < length data"
      then have k: "unat ?ncut + i < length (st_data fr)" using ld ue(1) ncut le by (simp add: word_le_nat_alt)
      then have "data ! i = S (st_offset fr + of_nat (unat ?ncut + i))" using seg by (simp add: data_def segment_def)
      then show "data ! i = S (rx + of_nat i)" by simp
    qed
  qed
  then have pre: "stream_prefix S (unat rx) @ data = stream_prefix S (unat e)" by simp
  have c1: "cn_callbacks c1 = cn_callbacks c" "sm_stream_id (cn_strm c1 ?sid) = ?sid" "cn_app c1 = cn_app c" "sm_rob (cn_strm c1 ?sid) = ?r1"
    using id by (simp_all add: upd_strm_def c1_def e_def)
  obtain a rv where run: "call data e c1 = (c1\<lparr>cn_app := a\<rparr>, rv)" "got a = (got (cn_app c1))(?sid := got (cn_app c1) ?sid @ data)"
    using call c1(1,2) unfolding delivers_step_def by blast
  have "got a = (got (cn_app c))(?sid := stream_prefix S (unat e))" using run(2) pre out c1(3) by simp
  moreover have "emits ?sid c (c1\<lparr>cn_app := a\<rparr>)" unfolding c1_def upd_strm_def [of c] using emits_trans [OF emits_rob emits_app] by (simp add: upd_strm_def)
  ultimately show ?thesis using run(1) r1(1) miss c1(4) by (auto simp: data_def e_def)
qed

lemma received_after:
  assumes em: "emits (st_stream_id fr) c c2" and cbs: "delivers got (cn_callbacks c)" and id: "sm_stream_id (cn_strm c (st_stream_id fr)) = st_stream_id fr"
    and rob: "rob_inv S e (sm_rob (cn_strm c2 (st_stream_id fr)))"
    and miss: "rob_missing (sm_rob (cn_strm c2 (st_stream_id fr))) =
      rob_missing (sm_rob (cn_strm c (st_stream_id fr))) - {x. st_offset fr \<le> x \<and> x < fr_end fr}"
    and out: "got (cn_app c2) = (got (cn_app c))(st_stream_id fr := stream_prefix S (unat e))"
  shows "\<exists>c' rv. (if st_stream_id fr = 0 then conn_emit_pending_stream0_data c2 e else conn_emit_pending_stream_data c2 (st_stream_id fr) e) = Ok (c', rv) \<and>
    (rv = None \<longrightarrow> received got S fr c c')"
proof -
  let ?sid = "st_stream_id fr"
  let ?first = "ngtcp2_strm_rx_offset (cn_strm c2 ?sid)"
  note eq = emits_eq [OF em]
  have "\<exists>c' rv. (if ?sid = 0 then conn_emit_pending_stream0_data c2 e else conn_emit_pending_stream_data c2 ?sid e) = Ok (c', rv) \<and>
    (rv = None \<longrightarrow> emits ?sid c2 c' \<and> rob_inv S ?first (sm_rob (cn_strm c' ?sid)) \<and>
      rob_missing (sm_rob (cn_strm c' ?sid)) = rob_missing (sm_rob (cn_strm c2 ?sid)) \<and>
      got (cn_app c') = (got (cn_app c2))(?sid := stream_prefix S (unat ?first)))"
    by (rule emit_stream_ok [OF _ _ rob]) (simp_all add: eq cbs id out)
  then obtain c' rv where fin: "(if ?sid = 0 then conn_emit_pending_stream0_data c2 e else conn_emit_pending_stream_data c2 ?sid e) = Ok (c', rv)"
    and post: "rv = None \<Longrightarrow> emits ?sid c2 c' \<and> rob_inv S ?first (sm_rob (cn_strm c' ?sid)) \<and>
      rob_missing (sm_rob (cn_strm c' ?sid)) = rob_missing (sm_rob (cn_strm c2 ?sid)) \<and>
      got (cn_app c') = (got (cn_app c2))(?sid := stream_prefix S (unat ?first))" by blast
  have "received got S fr c c'" if "rv = None"
  proof -
    from post [OF that] have c': "emits ?sid c2 c'" "rob_inv S ?first (sm_rob (cn_strm c' ?sid))"
      "rob_missing (sm_rob (cn_strm c' ?sid)) = rob_missing (sm_rob (cn_strm c2 ?sid))"
      "got (cn_app c') = (got (cn_app c2))(?sid := stream_prefix S (unat ?first))" by simp_all
    have "ngtcp2_strm_rx_offset (cn_strm c' ?sid) = ?first"
      using rob_first_cong [OF rob c'(2,3)] by (simp add: ngtcp2_strm_rx_offset_def)
    then show ?thesis using c' miss out emits_trans [OF em c'(1)] by (simp add: received_def Let_def)
  qed
  then show ?thesis using fin by blast
qed

lemma recv_stream_in_order:
  assumes cbs: "delivers got (cn_callbacks c)" and id: "sm_stream_id (cn_strm c (st_stream_id fr)) = st_stream_id fr"
    and inv: "rob_inv S rx (sm_rob (cn_strm c (st_stream_id fr)))" and rx: "rx = ngtcp2_strm_rx_offset (cn_strm c (st_stream_id fr))"
    and out: "got (cn_app c) (st_stream_id fr) = stream_prefix S (unat rx)"
    and seg: "segment S (st_offset fr) (st_data fr)" and past: "unat rx < unat (st_offset fr) + length (st_data fr)"
    and le: "st_offset fr \<le> rx"
  shows "\<exists>c' rv. recv_stream_data c fr rx = Ok (c', rv) \<and> (rv = None \<longrightarrow> received got S fr c c')"
proof -
  let ?sid = "st_stream_id fr"
  let ?call = "\<lambda>data rx c. if ?sid = 0 then conn_call_recv_stream0_data c data
      else conn_call_recv_stream_data c (cn_strm c ?sid) (strm_fin_at (cn_strm c ?sid) rx) data"
  let ?c1 = "upd_strm c ?sid (\<lambda>strm. strm\<lparr>sm_rob := ngtcp2_rob_remove_prefix (sm_rob strm) (fr_end fr)\<rparr>)"
  have call: "delivers_step got (cn_callbacks c) ?sid ?call"
    using delivers_step_stream0 [OF cbs]
      delivers_step_stream [OF cbs, where sid = ?sid and fin = "\<lambda>c rx. strm_fin_at (cn_strm c ?sid) rx"] by (cases "?sid = 0") simp_all
  obtain a rv where a: "?call (drop (unat (rx - st_offset fr)) (st_data fr)) (fr_end fr) ?c1 = (?c1\<lparr>cn_app := a\<rparr>, rv)"
      "emits ?sid c (?c1\<lparr>cn_app := a\<rparr>)" "rob_inv S (fr_end fr) (sm_rob (cn_strm ?c1 ?sid))"
      "rob_missing (sm_rob (cn_strm ?c1 ?sid)) = rob_missing (sm_rob (cn_strm c ?sid)) - {x. st_offset fr \<le> x \<and> x < fr_end fr}"
      "got a = (got (cn_app c))(?sid := stream_prefix S (unat (fr_end fr)))"
    using in_order_call [OF call id inv rx out seg past le] by blast
  have "rx + (of_nat (length (st_data fr)) - (rx - st_offset fr)) = fr_end fr" by simp
  then have run: "recv_stream_data c fr rx = then_ok (Ok (?c1\<lparr>cn_app := a\<rparr>, rv))
      (\<lambda>c. if ?sid = 0 then conn_emit_pending_stream0_data c (fr_end fr) else conn_emit_pending_stream_data c ?sid (fr_end fr))"
    using le a(1) by (simp add: recv_stream_data_def Let_def add.commute [of "of_nat (length (st_data fr))" "st_offset fr"] split: if_splits)
  have "\<exists>c' rv. (if ?sid = 0 then conn_emit_pending_stream0_data (?c1\<lparr>cn_app := a\<rparr>) (fr_end fr)
      else conn_emit_pending_stream_data (?c1\<lparr>cn_app := a\<rparr>) ?sid (fr_end fr)) = Ok (c', rv) \<and> (rv = None \<longrightarrow> received got S fr c c')"
    using a(3-5) by (intro received_after [OF a(2) cbs id]) simp_all
  then show ?thesis unfolding run by (cases rv) (simp_all add: then_ok_def)
qed

lemma recv_stream_data_ok:
  assumes "delivers got (cn_callbacks c)" and "sm_stream_id (cn_strm c (st_stream_id fr)) = st_stream_id fr"
    and "rob_inv S rx (sm_rob (cn_strm c (st_stream_id fr)))" and "rx = ngtcp2_strm_rx_offset (cn_strm c (st_stream_id fr))"
    and "got (cn_app c) (st_stream_id fr) = stream_prefix S (unat rx)"
    and "segment S (st_offset fr) (st_data fr)" and "unat rx < unat (st_offset fr) + length (st_data fr)" and "cn_mem c = []"
  shows "\<exists>c' rv. recv_stream_data c fr rx = Ok (c', rv) \<and> (rv = None \<longrightarrow> received got S fr c c')"
  using recv_stream_in_order [OF assms(1-7)] recv_stream_reordered [where got = got and S = S and fr = fr and c = c and rx = rx] assms
  by blast

section \<open>The invariant of a connection\<close>

definition live :: "'a ngtcp2_conn \<Rightarrow> u64 \<Rightarrow> bool" where
  "live conn sid \<longleftrightarrow> map_abs (cn_strms conn) sid \<noteq> None"

text \<open>The identifiers whose streams have not been opened yet.\<close>

definition fresh :: "'a ngtcp2_conn \<Rightarrow> u64 \<Rightarrow> bool" where
  "fresh conn sid \<longleftrightarrow>
     (if conn_local_stream conn sid
      then (if bidi_stream sid then cn_next_local_stream_id_bidi conn else cn_next_local_stream_id_uni conn) \<le> sid
      else id_from_stream_id sid \<in> idtr_unused (remote_idtr conn sid))"

text \<open>
  The streams have identifiers below \<open>2 ^ 28\<close>, so the hash table has fewer than \<open>2 ^ 29\<close> entries and the
  length of its table, a 32-bit integer, can always be doubled.
\<close>

definition small_id :: "u64 \<Rightarrow> bool" where
  "small_id sid \<longleftrightarrow> unat sid < 2 ^ 28"

definition ids_ok :: "'a ngtcp2_conn \<Rightarrow> bool" where
  "ids_ok conn \<longleftrightarrow>
     idtr_inv (cn_remote_bidi_idtr conn) \<and> idtr_server (cn_remote_bidi_idtr conn) = (\<not> cn_server conn) \<and>
     idtr_inv (cn_remote_uni_idtr conn) \<and> idtr_server (cn_remote_uni_idtr conn) = (\<not> cn_server conn) \<and>
     conn_local_stream conn (cn_next_local_stream_id_bidi conn) \<and> bidi_stream (cn_next_local_stream_id_bidi conn) \<and>
     conn_local_stream conn (cn_next_local_stream_id_uni conn) \<and> \<not> bidi_stream (cn_next_local_stream_id_uni conn) \<and>
     cn_max_local_stream_id_bidi conn \<le> NGTCP2_MAX_VARINT \<and> cn_max_local_stream_id_uni conn \<le> NGTCP2_MAX_VARINT \<and>
     small_id (cn_max_remote_stream_id_bidi conn) \<and> small_id (cn_max_remote_stream_id_uni conn)"

text \<open>
  \<open>S sid\<close> is the stream that the peer sends with the identifier \<open>sid\<close>. The peer is honest, and decryption
  authenticates: the frames of a decrypted payload carry bytes of these streams. \<open>one_ack_block\<close> is a further restriction of the
  peer, with which packets can be received without a fault: its handshake packets hold no ACK frame with more than one
  block, for which \<open>conn_recv_delayed_handshake_pkt\<close> has no room.
\<close>

function payload_frames :: "bytes \<Rightarrow> ngtcp2_frame list" where
  "payload_frames payload =
     (if payload = [] then []
      else case ngtcp2_pkt_decode_frame payload of
          Ok (Some fr, n) \<Rightarrow> if n = 0 then [] else fr # payload_frames (drop n payload)
        | _ \<Rightarrow> [])"
  by pat_completeness auto
termination by (relation "measure length") auto

declare payload_frames.simps [simp del]

definition of_stream :: "(u64 \<Rightarrow> u64 \<Rightarrow> u8) \<Rightarrow> ngtcp2_frame \<Rightarrow> bool" where
  "of_stream S fr \<longleftrightarrow> (case fr of FR_STREAM st \<Rightarrow> \<forall>i < length (st_data st). st_data st ! i = S (st_stream_id st) (st_offset st + of_nat i)
     | _ \<Rightarrow> True)"

definition decrypts :: "(ngtcp2_frame \<Rightarrow> bool) \<Rightarrow> 'a ngtcp2_decrypt \<Rightarrow> bool" where
  "decrypts P f \<longleftrightarrow> (\<forall>destlen ct key nonce ad a pt. snd (f destlen ct key nonce ad a) = Inr pt \<longrightarrow>
     length pt \<le> destlen \<and> (\<forall>fr \<in> set (payload_frames pt). P fr))"

definition authentic :: "(u64 \<Rightarrow> u64 \<Rightarrow> u8) \<Rightarrow> 'a ngtcp2_conn_callbacks \<Rightarrow> bool" where
  "authentic S cbs \<longleftrightarrow> decrypts (of_stream S) (cb_decrypt cbs) \<and> decrypts (of_stream S) (cb_hs_decrypt cbs)"

definition one_ack_block :: "'a ngtcp2_conn_callbacks \<Rightarrow> bool" where
  "one_ack_block cbs \<longleftrightarrow> decrypts fits_frame (cb_hs_decrypt cbs)"

lemma decrypts_conj: "decrypts P f \<Longrightarrow> decrypts Q f \<Longrightarrow> decrypts (\<lambda>fr. P fr \<and> Q fr) f"
  by (auto simp: decrypts_def)

text \<open>
  The keys that decrypt packets, whether the handshake has completed, and whether the peer is restricted as above: the handlers change
  none of these.
\<close>

record rx_keys =
  rk_hs :: "ngtcp2_crypto_km option"
  rk_rx :: "ngtcp2_crypto_km option"
  rk_early :: "ngtcp2_crypto_km option"
  rk_completed :: u8
  rk_one_block :: bool

text \<open>
  The datagrams considered: no Retry packets, after which stream 0 starts anew, and at most 16 versions in
  a Version Negotiation packet, for which \<open>conn_on_version_negotiation\<close> has room.
\<close>

definition datagram_ok :: "bytes \<Rightarrow> bool" where
  "datagram_ok pkt \<longleftrightarrow> pkt \<noteq> [] \<and> length pkt < 2 ^ 62 \<and>
     (\<forall>hdr nread. ngtcp2_pkt_decode_hd_long pkt = Ok (hdr, nread) \<longrightarrow>
        hd_type hdr \<noteq> NGTCP2_PKT_RETRY \<and> (hd_version hdr = 0 \<longrightarrow> length pkt \<le> nread + 60))"

text \<open>
  The account of the connection: the offset \<open>rx_offset\<close> covers what was received of all streams but stream 0, up to the last offset of every stream
  in the hash table, and what the application was given of the streams that were closed.
\<close>

definition counted :: "('a \<Rightarrow> u64 \<Rightarrow> bytes) \<Rightarrow> 'a ngtcp2_conn \<Rightarrow> u64 \<Rightarrow> nat" where
  "counted got conn sid =
     (if live conn sid then unat (sm_last_rx_offset (cn_strm conn sid)) else length (got (cn_app conn) sid))"

definition data_counted :: "('a \<Rightarrow> u64 \<Rightarrow> bytes) \<Rightarrow> 'a ngtcp2_conn \<Rightarrow> bool" where
  "data_counted got conn \<longleftrightarrow> (\<forall>F. 0 \<notin> F \<longrightarrow> (\<Sum>sid \<in> F. counted got conn sid) \<le> unat (cn_rx_offset conn))"

lemma data_counted_mono:
  assumes "data_counted got conn" and "\<And>sid. sid \<noteq> 0 \<Longrightarrow> counted got c sid \<le> counted got conn sid" and "cn_rx_offset conn \<le> cn_rx_offset c"
  shows "data_counted got c"
  unfolding data_counted_def
proof (intro allI impI)
  fix F :: "u64 set" assume F: "0 \<notin> F"
  then have "(\<Sum>sid \<in> F. counted got c sid) \<le> (\<Sum>sid \<in> F. counted got conn sid)" using assms(2) by (intro sum_mono) metis
  also have "\<dots> \<le> unat (cn_rx_offset conn)" using assms(1) F by (simp add: data_counted_def)
  also have "\<dots> \<le> unat (cn_rx_offset c)" using assms(3) by (simp add: word_le_nat_alt)
  finally show "(\<Sum>sid \<in> F. counted got c sid) \<le> unat (cn_rx_offset c)" .
qed

lemma data_counted_same:
  "live c = live conn \<Longrightarrow> cn_strm c = cn_strm conn \<Longrightarrow> got (cn_app c) = got (cn_app conn) \<Longrightarrow> cn_rx_offset c = cn_rx_offset conn \<Longrightarrow>
   data_counted got c = data_counted got conn"
  by (simp add: data_counted_def counted_def cong: if_cong)

text \<open>
  The application has been given a prefix of every stream; of a stream in the hash table exactly the bytes
  before the first gap. Stream 0 is never closed. The allocator does not fail: \<open>conn_recv_stream\<close> asserts that one of its allocations succeeds.
\<close>

definition rx_inv :: "rx_keys \<Rightarrow> ('a \<Rightarrow> u64 \<Rightarrow> bytes) \<Rightarrow> (u64 \<Rightarrow> u64 \<Rightarrow> u8) \<Rightarrow> 'a ngtcp2_conn \<Rightarrow> bool" where
  "rx_inv K got S conn \<longleftrightarrow>
     delivers got (cn_callbacks conn) \<and> authentic S (cn_callbacks conn) \<and>
     (cn_server conn \<longrightarrow> cb_recv_client_initial (cn_callbacks conn) \<noteq> None) \<and>
     cn_hs_rx_ckm conn = rk_hs K \<and> cn_rx_ckm conn = rk_rx K \<and> cn_early_ckm conn = rk_early K \<and>
     cn_flags conn AND NGTCP2_CONN_FLAG_HANDSHAKE_COMPLETED = rk_completed K \<and>
     cn_mem conn = [] \<and> map_inv (cn_strms conn) \<and> ids_ok conn \<and> (\<forall>(pkt, ts) \<in> set (cn_buffed_rx_ppkts conn). datagram_ok pkt) \<and>
     live conn 0 \<and> sm_flags (cn_strm conn 0) AND NGTCP2_STRM_FLAG_SHUT_RD = 0 \<and>
     (\<forall>sid. live conn sid \<longrightarrow> small_id sid \<and>
        sm_stream_id (cn_strm conn sid) = sid \<and> strm_rx_ok (S sid) (cn_strm conn sid) (got (cn_app conn) sid) \<and> \<not> fresh conn sid) \<and>
     (\<forall>sid. fresh conn sid \<longrightarrow> got (cn_app conn) sid = []) \<and>
     (\<forall>sid. \<exists>n. got (cn_app conn) sid = stream_prefix (S sid) n) \<and>
     cn_rx_offset conn \<le> cn_max_rx_offset conn \<and> data_counted got conn \<and>
     (rk_one_block K \<longleftrightarrow> one_ack_block (cn_callbacks conn)) \<and> acktr_wf (cn_acktr conn) \<and> rtb_wf (cn_rtb conn)"

lemmas rx_inv_defs = rx_inv_def data_counted_def counted_def live_def fresh_def ids_ok_def remote_idtr_def conn_local_stream_def

lemma rx_inv_live:
  assumes "rx_inv K got S conn" and "live conn sid"
  shows "sm_stream_id (cn_strm conn sid) = sid" and "strm_rx_ok (S sid) (cn_strm conn sid) (got (cn_app conn) sid)"
  using assms by (simp_all add: rx_inv_def)

lemma find_stream:
  assumes "rx_inv K got S conn"
  shows "ngtcp2_conn_find_stream conn sid = Ok (if live conn sid then Some (cn_strm conn sid) else None)"
proof -
  have "map_inv (cn_strms conn)" using assms by (simp add: rx_inv_def)
  then show ?thesis by (cases "map_abs (cn_strms conn) sid") (simp_all add: ngtcp2_conn_find_stream_def map_find_ok live_def)
qed

text \<open>Updates of fields that the invariant does not mention.\<close>

lemma rx_inv_frame [simp]:
  "rx_inv K got S (conn\<lparr>cn_fc_strms := fcs\<rparr>) = rx_inv K got S conn"
  "rx_inv K got S (conn\<lparr>cn_frq := frq\<rparr>) = rx_inv K got S conn"
  "rx_inv K got S (conn\<lparr>cn_immediate_ack := b\<rparr>) = rx_inv K got S conn"
  "rx_inv K got S (conn\<lparr>cn_unsent_max_remote_stream_id_bidi := m\<rparr>) = rx_inv K got S conn"
  "rx_inv K got S (conn\<lparr>cn_unsent_max_remote_stream_id_uni := m\<rparr>) = rx_inv K got S conn"
  "rx_inv K got S (conn\<lparr>cn_unsent_max_rx_offset := m\<rparr>) = rx_inv K got S conn"
  "rx_inv K got S (conn\<lparr>cn_max_tx_offset := m\<rparr>) = rx_inv K got S conn"
  "rx_inv K got S (conn\<lparr>cn_state := st\<rparr>) = rx_inv K got S conn"
  "rx_inv K got S (conn\<lparr>cn_max_rx_pkt_num := m\<rparr>) = rx_inv K got S conn"
  "rx_inv K got S (conn\<lparr>cn_next_ack_expiry := m\<rparr>) = rx_inv K got S conn"
  "rx_inv K got S (conn\<lparr>cn_decrypt_buf_len := n\<rparr>) = rx_inv K got S conn"
  by (simp_all add: rx_inv_defs cong: if_cong)

lemma map_size_ok:
  assumes "rx_inv K got S conn"
  shows "unat (map_size (cn_strms conn)) < 2 ^ 29"
proof -
  let ?es = "map_entries (cn_strms conn)"
  have m: "distinct (map me_key ?es)" "unat (map_size (cn_strms conn)) = length ?es"
    using assms by (simp_all add: rx_inv_def map_inv_def table_ok_def map_entries_def)
  have "small_id (me_key e)" if "e \<in> set ?es" for e
  proof -
    have "map_abs (cn_strms conn) (me_key e) \<noteq> None" using that by (auto simp: map_abs_def key_find_def find_None_iff)
    then show ?thesis using assms by (simp add: rx_inv_def live_def)
  qed
  then have "set (map (unat \<circ> me_key) ?es) \<subseteq> {..< 2 ^ 28}" by (auto simp: small_id_def)
  then have "card (set (map (unat \<circ> me_key) ?es)) \<le> 2 ^ 28" using card_mono by (metis card_lessThan finite_lessThan)
  moreover have "distinct (map (unat \<circ> me_key) ?es)"
    using m(1) unfolding map_map [symmetric] distinct_map [of unat] by (auto simp: inj_on_def word_unat_eq_iff)
  ultimately show ?thesis using m(2) distinct_card [of "map (unat \<circ> me_key) ?es"] by simp
qed

lemma mem_empty: "rx_inv K got S conn \<Longrightarrow> cn_mem conn = []"
  by (simp add: rx_inv_def)

lemma rx_inv_mem:
  assumes "rx_inv K got S conn"
  shows "rx_inv K got S (conn\<lparr>cn_mem := []\<rparr>)"
proof -
  have "conn\<lparr>cn_mem := []\<rparr> = conn" using mem_empty [OF assms] by simp
  with assms show ?thesis by simp
qed

lemma live_frame [simp]:
  "live (conn\<lparr>cn_mem := mem\<rparr>) sid = live conn sid" "live (conn\<lparr>cn_fc_strms := fcs\<rparr>) sid = live conn sid"
  "live (conn\<lparr>cn_frq := frq\<rparr>) sid = live conn sid" "live (conn\<lparr>cn_app := a\<rparr>) sid = live conn sid"
  "live (conn\<lparr>cn_rx_offset := x\<rparr>) sid = live conn sid" "live (conn\<lparr>cn_acktr := acktr\<rparr>) sid = live conn sid"
  "live (upd_strm conn sid' f) sid = live conn sid"
  by (simp_all add: live_def upd_strm_def)

lemma counted_frame [simp]:
  "data_counted got (conn\<lparr>cn_mem := mem\<rparr>) = data_counted got conn" "data_counted got (conn\<lparr>cn_fc_strms := fcs\<rparr>) = data_counted got conn"
  "data_counted got (conn\<lparr>cn_frq := frq\<rparr>) = data_counted got conn" "data_counted got (conn\<lparr>cn_acktr := acktr\<rparr>) = data_counted got conn"
  "got a = got (cn_app conn) \<Longrightarrow> data_counted got (conn\<lparr>cn_app := a\<rparr>) = data_counted got conn"
  by (rule data_counted_same; simp add: fun_eq_iff)+

lemma data_counted_cong:
  assumes "sid \<noteq> 0 \<Longrightarrow> sm_last_rx_offset (f (cn_strm conn sid)) = sm_last_rx_offset (g (cn_strm conn sid))"
  shows "data_counted got (upd_strm conn sid f) = data_counted got (upd_strm conn sid g)"
proof -
  have "counted got (upd_strm conn sid f) t = counted got (upd_strm conn sid g) t" if "t \<noteq> 0" for t
    using assms that by (simp add: counted_def) (simp add: upd_strm_def)
  then have "(\<Sum>t \<in> F. counted got (upd_strm conn sid f) t) = (\<Sum>t \<in> F. counted got (upd_strm conn sid g) t)" if "0 \<notin> F" for F
    by (intro sum.cong refl) (use that in metis)
  moreover have "cn_rx_offset (upd_strm conn sid f) = cn_rx_offset (upd_strm conn sid g)" by (simp add: upd_strm_def)
  ultimately show ?thesis unfolding data_counted_def by metis
qed

lemma data_counted_upd:
  assumes "sid \<noteq> 0 \<Longrightarrow> sm_last_rx_offset (f (cn_strm conn sid)) = sm_last_rx_offset (cn_strm conn sid)"
  shows "data_counted got (upd_strm conn sid f) = data_counted got conn"
  using data_counted_cong [of sid f conn "\<lambda>s. s", OF assms] by (simp add: upd_strm_def)

lemma ids_frame [simp]:
  "fresh (conn\<lparr>cn_mem := mem\<rparr>) t = fresh conn t" "ids_ok (conn\<lparr>cn_mem := mem\<rparr>) = ids_ok conn"
  "fresh (conn\<lparr>cn_app := a\<rparr>) t = fresh conn t" "ids_ok (conn\<lparr>cn_app := a\<rparr>) = ids_ok conn"
  "fresh (conn\<lparr>cn_rx_offset := x\<rparr>) t = fresh conn t" "ids_ok (conn\<lparr>cn_rx_offset := x\<rparr>) = ids_ok conn"
  "fresh (conn\<lparr>cn_strms := m\<rparr>) t = fresh conn t" "ids_ok (conn\<lparr>cn_strms := m\<rparr>) = ids_ok conn"
  "fresh (upd_strm conn sid f) t = fresh conn t" "ids_ok (upd_strm conn sid f) = ids_ok conn"
  by (simp_all add: fresh_def ids_ok_def remote_idtr_def conn_local_stream_def upd_strm_def)

lemma rx_inv_strm:
  assumes inv: "rx_inv K got S conn"
    and ok: "live conn sid \<Longrightarrow> sm_stream_id (f (cn_strm conn sid)) = sid \<and> strm_rx_ok (S sid) (f (cn_strm conn sid)) (got (cn_app conn) sid)"
    and rd: "sid = 0 \<Longrightarrow> sm_flags (f (cn_strm conn 0)) AND NGTCP2_STRM_FLAG_SHUT_RD = sm_flags (cn_strm conn 0) AND NGTCP2_STRM_FLAG_SHUT_RD"
    and count: "data_counted got (upd_strm conn sid f)"
  shows "rx_inv K got S (upd_strm conn sid f)"
  using inv ok rd count by (cases "sid = 0"; simp add: rx_inv_def) (simp_all add: upd_strm_def)

lemma strm_rx_ok_cong:
  "sm_rob s' = sm_rob s \<Longrightarrow> sm_last_rx_offset s' = sm_last_rx_offset s \<Longrightarrow> sm_max_rx_offset s' = sm_max_rx_offset s \<Longrightarrow>
   strm_rx_ok S s' out = strm_rx_ok S s out"
  by (simp add: strm_rx_ok_def ngtcp2_strm_rx_offset_def)

lemma rx_inv_upd:
  assumes "rx_inv K got S conn"
    and "\<And>s. sm_stream_id (f s) = sm_stream_id s \<and> sm_rob (f s) = sm_rob s \<and> sm_last_rx_offset (f s) = sm_last_rx_offset s \<and>
      sm_max_rx_offset (f s) = sm_max_rx_offset s \<and> (sid = 0 \<longrightarrow> sm_flags (f s) = sm_flags s)"
  shows "rx_inv K got S (upd_strm conn sid f)"
proof (rule rx_inv_strm [OF assms(1)])
  let ?s = "cn_strm conn sid"
  have f: "sm_stream_id (f ?s) = sm_stream_id ?s" "sm_rob (f ?s) = sm_rob ?s" "sm_last_rx_offset (f ?s) = sm_last_rx_offset ?s"
    "sm_max_rx_offset (f ?s) = sm_max_rx_offset ?s" "sid = 0 \<Longrightarrow> sm_flags (f ?s) = sm_flags ?s"
    using assms(2) [of ?s] by simp_all
  show "sid = 0 \<Longrightarrow> sm_flags (f (cn_strm conn 0)) AND NGTCP2_STRM_FLAG_SHUT_RD = sm_flags (cn_strm conn 0) AND NGTCP2_STRM_FLAG_SHUT_RD"
    using f(5) by simp
  have "data_counted got conn" using assms(1) by (simp add: rx_inv_def)
  then show "data_counted got (upd_strm conn sid f)" by (simp add: data_counted_upd f(3))
  assume "live conn sid"
  then show "sm_stream_id (f ?s) = sid \<and> strm_rx_ok (S sid) (f ?s) (got (cn_app conn) sid)"
    using rx_inv_live [OF assms(1)] by (simp add: f strm_rx_ok_cong [OF f(2-4)])
qed

lemma rx_inv_last:
  assumes inv: "rx_inv K got S conn" and le: "sm_last_rx_offset (cn_strm conn sid) \<le> e" "e \<le> sm_max_rx_offset (cn_strm conn sid)"
    and f: "\<And>s. sm_stream_id (f s) = sm_stream_id s \<and> sm_rob (f s) = sm_rob s \<and> sm_last_rx_offset (f s) = e \<and>
      sm_max_rx_offset (f s) = sm_max_rx_offset s \<and> (sid = 0 \<longrightarrow> sm_flags (f s) = sm_flags s)"
    and count: "sid \<noteq> 0 \<Longrightarrow> data_counted got (upd_strm conn sid (\<lambda>s. s\<lparr>sm_last_rx_offset := e\<rparr>))"
  shows "rx_inv K got S (upd_strm conn sid f)"
proof (rule rx_inv_strm [OF inv])
  have "data_counted got (upd_strm conn sid f) = data_counted got (upd_strm conn sid (\<lambda>s. s\<lparr>sm_last_rx_offset := e\<rparr>))"
    by (rule data_counted_cong) (simp add: f)
  then show "data_counted got (upd_strm conn sid f)"
    using count inv data_counted_upd [of sid "\<lambda>s. s\<lparr>sm_last_rx_offset := e\<rparr>" conn got] by (cases "sid = 0") (simp_all add: rx_inv_def)
next
  assume "live conn sid"
  note ok = rx_inv_live [OF inv this]
  show "sm_stream_id (f (cn_strm conn sid)) = sid \<and> strm_rx_ok (S sid) (f (cn_strm conn sid)) (got (cn_app conn) sid)"
    using ok le f by (simp add: strm_rx_ok_def ngtcp2_strm_rx_offset_def) (meson order_trans)
qed (use f in simp)

lemma rx_inv_app:
  assumes "rx_inv K got S conn" and "got a = got (cn_app conn)"
  shows "rx_inv K got S (conn\<lparr>cn_app := a\<rparr>)"
  using assms by (simp add: rx_inv_def)

lemma rx_inv_offset:
  assumes "rx_inv K got S conn" and "x \<le> cn_max_rx_offset conn" and "cn_rx_offset conn \<le> x"
  shows "rx_inv K got S (conn\<lparr>cn_rx_offset := x\<rparr>)"
proof -
  have "data_counted got conn" using assms(1) by (simp add: rx_inv_def)
  then have "data_counted got (conn\<lparr>cn_rx_offset := x\<rparr>)" by (rule data_counted_mono) (simp_all add: counted_def assms(3))
  then show ?thesis using assms by (simp add: rx_inv_def)
qed

lemma rx_inv_received:
  assumes inv: "rx_inv K got S conn" and live: "live conn sid" and sid: "sid = st_stream_id fr"
    and rcv: "received got (S sid) fr conn conn'" and e: "st_offset fr + of_nat (length (st_data fr)) \<le> sm_last_rx_offset (cn_strm conn sid)"
  shows "rx_inv K got S conn'" and "live conn' = live conn"
    and "rob_missing (sm_rob (cn_strm conn' sid)) \<inter> {x. st_offset fr \<le> x \<and> x < st_offset fr + of_nat (length (st_data fr))} = {}"
proof -
  have em: "emits sid conn conn'" and c': "rob_inv (S sid) (ngtcp2_strm_rx_offset (cn_strm conn' sid)) (sm_rob (cn_strm conn' sid))"
      "rob_missing (sm_rob (cn_strm conn' sid)) =
        rob_missing (sm_rob (cn_strm conn sid)) - {x. st_offset fr \<le> x \<and> x < st_offset fr + of_nat (length (st_data fr))}"
      "got (cn_app conn') = (got (cn_app conn))(sid := stream_prefix (S sid) (unat (ngtcp2_strm_rx_offset (cn_strm conn' sid))))"
    using rcv by (simp_all add: received_def Let_def sid)
  note eq = emits_eq [OF em]
  show l: "live conn' = live conn" by (simp add: live_def fun_eq_iff eq)
  have fr: "fresh conn' = fresh conn" "ids_ok conn' = ids_ok conn"
    by (simp_all add: fresh_def ids_ok_def remote_idtr_def conn_local_stream_def fun_eq_iff eq)
  note ok = rx_inv_live [OF inv live]
  have "strm_rx_ok (S sid) (cn_strm conn' sid) (got (cn_app conn') sid)"
    using ok(2) c' e by (auto simp: strm_rx_ok_def eq)
  moreover have "\<not> fresh conn sid" using inv live by (simp add: rx_inv_def)
  moreover have flags: "sm_flags (cn_strm conn' 0) = sm_flags (cn_strm conn 0)" using eq by (cases "sid = 0") simp_all
  moreover have "data_counted got conn'"
  proof (rule data_counted_mono)
    show "data_counted got conn" using inv by (simp add: rx_inv_def)
    show "counted got conn' t \<le> counted got conn t" for t
      using live by (cases "t = sid") (simp_all add: counted_def l eq c'(3))
  qed (simp add: eq)
  ultimately show "rx_inv K got S conn'"
    using inv ok(1) eq flags unfolding rx_inv_def l fr by (auto simp: c'(3))
  show "rob_missing (sm_rob (cn_strm conn' sid)) \<inter> {x. st_offset fr \<le> x \<and> x < st_offset fr + of_nat (length (st_data fr))} = {}"
    using c'(2) by auto
qed

section \<open>Steps that return\<close>

text \<open>
  \<open>returns m P\<close>: the step does not fault, and when it returns 0 the state satisfies \<open>P\<close>.
\<close>

definition returns :: "'a step \<Rightarrow> ('a ngtcp2_conn \<Rightarrow> bool) \<Rightarrow> bool" where
  "returns m P \<longleftrightarrow> (\<exists>c rv. m = Ok (c, rv) \<and> (rv = None \<longrightarrow> P c))"

lemma returns_Ok [simp]: "returns (Ok (c, rv)) P \<longleftrightarrow> (rv = None \<longrightarrow> P c)"
  by (simp add: returns_def)

lemma returns_then:
  assumes "returns m Q" and "\<And>c. Q c \<Longrightarrow> returns (k c) P"
  shows "returns (then_ok m k) P"
  using assms by (auto simp: returns_def then_ok_def split: option.splits)

lemma returns_weaken: "returns m Q \<Longrightarrow> (\<And>c. Q c \<Longrightarrow> P c) \<Longrightarrow> returns m P"
  by (auto simp: returns_def)

lemma returnsD: "returns m P \<Longrightarrow> m = Ok (c, None) \<Longrightarrow> P c"
  by (simp add: returns_def)

lemma returns_call_cb:
  assumes inv: "rx_inv K got S conn" and quiet: "\<And>f. cb = Some f \<Longrightarrow> quiet got f"
  shows "returns (Ok (call_cb cb conn)) (\<lambda>c. rx_inv K got S c \<and> (\<exists>a. c = conn\<lparr>cn_app := a\<rparr>))"
proof (cases cb)
  case None
  then show ?thesis using inv by (auto simp: call_cb_def intro: exI [of _ "cn_app conn"])
next
  case (Some f)
  obtain a err where run: "f (cn_app conn) = (a, err)" by fastforce
  then have "got a = got (cn_app conn)" using quiet [OF Some] by (simp add: quiet_def) (metis fst_conv)
  then show ?thesis using Some run inv by (auto simp: call_cb_def intro: rx_inv_app)
qed

lemma rx_offset_ok:
  assumes "rx_inv K got S conn" and "live conn sid"
  defines "rx \<equiv> ngtcp2_strm_rx_offset (cn_strm conn sid)"
  shows "rob_inv (S sid) rx (sm_rob (cn_strm conn sid))" and "got (cn_app conn) sid = stream_prefix (S sid) (unat rx)"
    and "rx \<le> sm_last_rx_offset (cn_strm conn sid)" and "sm_last_rx_offset (cn_strm conn sid) \<le> sm_max_rx_offset (cn_strm conn sid)"
    and "x \<in> rob_missing (sm_rob (cn_strm conn sid)) \<Longrightarrow> rx \<le> x"
proof -
  note ok = rx_inv_live [OF assms(1,2)]
  show inv: "rob_inv (S sid) rx (sm_rob (cn_strm conn sid))" and "got (cn_app conn) sid = stream_prefix (S sid) (unat rx)"
    "sm_last_rx_offset (cn_strm conn sid) \<le> sm_max_rx_offset (cn_strm conn sid)"
    using ok(2) by (simp_all add: strm_rx_ok_def rx_def)
  note first = rob_first_missing [OF inv]
  show "x \<in> rob_missing (sm_rob (cn_strm conn sid)) \<Longrightarrow> rx \<le> x" using first(2) by (simp add: rx_def ngtcp2_strm_rx_offset_def)
  show "rx \<le> sm_last_rx_offset (cn_strm conn sid)"
  proof (cases "sm_last_rx_offset (cn_strm conn sid) < UINT64_MAX")
    case True
    then show ?thesis using ok(2) first(2) by (simp add: strm_rx_ok_def rx_def ngtcp2_strm_rx_offset_def)
  next
    case False
    then have "UINT64_MAX \<le> sm_last_rx_offset (cn_strm conn sid)" by (rule linorder_not_less [THEN iffD1])
    then show ?thesis by (rule order_trans [OF UINT64_MAX_max])
  qed
qed

section \<open>Closing\<close>

definition shrinks :: "'a ngtcp2_conn \<Rightarrow> 'a ngtcp2_conn \<Rightarrow> bool" where
  "shrinks c c' \<longleftrightarrow> cn_strm c' = cn_strm c \<and> (\<forall>t. live c' t \<longrightarrow> live c t)"

lemma rx_inv_remove:
  assumes inv: "rx_inv K got S conn" and m: "map_inv m" "map_abs m = (map_abs (cn_strms conn))(sid := None)" and sid: "sid \<noteq> 0"
  shows "rx_inv K got S (conn\<lparr>cn_strms := m\<rparr>)" and "live (conn\<lparr>cn_strms := m\<rparr>) t \<longleftrightarrow> t \<noteq> sid \<and> live conn t"
proof -
  show l: "live (conn\<lparr>cn_strms := m\<rparr>) t \<longleftrightarrow> t \<noteq> sid \<and> live conn t" for t by (simp add: live_def m(2))
  have "data_counted got (conn\<lparr>cn_strms := m\<rparr>)"
  proof (rule data_counted_mono)
    show "data_counted got conn" using inv by (simp add: rx_inv_def)
    show "counted got (conn\<lparr>cn_strms := m\<rparr>) t \<le> counted got conn t" for t
      using rx_offset_ok(2,3) [OF inv, of t] by (auto simp: counted_def l stream_prefix_def word_le_nat_alt)
  qed simp
  then show "rx_inv K got S (conn\<lparr>cn_strms := m\<rparr>)" using inv m(1) sid unfolding rx_inv_def l by simp
qed

lemma close_stream_ok:
  assumes inv: "rx_inv K got S conn" and sid: "sid \<noteq> 0"
  shows "returns (ngtcp2_conn_close_stream conn sid e) (\<lambda>c. rx_inv K got S c \<and> shrinks conn c \<and> \<not> live c sid)"
proof -
  have "map_inv (cn_strms conn)" using inv by (simp add: rx_inv_def)
  from map_remove_refines [OF this, of sid] show ?thesis
  proof (elim disjE conjE exE)
    fix m assume m: "ngtcp2_map_remove (cn_strms conn) sid = Ok (m, None)" "map_inv m" "map_abs m = (map_abs (cn_strms conn))(sid := None)"
    let ?c = "conn\<lparr>cn_strms := m\<rparr>"
    note c = rx_inv_remove [OF inv m(2,3) sid]
    have close: "returns (Ok (conn_call_stream_close ?c strm err)) (\<lambda>c. rx_inv K got S c \<and> (\<exists>a. c = ?c\<lparr>cn_app := a\<rparr>))" for strm err
      unfolding conn_call_stream_close_def using inv by (intro returns_call_cb [OF c(1)]) (auto simp: rx_inv_def delivers_def)
    show ?thesis
      unfolding ngtcp2_conn_close_stream_def Let_def
      by (simp add: m(1)) (intro conjI impI; rule returns_then [OF close];
        auto simp: conn_immediate_ack_def fc_unlink_def shrinks_def live_def m(3) split: if_splits)
  qed (simp add: ngtcp2_conn_close_stream_def Let_def)
qed

lemma close_if_shut_ok:
  assumes "rx_inv K got S conn"
  shows "returns (ngtcp2_conn_close_stream_if_shut_rdwr conn sid e) (\<lambda>c. rx_inv K got S c \<and> shrinks conn c)"
proof -
  have zero: "sid \<noteq> 0" if "sm_flags (cn_strm conn sid) AND NGTCP2_STRM_FLAG_SHUT_RDWR = NGTCP2_STRM_FLAG_SHUT_RDWR"
  proof
    assume "sid = 0"
    then have "sm_flags (cn_strm conn sid) AND NGTCP2_STRM_FLAG_SHUT_RD = 0" using assms by (simp add: rx_inv_def)
    moreover have "sm_flags (cn_strm conn sid) AND NGTCP2_STRM_FLAG_SHUT_RD =
        (sm_flags (cn_strm conn sid) AND NGTCP2_STRM_FLAG_SHUT_RDWR) AND NGTCP2_STRM_FLAG_SHUT_RD"
      by (simp only: and.assoc) simp
    ultimately show False unfolding that by simp
  qed
  have "returns (ngtcp2_conn_close_stream conn sid e) (\<lambda>c. rx_inv K got S c \<and> shrinks conn c)" if "sid \<noteq> 0"
    by (rule returns_weaken [OF close_stream_ok [OF assms that]]) simp
  then show ?thesis using assms zero by (simp add: ngtcp2_conn_close_stream_if_shut_rdwr_def Let_def shrinks_def)
qed

section \<open>STREAM frames\<close>

lemma unat_add_le: "unat (a::u64) + unat b \<le> unat (c::u64) \<Longrightarrow> unat (a + b) = unat a + unat b"
  using le_less_trans [of "unat a + unat b" "unat c" "2 ^ 64"] unat_add_small [of a b] by simp

lemma rx_consume:
  assumes inv: "rx_inv K got S conn" and ok: "\<not> conn_max_data_violated conn n"
  shows "rx_inv K got S (conn\<lparr>cn_rx_offset := cn_rx_offset conn + n\<rparr>)" and "unat (cn_rx_offset conn + n) = unat (cn_rx_offset conn) + unat n"
proof -
  have "unat n \<le> unat (cn_max_rx_offset conn - cn_rx_offset conn)" "cn_rx_offset conn \<le> cn_max_rx_offset conn"
    using inv ok by (simp_all add: conn_max_data_violated_def rx_inv_def word_le_nat_alt word_less_nat_alt)
  then have "unat (cn_rx_offset conn) + unat n \<le> unat (cn_max_rx_offset conn)" by (simp add: unat_sub word_le_nat_alt)
  moreover from this show u: "unat (cn_rx_offset conn + n) = unat (cn_rx_offset conn) + unat n" by (rule unat_add_le)
  ultimately show "rx_inv K got S (conn\<lparr>cn_rx_offset := cn_rx_offset conn + n\<rparr>)"
    by (intro rx_inv_offset [OF inv]) (simp_all add: word_le_nat_alt)
qed

text \<open>The offset of the connection grows by what the last offset of the stream does.\<close>

lemma consume_counts:
  assumes inv: "rx_inv K got S conn" and live: "live conn sid" and last: "sm_last_rx_offset (cn_strm conn sid) \<le> e"
    and ok: "\<not> conn_max_data_violated conn (e - sm_last_rx_offset (cn_strm conn sid))"
  shows "data_counted got (upd_strm (conn\<lparr>cn_rx_offset := cn_rx_offset conn + (e - sm_last_rx_offset (cn_strm conn sid))\<rparr>) sid
      (\<lambda>s. s\<lparr>sm_last_rx_offset := e\<rparr>))" (is "data_counted got ?c")
  unfolding data_counted_def
proof (intro allI impI)
  fix F :: "u64 set" assume F: "0 \<notin> F"
  let ?n = "unat (e - sm_last_rx_offset (cn_strm conn sid))"
  have n: "?n = unat e - unat (sm_last_rx_offset (cn_strm conn sid))" "unat (sm_last_rx_offset (cn_strm conn sid)) \<le> unat e"
    using last by (simp_all add: unat_sub word_le_nat_alt)
  have c: "counted got ?c t = counted got conn t + (if t = sid then ?n else 0)" for t
    using live n by (simp add: counted_def) (simp add: upd_strm_def)
  have "(\<Sum>t \<in> F. counted got ?c t) = (\<Sum>t \<in> F. counted got conn t) + (\<Sum>t \<in> F. if t = sid then ?n else 0)" by (simp add: c sum.distrib)
  also have "\<dots> \<le> unat (cn_rx_offset conn) + ?n" using inv F by (intro add_mono) (simp_all add: rx_inv_def data_counted_def)
  also have "\<dots> = unat (cn_rx_offset ?c)" using rx_consume(2) [OF inv ok] by (simp add: upd_strm_def)
  finally show "(\<Sum>t \<in> F. counted got ?c t) \<le> unat (cn_rx_offset ?c)" .
qed

text \<open>The data of the frame is not missing any more, unless its stream is closed.\<close>

definition seen :: "ngtcp2_stream \<Rightarrow> 'a ngtcp2_conn \<Rightarrow> bool" where
  "seen fr conn \<longleftrightarrow> (live conn (st_stream_id fr) \<longrightarrow>
     rob_missing (sm_rob (cn_strm conn (st_stream_id fr))) \<inter> {x. st_offset fr \<le> x \<and> x < fr_end fr} = {})"

lemma seen_shrinks: "seen fr c \<Longrightarrow> shrinks c c' \<Longrightarrow> seen fr c'"
  by (simp add: seen_def shrinks_def)

lemma fr_end_nat: "segment S (st_offset fr) (st_data fr) \<Longrightarrow> unat (fr_end fr) = unat (st_offset fr) + length (st_data fr)"
  by (simp add: segment_def unat_of_nat_small unat_add_small)

lemma ngtcp2_max_max: "ngtcp2_max a b = max a b"
  by (auto simp: ngtcp2_max_def max_def)

lemma seen_before:
  assumes "rx_inv K got S conn" and "fr_end fr \<le> ngtcp2_strm_rx_offset (cn_strm conn (st_stream_id fr))"
  shows "seen fr conn"
  unfolding seen_def using rx_offset_ok(5) [OF assms(1)] assms(2) by fastforce

lemma recv_deliver_ok:
  assumes inv: "rx_inv K got S conn" and live: "live conn (st_stream_id fr)"
    and seg: "segment (S (st_stream_id fr)) (st_offset fr) (st_data fr)"
    and rx: "rx = ngtcp2_strm_rx_offset (cn_strm conn (st_stream_id fr))" and past: "rx < fr_end fr"
    and e: "fr_end fr \<le> sm_last_rx_offset (cn_strm conn (st_stream_id fr))"
  shows "returns (recv_stream_deliver conn fr rx) (\<lambda>c. rx_inv K got S c \<and> seen fr c)"
  unfolding recv_stream_deliver_def
proof (rule returns_then)
  note ok = rx_offset_ok [OF inv live, folded rx]
  have "delivers got (cn_callbacks conn)" using inv by (simp add: rx_inv_def)
  moreover have "unat rx < unat (st_offset fr) + length (st_data fr)" using past by (simp add: word_less_nat_alt fr_end_nat [OF seg])
  ultimately have "\<exists>c' rv. recv_stream_data conn fr rx = Ok (c', rv) \<and> (rv = None \<longrightarrow> received got (S (st_stream_id fr)) fr conn c')"
    by (intro recv_stream_data_ok [where S = "S (st_stream_id fr)"] rx_inv_live(1) [OF inv live] ok(1,2) rx seg mem_empty [OF inv])
  then obtain c' rv where run: "recv_stream_data conn fr rx = Ok (c', rv)"
    and post: "rv = None \<Longrightarrow> received got (S (st_stream_id fr)) fr conn c'" by blast
  show "returns (recv_stream_data conn fr rx) (\<lambda>c. rx_inv K got S c \<and> seen fr c)"
    using rx_inv_received [OF inv live refl post e] by (simp add: run seen_def)
  fix c assume c: "rx_inv K got S c \<and> seen fr c"
  then show "returns (ngtcp2_conn_close_stream_if_shut_rdwr c (st_stream_id fr) NGTCP2_NO_ERROR) (\<lambda>c. rx_inv K got S c \<and> seen fr c)"
    using seen_shrinks by (intro returns_weaken [OF close_if_shut_ok]) auto
qed

lemma recv_stream_nofin_ok:
  assumes inv: "rx_inv K got S conn" and live: "live conn (st_stream_id fr)"
    and seg: "segment (S (st_stream_id fr)) (st_offset fr) (st_data fr)"
    and max: "fr_end fr \<le> sm_max_rx_offset (cn_strm conn (st_stream_id fr))"
    and count: "st_stream_id fr \<noteq> 0 \<Longrightarrow> data_counted got (upd_strm conn (st_stream_id fr)
      (\<lambda>s. s\<lparr>sm_last_rx_offset := max (sm_last_rx_offset (cn_strm conn (st_stream_id fr))) (fr_end fr)\<rparr>))"
  shows "returns (recv_stream_nofin conn fr (fr_end fr)) (\<lambda>c. rx_inv K got S c \<and>
    (sm_flags (cn_strm conn (st_stream_id fr)) AND NGTCP2_STRM_FLAG_STOP_SENDING = 0 \<longrightarrow> seen fr c))"
proof -
  let ?sid = "st_stream_id fr"
  let ?last = "ngtcp2_max (sm_last_rx_offset (cn_strm conn ?sid)) (fr_end fr)"
  let ?c = "upd_strm conn ?sid (\<lambda>strm. strm\<lparr>sm_last_rx_offset := ngtcp2_max (sm_last_rx_offset strm) (fr_end fr)\<rparr>)"
  have "?c = upd_strm conn ?sid (\<lambda>strm. strm\<lparr>sm_last_rx_offset := ?last\<rparr>)" by (simp add: upd_strm_def)
  moreover have "rx_inv K got S (upd_strm conn ?sid (\<lambda>strm. strm\<lparr>sm_last_rx_offset := ?last\<rparr>))"
    using rx_offset_ok(4) [OF inv live] max count by (intro rx_inv_last inv) (simp_all add: ngtcp2_max_max)
  ultimately have c: "rx_inv K got S ?c" by simp
  have l: "live ?c ?sid" and e: "fr_end fr \<le> sm_last_rx_offset (cn_strm ?c ?sid)"
    using live by simp (simp add: upd_strm_def ngtcp2_max_max)
  have fl: "sm_flags (cn_strm ?c ?sid) = sm_flags (cn_strm conn ?sid)" by (simp add: upd_strm_def)
  let ?rx = "ngtcp2_strm_rx_offset (cn_strm ?c ?sid)"
  have "\<not> fr_end fr \<le> ?rx \<Longrightarrow> returns (recv_stream_deliver ?c fr ?rx) (\<lambda>c. rx_inv K got S c \<and> seen fr c)"
    by (rule recv_deliver_ok [OF c l seg refl _ e]) (rule linorder_not_le [THEN iffD1])
  then show ?thesis
    using c seen_before [OF c, of fr] unfolding recv_stream_nofin_def Let_def fl by simp
qed

lemma stop_shut:
  assumes "(w :: u32) AND (NGTCP2_STRM_FLAG_STOP_SENDING OR NGTCP2_STRM_FLAG_SHUT_RD) = 0"
  shows "w AND NGTCP2_STRM_FLAG_SHUT_RD = 0" and "w AND NGTCP2_STRM_FLAG_STOP_SENDING = 0"
proof -
  have "w AND k = (w AND (NGTCP2_STRM_FLAG_STOP_SENDING OR NGTCP2_STRM_FLAG_SHUT_RD)) AND k"
    if "(NGTCP2_STRM_FLAG_STOP_SENDING OR NGTCP2_STRM_FLAG_SHUT_RD) AND k = k" for k
    using that by (simp only: and.assoc)
  from this [of NGTCP2_STRM_FLAG_SHUT_RD] this [of NGTCP2_STRM_FLAG_STOP_SENDING]
  show "w AND NGTCP2_STRM_FLAG_SHUT_RD = 0" "w AND NGTCP2_STRM_FLAG_STOP_SENDING = 0" unfolding assms by simp_all
qed

lemma recv_stream_fin_ok:
  assumes inv: "rx_inv K got S conn" and live: "live conn (st_stream_id fr)"
    and seg: "segment (S (st_stream_id fr)) (st_offset fr) (st_data fr)"
    and max: "fr_end fr \<le> sm_max_rx_offset (cn_strm conn (st_stream_id fr))" and sid: "st_stream_id fr \<noteq> 0"
    and count: "data_counted got (upd_strm conn (st_stream_id fr)
      (\<lambda>s. s\<lparr>sm_last_rx_offset := max (sm_last_rx_offset (cn_strm conn (st_stream_id fr))) (fr_end fr)\<rparr>))"
  shows "returns (recv_stream_fin conn fr (fr_end fr)) (\<lambda>c. rx_inv K got S c \<and>
    (sm_flags (cn_strm conn (st_stream_id fr)) AND (NGTCP2_STRM_FLAG_STOP_SENDING OR NGTCP2_STRM_FLAG_SHUT_RD) = 0 \<longrightarrow> seen fr c))"
proof (cases "sm_flags (cn_strm conn (st_stream_id fr)) AND NGTCP2_STRM_FLAG_SHUT_RD \<noteq> 0 \<or> fr_end fr < sm_last_rx_offset (cn_strm conn (st_stream_id fr))")
  case True
  then show ?thesis using inv stop_shut(1) [of "sm_flags (cn_strm conn (st_stream_id fr))"]
    by (auto simp: recv_stream_fin_def Let_def)
next
  case False
  let ?sid = "st_stream_id fr"
  let ?f = "\<lambda>strm. ngtcp2_strm_shutdown (strm\<lparr>sm_last_rx_offset := fr_end fr\<rparr>) NGTCP2_STRM_FLAG_SHUT_RD"
  let ?c = "fc_unlink (upd_strm conn ?sid ?f) ?sid"
  have c0: "rx_inv K got S (upd_strm conn ?sid ?f)"
    using False max sid count by (intro rx_inv_last [where e = "fr_end fr"] inv) (auto simp: ngtcp2_strm_shutdown_def max_def split: if_splits)
  then have c: "rx_inv K got S ?c" by (simp add: fc_unlink_def)
  have l: "live ?c ?sid" and e: "fr_end fr \<le> sm_last_rx_offset (cn_strm ?c ?sid)"
    using live by (simp add: fc_unlink_def) (simp add: fc_unlink_def upd_strm_def ngtcp2_strm_shutdown_def)
  let ?rx = "ngtcp2_strm_rx_offset (cn_strm ?c ?sid)"
  let ?P = "\<lambda>c. rx_inv K got S c \<and>
    (sm_flags (cn_strm conn ?sid) AND (NGTCP2_STRM_FLAG_STOP_SENDING OR NGTCP2_STRM_FLAG_SHUT_RD) = 0 \<longrightarrow> seen fr c)"
  have stop: "sm_flags (cn_strm (upd_strm conn ?sid ?f) ?sid) AND NGTCP2_STRM_FLAG_STOP_SENDING =
      sm_flags (cn_strm conn ?sid) AND NGTCP2_STRM_FLAG_STOP_SENDING"
    by (simp add: upd_strm_def ngtcp2_strm_shutdown_def bit.conj_disj_distrib2)
  have "?rx \<noteq> fr_end fr \<Longrightarrow> returns (recv_stream_deliver ?c fr ?rx) ?P"
    using rx_offset_ok(3) [OF c l] e
    by (intro returns_weaken [OF recv_deliver_ok [OF c l seg refl _ e]]) (auto simp: fc_unlink_def upd_strm_def ngtcp2_strm_shutdown_def)
  moreover have "returns (then_ok (Ok (conn_call_recv_stream_data ?c (cn_strm ?c ?sid) True []))
      (\<lambda>c. ngtcp2_conn_close_stream_if_shut_rdwr c ?sid NGTCP2_NO_ERROR)) ?P" if "fr_end fr = ?rx"
  proof (rule returns_then)
    have seen: "seen fr ?c" using that by (intro seen_before [OF c]) simp
    have "delivers_step got (cn_callbacks ?c) ?sid (\<lambda>data rx c. conn_call_recv_stream_data c (cn_strm c ?sid) True data)"
      using c by (intro delivers_step_stream) (simp add: rx_inv_def)
    then obtain a rv where run: "conn_call_recv_stream_data ?c (cn_strm ?c ?sid) True [] = (?c\<lparr>cn_app := a\<rparr>, rv)"
        "got a = (got (cn_app ?c))(?sid := got (cn_app ?c) ?sid @ [])"
      using rx_inv_live(1) [OF c l] unfolding delivers_step_def by blast
    then show "returns (Ok (conn_call_recv_stream_data ?c (cn_strm ?c ?sid) True [])) (\<lambda>c. rx_inv K got S c \<and> seen fr c)"
      using rx_inv_app [OF c, of a] seen by (simp add: seen_def fun_upd_idem)
    fix c assume "rx_inv K got S c \<and> seen fr c"
    then show "returns (ngtcp2_conn_close_stream_if_shut_rdwr c ?sid NGTCP2_NO_ERROR) ?P"
      using seen_shrinks by (intro returns_weaken [OF close_if_shut_ok]) auto
  qed
  moreover have "returns (ngtcp2_conn_close_stream_if_shut_rdwr (upd_strm conn ?sid ?f) ?sid err) ?P"
    if "sm_flags (cn_strm conn ?sid) AND NGTCP2_STRM_FLAG_STOP_SENDING \<noteq> 0" for err
    using that stop_shut(2) [of "sm_flags (cn_strm conn ?sid)"]
    by (intro returns_weaken [OF close_if_shut_ok [OF c0]]) auto
  ultimately show ?thesis using False stop unfolding recv_stream_fin_def Let_def by (simp add: fc_unlink_def)
qed

lemma recv_stream_existing_ok:
  assumes inv: "rx_inv K got S conn" and live: "live conn (st_stream_id fr)" and zero: "st_stream_id fr = 0 \<Longrightarrow> \<not> st_fin fr"
    and seg: "segment (S (st_stream_id fr)) (st_offset fr) (st_data fr)"
  shows "returns (recv_stream_existing conn fr) (\<lambda>c. rx_inv K got S c \<and>
    (sm_flags (cn_strm conn (st_stream_id fr)) AND NGTCP2_STRM_FLAG_STOP_SENDING = 0 \<and>
     (st_fin fr \<longrightarrow> sm_flags (cn_strm conn (st_stream_id fr)) AND NGTCP2_STRM_FLAG_SHUT_RD = 0) \<longrightarrow> seen fr c))"
proof -
  let ?sid = "st_stream_id fr"
  let ?strm = "cn_strm conn ?sid"
  let ?n = "fr_end fr - sm_last_rx_offset ?strm"
  let ?c = "if sm_last_rx_offset ?strm < fr_end fr \<and> ?sid \<noteq> 0 then conn\<lparr>cn_rx_offset := cn_rx_offset conn + ?n\<rparr> else conn"
  let ?P = "\<lambda>c. rx_inv K got S c \<and> (sm_flags ?strm AND NGTCP2_STRM_FLAG_STOP_SENDING = 0 \<and>
     (st_fin fr \<longrightarrow> sm_flags ?strm AND NGTCP2_STRM_FLAG_SHUT_RD = 0) \<longrightarrow> seen fr c)"
  have both: "w AND (NGTCP2_STRM_FLAG_STOP_SENDING OR NGTCP2_STRM_FLAG_SHUT_RD) = 0"
    if "w AND NGTCP2_STRM_FLAG_STOP_SENDING = 0" "w AND NGTCP2_STRM_FLAG_SHUT_RD = 0" for w :: u32
    using that by (simp only: bit.conj_disj_distrib) simp
  have "returns (if st_fin fr then recv_stream_fin ?c fr (fr_end fr) else recv_stream_nofin ?c fr (fr_end fr)) ?P"
    if ok: "\<not> sm_max_rx_offset ?strm < fr_end fr"
      "\<not> (sm_last_rx_offset ?strm < fr_end fr \<and> ?sid \<noteq> 0 \<and> conn_max_data_violated conn ?n)"
  proof -
    have c: "rx_inv K got S ?c" using rx_consume(1) [OF inv] inv ok by auto
    have count: "data_counted got (upd_strm ?c ?sid (\<lambda>s. s\<lparr>sm_last_rx_offset := max (sm_last_rx_offset (cn_strm ?c ?sid)) (fr_end fr)\<rparr>))" if "?sid \<noteq> 0"
    proof (cases "sm_last_rx_offset ?strm < fr_end fr")
      case True
      then show ?thesis using consume_counts [OF inv live, of "fr_end fr"] ok(2) that by (simp add: max_def order_less_imp_le)
    next
      case False
      moreover from False have "max (sm_last_rx_offset ?strm) (fr_end fr) = sm_last_rx_offset ?strm" by (simp add: max_def order_antisym)
      ultimately show ?thesis using inv by (simp add: data_counted_upd rx_inv_def)
    qed
    have l: "live ?c ?sid" and m: "fr_end fr \<le> sm_max_rx_offset (cn_strm ?c ?sid)" "cn_strm ?c ?sid = ?strm"
      using live ok(1) by (simp_all add: linorder_not_less)
    show ?thesis
    proof (cases "st_fin fr")
      case True
      show ?thesis unfolding if_P [OF True]
        using True zero both [of "sm_flags ?strm"] m(2)
        by (intro returns_weaken [OF recv_stream_fin_ok [OF c l seg m(1) _ count]]) auto
    next
      case False
      show ?thesis unfolding if_not_P [OF False]
        by (rule returns_weaken [OF recv_stream_nofin_ok [OF c l seg m(1) count]]) (auto simp: m(2))
    qed
  qed
  then show ?thesis unfolding recv_stream_existing_def Let_def by simp
qed

section \<open>Creating streams\<close>

definition new_strm :: "u64 \<Rightarrow> ngtcp2_strm \<Rightarrow> bool" where
  "new_strm sid strm \<longleftrightarrow> sm_stream_id strm = sid \<and> (\<forall>S. strm_rx_ok S strm []) \<and> sm_flags strm = 0 \<and> sm_last_rx_offset strm = 0"

lemma strm_init_ok:
  assumes "ngtcp2_strm_init sid NGTCP2_STRM_FLAG_NONE rx tx ud mem = (r, mem')" and rx: "rx \<le> NGTCP2_MAX_VARINT"
  shows "r \<noteq> Fault" and "r = Ok strm \<Longrightarrow> new_strm sid strm"
proof -
  show "r \<noteq> Fault"
    using assms
    by (auto simp: ngtcp2_strm_init_def ngtcp2_gaptr_init_def ngtcp2_rob_init_def ngtcp2_gaptr_gap_new_def
        ngtcp2_rob_gap_new_def split: result.splits prod.splits option.splits if_splits)
  assume r: "r = Ok strm"
  then obtain m m' where rob: "ngtcp2_rob_init (8 * 1024) m = (Ok (sm_rob strm), m')"
    and strm: "sm_stream_id strm = sid" "sm_last_rx_offset strm = 0" "sm_flags strm = 0" "sm_max_rx_offset strm = rx"
    using assms by (auto simp: ngtcp2_strm_init_def split: result.splits prod.splits)
  have "rob_gap (sm_rob strm) = [ngtcp2_range_init 0 UINT64_MAX]"
    using rob by (auto simp: ngtcp2_rob_init_def ngtcp2_rob_gap_new_def split: prod.splits if_splits dest!: sym [of _ "sm_rob strm"])
  then have "rob_missing (sm_rob strm) = {x. x < UINT64_MAX}" "ngtcp2_strm_rx_offset strm = 0"
    using gapset_init by (simp_all add: rob_missing_def ngtcp2_strm_rx_offset_def ngtcp2_rob_first_gap_offset_def ngtcp2_range_init_def)
  then show "new_strm sid strm"
    using rob_inv_init [OF rob] strm rx by (simp add: new_strm_def strm_rx_ok_def stream_prefix_def)
qed

lemma ucast_varint: "(ucast (w :: u32) :: u64) \<le> NGTCP2_MAX_VARINT"
proof -
  have "unat w < 2 ^ 32" using unsigned_less [of w] by simp
  then show ?thesis by (simp add: word_le_nat_alt unsigned_ucast_eq take_bit_nat_eq_self)
qed

lemma init_stream_ok:
  assumes inv: "map_inv (cn_strms conn)" "unat (map_size (cn_strms conn)) < 2 ^ 29" and new: "\<not> live conn sid" and mem: "cn_mem conn = []"
  shows "returns (ngtcp2_conn_init_stream conn sid ud) (\<lambda>c. \<exists>strms strm.
    c = conn\<lparr>cn_mem := [], cn_strms := strms, cn_strm := (cn_strm conn)(sid := strm)\<rparr> \<and> map_inv strms \<and>
    (\<forall>t. map_abs strms t \<noteq> None \<longleftrightarrow> t = sid \<or> live conn t) \<and> new_strm sid strm)"
proof -
  obtain r mem0 where init0: "ngtcp2_strm_init sid NGTCP2_STRM_FLAG_NONE (ucast (se_max_stream_data (cn_local_settings conn)))
      (ucast (se_max_stream_data (cn_remote_settings conn))) ud (cn_mem conn) = (r, mem0)" by fastforce
  then have init: "ngtcp2_strm_init sid NGTCP2_STRM_FLAG_NONE (ucast (se_max_stream_data (cn_local_settings conn)))
      (ucast (se_max_stream_data (cn_remote_settings conn))) ud (cn_mem conn) = (r, [])"
    using strm_init_total by (simp add: mem)
  show ?thesis
  proof (cases r)
    case (Ok strm)
    note strm = strm_init_ok(2) [OF init ucast_varint Ok]
    obtain strms mem' rv where ins: "ngtcp2_map_insert (cn_strms conn) (ngtcp2_map_entry_init sid ()) [] [] = Ok (strms, mem', rv)"
      "map_inv strms" "rv = None \<and> map_abs strms = (map_abs (cn_strms conn))(sid \<mapsto> ngtcp2_map_entry_init sid ()) \<or> rv = Some NGTCP2_ERR_NOMEM"
      using map_insert_refines [OF inv, of "ngtcp2_map_entry_init sid ()" "[]"] new
      by (fastforce simp: live_def ngtcp2_map_entry_init_def)
    have "mem' = []" using ins(1) map_insert_total [of "cn_strms conn" "ngtcp2_map_entry_init sid ()" "[]"] by (simp add: no_alloc_def)
    moreover have "\<forall>t. map_abs strms t \<noteq> None \<longleftrightarrow> t = sid \<or> live conn t" if "rv = None"
      using ins(3) that by (simp add: live_def)
    ultimately show ?thesis
      using ins(1,2,3) init Ok strm unfolding ngtcp2_conn_init_stream_def
      by (elim disjE) (fastforce simp: Let_def)+
  next
    case Fault
    then show ?thesis using strm_init_ok(1) [OF init ucast_varint] by simp
  qed (use init in \<open>simp add: ngtcp2_conn_init_stream_def\<close>)
qed

lemma rx_inv_insert:
  assumes inv: "rx_inv K got S conn" and m: "map_inv strms" "\<forall>t. map_abs strms t \<noteq> None \<longleftrightarrow> t = sid \<or> live conn t"
    and new: "new_strm sid strm" "\<not> fresh conn sid" "got (cn_app conn) sid = []" "small_id sid" "sid \<noteq> 0"
  shows "rx_inv K got S (conn\<lparr>cn_mem := [], cn_strms := strms, cn_strm := (cn_strm conn)(sid := strm)\<rparr>)"
    and "live (conn\<lparr>cn_mem := [], cn_strms := strms, cn_strm := (cn_strm conn)(sid := strm)\<rparr>) t \<longleftrightarrow> t = sid \<or> live conn t"
proof -
  let ?c = "conn\<lparr>cn_mem := [], cn_strms := strms, cn_strm := (cn_strm conn)(sid := strm)\<rparr>"
  show l: "live ?c t \<longleftrightarrow> t = sid \<or> live conn t" for t using m(2) by (simp add: live_def)
  have "fresh ?c t = fresh conn t" "ids_ok ?c = ids_ok conn" for t
    by (simp_all add: fresh_def ids_ok_def remote_idtr_def conn_local_stream_def)
  moreover have "data_counted got ?c"
  proof (rule data_counted_mono)
    show "data_counted got conn" using inv by (simp add: rx_inv_def)
    show "counted got ?c t \<le> counted got conn t" for t using l [of t] new(1) by (simp add: counted_def new_strm_def)
  qed simp
  ultimately show "rx_inv K got S ?c" using inv m(1) new unfolding rx_inv_def l by (auto simp: new_strm_def)
qed

text \<open>A stream of the peer that may be created: its identifier has just been marked as used.\<close>

definition may_create :: "rx_keys \<Rightarrow> ('a \<Rightarrow> u64 \<Rightarrow> bytes) \<Rightarrow> (u64 \<Rightarrow> u64 \<Rightarrow> u8) \<Rightarrow> 'a ngtcp2_conn \<Rightarrow> u64 \<Rightarrow> bool" where
  "may_create K got S conn sid \<longleftrightarrow> rx_inv K got S conn \<and> small_id sid \<and>
     \<not> live conn sid \<and> \<not> fresh conn sid \<and> got (cn_app conn) sid = []"

lemma create_remote_stream_ok:
  assumes "may_create K got S conn sid"
  shows "returns (conn_create_remote_stream conn sid)
    (\<lambda>c. rx_inv K got S c \<and> live c sid \<and> sm_flags (cn_strm c sid) AND (NGTCP2_STRM_FLAG_STOP_SENDING OR NGTCP2_STRM_FLAG_SHUT_RD) = 0)"
proof -
  have inv: "rx_inv K got S conn" and small: "small_id sid" and new: "\<not> live conn sid"
    and opened: "\<not> fresh conn sid" "got (cn_app conn) sid = []"
    using assms by (simp_all add: may_create_def)
  have zero: "sid \<noteq> 0" using inv new by (auto simp: rx_inv_def)
  note mem = mem_empty [OF inv]
  then have same: "conn\<lparr>cn_mem := []\<rparr> = conn" by simp
  have c: "map_inv (cn_strms conn)" using inv by (simp add: rx_inv_def)
  have init: "returns (ngtcp2_conn_init_stream conn sid 0) (\<lambda>c. rx_inv K got S c \<and> live c sid \<and> sm_flags (cn_strm c sid) = 0)"
  proof (rule returns_weaken [OF init_stream_ok [OF c map_size_ok [OF inv] new mem]], elim exE conjE)
    fix c strms strm
    assume *: "c = conn\<lparr>cn_mem := [], cn_strms := strms, cn_strm := (cn_strm conn)(sid := strm)\<rparr>" "map_inv strms"
      "\<forall>t. map_abs strms t \<noteq> None \<longleftrightarrow> t = sid \<or> live conn t" "new_strm sid strm"
    with rx_inv_insert [OF inv *(2-4) opened small zero] show "rx_inv K got S c \<and> live c sid \<and> sm_flags (cn_strm c sid) = 0"
      by (simp add: new_strm_def)
  qed
  have shut: "rx_inv K got S (upd_strm c sid (\<lambda>strm. ngtcp2_strm_shutdown strm NGTCP2_STRM_FLAG_SHUT_WR))" if "rx_inv K got S c" for c
    by (rule rx_inv_upd [OF that]) (simp add: ngtcp2_strm_shutdown_def zero)
  show ?thesis
    unfolding conn_create_remote_stream_def malloc_strm_def Let_def mem
    by (auto intro!: returns_then [OF init] simp: shut same) (simp add: upd_strm_def ngtcp2_strm_shutdown_def)
qed

lemma idtr_open_conn:
  assumes inv: "rx_inv K got S conn" and remote: "\<not> conn_local_stream conn sid" and id: "stream_id_check conn sid = None"
    and new: "\<not> live conn sid"
  shows "\<exists>c rv. conn_idtr_open conn sid = Ok (c, rv) \<and> rx_inv K got S c \<and> live c = live conn \<and>
    (rv = Some NGTCP2_ERR_STREAM_IN_USE \<or> rv = None \<and> may_create K got S c sid) \<and>
    ngtcp2_idtr_is_open (remote_idtr conn sid) sid = Ok (if fresh conn sid then None else Some NGTCP2_ERR_STREAM_IN_USE) \<and>
    cn_rx_offset c = cn_rx_offset conn \<and> cn_max_rx_offset c = cn_max_rx_offset conn \<and>
    cn_app c = cn_app conn \<and> cn_local_settings c = cn_local_settings conn \<and> (fresh conn sid \<longrightarrow> rv = None)"
proof -
  let ?t = "remote_idtr conn sid"
  have t: "idtr_inv ?t" "idtr_assert (idtr_server ?t) sid"
    using inv remote by (auto simp: rx_inv_def ids_ok_def remote_idtr_def conn_local_stream_def idtr_assert_def)
  obtain t' mem' rv where run: "ngtcp2_idtr_open ?t sid (cn_mem conn) = Ok (t', mem', rv)" and t': "idtr_inv t'"
    and rv0: "if id_from_stream_id sid \<notin> idtr_unused ?t then rv = Some NGTCP2_ERR_STREAM_IN_USE \<and> t' = ?t
     else rv = None \<and> idtr_unused t' = idtr_unused ?t - {id_from_stream_id sid} \<or>
       rv = Some NGTCP2_ERR_NOMEM \<and> t' = ?t \<and> False \<in> set (cn_mem conn)"
    using idtr_open_ok [OF t, of "cn_mem conn"] by blast
  have rv: "if id_from_stream_id sid \<notin> idtr_unused ?t then rv = Some NGTCP2_ERR_STREAM_IN_USE \<and> t' = ?t
     else rv = None \<and> idtr_unused t' = idtr_unused ?t - {id_from_stream_id sid}"
    using rv0 by (simp add: mem_empty [OF inv] split: if_splits)
  have is_open: "ngtcp2_idtr_is_open ?t sid = Ok (if id_from_stream_id sid \<in> idtr_unused ?t then None else Some NGTCP2_ERR_STREAM_IN_USE)"
    using idtr_open_ok [OF t, of "cn_mem conn"] by blast
  have srv: "idtr_server t' = idtr_server ?t" using run by (auto simp: ngtcp2_idtr_open_def result_simps split: prod.splits)
  have mem: "mem' = []" using run idtr_open_total by (simp add: mem_empty [OF inv])
  have small: "small_id sid"
    using id remote inv by (auto simp: stream_id_check_def small_id_def rx_inv_def ids_ok_def word_le_nat_alt word_less_nat_alt split: if_splits)
  let ?c = "(set_remote_idtr conn sid t')\<lparr>cn_mem := mem'\<rparr>"
  have ids: "ids_ok ?c" using inv t' srv by (auto simp: rx_inv_def ids_ok_def set_remote_idtr_def remote_idtr_def conn_local_stream_def)
  have sub: "idtr_unused t' \<subseteq> idtr_unused ?t" using rv by (auto split: if_splits)
  have fr: "fresh ?c u \<Longrightarrow> fresh conn u" for u
    using sub by (auto simp: fresh_def set_remote_idtr_def remote_idtr_def conn_local_stream_def split: if_splits)
  have same: "live ?c = live conn" "cn_strms ?c = cn_strms conn" "cn_strm ?c = cn_strm conn" "cn_app ?c = cn_app conn"
    "cn_callbacks ?c = cn_callbacks conn" "cn_rx_offset ?c = cn_rx_offset conn" "cn_max_rx_offset ?c = cn_max_rx_offset conn"
    "cn_acktr ?c = cn_acktr conn" "cn_rtb ?c = cn_rtb conn" "cn_hs_rx_ckm ?c = cn_hs_rx_ckm conn" "cn_rx_ckm ?c = cn_rx_ckm conn"
    "cn_early_ckm ?c = cn_early_ckm conn" "cn_flags ?c = cn_flags conn" "cn_mem ?c = []" "cn_server ?c = cn_server conn"
    "cn_buffed_rx_ppkts ?c = cn_buffed_rx_ppkts conn" "cn_local_settings ?c = cn_local_settings conn"
    by (simp_all add: set_remote_idtr_def live_def fun_eq_iff mem)
  have "data_counted got ?c = data_counted got conn" by (rule data_counted_same) (simp_all add: same)
  then have c: "rx_inv K got S ?c" using inv ids fr unfolding rx_inv_def same by (elim conjE) (intro conjI; blast)
  have "may_create K got S ?c sid" if "rv = None"
  proof -
    have rv': "id_from_stream_id sid \<in> idtr_unused ?t" "id_from_stream_id sid \<notin> idtr_unused t'"
      using rv that by (auto split: if_splits)
    have "conn_local_stream ?c sid = conn_local_stream conn sid" "remote_idtr ?c sid = t'"
      by (simp_all add: set_remote_idtr_def remote_idtr_def conn_local_stream_def)
    then have "\<not> fresh ?c sid" "fresh conn sid" using rv' remote by (simp_all add: fresh_def)
    then show ?thesis using c inv small new unfolding may_create_def same by (simp add: rx_inv_def)
  qed
  moreover have "rv = Some NGTCP2_ERR_STREAM_IN_USE \<or> rv = None" using rv by (auto split: if_splits)
  moreover have "fresh conn sid \<longleftrightarrow> id_from_stream_id sid \<in> idtr_unused ?t" using remote by (simp add: fresh_def)
  moreover from this have "fresh conn sid \<longrightarrow> rv = None" using rv by auto
  moreover have "conn_idtr_open conn sid = Ok (?c, rv)" using run by (simp add: conn_idtr_open_def)
  ultimately show ?thesis using c same is_open by auto
qed

text \<open>A stream of the peer that is created has the limit that the settings give.\<close>

lemma create_remote_stream_new:
  assumes "may_create K got S conn sid"
  shows "\<exists>c. conn_create_remote_stream conn sid = Ok (c, None) \<and> cn_app c = cn_app conn \<and> cn_rx_offset c = cn_rx_offset conn \<and>
    cn_max_rx_offset c = cn_max_rx_offset conn \<and> sm_max_rx_offset (cn_strm c sid) = ucast (se_max_stream_data (cn_local_settings conn)) \<and>
    sm_last_rx_offset (cn_strm c sid) = 0"
proof -
  have inv: "rx_inv K got S conn" and new: "\<not> live conn sid" using assms by (simp_all add: may_create_def)
  obtain strm where strm: "ngtcp2_strm_init sid NGTCP2_STRM_FLAG_NONE (ucast (se_max_stream_data (cn_local_settings conn)))
      (ucast (se_max_stream_data (cn_remote_settings conn))) 0 [] = (Ok strm, [])"
    "sm_max_rx_offset strm = ucast (se_max_stream_data (cn_local_settings conn))" "sm_last_rx_offset strm = 0"
    by (auto simp: ngtcp2_strm_init_def ngtcp2_gaptr_init_def ngtcp2_rob_init_def gap_new_total)
  have "map_inv (cn_strms conn)" using inv by (simp add: rx_inv_def)
  then obtain strms where "ngtcp2_map_insert (cn_strms conn) (ngtcp2_map_entry_init sid ()) [] [] = Ok (strms, [], None)"
    using map_insert_refines [OF _ map_size_ok [OF inv], of "ngtcp2_map_entry_init sid ()" "[]"] new
      map_insert_total [of "cn_strms conn" "ngtcp2_map_entry_init sid ()" "[]"] by (auto simp: live_def ngtcp2_map_entry_init_def no_alloc_def)
  then show ?thesis
    using strm by (simp add: conn_create_remote_stream_def malloc_strm_def ngtcp2_conn_init_stream_def mem_empty [OF inv] Let_def then_ok_def upd_strm_def
        ngtcp2_strm_shutdown_def)
qed

text \<open>
  A frame whose data the stream, if it exists, still accepts: the application did not ask the peer to stop, and the frame does not
  carry the FIN bit on a stream whose final offset is known. The code ignores the data in both cases.
\<close>

definition accepts :: "'a ngtcp2_conn \<Rightarrow> ngtcp2_stream \<Rightarrow> bool" where
  "accepts conn fr \<longleftrightarrow> (let flags = sm_flags (cn_strm conn (st_stream_id fr)) in
     live conn (st_stream_id fr) \<longrightarrow> flags AND NGTCP2_STRM_FLAG_STOP_SENDING = 0 \<and> (st_fin fr \<longrightarrow> flags AND NGTCP2_STRM_FLAG_SHUT_RD = 0))"

lemma recv_stream_ok:
  assumes inv: "rx_inv K got S conn"
    and seg: "segment (S (st_stream_id fr)) (st_offset fr) (st_data fr)"
  shows "returns (conn_recv_stream conn fr) (\<lambda>c. rx_inv K got S c \<and> (accepts conn fr \<longrightarrow> seen fr c))"
proof -
  let ?sid = "st_stream_id fr"
  let ?P = "\<lambda>c. rx_inv K got S c \<and> (accepts conn fr \<longrightarrow> seen fr c)"
  note find = find_stream [OF inv, of ?sid]
  have old: "returns (recv_stream_existing conn fr) ?P" if "live conn ?sid" and z: "?sid = 0 \<Longrightarrow> \<not> st_fin fr"
    by (rule returns_weaken [OF recv_stream_existing_ok [OF inv that(1) z seg]]) (auto simp: accepts_def Let_def that(1))
  have new: "returns (rbind (conn_idtr_open conn ?sid) (\<lambda>(conn, rv).
            if rv = Some NGTCP2_ERR_STREAM_IN_USE then done0 conn
            else c_assert (rv = None)
              (then_ok (conn_create_remote_stream conn ?sid) (\<lambda>conn. recv_stream_existing conn fr)))) ?P"
    if nl: "\<not> live conn ?sid" "\<not> conn_local_stream conn ?sid" "stream_id_check conn ?sid = None"
  proof -
    have zero: "?sid \<noteq> 0" using inv nl(1) by (auto simp: rx_inv_def)
    obtain c rv where c: "conn_idtr_open conn ?sid = Ok (c, rv)" "rx_inv K got S c" "live c = live conn"
      "rv = Some NGTCP2_ERR_STREAM_IN_USE \<or> rv = None \<and> may_create K got S c ?sid"
      using idtr_open_conn [OF inv nl(2,3,1)] by blast
    have "returns (then_ok (conn_create_remote_stream c ?sid) (\<lambda>conn. recv_stream_existing conn fr)) ?P" if "may_create K got S c ?sid"
    proof (rule returns_then [OF create_remote_stream_ok [OF that]], elim conjE)
      fix d assume d: "rx_inv K got S d" "live d ?sid"
        "sm_flags (cn_strm d ?sid) AND (NGTCP2_STRM_FLAG_STOP_SENDING OR NGTCP2_STRM_FLAG_SHUT_RD) = 0"
      show "returns (recv_stream_existing d fr) ?P"
        by (rule returns_weaken [OF recv_stream_existing_ok [OF d(1,2) _ seg]]) (use zero stop_shut [OF d(3)] in auto)
    qed
    then show ?thesis using c nl(1) by (auto simp: seen_def)
  qed
  show ?thesis
    unfolding conn_recv_stream_def Let_def find
    using old new inv by (auto simp: seen_def split: option.split)
qed

end
