(* ===== verification/Conn_Frames.thy ===== *)
theory Conn_Frames
  imports Conn_Invariant
begin

text \<open>
  The handlers of the frames, the operations of the application and the receipt of a packet keep the
  invariant of a connection, and do not fault; the states that a connection reaches.
\<close>

section \<open>The other frames\<close>

lemma ids_frame_other [simp]:
  "fresh (conn\<lparr>cn_acktr := acktr\<rparr>) t = fresh conn t" "ids_ok (conn\<lparr>cn_acktr := acktr\<rparr>) = ids_ok conn"
  "fresh (conn\<lparr>cn_rtb := rtb\<rparr>) t = fresh conn t" "ids_ok (conn\<lparr>cn_rtb := rtb\<rparr>) = ids_ok conn"
  "fresh (conn\<lparr>cn_max_local_stream_id_bidi := m\<rparr>) t = fresh conn t" "fresh (conn\<lparr>cn_max_local_stream_id_uni := m\<rparr>) t = fresh conn t"
  by (simp_all add: fresh_def ids_ok_def remote_idtr_def conn_local_stream_def)

lemma live_frame_other [simp]:
  "live (conn\<lparr>cn_rtb := rtb\<rparr>) t = live conn t" "data_counted got (conn\<lparr>cn_rtb := rtb\<rparr>) = data_counted got conn"
  "data_counted got (conn\<lparr>cn_max_local_stream_id_bidi := m\<rparr>) = data_counted got conn"
  "data_counted got (conn\<lparr>cn_max_local_stream_id_uni := m\<rparr>) = data_counted got conn"
  "live (conn\<lparr>cn_max_local_stream_id_bidi := m\<rparr>) t = live conn t" "live (conn\<lparr>cn_max_local_stream_id_uni := m\<rparr>) t = live conn t"
  by (simp_all add: live_def data_counted_def counted_def cong: if_cong)

lemma rx_inv_acktr: "rx_inv K got S conn \<Longrightarrow> acktr_wf acktr \<Longrightarrow> rx_inv K got S (conn\<lparr>cn_acktr := acktr\<rparr>)"
  by (simp add: rx_inv_def)

lemma rx_inv_rtb: "rx_inv K got S conn \<Longrightarrow> rtb_wf rtb \<Longrightarrow> rx_inv K got S (conn\<lparr>cn_rtb := rtb\<rparr>)"
  by (simp add: rx_inv_def)

lemma frq_push_ok:
  assumes "rx_inv K got S conn"
  shows "returns (Ok (frq_push conn fr)) (\<lambda>c. rx_inv K got S c \<and> live c = live conn \<and> cn_strm c = cn_strm conn)"
  using assms mem_empty [OF assms] by (auto simp: frq_push_def Let_def fun_eq_iff rx_inv_mem split: prod.splits)

lemma recv_rst_stream_ok:
  assumes inv: "rx_inv K got S conn"
  shows "returns (conn_recv_rst_stream conn fr) (rx_inv K got S)"
proof -
  let ?sid = "rst_stream_id fr"
  note find = find_stream [OF inv, of ?sid]
  have new: "returns (rbind (ngtcp2_idtr_is_open (remote_idtr conn ?sid) ?sid) (\<lambda>is_open.
              if is_open = None then
                if ucast (se_max_stream_data (cn_local_settings conn)) < rst_final_offset fr \<or> conn_max_data_violated conn (rst_final_offset fr)
                then fails conn NGTCP2_ERR_FLOW_CONTROL
                else rbind (conn_idtr_open conn ?sid) (\<lambda>(conn, rv).
                  done0 (conn\<lparr>cn_rx_offset := cn_rx_offset conn + rst_final_offset fr\<rparr>))
              else done0 conn)) (rx_inv K got S)"
    if nl: "\<not> live conn ?sid" "\<not> conn_local_stream conn ?sid" "stream_id_check conn ?sid = None"
  proof -
    from idtr_open_conn [OF inv nl(2,3,1)]
    obtain c rv where c: "conn_idtr_open conn ?sid = Ok (c, rv)" "rx_inv K got S c"
        "cn_rx_offset c = cn_rx_offset conn" "cn_max_rx_offset c = cn_max_rx_offset conn"
        "ngtcp2_idtr_is_open (remote_idtr conn ?sid) ?sid = Ok (if fresh conn ?sid then None else Some NGTCP2_ERR_STREAM_IN_USE)"
      by (elim exE conjE) (rule that)
    have "rx_inv K got S (c\<lparr>cn_rx_offset := cn_rx_offset c + rst_final_offset fr\<rparr>)"
      if "\<not> conn_max_data_violated conn (rst_final_offset fr)"
      using rx_consume(1) [OF c(2)] that c(3,4) by (simp add: conn_max_data_violated_def)
    then show ?thesis unfolding c(5) result_simps by (simp add: c(1) inv)
  qed
  have old: "returns (ngtcp2_conn_close_stream_if_shut_rdwr
      (upd_strm (conn\<lparr>cn_rx_offset := cn_rx_offset conn + (rst_final_offset fr - sm_last_rx_offset (cn_strm conn ?sid))\<rparr>) ?sid
        (\<lambda>strm. strm\<lparr>sm_flags := sm_flags strm OR (NGTCP2_STRM_FLAG_SHUT_RD OR NGTCP2_STRM_FLAG_RECV_RST)\<rparr>)) ?sid e) (rx_inv K got S)"
    if "\<not> conn_max_data_violated conn (rst_final_offset fr - sm_last_rx_offset (cn_strm conn ?sid))" "?sid \<noteq> 0" for e
    by (rule returns_weaken [OF close_if_shut_ok [OF rx_inv_upd [OF rx_consume(1) [OF inv that(1)]]]]) (simp_all add: that(2))
  show ?thesis
  proof (cases "stream_id_check conn ?sid")
    case None
    then show ?thesis
    proof (cases "live conn ?sid")
      case True
      then show ?thesis unfolding conn_recv_rst_stream_def Let_def find None using old by (simp add: inv)
    next
      case False
      then show ?thesis unfolding conn_recv_rst_stream_def Let_def find None
        using new [OF False _ None] by (simp add: inv del: returns_Ok) (simp add: inv)
    qed
  qed (simp add: conn_recv_rst_stream_def Let_def)
qed

lemma recv_stop_sending_ok:
  assumes inv: "rx_inv K got S conn"
  shows "returns (conn_recv_stop_sending conn fr) (rx_inv K got S)"
proof -
  let ?sid = "ss_stream_id fr"
  note find = find_stream [OF inv, of ?sid]
  have new: "returns (rbind (ngtcp2_idtr_is_open (remote_idtr conn ?sid) ?sid) (\<lambda>is_open.
            if is_open = None then rbind (conn_idtr_open conn ?sid) (\<lambda>(conn, rv). done0 conn) else done0 conn)) (rx_inv K got S)"
    if nl: "\<not> live conn ?sid" "\<not> conn_local_stream conn ?sid" "stream_id_check conn ?sid = None"
  proof -
    from idtr_open_conn [OF inv nl(2,3,1)]
    obtain c rv where "conn_idtr_open conn ?sid = Ok (c, rv)" "rx_inv K got S c"
        "ngtcp2_idtr_is_open (remote_idtr conn ?sid) ?sid = Ok (if fresh conn ?sid then None else Some NGTCP2_ERR_STREAM_IN_USE)"
      by (elim exE conjE) (rule that)
    then show ?thesis using inv by simp
  qed
  have old: "returns (then_ok (Ok (conn_rst_stream conn ?sid NGTCP2_STOPPING)) (\<lambda>conn.
          ngtcp2_conn_close_stream_if_shut_rdwr
            (upd_strm conn ?sid (\<lambda>strm. strm\<lparr>sm_flags := sm_flags strm OR (NGTCP2_STRM_FLAG_SHUT_WR OR NGTCP2_STRM_FLAG_SENT_RST)\<rparr>))
            ?sid (ss_app_error_code fr))) (rx_inv K got S)" if sid: "?sid \<noteq> 0"
    unfolding conn_rst_stream_def
  proof (rule returns_then [OF frq_push_ok [OF inv]])
    fix c assume "rx_inv K got S c \<and> live c = live conn \<and> cn_strm c = cn_strm conn"
    then have "rx_inv K got S (upd_strm c ?sid (\<lambda>strm. strm\<lparr>sm_flags := sm_flags strm OR (NGTCP2_STRM_FLAG_SHUT_WR OR NGTCP2_STRM_FLAG_SENT_RST)\<rparr>))"
      using sid by (intro rx_inv_upd) simp_all
    then show "returns (ngtcp2_conn_close_stream_if_shut_rdwr
        (upd_strm c ?sid (\<lambda>strm. strm\<lparr>sm_flags := sm_flags strm OR (NGTCP2_STRM_FLAG_SHUT_WR OR NGTCP2_STRM_FLAG_SENT_RST)\<rparr>))
        ?sid (ss_app_error_code fr)) (rx_inv K got S)"
      by (rule returns_weaken [OF close_if_shut_ok]) (erule conjunct1)
  qed
  show ?thesis
    unfolding conn_recv_stop_sending_def Let_def find
    using old new inv by (auto split: option.split)
qed

lemma recv_max_stream_data_ok:
  assumes inv: "rx_inv K got S conn"
  shows "returns (conn_recv_max_stream_data conn fr) (rx_inv K got S)"
proof -
  let ?sid = "msd_stream_id fr"
  let ?update = "\<lambda>conn. upd_strm conn ?sid (\<lambda>strm. strm\<lparr>sm_max_tx_offset := ngtcp2_max (sm_max_tx_offset strm) (msd_max_stream_data fr)\<rparr>)"
  note find = find_stream [OF inv, of ?sid]
  have upd: "rx_inv K got S (?update c)" if "rx_inv K got S c" for c by (rule rx_inv_upd [OF that]) simp
  have new: "returns (rbind (conn_idtr_open conn ?sid) (\<lambda>(conn, rv).
          if rv = Some NGTCP2_ERR_STREAM_IN_USE then done0 conn
          else then_ok (conn_create_remote_stream conn ?sid) (\<lambda>conn. done0 (?update conn)))) (rx_inv K got S)"
    if nl: "\<not> live conn ?sid" "\<not> conn_local_stream conn ?sid" "stream_id_check conn ?sid = None"
  proof -
    obtain c rv where c: "conn_idtr_open conn ?sid = Ok (c, rv)" "rx_inv K got S c"
        "rv = Some NGTCP2_ERR_STREAM_IN_USE \<or> rv = None \<and> may_create K got S c ?sid"
      using idtr_open_conn [OF inv nl(2,3,1)] by blast
    have "returns (then_ok (conn_create_remote_stream c ?sid) (\<lambda>conn. done0 (?update conn))) (rx_inv K got S)" if "may_create K got S c ?sid"
      by (rule returns_then [OF create_remote_stream_ok [OF that]]) (simp add: upd)
    then show ?thesis using c by auto
  qed
  show ?thesis
    unfolding conn_recv_max_stream_data_def Let_def find
    using new inv upd by (auto split: option.split)
qed

lemma recv_max_stream_id_ok:
  assumes inv: "rx_inv K got S conn" and m: "m \<le> NGTCP2_MAX_VARINT"
  shows "returns (Ok (conn_recv_max_stream_id conn m)) (rx_inv K got S)"
proof -
  have c: "rx_inv K got S (conn\<lparr>cn_max_local_stream_id_bidi := ngtcp2_max (cn_max_local_stream_id_bidi conn) m\<rparr>)"
    "rx_inv K got S (conn\<lparr>cn_max_local_stream_id_uni := ngtcp2_max (cn_max_local_stream_id_uni conn) m\<rparr>)"
    using inv m by (simp_all add: rx_inv_def) (simp_all add: ids_ok_def conn_local_stream_def ngtcp2_max_max)
  have "returns (Ok (conn_call_extend_max_stream_id c m)) (rx_inv K got S)" if "rx_inv K got S c" for c
    unfolding conn_call_extend_max_stream_id_def
    by (rule returns_weaken [OF returns_call_cb [OF that]]) (use that in \<open>auto simp: rx_inv_def delivers_def\<close>)
  then show ?thesis using c by (simp add: conn_recv_max_stream_id_def Let_def)
qed

lemma recv_ping_ok:
  assumes "rx_inv K got S conn"
  shows "returns (Ok (conn_recv_ping conn data)) (rx_inv K got S)"
  using returns_weaken [OF frq_push_ok [OF assms, of "FR_PONG data"], of "rx_inv K got S"] assms by (simp add: conn_recv_ping_def)

lemma sched_ack_ok:
  assumes inv: "rx_inv K got S conn"
  shows "returns (ngtcp2_conn_sched_ack conn n active ts u) (rx_inv K got S)"
proof -
  have ok: "acktr_wf (cn_acktr conn)" "acktr_list_ok (cn_acktr conn)" using inv by (simp_all add: rx_inv_def acktr_wf_def)
  obtain acktr rv where add: "ngtcp2_acktr_add (cn_acktr conn) \<lparr>ae_pkt_num = n, ae_tstamp = ts, ae_unprotected = u\<rparr> active = Ok (acktr, rv)"
      "acktr_wf acktr"
    using acktr_add_ok [OF ok(2), of "\<lparr>ae_pkt_num = n, ae_tstamp = ts, ae_unprotected = u\<rparr>" active] acktr_wf_cong [OF ok(1)] by auto
  obtain b mem where m: "ngtcp2_mem_malloc (cn_mem conn) = (b, mem)" by fastforce
  have "rx_inv K got S (conn\<lparr>cn_mem := mem, cn_acktr := acktr\<rparr>)" using rx_inv_acktr [OF rx_inv_mem [OF inv] add(2)] m by (auto simp: mem_empty [OF inv])
  then show ?thesis
    using add(1) m by (cases b) (auto simp: ngtcp2_conn_sched_ack_def ngtcp2_acktr_entry_new_def Let_def conn_set_next_ack_expiry_def
        split: option.split)
qed

text \<open>
  The acknowledgement of a packet is a call for each of its STREAM frames, which may close streams.
\<close>

lemma call_acked_ok:
  assumes "rx_inv K got S conn"
  shows "returns (call_acked_stream_offset frs conn) (rx_inv K got S)"
  using assms
proof (induction frs arbitrary: conn)
  case (Cons fr frs)
  note inv = Cons.prems
  show ?case
  proof (cases fr)
    case (FR_STREAM st)
    let ?sid = "st_stream_id st" and ?len = "of_nat (length (st_data st)) :: u64"
    show ?thesis
    proof (cases "live conn ?sid")
      case True
      obtain gaptr mem rv where push: "ngtcp2_gaptr_push (sm_acked_tx_offset (cn_strm conn ?sid)) (st_offset st) ?len (cn_mem conn) =
          (gaptr, mem, rv)" by (metis prod_cases3)
      let ?c = "(upd_strm conn ?sid (\<lambda>strm. strm\<lparr>sm_acked_tx_offset := gaptr\<rparr>))\<lparr>cn_mem := mem\<rparr>"
      have "mem = []" using push unfolding mem_empty [OF inv] by (rule gaptr_push_total)
      then have c: "rx_inv K got S ?c"
        using rx_inv_mem [OF rx_inv_upd [OF inv, of "\<lambda>strm. strm\<lparr>sm_acked_tx_offset := gaptr\<rparr>" ?sid]] by simp
      have cb: "returns (Ok (call_cb (map_option (\<lambda>f. f a b d e) (cb_acked_stream_data_offset (cn_callbacks ?c))) ?c)) (rx_inv K got S)" for a b d e
        by (rule returns_weaken [OF returns_call_cb [OF c]]) (use c in \<open>auto simp: rx_inv_def delivers_def\<close>)
      have rest: "returns (then_ok (ngtcp2_conn_close_stream_if_shut_rdwr c ?sid NGTCP2_NO_ERROR) (call_acked_stream_offset frs)) (rx_inv K got S)"
        if "rx_inv K got S c" for c
        by (rule returns_then [OF close_if_shut_ok [OF that]]) (simp add: Cons.IH)
      have all: "returns (then_ok (Ok (call_cb (map_option (\<lambda>f. f a b d e) (cb_acked_stream_data_offset (cn_callbacks ?c))) ?c))
          (\<lambda>c. then_ok (ngtcp2_conn_close_stream_if_shut_rdwr c ?sid NGTCP2_NO_ERROR) (call_acked_stream_offset frs))) (rx_inv K got S)" for a b d e
        by (rule returns_then [OF cb rest])
      show ?thesis
        unfolding FR_STREAM call_acked_stream_offset.simps Let_def find_stream [OF inv]
        using all Cons.IH [OF c] by (simp add: True push del: returns_Ok) auto
    next
      case False
      then show ?thesis by (simp add: FR_STREAM Let_def find_stream [OF inv] Cons.IH inv)
    qed
  qed (simp_all add: Cons.IH inv)
qed simp

lemma recv_ack_ok:
  assumes inv: "rx_inv K got S conn"
  shows "returns (conn_recv_ack conn fr u) (rx_inv K got S)"
proof (cases "ngtcp2_pkt_validate_ack fr")
  case None
  obtain acktr where acktr: "ngtcp2_acktr_recv_ack (cn_acktr conn) fr u = Ok acktr" "acktr_wf acktr"
    using acktr_recv_ack_wf [of "cn_acktr conn" fr u] inv by (auto simp: rx_inv_def)
  let ?c = "conn\<lparr>cn_acktr := acktr\<rparr>"
  let ?I = "\<lambda>oc. \<exists>c. oc = Some c \<and> rx_inv K got S c" and ?J = "\<lambda>oc :: 'a ngtcp2_conn option. oc \<noteq> None"
  have c: "rx_inv K got S ?c" by (rule rx_inv_acktr [OF inv acktr(2)])
  have "rtb_wf (cn_rtb conn)" using inv by (simp add: rx_inv_def)
  moreover have "?J oc' \<and> (rv = None \<longrightarrow> ?I oc')" if "?I oc" "rtb_on_acked ?c = Some call" "call e oc = (oc', rv)" for oc oc' rv e call
    using that call_acked_ok [of K got S "the oc" "re_frc e"] by (auto simp: rtb_on_acked_def returns_def split: if_splits)
  then have "keeps_cond ?I ?J (rtb_on_acked ?c)" unfolding keeps_cond_def by blast
  ultimately obtain rtb oc rv where "ngtcp2_rtb_recv_ack (rtb_on_acked ?c) (cn_rtb conn) fr u (Some ?c) = Ok (rtb, oc, rv)" "rtb_wf rtb"
      "?J oc" "rv = None \<longrightarrow> ?I oc"
    using rtb_recv_ack_wf [of ?I ?J "rtb_on_acked ?c" "cn_rtb conn" "Some ?c" fr u] c by blast
  then show ?thesis using None acktr(1) by (auto simp: conn_recv_ack_def Let_def rx_inv_rtb)
qed (simp add: conn_recv_ack_def)

end
