(* ===== verification/Conn_Packets.thy ===== *)
theory Conn_Packets
  imports Conn_Frames
begin

text \<open>
  The receipt of packets keeps the invariant of a connection, and does not fault: the loops over the
  frames, decryption, protected packets, handshake packets, and the entry point \<open>ngtcp2_conn_recv\<close>.
\<close>

section \<open>The frames of a payload\<close>

lemma frames_loop_ok:
  assumes handle: "\<And>fr s. I s \<Longrightarrow> frame_ok fr \<Longrightarrow> P fr \<Longrightarrow> \<exists>s' rv. handle fr s = Ok (s', rv) \<and> (rv = None \<longrightarrow> I s')"
  shows "length pt < 2 ^ 62 \<Longrightarrow> \<forall>fr \<in> set (payload_frames pt). P fr \<Longrightarrow> I s \<Longrightarrow>
    \<exists>s' rv. frames_loop handle pt s = Ok (s', rv) \<and> (rv = None \<longrightarrow> I s')"
proof (induction pt arbitrary: s rule: length_induct)
  case (1 pt)
  show ?case
  proof (cases "pt = []")
    case False
    from decode_frame_ok [OF False "1.prems"(1)] consider fr n where "ngtcp2_pkt_decode_frame pt = Ok (Some fr, n)" "frame_ok fr" "1 \<le> n"
      | "ngtcp2_pkt_decode_frame pt = Err NGTCP2_ERR_FRAME_FORMAT" by (auto simp: frame_dec_ok_def)
    then show ?thesis
    proof cases
      case (1 fr n)
      have frames: "payload_frames pt = fr # payload_frames (drop n pt)"
        using 1 False by (subst payload_frames.simps) simp
      then have fr: "P fr" "\<forall>fr \<in> set (payload_frames (drop n pt)). P fr" using "1.prems"(2) by simp_all
      obtain s' rv where run: "handle fr s = Ok (s', rv)" "rv = None \<longrightarrow> I s'"
        using handle [OF "1.prems"(3) 1(2) fr(1)] by blast
      have step: "frames_loop handle pt s = (case rv of Some e \<Rightarrow> Ok (s', Some e) | None \<Rightarrow> frames_loop handle (drop n pt) s')"
        using 1 False run(1) by (subst frames_loop.simps) simp
      have "length (drop n pt) < length pt" "length (drop n pt) < 2 ^ 62" using 1(3) False "1.prems"(1) by auto
      then show ?thesis using "1.IH" fr(2) run(2) unfolding step by (cases rv) auto
    next
      case 2
      then show ?thesis using False by (subst frames_loop.simps) simp
    qed
  qed (use "1.prems" in \<open>simp add: frames_loop.simps\<close>)
qed

lemma recv_frame_cb_ok:
  assumes "rx_inv K got S conn"
  shows "returns (Ok (conn_call_recv_frame conn hdr fr)) (rx_inv K got S)"
  unfolding conn_call_recv_frame_def
  by (rule returns_weaken [OF returns_call_cb [OF assms]]) (use assms in \<open>auto simp: rx_inv_def delivers_def\<close>)

lemma recv_pkt_cb_ok:
  assumes "rx_inv K got S conn"
  shows "returns (Ok (conn_call_recv_pkt conn hdr)) (rx_inv K got S)"
  unfolding conn_call_recv_pkt_def
  by (rule returns_weaken [OF returns_call_cb [OF assms]]) (use assms in \<open>auto simp: rx_inv_def delivers_def\<close>)

text \<open>Frames that the decoder returns need not end below \<open>2 ^ 62\<close>; \<open>conn_recv_stream\<close> rejects those that do not.\<close>

lemma recv_stream_frame_ok:
  assumes inv: "rx_inv K got S conn" and fr: "frame_ok (FR_STREAM st)" "of_stream S (FR_STREAM st)"
  shows "returns (conn_recv_stream conn st) (rx_inv K got S)"
proof -
  let ?len = "of_nat (length (st_data st)) :: u64"
  have len: "unat ?len = length (st_data st)" "unat ?len < 2 ^ 62" using fr(1) by (simp_all add: unat_of_nat_small)
  show ?thesis
  proof (cases "NGTCP2_MAX_VARINT - ?len < st_offset st")
    case True
    then show ?thesis by (auto simp: conn_recv_stream_def Let_def split: option.split)
  next
    case False
    have "?len \<le> NGTCP2_MAX_VARINT" using len(2) by (simp add: word_le_nat_alt)
    then have "unat (NGTCP2_MAX_VARINT - ?len) = unat NGTCP2_MAX_VARINT - length (st_data st)" using len(1) by (simp only: unat_sub)
    then have "unat (st_offset st) + length (st_data st) \<le> 2 ^ 62"
      using False len by (simp add: word_less_nat_alt)
    then have "segment (S (st_stream_id st)) (st_offset st) (st_data st)" using fr(2) by (simp add: segment_def of_stream_def)
    then show ?thesis by (intro returns_weaken [OF recv_stream_ok [OF inv]]) simp_all
  qed
qed

lemma recv_frame_ok:
  assumes inv: "rx_inv K got S conn" and fr: "frame_ok fr" "of_stream S fr"
  shows "returns (conn_recv_frame conn hdr fr) (rx_inv K got S)"
proof (cases fr)
  case (FR_ACK ack)
  then show ?thesis using recv_ack_ok [OF inv] fr(1) by (simp add: conn_recv_frame_def)
next
  case (FR_MAX_STREAM_ID m)
  then have "m \<le> NGTCP2_MAX_VARINT" using fr(1) by (simp add: word_le_nat_alt)
  then show ?thesis using recv_max_stream_id_ok [OF inv] FR_MAX_STREAM_ID by (simp add: conn_recv_frame_def)
qed (use fr inv recv_stream_frame_ok [OF inv] recv_rst_stream_ok [OF inv] recv_stop_sending_ok [OF inv] recv_max_stream_data_ok [OF inv]
    recv_ping_ok [OF inv] in \<open>auto simp: conn_recv_frame_def conn_recv_max_data_def conn_recv_pong_def conn_recv_connection_close_def\<close>)

lemma recv_pkt_frame_ok:
  assumes inv: "rx_inv K got S conn" and fr: "frame_ok fr" "of_stream S fr"
  shows "\<exists>s rv. recv_pkt_frame hdr fr (conn, b) = Ok (s, rv) \<and> (rv = None \<longrightarrow> rx_inv K got S (fst s))"
proof -
  have "returns (then_ok (Ok (conn_call_recv_frame conn hdr fr)) (\<lambda>conn. conn_recv_frame conn hdr fr)) (rx_inv K got S)"
    by (rule returns_then [OF recv_frame_cb_ok [OF inv] recv_frame_ok [OF _ fr]])
  then show ?thesis by (auto simp: recv_pkt_frame_def with_flag_def returns_def)
qed

lemma delayed_handshake_frame_ok:
  assumes inv: "rx_inv K got S conn" and fr: "frame_ok fr" "of_stream S fr" "fits_frame fr"
  shows "\<exists>s rv. delayed_handshake_frame hdr fr (conn, b) = Ok (s, rv) \<and> (rv = None \<longrightarrow> rx_inv K got S (fst s))"
proof -
  have handle: "returns (case fr of
      FR_ACK ack \<Rightarrow> if hd_type hdr = NGTCP2_PKT_INITIAL then fails c NGTCP2_ERR_PROTO else conn_recv_ack c ack 1
    | FR_PADDING _ \<Rightarrow> done0 c | FR_STREAM st \<Rightarrow> conn_recv_stream c st | _ \<Rightarrow> fails c NGTCP2_ERR_PROTO) (rx_inv K got S)"
    if "rx_inv K got S c" for c
    using that fr recv_stream_frame_ok [OF that] recv_ack_ok [OF that] by (cases fr) simp_all
  have "returns (then_ok (Ok (conn_call_recv_frame conn hdr fr)) (\<lambda>conn.
      case fr of FR_ACK ack \<Rightarrow> if hd_type hdr = NGTCP2_PKT_INITIAL then fails conn NGTCP2_ERR_PROTO else conn_recv_ack conn ack 1
    | FR_PADDING _ \<Rightarrow> done0 conn | FR_STREAM st \<Rightarrow> conn_recv_stream conn st | _ \<Rightarrow> fails conn NGTCP2_ERR_PROTO)) (rx_inv K got S)"
    by (rule returns_then [OF recv_frame_cb_ok [OF inv] handle])
  then show ?thesis using fr(3) by (auto simp: delayed_handshake_frame_def with_flag_def returns_def c_assert_def)
qed

section \<open>Decryption\<close>

text \<open>A key with an initialisation vector of 8 to 64 bytes, for which \<open>conn_decrypt_pkt\<close> has room.\<close>

definition key_ok :: "ngtcp2_crypto_km option \<Rightarrow> bool" where
  "key_ok ckm \<longleftrightarrow> (\<exists>km. ckm = Some km \<and> 8 \<le> length (km_iv km) \<and> length (km_iv km) \<le> 64)"

lemma grow_len_ge: "0 < len \<Longrightarrow> n \<le> grow_len len n"
proof (induction len n rule: grow_len.induct)
  case (1 len n)
  then show ?case by (subst grow_len.simps) auto
qed

lemma ensure_decrypt_buffer_ok:
  assumes inv: "rx_inv K got S conn"
  shows "returns (conn_ensure_decrypt_buffer conn n) (\<lambda>c. rx_inv K got S c \<and> n \<le> cn_decrypt_buf_len c)"
  using assms grow_len_ge [of "if cn_decrypt_buf_len conn = 0 then 2048 else cn_decrypt_buf_len conn * 2" n]
  by (auto simp: conn_ensure_decrypt_buffer_def Let_def mem_empty ngtcp2_mem_realloc_def rx_inv_mem)

lemma decrypt_payload_ok:
  assumes inv: "rx_inv K got S conn" and key: "key_ok ckm" and f: "decrypts P f" "\<And>destlen ct key nonce ad. quiet got (f destlen ct key nonce ad)"
    and len: "length payload < 2 ^ 62"
    and bad: "\<And>c e. rx_inv K got S c \<Longrightarrow> returns (bad c e) Q"
    and good: "\<And>c pt. rx_inv K got S c \<Longrightarrow> length pt < 2 ^ 62 \<Longrightarrow> \<forall>fr \<in> set (payload_frames pt). P fr \<Longrightarrow> returns (good c pt) Q"
  shows "returns (decrypt_payload conn payload ad n ckm f bad good) Q"
  unfolding decrypt_payload_def
proof (rule returns_then [OF ensure_decrypt_buffer_ok [OF inv]], elim conjE)
  fix c assume c: "rx_inv K got S c" "length payload \<le> cn_decrypt_buf_len c"
  obtain km where km: "ckm = Some km" "8 \<le> length (km_iv km)" "length (km_iv km) \<le> 64" using key by (auto simp: key_ok_def)
  obtain nonce where nonce: "ngtcp2_crypto_create_nonce (km_iv km) n = Ok nonce"
    using km(2) by (simp add: ngtcp2_crypto_create_nonce_def)
  obtain a r where run: "f (length payload) payload (km_key km) nonce ad (cn_app c) = (a, r)" by fastforce
  have "got a = got (cn_app c)" using f(2) run unfolding quiet_def by (metis fst_conv)
  then have ca: "rx_inv K got S (c\<lparr>cn_app := a\<rparr>)" by (rule rx_inv_app [OF c(1)])
  have pt: "length pt \<le> length payload" "\<forall>fr \<in> set (payload_frames pt). P fr" if "r = Inr pt" for pt
    using f(1) run that unfolding decrypts_def by (metis snd_conv)+
  show "returns (rbind (conn_decrypt_pkt c (length payload) payload ad n ckm f) (\<lambda>(conn, r).
      case r of Inl e \<Rightarrow> bad conn e | Inr pt \<Rightarrow> c_assert (length pt \<le> cn_decrypt_buf_len conn) (good conn pt))) Q"
    using km nonce run bad [OF ca] good [OF ca] pt c(2) len by (cases r) (auto simp: conn_decrypt_pkt_def c_assert_def Let_def)
qed

section \<open>Protected packets\<close>

lemma rx_inv_flags:
  assumes "rx_inv K got S conn" and "fl AND NGTCP2_CONN_FLAG_HANDSHAKE_COMPLETED = 0"
  shows "rx_inv K got S (conn\<lparr>cn_flags := cn_flags conn OR fl\<rparr>)"
proof -
  have "(cn_flags conn OR fl) AND NGTCP2_CONN_FLAG_HANDSHAKE_COMPLETED = cn_flags conn AND NGTCP2_CONN_FLAG_HANDSHAKE_COMPLETED"
    using assms(2) by (simp only: bit.conj_disj_distrib2) simp
  moreover have "data_counted got (conn\<lparr>cn_flags := fl'\<rparr>) = data_counted got conn" for fl'
    by (rule data_counted_same) (simp_all add: fun_eq_iff live_def)
  moreover have "live (conn\<lparr>cn_flags := fl'\<rparr>) = live conn" "fresh (conn\<lparr>cn_flags := fl'\<rparr>) = fresh conn" "ids_ok (conn\<lparr>cn_flags := fl'\<rparr>) = ids_ok conn" for fl'
    by (simp_all add: fun_eq_iff live_def fresh_def ids_ok_def remote_idtr_def conn_local_stream_def)
  ultimately show ?thesis using assms(1) by (simp add: rx_inv_def)
qed

lemma recv_pkt_done_ok:
  assumes "rv = None \<longrightarrow> rx_inv K got S (fst s)"
  shows "returns (recv_pkt_done hdr ts u (s, rv)) (rx_inv K got S)"
proof -
  obtain c b where s: "s = (c, b)" by fastforce
  show ?thesis
  proof (cases rv)
    case None
    then have "rx_inv K got S (c\<lparr>cn_max_rx_pkt_num := ngtcp2_max (cn_max_rx_pkt_num c) (hd_pkt_num hdr)\<rparr>)" using assms s by simp
    from sched_ack_ok [OF this, of "hd_pkt_num hdr" b ts u] show ?thesis by (simp add: s None recv_pkt_done_def)
  qed (simp add: s recv_pkt_done_def)
qed

lemma rbind_done_ok:
  assumes "\<exists>s rv. m = Ok (s, rv) \<and> (rv = None \<longrightarrow> rx_inv K got S (fst s))"
  shows "returns (rbind m (recv_pkt_done hdr ts u)) (rx_inv K got S)"
proof -
  obtain s rv where m: "m = Ok (s, rv)" and s: "rv = None \<longrightarrow> rx_inv K got S (fst s)" using assms by blast
  show ?thesis using recv_pkt_done_ok [OF s] by (simp add: m)
qed

lemma delayed_handshake_pkt_ok:
  assumes inv: "rx_inv K got S conn" and key: "key_ok (rk_hs K)" and one: "rk_one_block K" and len: "length payload < 2 ^ 62"
  shows "returns (conn_recv_delayed_handshake_pkt conn hdr payload ad ts) (rx_inv K got S)"
proof -
  have cbs: "decrypts (\<lambda>fr. of_stream S fr \<and> fits_frame fr) (cb_hs_decrypt (cn_callbacks conn))"
      "\<And>destlen ct key nonce ad. quiet got (cb_hs_decrypt (cn_callbacks conn) destlen ct key nonce ad)" and k: "key_ok (cn_hs_rx_ckm conn)"
    using inv key one by (simp_all add: rx_inv_def authentic_def one_ack_block_def delivers_def decrypts_conj)
  have "returns (decrypt_payload conn payload ad (hd_pkt_num hdr) (cn_hs_rx_ckm conn) (cb_hs_decrypt (cn_callbacks conn)) fails
      (\<lambda>conn payload. rbind (frames_loop (delayed_handshake_frame hdr) payload (conn, False)) (recv_pkt_done hdr ts 1))) (rx_inv K got S)"
  proof (rule decrypt_payload_ok [OF inv k cbs len])
    fix c pt assume c: "rx_inv K got S c" "length pt < 2 ^ 62" "\<forall>fr \<in> set (payload_frames pt). of_stream S fr \<and> fits_frame fr"
    show "returns (rbind (frames_loop (delayed_handshake_frame hdr) pt (c, False)) (recv_pkt_done hdr ts 1)) (rx_inv K got S)"
      by (rule rbind_done_ok, rule frames_loop_ok [OF _ c(2,3), where I = "\<lambda>s. rx_inv K got S (fst s)"])
        (use c(1) delayed_handshake_frame_ok in \<open>auto simp del: split_paired_Ex\<close>)
  qed simp
  then show ?thesis using inv by (simp add: conn_recv_delayed_handshake_pkt_def)
qed

lemma stateless_reset_ok:
  assumes inv: "rx_inv K got S conn"
  shows "returns (conn_on_stateless_reset conn hdr payload) (rx_inv K got S)"
proof -
  have dec: "ngtcp2_pkt_decode_stateless_reset payload \<noteq> Fault"
    by (auto simp: ngtcp2_pkt_decode_stateless_reset_def rd_block_def ret_if_def c_assert_def Let_def)
  have "rx_inv K got S (conn\<lparr>cn_state := NGTCP2_CS_DRAINING\<rparr>)" using inv by simp
  then have "returns (Ok (call_cb (map_option (\<lambda>f. f hdr sr) (cb_recv_stateless_reset (cn_callbacks conn))) (conn\<lparr>cn_state := NGTCP2_CS_DRAINING\<rparr>)))
      (rx_inv K got S)" for sr
    by (rule returns_weaken [OF returns_call_cb]) (use inv in \<open>auto simp: rx_inv_def delivers_def\<close>)
  then show ?thesis using dec by (cases "ngtcp2_pkt_decode_stateless_reset payload") (auto simp: conn_on_stateless_reset_def Let_def simp del: returns_Ok, simp_all)
qed

lemma protected_payload_ok:
  assumes inv: "rx_inv K got S conn" and key: "key_ok ckm" and len: "length payload < 2 ^ 62"
  shows "returns (protected_payload conn hdr payload ad ckm ts) (rx_inv K got S)"
proof -
  have cbs: "decrypts (of_stream S) (cb_decrypt (cn_callbacks conn))"
      "\<And>destlen ct key nonce ad. quiet got (cb_decrypt (cn_callbacks conn) destlen ct key nonce ad)"
    using inv by (simp_all add: rx_inv_def authentic_def delivers_def)
  show ?thesis
    unfolding protected_payload_def Let_def
  proof (rule decrypt_payload_ok [OF inv key cbs len], goal_cases bad good)
    case (bad c e)
    obtain c' rv where "conn_on_stateless_reset c hdr payload = Ok (c', rv)" "rv = None \<longrightarrow> rx_inv K got S c'"
      using stateless_reset_ok [OF bad, of hdr payload] unfolding returns_def by blast
    then show ?case by simp
  next
    case (good c pt)
    have loop: "returns (rbind (frames_loop (recv_pkt_frame hdr) pt (c', False)) (recv_pkt_done hdr ts 0)) (rx_inv K got S)" if "rx_inv K got S c'" for c'
      by (rule rbind_done_ok, rule frames_loop_ok [OF _ good(2,3), where I = "\<lambda>s. rx_inv K got S (fst s)"])
        (use that recv_pkt_frame_ok in \<open>auto simp del: split_paired_Ex\<close>)
    have fl: "rx_inv K got S (c\<lparr>cn_flags := cn_flags c OR NGTCP2_CONN_FLAG_RECV_PROTECTED_PKT\<rparr>)" by (rule rx_inv_flags [OF good(1)]) simp
    show ?case using loop [OF good(1)] loop [OF fl] fl by simp
  qed
qed

section \<open>Packets after the handshake\<close>

lemma hd_long_ok:
  "ngtcp2_pkt_decode_hd_long pkt \<noteq> Fault"
  "ngtcp2_pkt_decode_hd_long pkt = Ok (hdr, n) \<Longrightarrow> hd_flags hdr = NGTCP2_PKT_FLAG_LONG_FORM \<and> n = 17 \<and>
    (hd_version hdr \<noteq> 0 \<longrightarrow> hd_type hdr \<noteq> NGTCP2_PKT_VERSION_NEGOTIATION)"
  by (auto simp: ngtcp2_pkt_decode_hd_long_def rd_defs ret_if_def c_assert_def Let_def split: if_splits)

lemma hd_short_ok:
  "pkt \<noteq> [] \<Longrightarrow> ngtcp2_pkt_decode_hd_short pkt \<noteq> Fault"
  "ngtcp2_pkt_decode_hd_short pkt = Ok (hdr, n) \<Longrightarrow>
    hd_flags hdr AND NGTCP2_PKT_FLAG_LONG_FORM = 0 \<and> hd_type hdr \<in> {NGTCP2_PKT_01, NGTCP2_PKT_02, NGTCP2_PKT_03}"
  by (auto simp: ngtcp2_pkt_decode_hd_short_def rd_defs ret_if_def c_assert_def Let_def bit.conj_disj_distrib2 split: if_splits)

lemma recv_pkt_body_ok:
  assumes inv: "rx_inv K got S conn" and len: "length pkt < 2 ^ 62"
    and type: "hd_flags hdr AND NGTCP2_PKT_FLAG_LONG_FORM = 0 \<Longrightarrow> hd_type hdr \<in> {NGTCP2_PKT_01, NGTCP2_PKT_02, NGTCP2_PKT_03} \<and> key_ok (rk_rx K)"
    and keys: "key_ok (rk_hs K)" "rk_early K = None \<or> key_ok (rk_early K)" "rk_one_block K"
  shows "returns (conn_recv_pkt_body conn pkt ts hdr n) (rx_inv K got S)"
proof -
  let ?long = "hd_flags hdr AND NGTCP2_PKT_FLAG_LONG_FORM \<noteq> 0"
  let ?h = "hdr\<lparr>hd_pkt_num := ngtcp2_pkt_adjust_pkt_num (cn_max_rx_pkt_num conn) (hd_pkt_num hdr) (if ?long then 32 else hd_num_bits (hd_type hdr))\<rparr>"
  have l: "length (drop n pkt) < 2 ^ 62" using len by simp
  have rest: "returns (if \<not> ?long then protected_payload c h (drop n pkt) (take n pkt) (cn_rx_ckm c) ts
         else if hd_type h = NGTCP2_PKT_INITIAL \<or> hd_type h = NGTCP2_PKT_HANDSHAKE
         then conn_recv_delayed_handshake_pkt c h (drop n pkt) (take n pkt) ts
         else if hd_type h = NGTCP2_PKT_0RTT_PROTECTED then
           if \<not> cn_server c \<or> cn_client_conn_id c \<noteq> hd_conn_id h \<or> cn_version c \<noteq> hd_version h \<or> cn_early_ckm c = None
           then done0 c
           else protected_payload c h (drop n pkt) (take n pkt) (cn_early_ckm c) ts
         else done0 c) (rx_inv K got S)" if c: "rx_inv K got S c" for c h
  proof -
    have k: "cn_rx_ckm c = rk_rx K" "cn_early_ckm c = rk_early K" using c by (simp_all add: rx_inv_def)
    note payload = protected_payload_ok [OF c _ l, of _ h "take n pkt" ts]
    have "rk_early K \<noteq> None \<Longrightarrow> returns (protected_payload c h (drop n pkt) (take n pkt) (rk_early K) ts) (rx_inv K got S)"
      using keys(2) by (intro payload) auto
    moreover have "\<not> ?long \<Longrightarrow> returns (protected_payload c h (drop n pkt) (take n pkt) (rk_rx K) ts) (rx_inv K got S)"
      using type by (intro payload) simp
    moreover note delayed_handshake_pkt_ok [OF c keys(1,3) l, of h "take n pkt" ts]
    ultimately show ?thesis using c by (simp add: k)
  qed
  have ok: "?long \<or> hd_type hdr \<in> {NGTCP2_PKT_01, NGTCP2_PKT_02, NGTCP2_PKT_03}" using type by blast
  show ?thesis
    unfolding conn_recv_pkt_body_def Let_def c_assert_def if_P [OF ok] by (rule returns_then [OF recv_pkt_cb_ok [OF inv] rest])
qed

text \<open>The keys that a packet needs: that of handshake packets, and that of its own protection.\<close>

lemma conn_recv_pkt_ok:
  assumes inv: "rx_inv K got S conn" and pkt: "pkt \<noteq> []" "length pkt < 2 ^ 62"
    and keys: "key_ok (rk_hs K)" "rk_early K = None \<or> key_ok (rk_early K)" "rk_one_block K"
    and short: "hd pkt AND NGTCP2_HEADER_FORM_BIT = 0 \<Longrightarrow> key_ok (rk_rx K)"
  shows "returns (conn_recv_pkt conn pkt ts) (rx_inv K got S)"
proof (cases "hd pkt AND NGTCP2_HEADER_FORM_BIT = 0")
  case True
  have "returns (case ngtcp2_pkt_decode_hd_short pkt of Fault \<Rightarrow> Fault | Err e \<Rightarrow> fails conn e
        | Ok (hdr, nread) \<Rightarrow>
            if se_omit_connection_id (cn_local_settings conn) = 0 \<and> hd_flags hdr AND NGTCP2_PKT_FLAG_OMIT_CONN_ID \<noteq> 0
            then fails conn NGTCP2_ERR_PROTO
            else conn_recv_pkt_body conn pkt ts hdr nread) (rx_inv K got S)"
  proof (cases "ngtcp2_pkt_decode_hd_short pkt")
    case (Ok x)
    obtain hdr n where x: "x = (hdr, n)" by fastforce
    from recv_pkt_body_ok [OF inv pkt(2) _ keys, of hdr ts n] hd_short_ok(2) [OF Ok [unfolded x]] short [OF True] show ?thesis
      by (simp add: Ok x)
  qed (use hd_short_ok(1) [OF pkt(1)] in simp_all)
  then show ?thesis using True pkt(1) by (simp add: conn_recv_pkt_def rd_u8_def hd_conv_nth)
next
  case False
  have "returns (case ngtcp2_pkt_decode_hd_long pkt of Fault \<Rightarrow> Fault | Err e \<Rightarrow> fails conn e
        | Ok (hdr, nread) \<Rightarrow>
            if hd_version hdr = 0 then
              if cn_server conn \<or> cn_client_conn_id conn \<noteq> hd_conn_id hdr then done0 conn
              else Ok (conn_call_recv_pkt conn (hdr\<lparr>hd_type := NGTCP2_PKT_VERSION_NEGOTIATION, hd_pkt_num := 0\<rparr>))
            else if cn_version conn \<noteq> hd_version hdr then done0 conn
            else conn_recv_pkt_body conn pkt ts hdr nread) (rx_inv K got S)"
  proof (cases "ngtcp2_pkt_decode_hd_long pkt")
    case (Ok x)
    obtain hdr n where x: "x = (hdr, n)" by fastforce
    from recv_pkt_body_ok [OF inv pkt(2) _ keys, of hdr ts n] hd_long_ok(2) [OF Ok [unfolded x]] inv
      recv_pkt_cb_ok [OF inv, of "hdr\<lparr>hd_type := NGTCP2_PKT_VERSION_NEGOTIATION, hd_pkt_num := 0\<rparr>"] show ?thesis
      by (simp add: Ok x)
  qed (use hd_long_ok(1) [of pkt] in simp_all)
  then show ?thesis using False pkt(1) by (simp add: conn_recv_pkt_def rd_u8_def hd_conv_nth)
qed

section \<open>Handshake packets\<close>

lemma handshake_data_ok:
  assumes inv: "rx_inv K got S conn" and st: "st_stream_id st = 0" and seg: "segment (S 0) (st_offset st) (st_data st)"
    and rx: "rx = ngtcp2_strm_rx_offset (cn_strm conn 0)" and past: "rx < fr_end st" and le: "st_offset st \<le> rx"
    and e: "fr_end st \<le> sm_last_rx_offset (cn_strm conn 0)"
  defines "c1 \<equiv> upd_strm conn 0 (\<lambda>strm. strm\<lparr>sm_rob := ngtcp2_rob_remove_prefix (sm_rob strm) (fr_end st)\<rparr>)"
  shows "\<exists>c2 rv. conn_call_recv_stream0_data c1 (drop (unat (rx - st_offset st)) (st_data st)) = (c2, rv) \<and> rv \<noteq> Some NGTCP2_ERR_TLS_HANDSHAKE \<and>
    returns (conn_emit_pending_stream0_data (upd_strm c2 0 (\<lambda>strm. strm\<lparr>sm_unsent_max_rx_offset := sm_unsent_max_rx_offset strm + n\<rparr>)) (fr_end st))
      (rx_inv K got S)"
proof -
  have live: "live conn 0" and cbs: "delivers got (cn_callbacks conn)" using inv by (simp_all add: rx_inv_def)
  note ok = rx_offset_ok(1,2) [OF inv live, folded rx] and id = rx_inv_live(1) [OF inv live]
  have past': "unat rx < unat (st_offset st) + length (st_data st)" using past by (simp add: word_less_nat_alt fr_end_nat [OF seg])
  obtain a rv where a: "conn_call_recv_stream0_data c1 (drop (unat (rx - st_offset st)) (st_data st)) = (c1\<lparr>cn_app := a\<rparr>, rv)"
      "emits 0 conn (c1\<lparr>cn_app := a\<rparr>)" "rob_inv (S 0) (fr_end st) (sm_rob (cn_strm c1 0))"
      "rob_missing (sm_rob (cn_strm c1 0)) = rob_missing (sm_rob (cn_strm conn 0)) - {x. st_offset st \<le> x \<and> x < fr_end st}"
      "got a = (got (cn_app conn))(0 := stream_prefix (S 0) (unat (fr_end st)))"
    using in_order_call [of got conn st, unfolded st, OF delivers_step_stream0 [OF cbs] id ok(1) rx ok(2) seg past' le] unfolding c1_def by blast
  let ?c3 = "upd_strm (c1\<lparr>cn_app := a\<rparr>) 0 (\<lambda>strm. strm\<lparr>sm_unsent_max_rx_offset := sm_unsent_max_rx_offset strm + n\<rparr>)"
  have em: "emits 0 conn ?c3" by (rule emits_trans [OF a(2) emits_unsent])
  have c3: "sm_rob (cn_strm ?c3 0) = sm_rob (cn_strm c1 0)" "cn_app ?c3 = a" by (simp_all add: upd_strm_def)
  have "\<exists>c' rv. (if st_stream_id st = 0 then conn_emit_pending_stream0_data ?c3 (fr_end st) else conn_emit_pending_stream_data ?c3 (st_stream_id st) (fr_end st)) = Ok (c', rv) \<and>
    (rv = None \<longrightarrow> received got (S 0) st conn c')"
    by (rule received_after) (simp_all add: st em cbs id c3 a(3-5))
  then have "returns (conn_emit_pending_stream0_data ?c3 (fr_end st)) (received got (S 0) st conn)" by (simp add: st returns_def)
  then have "returns (conn_emit_pending_stream0_data ?c3 (fr_end st)) (rx_inv K got S)"
    by (rule returns_weaken) (rule rx_inv_received(1) [OF inv live st [symmetric] _ e])
  moreover have "rv \<noteq> Some NGTCP2_ERR_TLS_HANDSHAKE"
  proof -
    have "snd (cb_recv_stream0_data (cn_callbacks c1) (drop (unat (rx - st_offset st)) (st_data st)) (cn_app c1)) \<noteq> Some NGTCP2_ERR_TLS_HANDSHAKE"
      using cbs by (simp add: c1_def upd_strm_def delivers_def)
    then show ?thesis using a(1) by (auto simp: conn_call_recv_stream0_data_def split: prod.splits if_splits)
  qed
  ultimately show ?thesis using a(1) by blast
qed

lemma handshake_reorder_ok:
  assumes inv: "rx_inv K got S conn" and st: "st_stream_id st = 0" and seg: "segment (S 0) (st_offset st) (st_data st)"
    and gap: "\<not> st_offset st \<le> ngtcp2_strm_rx_offset (cn_strm conn 0)" and e: "fr_end st \<le> sm_last_rx_offset (cn_strm conn 0)"
  shows "returns (rbind (ngtcp2_strm_recv_reordering (cn_strm conn 0) st (cn_mem conn)) (\<lambda>(strm, mem, rv).
    Ok ((upd_strm conn 0 (\<lambda>_. strm))\<lparr>cn_mem := mem\<rparr>, rv))) (rx_inv K got S)"
proof -
  have live: "live conn 0" using inv by (simp add: rx_inv_def)
  note ok = rx_offset_ok(1,2) [OF inv live]
  have "\<exists>c' rv. recv_stream_data conn st (ngtcp2_strm_rx_offset (cn_strm conn 0)) = Ok (c', rv) \<and> (rv = None \<longrightarrow> received got (S 0) st conn c')"
    by (rule recv_stream_reordered) (simp_all add: st ok seg mem_empty [OF inv] gap)
  then have "returns (recv_stream_data conn st (ngtcp2_strm_rx_offset (cn_strm conn 0))) (received got (S 0) st conn)" by (simp add: returns_def)
  then have "returns (recv_stream_data conn st (ngtcp2_strm_rx_offset (cn_strm conn 0))) (rx_inv K got S)"
    by (rule returns_weaken) (rule rx_inv_received(1) [OF inv live st [symmetric] _ e])
  then show ?thesis using gap by (simp add: recv_stream_data_def st Let_def)
qed

lemma handshake_stream_ok:
  assumes inv: "rx_inv K got S conn" and fr: "frame_ok (FR_STREAM st)" "of_stream S (FR_STREAM st)"
  shows "\<exists>c rv. handshake_stream hdr st conn False = Ok ((c, False), rv) \<and> (rv = None \<longrightarrow> rx_inv K got S c)"
proof -
  let ?last = "ngtcp2_max (sm_last_rx_offset (cn_strm conn 0)) (fr_end st)"
  let ?rx = "ngtcp2_strm_rx_offset (cn_strm conn 0)"
  let ?c = "upd_strm conn 0 (\<lambda>strm. strm\<lparr>sm_last_rx_offset := ngtcp2_max (sm_last_rx_offset strm) (fr_end st)\<rparr>)"
  have live: "live conn 0" using inv by (simp add: rx_inv_def)
  have main: "\<exists>c rv. (if st_offset st \<le> ?rx then
            let ncut = ?rx - st_offset st; data = drop (unat ncut) (st_data st); datalen = of_nat (length (st_data st)) - ncut;
                rx_offset = ?rx + datalen;
                conn = upd_strm ?c 0 (\<lambda>strm. strm\<lparr>sm_rob := ngtcp2_rob_remove_prefix (sm_rob strm) rx_offset\<rparr>);
                (conn, rv) = conn_call_recv_stream0_data conn data
            in if rv \<notin> {None, Some NGTCP2_ERR_TLS_HANDSHAKE} then Ok ((conn, False), rv)
            else
              let failed = (False \<or> rv \<noteq> None);
                  conn = upd_strm conn 0 (\<lambda>strm. strm\<lparr>sm_unsent_max_rx_offset := sm_unsent_max_rx_offset strm + datalen\<rparr>)
              in if failed then Ok ((conn, failed), None) else with_flag failed (conn_emit_pending_stream0_data conn rx_offset)
          else rbind (ngtcp2_strm_recv_reordering (cn_strm ?c 0) st (cn_mem ?c)) (\<lambda>(strm, mem, rv).
              Ok (((upd_strm ?c 0 (\<lambda>_. strm))\<lparr>cn_mem := mem\<rparr>, False), rv)))
      = Ok ((c, False), rv) \<and> (rv = None \<longrightarrow> rx_inv K got S c)"
    if st: "st_stream_id st = 0" and past: "?rx < fr_end st" and max: "fr_end st \<le> sm_max_rx_offset (cn_strm conn 0)"
  proof -
    have "unat (st_offset st) + length (st_data st) < 2 ^ 64" "unat (of_nat (length (st_data st)) :: u64) = length (st_data st)"
      using fr(1) by (simp_all add: unat_of_nat_small word_less_nat_alt)
    then have "unat (fr_end st) = unat (st_offset st) + length (st_data st)" by (simp add: unat_add_small)
    moreover have "fr_end st \<le> NGTCP2_MAX_VARINT" using max rx_inv_live(2) [OF inv live] unfolding strm_rx_ok_def by (meson order_trans)
    ultimately have seg: "segment (S 0) (st_offset st) (st_data st)" using fr(2) by (simp add: segment_def of_stream_def st word_le_nat_alt)
    have "?c = upd_strm conn 0 (\<lambda>strm. strm\<lparr>sm_last_rx_offset := ?last\<rparr>)" by (simp add: upd_strm_def)
    moreover have "rx_inv K got S (upd_strm conn 0 (\<lambda>strm. strm\<lparr>sm_last_rx_offset := ?last\<rparr>))"
      using rx_offset_ok(4) [OF inv live] max by (intro rx_inv_last inv) (simp_all add: ngtcp2_max_max)
    ultimately have c: "rx_inv K got S ?c" by simp
    have rx: "?rx = ngtcp2_strm_rx_offset (cn_strm ?c 0)" and e: "fr_end st \<le> sm_last_rx_offset (cn_strm ?c 0)"
      by (simp_all add: upd_strm_def ngtcp2_max_max ngtcp2_strm_rx_offset_def)
    have cut: "?rx + (of_nat (length (st_data st)) - (?rx - st_offset st)) = fr_end st" by simp
    show ?thesis
    proof (cases "st_offset st \<le> ?rx")
      case True
      obtain c2 rv where c2: "conn_call_recv_stream0_data (upd_strm ?c 0 (\<lambda>strm. strm\<lparr>sm_rob := ngtcp2_rob_remove_prefix (sm_rob strm) (fr_end st)\<rparr>))
            (drop (unat (?rx - st_offset st)) (st_data st)) = (c2, rv)" "rv \<noteq> Some NGTCP2_ERR_TLS_HANDSHAKE"
          "returns (conn_emit_pending_stream0_data (upd_strm c2 0 (\<lambda>strm. strm\<lparr>sm_unsent_max_rx_offset := sm_unsent_max_rx_offset strm +
              (of_nat (length (st_data st)) - (?rx - st_offset st))\<rparr>)) (fr_end st)) (rx_inv K got S)"
        using handshake_data_ok [OF c st seg rx past True e] by blast
      then show ?thesis unfolding if_P [OF True] Let_def cut c2(1) using c2(2,3) by (auto simp: with_flag_def returns_def)
    next
      case False
      have "\<not> st_offset st \<le> ngtcp2_strm_rx_offset (cn_strm ?c 0)" using False rx by simp
      note handshake_reorder_ok [OF c st seg this e]
      then show ?thesis unfolding if_not_P [OF False] returns_def by (cases "ngtcp2_strm_recv_reordering (cn_strm ?c 0) st (cn_mem ?c)") auto
    qed
  qed
  have max: "sm_max_rx_offset (cn_strm ?c 0) = sm_max_rx_offset (cn_strm conn 0)" by (simp add: upd_strm_def)
  let ?out = "st_stream_id st \<noteq> 0 \<or> st_data st = [] \<or> (hd_type hdr = NGTCP2_PKT_INITIAL \<and> st_offset st \<noteq> 0 \<or> st_fin st) \<or>
    fr_end st \<le> ?rx \<or> sm_max_rx_offset (cn_strm conn 0) < fr_end st"
  show ?thesis
  proof (cases ?out)
    case True
    then show ?thesis using inv unfolding handshake_stream_def Let_def max by auto
  next
    case False
    then have n: "\<not> st_stream_id st \<noteq> 0" "st_data st \<noteq> []" "\<not> (hd_type hdr = NGTCP2_PKT_INITIAL \<and> st_offset st \<noteq> 0 \<or> st_fin st)"
      "\<not> fr_end st \<le> ?rx" "\<not> sm_max_rx_offset (cn_strm conn 0) < fr_end st" by auto
    then have "st_stream_id st = 0" "?rx < fr_end st" "fr_end st \<le> sm_max_rx_offset (cn_strm conn 0)" by auto
    from main [OF this] show ?thesis
      unfolding handshake_stream_def Let_def max if_not_P [OF n(1)] if_not_P [OF n(2)] if_not_P [OF n(3)] if_not_P [OF n(4)] if_not_P [OF n(5)]
        not_False_eq_True if_True .
  qed
qed

lemma handshake_frame_ok:
  assumes inv: "rx_inv K got S conn" and fr: "frame_ok fr" "of_stream S fr"
  shows "\<exists>c a rv. handshake_frame hdr fr (conn, b, False) = Ok ((c, a, False), rv) \<and> (rv = None \<longrightarrow> rx_inv K got S c)"
proof -
  obtain c rv where cb: "conn_call_recv_frame conn hdr fr = (c, rv)" "rv = None \<longrightarrow> rx_inv K got S c"
    using recv_frame_cb_ok [OF inv, of hdr fr] by (auto simp: returns_def)
  show ?thesis
  proof (cases rv)
    case None
    then have c: "rx_inv K got S c" using cb(2) by simp
    show ?thesis
    proof (cases fr)
      case (FR_ACK ack)
      then have "returns (conn_recv_ack c ack 1) (rx_inv K got S)" by (intro recv_ack_ok c)
      then show ?thesis using cb None FR_ACK by (auto simp: handshake_frame_def with_flag_def returns_def)
    next
      case (FR_STREAM st)
      then show ?thesis using handshake_stream_ok [OF c, of st hdr] fr cb None by (auto simp: handshake_frame_def)
    qed (use c cb None in \<open>auto simp: handshake_frame_def conn_recv_connection_close_def\<close>)
  qed (simp add: handshake_frame_def cb(1))
qed

lemma handshake_done_ok:
  assumes "rv = None \<longrightarrow> rx_inv K got S c \<and> \<not> failed" and "hd_type hdr \<noteq> NGTCP2_PKT_RETRY"
  shows "returns (handshake_done index hdr ts ((c, b, failed), rv)) (rx_inv K got S)"
proof (cases rv)
  case None
  then have f: "failed = False" and "rx_inv K got S (c\<lparr>cn_max_rx_pkt_num := ngtcp2_max (cn_max_rx_pkt_num c) (hd_pkt_num hdr)\<rparr>)"
    using assms by simp_all
  then have "returns (then_ok (ngtcp2_conn_sched_ack (c\<lparr>cn_max_rx_pkt_num := ngtcp2_max (cn_max_rx_pkt_num c) (hd_pkt_num hdr)\<rparr>)
      (hd_pkt_num hdr) b ts 1) (\<lambda>conn. Ok (conn, if failed then Some NGTCP2_ERR_TLS_HANDSHAKE else None))) (rx_inv K got S)"
    by (intro returns_then [OF sched_ack_ok]) (simp_all add: f)
  then show ?thesis using assms None by (simp add: handshake_done_def Let_def)
qed (simp add: handshake_done_def)

lemma rx_inv_ids [simp]:
  "rx_inv K got S (conn\<lparr>cn_client_conn_id := cid\<rparr>) = rx_inv K got S conn"
  "rx_inv K got S (conn\<lparr>cn_conn_id := cid\<rparr>) = rx_inv K got S conn"
  by (simp_all add: rx_inv_defs cong: if_cong)

lemma client_initial_ok:
  assumes inv: "rx_inv K got S conn" and server: "cn_server conn"
  shows "returns (conn_call_recv_client_initial conn) (rx_inv K got S)"
proof -
  have "returns (Ok (call_cb (map_option (\<lambda>f. f (cn_client_conn_id conn)) (cb_recv_client_initial (cn_callbacks conn))) conn)) (rx_inv K got S)"
    by (rule returns_weaken [OF returns_call_cb [OF inv]]) (use inv in \<open>auto simp: rx_inv_def delivers_def\<close>)
  moreover have "cb_recv_client_initial (cn_callbacks conn) \<noteq> None" using inv server by (simp add: rx_inv_def)
  ultimately show ?thesis by (simp add: conn_call_recv_client_initial_def c_assert_def)
qed

lemma rx_inv_buffered:
  assumes inv: "rx_inv K got S conn" and ps: "\<forall>(pkt, ts) \<in> set ps. datagram_ok pkt"
  shows "rx_inv K got S (conn\<lparr>cn_buffed_rx_ppkts := ps\<rparr>)"
proof -
  have "live (conn\<lparr>cn_buffed_rx_ppkts := ps\<rparr>) = live conn" "fresh (conn\<lparr>cn_buffed_rx_ppkts := ps\<rparr>) = fresh conn"
    "ids_ok (conn\<lparr>cn_buffed_rx_ppkts := ps\<rparr>) = ids_ok conn"
    by (simp_all add: fun_eq_iff live_def fresh_def ids_ok_def remote_idtr_def conn_local_stream_def)
  moreover from this have "data_counted got (conn\<lparr>cn_buffed_rx_ppkts := ps\<rparr>) = data_counted got conn" by (intro data_counted_same) simp_all
  ultimately show ?thesis using assms by (simp add: rx_inv_def)
qed

lemma buffer_pkt_ok:
  assumes inv: "rx_inv K got S conn" and pkt: "datagram_ok pkt"
  shows "returns (Ok (conn_buffer_protected_pkt conn pkt ts)) (rx_inv K got S)"
proof -
  have "\<forall>(pkt, ts) \<in> set (cn_buffed_rx_ppkts conn @ [(pkt, ts)]). datagram_ok pkt" using inv pkt by (simp add: rx_inv_def)
  from rx_inv_buffered [OF rx_inv_mem [OF inv] this] show ?thesis
    using inv mem_empty [OF inv] by (simp add: conn_buffer_protected_pkt_def Let_def)
qed

lemma versions_loop_ok: "length payload mod 4 = 0 \<Longrightarrow> \<exists>vs. version_loop payload = Ok vs"
proof (induction payload rule: version_loop.induct)
  case (2 b bs)
  then have "length bs mod 4 = 3" by (simp add: mod_Suc split: if_splits)
  then have "(length bs - 3) mod 4 = 0" "3 \<le> length bs" by presburger+
  then show ?case using 2 by (auto simp: rd_u32_def result_simps)
qed simp

text \<open>Version Negotiation always ends in an error.\<close>

lemma version_negotiation_ok:
  assumes inv: "rx_inv K got S conn" and len: "length payload \<le> 64"
  shows "returns (then_ok (conn_on_version_negotiation conn hdr payload) (\<lambda>conn. fails conn NGTCP2_ERR_VERSION_NEGOTIATION)) P"
proof (rule returns_then [where Q = "\<lambda>_. True"])
  show "returns (conn_on_version_negotiation conn hdr payload) (\<lambda>_. True)"
  proof (cases "length payload mod 4 = 0")
    case True
    obtain vs where vs: "version_loop payload = Ok vs" using versions_loop_ok [OF True] by blast
    have "length payload div 4 \<le> 16" using len by simp
    then show ?thesis using True len vs
      by (auto simp: conn_on_version_negotiation_def ngtcp2_pkt_decode_version_negotiation_def c_assert_def Let_def returns_def split: option.split)
  qed (simp add: conn_on_version_negotiation_def)
qed simp

lemma handshake_type_ok:
  assumes inv: "rx_inv K got S conn" and pkt: "datagram_ok pkt" and type: "hd_type hdr \<noteq> NGTCP2_PKT_RETRY"
    and vn: "hd_type hdr = NGTCP2_PKT_VERSION_NEGOTIATION \<Longrightarrow> length payload \<le> 64"
    and k: "\<And>c. rx_inv K got S c \<Longrightarrow> returns (k c) (rx_inv K got S)"
  shows "returns (handshake_type conn pkt ts hdr payload k) (rx_inv K got S)"
proof -
  let ?c = "conn\<lparr>cn_flags := cn_flags conn OR NGTCP2_CONN_FLAG_CONN_ID_NEGOTIATED\<rparr>"
  have c: "rx_inv K got S ?c" by (rule rx_inv_flags [OF inv]) simp
  then have c': "rx_inv K got S (?c\<lparr>cn_client_conn_id := hd_conn_id hdr\<rparr>)" "rx_inv K got S (?c\<lparr>cn_conn_id := hd_conn_id hdr\<rparr>)" by simp_all
  have "cn_server conn \<Longrightarrow> returns (then_ok (conn_call_recv_client_initial (?c\<lparr>cn_client_conn_id := hd_conn_id hdr\<rparr>)) k) (rx_inv K got S)"
    by (rule returns_then [OF client_initial_ok [OF c'(1)] k]) simp_all
  then show ?thesis
    using inv k [OF inv] k [OF c'(2)] buffer_pkt_ok [OF inv pkt] type vn version_negotiation_ok [OF inv]
    by (simp add: handshake_type_def)
qed

lemma conn_recv_handshake_pkt_ok:
  assumes inv: "rx_inv K got S conn" and pkt: "datagram_ok pkt"
    and keys: "key_ok (rk_hs K)" "rk_early K = None \<or> key_ok (rk_early K)" "rk_one_block K"
  shows "returns (conn_recv_handshake_pkt index conn pkt ts) (rx_inv K got S)"
proof -
  have p: "pkt \<noteq> []" "length pkt < 2 ^ 62" using pkt by (simp_all add: datagram_ok_def)
  show ?thesis
  proof (cases "hd pkt AND NGTCP2_HEADER_FORM_BIT = 0")
    case True
    then show ?thesis using p(1) inv buffer_pkt_ok [OF inv pkt] by (simp add: conn_recv_handshake_pkt_def rd_u8_def hd_conv_nth)
  next
    case False
    show ?thesis
    proof (cases "ngtcp2_pkt_decode_hd_long pkt")
      case (Ok x)
      obtain hdr n where x: "x = (hdr, n)" by fastforce
      let ?len = "if hd_version hdr = 0 then n - 4 else n"
      let ?h = "if hd_version hdr = 0 then hdr\<lparr>hd_type := NGTCP2_PKT_VERSION_NEGOTIATION, hd_pkt_num := 0\<rparr>
                      else hdr\<lparr>hd_pkt_num := ngtcp2_pkt_adjust_pkt_num (cn_max_rx_pkt_num conn) (hd_pkt_num hdr) 32\<rparr>"
      have hdr: "hd_type hdr \<noteq> NGTCP2_PKT_RETRY" "hd_version hdr = 0 \<longrightarrow> length pkt \<le> n + 60" "n = 17" 
        using pkt Ok x hd_long_ok(2) [of pkt hdr n] by (simp_all add: datagram_ok_def)
      have vn: "hd_version hdr \<noteq> 0 \<Longrightarrow> hd_type hdr \<noteq> NGTCP2_PKT_VERSION_NEGOTIATION"
        using hd_long_ok(2) [OF Ok [unfolded x]] by blast
      have body: "returns (decrypt_payload c (drop ?len pkt) (take ?len pkt) (hd_pkt_num h) (cn_hs_rx_ckm c) (cb_hs_decrypt (cn_callbacks c)) fails
                (\<lambda>conn pt. rbind (frames_loop (handshake_frame h) pt (conn, False, False)) (handshake_done index h ts))) (rx_inv K got S)"
        if c: "rx_inv K got S c" and h: "hd_type h \<noteq> NGTCP2_PKT_RETRY" for c h
      proof -
        have cbs: "decrypts (of_stream S) (cb_hs_decrypt (cn_callbacks c))"
            "\<And>destlen ct key nonce ad. quiet got (cb_hs_decrypt (cn_callbacks c) destlen ct key nonce ad)" and k: "key_ok (cn_hs_rx_ckm c)"
          using c keys by (simp_all add: rx_inv_def authentic_def delivers_def)
        show ?thesis
        proof (rule decrypt_payload_ok [OF c k cbs], goal_cases len bad good)
          case (good d pt)
          let ?I = "\<lambda>s. rx_inv K got S (fst s) \<and> \<not> snd (snd s)"
          have handle: "\<exists>s' rv. handshake_frame h fr s = Ok (s', rv) \<and> (rv = None \<longrightarrow> ?I s')"
            if "?I s" "frame_ok fr" "of_stream S fr" for fr s
          proof -
            obtain d a f where s: "s = (d, a, f)" by (metis prod_cases3)
            have "rx_inv K got S d" "f = False" "of_stream S fr" using that s by simp_all
            with handshake_frame_ok [OF this(1) that(2) this(3), of h a] show ?thesis unfolding s by auto
          qed
          have "\<exists>s rv. frames_loop (handshake_frame h) pt (d, False, False) = Ok (s, rv) \<and> (rv = None \<longrightarrow> ?I s)"
            by (rule frames_loop_ok [OF handle good(2,3)]) (use good(1) in simp_all)
          then obtain d' b f rv where run: "frames_loop (handshake_frame h) pt (d, False, False) = Ok ((d', b, f), rv)"
              "rv = None \<longrightarrow> rx_inv K got S d' \<and> \<not> f" by auto
          show ?case using handshake_done_ok [OF run(2) h] by (simp add: run(1))
        qed (use p(2) in simp_all)
      qed
      have "returns (then_ok (Ok (conn_call_recv_pkt conn ?h)) (\<lambda>conn.
              handshake_type conn pkt ts ?h (drop ?len pkt) (\<lambda>conn.
              decrypt_payload conn (drop ?len pkt) (take ?len pkt) (hd_pkt_num ?h) (cn_hs_rx_ckm conn) (cb_hs_decrypt (cn_callbacks conn)) fails
                (\<lambda>conn pt. rbind (frames_loop (handshake_frame ?h) pt (conn, False, False)) (handshake_done index ?h ts))))) (rx_inv K got S)"
      proof (rule returns_then [OF recv_pkt_cb_ok [OF inv]], rule handshake_type_ok [OF _ pkt], goal_cases)
        case (4 c d) show ?case by (rule body [OF 4(2)]) (use hdr in simp)
      qed (use hdr vn in \<open>auto split: if_splits\<close>)
      moreover have "returns (conn_recv_pkt conn pkt ts) (rx_inv K got S)" by (rule conn_recv_pkt_ok [OF inv p keys]) (use False in simp)
      ultimately show ?thesis using False p(1) inv by (simp add: conn_recv_handshake_pkt_def rd_u8_def hd_conv_nth Ok x Let_def)
    next
      case Fault then show ?thesis using hd_long_ok(1) by blast
    qed (use False p(1) in \<open>simp add: conn_recv_handshake_pkt_def rd_u8_def hd_conv_nth\<close>)
  qed
qed

section \<open>The entry point\<close>

lemma process_pkts_ok:
  assumes "\<And>c pkt ts. rx_inv K got S c \<Longrightarrow> datagram_ok pkt \<Longrightarrow> returns (recv c pkt) (rx_inv K got S)"
  shows "\<forall>(pkt, ts) \<in> set pkts. datagram_ok pkt \<Longrightarrow> rx_inv K got S conn \<Longrightarrow> returns (process_pkts recv pkts conn) (rx_inv K got S)"
proof (induction pkts arbitrary: conn)
  case (Cons p pkts)
  obtain pkt ts where p: "p = (pkt, ts)" by fastforce
  have "returns (then_ok (recv conn pkt) (process_pkts recv pkts)) (rx_inv K got S)"
    by (rule returns_then [OF assms [OF Cons.prems(2)] Cons.IH]) (use Cons.prems p in auto)
  then show ?case by (simp add: p)
qed simp

lemma process_buffered_ok:
  assumes inv: "rx_inv K got S conn"
    and recv: "\<And>c pkt ts. rx_inv K got S c \<Longrightarrow> datagram_ok pkt \<Longrightarrow> returns (recv c pkt) (rx_inv K got S)"
  shows "returns (then_ok (process_pkts recv (cn_buffed_rx_ppkts conn) conn) (\<lambda>conn. done0 (conn\<lparr>cn_buffed_rx_ppkts := []\<rparr>))) (rx_inv K got S)"
proof (rule returns_then [OF process_pkts_ok])
  show "returns (recv c pkt) (rx_inv K got S)" if "rx_inv K got S c" "datagram_ok pkt" for c pkt by (rule recv [OF that])
  show "\<forall>(pkt, ts) \<in> set (cn_buffed_rx_ppkts conn). datagram_ok pkt" using inv by (simp add: rx_inv_def)
  show "rx_inv K got S conn" by (rule inv)
  fix c assume "rx_inv K got S c"
  then show "returns (done0 (c\<lparr>cn_buffed_rx_ppkts := []\<rparr>)) (rx_inv K got S)" by (simp add: rx_inv_buffered)
qed

lemma handshake_completed_ok:
  assumes inv: "rx_inv K got S conn"
  shows "returns (conn_handshake_completed conn) (rx_inv K got S)"
proof -
  have cb: "returns (Ok (conn_call_handshake_completed conn)) (rx_inv K got S)"
    unfolding conn_call_handshake_completed_def
    by (rule returns_weaken [OF returns_call_cb [OF inv]]) (use inv in \<open>auto simp: rx_inv_def delivers_def\<close>)
  have ext: "returns (if b then Ok (conn_call_extend_max_stream_id c m) else done0 c) (rx_inv K got S)" if "rx_inv K got S c" for b c m
  proof -
    have "returns (Ok (conn_call_extend_max_stream_id c m)) (rx_inv K got S)"
      unfolding conn_call_extend_max_stream_id_def
      by (rule returns_weaken [OF returns_call_cb [OF that]]) (use that in \<open>auto simp: rx_inv_def delivers_def\<close>)
    then show ?thesis using that by simp
  qed
  show ?thesis
    unfolding conn_handshake_completed_def by (rule returns_then [OF cb returns_then [OF ext returns_then [OF ext]]]) simp_all
qed

text \<open>
  The keys that a packet may need: that of handshake packets always, that of protected packets after
  the handshake, and that of 0-RTT packets if there is one, are installed and have room for a nonce.
\<close>

definition keys_ok :: "rx_keys \<Rightarrow> ngtcp2_conn_state \<Rightarrow> bool" where
  "keys_ok K state \<longleftrightarrow> key_ok (rk_hs K) \<and> (rk_early K = None \<or> key_ok (rk_early K)) \<and>
     (state \<in> {NGTCP2_CS_CLIENT_HANDSHAKE_ALMOST_FINISHED, NGTCP2_CS_POST_HANDSHAKE} \<or> rk_completed K \<noteq> 0 \<longrightarrow> key_ok (rk_rx K))"

abbreviation handshake_failed :: "ngtcp2_conn_state set" where
  "handshake_failed \<equiv> {NGTCP2_CS_CLIENT_TLS_HANDSHAKE_FAILED, NGTCP2_CS_SERVER_TLS_HANDSHAKE_FAILED}"

lemma recv_handshake_step_ok:
  assumes inv: "rx_inv K got S conn" and pkt: "datagram_ok pkt"
    and keys: "key_ok (rk_hs K)" "rk_early K = None \<or> key_ok (rk_early K)" "rk_one_block K" and failed: "failed \<in> handshake_failed"
    and k: "\<And>c. rx_inv K got S c \<Longrightarrow> returns (k c) (rx_inv K got S)"
  shows "returns (recv_handshake_step index failed conn pkt ts k) (\<lambda>c. cn_state c \<in> handshake_failed \<or> rx_inv K got S c)"
proof -
  obtain c rv where run: "conn_recv_handshake_pkt index conn pkt ts = Ok (c, rv)" "rv = None \<longrightarrow> rx_inv K got S c"
    using conn_recv_handshake_pkt_ok [OF inv pkt keys, of index ts] unfolding returns_def by blast
  show ?thesis
  proof (cases rv)
    case None
    then have "returns (k c) (rx_inv K got S)" using k run(2) by simp
    then have "returns (k c) (\<lambda>c. cn_state c \<in> handshake_failed \<or> rx_inv K got S c)" by (rule returns_weaken) simp
    then show ?thesis using None by (simp add: recv_handshake_step_def run(1))
  qed (use failed in \<open>auto simp: recv_handshake_step_def run(1)\<close>)
qed

lemma conn_recv_ok:
  assumes inv: "rx_inv K got S conn" and pkt: "datagram_ok pkt" and keys: "keys_ok K (cn_state conn)" and one: "rk_one_block K"
  shows "returns (ngtcp2_conn_recv index conn pkt ts) (\<lambda>c. cn_state c \<in> handshake_failed \<or> rx_inv K got S c)"
proof -
  let ?P = "\<lambda>c. cn_state c \<in> handshake_failed \<or> rx_inv K got S c"
  have hs: "key_ok (rk_hs K)" "rk_early K = None \<or> key_ok (rk_early K)" "rk_one_block K" using keys one by (simp_all add: keys_ok_def)
  have p: "pkt \<noteq> []" "length pkt < 2 ^ 62" using pkt by (simp_all add: datagram_ok_def)
  have completed: "cn_flags c AND NGTCP2_CONN_FLAG_HANDSHAKE_COMPLETED \<noteq> 0 \<Longrightarrow> key_ok (rk_rx K)" if "rx_inv K got S c" for c
    using that keys by (simp add: keys_ok_def rx_inv_def)
  have protected: "returns (conn_process_buffered_protected_pkt c ts) (rx_inv K got S)" if "rx_inv K got S c" "key_ok (rk_rx K)" for c
    unfolding conn_process_buffered_protected_pkt_def
    by (rule process_buffered_ok [OF that(1) conn_recv_pkt_ok]) (use hs that in \<open>auto simp: datagram_ok_def\<close>)
  have early: "returns (conn_process_buffered_0rtt_pkt index c ts) (rx_inv K got S)" if "rx_inv K got S c" for c
    unfolding conn_process_buffered_0rtt_pkt_def by (rule process_buffered_ok [OF that conn_recv_handshake_pkt_ok]) (use hs in auto)
  have client: "returns (then_ok (conn_handshake_completed c) (\<lambda>c.
      conn_process_buffered_protected_pkt (c\<lparr>cn_state := NGTCP2_CS_CLIENT_HANDSHAKE_ALMOST_FINISHED\<rparr>) ts)) (rx_inv K got S)"
    if "rx_inv K got S c" "key_ok (rk_rx K)" for c
    by (rule returns_then [OF handshake_completed_ok [OF that(1)] protected]) (simp_all add: that(2))
  have server: "returns (then_ok (conn_handshake_completed c) (\<lambda>conn.
            let conn = conn\<lparr>cn_state := NGTCP2_CS_POST_HANDSHAKE\<rparr> in
            if cn_flags conn AND NGTCP2_CONN_FLAG_TRANSPORT_PARAM_RECVED = 0 then fails conn NGTCP2_ERR_REQUIRED_TRANSPORT_PARAM
            else conn_process_buffered_protected_pkt conn ts)) (rx_inv K got S)" if "rx_inv K got S c" "key_ok (rk_rx K)" for c
    by (rule returns_then [OF handshake_completed_ok [OF that(1)]]) (use protected that(2) in \<open>simp add: Let_def\<close>)
  have step: "returns (if cn_flags c AND NGTCP2_CONN_FLAG_HANDSHAKE_COMPLETED = 0 then done0 c else then_ok (conn_handshake_completed c) k) (rx_inv K got S)"
    if "rx_inv K got S c" and "key_ok (rk_rx K) \<Longrightarrow> returns (then_ok (conn_handshake_completed c) k) (rx_inv K got S)" for c k
    using that completed [OF that(1)] by simp
  have weak: "returns m ?P" if "returns m (rx_inv K got S)" for m by (rule returns_weaken [OF that]) blast
  have recv_server: "returns (recv_handshake_step index NGTCP2_CS_SERVER_TLS_HANDSHAKE_FAILED conn pkt ts (\<lambda>conn.
          if cn_state conn = NGTCP2_CS_SERVER_INITIAL \<and> cn_flags conn AND NGTCP2_CONN_FLAG_CONN_ID_NEGOTIATED \<noteq> 0
          then conn_process_buffered_0rtt_pkt index conn ts
          else if cn_flags conn AND NGTCP2_CONN_FLAG_HANDSHAKE_COMPLETED = 0 then done0 conn
          else then_ok (conn_handshake_completed conn) (\<lambda>conn.
            let conn = conn\<lparr>cn_state := NGTCP2_CS_POST_HANDSHAKE\<rparr> in
            if cn_flags conn AND NGTCP2_CONN_FLAG_TRANSPORT_PARAM_RECVED = 0 then fails conn NGTCP2_ERR_REQUIRED_TRANSPORT_PARAM
            else conn_process_buffered_protected_pkt conn ts))) ?P"
    by (rule recv_handshake_step_ok [OF inv pkt hs]) (use step server early in auto)
  have hs_pkt: "returns (conn_recv_handshake_pkt index conn pkt ts) (rx_inv K got S)" by (rule conn_recv_handshake_pkt_ok [OF inv pkt hs])
  have conn_pkt: "returns (conn_recv_pkt conn pkt ts) (rx_inv K got S)" if "key_ok (rk_rx K)" by (rule conn_recv_pkt_ok [OF inv p hs that])
  show ?thesis
  proof (cases "cn_state conn")
    case NGTCP2_CS_CLIENT_WAIT_HANDSHAKE
    have "returns (recv_handshake_step index NGTCP2_CS_CLIENT_TLS_HANDSHAKE_FAILED conn pkt ts (\<lambda>conn.
          if cn_flags conn AND NGTCP2_CONN_FLAG_HANDSHAKE_COMPLETED = 0 then done0 conn
          else then_ok (conn_handshake_completed conn) (\<lambda>conn.
            conn_process_buffered_protected_pkt (conn\<lparr>cn_state := NGTCP2_CS_CLIENT_HANDSHAKE_ALMOST_FINISHED\<rparr>) ts))) ?P"
      by (rule recv_handshake_step_ok [OF inv pkt hs]) (use step client in auto)
    then show ?thesis using p by (simp add: ngtcp2_conn_recv_def NGTCP2_CS_CLIENT_WAIT_HANDSHAKE)
  next
    case NGTCP2_CS_SERVER_INITIAL
    then show ?thesis using p recv_server by (simp add: ngtcp2_conn_recv_def)
  next
    case NGTCP2_CS_SERVER_WAIT_HANDSHAKE
    then show ?thesis using p recv_server by (simp add: ngtcp2_conn_recv_def)
  next
    case NGTCP2_CS_CLIENT_TLS_HANDSHAKE_FAILED
    then show ?thesis using p weak [OF hs_pkt] by (simp add: ngtcp2_conn_recv_def)
  next
    case NGTCP2_CS_SERVER_TLS_HANDSHAKE_FAILED
    then show ?thesis using p weak [OF hs_pkt] by (simp add: ngtcp2_conn_recv_def)
  next
    case NGTCP2_CS_CLIENT_HANDSHAKE_ALMOST_FINISHED
    then show ?thesis using p weak [OF conn_pkt] keys by (simp add: ngtcp2_conn_recv_def keys_ok_def)
  next
    case NGTCP2_CS_POST_HANDSHAKE
    then show ?thesis using p weak [OF conn_pkt] keys by (simp add: ngtcp2_conn_recv_def keys_ok_def)
  qed (use inv in \<open>simp_all add: ngtcp2_conn_recv_def\<close>)
qed

end
