(* ===== verification/Conn_Write_Inv.thy ===== *)
theory Conn_Write_Inv
  imports Conn_Packets Conn_Ack
begin

text \<open>
  What the writers of packets keep of a connection. Two interfaces say what they rely on: \<open>frame_writer\<close> for an
  invariant under the steps that put frames in a packet, \<open>conn_writer\<close> for one that also bounds the bytes in flight, under
  the bookkeeping of a packet that was written. Every writer keeps such an invariant, and returns no more bytes than fit its
  destination. The invariant of the receiving side, together with limits that can be sent, is one (\<open>tx\<close>).
\<close>

section \<open>Partial correctness\<close>

text \<open>
  \<open>keeps m Q\<close>: when the operation returns, with an error or without one, its result satisfies \<open>Q\<close>.
\<close>

definition keeps :: "'x result \<Rightarrow> ('x \<Rightarrow> bool) \<Rightarrow> bool" where
  "keeps m Q \<longleftrightarrow> (\<forall>x. m = Ok x \<longrightarrow> Q x)"

lemma keeps_simps [simp]: "keeps (Ok x) Q = Q x" "keeps (Err e) Q" "keeps Fault Q"
  by (simp_all add: keeps_def)

lemma keepsD: "keeps m Q \<Longrightarrow> m = Ok x \<Longrightarrow> Q x"
  by (simp add: keeps_def)

lemma keeps_bind: "keeps m P \<Longrightarrow> (\<And>x. P x \<Longrightarrow> keeps (k x) Q) \<Longrightarrow> keeps (rbind m k) Q"
  by (auto simp: keeps_def rbind_Ok_iff)

lemma keeps_assert: "(b \<Longrightarrow> keeps k Q) \<Longrightarrow> keeps (c_assert b k) Q"
  by (cases b) (simp_all add: c_assert_def)

lemma keeps_weaken: "keeps m P \<Longrightarrow> (\<And>x. P x \<Longrightarrow> Q x) \<Longrightarrow> keeps m Q"
  by (simp add: keeps_def)

lemma keeps_if: "(b \<Longrightarrow> keeps m Q) \<Longrightarrow> (\<not> b \<Longrightarrow> keeps k Q) \<Longrightarrow> keeps (if b then m else k) Q"
  by simp

lemma keeps_on_ok: "(\<And>e. Q (s, Inl e)) \<Longrightarrow> (\<And>x. r = Ok x \<Longrightarrow> keeps (k x) Q) \<Longrightarrow> keeps (on_ok s r k) Q"
  by (cases r) (simp_all add: on_ok_def)

text \<open>
  A step keeps a condition on the connection; a writer keeps one that depends on the number of
  bytes in flight, which grow by the length of the packet that it wrote.
\<close>

abbreviation steps :: "('s \<Rightarrow> bool) \<Rightarrow> 's \<times> 'r \<Rightarrow> bool" where
  "steps J x \<equiv> J (fst x)"

definition wrote :: "nat \<Rightarrow> (nat \<Rightarrow> 's \<Rightarrow> bool) \<Rightarrow> 's \<times> (ngtcp2_lib_error + bytes) \<Rightarrow> bool" where
  "wrote L Q x = (case snd x of Inl e \<Rightarrow> Q 0 (fst x) | Inr pkt \<Rightarrow> length pkt \<le> L \<and> Q (length pkt) (fst x))"

lemma wrote_simps [simp]: "wrote L Q (s, Inl e) = Q 0 s" "wrote L Q (s, Inr pkt) = (length pkt \<le> L \<and> Q (length pkt) s)"
  by (simp_all add: wrote_def)

lemma wrote_weaken: "wrote L Q x \<Longrightarrow> (\<And>n s. n \<le> L \<Longrightarrow> Q n s \<Longrightarrow> Q' n s) \<Longrightarrow> wrote L Q' x"
  by (auto simp: wrote_def split: sum.splits)

lemma keeps_if_zero:
  assumes "keeps m (wrote L Q)" and "\<And>c. Q 0 c \<Longrightarrow> keeps (k c) (wrote L Q)"
  shows "keeps (if_zero m k) (wrote L Q)"
  unfolding if_zero_def by (rule keeps_bind [OF assms(1)]) (auto simp: assms(2))

lemma keeps_enter_state:
  "keeps m (wrote L Q) \<Longrightarrow> (\<And>n c. Q n c \<Longrightarrow> Q n (c\<lparr>cn_state := st\<rparr>)) \<Longrightarrow> keeps (enter_state m st) (wrote L Q)"
  unfolding enter_state_def by (erule keeps_bind) (auto split: sum.split)

lemma keeps_then_write:
  "keeps m (steps J) \<Longrightarrow> (\<And>c e. J c \<Longrightarrow> Q (c, Inl e)) \<Longrightarrow> (\<And>c. J c \<Longrightarrow> keeps (k c) Q) \<Longrightarrow> keeps (then_write m k) Q"
  by (auto simp: then_write_def keeps_def rbind_Ok_iff split: option.splits)

lemma keeps_then_ok:
  "keeps m (steps J) \<Longrightarrow> (\<And>c. J c \<Longrightarrow> keeps (k c) (steps J)) \<Longrightarrow> keeps (then_ok m k) (steps J)"
  by (auto simp: then_ok_def keeps_def rbind_Ok_iff split: option.splits)

section \<open>The buffer of a packet\<close>

text \<open>The encoder writes to the destination and never changes its length; the packet is a part of it.\<close>

definition ppe_len :: "ngtcp2_ppe \<Rightarrow> nat" where
  "ppe_len ppe = length (buf_mem (ppe_buf ppe))"

lemma buf_store_len: "buf_store buf i bs = Ok buf' \<Longrightarrow> length (buf_mem buf') = length (buf_mem buf)"
  by (auto simp: buf_store_def result_simps)

lemma pkt_begin_len: "pkt_begin dest ctx hdr = Ok ppe \<Longrightarrow> ppe_len ppe = length dest"
  by (auto simp: pkt_begin_def ngtcp2_ppe_encode_hd_def ngtcp2_ppe_init_def ngtcp2_buf_init_def ppe_len_def buf_append_def result_simps Let_def
      dest!: buf_store_len)

lemma encode_frame_len: "ngtcp2_ppe_encode_frame ppe fr = Ok (ppe', fr') \<Longrightarrow> ppe_len ppe' = ppe_len ppe"
  by (auto simp: ngtcp2_ppe_encode_frame_def ppe_len_def buf_append_def result_simps Let_def dest!: buf_store_len)

lemma encode_frame_ack: "ngtcp2_ppe_encode_frame ppe fr = Ok (ppe', FR_ACK ack) \<Longrightarrow> fr = FR_ACK ack"
  by (cases fr) (auto simp: ngtcp2_ppe_encode_frame_def result_simps Let_def)

lemma padding_len: "ngtcp2_ppe_padding ppe = Ok (ppe', n) \<Longrightarrow> ppe_len ppe' = ppe_len ppe"
  by (auto simp: ngtcp2_ppe_padding_def ppe_len_def buf_append_def result_simps Let_def dest!: buf_store_len)

lemma pkt_final_len: "pkt_final ckm ppe = Ok pkt \<Longrightarrow> length pkt \<le> ppe_len ppe"
  by (auto simp: pkt_final_def ngtcp2_ppe_final_def ppe_len_def result_simps Let_def split: option.splits dest!: buf_store_len)

section \<open>Writing frames\<close>

text \<open>What the writing of one frame keeps is kept by the writing of all frames of an entry.\<close>

lemma write_frames_steps:
  assumes frame: "\<And>s fr. P s \<Longrightarrow> keeps (conn_ppe_write_frame hdr s fr) (steps P)"
  shows "P s \<Longrightarrow> keeps (write_frames check hdr s gone0 frs) (steps P)"
  using frame
proof (induction check hdr s "gone0" frs rule: write_frames.induct)
  case (2 check hdr s gone fr frs)
  have step: "keeps (rbind (conn_ppe_write_frame hdr s f) (\<lambda>(s, fr, rv).
       case rv of Some e \<Rightarrow> Ok (s, gone, fr # fs, Some e) | None \<Rightarrow> write_frames check hdr s (gone @ [fr]) fs)) (steps P)"
    if "\<And>s fr. P s \<Longrightarrow> keeps (write_frames check hdr s (gone @ [fr]) fs) (steps P)" for f fs
    by (rule keeps_bind [OF "2.prems"(2) [OF "2.prems"(1)]]) (auto split: option.split intro: that)
  show ?case
  proof (cases "check (fst s) fr")
    case (Ok v)
    then show ?thesis
      using "2.IH" "2.prems" by (cases v) (auto split: list.split intro!: step)
  qed simp_all
qed simp

text \<open>
  The interface of what the writers of frames do to a connection: they call callbacks, and construct and account for ACK
  frames. A condition that these operations keep is kept by every sequence of frames.
\<close>

locale frame_writer =
  fixes J :: "'a ngtcp2_conn \<Rightarrow> bool"
  assumes mem: "J conn \<Longrightarrow> cn_mem conn = []"
    and call_pkt: "J conn \<Longrightarrow> J (fst (conn_call_send_pkt conn hdr))"
    and call_frame: "J conn \<Longrightarrow> J (fst (conn_call_send_frame conn hdr fr))"
    and create_ack: "J conn \<Longrightarrow> keeps (conn_create_ack_frame conn ts unprotected) (\<lambda>x. J (fst x) \<and> (\<forall>ack. snd x = Inr (Some ack) \<longrightarrow> ack_valid ack))"
    and commit_ack: "J conn \<Longrightarrow> J (conn_commit_tx_ack conn)"
    and add_ack: "J conn \<Longrightarrow> ack_valid ack \<Longrightarrow> keeps (conn_add_ack conn n ack u) J"
begin

definition in_pkt :: "nat \<Rightarrow> 'a pkt_state \<Rightarrow> bool" where
  "in_pkt L s \<longleftrightarrow> J (fst s) \<and> ppe_len (fst (snd s)) = L"

lemma in_pkt_iff: "in_pkt L (conn, ppe, called) \<longleftrightarrow> J conn \<and> ppe_len ppe = L"
  by (simp add: in_pkt_def)

lemma mem_same: "J conn \<Longrightarrow> conn\<lparr>cn_mem := []\<rparr> = conn"
  using mem by simp

lemma malloc: "J conn \<Longrightarrow> with_malloc conn failed k = k conn"
  by (simp add: with_malloc_def mem mem_same)

lemma write_frame:
  assumes "in_pkt L s"
  shows "keeps (conn_ppe_write_frame hdr s fr) (steps (in_pkt L))"
proof -
  obtain conn ppe called where s: "s = (conn, ppe, called)" by (cases s) auto
  have J: "J conn" "ppe_len ppe = L" using assms by (simp_all add: s in_pkt_iff)
  obtain c1 r1 where c1: "conn_call_send_pkt conn hdr = (c1, r1)" by fastforce
  have J1: "J c1" using call_pkt [OF J(1), of hdr] by (simp add: c1)
  show ?thesis
    using J J1 call_frame [OF J1, of hdr] call_frame [OF J(1), of hdr]
    by (auto simp: s in_pkt_iff conn_ppe_write_frame_def c1 keeps_def split: result.splits option.splits prod.splits if_splits dest!: encode_frame_len)
      (metis fst_conv)+
qed

lemma frames: "in_pkt L s \<Longrightarrow> keeps (write_frames check hdr s done frs) (steps (in_pkt L))"
  by (rule write_frames_steps [OF write_frame])

lemma frames_then:
  assumes "in_pkt L s" and "\<And>c ppe called gone rest rv. in_pkt L (c, ppe, called) \<Longrightarrow> keeps (k ((c, ppe, called), gone, rest, rv)) Q"
  shows "keeps (rbind (write_frames check hdr s done frs) k) Q"
  by (rule keeps_bind [OF frames [OF assms(1)]]) (auto intro: assms(2))

lemma append_ack_keeps:
  assumes "in_pkt L s"
  shows "keeps (append_ack hdr ts s) (steps (in_pkt L))"
proof -
  obtain conn ppe called where s: "s = (conn, ppe, called)" by (cases s) auto
  have J: "J conn" "ppe_len ppe = L" using assms by (simp_all add: s in_pkt_iff)
  have in_pkt: "J c \<Longrightarrow> in_pkt L (c, ppe, cl)" for c cl by (simp add: in_pkt_iff J)
  have after: "keeps (rbind (conn_add_ack (conn_commit_tx_ack c) n ack 0) (\<lambda>conn. Ok ((conn, p, cl), None))) (steps (in_pkt L))"
    if "in_pkt L (c, p, cl)" "ack_valid ack" for c p cl n ack
    using that by (auto simp: in_pkt_iff intro: keeps_bind [OF add_ack [OF commit_ack that(2)]])
  show ?thesis
    unfolding s append_ack_def prod.case
    by (rule keeps_bind [OF create_ack [OF J(1)]])
      (auto simp: in_pkt J split: sum.split option.split intro!: keeps_bind [OF write_frame [of L]] after)
qed

end


section \<open>Writing packets\<close>

lemma new_addr_fresh: "new_addr ps \<notin> set ps"
proof -
  have "p \<in> set ps \<Longrightarrow> p \<le> foldr max ps 0" for p by (induction ps) auto
  then show ?thesis unfolding new_addr_def by force
qed

text \<open>The changes of the sending side of a stream.\<close>

definition tx_only :: "ngtcp2_strm \<Rightarrow> ngtcp2_strm \<Rightarrow> bool" where
  "tx_only s s' \<longleftrightarrow> (\<exists>b x fl. fl \<in> {0, NGTCP2_STRM_FLAG_SHUT_WR} \<and> s' = s\<lparr>sm_tx_buf := b, sm_tx_offset := x, sm_flags := sm_flags s OR fl\<rparr>)"

lemma tx_only:
  "tx_only s (s\<lparr>sm_tx_buf := b, sm_tx_offset := x\<rparr>)" "tx_only s (s\<lparr>sm_tx_buf := b\<rparr>)" "tx_only s (s\<lparr>sm_tx_offset := x\<rparr>)"
  "tx_only s (ngtcp2_strm_shutdown s NGTCP2_STRM_FLAG_SHUT_WR)"
proof -
  have 0: "s\<lparr>sm_tx_buf := b, sm_tx_offset := x\<rparr> = s\<lparr>sm_tx_buf := b, sm_tx_offset := x, sm_flags := sm_flags s OR 0\<rparr>" for b x by simp
  then show 1: "tx_only s (s\<lparr>sm_tx_buf := b, sm_tx_offset := x\<rparr>)" for b x unfolding tx_only_def by blast
  show "tx_only s (s\<lparr>sm_tx_buf := b\<rparr>)" "tx_only s (s\<lparr>sm_tx_offset := x\<rparr>)" using 1 [where b = b and x = "sm_tx_offset s"] 1 [where b = "sm_tx_buf s" and x = x] by simp_all
  have "ngtcp2_strm_shutdown s NGTCP2_STRM_FLAG_SHUT_WR = s\<lparr>sm_tx_buf := sm_tx_buf s, sm_tx_offset := sm_tx_offset s, sm_flags := sm_flags s OR NGTCP2_STRM_FLAG_SHUT_WR\<rparr>"
    by (simp add: ngtcp2_strm_shutdown_def)
  then show "tx_only s (ngtcp2_strm_shutdown s NGTCP2_STRM_FLAG_SHUT_WR)" unfolding tx_only_def by blast
qed

text \<open>
  The interface of what the writers of packets change. \<open>I B\<close> is a condition that bounds the bytes in flight by
  \<open>B\<close>; the laws are those of the operations of the retransmission buffer, of the fields of the sending side
  and of the limits that are sent to the peer.
\<close>

locale conn_writer =
  fixes I :: "nat \<Rightarrow> 'a ngtcp2_conn \<Rightarrow> bool"
  assumes frame_writer: "frame_writer (I B)"
    and more: "I B conn \<Longrightarrow> B \<le> B' \<Longrightarrow> I B' conn"
    and fields: "I B conn \<Longrightarrow> I B (conn\<lparr>cn_last_tx_pkt_num := n\<rparr>)" "I B conn \<Longrightarrow> I B (conn\<lparr>cn_frq := frq\<rparr>)"
      "I B conn \<Longrightarrow> I B (conn\<lparr>cn_fc_strms := fcs\<rparr>)" "I B conn \<Longrightarrow> I B (conn\<lparr>cn_state := st\<rparr>)"
      "I B conn \<Longrightarrow> I B (conn\<lparr>cn_tx_offset := n\<rparr>)" "I B conn \<Longrightarrow> I B (conn\<lparr>cn_rtb := (cn_rtb conn)\<lparr>rtb_largest_acked := n\<rparr>\<rparr>)"
    and strm: "I B conn \<Longrightarrow> (\<And>s. tx_only s (f s)) \<Longrightarrow> I B (upd_strm conn sid f)"
    and limits: "I B conn \<Longrightarrow> I B (upd_strm conn sid (\<lambda>strm. strm\<lparr>sm_max_rx_offset := sm_unsent_max_rx_offset strm\<rparr>))"
      "I B conn \<Longrightarrow> cn_max_rx_offset conn < cn_unsent_max_rx_offset conn \<Longrightarrow> I B (conn\<lparr>cn_max_rx_offset := cn_unsent_max_rx_offset conn\<rparr>)"
      "I B conn \<Longrightarrow> I B (conn\<lparr>cn_max_remote_stream_id_bidi := cn_unsent_max_remote_stream_id_bidi conn\<rparr>)"
      "I B conn \<Longrightarrow> I B (conn\<lparr>cn_max_remote_stream_id_uni := cn_unsent_max_remote_stream_id_uni conn\<rparr>)"
    and hs_calls: "I B conn \<Longrightarrow> cb_send_client_initial (cn_callbacks conn) = Some f1 \<Longrightarrow> I B (conn\<lparr>cn_app := fst (f1 b (cn_app conn))\<rparr>)"
      "I B conn \<Longrightarrow> cb_send_client_handshake (cn_callbacks conn) = Some f2 \<Longrightarrow> I B (conn\<lparr>cn_app := fst (f2 (cn_app conn))\<rparr>)"
      "I B conn \<Longrightarrow> cb_send_server_handshake (cn_callbacks conn) = Some f3 \<Longrightarrow> I B (conn\<lparr>cn_app := fst (f3 b (cn_app conn))\<rparr>)"
    and rtb_add: "I B conn \<Longrightarrow> p \<notin> set (rtb_head (cn_rtb conn)) \<Longrightarrow> B + unat (re_pktlen ent) < 2 ^ 64 \<Longrightarrow>
      keeps (conn_rtb_add conn p ent) (\<lambda>x. snd x = None \<and> I (B + unat (re_pktlen ent)) (fst x))"
    and rtb_pop: "I B conn \<Longrightarrow> ngtcp2_rtb_top (cn_rtb conn) = Some p \<Longrightarrow> ngtcp2_rtb_pop (cn_rtb conn) = Ok rtb \<Longrightarrow>
      \<exists>B'. B = B' + unat (re_pktlen (rtb_store (cn_rtb conn) p)) \<and> I B' (conn\<lparr>cn_rtb := rtb\<rparr>) \<and> p \<notin> set (rtb_head rtb)"
    and early_add: "I B conn \<Longrightarrow> I (B + unat (re_pktlen ent)) (conn\<lparr>cn_early_rtb := cn_early_rtb conn @ [ent]\<rparr>)"
    and early_move: "I B (conn\<lparr>cn_early_rtb := ent # ents\<rparr>) \<Longrightarrow> p \<notin> set (rtb_head (cn_rtb conn)) \<Longrightarrow> re_pktlen ent' = re_pktlen ent \<Longrightarrow> B < 2 ^ 64 \<Longrightarrow>
      keeps (conn_rtb_add conn p ent') (\<lambda>x. snd x = None \<and> I B ((fst x)\<lparr>cn_early_rtb := ents\<rparr>))"
begin

lemma small_len: "unat (of_nat (length pkt) :: u64) \<le> length pkt"
  by (simp add: unat_of_nat)

end

sublocale conn_writer \<subseteq> frame: frame_writer "I B" for B
  by (rule frame_writer)


lemma rtb_same:
  "cn_rtb (fst (conn_call_send_pkt conn hdr)) = cn_rtb conn" "cn_rtb (fst (conn_call_send_frame conn hdr fr)) = cn_rtb conn"
  "cn_rtb (conn_commit_tx_ack conn) = cn_rtb conn" "conn_add_ack conn n ack u = Ok conn' \<Longrightarrow> cn_rtb conn' = cn_rtb conn"
  "conn_create_ack_frame conn ts unprotected = Ok x \<Longrightarrow> cn_rtb (fst x) = cn_rtb conn"
  by (auto simp: conn_call_send_pkt_def conn_call_send_frame_def call_cb_def conn_commit_tx_ack_def conn_invalidate_next_ack_expiry_def
      conn_add_ack_def conn_create_ack_frame_def with_malloc_def Let_def result_simps split: option.splits prod.splits if_splits list.splits)

sublocale conn_writer \<subseteq> fresh: frame_writer "\<lambda>c. I B c \<and> p \<notin> set (rtb_head (cn_rtb c))" for B p
proof unfold_locales
  fix conn ts unprotected
  show "I B conn \<and> p \<notin> set (rtb_head (cn_rtb conn)) \<Longrightarrow> keeps (conn_create_ack_frame conn ts unprotected)
      (\<lambda>x. (I B (fst x) \<and> p \<notin> set (rtb_head (cn_rtb (fst x)))) \<and> (\<forall>ack. snd x = Inr (Some ack) \<longrightarrow> ack_valid ack))"
    using frame.create_ack [of B conn ts unprotected] unfolding keeps_def by (metis rtb_same(5))
next
  fix conn n ack u
  show "I B conn \<and> p \<notin> set (rtb_head (cn_rtb conn)) \<Longrightarrow> ack_valid ack \<Longrightarrow>
      keeps (conn_add_ack conn n ack u) (\<lambda>c. I B c \<and> p \<notin> set (rtb_head (cn_rtb c)))"
    using frame.add_ack [of B conn ack n u] unfolding keeps_def by (metis rtb_same(4))
qed (auto simp: rtb_same frame.call_pkt frame.call_frame frame.commit_ack intro: frame.mem)

context conn_writer begin

lemma entry_new:
  assumes "I B conn"
  shows "\<exists>ent. conn_rtb_entry_new conn hdr frc ts deadline pkt flags = (conn, Ok ent) \<and> re_pktlen ent = of_nat (length pkt)"
  using frame.mem_same [OF assms] frame.mem [OF assms]
  by (simp add: conn_rtb_entry_new_def ngtcp2_rtb_entry_new_def ngtcp2_mem_calloc_def ret_if_def)

lemma more_add: "I B conn \<Longrightarrow> I (B + n) conn"
  by (erule more) simp

lemma inc: "I B conn \<Longrightarrow> I B (inc_tx_pkt_num conn)"
  by (simp add: inc_tx_pkt_num_def fields)

lemma track:
  assumes "I B conn" and "B + unat (re_pktlen ent) < 2 ^ 64"
  shows "keeps (conn_track conn used ent) (\<lambda>x. snd x = None \<and> I (B + unat (re_pktlen ent)) (fst x) \<and>
    (\<forall>p \<in> set used. p \<notin> set (rtb_head (cn_rtb conn)) \<longrightarrow> p \<notin> set (rtb_head (cn_rtb (fst x)))))"
proof -
  let ?a = "new_addr (used @ rtb_head (cn_rtb conn))"
  have a: "?a \<notin> set used" "?a \<notin> set (rtb_head (cn_rtb conn))" using new_addr_fresh [of "used @ rtb_head (cn_rtb conn)"] by simp_all
  have "set (rtb_head (cn_rtb (fst x))) \<subseteq> insert ?a (set (rtb_head (cn_rtb conn)))" if "conn_rtb_add conn ?a ent = Ok x" for x
    using that by (auto simp: conn_rtb_add_def ngtcp2_rtb_add_def Let_def split: prod.splits option.splits)
  then have "keeps (conn_rtb_add conn ?a ent) (\<lambda>x. snd x = None \<and> I (B + unat (re_pktlen ent)) (fst x) \<and>
      (\<forall>p \<in> set used. p \<notin> set (rtb_head (cn_rtb conn)) \<longrightarrow> p \<notin> set (rtb_head (cn_rtb (fst x)))))"
    using rtb_add [OF assms(1) a(2) assms(2)] a(1) unfolding keeps_def by blast
  then show ?thesis unfolding conn_track_def by (rule keeps_bind) (auto intro!: keeps_assert split: prod.split)
qed

lemma track_pkt:
  assumes "I B conn" and "length pkt \<le> L" and "B + L < 2 ^ 64" and "re_pktlen ent = of_nat (length pkt)"
  shows "keeps (conn_track conn used ent) (\<lambda>x. snd x = None \<and> I (B + length pkt) (fst x) \<and>
    (\<forall>p \<in> set used. p \<notin> set (rtb_head (cn_rtb conn)) \<longrightarrow> p \<notin> set (rtb_head (cn_rtb (fst x)))))"
proof -
  have le: "unat (re_pktlen ent) \<le> length pkt" using small_len [of pkt] by (simp add: assms(4))
  then have "B + unat (re_pktlen ent) < 2 ^ 64" using assms(2,3) by linarith
  from track [OF assms(1) this, of used] show ?thesis by (rule keeps_weaken) (use le in \<open>auto intro: more split: if_splits\<close>)
qed

text \<open>The entry that is retransmitted is not in the buffer, and its length stays what it was.\<close>

definition resent :: "nat \<Rightarrow> u64 \<Rightarrow> nat \<Rightarrow> nat \<Rightarrow> 'a ngtcp2_conn \<times> ngtcp2_rtb_entry \<Rightarrow> bool" where
  "resent p len B n s \<longleftrightarrow> I (B + n) (fst s) \<and> p \<notin> set (rtb_head (cn_rtb (fst s))) \<and> re_pktlen (snd s) = len"

lemma extend_expiry: "keeps (ngtcp2_rtb_entry_extend_expiry ent ts) (\<lambda>ent'. re_pktlen ent' = re_pktlen ent)"
  by (auto simp: ngtcp2_rtb_entry_extend_expiry_def keeps_def result_simps Let_def)

lemma retransmit_split_keeps:
  assumes "I B conn" and p: "p \<notin> set (rtb_head (cn_rtb conn))" and L: "length pkt \<le> L" "B + L < 2 ^ 64"
  shows "keeps (retransmit_split conn p ent hdr gone rest pkt flags ts) (wrote L (resent p (re_pktlen ent) B))"
proof (cases "gone = []")
  case True
  then show ?thesis using assms by (auto simp: retransmit_split_def resent_def inc_tx_pkt_num_def intro: more [OF fields(1) [OF assms(1)]])
next
  case False
  obtain nent where nent: "conn_rtb_entry_new conn hdr [] ts (re_deadline ent) pkt flags = (conn, Ok nent)" "re_pktlen nent = of_nat (length pkt)"
    using entry_new [OF assms(1)] by blast
  have track: "keeps (rbind (conn_track conn [p] (nent'\<lparr>re_frc := gone\<rparr>)) (\<lambda>(conn, rv).
        case rv of Some e \<Rightarrow> refuses (conn, ent\<lparr>re_frc := rest\<rparr>) e | None \<Rightarrow> writes (inc_tx_pkt_num conn, ent\<lparr>re_frc := rest\<rparr>) pkt)) (wrote L (resent p (re_pktlen ent) B))"
    if "re_pktlen nent' = re_pktlen nent" for nent'
    by (rule keeps_bind [OF track_pkt [OF assms(1) L]]) (use that nent(2) p L(1) in \<open>auto simp: resent_def inc_tx_pkt_num_def fields split: option.split\<close>)
  show ?thesis
    using False nent(1) by (auto simp: retransmit_split_def Let_def intro!: keeps_bind [OF extend_expiry] track)
qed


text \<open>The entry is sent as a whole.\<close>

lemma resent_all:
  assumes "I B conn" and p: "p \<notin> set (rtb_head (cn_rtb conn))" and L: "ppe_len ppe = L"
  shows "keeps (rbind (ngtcp2_rtb_entry_extend_expiry (ent\<lparr>re_frc := frc, re_hd := hdr\<rparr>) ts) (\<lambda>ent.
           on_ok (conn, ent) (pkt_final ckm ppe) (writes (inc_tx_pkt_num conn, ent)))) (wrote L (resent p (re_pktlen ent) B))"
  by (rule keeps_bind [OF extend_expiry], rule keeps_on_ok)
    (use assms in \<open>auto simp: resent_def inc_tx_pkt_num_def fields dest: pkt_final_len intro: more [OF fields(1) [OF assms(1)]]\<close>)

lemma resent_same: "I B conn \<Longrightarrow> p \<notin> set (rtb_head (cn_rtb conn)) \<Longrightarrow> resent p (re_pktlen ent) B 0 (conn, ent\<lparr>re_frc := frc\<rparr>)"
  by (simp add: resent_def)

lemma resent_split:
  assumes s: "fresh.in_pkt B p L (conn, ppe, called)" and L: "B + L < 2 ^ 64" and ent: "re_pktlen ent = len"
  shows "keeps (on_ok (conn, ent) (pkt_final ckm ppe) (\<lambda>pkt. retransmit_split conn p ent hdr gone rest pkt flags ts)) (wrote L (resent p len B))"
proof (rule keeps_on_ok)
  have J: "I B conn" "p \<notin> set (rtb_head (cn_rtb conn))" "ppe_len ppe = L" using s by (simp_all add: fresh.in_pkt_iff)
  show "wrote L (resent p len B) ((conn, ent), Inl e)" for e using J ent by (simp add: resent_def)
  fix pkt
  assume "pkt_final ckm ppe = Ok pkt"
  then have "length pkt \<le> L" using pkt_final_len J(3) by blast
  from retransmit_split_keeps [OF J(1,2) this L, of ent] ent
  show "keeps (retransmit_split conn p ent hdr gone rest pkt flags ts) (wrote L (resent p len B))" by simp
qed

lemma retransmit_protected_keeps:
  assumes conn: "I B conn \<and> p \<notin> set (rtb_head (cn_rtb conn))" and L: "length dest = L" "B + L < 2 ^ 64"
  shows "keeps (conn_retransmit_protected conn dest p ent ts) (wrote L (resent p (re_pktlen ent) B))"
proof -
  let ?P = "wrote L (resent p (re_pktlen ent) B)"
  have after: "keeps (rbind (if ack then append_ack hdr ts s else Ok (s, None)) (\<lambda>((conn, ppe, called), rv).
        case rv of Some e \<Rightarrow> refuses (conn, ent\<lparr>re_frc := frc\<rparr>) e
        | None \<Rightarrow>
            if rest = [] then
              rbind (ngtcp2_rtb_entry_extend_expiry (ent\<lparr>re_frc := frc, re_hd := hdr\<rparr>) ts) (\<lambda>ent.
              on_ok (conn, ent) (pkt_final (cn_tx_ckm conn) ppe) (writes (inc_tx_pkt_num conn, ent)))
            else
              on_ok (conn, ent\<lparr>re_frc := frc\<rparr>) (pkt_final (cn_tx_ckm conn) ppe) (\<lambda>pkt.
              retransmit_split conn p (ent\<lparr>re_frc := frc\<rparr>) hdr gone rest pkt NGTCP2_RTB_FLAG_NONE ts))) ?P"
    if s: "fresh.in_pkt B p L s" for s ack hdr frc gone rest
    by (rule keeps_bind [where P = "steps (fresh.in_pkt B p L)"])
      (use fresh.append_ack_keeps [OF s] s L(2) in \<open>auto simp: resent_same fresh.in_pkt_iff split: option.split intro!: resent_all resent_split\<close>)
  show ?thesis
    unfolding conn_retransmit_protected_def Let_def
    by (rule keeps_on_ok, simp add: conn resent_def, rule fresh.frames_then [where B = B and p = p and L = L],
        use conn pkt_begin_len L(1) in \<open>force simp: fresh.in_pkt_iff\<close>, simp only: prod.case, intro keeps_if after)
      (auto simp: resent_def fresh.in_pkt_iff split: option.split)
qed

lemma retransmit_unprotected_keeps:
  assumes conn: "I B conn \<and> p \<notin> set (rtb_head (cn_rtb conn))" and L: "length dest = L" "B + L < 2 ^ 64"
  shows "keeps (conn_retransmit_unprotected conn dest p ent ts) (wrote L (resent p (re_pktlen ent) B))"
proof -
  let ?P = "wrote L (resent p (re_pktlen ent) B)"
  have pad: "keeps (if initial then rbind (ngtcp2_ppe_padding ppe) (\<lambda>(ppe, len). Ok (ppe, conn_call_send_frame c hdr (FR_PADDING len))) else Ok (ppe, c, None))
      (\<lambda>(ppe, c, rv). fresh.in_pkt B p L (c, ppe, called))" if "fresh.in_pkt B p L (c, ppe, called)" for c ppe called initial hdr
    using that fresh.call_frame [of B c p hdr]
    by (auto simp: fresh.in_pkt_iff keeps_def result_simps dest!: padding_len split: prod.splits) (metis fst_conv)+
  have all: "keeps (rbind (ngtcp2_rtb_entry_extend_expiry (ent\<lparr>re_frc := frc, re_hd := hdr\<rparr>) ts) (\<lambda>ent.
        rbind (if initial then rbind (ngtcp2_ppe_padding ppe) (\<lambda>(ppe, len). Ok (ppe, conn_call_send_frame c hdr (FR_PADDING len))) else Ok (ppe, c, None))
          (\<lambda>(ppe, conn, rv).
        case rv of Some e \<Rightarrow> refuses (conn, ent) e
        | None \<Rightarrow> on_ok (inc_tx_pkt_num conn, ent) (pkt_final (cn_hs_tx_ckm conn) ppe) (writes (inc_tx_pkt_num conn, ent))))) ?P"
    if "fresh.in_pkt B p L (c, ppe, called)" for c ppe called initial hdr frc
    by (rule keeps_bind [OF extend_expiry], rule keeps_bind [OF pad [OF that]])
      (auto simp: resent_def fresh.in_pkt_iff inc_tx_pkt_num_def fields split: option.split intro!: keeps_on_ok more_add fields pkt_final_len)
  show ?thesis
    unfolding conn_retransmit_unprotected_def Let_def
    by (rule keeps_on_ok, simp add: conn resent_def, rule fresh.frames_then [where B = B and p = p and L = L],
        use conn pkt_begin_len L(1) in \<open>force simp: fresh.in_pkt_iff\<close>, simp only: prod.case, intro keeps_if all resent_split [OF _ L(2)])
      (auto simp: resent_def fresh.in_pkt_iff split: option.split)
qed

lemma retransmit_entry_keeps:
  assumes conn: "I B conn \<and> p \<notin> set (rtb_head (cn_rtb conn))" and L: "length dest = L" "B + L < 2 ^ 64"
  shows "keeps (conn_retransmit_entry conn dest p ent ts) (wrote L (resent p (re_pktlen ent) B))"
  unfolding conn_retransmit_entry_def
  by (intro keeps_if retransmit_protected_keeps [OF assms] retransmit_unprotected_keeps [OF assms]) (simp_all add: resent_def conn)

lemma retransmit_return_keeps:
  assumes "I B conn" and "p \<notin> set (rtb_head (cn_rtb conn))" and "B + unat (re_pktlen ent) < 2 ^ 64"
  shows "keeps (retransmit_return conn p ent r) (\<lambda>x. snd x = r \<and> I (B + unat (re_pktlen ent)) (fst x))"
  unfolding retransmit_return_def
  by (rule keeps_bind [OF rtb_add [OF assms]]) (auto split: option.split if_splits intro!: keeps_assert more_add)

lemma retransmit_loop_keeps:
  assumes L: "length dest = L" "B + 2 * L < 2 ^ 64"
  shows "I B conn \<Longrightarrow> keeps (retransmit_loop n conn dest ts) (wrote L (\<lambda>n. I (B + 2 * n)))"
proof (induction n arbitrary: conn)
  case (Suc n)
  show ?case
  proof (cases "ngtcp2_rtb_top (cn_rtb conn)")
    case None
    then show ?thesis using Suc.prems by simp
  next
    case (Some p)
    let ?ent = "rtb_store (cn_rtb conn) p"
    have "keeps (ngtcp2_rtb_pop (cn_rtb conn)) (\<lambda>rtb. \<exists>B'. B = B' + unat (re_pktlen ?ent) \<and> I B' (conn\<lparr>cn_rtb := rtb\<rparr>) \<and> p \<notin> set (rtb_head rtb))"
      unfolding keeps_def using rtb_pop [OF Suc.prems Some] by blast
    moreover have "keeps (rbind (conn_retransmit_entry c dest p ?ent ts) (\<lambda>((conn, ent), r).
            case r of
              Inl e \<Rightarrow> if e = NGTCP2_ERR_NOBUF then retransmit_return conn p ent (Inl e) else refuses conn e
            | Inr pkt \<Rightarrow>
                if pkt = [] then retransmit_loop n conn dest ts
                else if re_frc ent = [] then writes conn pkt
                else retransmit_return conn p (ent\<lparr>re_pktlen := of_nat (length pkt)\<rparr>) (Inr pkt))) (wrote L (\<lambda>n. I (B + 2 * n)))"
      if c: "I B' c \<and> p \<notin> set (rtb_head (cn_rtb c))" and B: "B = B' + unat (re_pktlen ?ent)" for c B'
    proof (rule keeps_bind [OF retransmit_entry_keeps [OF c L(1), of ?ent ts]])
      show "B' + L < 2 ^ 64" using B L(2) by simp
      fix x
      assume x: "wrote L (resent p (re_pktlen ?ent) B') x"
      obtain c' ent' r where x_eq: "x = ((c', ent'), r)" by (metis surj_pair)
      show "keeps ((\<lambda>((conn, ent), r).
            case r of
              Inl e \<Rightarrow> if e = NGTCP2_ERR_NOBUF then retransmit_return conn p ent (Inl e) else refuses conn e
            | Inr pkt \<Rightarrow>
                if pkt = [] then retransmit_loop n conn dest ts
                else if re_frc ent = [] then writes conn pkt
                else retransmit_return conn p (ent\<lparr>re_pktlen := of_nat (length pkt)\<rparr>) (Inr pkt)) x) (wrote L (\<lambda>n. I (B + 2 * n)))"
      proof (cases r)
        case (Inl e)
        then have r: "I B' c'" "p \<notin> set (rtb_head (cn_rtb c'))" "re_pktlen ent' = re_pktlen ?ent" using x by (simp_all add: x_eq resent_def)
        have "keeps (retransmit_return c' p ent' (Inl e)) (wrote L (\<lambda>n. I (B + 2 * n)))"
          using L(2) B r(3) by (intro keeps_weaken [OF retransmit_return_keeps [OF r(1,2)]]) (auto simp: wrote_def intro: more_add)
        then show ?thesis using r(1) B by (auto simp: x_eq Inl intro: more_add)
      next
        case (Inr pkt)
        then have r: "I (B' + length pkt) c'" "p \<notin> set (rtb_head (cn_rtb c'))" "length pkt \<le> L" using x by (simp_all add: x_eq resent_def)
        have le: "B' + length pkt + unat (of_nat (length pkt) :: u64) \<le> B + 2 * length pkt" using small_len [of pkt] B by simp
        then have "keeps (retransmit_return c' p (ent'\<lparr>re_pktlen := of_nat (length pkt)\<rparr>) (Inr pkt)) (wrote L (\<lambda>n. I (B + 2 * n)))"
          using r(3) L(2) by (intro keeps_weaken [OF retransmit_return_keeps [OF r(1,2)]]) (use le more more_add B in \<open>auto simp: wrote_def split: sum.split\<close>)
        moreover have "keeps (retransmit_loop n c' dest ts) (wrote L (\<lambda>n. I (B + 2 * n)))" if "pkt = []"
          using Suc.IH [of c'] r(1) B that by (auto intro: more_add)
        ultimately show ?thesis using r B by (auto simp: x_eq Inr intro: more)
      qed
    qed
    ultimately show ?thesis using Some Suc.prems by (auto simp: Let_def intro!: keeps_bind [of "ngtcp2_rtb_pop (cn_rtb conn)"])
  qed
qed simp

lemma retransmit_keeps:
  assumes "I B conn" and "B + 2 * length dest < 2 ^ 64"
  shows "keeps (conn_retransmit conn dest ts) (wrote (length dest) (\<lambda>n. I (B + 2 * n)))"
  unfolding conn_retransmit_def by (rule retransmit_loop_keeps [OF refl assms(2,1)])

text \<open>Steps and writers.\<close>

abbreviation writes_ok :: "nat \<Rightarrow> nat \<Rightarrow> 'a ngtcp2_conn written \<Rightarrow> bool" where
  "writes_ok L B m \<equiv> keeps m (wrote L (\<lambda>n. I (B + n)))"

lemma keeps_pkt:
  assumes "I B conn" and "I B conn'" and "ppe_len ppe = L" and "\<And>pkt. length pkt \<le> L \<Longrightarrow> writes_ok L B (k pkt)"
  shows "writes_ok L B (on_ok conn (pkt_final ckm ppe) k)"
  by (rule keeps_on_ok) (use assms pkt_final_len in auto)

lemma keeps_begin:
  assumes "I B conn" and "\<And>ppe. ppe_len ppe = length dest \<Longrightarrow> writes_ok (length dest) B (k ppe)"
  shows "writes_ok (length dest) B (on_ok conn (pkt_begin dest ctx hdr) k)"
  by (rule keeps_on_ok) (use assms pkt_begin_len in auto)

lemma call_then:
  assumes "I B conn" and "\<And>c. I B c \<Longrightarrow> writes_ok L B (k c)"
  shows "writes_ok L B (then_write (Ok (conn_call_send_pkt conn hdr)) k)" and "writes_ok L B (then_write (Ok (conn_call_send_frame conn hdr fr)) k)"
  by (rule keeps_then_write [where J = "I B"]; use assms frame.call_pkt frame.call_frame in simp)+

lemma encode_and_call_keeps:
  assumes "I B conn" and "ppe_len ppe = L" and "\<And>c ppe fr'. I B c \<Longrightarrow> ppe_len ppe = L \<Longrightarrow> (\<And>ack. fr' = FR_ACK ack \<Longrightarrow> fr = FR_ACK ack) \<Longrightarrow> writes_ok L B (k c ppe fr')"
  shows "writes_ok L B (encode_and_call hdr conn ppe fr k)"
  unfolding encode_and_call_def
proof (rule keeps_on_ok)
  fix x
  assume x: "ngtcp2_ppe_encode_frame ppe fr = Ok x"
  obtain ppe' fr' where x': "x = (ppe', fr')" by fastforce
  have "fr' = FR_ACK ack \<Longrightarrow> fr = FR_ACK ack" for ack using x encode_frame_ack by (simp add: x')
  then have "writes_ok L B (then_write (Ok (conn_call_send_frame conn hdr fr')) (\<lambda>conn. k conn ppe' fr'))"
    using encode_frame_len x assms(2) by (intro call_then(2) [OF assms(1)] assms(3)) (auto simp: x')
  then show "writes_ok L B ((\<lambda>(ppe, fr). then_write (Ok (conn_call_send_frame conn hdr fr)) (\<lambda>conn. k conn ppe fr)) x)" by (simp add: x')
qed (simp add: assms(1))

lemma add_ack_then:
  assumes "I B conn" and "ack_valid ack" and "\<And>c. I B c \<Longrightarrow> writes_ok L B (k c)"
  shows "writes_ok L B (rbind (conn_add_ack conn n ack u) k)"
  by (rule keeps_bind [OF frame.add_ack [OF assms(1,2)]]) (rule assms(3))

lemma track_new:
  assumes "I B conn" and "length pkt \<le> L" and "B + L < 2 ^ 64"
  shows "writes_ok L B (case conn_rtb_entry_new conn hdr frc ts deadline pkt flags of
     (conn, Err e) \<Rightarrow> refuses conn e | (conn, Fault) \<Rightarrow> Fault
   | (conn, Ok ent) \<Rightarrow> then_write (conn_track (conn\<lparr>cn_frq := frq conn\<rparr>) [] (ent\<lparr>re_frc := frc' ent\<rparr>)) (\<lambda>conn. writes (inc_tx_pkt_num conn) pkt))"
proof -
  obtain ent where ent: "conn_rtb_entry_new conn hdr frc ts deadline pkt flags = (conn, Ok ent)" "re_pktlen ent = of_nat (length pkt)"
    using entry_new [OF assms(1)] by blast
  have "keeps (conn_track (conn\<lparr>cn_frq := frq conn\<rparr>) [] (ent\<lparr>re_frc := frc' ent\<rparr>)) (\<lambda>x. snd x = None \<and> I (B + length pkt) (fst x))"
    by (rule keeps_weaken [OF track_pkt [OF fields(2) [OF assms(1)] assms(2,3)]]) (simp_all add: ent(2))
  then show ?thesis unfolding ent(1) prod.case result.case then_write_def by (rule keeps_bind) (auto simp: assms(2) inc)
qed

lemma track_same:
  assumes "I B conn" and "length pkt \<le> L" and "B + L < 2 ^ 64"
  shows "writes_ok L B (case conn_rtb_entry_new conn hdr frc ts deadline pkt flags of
     (conn, Err e) \<Rightarrow> refuses conn e | (conn, Fault) \<Rightarrow> Fault
   | (conn, Ok ent) \<Rightarrow> then_write (conn_track conn [] ent) (\<lambda>conn. writes (inc_tx_pkt_num conn) pkt))"
proof -
  have e: "conn\<lparr>cn_frq := cn_frq conn\<rparr> = conn" "ent\<lparr>re_frc := re_frc ent\<rparr> = ent" for conn :: "'a ngtcp2_conn" and ent by simp_all
  show ?thesis using track_new [OF assms, where frq = cn_frq and frc' = re_frc, unfolded e] .
qed

section \<open>Handshake packets\<close>

lemma handshake_pkt_done_keeps:
  assumes "I B conn" and "ppe_len ppe = L" and "B + L < 2 ^ 64"
  shows "writes_ok L B (handshake_pkt_done hdr ts conn ppe frc)"
  unfolding handshake_pkt_done_def
proof (rule keeps_pkt [OF assms(1,1,2)])
  fix pkt :: bytes
  assume pkt: "length pkt \<le> L"
  note track_same [OF assms(1) pkt assms(3)]
  then show "writes_ok L B (if frc = [] then writes (inc_tx_pkt_num conn) pkt
     else case conn_rtb_entry_new conn hdr frc ts (ts + NGTCP2_PKT_DEADLINE_PERIOD) pkt NGTCP2_RTB_FLAG_UNPROTECTED of
         (conn, Err e) \<Rightarrow> refuses conn e
       | (conn, Fault) \<Rightarrow> Fault
       | (conn, Ok ent) \<Rightarrow> then_write (conn_track conn [] ent) (\<lambda>conn. writes (inc_tx_pkt_num conn) pkt))"
    using pkt inc [OF assms(1)] by (auto intro: more_add)
qed

lemma handshake_pkt_rest_keeps:
  assumes "I B conn" and "ppe_len ppe = L" and "B + L < 2 ^ 64"
  shows "writes_ok L B (handshake_pkt_rest hdr ts conn ppe frc)"
proof -
  have pad: "writes_ok L B (rbind (ngtcp2_ppe_padding ppe) (\<lambda>(ppe, len).
        then_write (Ok (if len > 0 then conn_call_send_frame conn hdr (FR_PADDING len) else (conn, None))) (\<lambda>conn.
        handshake_pkt_done hdr ts conn ppe frc)))"
    by (rule keeps_bind [where P = "\<lambda>x. ppe_len (fst x) = L"])
      (use assms padding_len frame.call_frame in \<open>auto simp: keeps_def [of "ngtcp2_ppe_padding ppe"]
         intro!: keeps_then_write [where J = "I B"] handshake_pkt_done_keeps split: if_split\<close>)
  show ?thesis
    unfolding handshake_pkt_rest_def
    using pad assms by (auto simp: frame.malloc [OF assms(1)] intro!: encode_and_call_keeps handshake_pkt_done_keeps)
qed

lemma handshake_pkt_data_keeps:
  assumes "I B conn" and "ppe_len ppe = L" and "B + L < 2 ^ 64"
  shows "writes_ok L B (handshake_pkt_data hdr ts conn ppe)"
  unfolding handshake_pkt_data_def Let_def
  by (intro keeps_if)
    (use assms in \<open>auto simp: frame.malloc [OF assms(1)] tx_only intro!: encode_and_call_keeps handshake_pkt_rest_keeps strm\<close>)

lemma create_ack_then:
  assumes "I B conn" and "\<And>c e. I B c \<Longrightarrow> writes_ok L B (k (c, Inl e))" and "\<And>c. I B c \<Longrightarrow> writes_ok L B (k (c, Inr None))"
    and "\<And>c ack. I B c \<Longrightarrow> ack_valid ack \<Longrightarrow> writes_ok L B (k (c, Inr (Some ack)))"
  shows "writes_ok L B (rbind (conn_create_ack_frame conn ts unprotected) k)"
proof (rule keeps_bind [OF frame.create_ack [OF assms(1)]])
  fix x :: "'a ngtcp2_conn \<times> (ngtcp2_lib_error + ngtcp2_ack option)"
  assume x: "I B (fst x) \<and> (\<forall>ack. snd x = Inr (Some ack) \<longrightarrow> ack_valid ack)"
  obtain c r where "x = (c, r)" by fastforce
  then show "writes_ok L B (k x)"
    using x assms(2-) by (cases r; cases "projr r") auto
qed

lemma handshake_pkt_keeps:
  assumes "I B conn" and L: "B + length dest < 2 ^ 64"
  shows "writes_ok (length dest) B (conn_write_handshake_pkt conn dest type ts)"
proof -
  have room: "writes_ok (length dest) B (if ngtcp2_ppe_left ppe < NGTCP2_STREAM_OVERHEAD + 1
          then on_ok (inc_tx_pkt_num c) (pkt_final (cn_hs_tx_ckm c) ppe) (writes (inc_tx_pkt_num c))
          else handshake_pkt_data hdr ts c ppe)" if "I B c" "ppe_len ppe = length dest" for c ppe hdr
    using that inc [OF that(1)] L by (auto intro!: keeps_pkt handshake_pkt_data_keeps more_add)
  show ?thesis
    unfolding conn_write_handshake_pkt_def Let_def
    by (rule keeps_begin [OF assms(1)], rule call_then(1) [OF assms(1)], rule keeps_if, rule create_ack_then)
      ((simp only: prod.case sum.case option.case)?, (intro room handshake_pkt_data_keeps encode_and_call_keeps add_ack_then frame.commit_ack)?;
       (assumption | rule L | simp))+
qed

lemma handshake_ack_pkt_keeps:
  assumes "I B conn" and L: "B + length dest < 2 ^ 64"
  shows "writes_ok (length dest) B (conn_write_handshake_ack_pkt conn dest type ts)"
  unfolding conn_write_handshake_ack_pkt_def Let_def
  by (rule keeps_if, simp add: assms(1), rule create_ack_then)
    (auto simp: assms frame.commit_ack inc intro!: keeps_begin call_then(1) encode_and_call_keeps add_ack_then keeps_pkt more_add)

lemma set_tx_buf_keeps: "I B conn \<Longrightarrow> I B (set_tx_buf conn payload)"
  by (simp add: set_tx_buf_def strm tx_only)

lemma client_initial_keeps:
  assumes "I B conn" and L: "B + length dest < 2 ^ 64"
  shows "writes_ok (length dest) B (conn_write_client_initial conn dest ts)"
proof (cases "cb_send_client_initial (cn_callbacks conn)")
  case (Some f)
  have "I B (conn\<lparr>cn_app := fst (f b (cn_app conn))\<rparr>)" for b by (rule hs_calls(1) [OF assms(1) Some])
  then show ?thesis
    by (auto simp: conn_write_client_initial_def Some Let_def split: prod.split option.split
        intro!: handshake_pkt_keeps [OF _ L] set_tx_buf_keeps fields(1)) (metis fst_conv)+
qed (simp add: conn_write_client_initial_def)

lemma client_handshake_keeps:
  assumes "I B conn" and L: "B + length dest < 2 ^ 64"
  shows "writes_ok (length dest) B (conn_write_client_handshake conn dest ts)"
proof (cases "cb_send_client_handshake (cn_callbacks conn)")
  case (Some f)
  have "I B (conn\<lparr>cn_app := fst (f (cn_app conn))\<rparr>)" by (rule hs_calls(2) [OF assms(1) Some])
  then show ?thesis using assms(1)
    by (auto simp: conn_write_client_handshake_def Some Let_def split: prod.split option.split
        intro!: handshake_pkt_keeps [OF _ L] handshake_ack_pkt_keeps [OF _ L] set_tx_buf_keeps)
qed (use assms in \<open>auto simp: conn_write_client_handshake_def intro!: handshake_pkt_keeps [OF _ L]\<close>)

lemma server_handshake_keeps:
  assumes "I B conn" and L: "B + length dest < 2 ^ 64"
  shows "writes_ok (length dest) B (conn_write_server_handshake conn dest initial ts)"
proof -
  have initial: "I B (c\<lparr>cn_last_tx_pkt_num := n, cn_rtb := cn_rtb c\<lparr>rtb_largest_acked := n\<rparr>\<rparr>)" if "I B c" for c n
    using fields(6) [OF fields(1) [OF that, of n], of n] by simp
  show ?thesis
  proof (cases "cb_send_server_handshake (cn_callbacks conn)")
    case (Some f)
    have "I B (conn\<lparr>cn_app := fst (f b (cn_app conn))\<rparr>)" for b by (rule hs_calls(3) [OF assms(1) Some])
    then have "I B (conn\<lparr>cn_app := a\<rparr>)" if "f b (cn_app conn) = (a, r)" for a b r using that by (metis fst_conv)
    then show ?thesis using assms(1)
      by (auto simp: conn_write_server_handshake_def Some Let_def split: prod.split option.split
          intro!: handshake_pkt_keeps [OF _ L] handshake_ack_pkt_keeps [OF _ L] set_tx_buf_keeps initial)
  qed (use assms in \<open>auto simp: conn_write_server_handshake_def Let_def intro!: handshake_pkt_keeps [OF _ L] initial\<close>)
qed

section \<open>Protected packets\<close>

lemma frq_push: "I B conn \<Longrightarrow> frq_push conn fr = (conn\<lparr>cn_frq := fr # cn_frq conn\<rparr>, None)"
  using frame.mem [of B conn] by (cases conn) (simp add: frq_push_def)

lemma flush_fc_strms_keeps: "I B conn \<Longrightarrow> keeps (flush_fc_strms conn sids) (steps (I B))"
  by (induction conn sids rule: flush_fc_strms.induct) (auto simp: frq_push fields limits then_ok_def)

lemma flush_max_data_keeps: "I B conn \<Longrightarrow> keeps (flush_max_data conn ackfr) (steps (I B))"
  using limits(2) [OF fields(2)] by (simp add: flush_max_data_def frq_push then_ok_def)

lemma max_stream_id_keeps:
  assumes s: "frame.in_pkt B L (fst s)" and put: "\<And>c. I B c \<Longrightarrow> I B (put (unsent c) c)"
    and k: "\<And>s. frame.in_pkt B L (fst s) \<Longrightarrow> writes_ok L B (k s)"
  shows "writes_ok L B (write_max_stream_id hdr unsent sent_max put s k)"
proof -
  obtain conn ppe called gone rest rv where s': "s = ((conn, ppe, called), gone, rest, rv)" by (metis surj_pair)
  have J: "I B conn" "frame.in_pkt B L (put (unsent conn) conn, ppe, called)" using s put by (simp_all add: s' frame.in_pkt_iff)
  show ?thesis
    unfolding write_max_stream_id_def s' prod.case
    by (intro keeps_if, simp only: frame.malloc [OF J(1)], rule keeps_bind [OF frame.write_frame [OF J(2)]])
      (use s k in \<open>auto simp: s' split: option.split intro!: keeps_assert\<close>)
qed

lemma write_pkt_done_keeps:
  assumes "frame.in_pkt B L (fst s)" and "B + L < 2 ^ 64"
  shows "writes_ok L B (conn_write_pkt_done hdr ts has_ack s)"
proof -
  obtain conn ppe called gone rest rv where s: "s = ((conn, ppe, called), gone, rest, rv)" by (metis surj_pair)
  have J: "I B (conn\<lparr>cn_frq := gone @ rest\<rparr>)" "ppe_len ppe = L" using assms by (simp_all add: s frame.in_pkt_iff fields)
  have track: "length pkt \<le> L \<Longrightarrow> writes_ok L B (case conn_rtb_entry_new (conn\<lparr>cn_frq := gone @ rest\<rparr>) hdr [] ts (ts + NGTCP2_PKT_DEADLINE_PERIOD) pkt NGTCP2_RTB_FLAG_NONE of
              (conn, Err e) \<Rightarrow> refuses conn e
            | (conn, Fault) \<Rightarrow> Fault
            | (conn, Ok ent) \<Rightarrow>
                then_write (conn_track (conn\<lparr>cn_frq := rest\<rparr>) [] (ent\<lparr>re_frc := gone\<rparr>)) (\<lambda>conn. writes (inc_tx_pkt_num conn) pkt))" for pkt
    using track_new [OF J(1) _ assms(2), where frq = "\<lambda>_. rest" and frc' = "\<lambda>_. gone"] .
  show ?thesis
    unfolding conn_write_pkt_done_def s prod.case Let_def
    by (intro keeps_if keeps_pkt [OF J(1) J(1) J(2)] track) (use J(1) inc [OF J(1)] in \<open>auto split: option.split intro: more_add\<close>)
qed

lemma write_pkt_frames_keeps:
  assumes "frame.in_pkt B L s" and "B + L < 2 ^ 64"
  shows "writes_ok L B (conn_write_pkt_frames hdr ts has_ack s)"
  unfolding conn_write_pkt_frames_def
  by (rule frame.frames_then [OF assms(1)])
    (auto simp: limits intro!: keeps_assert max_stream_id_keeps write_pkt_done_keeps [OF _ assms(2)])

lemma write_pkt_keeps:
  assumes "I B conn" and L: "B + length dest < 2 ^ 64"
  shows "writes_ok (length dest) B (conn_write_pkt conn dest ts)"
proof -
  let ?k = "\<lambda>ackfr conn. if ackfr = None \<and> cn_unsent_max_remote_stream_id_bidi conn = cn_max_remote_stream_id_bidi conn \<and>
            cn_unsent_max_remote_stream_id_uni conn = cn_max_remote_stream_id_uni conn \<and> cn_frq conn = []
         then writes conn []
         else
           let hdr = conn_pkt_hd conn NGTCP2_PKT_FLAG_NONE (conn_select_pkt_type conn (cn_last_tx_pkt_num conn + 1)) (cn_conn_id conn) in
           on_ok conn (pkt_begin dest (protected_ctx conn (cn_tx_ckm conn)) hdr) (\<lambda>ppe.
           case ackfr of
             None \<Rightarrow> conn_write_pkt_frames hdr ts False (conn, ppe, False)
           | Some ack \<Rightarrow>
               rbind (conn_ppe_write_frame hdr (conn, ppe, False) (FR_ACK ack)) (\<lambda>((conn, ppe, called), fr, rv).
               case rv of Some e \<Rightarrow> refuses conn e
               | None \<Rightarrow>
                   rbind (conn_add_ack (conn_commit_tx_ack conn) (hd_pkt_num hdr) ack 0) (\<lambda>conn.
                   conn_write_pkt_frames hdr ts True (conn, ppe, called))))"
  have frames: "writes_ok (length dest) B (conn_write_pkt_frames hdr ts has_ack (c, ppe, called))" if "I B c" "ppe_len ppe = length dest" for hdr has_ack c ppe called
    by (rule write_pkt_frames_keeps [OF _ L]) (simp add: that frame.in_pkt_iff)
  have pkt: "writes_ok (length dest) B (?k ackfr c)" if c: "I B c" and ack: "\<And>ack. ackfr = Some ack \<Longrightarrow> ack_valid ack" for ackfr c
  proof (unfold Let_def, intro keeps_if keeps_begin [OF c])
    fix ppe
    assume "ppe_len ppe = length dest"
    then have s: "frame.in_pkt B (length dest) (c, ppe, False)" using c by (simp add: frame.in_pkt_iff)
    show "writes_ok (length dest) B (case ackfr of None \<Rightarrow> conn_write_pkt_frames (hdr c) ts False (c, ppe, False)
           | Some ack \<Rightarrow>
               rbind (conn_ppe_write_frame (hdr c) (c, ppe, False) (FR_ACK ack)) (\<lambda>((conn, ppe, called), fr, rv).
               case rv of Some e \<Rightarrow> refuses conn e
               | None \<Rightarrow>
                   rbind (conn_add_ack (conn_commit_tx_ack conn) (hd_pkt_num (hdr c)) ack 0) (\<lambda>conn.
                   conn_write_pkt_frames (hdr c) ts True (conn, ppe, called))))" for hdr
      using s ack by (auto simp: frame.in_pkt_iff frame.commit_ack split: option.split intro!: frames keeps_bind [OF frame.write_frame [OF s]] add_ack_then)
  qed (use c in simp)
  have flush: "writes_ok (length dest) B (then_write (flush_max_data c (ackfr \<noteq> None)) (\<lambda>conn. then_write (flush_fc_strms conn (cn_fc_strms conn)) (?k ackfr)))"
    if "I B c" "\<And>ack. ackfr = Some ack \<Longrightarrow> ack_valid ack" for ackfr c
    by (rule keeps_then_write [OF flush_max_data_keeps [OF that(1)]], simp, rule keeps_then_write [OF flush_fc_strms_keeps], assumption, simp,
        rule pkt [OF _ that(2)])
  show ?thesis
    unfolding conn_write_pkt_def
    by (rule keeps_bind [where P = "\<lambda>x. I B (fst x) \<and> (\<forall>ack. snd x = Inr (Some ack) \<longrightarrow> ack_valid ack)"])
      (use assms(1) frame.create_ack flush in \<open>auto split: sum.split\<close>)
qed

lemma single_frame_keeps:
  assumes "I B conn" and "\<And>ack. fr = FR_ACK ack \<Longrightarrow> ack_valid ack"
  shows "writes_ok (length dest) B (conn_write_single_frame_pkt conn dest fr)"
  unfolding conn_write_single_frame_pkt_def Let_def
  by (rule keeps_begin [OF assms(1)], rule call_then(1) [OF assms(1)], rule encode_and_call_keeps)
    (use assms(2) in \<open>auto simp: inc split: ngtcp2_frame.split intro!: keeps_pkt add_ack_then more_add\<close>)

lemma protected_ack_pkt_keeps:
  assumes "I B conn"
  shows "writes_ok (length dest) B (conn_write_protected_ack_pkt conn dest ts)"
  unfolding conn_write_protected_ack_pkt_def
  by (rule keeps_if, simp add: assms(1), rule create_ack_then [OF assms(1)])
    (auto simp: wrote_def frame.commit_ack intro!: keeps_bind [OF single_frame_keeps [where B = B and dest = dest]] split: sum.splits)

section \<open>Entry points\<close>

lemma early_loop_keeps:
  "I B (conn\<lparr>cn_early_rtb := ents\<rparr>) \<Longrightarrow> B < 2 ^ 64 \<Longrightarrow> keeps (early_rtb_loop conn ents) (steps (I B))"
proof (induction ents arbitrary: conn)
  case (Cons ent ents)
  have "keeps (conn_track conn [] ent') (\<lambda>x. snd x = None \<and> I B ((fst x)\<lparr>cn_early_rtb := ents\<rparr>))" if "re_pktlen ent' = re_pktlen ent" for ent'
    unfolding conn_track_def
    by (rule keeps_bind [OF early_move [OF Cons.prems(1) _ that Cons.prems(2)]])
      (use new_addr_fresh [of "rtb_head (cn_rtb conn)"] in \<open>auto intro!: keeps_assert split: prod.split\<close>)
  then show ?case
    unfolding early_rtb_loop.simps Let_def by (rule keeps_bind) (use Cons.IH Cons.prems(2) in auto)
qed simp

lemma client_handshake_finish_keeps:
  assumes "I B conn" and L: "B + 2 * length dest < 2 ^ 64"
  shows "keeps (client_handshake_finish conn dest ts) (wrote (length dest) (\<lambda>n. I (B + 2 * n)))"
proof -
  have c: "I B (conn\<lparr>cn_state := NGTCP2_CS_POST_HANDSHAKE\<rparr>)" by (rule fields(4) [OF assms(1)])
  have "keeps (conn_process_early_rtb (conn\<lparr>cn_state := NGTCP2_CS_POST_HANDSHAKE\<rparr>)) (steps (I B))"
    unfolding conn_process_early_rtb_def using L by (intro early_loop_keeps) (use c in simp_all)
  then show ?thesis
    unfolding client_handshake_finish_def Let_def
    by (intro keeps_if keeps_then_write [where J = "I B"]) (use c retransmit_keeps [OF _ L] in auto)
qed

lemma write_pkt_entry_keeps:
  assumes "I B conn" and L: "B + 2 * length dest < 2 ^ 64"
  shows "keeps (ngtcp2_conn_write_pkt conn dest ts) (wrote (length dest) (\<lambda>n. I (B + 2 * n)))"
proof -
  let ?P = "wrote (length dest) (\<lambda>n. I (B + 2 * n))"
  have L1: "B + length dest < 2 ^ 64" using L by simp
  have double: "keeps m ?P" if "writes_ok (length dest) B m" for m :: "'a ngtcp2_conn written"
    by (rule keeps_weaken [OF that], erule wrote_weaken) (auto intro: more)
  show ?thesis
    unfolding ngtcp2_conn_write_pkt_def
    using assms(1)
    by (auto simp: fields split: ngtcp2_conn_state.split
        intro!: retransmit_keeps [OF _ L] keeps_enter_state
        intro!: double [OF client_initial_keeps [OF _ L1]] double [OF client_handshake_keeps [OF _ L1]] double [OF server_handshake_keeps [OF _ L1]]
          double [OF write_pkt_keeps [OF _ L1]] keeps_if_zero client_handshake_finish_keeps [OF _ L])
qed

lemma write_ack_pkt_entry_keeps:
  assumes "I B conn" and L: "B + 2 * length dest < 2 ^ 64"
  shows "keeps (ngtcp2_conn_write_ack_pkt conn dest ts) (wrote (length dest) (\<lambda>n. I (B + 2 * n)))"
proof -
  let ?P = "wrote (length dest) (\<lambda>n. I (B + 2 * n))"
  have L1: "B + length dest < 2 ^ 64" using L by simp
  have double: "keeps m ?P" if "writes_ok (length dest) B m" for m :: "'a ngtcp2_conn written"
    by (rule keeps_weaken [OF that], erule wrote_weaken) (auto intro: more)
  show ?thesis
    unfolding ngtcp2_conn_write_ack_pkt_def
    using assms(1)
    by (auto intro!: keeps_if_zero [OF retransmit_keeps [OF _ L]] intro!: double [OF handshake_ack_pkt_keeps [OF _ L1]] double [OF protected_ack_pkt_keeps])
qed

lemma write_close_keeps:
  assumes "I B conn"
  shows "writes_ok (length dest) B (ngtcp2_conn_write_connection_close conn dest e)"
    and "writes_ok (length dest) B (ngtcp2_conn_write_application_close conn dest e)"
  unfolding ngtcp2_conn_write_connection_close_def ngtcp2_conn_write_application_close_def
  by (intro keeps_if; (rule keeps_bind [OF single_frame_keeps [OF assms, where dest = dest]])?; auto simp: assms fields split: sum.split list.split)
    (intro keeps_if keeps_enter_state single_frame_keeps [OF assms]; simp add: assms fields)

lemma stream_pkt_track_keeps:
  assumes "I B conn" and "length pkt \<le> L" and "B + L < 2 ^ 64" and "re_pktlen ent = of_nat (length pkt)"
  shows "keeps (stream_pkt_track conn type ent) (\<lambda>x. snd x = None \<and> I (B + length pkt) (fst x))"
proof (cases "type = NGTCP2_PKT_0RTT_PROTECTED")
  case True
  have "unat (of_nat (length pkt) :: u64) \<le> length pkt" by (rule small_len)
  then show ?thesis
    using True early_add [OF assms(1), of "ent\<lparr>re_hd := h\<rparr>" for h] assms(4) by (auto simp: stream_pkt_track_def intro!: more [OF early_add [OF assms(1)]])
next
  case False
  then show ?thesis by (simp add: stream_pkt_track_def) (rule keeps_weaken [OF track_pkt [OF assms]], simp)
qed

lemma stream_pkt_sent_keeps: "I B conn \<Longrightarrow> I B (stream_pkt_sent conn sid n fin)"
  by (auto simp: stream_pkt_sent_def Let_def intro!: strm tx_only inc fields)

lemma write_stream_pkt_keeps:
  assumes "I B conn" and L: "B + ppe_len ppe < 2 ^ 64"
  shows "keeps (write_stream_pkt conn hdr type ckm ppe sid fin data n ts) (wrote (ppe_len ppe) (\<lambda>n x. I (B + n) (fst x)))"
proof -
  let ?P = "wrote (ppe_len ppe) (\<lambda>n x. I (B + n) (fst x)) :: ('a ngtcp2_conn \<times> nat option) \<times> (ngtcp2_lib_error + bytes) \<Rightarrow> bool"
  have last: "keeps (case r of Ok ent \<Rightarrow> rbind (stream_pkt_track c' type ent) (\<lambda>(conn, rv).
                     case rv of None \<Rightarrow> writes (stream_pkt_sent conn sid n fin, Some (unat n)) pkt | Some e \<Rightarrow> refuses (conn, None) e)
                   | Err e \<Rightarrow> refuses (c', None) e | Fault \<Rightarrow> Fault) ?P"
    if c: "I B c" "length pkt \<le> ppe_len ppe" and r: "conn_rtb_entry_new c hdr [fr] ts (ts + NGTCP2_PKT_DEADLINE_PERIOD) pkt NGTCP2_RTB_FLAG_NONE = (c', r)"
    for c fr pkt c' r
  proof -
    obtain ent where ent: "c' = c" "r = Ok ent" "re_pktlen ent = of_nat (length pkt)"
      using entry_new [OF c(1)] r by (metis prod.inject)
    show ?thesis
      unfolding ent(1,2) result.case
      by (rule keeps_bind [OF stream_pkt_track_keeps [OF c(1,2) L ent(3)]]) (use c(2) in \<open>auto simp: stream_pkt_sent_keeps\<close>)
  qed
  obtain c1 r1 where c1: "conn_call_send_pkt conn hdr = (c1, r1)" by fastforce
  have I1: "I B c1" using frame.call_pkt [OF assms(1), of hdr] by (simp add: c1)
  have "I B c" if "conn_call_send_frame c1 hdr fr = (c, r)" for c fr r using frame.call_frame [OF I1, of hdr fr] that by simp
  then show ?thesis
    unfolding write_stream_pkt_def c1 prod.case frame.malloc [OF I1]
    using I1 by (cases r1) (auto intro!: keeps_on_ok last split: prod.split option.split dest!: encode_frame_len pkt_final_len)
qed

lemma write_stream_keeps:
  assumes "I B conn" and L: "B + length dest < 2 ^ 64"
  shows "keeps (ngtcp2_conn_write_stream conn dest sid fin data ts) (wrote (length dest) (\<lambda>n x. I (B + n) (fst x)))"
proof -
  have pkt: "keeps (write_stream_pkt conn hdr type ckm ppe sid fin data n ts) (wrote (length dest) (\<lambda>n x. I (B + n) (fst x)))"
    if "pkt_begin dest ctx hdr' = Ok ppe" for hdr type ckm ppe fin data n ctx hdr'
    using write_stream_pkt_keeps [OF assms(1), of ppe] L pkt_begin_len [OF that] by simp
  show ?thesis
    unfolding ngtcp2_conn_write_stream_def Let_def
    by (intro keeps_if, simp add: assms(1), rule keeps_bind [where P = "\<lambda>_. True"], simp add: keeps_def)
      (auto simp: assms(1) split: option.split sum.split intro!: keeps_on_ok intro: pkt)
qed

end


section \<open>The invariant of the receiving side\<close>

text \<open>
  The windows that the application extended can be sent: the limits are variable-length integers not below those sent
  before, and few streams are allowed.
\<close>

definition windows_ok :: "'a ngtcp2_conn \<Rightarrow> bool" where
  "windows_ok conn \<longleftrightarrow>
     (\<forall>sid. live conn sid \<longrightarrow> sm_max_rx_offset (cn_strm conn sid) \<le> sm_unsent_max_rx_offset (cn_strm conn sid) \<and>
        sm_unsent_max_rx_offset (cn_strm conn sid) \<le> NGTCP2_MAX_VARINT) \<and>
     small_id (cn_unsent_max_remote_stream_id_bidi conn) \<and> small_id (cn_unsent_max_remote_stream_id_uni conn)"

text \<open>The bytes in flight, and those of the 0-RTT packets, which are kept apart.\<close>

definition unacked :: "'a ngtcp2_conn \<Rightarrow> nat" where
  "unacked conn = unat (rtb_bytes_in_flight (cn_rtb conn)) + (\<Sum>ent \<leftarrow> cn_early_rtb conn. unat (re_pktlen ent))"

definition tx_inv :: "rx_keys \<Rightarrow> ('a \<Rightarrow> u64 \<Rightarrow> bytes) \<Rightarrow> (u64 \<Rightarrow> u64 \<Rightarrow> u8) \<Rightarrow> nat \<Rightarrow> 'a ngtcp2_conn \<Rightarrow> bool" where
  "tx_inv K got S B conn \<longleftrightarrow> rx_inv K got S conn \<and> windows_ok conn \<and> unacked conn \<le> B"

lemma rx_inv_tx [simp]:
  "rx_inv K got S (conn\<lparr>cn_last_tx_pkt_num := n\<rparr>) = rx_inv K got S conn" "rx_inv K got S (conn\<lparr>cn_tx_offset := n\<rparr>) = rx_inv K got S conn"
  "rx_inv K got S (conn\<lparr>cn_early_rtb := es\<rparr>) = rx_inv K got S conn"
  by (simp_all add: rx_inv_defs cong: if_cong)

lemma windows_frame [simp]:
  "windows_ok (conn\<lparr>cn_last_tx_pkt_num := n\<rparr>) = windows_ok conn" "windows_ok (conn\<lparr>cn_tx_offset := n\<rparr>) = windows_ok conn"
  "windows_ok (conn\<lparr>cn_early_rtb := es\<rparr>) = windows_ok conn" "windows_ok (conn\<lparr>cn_frq := frq\<rparr>) = windows_ok conn"
  "windows_ok (conn\<lparr>cn_fc_strms := fcs\<rparr>) = windows_ok conn" "windows_ok (conn\<lparr>cn_state := st\<rparr>) = windows_ok conn"
  "windows_ok (conn\<lparr>cn_rtb := rtb\<rparr>) = windows_ok conn" "windows_ok (conn\<lparr>cn_acktr := acktr\<rparr>) = windows_ok conn"
  "windows_ok (conn\<lparr>cn_app := a\<rparr>) = windows_ok conn" "windows_ok (conn\<lparr>cn_next_ack_expiry := n\<rparr>) = windows_ok conn"
  "windows_ok (conn\<lparr>cn_immediate_ack := b\<rparr>) = windows_ok conn" "windows_ok (conn\<lparr>cn_max_rx_offset := n\<rparr>) = windows_ok conn"
  "windows_ok (conn\<lparr>cn_max_remote_stream_id_bidi := n\<rparr>) = windows_ok conn" "windows_ok (conn\<lparr>cn_max_remote_stream_id_uni := n\<rparr>) = windows_ok conn"
  by (simp_all add: windows_ok_def live_def)

lemma unacked_frame [simp]:
  "unacked (conn\<lparr>cn_last_tx_pkt_num := n\<rparr>) = unacked conn" "unacked (conn\<lparr>cn_tx_offset := n\<rparr>) = unacked conn"
  "unacked (conn\<lparr>cn_frq := frq\<rparr>) = unacked conn" "unacked (conn\<lparr>cn_fc_strms := fcs\<rparr>) = unacked conn"
  "unacked (conn\<lparr>cn_state := st\<rparr>) = unacked conn" "unacked (conn\<lparr>cn_acktr := acktr\<rparr>) = unacked conn"
  "unacked (conn\<lparr>cn_app := a\<rparr>) = unacked conn" "unacked (conn\<lparr>cn_next_ack_expiry := n\<rparr>) = unacked conn"
  "unacked (conn\<lparr>cn_immediate_ack := b\<rparr>) = unacked conn" "unacked (conn\<lparr>cn_max_rx_offset := n\<rparr>) = unacked conn"
  "unacked (conn\<lparr>cn_max_remote_stream_id_bidi := n\<rparr>) = unacked conn" "unacked (conn\<lparr>cn_max_remote_stream_id_uni := n\<rparr>) = unacked conn"
  "unacked (upd_strm conn sid f) = unacked conn"
  by (simp_all add: unacked_def upd_strm_def)

lemma rx_inv_acktr_rtb:
  assumes inv: "rx_inv K got S conn"
  shows "acktr_wf acktr \<Longrightarrow> rx_inv K got S (conn\<lparr>cn_acktr := acktr\<rparr>)" and "rtb_wf rtb \<Longrightarrow> rx_inv K got S (conn\<lparr>cn_rtb := rtb\<rparr>)"
proof -
  have "live (conn\<lparr>cn_rtb := rtb\<rparr>) = live conn" "fresh (conn\<lparr>cn_rtb := rtb\<rparr>) = fresh conn" "ids_ok (conn\<lparr>cn_rtb := rtb\<rparr>) = ids_ok conn"
    "fresh (conn\<lparr>cn_acktr := acktr\<rparr>) = fresh conn" "ids_ok (conn\<lparr>cn_acktr := acktr\<rparr>) = ids_ok conn"
    by (simp_all add: fun_eq_iff live_def fresh_def ids_ok_def remote_idtr_def conn_local_stream_def)
  then show "acktr_wf acktr \<Longrightarrow> rx_inv K got S (conn\<lparr>cn_acktr := acktr\<rparr>)" "rtb_wf rtb \<Longrightarrow> rx_inv K got S (conn\<lparr>cn_rtb := rtb\<rparr>)"
    using inv by (simp_all add: rx_inv_def)
qed

lemma quiet_call:
  assumes "tx_inv K got S B conn" and "\<And>f. cb = Some f \<Longrightarrow> quiet got f"
  shows "tx_inv K got S B (fst (call_cb cb conn))"
proof (cases cb)
  case (Some f)
  have "got (fst (f (cn_app conn))) = got (cn_app conn)" using assms(2) [OF Some] by (simp add: quiet_def)
  then show ?thesis using assms(1) rx_inv_app [of K got S conn "fst (f (cn_app conn))"] by (auto simp: call_cb_def Some tx_inv_def split: prod.split)
qed (simp add: call_cb_def assms(1))

lemma tx_callbacks:
  assumes "tx_inv K got S B conn"
  shows "tx_inv K got S B (fst (conn_call_send_pkt conn hdr))" and "tx_inv K got S B (fst (conn_call_send_frame conn hdr fr))"
    and "cb_send_client_initial (cn_callbacks conn) = Some f1 \<Longrightarrow> tx_inv K got S B (conn\<lparr>cn_app := fst (f1 b (cn_app conn))\<rparr>)"
    and "cb_send_client_handshake (cn_callbacks conn) = Some f2 \<Longrightarrow> tx_inv K got S B (conn\<lparr>cn_app := fst (f2 (cn_app conn))\<rparr>)"
    and "cb_send_server_handshake (cn_callbacks conn) = Some f3 \<Longrightarrow> tx_inv K got S B (conn\<lparr>cn_app := fst (f3 b (cn_app conn))\<rparr>)"
proof -
  have d: "delivers got (cn_callbacks conn)" and rx: "rx_inv K got S conn" using assms by (simp_all add: tx_inv_def rx_inv_def)
  show "tx_inv K got S B (fst (conn_call_send_pkt conn hdr))" "tx_inv K got S B (fst (conn_call_send_frame conn hdr fr))"
    unfolding conn_call_send_pkt_def conn_call_send_frame_def using d by (auto simp: delivers_def intro!: quiet_call [OF assms])
  have app: "got a = got (cn_app conn) \<Longrightarrow> tx_inv K got S B (conn\<lparr>cn_app := a\<rparr>)" for a using assms rx_inv_app [OF rx] by (simp add: tx_inv_def)
  show "cb_send_client_initial (cn_callbacks conn) = Some f1 \<Longrightarrow> tx_inv K got S B (conn\<lparr>cn_app := fst (f1 b (cn_app conn))\<rparr>)"
    "cb_send_client_handshake (cn_callbacks conn) = Some f2 \<Longrightarrow> tx_inv K got S B (conn\<lparr>cn_app := fst (f2 (cn_app conn))\<rparr>)"
    "cb_send_server_handshake (cn_callbacks conn) = Some f3 \<Longrightarrow> tx_inv K got S B (conn\<lparr>cn_app := fst (f3 b (cn_app conn))\<rparr>)"
    using d by (auto simp: delivers_def intro!: app)
qed

lemma tx_rtb_add:
  assumes "tx_inv K got S B conn" and p: "p \<notin> set (rtb_head (cn_rtb conn))" and len: "unat (rtb_bytes_in_flight (cn_rtb conn)) + unat (re_pktlen ent) < 2 ^ 64"
  shows "keeps (conn_rtb_add conn p ent) (\<lambda>x. \<exists>rtb. x = (conn\<lparr>cn_rtb := rtb\<rparr>, None) \<and> rx_inv K got S (conn\<lparr>cn_rtb := rtb\<rparr>) \<and>
    unat (rtb_bytes_in_flight rtb) = unat (rtb_bytes_in_flight (cn_rtb conn)) + unat (re_pktlen ent))"
proof -
  have rx: "rx_inv K got S conn" using assms(1) by (simp add: tx_inv_def)
  then have wf: "rtb_wf (cn_rtb conn)" and mem: "cn_mem conn = []" by (simp_all add: rx_inv_def)
  obtain rtb mem' rv where run: "ngtcp2_rtb_add (cn_rtb conn) p ent (cn_mem conn) = (rtb, mem', rv)" by (metis prod_cases3)
  note add = rtb_add_wf [OF wf p len run]
  have "mem' = []" using run mem by (auto simp: ngtcp2_rtb_add_def ngtcp2_pq_push_def ngtcp2_mem_realloc_def Let_def split: prod.splits option.splits if_splits)
  then have "conn_rtb_add conn p ent = Ok (conn\<lparr>cn_rtb := rtb\<rparr>, None)"
    using run add mem by (cases conn) (auto simp: conn_rtb_add_def)
  then show ?thesis using add mem rx_inv_acktr_rtb(2) [OF rx, of rtb] unat_add_small [OF len] by auto
qed


lemma tx_rtb_pop:
  assumes inv: "tx_inv K got S B conn" and top: "ngtcp2_rtb_top (cn_rtb conn) = Some p" and pop: "ngtcp2_rtb_pop (cn_rtb conn) = Ok rtb"
  shows "\<exists>B'. B = B' + unat (re_pktlen (rtb_store (cn_rtb conn) p)) \<and> tx_inv K got S B' (conn\<lparr>cn_rtb := rtb\<rparr>) \<and> p \<notin> set (rtb_head rtb)"
proof -
  let ?len = "\<lambda>p. unat (re_pktlen (rtb_store (cn_rtb conn) p))"
  have rx: "rx_inv K got S conn" and w: "windows_ok conn" and B: "unacked conn \<le> B" using inv by (simp_all add: tx_inv_def)
  have wf: "rtb_wf (cn_rtb conn)" using rx by (simp add: rx_inv_def)
  have rtb: "rtb_wf rtb" "rtb_store rtb = rtb_store (cn_rtb conn)" "rtb_head rtb = remove1 p (rtb_head (cn_rtb conn))"
    using rtb_pop_wf [OF wf] unfolding pop top by simp_all
  have "p \<in> set (pq_q (rtb_pq (cn_rtb conn)))"
    using top by (auto simp: ngtcp2_rtb_top_def ngtcp2_pq_top_def ngtcp2_pq_empty_def split: if_splits)
  then have p: "p \<in> set (rtb_head (cn_rtb conn))" by (simp add: rtb_wf_set [OF wf])
  have "unat (rtb_bytes_in_flight (cn_rtb conn)) = (\<Sum>q \<leftarrow> rtb_head (cn_rtb conn). ?len q)" using wf by (simp add: rtb_wf_def)
  also have "\<dots> = ?len p + (\<Sum>q \<leftarrow> remove1 p (rtb_head (cn_rtb conn)). ?len q)" by (rule sum_list_map_remove1 [OF p])
  also have "(\<Sum>q \<leftarrow> remove1 p (rtb_head (cn_rtb conn)). ?len q) = unat (rtb_bytes_in_flight rtb)" using rtb by (simp add: rtb_wf_def)
  finally have len: "unacked conn = ?len p + unacked (conn\<lparr>cn_rtb := rtb\<rparr>)" by (simp add: unacked_def)
  have "?len p \<le> B" "unacked (conn\<lparr>cn_rtb := rtb\<rparr>) \<le> B - ?len p" using len B by arith+
  then have "B = B - ?len p + ?len p" "tx_inv K got S (B - ?len p) (conn\<lparr>cn_rtb := rtb\<rparr>)"
    using rx_inv_acktr_rtb(2) [OF rx rtb(1)] w by (simp_all add: tx_inv_def)
  moreover have "p \<notin> set (rtb_head rtb)" using rtb_wf_distinct [OF wf] by (simp add: rtb(3))
  ultimately show ?thesis by blast
qed

lemma tx_strm:
  assumes inv: "tx_inv K got S B conn" and f: "\<And>s. tx_only s (f s)"
  shows "tx_inv K got S B (upd_strm conn sid f)"
proof -
  let ?s = "cn_strm conn sid"
  have rx: "rx_inv K got S conn" and w: "windows_ok conn" and B: "unacked conn \<le> B" using inv by (simp_all add: tx_inv_def)
  obtain b x fl where fl: "fl \<in> {0, NGTCP2_STRM_FLAG_SHUT_WR}" and fs: "f ?s = ?s\<lparr>sm_tx_buf := b, sm_tx_offset := x, sm_flags := sm_flags ?s OR fl\<rparr>"
    using f [of ?s] unfolding tx_only_def by blast
  have rd: "(sm_flags ?s OR fl) AND NGTCP2_STRM_FLAG_SHUT_RD = sm_flags ?s AND NGTCP2_STRM_FLAG_SHUT_RD"
    using fl by (auto simp: bit.conj_disj_distrib2)
  have w': "windows_ok (upd_strm conn sid f)" using w by (auto simp: windows_ok_def upd_strm_def live_def fs)
  have "rx_inv K got S (upd_strm conn sid f)"
  proof (rule rx_inv_strm [OF rx])
    assume "live conn sid"
    from rx_inv_live [OF rx this] show "sm_stream_id (f ?s) = sid \<and> strm_rx_ok (S sid) (f ?s) (got (cn_app conn) sid)"
      by (simp add: fs strm_rx_ok_def ngtcp2_strm_rx_offset_def)
  qed (use fs rd rx in \<open>simp_all add: data_counted_upd rx_inv_def\<close>)
  then show ?thesis using w' B by (simp add: tx_inv_def)
qed

lemma tx_limits:
  assumes inv: "tx_inv K got S B conn"
  shows "tx_inv K got S B (upd_strm conn sid (\<lambda>strm. strm\<lparr>sm_max_rx_offset := sm_unsent_max_rx_offset strm\<rparr>))"
    and "cn_max_rx_offset conn < cn_unsent_max_rx_offset conn \<Longrightarrow> tx_inv K got S B (conn\<lparr>cn_max_rx_offset := cn_unsent_max_rx_offset conn\<rparr>)"
    and "tx_inv K got S B (conn\<lparr>cn_max_remote_stream_id_bidi := cn_unsent_max_remote_stream_id_bidi conn\<rparr>)"
    and "tx_inv K got S B (conn\<lparr>cn_max_remote_stream_id_uni := cn_unsent_max_remote_stream_id_uni conn\<rparr>)"
proof -
  have rx: "rx_inv K got S conn" and w: "windows_ok conn" and B: "unacked conn \<le> B" using inv by (simp_all add: tx_inv_def)
  let ?f = "\<lambda>strm. strm\<lparr>sm_max_rx_offset := sm_unsent_max_rx_offset strm\<rparr>"
  have "rx_inv K got S (upd_strm conn sid ?f)"
  proof (rule rx_inv_strm [OF rx])
    assume l: "live conn sid"
    note s = rx_inv_live [OF rx l]
    have "sm_max_rx_offset (cn_strm conn sid) \<le> sm_unsent_max_rx_offset (cn_strm conn sid)" "sm_unsent_max_rx_offset (cn_strm conn sid) \<le> NGTCP2_MAX_VARINT"
      using w l by (simp_all add: windows_ok_def)
    then show "sm_stream_id (?f (cn_strm conn sid)) = sid \<and> strm_rx_ok (S sid) (?f (cn_strm conn sid)) (got (cn_app conn) sid)"
      using s by (auto simp: strm_rx_ok_def ngtcp2_strm_rx_offset_def)
  qed (use rx in \<open>simp_all add: data_counted_upd rx_inv_def\<close>)
  moreover have "windows_ok (upd_strm conn sid ?f)" using w by (auto simp: windows_ok_def upd_strm_def live_def)
  ultimately show "tx_inv K got S B (upd_strm conn sid ?f)" using B by (simp add: tx_inv_def)
  let ?c = "conn\<lparr>cn_max_rx_offset := cn_unsent_max_rx_offset conn\<rparr>" and ?b = "conn\<lparr>cn_max_remote_stream_id_bidi := cn_unsent_max_remote_stream_id_bidi conn\<rparr>"
    and ?u = "conn\<lparr>cn_max_remote_stream_id_uni := cn_unsent_max_remote_stream_id_uni conn\<rparr>"
  have same: "live ?c = live conn" "fresh ?c = fresh conn" "ids_ok ?c = ids_ok conn" "live ?b = live conn" "fresh ?b = fresh conn"
    "live ?u = live conn" "fresh ?u = fresh conn"
    by (simp_all add: fun_eq_iff live_def fresh_def ids_ok_def remote_idtr_def conn_local_stream_def)
  then have count: "data_counted got ?c = data_counted got conn" "data_counted got ?b = data_counted got conn" "data_counted got ?u = data_counted got conn"
    by (simp_all add: data_counted_def counted_def cong: if_cong)
  have "ids_ok ?b" "ids_ok ?u" using rx w by (simp_all add: rx_inv_def ids_ok_def windows_ok_def conn_local_stream_def)
  then show "tx_inv K got S B ?b" "tx_inv K got S B ?u" using inv by (simp_all add: tx_inv_def rx_inv_def same count)
  show "tx_inv K got S B ?c" if "cn_max_rx_offset conn < cn_unsent_max_rx_offset conn"
    using inv that by (auto simp: tx_inv_def rx_inv_def same count)
qed

lemma tx_frame_writer: "frame_writer (tx_inv K got S B)"
proof
  fix conn :: "'a ngtcp2_conn"
  assume inv: "tx_inv K got S B conn"
  then have rx: "rx_inv K got S conn" and acktr: "acktr_wf (cn_acktr conn)" and mem: "cn_mem conn = []" by (simp_all add: tx_inv_def rx_inv_def)
  show "cn_mem conn = []" by (rule mem)
  show "tx_inv K got S B (fst (conn_call_send_pkt conn hdr))" "tx_inv K got S B (fst (conn_call_send_frame conn hdr fr))" for hdr fr
    by (rule tx_callbacks [OF inv])+
  have "acktr_list_ok (cn_acktr conn\<lparr>at_active_ack := False\<rparr>)" using acktr by (simp add: acktr_wf_def acktr_list_ok_def)
  then have commit: "acktr_wf (cn_acktr conn\<lparr>at_active_ack := False\<rparr>)" by (rule acktr_wf_cong [OF acktr]) simp
  have "rx_inv K got S (conn_invalidate_next_ack_expiry conn)" using rx by (simp add: conn_invalidate_next_ack_expiry_def)
  from rx_inv_acktr_rtb(1) [OF this commit] show "tx_inv K got S B (conn_commit_tx_ack conn)"
    using inv by (simp add: tx_inv_def conn_commit_tx_ack_def conn_invalidate_next_ack_expiry_def)
  show "keeps (conn_add_ack conn n ack u) (tx_inv K got S B)" if "ack_valid ack" for ack n u
    using acktr_add_ack_wf [OF acktr that, of n u] rx_inv_acktr_rtb(1) [OF rx] inv by (auto simp: conn_add_ack_def tx_inv_def)
  show "keeps (conn_create_ack_frame conn ts unprotected) (\<lambda>x. tx_inv K got S B (fst x) \<and> (\<forall>ack. snd x = Inr (Some ack) \<longrightarrow> ack_valid ack))" for ts unprotected
  proof -
    have "acktr_list_ok (cn_acktr conn)" using acktr by (simp add: acktr_wf_def)
    note create_ack_frame_ok [OF this mem, of unprotected ts]
    then show ?thesis
      using inv rx_inv_acktr_rtb(1) [OF rx acktr_wf_cong [OF acktr]]
      by (auto simp: keeps_def tx_inv_def conn_invalidate_next_ack_expiry_def ack_reports_def split: if_splits)
  qed
qed


text \<open>The invariant satisfies the laws of the writers: every packet writer keeps it.\<close>

lemma tx_largest: "tx_inv K got S B conn \<Longrightarrow> tx_inv K got S B (conn\<lparr>cn_rtb := (cn_rtb conn)\<lparr>rtb_largest_acked := n\<rparr>\<rparr>)"
  using rx_inv_acktr_rtb(2) [of K got S conn "(cn_rtb conn)\<lparr>rtb_largest_acked := n\<rparr>"]
  by (simp add: tx_inv_def rx_inv_def unacked_def rtb_wf_largest)

lemma tx_rtb_add_sum:
  assumes inv: "tx_inv K got S B conn" and p: "p \<notin> set (rtb_head (cn_rtb conn))" and len: "B + unat (re_pktlen ent) < 2 ^ 64"
  shows "keeps (conn_rtb_add conn p ent) (\<lambda>x. snd x = None \<and> tx_inv K got S (B + unat (re_pktlen ent)) (fst x))"
proof -
  have "unat (rtb_bytes_in_flight (cn_rtb conn)) + unat (re_pktlen ent) < 2 ^ 64" using inv len by (simp add: tx_inv_def unacked_def)
  from tx_rtb_add [OF inv p this] show ?thesis
    by (rule keeps_weaken) (use inv in \<open>auto simp: tx_inv_def unacked_def\<close>)
qed

lemma tx_early_move:
  assumes inv: "tx_inv K got S B (conn\<lparr>cn_early_rtb := ent # ents\<rparr>)" and p: "p \<notin> set (rtb_head (cn_rtb conn))"
    and len: "re_pktlen ent' = re_pktlen ent" "B < 2 ^ 64"
  shows "keeps (conn_rtb_add conn p ent') (\<lambda>x. snd x = None \<and> tx_inv K got S B ((fst x)\<lparr>cn_early_rtb := ents\<rparr>))"
proof -
  have sum: "unat (rtb_bytes_in_flight (cn_rtb conn)) + (unat (re_pktlen ent) + (\<Sum>ent \<leftarrow> ents. unat (re_pktlen ent))) \<le> B"
    and other: "rx_inv K got S conn" "windows_ok conn" using inv by (simp_all add: tx_inv_def unacked_def)
  then have small: "unat (rtb_bytes_in_flight (cn_rtb conn)) + unat (re_pktlen ent') < 2 ^ 64" using len by simp
  have "tx_inv K got S (unacked conn) conn" using other by (simp add: tx_inv_def)
  from tx_rtb_add [OF this p small] show ?thesis
    by (rule keeps_weaken) (use sum other(2) in \<open>auto simp: tx_inv_def unacked_def len(1)\<close>)
qed

interpretation tx: conn_writer "tx_inv K got S" for K got S
proof (rule conn_writer.intro)
  fix B :: nat and conn :: "'a ngtcp2_conn"
  assume inv: "tx_inv K got S B conn"
  note parts = inv [unfolded tx_inv_def]
  show "tx_inv K got S B' conn" if "B \<le> B'" for B' using parts that by (simp add: tx_inv_def)
  show "tx_inv K got S B (conn\<lparr>cn_last_tx_pkt_num := n\<rparr>)" for n using parts by (simp add: tx_inv_def)
  show "tx_inv K got S B (conn\<lparr>cn_frq := frq\<rparr>)" for frq using parts by (simp add: tx_inv_def)
  show "tx_inv K got S B (conn\<lparr>cn_fc_strms := fcs\<rparr>)" for fcs using parts by (simp add: tx_inv_def)
  show "tx_inv K got S B (conn\<lparr>cn_state := st\<rparr>)" for st using parts by (simp add: tx_inv_def)
  show "tx_inv K got S B (conn\<lparr>cn_tx_offset := n\<rparr>)" for n using parts by (simp add: tx_inv_def)
  show "tx_inv K got S (B + unat (re_pktlen ent)) (conn\<lparr>cn_early_rtb := cn_early_rtb conn @ [ent]\<rparr>)" for ent
    using parts by (simp add: tx_inv_def unacked_def)
qed (rule tx_frame_writer tx_largest tx_strm tx_limits tx_callbacks tx_rtb_add_sum tx_rtb_pop tx_early_move; assumption)+

end
