(* ===== verification/Conn_Send.thy ===== *)
theory Conn_Send
  imports Conn_Write_Inv
begin

text \<open>
  What the packets of the sending side hold: a packet with stream data stays within the flow control limits of the peer and
  is opened by a receiver to exactly the data of the call; a retransmission holds the frames of the lost packet that are
  still needed, and keeps those that did not fit.
\<close>

section \<open>Frames of a packet\<close>

definition same_but_app :: "'a ngtcp2_conn \<Rightarrow> 'a ngtcp2_conn \<Rightarrow> bool" where
  "same_but_app c conn \<longleftrightarrow> (\<exists>a. c = conn\<lparr>cn_app := a\<rparr>)"

lemma same_but_app_refl: "same_but_app c c"
  unfolding same_but_app_def by (intro exI [of _ "cn_app c"]) simp

lemma same_but_app_trans: "same_but_app a b \<Longrightarrow> same_but_app b c \<Longrightarrow> same_but_app a c"
  by (auto simp: same_but_app_def)

lemma same_but_app_set: "same_but_app (c\<lparr>cn_app := a\<rparr>) c"
  by (auto simp: same_but_app_def)

lemma call_results:
  "conn_call_send_pkt c hdr = (c', r) \<Longrightarrow> same_but_app c' c \<and> (r = None \<or> r = Some NGTCP2_ERR_CALLBACK_FAILURE)"
  "conn_call_send_frame c hdr fr = (c', r) \<Longrightarrow> same_but_app c' c \<and> (r = None \<or> r = Some NGTCP2_ERR_CALLBACK_FAILURE)"
  by (auto simp: conn_call_send_pkt_def conn_call_send_frame_def call_cb_def same_but_app_refl same_but_app_set split: option.splits prod.splits if_splits)

lemma encode_frame_sent: "ngtcp2_pkt_encode_frame n fr = Ok (b, fr') \<Longrightarrow> fr' = sent fr"
  by (cases fr) (auto simp: rbind_Ok_iff ngtcp2_pkt_encode_stream_frame_def Let_def)

lemma ppe_encode_frame_sent: "ngtcp2_ppe_encode_frame ppe fr = Ok (ppe', fr') \<Longrightarrow> fr' = sent fr"
  by (auto simp: ngtcp2_ppe_encode_frame_def Let_def ret_if_def rbind_Ok_iff dest!: encode_frame_sent split: if_splits)

lemma sent_sent [simp]: "sent (sent fr) = sent fr"
  by (cases fr) (simp_all add: stream_encode_flags_def)

text \<open>The payload of a packet being written is made of the encodings of the frames \<open>frs\<close>.\<close>

definition encodes :: "bytes \<Rightarrow> ngtcp2_frame \<Rightarrow> bool" where
  "encodes bs fr \<longleftrightarrow> bs \<noteq> [] \<and> (\<forall>rest. ngtcp2_pkt_decode_frame (bs @ rest) = Ok (Some fr, length bs))"

definition same_pkt :: "ngtcp2_ppe \<Rightarrow> ngtcp2_ppe \<Rightarrow> bool" where
  "same_pkt ppe ppe0 \<longleftrightarrow> ppe_ctx ppe = ppe_ctx ppe0 \<and> ppe_pkt_num ppe = ppe_pkt_num ppe0"

definition pkt_holds :: "ngtcp2_ppe \<Rightarrow> nat \<Rightarrow> bytes \<Rightarrow> ngtcp2_frame list \<Rightarrow> ngtcp2_ppe \<Rightarrow> bool" where
  "pkt_holds ppe0 L hdb frs ppe \<longleftrightarrow> same_pkt ppe ppe0 \<and> (\<exists>bss. ppe_holds ppe L hdb (concat bss) \<and> list_all2 encodes bss frs)"

lemma decode_encoded: "list_all2 encodes bss frs \<Longrightarrow> decode_frames (length (concat bss)) (concat bss) = Some frs"
proof (induction rule: list_all2_induct)
  case (Cons bs bss fr frs)
  obtain m where m: "length (concat (bs # bss)) = Suc m" "length (concat bss) \<le> m"
    using Cons(1) by (cases bs) (auto simp: encodes_def)
  show ?case unfolding m(1) using Cons(1) decode_frames_more [OF Cons.IH m(2)] by (simp add: encodes_def)
qed simp

lemma write_frame_run:
  assumes "conn_ppe_write_frame hdr (conn, ppe, called) fr = Ok ((conn', ppe', called'), fr', rv)"
  shows "same_but_app conn' conn" and "fr' = fr \<or> fr' = sent fr" and "rv = None \<Longrightarrow> ngtcp2_ppe_encode_frame ppe fr = Ok (ppe', fr')"
    and "rv \<noteq> None \<Longrightarrow> rv \<noteq> Some NGTCP2_ERR_CALLBACK_FAILURE \<Longrightarrow> ppe' = ppe"
proof -
  obtain c1 r1 where c1: "(if called then (conn, None) else conn_call_send_pkt conn hdr) = (c1, r1)" by fastforce
  have 1: "same_but_app c1 conn" "r1 \<noteq> None \<Longrightarrow> r1 = Some NGTCP2_ERR_CALLBACK_FAILURE"
    using c1 same_but_app_refl [of conn] by (auto dest: call_results split: if_splits)
  show "same_but_app conn' conn" "fr' = fr \<or> fr' = sent fr" "rv = None \<Longrightarrow> ngtcp2_ppe_encode_frame ppe fr = Ok (ppe', fr')"
    "rv \<noteq> None \<Longrightarrow> rv \<noteq> Some NGTCP2_ERR_CALLBACK_FAILURE \<Longrightarrow> ppe' = ppe"
    using assms 1 same_but_app_refl [of conn]
    by (auto simp: conn_ppe_write_frame_def c1 split: result.splits option.splits prod.splits dest: ppe_encode_frame_sent call_results same_but_app_trans)
qed

lemma write_frame_holds:
  assumes run: "conn_ppe_write_frame hdr (conn, ppe, called) fr = Ok ((conn', ppe', called'), fr', None)" and fr: "frame_ok fr" "\<not> is_padding fr"
    and holds: "pkt_holds ppe0 L hdb frs ppe"
  shows "fr' = sent fr" and "pkt_holds ppe0 L hdb (frs @ [fr']) ppe'"
proof -
  have enc: "ngtcp2_ppe_encode_frame ppe fr = Ok (ppe', fr')" using write_frame_run(3) [OF run] by simp
  then show sent: "fr' = sent fr" by (rule ppe_encode_frame_sent)
  obtain bss where bss: "ppe_holds ppe L hdb (concat bss)" "list_all2 encodes bss frs" "same_pkt ppe ppe0" using holds by (auto simp: pkt_holds_def)
  from ppe_encode_frame_ok [OF bss(1) fr] enc obtain bs where bs: "encodes bs (sent fr)" "ppe_holds ppe' L hdb (concat bss @ bs)"
    and same: "same_pkt ppe' ppe"
    by (auto simp: encodes_def same_pkt_def split: if_splits)
  have "same_pkt ppe' ppe0" using bss(3) same by (simp add: same_pkt_def)
  then show "pkt_holds ppe0 L hdb (frs @ [fr']) ppe'"
    unfolding pkt_holds_def by (intro conjI exI [of _ "bss @ [bs]"]) (use bss(2) bs sent in \<open>simp_all add: list_all2_appendI\<close>)
qed

definition sendable :: "('a ngtcp2_conn \<Rightarrow> ngtcp2_frame \<Rightarrow> frame_check result) \<Rightarrow> 'a ngtcp2_conn \<Rightarrow> ngtcp2_frame list \<Rightarrow> ngtcp2_frame list" where
  "sendable check conn frs = filter (\<lambda>fr. check conn fr = Ok FrameSend) frs"

lemma write_frames_holds:
  assumes indep: "\<And>c c' fr. same_but_app c c' \<Longrightarrow> check c fr = check c' fr"
    and "write_frames check hdr (conn, ppe, called) done frs = Ok ((conn', ppe', called'), gone, rest, rv)"
    and "\<forall>fr \<in> set frs. frame_ok fr \<and> \<not> is_padding fr \<and> check conn fr \<noteq> Ok FrameCancelSendNext"
    and "pkt_holds ppe0 L hdb done ppe"
  shows "\<exists>pre suf. frs = pre @ suf \<and> gone = done @ map sent (sendable check conn pre) \<and> map sent rest = map sent suf \<and> (rv = None \<longleftrightarrow> suf = []) \<and>
    same_but_app conn' conn \<and> (rv \<noteq> Some NGTCP2_ERR_CALLBACK_FAILURE \<longrightarrow> pkt_holds ppe0 L hdb gone ppe')"
  using assms(2-)
proof (induction frs arbitrary: conn ppe called "done")
  case Nil
  then show ?case by (auto simp: sendable_def same_but_app_refl)
next
  case (Cons fr frs)
  obtain c where c: "check conn fr = Ok c" "c \<noteq> FrameCancelSendNext" using Cons.prems(1,2) by (cases "check conn fr") auto
  show ?case
  proof (cases c)
    case FrameCancel
    have run: "write_frames check hdr (conn, ppe, called) done frs = Ok ((conn', ppe', called'), gone, rest, rv)"
      using Cons.prems(1) c FrameCancel by simp
    from Cons.IH [OF run _ Cons.prems(3)] Cons.prems(2) obtain pre suf where
      "frs = pre @ suf \<and> gone = done @ map sent (sendable check conn pre) \<and> map sent rest = map sent suf \<and> (rv = None \<longleftrightarrow> suf = []) \<and>
        same_but_app conn' conn \<and> (rv \<noteq> Some NGTCP2_ERR_CALLBACK_FAILURE \<longrightarrow> pkt_holds ppe0 L hdb gone ppe')" by auto
    then show ?thesis by - (rule exI [of _ "fr # pre"], rule exI [of _ suf], auto simp: sendable_def c FrameCancel)
  next
    case FrameSend
    obtain conn1 ppe1 called1 fr1 rv1 where w: "conn_ppe_write_frame hdr (conn, ppe, called) fr = Ok ((conn1, ppe1, called1), fr1, rv1)"
      using Cons.prems(1) c FrameSend by (cases "conn_ppe_write_frame hdr (conn, ppe, called) fr") auto
    note wr = write_frame_run [OF w]
    show ?thesis
    proof (cases rv1)
      case (Some e)
      then have out: "conn' = conn1" "ppe' = ppe1" "gone = done" "rest = fr1 # frs" "rv = Some e" using Cons.prems(1) c FrameSend w by auto
      moreover have "map sent (fr1 # frs) = map sent (fr # frs)" using wr(2) by auto
      moreover have "rv \<noteq> Some NGTCP2_ERR_CALLBACK_FAILURE \<Longrightarrow> ppe' = ppe" using wr(4) Some out by simp
      ultimately show ?thesis using wr(1) Cons.prems(3) by - (rule exI [of _ "[]"], rule exI [of _ "fr # frs"], simp add: sendable_def)
    next
      case None
      have run: "write_frames check hdr (conn1, ppe1, called1) (done @ [fr1]) frs = Ok ((conn', ppe', called'), gone, rest, rv)"
        using Cons.prems(1) c FrameSend w None by simp
      have "frame_ok fr" "\<not> is_padding fr" using Cons.prems(2) by simp_all
      note h = write_frame_holds [OF w [unfolded None] this Cons.prems(3)]
      have same: "check conn1 = check conn" using indep [OF wr(1)] by blast
      from Cons.IH [OF run _ h(2)] Cons.prems(2) obtain pre suf where
        "frs = pre @ suf \<and> gone = (done @ [fr1]) @ map sent (sendable check conn1 pre) \<and> map sent rest = map sent suf \<and> (rv = None \<longleftrightarrow> suf = []) \<and>
          same_but_app conn' conn1 \<and> (rv \<noteq> Some NGTCP2_ERR_CALLBACK_FAILURE \<longrightarrow> pkt_holds ppe0 L hdb gone ppe')" by (auto simp: same)
      then show ?thesis using same_but_app_trans [OF _ wr(1)]
        by - (rule exI [of _ "fr # pre"], rule exI [of _ suf], auto simp: sendable_def same h(1) c FrameSend)
    qed
  qed (use c in simp)
qed

lemma emit_le: "emit outlen lens parts = Ok bs \<Longrightarrow> length bs \<le> outlen"
  by (auto simp: emit_def rbind_Ok_iff ret_if_def c_assert_def split: if_splits)

lemmas encode_defs = ngtcp2_pkt_encode_stream_frame_def ngtcp2_pkt_encode_ack_frame_def ngtcp2_pkt_encode_padding_frame_def
  ngtcp2_pkt_encode_rst_stream_frame_def encode_close_def ngtcp2_pkt_encode_connection_close_frame_def
  ngtcp2_pkt_encode_application_close_frame_def encode_one_varint_def encode_two_varints_def ngtcp2_pkt_encode_max_data_frame_def
  ngtcp2_pkt_encode_max_stream_data_frame_def ngtcp2_pkt_encode_max_stream_id_frame_def encode_u8_data_def
  ngtcp2_pkt_encode_ping_frame_def ngtcp2_pkt_encode_blocked_frame_def ngtcp2_pkt_encode_stream_blocked_frame_def
  ngtcp2_pkt_encode_stream_id_blocked_frame_def ngtcp2_pkt_encode_new_connection_id_frame_def
  ngtcp2_pkt_encode_stop_sending_frame_def ngtcp2_pkt_encode_pong_frame_def

lemma encode_frame_le: "ngtcp2_pkt_encode_frame n fr = Ok (bs, fr') \<Longrightarrow> length bs \<le> n"
  by (cases fr) (auto simp: rbind_Ok_iff Let_def ret_if_def c_assert_def encode_defs dest!: emit_le split: if_splits)

lemma ppe_encode_appends:
  assumes "ngtcp2_ppe_encode_frame ppe fr = Ok (ppe', fr')" and holds: "ppe_holds ppe L hdb pl"
  shows "same_pkt ppe' ppe \<and> (\<exists>bs. ppe_holds ppe' L hdb (pl @ bs))"
proof -
  let ?buf = "ppe_buf ppe" and ?oh = "ctx_aead_overhead (ppe_ctx ppe)"
  obtain bs buf where enc: "\<not> ngtcp2_buf_left ?buf < ?oh" "ngtcp2_pkt_encode_frame (ngtcp2_buf_left ?buf - ?oh) fr = Ok (bs, fr')"
    and buf: "buf_append ?buf bs = Ok buf" and ppe': "ppe' = ppe\<lparr>ppe_buf := buf\<rparr>"
    using assms(1) by (auto simp: ngtcp2_ppe_encode_frame_def Let_def ret_if_def rbind_Ok_iff split: if_splits)
  have len: "length bs + ?oh + length (hdb @ pl) \<le> L"
  proof -
    have "ngtcp2_buf_left ?buf = L - length (hdb @ pl)" "length (hdb @ pl) + ?oh \<le> L"
      using holds by (simp_all add: ngtcp2_buf_left_def ppe_holds_def)
    then show ?thesis using encode_frame_le [OF enc(2)] enc(1) by linarith
  qed
  have "buf_last ?buf + length bs \<le> length (buf_mem ?buf)" "take (buf_last ?buf) (buf_mem ?buf) = hdb @ pl"
    using holds len by (simp_all add: ppe_holds_def)
  from buf_append_ok [OF this] buf have "ppe_holds ppe' L hdb (pl @ bs)" using holds len by (auto simp: ppe_holds_def ppe' add.assoc)
  then show ?thesis by (auto simp: ppe' same_pkt_def)
qed

lemma append_ack_holds:
  assumes run: "append_ack hdr ts (conn, ppe, called) = Ok ((conn', ppe', called'), None)" and holds: "ppe_holds ppe L hdb pl"
  shows "same_pkt ppe' ppe \<and> (\<exists>bs. ppe_holds ppe' L hdb (pl @ bs))"
proof -
  have same: ?thesis if "ppe' = ppe" using holds that by (intro conjI exI [of _ "[]"]) (simp_all add: same_pkt_def)
  obtain c1 a where c1: "conn_create_ack_frame conn ts False = Ok (c1, a)" using run by (auto simp: append_ack_def rbind_Ok_iff)
  show ?thesis
  proof (cases "\<exists>ack. a = Inr (Some ack)")
    case False
    then show ?thesis using run c1 same by (auto simp: append_ack_def split: sum.splits option.splits)
  next
    case True
    then obtain ack where a: "a = Inr (Some ack)" ..
    obtain c2 ppe2 called2 fr rv where w: "conn_ppe_write_frame hdr (c1, ppe, called) (FR_ACK ack) = Ok ((c2, ppe2, called2), fr, rv)"
      using run c1 a by (cases "conn_ppe_write_frame hdr (c1, ppe, called) (FR_ACK ack)") (auto simp: append_ack_def)
    have ppe': "ppe' = ppe2" "rv = None \<or> rv = Some NGTCP2_ERR_NOBUF"
      using run c1 a w by (auto simp: append_ack_def rbind_Ok_iff split: option.splits if_splits)
    note wr = write_frame_run(3,4) [OF w]
    show ?thesis
    proof (cases rv)
      case None
      then show ?thesis using ppe_encode_appends [OF wr(1) holds] ppe'(1) by simp
    next
      case (Some e)
      then have "ppe' = ppe" using wr(2) ppe' by simp
      then show ?thesis by (rule same)
    qed
  qed
qed

section \<open>Opening a packet\<close>

text \<open>A receiver decodes the header \<open>h\<close>, and the payload is what it decrypts under the nonce of the packet number.\<close>

definition opened :: "(bytes \<Rightarrow> bytes \<Rightarrow> bytes \<Rightarrow> bytes \<Rightarrow> bytes option) \<Rightarrow> ngtcp2_crypto_km \<Rightarrow> u64 \<Rightarrow> ngtcp2_pkt_hd \<Rightarrow> bytes \<Rightarrow> bytes \<Rightarrow> bool" where
  "opened dec ckm num h pkt payload \<longleftrightarrow> (\<exists>hdlen nonce. ngtcp2_pkt_decode_hd pkt = Ok (h, hdlen) \<and>
     ngtcp2_crypto_create_nonce (km_iv ckm) num = Ok nonce \<and> dec (drop hdlen pkt) (km_key ckm) nonce (take hdlen pkt) = Some payload)"

lemma pkt_begins:
  assumes "pkt_begin dest ctx hdr = Ok ppe" and "hd_encodable hdr" and "17 + ctx_aead_overhead ctx \<le> length dest"
  obtains hdb where "ppe_holds ppe (length dest) hdb []" "ppe_ctx ppe = ctx" "ppe_pkt_num ppe = hd_pkt_num hdr"
    "\<forall>rest. ngtcp2_pkt_decode_hd (hdb @ rest) = Ok (hd_sent hdr, length hdb)" "length hdb \<le> 17"
  using ppe_encode_hd_ok [OF assms(2,3), of "[]"] assms(1) by (auto simp: pkt_begin_def)

lemma pkt_opened:
  assumes fin: "pkt_final k ppe = Ok pkt" and holds: "ppe_holds ppe L hdb payload"
    and ctx: "ppe_ctx ppe = ctx" "ctx_ckm ctx = ckm" "ppe_pkt_num ppe = num" and aead: "aead_ok ctx dec"
    and iv: "8 \<le> length (km_iv ckm)" "length (km_iv ckm) \<le> 32"
    and hdr: "\<forall>rest. ngtcp2_pkt_decode_hd (hdb @ rest) = Ok (h, length hdb)"
  shows "opened dec ckm num h pkt payload" and "length pkt \<le> L"
proof -
  obtain nonce where nonce: "ngtcp2_crypto_create_nonce (km_iv ckm) num = Ok nonce"
    using iv(1) by (simp add: ngtcp2_crypto_create_nonce_def)
  from ppe_final_ok [OF holds, of dec nonce] obtain ppe2 ct where fin2: "ngtcp2_ppe_final ppe = Ok (ppe2, hdb @ ct)" "length (hdb @ ct) \<le> L"
      "dec ct (km_key ckm) nonce hdb = Some payload"
    using aead nonce iv(2) by (auto simp: ctx)
  moreover have "pkt = hdb @ ct" using fin fin2(1) by (auto simp: pkt_final_def c_assert_def split: if_splits)
  ultimately show "opened dec ckm num h pkt payload" "length pkt \<le> L"
    using hdr nonce unfolding opened_def by (auto intro!: exI [of _ "length hdb"])
qed

lemma protected_ctx_fields: "ctx_aead_overhead (protected_ctx conn (Some ckm)) = cn_aead_overhead conn" "ctx_ckm (protected_ctx conn (Some ckm)) = ckm"
  by (simp_all add: protected_ctx_def pkt_ctx_def)

section \<open>What a stream packet holds\<close>

definition same_tx :: "'a ngtcp2_conn \<Rightarrow> 'a ngtcp2_conn \<Rightarrow> bool" where
  "same_tx c conn \<longleftrightarrow> cn_strm c = cn_strm conn \<and> cn_tx_offset c = cn_tx_offset conn \<and> cn_max_tx_offset c = cn_max_tx_offset conn \<and>
     cn_last_tx_pkt_num c = cn_last_tx_pkt_num conn"

lemma same_tx_refl: "same_tx c c"
  by (simp add: same_tx_def)

lemma same_tx_trans: "same_tx a b \<Longrightarrow> same_tx b c \<Longrightarrow> same_tx a c"
  by (simp add: same_tx_def)

lemma same_tx_call: "same_tx (fst (conn_call_send_pkt c hdr)) c" "same_tx (fst (conn_call_send_frame c hdr fr)) c"
  by (auto simp: conn_call_send_pkt_def conn_call_send_frame_def call_cb_def same_tx_def split: option.split prod.split)

lemma same_tx_mem: "same_tx (c\<lparr>cn_mem := m\<rparr>) c"
  by (simp add: same_tx_def)

lemma same_tx_entry: "same_tx (fst (conn_rtb_entry_new c hdr frs ts dl pkt fl)) c"
  by (auto simp: conn_rtb_entry_new_def same_tx_def split: prod.split)

lemma same_tx_track: "keeps (stream_pkt_track c type ent) (\<lambda>x. same_tx (fst x) c)"
  by (auto simp: stream_pkt_track_def conn_track_def conn_rtb_add_def same_tx_def keeps_def Let_def rbind_Ok_iff c_assert_def split: prod.splits if_splits option.splits)

lemma on_ok_Ok: "on_ok s (Ok x) k = k x"
  by (simp add: on_ok_def)

lemma write_stream_sent:
  assumes run: "ngtcp2_conn_write_stream conn dest sid fin data ts = Ok ((conn', Some k), Inr pkt)"
  obtains c flags type cid ckm ppe ppe1 fr n where "same_tx c conn" and "stream_pkt_key conn = Inr (flags, type, cid, ckm)"
    and "pkt_begin dest (protected_ctx conn (Some ckm)) (conn_pkt_hd conn flags type cid) = Ok ppe"
    and "n = stream_datalen conn sid (length data) (ngtcp2_ppe_left ppe - NGTCP2_STREAM_OVERHEAD)" and "k = unat n" and "data \<noteq> [] \<Longrightarrow> n \<noteq> 0"
    and "ngtcp2_ppe_encode_frame ppe (FR_STREAM \<lparr>st_flags = 0, st_fin = fin \<and> k = length data, st_stream_id = sid,
      st_offset = sm_tx_offset (cn_strm conn sid), st_data = take k data\<rparr>) = Ok (ppe1, fr)"
    and "pkt_final (Some ckm) ppe1 = Ok pkt" and "conn' = stream_pkt_sent c sid n (fin \<and> k = length data)"
proof -
  obtain flags type cid ckm ppe n where key: "stream_pkt_key conn = Inr (flags, type, cid, ckm)"
    and ppe: "pkt_begin dest (protected_ctx conn (Some ckm)) (conn_pkt_hd conn flags type cid) = Ok ppe"
    and n: "n = stream_datalen conn sid (length data) (ngtcp2_ppe_left ppe - NGTCP2_STREAM_OVERHEAD)" "data \<noteq> [] \<Longrightarrow> n \<noteq> 0"
    and pkt: "write_stream_pkt conn (conn_pkt_hd conn flags type cid) type ckm ppe sid (fin \<and> unat n = length data) data n ts = Ok ((conn', Some k), Inr pkt)"
  proof -
    obtain strm where strm: "ngtcp2_conn_find_stream conn sid = Ok (Some strm)" "sm_flags strm AND NGTCP2_STRM_FLAG_SHUT_WR = 0"
      using run by (auto simp: ngtcp2_conn_write_stream_def rbind_Ok_iff split: if_splits option.splits)
    obtain flags type cid ckm where key: "stream_pkt_key conn = Inr (flags, type, cid, ckm)"
      using run strm by (auto simp: ngtcp2_conn_write_stream_def split: if_splits sum.splits)
    obtain ppe where ppe: "pkt_begin dest (protected_ctx conn (Some ckm)) (conn_pkt_hd conn flags type cid) = Ok ppe"
      using run strm key by (auto simp: ngtcp2_conn_write_stream_def on_ok_def Let_def split: if_splits result.splits)
    show thesis
      using run strm key ppe that [OF key ppe refl] by (auto simp: ngtcp2_conn_write_stream_def on_ok_def Let_def split: if_splits)
  qed
  let ?hdr = "conn_pkt_hd conn flags type cid" and ?fin = "fin \<and> unat n = length data"
  obtain c1 where c1: "conn_call_send_pkt conn ?hdr = (c1, None)" "same_tx c1 conn"
    using pkt same_tx_call(1) [of conn ?hdr] unfolding write_stream_pkt_def by (cases "conn_call_send_pkt conn ?hdr") (auto split: option.splits)
  obtain c2 ppe1 fr where c2: "same_tx c2 c1" and enc: "ngtcp2_ppe_encode_frame ppe (FR_STREAM \<lparr>st_flags = 0, st_fin = ?fin, st_stream_id = sid,
      st_offset = sm_tx_offset (cn_strm c2 sid), st_data = take (unat n) data\<rparr>) = Ok (ppe1, fr)"
    and rest: "(case conn_call_send_frame c2 ?hdr fr of (conn, Some e) \<Rightarrow> refuses (conn, None) e
        | (conn, None) \<Rightarrow>
          on_ok (conn, None) (pkt_final (Some ckm) ppe1) (\<lambda>pkt.
          case conn_rtb_entry_new conn ?hdr [fr] ts (ts + NGTCP2_PKT_DEADLINE_PERIOD) pkt NGTCP2_RTB_FLAG_NONE of
            (conn, Err e) \<Rightarrow> refuses (conn, None) e
          | (conn, Fault) \<Rightarrow> Fault
          | (conn, Ok ent) \<Rightarrow>
            rbind (stream_pkt_track conn type ent) (\<lambda>(conn, rv).
            case rv of Some e \<Rightarrow> refuses (conn, None) e
            | None \<Rightarrow> writes (stream_pkt_sent conn sid n ?fin, Some (unat n)) pkt))) = Ok ((conn', Some k), Inr pkt)"
  proof -
    obtain m where m: "ngtcp2_mem_malloc (cn_mem c1) = (True, m)"
      using pkt c1(1) by (cases "ngtcp2_mem_malloc (cn_mem c1)") (auto simp: write_stream_pkt_def with_malloc_def Let_def split: if_splits)
    obtain ppe1 fr where enc: "ngtcp2_ppe_encode_frame ppe (FR_STREAM \<lparr>st_flags = 0, st_fin = ?fin, st_stream_id = sid,
        st_offset = sm_tx_offset (cn_strm (c1\<lparr>cn_mem := m\<rparr>) sid), st_data = take (unat n) data\<rparr>) = Ok (ppe1, fr)"
      using pkt c1(1) m by (auto simp: write_stream_pkt_def with_malloc_def on_ok_def Let_def split: result.splits)
    show thesis
      using pkt unfolding write_stream_pkt_def c1(1) prod.case option.case with_malloc_def m Let_def if_True enc on_ok_Ok by (rule that [OF same_tx_mem enc])
  qed
  obtain c3 where c3: "conn_call_send_frame c2 ?hdr fr = (c3, None)" "same_tx c3 c2"
    using rest same_tx_call(2) [of c2 ?hdr fr] by (cases "conn_call_send_frame c2 ?hdr fr") (auto split: option.splits)
  obtain p c4 ent c5 where fin: "pkt_final (Some ckm) ppe1 = Ok p"
    and c4: "conn_rtb_entry_new c3 ?hdr [fr] ts (ts + NGTCP2_PKT_DEADLINE_PERIOD) p NGTCP2_RTB_FLAG_NONE = (c4, Ok ent)"
    and c5: "stream_pkt_track c4 type ent = Ok (c5, None)" and res: "conn' = stream_pkt_sent c5 sid n ?fin" "k = unat n" "p = pkt"
  proof -
    obtain p where p: "pkt_final (Some ckm) ppe1 = Ok p" using rest c3(1) by (cases "pkt_final (Some ckm) ppe1") (simp_all add: on_ok_def)
    obtain c4 r where c4: "conn_rtb_entry_new c3 ?hdr [fr] ts (ts + NGTCP2_PKT_DEADLINE_PERIOD) p NGTCP2_RTB_FLAG_NONE = (c4, r)" by fastforce
    obtain ent where r: "r = Ok ent" using rest c3(1) by (cases r) (simp_all add: on_ok_Ok p c4)
    obtain c5 rv where c5: "stream_pkt_track c4 type ent = Ok (c5, rv)"
      using rest c3(1) by (cases "stream_pkt_track c4 type ent") (auto simp: on_ok_Ok p c4 r)
    have "rv = None" using rest c3(1) by (cases rv) (simp_all add: on_ok_Ok p c4 r c5)
    then have "conn' = stream_pkt_sent c5 sid n ?fin" "k = unat n" "p = pkt" using rest c3(1) by (auto simp: on_ok_Ok p c4 r c5)
    then show thesis by (rule that [OF p c4 [unfolded r] c5 [unfolded \<open>rv = None\<close>]])
  qed
  have "same_tx c5 conn"
    using keepsD [OF same_tx_track c5] same_tx_entry [of c3 ?hdr "[fr]" ts "ts + NGTCP2_PKT_DEADLINE_PERIOD" p NGTCP2_RTB_FLAG_NONE] c4 c3(2) c2 c1(2)
    by (simp add: same_tx_def)
  moreover have "sm_tx_offset (cn_strm c2 sid) = sm_tx_offset (cn_strm conn sid)" using same_tx_trans [OF c2 c1(2)] by (simp add: same_tx_def)
  ultimately show thesis using that [of c5 flags type cid ckm ppe n ppe1 fr] key ppe n enc fin res by simp
qed

lemma stream_datalen_bounds:
  fixes len left :: nat
  assumes "sm_tx_offset (cn_strm conn sid) \<le> sm_max_tx_offset (cn_strm conn sid)" and "cn_tx_offset conn \<le> cn_max_tx_offset conn"
    and n_def: "n = unat (stream_datalen conn sid len left)"
  shows "n \<le> len" and "unat (sm_tx_offset (cn_strm conn sid)) + n \<le> unat (sm_max_tx_offset (cn_strm conn sid))"
    and "unat (cn_tx_offset conn) + n \<le> unat (cn_max_tx_offset conn)"
proof -
  have min: "unat (ngtcp2_min a b) = min (unat a) (unat b)" for a b by (auto simp: ngtcp2_min_def word_less_nat_alt)
  have sub: "b \<le> a \<Longrightarrow> unat (a - b) = unat a - unat b" for a b :: u64 by (simp add: unat_sub)
  have n: "n = min (min (min (unat (of_nat len :: u64)) (unat (of_nat left :: u64)))
      (unat (sm_max_tx_offset (cn_strm conn sid)) - unat (sm_tx_offset (cn_strm conn sid)))) (unat (cn_max_tx_offset conn) - unat (cn_tx_offset conn))"
    unfolding n_def stream_datalen_def Let_def min by (simp only: sub [OF assms(1)] sub [OF assms(2)])
  have "unat (of_nat len :: u64) \<le> len" by (simp add: unat_of_nat)
  then show "n \<le> len" unfolding n by linarith
  show "unat (sm_tx_offset (cn_strm conn sid)) + n \<le> unat (sm_max_tx_offset (cn_strm conn sid))"
    "unat (cn_tx_offset conn) + n \<le> unat (cn_max_tx_offset conn)"
    using assms(1,2) unfolding n word_le_nat_alt by linarith+
qed

lemma unat_add_within: "unat (a :: u64) + unat b \<le> unat c \<Longrightarrow> unat (a + b) = unat a + unat b \<and> a + b \<le> c"
  by (simp add: unat_add_le word_le_nat_alt)

section \<open>What a retransmission holds\<close>

lemma conn_track_stored:
  assumes "conn_track c used ent = Ok (c', None)"
  shows "\<exists>q \<in> set (rtb_head (cn_rtb c')). rtb_store (cn_rtb c') q = ent"
  using assms by (auto simp: conn_track_def conn_rtb_add_def ngtcp2_rtb_add_def Let_def rbind_Ok_iff c_assert_def split: prod.splits option.splits if_splits)

lemma retransmit_split_ok:
  assumes "retransmit_split conn p ent hdr gone rest pkt flags ts = Ok ((conn', ent'), Inr pkt')" and "gone \<noteq> []"
  shows "pkt' = pkt \<and> ent' = ent\<lparr>re_frc := rest\<rparr> \<and> (\<exists>q \<in> set (rtb_head (cn_rtb conn')). re_frc (rtb_store (cn_rtb conn') q) = gone)"
proof -
  obtain c r where new: "conn_rtb_entry_new conn hdr [] ts (re_deadline ent) pkt flags = (c, r)" by fastforce
  obtain nent where r: "r = Ok nent" using assms new by (cases r) (simp_all add: retransmit_split_def)
  obtain nent' where ext: "ngtcp2_rtb_entry_extend_expiry (nent\<lparr>re_count := re_count ent\<rparr>) ts = Ok nent'"
    using assms new r by (auto simp: retransmit_split_def rbind_Ok_iff)
  obtain c1 rv where track: "conn_track c [p] (nent'\<lparr>re_frc := gone\<rparr>) = Ok (c1, rv)"
    using assms new r ext by (auto simp: retransmit_split_def rbind_Ok_iff Let_def)
  have rv: "rv = None" "pkt' = pkt" "ent' = ent\<lparr>re_frc := rest\<rparr>" "conn' = inc_tx_pkt_num c1"
    using assms new r ext track by (auto simp: retransmit_split_def Let_def split: option.splits)
  obtain q where "q \<in> set (rtb_head (cn_rtb c1))" "rtb_store (cn_rtb c1) q = nent'\<lparr>re_frc := gone\<rparr>"
    using conn_track_stored [OF track [unfolded rv(1)]] ..
  then have "\<exists>q \<in> set (rtb_head (cn_rtb conn')). re_frc (rtb_store (cn_rtb conn') q) = gone"
    by (intro bexI [of _ q]) (simp_all add: rv(4) inc_tx_pkt_num_def)
  then show ?thesis using rv by simp
qed

lemma retransmit_check_indep: "same_but_app c c' \<Longrightarrow> retransmit_check c fr = retransmit_check c' fr"
  by (auto simp: same_but_app_def retransmit_check_def ngtcp2_conn_find_stream_def split: ngtcp2_frame.split)

text \<open>The run of \<open>conn_retransmit_protected\<close> that writes a packet.\<close>

lemma retransmit_run:
  assumes run: "conn_retransmit_protected conn dest p ent ts = Ok ((conn', ent'), Inr pkt)" and "pkt \<noteq> []" and tx: "cn_tx_ckm conn = Some ckm"
    and hdr: "(re_hd ent)\<lparr>hd_version := cn_version conn, hd_conn_id := cn_conn_id conn, hd_pkt_num := cn_last_tx_pkt_num conn + 1,
      hd_type := conn_select_pkt_type conn (cn_last_tx_pkt_num conn + 1)\<rparr> = hdr"
  obtains ppe conn1 ppe1 called1 gone rest rv conn2 ppe2 called2 where "pkt_begin dest (protected_ctx conn (Some ckm)) hdr = Ok ppe"
    and "write_frames retransmit_check hdr (conn, ppe, False) [] (re_frc ent) = Ok ((conn1, ppe1, called1), gone, rest, rv)"
    and "rv = None \<or> rv = Some NGTCP2_ERR_NOBUF" and "gone \<noteq> []"
    and "(if conn_next_ack_expired conn ts then append_ack hdr ts (conn1, ppe1, called1) else Ok ((conn1, ppe1, called1), None)) = Ok ((conn2, ppe2, called2), None)"
    and "pkt_final (cn_tx_ckm conn2) ppe2 = Ok pkt"
    and "if rest = [] then re_frc ent' = gone else re_frc ent' = rest \<and> (\<exists>q \<in> set (rtb_head (cn_rtb conn')). re_frc (rtb_store (cn_rtb conn') q) = gone)"
proof -
  note sim = conn_retransmit_protected_def Let_def tx on_ok_Ok hdr
  let ?ctx = "protected_ctx conn (Some ckm)"
  obtain ppe where ppe: "pkt_begin dest ?ctx hdr = Ok ppe" using run by (cases "pkt_begin dest ?ctx hdr") (simp_all add: sim on_ok_def)
  obtain conn1 ppe1 called1 gone rest rv where w: "write_frames retransmit_check hdr (conn, ppe, False) [] (re_frc ent) = Ok ((conn1, ppe1, called1), gone, rest, rv)"
    using run ppe by (cases "write_frames retransmit_check hdr (conn, ppe, False) [] (re_frc ent)") (auto simp: sim)
  have rv: "rv = None \<or> rv = Some NGTCP2_ERR_NOBUF" and gone: "gone \<noteq> []"
    using run assms(2) ppe w by (auto simp: sim split: if_splits option.splits)
  let ?acked = "if conn_next_ack_expired conn ts then append_ack hdr ts (conn1, ppe1, called1) else Ok ((conn1, ppe1, called1), None)"
  have no_return: "(rv \<noteq> None \<and> rv \<noteq> Some NGTCP2_ERR_NOBUF) = False" "(gone = []) = False" using rv gone by auto
  have run2: "rbind ?acked (\<lambda>((conn, ppe, called), rv).
        case rv of Some e \<Rightarrow> refuses (conn, ent\<lparr>re_frc := gone @ rest\<rparr>) e
        | None \<Rightarrow>
            if rest = [] then
              rbind (ngtcp2_rtb_entry_extend_expiry (ent\<lparr>re_frc := gone @ rest, re_hd := hdr\<rparr>) ts) (\<lambda>ent.
              on_ok (conn, ent) (pkt_final (cn_tx_ckm conn) ppe) (writes (inc_tx_pkt_num conn, ent)))
            else
              on_ok (conn, ent\<lparr>re_frc := gone @ rest\<rparr>) (pkt_final (cn_tx_ckm conn) ppe) (\<lambda>pkt.
              retransmit_split conn p (ent\<lparr>re_frc := gone @ rest\<rparr>) hdr gone rest pkt NGTCP2_RTB_FLAG_NONE ts)) = Ok ((conn', ent'), Inr pkt)"
    using run unfolding sim ppe w rbind.simps prod.case no_return if_False .
  obtain conn2 ppe2 called2 rv2 where ack: "?acked = Ok ((conn2, ppe2, called2), rv2)" using run2 by (cases ?acked) (auto split del: if_split)
  have rv2: "rv2 = None" using run2 unfolding ack by (cases rv2) simp_all
  obtain pkt' where fin: "pkt_final (cn_tx_ckm conn2) ppe2 = Ok pkt'"
    using run2 unfolding ack rv2 by (cases "pkt_final (cn_tx_ckm conn2) ppe2") (auto simp: rbind_Ok_iff on_ok_def split: if_splits)
  have "pkt' = pkt \<and> (if rest = [] then re_frc ent' = gone else re_frc ent' = rest \<and> (\<exists>q \<in> set (rtb_head (cn_rtb conn')). re_frc (rtb_store (cn_rtb conn') q) = gone))"
  proof (cases "rest = []")
    case True
    then show ?thesis using run2 unfolding ack rv2
      by (auto simp: rbind_Ok_iff on_ok_Ok fin ngtcp2_rtb_entry_extend_expiry_def Let_def c_assert_def split: if_splits)
  next
    case False
    then have "retransmit_split conn2 p (ent\<lparr>re_frc := gone @ rest\<rparr>) hdr gone rest pkt' NGTCP2_RTB_FLAG_NONE ts = Ok ((conn', ent'), Inr pkt)"
      using run2 unfolding ack rv2 by (simp add: on_ok_Ok fin)
    from retransmit_split_ok [OF this gone] False show ?thesis by auto
  qed
  then show thesis using that [OF ppe w rv gone ack [unfolded rv2]] fin by simp
qed

section \<open>A connection and a lost packet\<close>

text \<open>A client whose packets are not encrypted; it shows that the assumptions of the properties can hold.\<close>

definition sample_callbacks :: "unit ngtcp2_conn_callbacks" where
  "sample_callbacks =
     \<lparr>cb_send_client_initial = None, cb_send_client_handshake = None, cb_recv_client_initial = None,
      cb_send_server_handshake = None, cb_recv_stream0_data = (\<lambda>data a. (a, None)),
      cb_send_pkt = None, cb_send_frame = None, cb_recv_pkt = None, cb_recv_frame = None,
      cb_handshake_completed = None, cb_recv_version_negotiation = None,
      cb_hs_encrypt = (\<lambda>_ pt _ _ _. Some pt), cb_hs_decrypt = (\<lambda>_ ct _ _ _ a. (a, Inr ct)),
      cb_encrypt = (\<lambda>_ pt _ _ _. Some pt), cb_decrypt = (\<lambda>_ ct _ _ _ a. (a, Inr ct)),
      cb_recv_stream_data = None, cb_acked_stream_data_offset = None, cb_stream_close = None, cb_recv_stateless_reset = None,
      cb_recv_server_stateless_retry = None, cb_extend_max_stream_id = None\<rparr>"

definition sample_km :: ngtcp2_crypto_km where
  "sample_km = \<lparr>km_key = [], km_iv = replicate 12 0\<rparr>"

definition sample_ent :: ngtcp2_rtb_entry where
  "sample_ent = \<lparr>re_hd = ngtcp2_pkt_hd_init NGTCP2_PKT_FLAG_NONE NGTCP2_PKT_01 0 7 1, re_frc = [FR_MAX_DATA 9, FR_PING [1, 2]],
     re_expiry = 5, re_deadline = 9, re_count = 0, re_pktlen = 100, re_flags = 0\<rparr>"

definition sample_conn :: "unit ngtcp2_conn" where
  "sample_conn = (case ngtcp2_conn_client_new (\<lambda>_. 0) (\<lambda>_. sample_ent) 1 NGTCP2_PROTO_VER_D8 sample_callbacks zero_settings () [] of
     (Ok conn, _) \<Rightarrow> conn\<lparr>cn_max_tx_offset := 100, cn_tx_ckm := Some sample_km\<rparr> | _ \<Rightarrow> undefined)"

lemma sample_fields: "cn_tx_ckm sample_conn = Some sample_km" "cn_aead_overhead sample_conn = 0" "sm_tx_offset (cn_strm sample_conn 0) = 0"
  "cn_max_rx_offset sample_conn = 0" "cn_last_tx_pkt_num sample_conn = 0"
proof -
  have "cn_tx_ckm sample_conn = Some sample_km \<and> cn_aead_overhead sample_conn = 0 \<and> sm_tx_offset (cn_strm sample_conn 0) = 0 \<and>
    cn_max_rx_offset sample_conn = 0 \<and> cn_last_tx_pkt_num sample_conn = 0" by code_simp
  then show "cn_tx_ckm sample_conn = Some sample_km" "cn_aead_overhead sample_conn = 0" "sm_tx_offset (cn_strm sample_conn 0) = 0"
    "cn_max_rx_offset sample_conn = 0" "cn_last_tx_pkt_num sample_conn = 0" by blast+
qed

lemma sample_callbacks_eq: "cn_callbacks sample_conn = sample_callbacks"
proof -
  have "case ngtcp2_conn_client_new (\<lambda>_. 0) (\<lambda>_. sample_ent) 1 NGTCP2_PROTO_VER_D8 sample_callbacks zero_settings () [] of
     (Ok conn, _) \<Rightarrow> True | _ \<Rightarrow> False" by code_simp
  moreover have "cn_callbacks conn = sample_callbacks"
    if "ngtcp2_conn_client_new (\<lambda>_. 0) (\<lambda>_. sample_ent) 1 NGTCP2_PROTO_VER_D8 sample_callbacks zero_settings () [] = (Ok conn, mem)" for conn mem
    using that by (auto simp: ngtcp2_conn_client_new_def conn_new_def mbind_def malloc_or_nomem_def Let_def split: prod.splits result.splits if_splits option.splits)
  ultimately show ?thesis by (auto simp: sample_conn_def split: prod.splits result.splits)
qed

lemma sample_aead: "aead_ok (protected_ctx sample_conn (Some sample_km)) (\<lambda>ct key nonce ad. Some ct)"
  using sample_fields(2) by (simp add: sample_callbacks_eq aead_ok_def protected_ctx_def pkt_ctx_def sample_callbacks_def)

lemma sample_write: "\<exists>conn' pkt. ngtcp2_conn_write_stream sample_conn (replicate 60 0) 0 True [1, 2, 3] 7 = Ok ((conn', Some 3), Inr pkt)"
proof -
  have "case ngtcp2_conn_write_stream sample_conn (replicate 60 0) 0 True [1, 2, 3] 7 of Ok ((_, Some n), Inr pkt) \<Rightarrow> n = 3 \<and> pkt \<noteq> [] | _ \<Rightarrow> False"
    by code_simp
  then show ?thesis by (auto split: result.splits prod.splits sum.splits option.splits) (metis sum.exhaust)+
qed

section \<open>Properties\<close>

text \<open>
  C6. A call that writes stream data takes a prefix of the data, not empty unless there is none, and advances the offsets by its
  length. When the offsets were within the limits of the peer, of the stream and of the connection, they still are: no byte is sent
  that the peer did not allow. Other streams do not change, and the stream is closed for writing when its last byte was sent
  with FIN.
\<close>

theorem stream_sent_within_limits:
  assumes run: "ngtcp2_conn_write_stream conn dest sid fin data ts = Ok ((conn', Some n), Inr pkt)"
    and strm: "sm_tx_offset (cn_strm conn sid) \<le> sm_max_tx_offset (cn_strm conn sid)" and total: "cn_tx_offset conn \<le> cn_max_tx_offset conn"
  shows "n \<le> length data \<and> (data \<noteq> [] \<longrightarrow> 0 < n) \<and>
    unat (sm_tx_offset (cn_strm conn' sid)) = unat (sm_tx_offset (cn_strm conn sid)) + n \<and>
    sm_tx_offset (cn_strm conn' sid) \<le> sm_max_tx_offset (cn_strm conn sid) \<and> sm_max_tx_offset (cn_strm conn' sid) = sm_max_tx_offset (cn_strm conn sid) \<and>
    unat (cn_tx_offset conn') = unat (cn_tx_offset conn) + (if sid = 0 then 0 else n) \<and> cn_tx_offset conn' \<le> cn_max_tx_offset conn' \<and>
    cn_max_tx_offset conn' = cn_max_tx_offset conn \<and> (\<forall>t. t \<noteq> sid \<longrightarrow> cn_strm conn' t = cn_strm conn t) \<and>
    (fin \<and> n = length data \<longrightarrow> sm_flags (cn_strm conn' sid) AND NGTCP2_STRM_FLAG_SHUT_WR \<noteq> 0)"
proof -
  obtain c ppe w where c: "same_tx c conn" and w: "w = stream_datalen conn sid (length data) (ngtcp2_ppe_left ppe - NGTCP2_STREAM_OVERHEAD)"
    and n: "n = unat w" "data \<noteq> [] \<Longrightarrow> w \<noteq> 0" and conn': "conn' = stream_pkt_sent c sid w (fin \<and> n = length data)"
    using run by (rule write_stream_sent) blast
  note bounds = stream_datalen_bounds [OF strm total n(1) [unfolded w]]
  note add = unat_add_within [OF bounds(2) [unfolded n(1)]] unat_add_within [OF bounds(3) [unfolded n(1)]]
  have "data \<noteq> [] \<longrightarrow> 0 < n" using n(2) by (simp add: n(1) unat_gt_0)
  moreover have "(f OR NGTCP2_STRM_FLAG_SHUT_WR) AND NGTCP2_STRM_FLAG_SHUT_WR = NGTCP2_STRM_FLAG_SHUT_WR" for f :: u32
    by (simp add: bit.conj_disj_distrib2)
  ultimately show ?thesis
    using c add bounds(1) total
    by (auto simp: conn' stream_pkt_sent_def Let_def upd_strm_def inc_tx_pkt_num_def same_tx_def ngtcp2_strm_shutdown_def n(1))
qed

theorem stream_sent_within_limits_witness:
  "\<exists>conn' pkt. ngtcp2_conn_write_stream sample_conn (replicate 60 0) 0 True [1, 2, 3] 7 = Ok ((conn', Some 3), Inr pkt) \<and>
     unat (sm_tx_offset (cn_strm conn' 0)) = 3"
proof -
  obtain conn' pkt where run: "ngtcp2_conn_write_stream sample_conn (replicate 60 0) 0 True [1, 2, 3] 7 = Ok ((conn', Some 3), Inr pkt)"
    using sample_write by blast
  have "sm_tx_offset (cn_strm sample_conn 0) = 0 \<and> sm_tx_offset (cn_strm sample_conn 0) \<le> sm_max_tx_offset (cn_strm sample_conn 0) \<and>
      cn_tx_offset sample_conn \<le> cn_max_tx_offset sample_conn" by code_simp
  with stream_sent_within_limits [OF run] show ?thesis using run by auto
qed

text \<open>
  C7. The receiver of a packet with stream data, who shares the key, decodes its header, decrypts the payload under the nonce of
  the packet number, and finds in it exactly one frame: a STREAM frame with the bytes that the call
  took, at the offset of the stream, with the FIN bit exactly when all bytes were taken and the application asked for it.
\<close>

theorem stream_sent_decoded:
  assumes run: "ngtcp2_conn_write_stream conn dest sid fin data ts = Ok ((conn', Some n), Inr pkt)"
    and key: "stream_pkt_key conn = Inr (flags, type, cid, ckm)" and iv: "8 \<le> length (km_iv ckm)" "length (km_iv ckm) \<le> 32"
    and aead: "aead_ok (protected_ctx conn (Some ckm)) dec" and room: "17 + cn_aead_overhead conn \<le> length dest"
    and ids: "vint sid" "vint (sm_tx_offset (cn_strm conn sid))" "length data < 2 ^ 62"
  shows "length pkt \<le> length dest \<and>
    (\<exists>payload. opened dec ckm (cn_last_tx_pkt_num conn + 1) (hd_sent (conn_pkt_hd conn flags type cid)) pkt payload \<and>
      decode_frames (length payload) payload = Some [sent (FR_STREAM \<lparr>st_flags = 0, st_fin = fin \<and> n = length data, st_stream_id = sid,
        st_offset = sm_tx_offset (cn_strm conn sid), st_data = take n data\<rparr>)])"
proof -
  let ?ctx = "protected_ctx conn (Some ckm)" and ?hdr = "conn_pkt_hd conn flags type cid"
  let ?fr = "FR_STREAM \<lparr>st_flags = 0, st_fin = fin \<and> n = length data, st_stream_id = sid,
      st_offset = sm_tx_offset (cn_strm conn sid), st_data = take n data\<rparr>"
  obtain ppe ppe1 fr where ppe: "pkt_begin dest ?ctx ?hdr = Ok ppe" and enc: "ngtcp2_ppe_encode_frame ppe ?fr = Ok (ppe1, fr)"
    and fin: "pkt_final (Some ckm) ppe1 = Ok pkt"
    using run key by (elim write_stream_sent) simp
  have num: "hd_pkt_num ?hdr = cn_last_tx_pkt_num conn + 1" by (simp add: conn_pkt_hd_def ngtcp2_pkt_hd_init_def)
  have "hd_encodable ?hdr"
    using key by (auto simp: stream_pkt_key_def conn_pkt_hd_def ngtcp2_pkt_hd_init_def hd_encodable_def conn_select_pkt_type_def Let_def split: option.splits if_splits)
  from pkt_begins [OF ppe this] room obtain hdb where hdb: "ppe_holds ppe (length dest) hdb []" "ppe_ctx ppe = ?ctx"
      "ppe_pkt_num ppe = hd_pkt_num ?hdr" "\<forall>rest. ngtcp2_pkt_decode_hd (hdb @ rest) = Ok (hd_sent ?hdr, length hdb)"
    by (auto simp: protected_ctx_fields)
  have fr: "frame_ok ?fr" "\<not> is_padding ?fr" using ids by (simp_all add: is_padding_def)
  from ppe_encode_frame_ok [OF hdb(1) this] enc obtain bs where bs: "encodes bs (sent ?fr)" "ppe_holds ppe1 (length dest) hdb bs"
      "ppe_ctx ppe1 = ?ctx" "ppe_pkt_num ppe1 = cn_last_tx_pkt_num conn + 1"
    by (auto simp: hdb(2,3) num encodes_def split: if_splits)
  note open_pkt = pkt_opened [OF fin bs(2,3) protected_ctx_fields(2) bs(4) aead iv hdb(4)]
  show ?thesis using open_pkt decode_encoded [of "[bs]" "[sent ?fr]"] bs(1) by auto
qed

theorem stream_sent_decoded_witness:
  "\<exists>conn' pkt payload. ngtcp2_conn_write_stream sample_conn (replicate 60 0) 0 True [1, 2, 3] 7 = Ok ((conn', Some 3), Inr pkt) \<and>
     decode_frames (length payload) payload =
       Some [FR_STREAM \<lparr>st_flags = 3, st_fin = True, st_stream_id = 0, st_offset = 0, st_data = [1, 2, 3]\<rparr>]"
proof -
  obtain conn' pkt where run: "ngtcp2_conn_write_stream sample_conn (replicate 60 0) 0 True [1, 2, 3] 7 = Ok ((conn', Some 3), Inr pkt)"
    using sample_write by blast
  obtain flags type cid where key: "stream_pkt_key sample_conn = Inr (flags, type, cid, sample_km)"
    using sample_fields(1) by (simp add: stream_pkt_key_def)
  from stream_sent_decoded [OF run key _ _ sample_aead] show ?thesis
    using run sample_fields(2,3) by (auto simp: sample_km_def stream_encode_flags_def)
qed

text \<open>
  C8. When a lost packet is retransmitted, a prefix of its frames has been dealt with: those of it that are still needed are in the
  new packet, in order, with an ACK frame after them only when one was due. If all frames were dealt with, the entry keeps what
  was sent; otherwise it keeps the remaining frames, and a new entry of the buffer records the sent ones. So no frame that is
  needed is lost. No STOP\_SENDING frame of the packet is obsolete (\<open>stop_sending_retransmission_faults\<close> is about these).
\<close>

theorem retransmitted_frames:
  assumes run: "conn_retransmit_protected conn dest p ent ts = Ok ((conn', ent'), Inr pkt)" "pkt \<noteq> []"
    and frs: "\<forall>fr \<in> set (re_frc ent). frame_ok fr \<and> \<not> is_padding fr \<and> retransmit_check conn fr \<noteq> Ok FrameCancelSendNext"
    and short: "hd_flags (re_hd ent) AND NGTCP2_PKT_FLAG_LONG_FORM = 0"
    and key: "cn_tx_ckm conn = Some ckm" and iv: "8 \<le> length (km_iv ckm)" "length (km_iv ckm) \<le> 32"
    and aead: "aead_ok (protected_ctx conn (Some ckm)) dec" and room: "17 + cn_aead_overhead conn \<le> length dest"
  shows "\<exists>pre suf bss acks h. re_frc ent = pre @ suf \<and>
    opened dec ckm (cn_last_tx_pkt_num conn + 1) h pkt (concat bss @ acks) \<and> list_all2 encodes bss (map sent (sendable retransmit_check conn pre)) \<and>
    (acks = [] \<or> conn_next_ack_expired conn ts) \<and>
    (if suf = [] then re_frc ent' = map sent (sendable retransmit_check conn pre)
     else map sent (re_frc ent') = map sent suf \<and>
       (\<exists>q \<in> set (rtb_head (cn_rtb conn')). re_frc (rtb_store (cn_rtb conn') q) = map sent (sendable retransmit_check conn pre)))"
proof -
  obtain hdr where hdr: "(re_hd ent)\<lparr>hd_version := cn_version conn, hd_conn_id := cn_conn_id conn, hd_pkt_num := cn_last_tx_pkt_num conn + 1,
      hd_type := conn_select_pkt_type conn (cn_last_tx_pkt_num conn + 1)\<rparr> = hdr" by blast
  let ?ctx = "protected_ctx conn (Some ckm)" and ?L = "length dest" and ?sendable = "sendable retransmit_check conn"
  obtain ppe conn1 ppe1 called1 gone rest rv conn2 ppe2 called2 where r: "pkt_begin dest ?ctx hdr = Ok ppe"
    "write_frames retransmit_check hdr (conn, ppe, False) [] (re_frc ent) = Ok ((conn1, ppe1, called1), gone, rest, rv)"
    "rv = None \<or> rv = Some NGTCP2_ERR_NOBUF"
    "(if conn_next_ack_expired conn ts then append_ack hdr ts (conn1, ppe1, called1) else Ok ((conn1, ppe1, called1), None)) = Ok ((conn2, ppe2, called2), None)"
    "pkt_final (cn_tx_ckm conn2) ppe2 = Ok pkt"
    "if rest = [] then re_frc ent' = gone else re_frc ent' = rest \<and> (\<exists>q \<in> set (rtb_head (cn_rtb conn')). re_frc (rtb_store (cn_rtb conn') q) = gone)"
    by (rule retransmit_run [OF run key hdr]) (rule that)
  have hd: "hd_encodable hdr" "hd_pkt_num hdr = cn_last_tx_pkt_num conn + 1"
    using short by (auto simp: hdr [symmetric] hd_encodable_def conn_select_pkt_type_def Let_def)
  from pkt_begins [OF r(1) hd(1)] room obtain hdb where hdb: "ppe_holds ppe ?L hdb []" "ppe_ctx ppe = ?ctx" "ppe_pkt_num ppe = hd_pkt_num hdr"
      "\<forall>rest. ngtcp2_pkt_decode_hd (hdb @ rest) = Ok (hd_sent hdr, length hdb)" by (auto simp: protected_ctx_fields)
  have "pkt_holds ppe ?L hdb [] ppe" using hdb(1) by (auto simp: pkt_holds_def same_pkt_def intro: exI [of _ "[]"])
  from write_frames_holds [OF retransmit_check_indep r(2) frs this] r(3) obtain pre suf where frames: "re_frc ent = pre @ suf" "gone = map sent (?sendable pre)"
      "map sent rest = map sent suf" "pkt_holds ppe ?L hdb gone ppe1" by auto
  obtain bss where bss: "ppe_holds ppe1 ?L hdb (concat bss)" "list_all2 encodes bss gone" "same_pkt ppe1 ppe" using frames(4) by (auto simp: pkt_holds_def)
  have "\<exists>acks. ppe_holds ppe2 ?L hdb (concat bss @ acks) \<and> same_pkt ppe2 ppe1 \<and> (acks = [] \<or> conn_next_ack_expired conn ts)"
  proof (cases "conn_next_ack_expired conn ts")
    case True
    then have "append_ack hdr ts (conn1, ppe1, called1) = Ok ((conn2, ppe2, called2), None)" using r(4) by simp
    from append_ack_holds [OF this bss(1)] True show ?thesis by blast
  next
    case False
    then show ?thesis using r(4) bss(1) by (intro exI [of _ "[]"]) (simp add: same_pkt_def)
  qed
  then obtain acks where acks: "ppe_holds ppe2 ?L hdb (concat bss @ acks)" "same_pkt ppe2 ppe1" "acks = [] \<or> conn_next_ack_expired conn ts" by blast
  have ctx: "ppe_ctx ppe2 = ?ctx" "ppe_pkt_num ppe2 = cn_last_tx_pkt_num conn + 1" using acks(2) bss(3) hdb(2,3) hd(2) by (simp_all add: same_pkt_def)
  note open_pkt = pkt_opened(1) [OF r(5) acks(1) ctx(1) protected_ctx_fields(2) ctx(2) aead iv hdb(4)]
  have "rest = [] \<longleftrightarrow> suf = []" using frames(3) by (metis map_is_Nil_conv)
  with frames r(6) have "if suf = [] then re_frc ent' = map sent (?sendable pre)
     else map sent (re_frc ent') = map sent suf \<and> (\<exists>q \<in> set (rtb_head (cn_rtb conn')). re_frc (rtb_store (cn_rtb conn') q) = map sent (?sendable pre))"
    by (auto split: if_splits)
  then show ?thesis using frames(1,2) open_pkt acks(3) bss(2) by blast
qed

theorem retransmitted_frames_witness:
  "\<exists>conn' ent' pkt. conn_retransmit_protected sample_conn (replicate 60 0) 5 sample_ent 7 = Ok ((conn', ent'), Inr pkt) \<and>
     (\<exists>payload h. opened (\<lambda>ct key nonce ad. Some ct) sample_km 1 h pkt payload)"
proof -
  have "case conn_retransmit_protected sample_conn (replicate 60 0) 5 sample_ent 7 of Ok (_, Inr pkt) \<Rightarrow> pkt \<noteq> [] | _ \<Rightarrow> False" by code_simp
  then obtain conn' ent' pkt where run: "conn_retransmit_protected sample_conn (replicate 60 0) 5 sample_ent 7 = Ok ((conn', ent'), Inr pkt)" "pkt \<noteq> []"
    by (auto split: result.splits prod.splits sum.splits)
  have check: "\<forall>fr \<in> set (re_frc sample_ent). frame_ok fr \<and> \<not> is_padding fr \<and> retransmit_check sample_conn fr \<noteq> Ok FrameCancelSendNext"
    using sample_fields(4) by (simp add: sample_ent_def retransmit_check_def is_padding_def)
  from retransmitted_frames [OF run check _ sample_fields(1) _ _ sample_aead] show ?thesis
    using run(1) sample_fields(2,5) by (auto simp: sample_km_def sample_ent_def ngtcp2_pkt_hd_init_def)
qed

text \<open>
  C37. Defect: when the only frame of a lost packet is a STOP\_SENDING frame for a stream that is closed, the retransmission follows
  a null pointer, as the loop does not go on to its end after it removed the frame.
\<close>

theorem stop_sending_retransmission_faults:
  assumes ent: "re_frc ent = [FR_STOP_SENDING ss]" and closed: "ngtcp2_conn_find_stream conn (ss_stream_id ss) = Ok None"
    and short: "hd_flags (re_hd ent) AND NGTCP2_PKT_FLAG_LONG_FORM = 0" and room: "17 + cn_aead_overhead conn \<le> length dest"
  shows "conn_retransmit_protected conn dest p ent ts = Fault"
proof -
  obtain hdr where hdr: "(re_hd ent)\<lparr>hd_version := cn_version conn, hd_conn_id := cn_conn_id conn, hd_pkt_num := cn_last_tx_pkt_num conn + 1,
      hd_type := conn_select_pkt_type conn (cn_last_tx_pkt_num conn + 1)\<rparr> = hdr" by blast
  let ?ctx = "protected_ctx conn (cn_tx_ckm conn)"
  have "hd_encodable hdr" using short by (auto simp: hdr [symmetric] hd_encodable_def conn_select_pkt_type_def Let_def)
  from ppe_encode_hd_ok [OF this, of ?ctx dest "[]"] room obtain ppe where "pkt_begin dest ?ctx hdr = Ok ppe"
    by (auto simp: pkt_begin_def protected_ctx_def pkt_ctx_def)
  then show ?thesis by (simp add: conn_retransmit_protected_def Let_def hdr ent on_ok_Ok retransmit_check_def closed)
qed

theorem stop_sending_retransmission_faults_witness:
  "conn_retransmit_protected sample_conn (replicate 60 0) 5 (sample_ent\<lparr>re_frc := [FR_STOP_SENDING \<lparr>ss_stream_id = 4, ss_app_error_code = 1\<rparr>]\<rparr>) 7 = Fault"
proof -
  let ?ss = "\<lparr>ss_stream_id = 4, ss_app_error_code = 1\<rparr>"
  have "case ngtcp2_conn_find_stream sample_conn (ss_stream_id ?ss) of Ok None \<Rightarrow> True | _ \<Rightarrow> False" by code_simp
  then have closed: "ngtcp2_conn_find_stream sample_conn (ss_stream_id ?ss) = Ok None" by (simp split: result.splits option.splits)
  show ?thesis
    by (rule stop_sending_retransmission_faults [OF _ closed]) (simp_all add: sample_ent_def ngtcp2_pkt_hd_init_def sample_fields(2))
qed

end
