(* ===== verification/Conn_Reach.thy ===== *)
theory Conn_Reach
  imports Conn_Write_Inv
begin

text \<open>
  The states that a connection reaches from its creation, and what holds of them: creation, the receipt
  of datagrams, the writing of packets and the other calls of the application keep the invariant of \<open>Conn_Invariant\<close>. The last
  sections state the properties of the receiving side, with the run of a handshake as their witness.
\<close>

section \<open>New connections\<close>

lemma mbind_Ok: "mbind m k = (Ok y, mem') \<longleftrightarrow> (\<exists>x mem. m = (Ok x, mem) \<and> k x mem = (Ok y, mem'))"
  by (auto simp: mbind_def split: prod.splits result.splits)

lemma idtr_init_ok:
  assumes "ngtcp2_idtr_init server [] = (Ok idtr, mem)"
  shows "mem = []" and "idtr_inv idtr" and "idtr_server idtr = server"
  using assms by (auto simp: ngtcp2_idtr_init_def ngtcp2_idtr_gap_new_def idtr_inv_def idgaps_ok_def ngtcp2_range_init_def split: prod.splits)

lemma map_one_ok:
  assumes "ngtcp2_map_init [] = (Ok m, mem)" and "ngtcp2_map_insert m (ngtcp2_map_entry_init 0 ()) [] mem = Ok (m', mem', None)"
  shows "mem' = []" and "map_inv m'" and "map_abs m' t \<noteq> None \<longleftrightarrow> t = 0"
proof -
  have m: "map_inv m" "map_abs m = Map.empty" "mem = []" "map_size m = 0"
    using map_init_inv [OF assms(1)] assms(1) by (auto simp: ngtcp2_map_init_def ngtcp2_mem_calloc_def Let_def)
  show "mem' = []" using map_insert_total [of m "ngtcp2_map_entry_init 0 ()" "[]"] assms(2) m(3) by (simp add: no_alloc_def)
  show "map_inv m'" "map_abs m' t \<noteq> None \<longleftrightarrow> t = 0"
    using map_insert_refines [OF m(1), of "ngtcp2_map_entry_init 0 ()" mem] assms(2) m(2,4) by (auto simp: ngtcp2_map_entry_init_def)
qed

lemma insert_case:
  "(case r of Ok (strms, mem, None) \<Rightarrow> (Ok strms, mem) | Ok (strms, mem, Some e) \<Rightarrow> (Err e, mem) | Err e \<Rightarrow> (Err e, mem0) | Fault \<Rightarrow> (Fault, mem0)) =
     (Ok m, mem') \<longleftrightarrow> r = Ok (m, mem', None)"
  by (auto split: result.splits option.splits)

lemma acktr_init_mem: "ngtcp2_acktr_init [] = (Ok acktr, mem) \<Longrightarrow> mem = []"
  by (auto simp: ngtcp2_acktr_init_def ngtcp2_ringbuf_init_def Let_def split: result.splits prod.splits if_splits)

text \<open>What \<open>conn_new\<close> sets up.\<close>

definition rx_keys_of :: "'a ngtcp2_conn \<Rightarrow> rx_keys" where
  "rx_keys_of conn = \<lparr>rk_hs = cn_hs_rx_ckm conn, rk_rx = cn_rx_ckm conn, rk_early = cn_early_ckm conn,
     rk_completed = cn_flags conn AND NGTCP2_CONN_FLAG_HANDSHAKE_COMPLETED, rk_one_block = one_ack_block (cn_callbacks conn)\<rparr>"

lemma conn_new_ok:
  assumes "conn_new index st conn_id version callbacks settings app server [] = (Ok conn, mem)"
  shows "mem = [] \<and> cn_mem conn = [] \<and> cn_callbacks conn = callbacks \<and> cn_app conn = app \<and> cn_server conn = server \<and>
    map_inv (cn_strms conn) \<and> (\<forall>t. live conn t \<longleftrightarrow> t = 0) \<and> new_strm 0 (cn_strm conn 0) \<and>
    idtr_inv (cn_remote_bidi_idtr conn) \<and> idtr_server (cn_remote_bidi_idtr conn) = (\<not> server) \<and>
    idtr_inv (cn_remote_uni_idtr conn) \<and> idtr_server (cn_remote_uni_idtr conn) = (\<not> server) \<and>
    cn_max_local_stream_id_bidi conn = 0 \<and> cn_max_local_stream_id_uni conn = 0 \<and>
    cn_max_remote_stream_id_bidi conn = ucast (se_max_stream_id_bidi settings) \<and>
    cn_max_remote_stream_id_uni conn = ucast (se_max_stream_id_uni settings) \<and>
    cn_rx_offset conn = 0 \<and> acktr_wf (cn_acktr conn) \<and> rtb_wf (cn_rtb conn) \<and> cn_buffed_rx_ppkts conn = []"
proof -
  obtain strm0 mem1 strms0 mem2 strms mem3 bidi mem4 uni mem5 acktr where
    init: "ngtcp2_strm_init 0 NGTCP2_STRM_FLAG_NONE (ucast (se_max_stream_data settings)) NGTCP2_STRM0_MAX_STREAM_DATA 0 [] = (Ok strm0, mem1)"
      "ngtcp2_map_init mem1 = (Ok strms0, mem2)" "ngtcp2_map_insert strms0 (ngtcp2_map_entry_init 0 ()) [] mem2 = Ok (strms, mem3, None)"
      "ngtcp2_idtr_init (\<not> server) mem3 = (Ok bidi, mem4)" "ngtcp2_idtr_init (\<not> server) mem4 = (Ok uni, mem5)"
      "ngtcp2_acktr_init mem5 = (Ok acktr, mem)"
    and conn: "cn_mem conn = mem" "cn_callbacks conn = callbacks" "cn_app conn = app" "cn_server conn = server" "cn_strms conn = strms"
      "cn_strm conn = (\<lambda>_. strm0)" "cn_remote_bidi_idtr conn = bidi" "cn_remote_uni_idtr conn = uni" "cn_max_local_stream_id_bidi conn = 0"
      "cn_max_local_stream_id_uni conn = 0" "cn_max_remote_stream_id_bidi conn = ucast (se_max_stream_id_bidi settings)"
      "cn_max_remote_stream_id_uni conn = ucast (se_max_stream_id_uni settings)" "cn_rx_offset conn = 0" "cn_acktr conn = acktr"
      "cn_rtb conn = ngtcp2_rtb_init index st" "cn_buffed_rx_ppkts conn = []"
    using assms unfolding conn_new_def
    by (auto simp: mbind_Ok malloc_or_nomem_def insert_case)
  have 1: "mem1 = []" "new_strm 0 strm0" using strm_init_total [OF init(1)] strm_init_ok(2) [OF init(1) ucast_varint] by auto
  note 2 = map_one_ok [OF init(2) [unfolded 1(1)] init(3)]
  note 3 = idtr_init_ok [OF init(4) [unfolded 2(1)]]
  note 4 = idtr_init_ok [OF init(5) [unfolded 3(1)]]
  have 5: "mem = []" "acktr_wf acktr" using acktr_init_mem [OF init(6) [unfolded 4(1)]] acktr_init_inv [OF init(6)] by (simp_all add: acktr_inv_wf)
  show ?thesis using 1 2 3 4 5 rtb_inv_init [of index st] by (simp add: conn live_def rtb_inv_def)
qed

text \<open>
  The configuration of a new connection: the callbacks deliver the data and authenticate packets, the
  application has been given nothing yet, and the local settings allow stream identifiers below \<open>2 ^ 28\<close>.
\<close>

definition config_ok :: "('a \<Rightarrow> u64 \<Rightarrow> bytes) \<Rightarrow> (u64 \<Rightarrow> u64 \<Rightarrow> u8) \<Rightarrow> 'a ngtcp2_conn_callbacks \<Rightarrow> ngtcp2_settings \<Rightarrow> 'a \<Rightarrow> bool" where
  "config_ok got S cbs settings app \<longleftrightarrow> delivers got cbs \<and> authentic S cbs \<and> (\<forall>sid. got app sid = []) \<and>
     unat (se_max_stream_id_bidi settings) < 2 ^ 28 \<and> unat (se_max_stream_id_uni settings) < 2 ^ 28"

lemma small_id_ucast: "small_id (ucast (w :: u32)) \<longleftrightarrow> unat w < 2 ^ 28"
  by (simp add: small_id_def)

lemma rx_inv_new:
  assumes new: "conn_new index st conn_id version callbacks settings app server [] = (Ok c, mem)" and ok: "config_ok got S callbacks settings app"
    and server: "server \<longrightarrow> cb_recv_client_initial callbacks \<noteq> None"
    and conn: "cn_callbacks conn = callbacks" "cn_server conn = server" "cn_mem conn = []" "cn_strms conn = cn_strms c" "cn_strm conn = cn_strm c"
      "cn_remote_uni_idtr conn = cn_remote_uni_idtr c" "cn_max_local_stream_id_bidi conn = cn_max_local_stream_id_bidi c"
      "cn_max_local_stream_id_uni conn = cn_max_local_stream_id_uni c" "cn_max_remote_stream_id_bidi conn = cn_max_remote_stream_id_bidi c"
      "cn_max_remote_stream_id_uni conn = cn_max_remote_stream_id_uni c" "cn_rx_offset conn = cn_rx_offset c" "cn_acktr conn = cn_acktr c"
      "cn_rtb conn = cn_rtb c" "cn_buffed_rx_ppkts conn = cn_buffed_rx_ppkts c" "cn_app conn = app"
    and idtr: "idtr_inv (cn_remote_bidi_idtr conn)" "idtr_server (cn_remote_bidi_idtr conn) = (\<not> server)"
    and ids: "conn_local_stream conn (cn_next_local_stream_id_bidi conn)" "bidi_stream (cn_next_local_stream_id_bidi conn)"
      "conn_local_stream conn (cn_next_local_stream_id_uni conn)" "\<not> bidi_stream (cn_next_local_stream_id_uni conn)"
    and zero: "\<not> fresh conn 0"
  shows "rx_inv (rx_keys_of conn) got S conn"
proof -
  note c = conn_new_ok [OF new]
  have l: "live conn t \<longleftrightarrow> t = 0" for t using c conn by (simp add: live_def)
  have "\<exists>n. got app sid = stream_prefix (S sid) n" for sid using ok by (intro exI [of _ 0]) (simp add: config_ok_def stream_prefix_def)
  moreover have "ids_ok conn" using c conn idtr ids ok by (simp add: ids_ok_def config_ok_def small_id_ucast)
  moreover have "data_counted got conn"
    using c conn ok by (auto simp: data_counted_def counted_def l config_ok_def new_strm_def intro!: sum.neutral)
  ultimately show ?thesis
    using c ok server zero unfolding rx_inv_def l conn by (simp add: conn(1) rx_keys_of_def config_ok_def new_strm_def small_id_def)
qed

lemma client_new_ok:
  assumes new: "ngtcp2_conn_client_new index st conn_id version callbacks settings app [] = (Ok conn, mem)"
    and ok: "config_ok got S callbacks settings app"
  shows "rx_inv (rx_keys_of conn) got S conn"
proof -
  obtain c mem' where c: "conn_new index st conn_id version callbacks settings app False [] = (Ok c, mem')"
    and conn: "conn = c\<lparr>cn_client_conn_id := conn_id, cn_next_local_stream_id_bidi := 4, cn_next_local_stream_id_uni := 2\<rparr>"
    using new by (auto simp: ngtcp2_conn_client_new_def mbind_Ok)
  show ?thesis
    using conn_new_ok [OF c] by (intro rx_inv_new [OF c ok]) (simp_all add: conn conn_local_stream_def bidi_stream_def fresh_def)
qed

lemma server_new_ok:
  assumes new: "ngtcp2_conn_server_new index st conn_id version callbacks settings app [] = (Ok conn, mem)"
    and ok: "config_ok got S callbacks settings app" and initial: "cb_recv_client_initial callbacks \<noteq> None"
  shows "rx_inv (rx_keys_of conn) got S conn"
proof -
  obtain c mem1 where c: "conn_new index st conn_id version callbacks settings app True [] = (Ok c, mem1)"
    and rest: "(case ngtcp2_idtr_open (cn_remote_bidi_idtr c) 0 mem1 of
         Ok (idtr, mem, _) \<Rightarrow>
           (Ok (c\<lparr>cn_remote_bidi_idtr := idtr, cn_mem := mem, cn_next_local_stream_id_bidi := 1, cn_next_local_stream_id_uni := 3\<rparr>), mem)
       | Err e \<Rightarrow> (Err e, mem1) | Fault \<Rightarrow> (Fault, mem1)) = (Ok conn, mem)"
    using new by (auto simp: ngtcp2_conn_server_new_def mbind_Ok)
  obtain idtr mem2 rv where run: "ngtcp2_idtr_open (cn_remote_bidi_idtr c) 0 mem1 = Ok (idtr, mem2, rv)"
    and conn: "conn = c\<lparr>cn_remote_bidi_idtr := idtr, cn_mem := mem2, cn_next_local_stream_id_bidi := 1, cn_next_local_stream_id_uni := 3\<rparr>"
    using rest by (cases "ngtcp2_idtr_open (cn_remote_bidi_idtr c) 0 mem1") auto
  note new_c = conn_new_ok [OF c]
  then have mem: "mem2 = []" using run idtr_open_total by simp
  have t: "idtr_inv (cn_remote_bidi_idtr c)" "idtr_assert (idtr_server (cn_remote_bidi_idtr c)) 0" using new_c by (simp_all add: idtr_assert_def)
  have idtr: "idtr_inv idtr" "id_from_stream_id 0 \<notin> idtr_unused idtr"
    using idtr_open_ok [OF t, of "[]"] run new_c by (auto split: if_splits)
  have "idtr_server idtr = idtr_server (cn_remote_bidi_idtr c)" using run by (auto simp: ngtcp2_idtr_open_def result_simps split: prod.splits)
  then show ?thesis
    using new_c idtr mem by (intro rx_inv_new [OF c ok]) (simp_all add: conn initial conn_local_stream_def bidi_stream_def fresh_def remote_idtr_def)
qed

section \<open>Operations of the application\<close>

lemma next_id:
  assumes "small_id sid"
  shows "unat (sid + 4) = unat sid + 4" and "conn_local_stream conn (sid + 4) = conn_local_stream conn sid"
    and "bidi_stream (sid + 4) = bidi_stream sid"
proof -
  show u: "unat (sid + 4) = unat sid + 4" using assms by (subst unat_add_small) (simp_all add: small_id_def)
  have even: "(w mod 2 = 0) = (unat w mod 2 = 0)" for w :: u64 by (simp add: unat_mod word_unat_eq_iff)
  have "(unat sid + 4) mod 2 = unat sid mod 2" by presburger
  then show "conn_local_stream conn (sid + 4) = conn_local_stream conn sid" unfolding conn_local_stream_def even u by simp
  have bit: "(w AND 2 = 0) = even (unat w div 2)" for w :: u64
  proof -
    have "(w AND 2 = 0) = (\<not> bit w 1)" using and_exp_eq_0_iff_not_bit [of w 1] by simp
    also have "bit w 1 = bit (unat w) 1" by (simp add: bit_unsigned_iff)
    finally show ?thesis by (simp add: bit_iff_odd)
  qed
  have "(unat sid + 4) div 2 = unat sid div 2 + 2" by presburger
  then show "bidi_stream (sid + 4) = bidi_stream sid" unfolding bidi_stream_def bit u by simp
qed

text \<open>The next identifier of this side, and the state in which it is used up.\<close>

definition next_local :: "'a ngtcp2_conn \<Rightarrow> bool \<Rightarrow> u64" where
  "next_local conn bidi = (if bidi then cn_next_local_stream_id_bidi conn else cn_next_local_stream_id_uni conn)"

definition use_next :: "'a ngtcp2_conn \<Rightarrow> bool \<Rightarrow> 'a ngtcp2_conn" where
  "use_next conn bidi =
     (if bidi then conn\<lparr>cn_next_local_stream_id_bidi := next_local conn bidi + 4\<rparr>
      else conn\<lparr>cn_next_local_stream_id_uni := next_local conn bidi + 4\<rparr>)"

lemma rx_inv_next:
  assumes inv: "rx_inv K got S conn" and small: "small_id (next_local conn bidi)"
  defines "sid \<equiv> next_local conn bidi" and "c \<equiv> use_next conn bidi"
  shows "rx_inv K got S c" and "\<not> live conn sid" and "\<not> fresh c sid" and "got (cn_app conn) sid = []" and "sid \<noteq> 0"
proof -
  have ids: "conn_local_stream conn sid" "bidi_stream sid = bidi" using inv by (cases bidi; simp_all add: rx_inv_def ids_ok_def sid_def next_local_def)+
  note small' = small [folded sid_def]
  have loc: "conn_local_stream c = conn_local_stream conn" "live c = live conn" "remote_idtr c = remote_idtr conn"
    by (simp_all add: c_def use_next_def conn_local_stream_def live_def remote_idtr_def fun_eq_iff)
  have f: "fresh conn sid" using ids by (cases bidi) (simp_all add: fresh_def sid_def next_local_def)
  then show nl: "\<not> live conn sid" and "got (cn_app conn) sid = []" using inv by (auto simp: rx_inv_def)
  then show "sid \<noteq> 0" using inv by (auto simp: rx_inv_def)
  have lt: "\<not> sid + 4 \<le> sid" using next_id(1) [OF small'] by (simp add: word_le_nat_alt)
  have nxt: "cn_next_local_stream_id_bidi c = (if bidi then sid + 4 else cn_next_local_stream_id_bidi conn)"
    "cn_next_local_stream_id_uni c = (if bidi then cn_next_local_stream_id_uni conn else sid + 4)"
    "bidi \<Longrightarrow> cn_next_local_stream_id_bidi conn = sid" "\<not> bidi \<Longrightarrow> cn_next_local_stream_id_uni conn = sid"
    by (simp_all add: c_def use_next_def sid_def next_local_def)
  show "\<not> fresh c sid" using ids lt by (cases bidi) (simp_all add: fresh_def loc nxt)
  have "sid + 4 \<le> t \<Longrightarrow> sid \<le> t" for t using next_id(1) [OF small'] by (simp add: word_le_nat_alt)
  then have fr: "fresh c t \<Longrightarrow> fresh conn t" for t
    unfolding fresh_def loc nxt(1,2) using nxt(3,4) by (cases bidi) (auto split: if_splits)
  have same: "cn_strms c = cn_strms conn" "cn_strm c = cn_strm conn" "cn_app c = cn_app conn"
    "cn_callbacks c = cn_callbacks conn" "cn_rx_offset c = cn_rx_offset conn" "cn_max_rx_offset c = cn_max_rx_offset conn"
    "cn_acktr c = cn_acktr conn" "cn_rtb c = cn_rtb conn" "cn_hs_rx_ckm c = cn_hs_rx_ckm conn" "cn_rx_ckm c = cn_rx_ckm conn"
    "cn_early_ckm c = cn_early_ckm conn" "cn_flags c = cn_flags conn" "cn_mem c = cn_mem conn" "cn_server c = cn_server conn"
    "cn_buffed_rx_ppkts c = cn_buffed_rx_ppkts conn" "cn_remote_bidi_idtr c = cn_remote_bidi_idtr conn"
    "cn_remote_uni_idtr c = cn_remote_uni_idtr conn" "cn_max_local_stream_id_bidi c = cn_max_local_stream_id_bidi conn"
    "cn_max_local_stream_id_uni c = cn_max_local_stream_id_uni conn" "cn_max_remote_stream_id_bidi c = cn_max_remote_stream_id_bidi conn"
    "cn_max_remote_stream_id_uni c = cn_max_remote_stream_id_uni conn"
    by (simp_all add: c_def use_next_def)
  have "ids_ok c"
    using inv next_id(3) [OF small'] next_id(2) [OF small', of conn] ids
    unfolding rx_inv_def ids_ok_def loc same nxt(1,2) by (cases bidi) simp_all
  moreover have "data_counted got c = data_counted got conn" by (rule data_counted_same) (simp_all add: loc same)
  ultimately show "rx_inv K got S c" using inv fr unfolding rx_inv_def loc same by (elim conjE) (intro conjI; blast)
qed

text \<open>Both functions that open a stream, up to the shutdown of the receiving side of a unidirectional one.\<close>

lemma open_stream_ok:
  assumes inv: "rx_inv K got S conn" and small: "small_id (next_local conn bidi)"
  shows "\<exists>c rv. malloc_strm conn (\<lambda>c. ngtcp2_conn_init_stream c (next_local conn bidi) ud) = Ok (c, rv) \<and>
    (rv = None \<longrightarrow> next_local c bidi = next_local conn bidi \<and> rx_inv K got S (use_next c bidi))"
proof -
  let ?sid = "next_local conn bidi"
  note next_ok = rx_inv_next [OF inv small]
  have m: "map_inv (cn_strms conn)" using inv by (simp add: rx_inv_def)
  have mem: "conn\<lparr>cn_mem := []\<rparr> = conn" using mem_empty [OF inv] by simp
  obtain c rv where run: "ngtcp2_conn_init_stream conn ?sid ud = Ok (c, rv)"
    and post: "rv = None \<Longrightarrow> \<exists>strms strm. c = conn\<lparr>cn_mem := [], cn_strms := strms, cn_strm := (cn_strm conn)(?sid := strm)\<rparr> \<and> map_inv strms \<and>
      (\<forall>t. map_abs strms t \<noteq> None \<longleftrightarrow> t = ?sid \<or> live conn t) \<and> new_strm ?sid strm"
    using init_stream_ok [OF m map_size_ok [OF inv] next_ok(2) mem_empty [OF inv], of ud] unfolding returns_def by blast
  have "next_local c bidi = ?sid \<and> rx_inv K got S (use_next c bidi)" if "rv = None"
  proof -
    from post [OF that] obtain strms strm where c: "c = conn\<lparr>cn_mem := [], cn_strms := strms, cn_strm := (cn_strm conn)(?sid := strm)\<rparr>"
      "map_inv strms" "\<forall>t. map_abs strms t \<noteq> None \<longleftrightarrow> t = ?sid \<or> live conn t" "new_strm ?sid strm" by blast
    let ?u = "use_next conn bidi"
    have u: "live ?u = live conn" "cn_strm ?u = cn_strm conn" "cn_app ?u = cn_app conn"
      by (simp_all add: use_next_def live_def fun_eq_iff)
    have "rx_inv K got S (?u\<lparr>cn_mem := [], cn_strms := strms, cn_strm := (cn_strm ?u)(?sid := strm)\<rparr>)"
      using rx_inv_insert(1) [OF next_ok(1) c(2) _ c(4) next_ok(3) _ small next_ok(5)] c(3) next_ok(4) unfolding u by blast
    moreover have "use_next c bidi = ?u\<lparr>cn_mem := [], cn_strms := strms, cn_strm := (cn_strm ?u)(?sid := strm)\<rparr>"
      by (cases bidi; rule ngtcp2_conn.equality) (simp_all add: use_next_def next_local_def c(1))
    ultimately show ?thesis by (simp add: c(1) next_local_def)
  qed
  then show ?thesis using run by (simp add: malloc_strm_def mem_empty [OF inv] mem)
qed

lemma open_bidi_stream_ok:
  assumes inv: "rx_inv K got S conn" and small: "small_id (cn_next_local_stream_id_bidi conn)"
  shows "\<exists>c rv sid. ngtcp2_conn_open_bidi_stream conn ud = Ok (c, rv, sid) \<and> (rv = None \<longrightarrow> rx_inv K got S c)"
proof -
  obtain c rv where c: "malloc_strm conn (\<lambda>c. ngtcp2_conn_init_stream c (cn_next_local_stream_id_bidi conn) ud) = Ok (c, rv)"
      "rv = None \<longrightarrow> cn_next_local_stream_id_bidi c = cn_next_local_stream_id_bidi conn \<and> rx_inv K got S (use_next c True)"
    using open_stream_ok [OF inv, of True ud] small by (auto simp: next_local_def)
  then show ?thesis by (auto simp: ngtcp2_conn_open_bidi_stream_def Let_def use_next_def next_local_def)
qed

lemma open_uni_stream_ok:
  assumes inv: "rx_inv K got S conn" and small: "small_id (cn_next_local_stream_id_uni conn)"
  shows "\<exists>c rv sid. ngtcp2_conn_open_uni_stream conn ud = Ok (c, rv, sid) \<and> (rv = None \<longrightarrow> rx_inv K got S c)"
proof -
  let ?sid = "cn_next_local_stream_id_uni conn"
  let ?f = "\<lambda>strm. ngtcp2_strm_shutdown strm NGTCP2_STRM_FLAG_SHUT_RD"
  have zero: "?sid \<noteq> 0" using rx_inv_next(5) [OF inv, of False] small by (simp add: next_local_def)
  obtain c rv where c: "malloc_strm conn (\<lambda>c. ngtcp2_conn_init_stream c ?sid ud) = Ok (c, rv)"
      "rv = None \<longrightarrow> cn_next_local_stream_id_uni c = ?sid \<and> rx_inv K got S (use_next c False)"
    using open_stream_ok [OF inv, of False ud] small by (auto simp: next_local_def)
  have "rx_inv K got S ((upd_strm c ?sid ?f)\<lparr>cn_next_local_stream_id_uni := ?sid + 4\<rparr>)" if "rv = None"
  proof -
    have "rx_inv K got S (upd_strm (use_next c False) ?sid ?f)"
      by (rule rx_inv_upd) (use c(2) that zero in \<open>simp_all add: ngtcp2_strm_shutdown_def\<close>)
    moreover have "upd_strm (use_next c False) ?sid ?f = (upd_strm c ?sid ?f)\<lparr>cn_next_local_stream_id_uni := ?sid + 4\<rparr>"
      by (rule ngtcp2_conn.equality) (use c(2) that in \<open>simp_all add: use_next_def upd_strm_def next_local_def\<close>)
    ultimately show ?thesis by simp
  qed
  then show ?thesis using c(1) by (auto simp: ngtcp2_conn_open_uni_stream_def Let_def)
qed

lemma with_stream_ok:
  assumes inv: "rx_inv K got S conn" and k: "sid \<noteq> 0 \<Longrightarrow> returns k (rx_inv K got S)"
  shows "returns (with_stream conn sid e k) (rx_inv K got S)"
  using k by (auto simp: with_stream_def find_stream [OF inv] inv)

lemma shutdown_write_ok:
  assumes inv: "rx_inv K got S conn" and sid: "sid \<noteq> 0"
  shows "returns (Ok (conn_shutdown_stream_write conn sid e)) (rx_inv K got S)"
proof -
  let ?c = "upd_strm conn sid (\<lambda>strm. strm\<lparr>sm_flags := sm_flags strm OR (NGTCP2_STRM_FLAG_SHUT_WR OR NGTCP2_STRM_FLAG_SENT_RST), sm_app_error_code := e\<rparr>)"
  have "rx_inv K got S ?c" by (rule rx_inv_upd [OF inv]) (simp add: sid)
  then show ?thesis using inv by (auto simp: conn_shutdown_stream_write_def conn_rst_stream_def intro: returns_weaken [OF frq_push_ok])
qed

lemma shutdown_read_ok:
  assumes inv: "rx_inv K got S conn" and sid: "sid \<noteq> 0"
  shows "returns (Ok (conn_shutdown_stream_read conn sid e)) (rx_inv K got S)"
proof -
  let ?c = "upd_strm conn sid (\<lambda>strm. strm\<lparr>sm_flags := sm_flags strm OR NGTCP2_STRM_FLAG_STOP_SENDING, sm_app_error_code := e\<rparr>)"
  let ?fr = "FR_STOP_SENDING \<lparr>ss_stream_id = sm_stream_id (cn_strm ?c sid), ss_app_error_code = e\<rparr>"
  have c: "rx_inv K got S ?c" by (rule rx_inv_upd [OF inv]) (simp add: sid)
  obtain c' rv where "frq_push ?c ?fr = (c', rv)" "rv = None \<longrightarrow> rx_inv K got S c'"
    using frq_push_ok [OF c, of ?fr] by (auto simp: returns_def)
  then show ?thesis using inv by (auto simp: conn_shutdown_stream_read_def conn_stop_sending_def fc_unlink_def split: option.split)
qed

lemma shutdown_stream_ok:
  assumes inv: "rx_inv K got S conn"
  shows "returns (ngtcp2_conn_shutdown_stream conn sid e) (rx_inv K got S)"
    and "returns (ngtcp2_conn_shutdown_stream_write conn sid e) (rx_inv K got S)"
    and "returns (ngtcp2_conn_shutdown_stream_read conn sid e) (rx_inv K got S)"
  unfolding ngtcp2_conn_shutdown_stream_def ngtcp2_conn_shutdown_stream_write_def ngtcp2_conn_shutdown_stream_read_def
  by (rule with_stream_ok [OF inv], rule returns_then [OF shutdown_read_ok [OF inv] shutdown_write_ok]; assumption)
    (rule with_stream_ok [OF inv], (rule shutdown_write_ok [OF inv] shutdown_read_ok [OF inv]), assumption)+

lemma extend_max_offsets_ok:
  assumes inv: "rx_inv K got S conn"
  shows "returns (ngtcp2_conn_extend_max_stream_offset conn sid n) (rx_inv K got S)"
    and "rx_inv K got S (ngtcp2_conn_extend_max_offset conn n)"
proof -
  have "rx_inv K got S (upd_strm conn sid (\<lambda>strm.
            if sm_unsent_max_rx_offset strm \<le> NGTCP2_MAX_VARINT - n
            then strm\<lparr>sm_unsent_max_rx_offset := sm_unsent_max_rx_offset strm + n\<rparr> else strm))"
    by (rule rx_inv_upd [OF inv]) simp
  then show "returns (ngtcp2_conn_extend_max_stream_offset conn sid n) (rx_inv K got S)"
    using inv by (simp add: ngtcp2_conn_extend_max_stream_offset_def find_stream [OF inv] conn_extend_max_stream_offset_def Let_def)
  show "rx_inv K got S (ngtcp2_conn_extend_max_offset conn n)" using inv by (simp add: ngtcp2_conn_extend_max_offset_def)
qed

text \<open>Keys and parameters: the invariant holds for the keys that the connection then has.\<close>

lemma rx_inv_keys_of: "rx_inv K got S conn \<Longrightarrow> rx_keys_of conn = K"
  by (simp add: rx_inv_def rx_keys_of_def)

lemma rx_inv_fields:
  assumes inv: "rx_inv K got S conn"
    and same: "cn_callbacks c = cn_callbacks conn \<and> cn_server c = cn_server conn \<and> cn_mem c = cn_mem conn \<and> cn_strms c = cn_strms conn \<and>
      cn_strm c = cn_strm conn \<and> cn_app c = cn_app conn \<and> cn_buffed_rx_ppkts c = cn_buffed_rx_ppkts conn \<and>
      cn_remote_bidi_idtr c = cn_remote_bidi_idtr conn \<and> cn_remote_uni_idtr c = cn_remote_uni_idtr conn \<and>
      cn_next_local_stream_id_bidi c = cn_next_local_stream_id_bidi conn \<and> cn_next_local_stream_id_uni c = cn_next_local_stream_id_uni conn \<and>
      cn_max_remote_stream_id_bidi c = cn_max_remote_stream_id_bidi conn \<and> cn_max_remote_stream_id_uni c = cn_max_remote_stream_id_uni conn \<and>
      cn_rx_offset c = cn_rx_offset conn \<and> cn_max_rx_offset c = cn_max_rx_offset conn \<and> cn_acktr c = cn_acktr conn \<and> cn_rtb c = cn_rtb conn"
    and ids: "cn_max_local_stream_id_bidi c \<le> NGTCP2_MAX_VARINT" "cn_max_local_stream_id_uni c \<le> NGTCP2_MAX_VARINT"
  shows "rx_inv (rx_keys_of c) got S c"
proof -
  have "live c = live conn" "fresh c = fresh conn" "conn_local_stream c = conn_local_stream conn"
    by (simp_all add: fun_eq_iff live_def fresh_def remote_idtr_def conn_local_stream_def same)
  moreover from this have "data_counted got c = data_counted got conn" by (intro data_counted_same) (simp_all add: same)
  ultimately show ?thesis using inv ids by (simp add: rx_inv_def rx_keys_of_def same ids_ok_def)
qed

lemma rx_inv_set:
  assumes inv: "rx_inv K got S conn"
  shows "rx_inv (rx_keys_of (conn\<lparr>cn_hs_tx_ckm := k\<rparr>)) got S (conn\<lparr>cn_hs_tx_ckm := k\<rparr>)"
    and "rx_inv (rx_keys_of (conn\<lparr>cn_hs_rx_ckm := k\<rparr>)) got S (conn\<lparr>cn_hs_rx_ckm := k\<rparr>)"
    and "rx_inv (rx_keys_of (conn\<lparr>cn_early_ckm := k\<rparr>)) got S (conn\<lparr>cn_early_ckm := k\<rparr>)"
    and "rx_inv (rx_keys_of (conn\<lparr>cn_tx_ckm := k\<rparr>)) got S (conn\<lparr>cn_tx_ckm := k\<rparr>)"
    and "rx_inv (rx_keys_of (conn\<lparr>cn_rx_ckm := k\<rparr>)) got S (conn\<lparr>cn_rx_ckm := k\<rparr>)"
    and "rx_inv (rx_keys_of (conn\<lparr>cn_flags := fl\<rparr>)) got S (conn\<lparr>cn_flags := fl\<rparr>)"
proof -
  have ids: "cn_max_local_stream_id_bidi conn \<le> NGTCP2_MAX_VARINT" "cn_max_local_stream_id_uni conn \<le> NGTCP2_MAX_VARINT"
    using inv by (simp_all add: rx_inv_def ids_ok_def)
  show "rx_inv (rx_keys_of (conn\<lparr>cn_hs_tx_ckm := k\<rparr>)) got S (conn\<lparr>cn_hs_tx_ckm := k\<rparr>)"
    "rx_inv (rx_keys_of (conn\<lparr>cn_hs_rx_ckm := k\<rparr>)) got S (conn\<lparr>cn_hs_rx_ckm := k\<rparr>)"
    "rx_inv (rx_keys_of (conn\<lparr>cn_early_ckm := k\<rparr>)) got S (conn\<lparr>cn_early_ckm := k\<rparr>)"
    "rx_inv (rx_keys_of (conn\<lparr>cn_tx_ckm := k\<rparr>)) got S (conn\<lparr>cn_tx_ckm := k\<rparr>)"
    "rx_inv (rx_keys_of (conn\<lparr>cn_rx_ckm := k\<rparr>)) got S (conn\<lparr>cn_rx_ckm := k\<rparr>)"
    "rx_inv (rx_keys_of (conn\<lparr>cn_flags := fl\<rparr>)) got S (conn\<lparr>cn_flags := fl\<rparr>)"
    by (rule rx_inv_fields [OF inv]; simp add: ids)+
qed

lemma set_keys_ok:
  assumes inv: "rx_inv K got S conn" and put: "\<And>k. rx_inv (rx_keys_of (put k conn)) got S (put k conn)"
  shows "returns (set_keys get put conn key iv) (\<lambda>c. rx_inv (rx_keys_of c) got S c)"
proof -
  have mem: "conn\<lparr>cn_mem := []\<rparr> = conn" using mem_empty [OF inv] by simp
  show ?thesis using put [of "\<lparr>km_key = ngtcp2_cpymem key (length key), km_iv = ngtcp2_cpymem iv (length iv)\<rparr>"]
    by (auto simp: set_keys_def ngtcp2_crypto_km_new_def mem_empty [OF inv] mem Let_def ret_if_def c_assert_def split: prod.split)
qed

lemma install_keys_ok:
  assumes inv: "rx_inv K got S conn"
  shows "returns (ngtcp2_conn_set_handshake_tx_keys conn key iv) (\<lambda>c. rx_inv (rx_keys_of c) got S c)"
    and "returns (ngtcp2_conn_set_handshake_rx_keys conn key iv) (\<lambda>c. rx_inv (rx_keys_of c) got S c)"
    and "returns (ngtcp2_conn_update_early_keys conn key iv) (\<lambda>c. rx_inv (rx_keys_of c) got S c)"
    and "returns (ngtcp2_conn_update_tx_keys conn key iv) (\<lambda>c. rx_inv (rx_keys_of c) got S c)"
    and "returns (ngtcp2_conn_update_rx_keys conn key iv) (\<lambda>c. rx_inv (rx_keys_of c) got S c)"
  unfolding ngtcp2_conn_set_handshake_tx_keys_def ngtcp2_conn_set_handshake_rx_keys_def ngtcp2_conn_update_early_keys_def
    ngtcp2_conn_update_tx_keys_def ngtcp2_conn_update_rx_keys_def
  by (intro set_keys_ok [OF inv] rx_inv_set [OF inv])+

lemma set_params_ok:
  assumes inv: "rx_inv K got S conn"
  shows "returns (Ok (ngtcp2_conn_set_remote_transport_params conn exttype params)) (\<lambda>c. rx_inv (rx_keys_of c) got S c)"
    and "returns (Ok (ngtcp2_conn_set_early_remote_transport_params conn params)) (\<lambda>c. rx_inv (rx_keys_of c) got S c)"
proof -
  let ?remote = "settings_copy_from_transport_params (cn_remote_settings conn) params"
  let ?c = "conn\<lparr>cn_remote_settings := ?remote, cn_max_local_stream_id_bidi := ucast (se_max_stream_id_bidi ?remote),
    cn_max_local_stream_id_uni := ucast (se_max_stream_id_uni ?remote), cn_max_tx_offset := ucast (se_max_data ?remote)\<rparr>"
  have c: "rx_inv (rx_keys_of ?c) got S ?c" by (rule rx_inv_fields [OF inv]) (simp_all add: ucast_varint)
  then show "returns (Ok (ngtcp2_conn_set_early_remote_transport_params conn params)) (\<lambda>c. rx_inv (rx_keys_of c) got S c)"
    by (simp add: ngtcp2_conn_set_early_remote_transport_params_def Let_def)
  have "rx_inv (rx_keys_of ?c) got S (upd_strm ?c 0 (\<lambda>strm0. strm0\<lparr>sm_max_tx_offset := ucast (se_max_stream_data ?remote)\<rparr>))"
    by (rule rx_inv_upd [OF c]) simp
  from rx_inv_set(6) [OF this, of "cn_flags conn OR NGTCP2_CONN_FLAG_TRANSPORT_PARAM_RECVED"]
  show "returns (Ok (ngtcp2_conn_set_remote_transport_params conn exttype params)) (\<lambda>c. rx_inv (rx_keys_of c) got S c)"
    by (simp add: ngtcp2_conn_set_remote_transport_params_def Let_def upd_strm_def split: option.split)
qed

section \<open>The states that a connection reaches\<close>

text \<open>
  A connection with an allocator that does not fail, from its creation through the receipt of datagrams, the writing
  of packets and the other calls of the application. A writer may return an error; every other operation returned 0, and the TLS
  handshake has not failed. The
  application may change its own state without touching what it was given. A datagram is received
  when the keys that it may need are installed. A packet is written while the windows that the application extended
  can be sent, and the count of the bytes in flight has room for twice the destination, as it is a 64-bit integer.
\<close>

definition may_write :: "'a ngtcp2_conn \<Rightarrow> bytes \<Rightarrow> bool" where
  "may_write conn dest \<longleftrightarrow> windows_ok conn \<and> unacked conn + 2 * length dest < 2 ^ 64"

inductive conn_reach :: "('a \<Rightarrow> u64 \<Rightarrow> bytes) \<Rightarrow> (u64 \<Rightarrow> u64 \<Rightarrow> u8) \<Rightarrow> 'a ngtcp2_conn \<Rightarrow> bool"
  for got :: "'a \<Rightarrow> u64 \<Rightarrow> bytes" and S :: "u64 \<Rightarrow> u64 \<Rightarrow> u8" where
  client: "ngtcp2_conn_client_new index st conn_id version callbacks settings app [] = (Ok conn, mem) \<Longrightarrow>
    config_ok got S callbacks settings app \<Longrightarrow> conn_reach got S conn"
| server: "ngtcp2_conn_server_new index st conn_id version callbacks settings app [] = (Ok conn, mem) \<Longrightarrow>
    config_ok got S callbacks settings app \<Longrightarrow> cb_recv_client_initial callbacks \<noteq> None \<Longrightarrow> conn_reach got S conn"
| recv: "conn_reach got S conn \<Longrightarrow> datagram_ok pkt \<Longrightarrow> keys_ok (rx_keys_of conn) (cn_state conn) \<Longrightarrow> one_ack_block (cn_callbacks conn) \<Longrightarrow>
    ngtcp2_conn_recv index conn pkt ts = Ok (conn', None) \<Longrightarrow> cn_state conn' \<notin> handshake_failed \<Longrightarrow> conn_reach got S conn'"
| app: "conn_reach got S conn \<Longrightarrow> got a = got (cn_app conn) \<Longrightarrow> conn_reach got S (conn\<lparr>cn_app := a\<rparr>)"
| open_bidi: "conn_reach got S conn \<Longrightarrow> small_id (cn_next_local_stream_id_bidi conn) \<Longrightarrow>
    ngtcp2_conn_open_bidi_stream conn ud = Ok (conn', None, sid) \<Longrightarrow> conn_reach got S conn'"
| open_uni: "conn_reach got S conn \<Longrightarrow> small_id (cn_next_local_stream_id_uni conn) \<Longrightarrow>
    ngtcp2_conn_open_uni_stream conn ud = Ok (conn', None, sid) \<Longrightarrow> conn_reach got S conn'"
| shutdown: "conn_reach got S conn \<Longrightarrow> ngtcp2_conn_shutdown_stream conn sid e = Ok (conn', None) \<Longrightarrow> conn_reach got S conn'"
| shutdown_write: "conn_reach got S conn \<Longrightarrow> ngtcp2_conn_shutdown_stream_write conn sid e = Ok (conn', None) \<Longrightarrow> conn_reach got S conn'"
| shutdown_read: "conn_reach got S conn \<Longrightarrow> ngtcp2_conn_shutdown_stream_read conn sid e = Ok (conn', None) \<Longrightarrow> conn_reach got S conn'"
| extend_stream: "conn_reach got S conn \<Longrightarrow> ngtcp2_conn_extend_max_stream_offset conn sid n = Ok (conn', None) \<Longrightarrow> conn_reach got S conn'"
| extend: "conn_reach got S conn \<Longrightarrow> conn_reach got S (ngtcp2_conn_extend_max_offset conn n)"
| hs_tx_keys: "conn_reach got S conn \<Longrightarrow> ngtcp2_conn_set_handshake_tx_keys conn key iv = Ok (conn', None) \<Longrightarrow> conn_reach got S conn'"
| hs_rx_keys: "conn_reach got S conn \<Longrightarrow> ngtcp2_conn_set_handshake_rx_keys conn key iv = Ok (conn', None) \<Longrightarrow> conn_reach got S conn'"
| early_keys: "conn_reach got S conn \<Longrightarrow> ngtcp2_conn_update_early_keys conn key iv = Ok (conn', None) \<Longrightarrow> conn_reach got S conn'"
| tx_keys: "conn_reach got S conn \<Longrightarrow> ngtcp2_conn_update_tx_keys conn key iv = Ok (conn', None) \<Longrightarrow> conn_reach got S conn'"
| rx_keys: "conn_reach got S conn \<Longrightarrow> ngtcp2_conn_update_rx_keys conn key iv = Ok (conn', None) \<Longrightarrow> conn_reach got S conn'"
| params: "conn_reach got S conn \<Longrightarrow> ngtcp2_conn_set_remote_transport_params conn exttype params = (conn', None) \<Longrightarrow> conn_reach got S conn'"
| early_params: "conn_reach got S conn \<Longrightarrow> ngtcp2_conn_set_early_remote_transport_params conn params = (conn', None) \<Longrightarrow> conn_reach got S conn'"
| completed: "conn_reach got S conn \<Longrightarrow> conn_reach got S (ngtcp2_conn_handshake_completed conn)"
| early_rejected: "conn_reach got S conn \<Longrightarrow> conn_reach got S (ngtcp2_conn_early_data_rejected conn)"
| overhead: "conn_reach got S conn \<Longrightarrow> conn_reach got S (ngtcp2_conn_set_aead_overhead conn n)"
| write_pkt: "conn_reach got S conn \<Longrightarrow> may_write conn dest \<Longrightarrow> ngtcp2_conn_write_pkt conn dest ts = Ok (conn', r) \<Longrightarrow> conn_reach got S conn'"
| write_ack_pkt: "conn_reach got S conn \<Longrightarrow> may_write conn dest \<Longrightarrow> ngtcp2_conn_write_ack_pkt conn dest ts = Ok (conn', r) \<Longrightarrow> conn_reach got S conn'"
| write_stream: "conn_reach got S conn \<Longrightarrow> may_write conn dest \<Longrightarrow> ngtcp2_conn_write_stream conn dest sid fin data ts = Ok ((conn', n), r) \<Longrightarrow>
    conn_reach got S conn'"
| write_connection_close: "conn_reach got S conn \<Longrightarrow> may_write conn dest \<Longrightarrow>
    ngtcp2_conn_write_connection_close conn dest e = Ok (conn', r) \<Longrightarrow> conn_reach got S conn'"
| write_application_close: "conn_reach got S conn \<Longrightarrow> may_write conn dest \<Longrightarrow>
    ngtcp2_conn_write_application_close conn dest e = Ok (conn', r) \<Longrightarrow> conn_reach got S conn'"

lemmas install_keysD = install_keys_ok [THEN returnsD]

lemma writers_keep:
  assumes inv: "rx_inv K got S conn" and may: "may_write conn dest"
  shows "keeps (ngtcp2_conn_write_pkt conn dest ts) (wrote (length dest) (\<lambda>n. tx_inv K got S (unacked conn + 2 * n)))"
    and "keeps (ngtcp2_conn_write_ack_pkt conn dest ts) (wrote (length dest) (\<lambda>n. tx_inv K got S (unacked conn + 2 * n)))"
    and "keeps (ngtcp2_conn_write_stream conn dest sid fin data ts) (wrote (length dest) (\<lambda>n x. tx_inv K got S (unacked conn + n) (fst x)))"
    and "keeps (ngtcp2_conn_write_connection_close conn dest e) (wrote (length dest) (\<lambda>n. tx_inv K got S (unacked conn + n)))"
    and "keeps (ngtcp2_conn_write_application_close conn dest e) (wrote (length dest) (\<lambda>n. tx_inv K got S (unacked conn + n)))"
proof -
  have I: "tx_inv K got S (unacked conn) conn" and L: "unacked conn + 2 * length dest < 2 ^ 64" "unacked conn + length dest < 2 ^ 64"
    using inv may by (simp_all add: tx_inv_def may_write_def)
  show "keeps (ngtcp2_conn_write_pkt conn dest ts) (wrote (length dest) (\<lambda>n. tx_inv K got S (unacked conn + 2 * n)))"
    by (rule tx.write_pkt_entry_keeps [OF I L(1)])
  show "keeps (ngtcp2_conn_write_ack_pkt conn dest ts) (wrote (length dest) (\<lambda>n. tx_inv K got S (unacked conn + 2 * n)))"
    by (rule tx.write_ack_pkt_entry_keeps [OF I L(1)])
  show "keeps (ngtcp2_conn_write_stream conn dest sid fin data ts) (wrote (length dest) (\<lambda>n x. tx_inv K got S (unacked conn + n) (fst x)))"
    by (rule tx.write_stream_keeps [OF I L(2)])
  show "keeps (ngtcp2_conn_write_connection_close conn dest e) (wrote (length dest) (\<lambda>n. tx_inv K got S (unacked conn + n)))"
    "keeps (ngtcp2_conn_write_application_close conn dest e) (wrote (length dest) (\<lambda>n. tx_inv K got S (unacked conn + n)))"
    by (rule tx.write_close_keeps [OF I])+
qed

lemma wrote_tx: "wrote L (\<lambda>n c. tx_inv K got S (B n) (g c)) (c, r) \<Longrightarrow> rx_inv K got S (g c)"
  by (auto simp: wrote_def tx_inv_def split: sum.splits)

lemma conn_reach_inv: "conn_reach got S conn \<Longrightarrow> rx_inv (rx_keys_of conn) got S conn"
proof (induction rule: conn_reach.induct)
  case (recv conn pkt index ts conn')
  have "rk_one_block (rx_keys_of conn)" using recv(4) by (simp add: rx_keys_of_def)
  from conn_recv_ok [OF recv.IH recv(2,3) this, of index ts] recv(5,6) have "rx_inv (rx_keys_of conn) got S conn'" by (simp add: returns_def)
  then show ?case using rx_inv_keys_of by metis
next
  case (app conn a)
  then show ?case using rx_inv_keys_of [OF rx_inv_app [OF app.IH app(2)]] rx_inv_app [OF app.IH app(2)] by simp
next
  case (open_bidi conn ud conn' sid)
  from open_bidi_stream_ok [OF open_bidi.IH open_bidi(2), of ud] open_bidi(3) have "rx_inv (rx_keys_of conn) got S conn'" by simp
  then show ?case using rx_inv_keys_of by metis
next
  case (open_uni conn ud conn' sid)
  from open_uni_stream_ok [OF open_uni.IH open_uni(2), of ud] open_uni(3) have "rx_inv (rx_keys_of conn) got S conn'" by simp
  then show ?case using rx_inv_keys_of by metis
next
  case (shutdown conn sid e conn')
  from returnsD [OF shutdown_stream_ok(1) [OF shutdown.IH] shutdown(2)] show ?case using rx_inv_keys_of by metis
next
  case (shutdown_write conn sid e conn')
  from returnsD [OF shutdown_stream_ok(2) [OF shutdown_write.IH] shutdown_write(2)] show ?case using rx_inv_keys_of by metis
next
  case (shutdown_read conn sid e conn')
  from returnsD [OF shutdown_stream_ok(3) [OF shutdown_read.IH] shutdown_read(2)] show ?case using rx_inv_keys_of by metis
next
  case (extend_stream conn sid n conn')
  from returnsD [OF extend_max_offsets_ok(1) [OF extend_stream.IH] extend_stream(2)] show ?case using rx_inv_keys_of by metis
next
  case (extend conn n)
  from extend_max_offsets_ok(2) [OF extend.IH, of n] show ?case using rx_inv_keys_of by metis
next
  case (completed conn)
  from rx_inv_set(6) [OF completed.IH] show ?case by (simp add: ngtcp2_conn_handshake_completed_def)
next
  case (early_rejected conn)
  from rx_inv_set(6) [OF early_rejected.IH] show ?case by (simp add: ngtcp2_conn_early_data_rejected_def)
next
  case (params conn exttype params conn')
  from set_params_ok(1) [OF params.IH, of exttype params] params(2) show ?case by simp
next
  case (early_params conn params conn')
  from set_params_ok(2) [OF early_params.IH, of params] early_params(2) show ?case by simp
next
  case (overhead conn n)
  show ?case unfolding ngtcp2_conn_set_aead_overhead_def
    by (rule rx_inv_fields [OF overhead.IH]) (use overhead.IH in \<open>simp_all add: rx_inv_def ids_ok_def\<close>)
next
  case (write_pkt conn dest ts conn' r)
  from wrote_tx [OF keepsD [OF writers_keep(1) [OF write_pkt.IH write_pkt(2)] write_pkt(3)]] show ?case using rx_inv_keys_of by metis
next
  case (write_ack_pkt conn dest ts conn' r)
  from wrote_tx [OF keepsD [OF writers_keep(2) [OF write_ack_pkt.IH write_ack_pkt(2)] write_ack_pkt(3)]] show ?case using rx_inv_keys_of by metis
next
  case (write_stream conn dest sid fin data ts conn' n r)
  from wrote_tx [OF keepsD [OF writers_keep(3) [OF write_stream.IH write_stream(2)] write_stream(3)]] show ?case using rx_inv_keys_of by (metis fst_conv)
next
  case (write_connection_close conn dest e conn' r)
  from wrote_tx [OF keepsD [OF writers_keep(4) [OF write_connection_close.IH write_connection_close(2)] write_connection_close(3)]] show ?case
    using rx_inv_keys_of by metis
next
  case (write_application_close conn dest e conn' r)
  from wrote_tx [OF keepsD [OF writers_keep(5) [OF write_application_close.IH write_application_close(2)] write_application_close(3)]] show ?case
    using rx_inv_keys_of by metis
qed ((rule client_new_ok server_new_ok install_keysD, assumption+)+)

section \<open>An application\<close>

text \<open>
  An application that records what it is given, and whose decryption accepts the packets that carry data
  of the streams \<open>S\<close>, unencrypted. It shows that the assumptions on the callbacks can hold.
\<close>

definition honest_decrypt :: "(u64 \<Rightarrow> u64 \<Rightarrow> u8) \<Rightarrow> 'a ngtcp2_decrypt" where
  "honest_decrypt S destlen ct key nonce ad a =
     (a, if length ct \<le> destlen \<and> (\<forall>fr \<in> set (payload_frames ct). of_stream S fr \<and> fits_frame fr) then Inr ct else Inl NGTCP2_ERR_TLS_DECRYPT)"

definition recording_callbacks :: "(u64 \<Rightarrow> u64 \<Rightarrow> u8) \<Rightarrow> (u64 \<Rightarrow> bytes) ngtcp2_conn_callbacks" where
  "recording_callbacks S =
     \<lparr>cb_send_client_initial = Some (\<lambda>_ a. (a, Some (1, [1]))), cb_send_client_handshake = Some (\<lambda>a. (a, Some [])),
      cb_recv_client_initial = Some (\<lambda>cid a. (a, False)),
      cb_send_server_handshake = Some (\<lambda>_ a. (a, Some (1, [1]))), cb_recv_stream0_data = (\<lambda>data a. (a(0 := a 0 @ data), None)),
      cb_send_pkt = None, cb_send_frame = None, cb_recv_pkt = None, cb_recv_frame = None,
      cb_handshake_completed = None, cb_recv_version_negotiation = None,
      cb_hs_encrypt = (\<lambda>_ pt _ _ _. Some pt), cb_hs_decrypt = honest_decrypt S,
      cb_encrypt = (\<lambda>_ pt _ _ _. Some pt), cb_decrypt = honest_decrypt S,
      cb_recv_stream_data = Some (\<lambda>sid fin data ud a. (a(sid := a sid @ data), False)),
      cb_acked_stream_data_offset = None, cb_stream_close = None, cb_recv_stateless_reset = None,
      cb_recv_server_stateless_retry = None, cb_extend_max_stream_id = None\<rparr>"

lemma recording_config:
  assumes "unat (se_max_stream_id_bidi settings) < 2 ^ 28" and "unat (se_max_stream_id_uni settings) < 2 ^ 28"
  shows "config_ok (\<lambda>a. a) S (recording_callbacks S) settings (\<lambda>_. [])"
  using assms
  by (simp add: config_ok_def delivers_def authentic_def recording_callbacks_def decrypts_def honest_decrypt_def quiet_def)

lemma conn_new_total: "\<exists>conn. conn_new index st conn_id version callbacks settings app server [] = (Ok conn, [])"
proof -
  obtain m :: "unit ngtcp2_map" where m: "ngtcp2_map_init [] = (Ok m, [])" "map_inv m" "map_abs m = Map.empty" "map_size m = 0"
  proof -
    have "\<exists>m :: unit ngtcp2_map. ngtcp2_map_init [] = (Ok m, [])" by (simp add: ngtcp2_map_init_def ngtcp2_mem_calloc_def)
    then obtain m :: "unit ngtcp2_map" where m: "ngtcp2_map_init [] = (Ok m, [])" by blast
    then have "map_size m = 0" by (auto simp: ngtcp2_map_init_def ngtcp2_mem_calloc_def)
    then show thesis using that m map_init_inv [OF m] by blast
  qed
  obtain m' where m': "ngtcp2_map_insert m (ngtcp2_map_entry_init 0 ()) [] [] = Ok (m', [], None)"
    using map_insert_refines [OF m(2), of "ngtcp2_map_entry_init 0 ()" "[]"] map_insert_total [of m "ngtcp2_map_entry_init 0 ()" "[]"] m(3,4)
    by (auto simp: no_alloc_def)
  obtain acktr where 2: "ngtcp2_acktr_init [] = (Ok acktr, [])"
    using popcount_pow2 [of 7] by (simp add: ngtcp2_acktr_init_def ngtcp2_ringbuf_init_def)
  obtain idtr where 3: "ngtcp2_idtr_init (\<not> server) [] = (Ok idtr, [])" by (simp add: ngtcp2_idtr_init_def ngtcp2_idtr_gap_new_def)
  obtain strm0 where 4: "ngtcp2_strm_init 0 NGTCP2_STRM_FLAG_NONE (ucast (se_max_stream_data settings)) NGTCP2_STRM0_MAX_STREAM_DATA 0 [] = (Ok strm0, [])"
    by (auto simp: ngtcp2_strm_init_def ngtcp2_gaptr_init_def ngtcp2_rob_init_def gap_new_total)
  show ?thesis by (simp add: conn_new_def mbind_def malloc_or_nomem_def ret_if_def 2 3 4 m(1) m')
qed

lemma recording_client:
  assumes "se_max_stream_id_bidi settings = 0" and "se_max_stream_id_uni settings = 0"
  shows "\<exists>conn. ngtcp2_conn_client_new index st conn_id version (recording_callbacks S) settings (\<lambda>_. []) [] = (Ok conn, []) \<and>
    conn_reach (\<lambda>a. a) S conn \<and> cn_state conn = NGTCP2_CS_CLIENT_INITIAL \<and> cn_app conn = (\<lambda>_. []) \<and> cn_mem conn = [] \<and>
    (\<forall>sid. live conn sid \<longleftrightarrow> sid = 0) \<and> sm_flags (cn_strm conn 0) = 0 \<and> sm_max_rx_offset (cn_strm conn 0) = ucast (se_max_stream_data settings) \<and> cn_hs_rx_ckm conn = None \<and>
    cn_early_ckm conn = None \<and> cn_flags conn = 0 \<and> cn_next_local_stream_id_bidi conn = 4"
proof -
  obtain c where c: "conn_new index st conn_id version (recording_callbacks S) settings (\<lambda>_. []) False [] = (Ok c, [])"
    using conn_new_total by (rule exE)
  let ?conn = "c\<lparr>cn_client_conn_id := conn_id, cn_next_local_stream_id_bidi := 4, cn_next_local_stream_id_uni := 2\<rparr>"
  have new: "ngtcp2_conn_client_new index st conn_id version (recording_callbacks S) settings (\<lambda>_. []) [] = (Ok ?conn, [])"
    using c by (simp add: ngtcp2_conn_client_new_def mbind_def)
  have "conn_reach (\<lambda>a. a) S ?conn" using conn_reach.client [OF new recording_config] assms by simp
  moreover have "cn_state c = NGTCP2_CS_CLIENT_INITIAL \<and> cn_app c = (\<lambda>_. []) \<and> cn_hs_rx_ckm c = None \<and> cn_early_ckm c = None \<and> cn_flags c = 0 \<and>
      sm_flags (cn_strm c 0) = 0 \<and> sm_max_rx_offset (cn_strm c 0) = ucast (se_max_stream_data settings)"
    using c unfolding conn_new_def
    by (auto simp: mbind_Ok malloc_or_nomem_def insert_case ngtcp2_strm_init_def split: prod.splits result.splits)
  ultimately show ?thesis using new conn_new_ok [OF c] by (auto simp: live_def)
qed

section \<open>A run of the handshake\<close>

text \<open>
  A client sends its first packet and receives a Handshake packet with three bytes of stream 0: a long header, and one STREAM frame.
\<close>

definition hello_settings :: ngtcp2_settings where
  "hello_settings = zero_settings\<lparr>se_max_stream_data := 100\<rparr>"

definition hello_pkt :: bytes where
  "hello_pkt = [0xfd, 0, 0, 0, 0, 0, 0, 0, 1, 0xff, 0, 0, 8, 0, 0, 0, 1, 0x12, 0, 3, 65, 65, 65]"


text \<open>Three bytes of which the first has arrived then.\<close>

definition hello_more :: ngtcp2_stream where
  "hello_more = \<lparr>st_flags = 0, st_fin = False, st_stream_id = 0, st_offset = 2, st_data = [65, 65, 65]\<rparr>"

lemma hello_more_segment: "segment (\<lambda>_. 65) (st_offset hello_more) (st_data hello_more)"
  by (auto simp: segment_def hello_more_def less_Suc_eq)

text \<open>The states of the run, and what holds in them.\<close>

definition hello_ok :: "(u64 \<Rightarrow> bytes) ngtcp2_conn \<Rightarrow> bool" where
  "hello_ok conn \<longleftrightarrow> sm_max_rx_offset (cn_strm conn 0) \<le> sm_unsent_max_rx_offset (cn_strm conn 0) \<and>
     sm_unsent_max_rx_offset (cn_strm conn 0) \<le> NGTCP2_MAX_VARINT \<and>
     cn_unsent_max_remote_stream_id_bidi conn = 0 \<and> cn_unsent_max_remote_stream_id_uni conn = 0 \<and> unacked conn = 0"

definition hello_steps :: "(u64 \<Rightarrow> bytes) ngtcp2_conn result \<times> ngtcp2_mem
    \<Rightarrow> ((u64 \<Rightarrow> bytes) ngtcp2_conn \<times> (u64 \<Rightarrow> bytes) ngtcp2_conn \<times> (u64 \<Rightarrow> bytes) ngtcp2_conn \<times> (u64 \<Rightarrow> bytes) ngtcp2_conn) option" where
  "hello_steps start =
     (case start of (Ok c, _) \<Rightarrow>
        (case ngtcp2_conn_set_handshake_tx_keys c [] (replicate 12 0) of Ok (c1, None) \<Rightarrow>
          (case ngtcp2_conn_set_handshake_rx_keys c1 [] (replicate 12 0) of Ok (c2, None) \<Rightarrow>
            (case ngtcp2_conn_write_pkt c2 (replicate 60 0) 5 of Ok (c3, Inr _) \<Rightarrow>
              (case ngtcp2_conn_recv (\<lambda>_. 0) c3 hello_pkt 7 of Ok (c4, None) \<Rightarrow> Some (c1, c2, c3, c4) | _ \<Rightarrow> None)
            | _ \<Rightarrow> None) | _ \<Rightarrow> None) | _ \<Rightarrow> None) | _ \<Rightarrow> None)"

lemma hello_steps_Some:
  "hello_steps (Ok c, mem) = Some (c1, c2, c3, c4) \<longleftrightarrow>
     ngtcp2_conn_set_handshake_tx_keys c [] (replicate 12 0) = Ok (c1, None) \<and> ngtcp2_conn_set_handshake_rx_keys c1 [] (replicate 12 0) = Ok (c2, None) \<and>
     (\<exists>pkt. ngtcp2_conn_write_pkt c2 (replicate 60 0) 5 = Ok (c3, Inr pkt)) \<and> ngtcp2_conn_recv (\<lambda>_. 0) c3 hello_pkt 7 = Ok (c4, None)"
  unfolding hello_steps_def by (auto split: result.splits prod.splits option.splits sum.splits)

lemma hello_run:
  "\<exists>conn conn'. conn_reach (\<lambda>a. a) (\<lambda>_ _. 65) conn \<and> cn_state conn = NGTCP2_CS_CLIENT_WAIT_HANDSHAKE \<and>
     keys_ok (rx_keys_of conn) (cn_state conn) \<and> one_ack_block (cn_callbacks conn) \<and> datagram_ok hello_pkt \<and>
     ngtcp2_conn_recv (\<lambda>_. 0) conn hello_pkt 7 = Ok (conn', None) \<and> conn_reach (\<lambda>a. a) (\<lambda>_ _. 65) conn' \<and> live conn' 0 \<and>
     stream_id_check conn' 0 = None \<and> sm_flags (cn_strm conn' 0) = 0 \<and> sm_max_rx_offset (cn_strm conn' 0) = 100 \<and>
     cn_app conn 0 = [] \<and> cn_app conn' 0 = [65, 65, 65] \<and>
     (\<exists>c. conn_recv_stream conn' hello_more = Ok (c, None) \<and> live c 0 \<and> cn_app c 0 = [65, 65, 65, 65, 65])"
proof -
  let ?new = "ngtcp2_conn_client_new (\<lambda>_. 0)
      (\<lambda>_. \<lparr>re_hd = ngtcp2_pkt_hd_init 0 NGTCP2_PKT_01 0 0 0, re_frc = [], re_expiry = 0, re_deadline = 0, re_count = 0, re_pktlen = 0, re_flags = 0\<rparr>)
      1 NGTCP2_PROTO_VER_D8 (recording_callbacks (\<lambda>_ _. 65)) hello_settings (\<lambda>_. []) []"
  obtain c where new: "?new = (Ok c, [])" and c: "conn_reach (\<lambda>a. a) (\<lambda>_ _. 65) c" "\<forall>sid. live c sid \<longleftrightarrow> sid = 0"
    using recording_client [of hello_settings "\<lambda>_. 0"] by (fastforce simp: hello_settings_def zero_settings_def)
  have "case hello_steps ?new of Some (c1, c2, c3, c4) \<Rightarrow> hello_ok c2 \<and> cn_state c3 = NGTCP2_CS_CLIENT_WAIT_HANDSHAKE \<and>
      cn_hs_rx_ckm c3 = Some \<lparr>km_key = [], km_iv = replicate 12 0\<rparr> \<and> cn_early_ckm c3 = None \<and> cn_flags c3 AND NGTCP2_CONN_FLAG_HANDSHAKE_COMPLETED = 0 \<and>
      cn_app c3 0 = [] \<and> cn_state c4 = NGTCP2_CS_CLIENT_WAIT_HANDSHAKE \<and> ngtcp2_conn_find_stream c4 0 \<noteq> Ok None \<and> 
      stream_id_check c4 0 = None \<and> sm_flags (cn_strm c4 0) = 0 \<and> sm_max_rx_offset (cn_strm c4 0) = 100 \<and> cn_app c4 0 = [65, 65, 65] \<and>
      (case conn_recv_stream c4 hello_more of Ok (c5, None) \<Rightarrow> ngtcp2_conn_find_stream c5 0 \<noteq> Ok None \<and> cn_app c5 0 = [65, 65, 65, 65, 65] | _ \<Rightarrow> False)
    | None \<Rightarrow> False" by code_simp
  then obtain c1 c2 c3 c4 where "hello_steps (Ok c, []) = Some (c1, c2, c3, c4)"
    and ok: "hello_ok c2" "cn_state c3 = NGTCP2_CS_CLIENT_WAIT_HANDSHAKE"
      "cn_hs_rx_ckm c3 = Some \<lparr>km_key = [], km_iv = replicate 12 0\<rparr>" "cn_early_ckm c3 = None" "cn_flags c3 AND NGTCP2_CONN_FLAG_HANDSHAKE_COMPLETED = 0"
      "cn_app c3 0 = []" "cn_state c4 = NGTCP2_CS_CLIENT_WAIT_HANDSHAKE" "ngtcp2_conn_find_stream c4 0 \<noteq> Ok None"
      "stream_id_check c4 0 = None" "sm_flags (cn_strm c4 0) = 0" "sm_max_rx_offset (cn_strm c4 0) = 100" "cn_app c4 0 = [65, 65, 65]"
      "case conn_recv_stream c4 hello_more of Ok (c5, None) \<Rightarrow> ngtcp2_conn_find_stream c5 0 \<noteq> Ok None \<and> cn_app c5 0 = [65, 65, 65, 65, 65] | _ \<Rightarrow> False"
    unfolding new by (auto split: option.splits)
  then obtain pkt where run: "ngtcp2_conn_set_handshake_tx_keys c [] (replicate 12 0) = Ok (c1, None)"
      "ngtcp2_conn_set_handshake_rx_keys c1 [] (replicate 12 0) = Ok (c2, None)"
      "ngtcp2_conn_write_pkt c2 (replicate 60 0) 5 = Ok (c3, Inr pkt)" "ngtcp2_conn_recv (\<lambda>_. 0) c3 hello_pkt 7 = Ok (c4, None)"
    unfolding hello_steps_Some by blast
  have r2: "conn_reach (\<lambda>a. a) (\<lambda>_ _. 65) c2" by (rule conn_reach.hs_rx_keys [OF conn_reach.hs_tx_keys [OF c(1) run(1)] run(2)])
  have same: "live c2 = live c" "cn_callbacks c2 = cn_callbacks c"
    using run(1,2) by (auto simp: ngtcp2_conn_set_handshake_tx_keys_def ngtcp2_conn_set_handshake_rx_keys_def set_keys_def ret_if_def live_def fun_eq_iff Let_def
        rbind_Ok_iff split: prod.splits if_splits result.splits)
  have may: "may_write c2 (replicate 60 0)" using c(2) ok(1) same(1) by (simp add: may_write_def windows_ok_def small_id_def hello_ok_def)
  with r2 have r3: "conn_reach (\<lambda>a. a) (\<lambda>_ _. 65) c3" using run(3) by (rule conn_reach.write_pkt)
  have "cn_callbacks c = recording_callbacks (\<lambda>_ _. 65)" using new conn_new_ok by (fastforce simp: ngtcp2_conn_client_new_def mbind_Ok)
  then have "one_ack_block (cn_callbacks c2)" by (simp add: same one_ack_block_def recording_callbacks_def decrypts_def honest_decrypt_def)
  moreover have "rx_inv (rx_keys_of c2) (\<lambda>a. a) (\<lambda>_ _. 65) c3"
    using wrote_tx [OF keepsD [OF writers_keep(1) [OF conn_reach_inv [OF r2] may] run(3)]] .
  ultimately have one: "one_ack_block (cn_callbacks c3)" by (simp add: rx_inv_def rx_keys_of_def)
  have keys: "keys_ok (rx_keys_of c3) (cn_state c3)" using ok by (simp add: keys_ok_def rx_keys_of_def key_ok_def)
  have "case ngtcp2_pkt_decode_hd_long hello_pkt of Ok (hdr, n) \<Rightarrow> hd_type hdr \<noteq> NGTCP2_PKT_RETRY \<and> hd_version hdr \<noteq> 0 | _ \<Rightarrow> False" by code_simp
  then have pkt: "datagram_ok hello_pkt" by (auto simp: datagram_ok_def) (simp_all add: hello_pkt_def)
  have r4: "conn_reach (\<lambda>a. a) (\<lambda>_ _. 65) c4" by (rule conn_reach.recv [OF r3 pkt keys one run(4)]) (simp add: ok)
  have live4: "live c4 0" using ok(8) find_stream [OF conn_reach_inv [OF r4], of 0] by (simp split: if_splits)
  from ok(13) obtain c5 where c5: "conn_recv_stream c4 hello_more = Ok (c5, None)" "ngtcp2_conn_find_stream c5 0 \<noteq> Ok None"
      "cn_app c5 0 = [65, 65, 65, 65, 65]"
    by (auto split: result.splits option.splits)
  have "rx_inv (rx_keys_of c4) (\<lambda>a. a) (\<lambda>_ _. 65) c5"
    using recv_stream_ok [OF conn_reach_inv [OF r4] hello_more_segment] c5(1) unfolding returns_def by simp
  from find_stream [OF this, of 0] c5(2) have "live c5 0" by (simp split: if_splits)
  with c5 have "\<exists>c. conn_recv_stream c4 hello_more = Ok (c, None) \<and> live c 0 \<and> cn_app c 0 = [65, 65, 65, 65, 65]" by blast
  then show ?thesis using r3 r4 ok(2,6,9-12) keys one pkt run(4) live4 by - (rule exI [of _ c3], rule exI [of _ c4], intro conjI)
qed

section \<open>Properties\<close>

lemma received_length:
  assumes "rx_inv K got S conn" and "live conn sid"
  shows "got (cn_app conn) sid = stream_prefix (S sid) (unat (ngtcp2_strm_rx_offset (cn_strm conn sid)))"
    and "ngtcp2_strm_rx_offset (cn_strm conn sid) \<le> sm_last_rx_offset (cn_strm conn sid)"
    and "sm_last_rx_offset (cn_strm conn sid) \<le> sm_max_rx_offset (cn_strm conn sid)"
proof -
  let ?strm = "cn_strm conn sid"
  have ok: "strm_rx_ok (S sid) ?strm (got (cn_app conn) sid)" by (rule rx_inv_live(2) [OF assms])
  then show "got (cn_app conn) sid = stream_prefix (S sid) (unat (ngtcp2_strm_rx_offset ?strm))"
    and le: "sm_last_rx_offset ?strm \<le> sm_max_rx_offset ?strm" by (simp_all add: strm_rx_ok_def)
  have "sm_last_rx_offset ?strm \<le> NGTCP2_MAX_VARINT" using ok le by (auto simp: strm_rx_ok_def)
  then have "sm_last_rx_offset ?strm < UINT64_MAX" by (rule order_le_less_trans) simp
  then have "sm_last_rx_offset ?strm \<in> rob_missing (sm_rob ?strm)" using ok by (simp add: strm_rx_ok_def)
  then show "ngtcp2_strm_rx_offset ?strm \<le> sm_last_rx_offset ?strm"
    using rob_first_missing(2) ok unfolding strm_rx_ok_def ngtcp2_strm_rx_offset_def by blast
qed

text \<open>
  C1. The application receives every stream in order and without change. In every state that a connection
  reaches by the receipt of datagrams, in any order, with losses and duplicates, by the writing of packets, and by the other calls
  of the application, what it was given of a stream is a prefix of what the peer sent; while the stream is in
  the hash table, it is exactly the bytes before the first one that has not arrived.
\<close>

theorem stream_data_in_order:
  assumes "conn_reach got S conn"
  shows "(\<exists>n. got (cn_app conn) sid = stream_prefix (S sid) n) \<and>
    (live conn sid \<longrightarrow> got (cn_app conn) sid = stream_prefix (S sid) (unat (ngtcp2_strm_rx_offset (cn_strm conn sid))))"
  using conn_reach_inv [OF assms] received_length(1) [OF conn_reach_inv [OF assms]] by (auto simp: rx_inv_def)

theorem stream_data_in_order_witness:
  "\<exists>conn :: (u64 \<Rightarrow> bytes) ngtcp2_conn. conn_reach (\<lambda>a. a) (\<lambda>_ _. 65) conn \<and> live conn 0 \<and> cn_app conn 0 = [65, 65, 65] \<and>
     cn_app conn 0 = stream_prefix (\<lambda>_. 65) (unat (ngtcp2_strm_rx_offset (cn_strm conn 0)))"
proof -
  obtain conn where conn: "conn_reach (\<lambda>a. a) (\<lambda>_ _. 65) conn" "live conn 0" "cn_app conn 0 = [65, 65, 65]" using hello_run by blast
  then show ?thesis using stream_data_in_order [OF conn(1), of 0] by metis
qed

text \<open>
  C2. Receiving a datagram never faults: no failed assertion, no access outside of an object, no null
  pointer and no endless loop. The datagram is arbitrary, except that it is not empty, is no Retry packet, and has at most 16 versions if it is a
  Version Negotiation packet (\<open>datagram_ok\<close>); the keys for the state of the connection are installed; and the peer puts
  at most one block in the ACK frames of its handshake packets (\<open>one_ack_block\<close>). Without the restrictions on the versions and the blocks the code does fault, see
  \<open>Conn_Faults\<close>. Unless an error is returned, or the handshake failed, the connection
  is again in a state in which all of the properties of reachable states hold.
\<close>

theorem conn_recv_never_faults:
  assumes "conn_reach got S conn" and "datagram_ok pkt" and "keys_ok (rx_keys_of conn) (cn_state conn)" and "one_ack_block (cn_callbacks conn)"
  shows "\<exists>conn' rv. ngtcp2_conn_recv index conn pkt ts = Ok (conn', rv) \<and>
    (rv = None \<longrightarrow> cn_state conn' \<in> handshake_failed \<or> conn_reach got S conn')"
proof -
  have "rk_one_block (rx_keys_of conn)" using assms(4) by (simp add: rx_keys_of_def)
  from conn_recv_ok [OF conn_reach_inv [OF assms(1)] assms(2,3) this] show ?thesis
    using conn_reach.recv [OF assms] unfolding returns_def by blast
qed

theorem conn_recv_never_faults_witness:
  "\<exists>conn conn' :: (u64 \<Rightarrow> bytes) ngtcp2_conn. conn_reach (\<lambda>a. a) (\<lambda>_ _. 65) conn \<and> cn_state conn = NGTCP2_CS_CLIENT_WAIT_HANDSHAKE \<and>
     ngtcp2_conn_recv (\<lambda>_. 0) conn hello_pkt 7 = Ok (conn', None) \<and> cn_app conn 0 = [] \<and> cn_app conn' 0 = [65, 65, 65] \<and>
     (cn_state conn' \<in> handshake_failed \<or> conn_reach (\<lambda>a. a) (\<lambda>_ _. 65) conn')"
proof -
  obtain conn conn' where conn: "conn_reach (\<lambda>a. a) (\<lambda>_ _. 65) conn" "cn_state conn = NGTCP2_CS_CLIENT_WAIT_HANDSHAKE"
      "keys_ok (rx_keys_of conn) (cn_state conn)" "one_ack_block (cn_callbacks conn)" "datagram_ok hello_pkt"
      "ngtcp2_conn_recv (\<lambda>_. 0) conn hello_pkt 7 = Ok (conn', None)" "cn_app conn 0 = []" "cn_app conn' 0 = [65, 65, 65]"
    using hello_run by blast
  from conn_recv_never_faults [OF conn(1,5,3,4), of "\<lambda>_. 0" 7] show ?thesis using conn by auto
qed



text \<open>
  The limits for a frame of the peer: those of its stream, or, for a stream that its first frame opens, the configured limit of new streams. The
  limit of the connection applies to the bytes behind the last offset of the stream; stream 0 is exempt from it.
\<close>

definition over_limit :: "'a ngtcp2_conn \<Rightarrow> ngtcp2_stream \<Rightarrow> bool" where
  "over_limit conn fr \<longleftrightarrow>
     (let sid = st_stream_id fr; strm = cn_strm conn sid;
          limit = (if live conn sid then sm_max_rx_offset strm else ucast (se_max_stream_data (cn_local_settings conn)));
          last_offset = (if live conn sid then sm_last_rx_offset strm else 0)
      in limit < fr_end fr \<or>
         sid \<noteq> 0 \<and> last_offset < fr_end fr \<and> unat (cn_max_rx_offset conn) < unat (cn_rx_offset conn) + (unat (fr_end fr) - unat last_offset))"

text \<open>
  A frame that passes the checks of the code before those of the flow control, on a stream in the hash table or on a new one of the peer.
\<close>

definition well_placed :: "'a ngtcp2_conn \<Rightarrow> ngtcp2_stream \<Rightarrow> bool" where
  "well_placed conn fr \<longleftrightarrow>
     (let sid = st_stream_id fr in
      \<not> (sid = 0 \<and> st_fin fr) \<and> (st_fin fr \<or> st_data fr \<noteq> []) \<and> stream_id_check conn sid = None \<and> (bidi_stream sid \<or> \<not> conn_local_stream conn sid) \<and>
      length (st_data fr) < 2 ^ 62 \<and> unat (st_offset fr) + length (st_data fr) < 2 ^ 62 \<and>
      (live conn sid \<or> \<not> conn_local_stream conn sid \<and> fresh conn sid))"

lemma given_counted: "rx_inv K got S conn \<Longrightarrow> length (got (cn_app conn) sid) \<le> counted got conn sid"
  using received_length(1,2) [of K got S conn sid] by (simp add: counted_def stream_prefix_def word_le_nat_alt)

lemma max_data_violated:
  assumes "cn_rx_offset conn \<le> cn_max_rx_offset conn"
  shows "l < e \<Longrightarrow> conn_max_data_violated conn (e - l) \<longleftrightarrow> unat (cn_max_rx_offset conn) < unat (cn_rx_offset conn) + (unat e - unat l)"
  using assms by (auto simp: conn_max_data_violated_def word_less_nat_alt unat_sub order_less_imp_le)

lemma existing_over_limit:
  assumes "cn_rx_offset conn \<le> cn_max_rx_offset conn" and "live conn (st_stream_id fr)" and "over_limit conn fr"
  shows "recv_stream_existing conn fr = Ok (conn, Some NGTCP2_ERR_FLOW_CONTROL)"
  using assms max_data_violated [OF assms(1)] by (auto simp: over_limit_def recv_stream_existing_def Let_def)

lemma over_limit_refused:
  assumes inv: "rx_inv K got S conn" and fr: "well_placed conn fr" "over_limit conn fr"
  shows "\<exists>c. conn_recv_stream conn fr = Ok (c, Some NGTCP2_ERR_FLOW_CONTROL) \<and> cn_app c = cn_app conn \<and> cn_rx_offset c = cn_rx_offset conn \<and>
    (live conn (st_stream_id fr) \<longrightarrow> c = conn)"
proof -
  let ?sid = "st_stream_id fr" and ?n = "of_nat (length (st_data fr)) :: u64"
  have rx: "cn_rx_offset conn \<le> cn_max_rx_offset conn" using inv by (simp add: rx_inv_def)
  have small: "length (st_data fr) < 2 ^ 62" "unat (st_offset fr) + length (st_data fr) < 2 ^ 62" using fr(1) by (simp_all add: well_placed_def Let_def)
  then have n: "unat ?n = length (st_data fr)" by (simp add: unat_of_nat_small)
  then have nz: "st_data fr \<noteq> [] \<Longrightarrow> ?n \<noteq> 0" by auto
  have "\<not> NGTCP2_MAX_VARINT - ?n < st_offset fr"
    using small n by (subst word_less_nat_alt, subst unat_sub) (simp_all add: word_le_nat_alt)
  then have run: "conn_recv_stream conn fr = (if live conn ?sid then recv_stream_existing conn fr
      else rbind (conn_idtr_open conn ?sid) (\<lambda>(conn, rv).
            if rv = Some NGTCP2_ERR_STREAM_IN_USE then done0 conn
            else c_assert (rv = None) (then_ok (conn_create_remote_stream conn ?sid) (\<lambda>conn. recv_stream_existing conn fr))))"
    using fr(1) nz by (auto simp: well_placed_def conn_recv_stream_def Let_def find_stream [OF inv])
  show ?thesis
  proof (cases "live conn ?sid")
    case True
    with existing_over_limit [OF rx True fr(2)] show ?thesis by (simp add: run)
  next
    case False
    then have new: "\<not> conn_local_stream conn ?sid" "fresh conn ?sid" "stream_id_check conn ?sid = None"
      using fr(1) by (auto simp: well_placed_def Let_def)
    obtain c where c: "conn_idtr_open conn ?sid = Ok (c, None)" "may_create K got S c ?sid" "cn_rx_offset c = cn_rx_offset conn"
        "cn_max_rx_offset c = cn_max_rx_offset conn" "cn_app c = cn_app conn" "cn_local_settings c = cn_local_settings conn"
      using idtr_open_conn [OF inv new(1,3) False] new(2) by auto
    obtain d where d: "conn_create_remote_stream c ?sid = Ok (d, None)" "cn_app d = cn_app c" "cn_rx_offset d = cn_rx_offset c"
        "cn_max_rx_offset d = cn_max_rx_offset c" "sm_max_rx_offset (cn_strm d ?sid) = ucast (se_max_stream_data (cn_local_settings c))"
        "sm_last_rx_offset (cn_strm d ?sid) = 0"
      using create_remote_stream_new [OF c(2)] by blast
    have "live d ?sid" using create_remote_stream_ok [OF c(2)] d(1) unfolding returns_def by auto
    then have "recv_stream_existing d fr = Ok (d, Some NGTCP2_ERR_FLOW_CONTROL)"
      using existing_over_limit [of d fr] False fr(2) rx by (simp add: over_limit_def Let_def c d)
    then show ?thesis using c d False by (simp add: run then_ok_def)
  qed
qed

text \<open>
  C4. Flow control towards the peer. In every reachable state, the application was never given more of a stream than the limit that was
  advertised for it, and what it was given of all the streams but stream 0, those that were closed included, adds up to at most the offset that the connection
  counts, which is within the limit of the connection. A frame that ends
  beyond the limit of its stream, or that adds more new data than the connection has room for, is refused with a flow control error, with the FIN bit or
  without, on an existing stream and on one that it would open: nothing is given to the application and nothing is counted, and an existing
  stream does not change.
\<close>

theorem flow_control_enforced:
  assumes "conn_reach got S conn"
  shows "(live conn sid \<longrightarrow> length (got (cn_app conn) sid) \<le> unat (sm_max_rx_offset (cn_strm conn sid))) \<and>
    (\<Sum>s \<in> - {0}. length (got (cn_app conn) s)) \<le> unat (cn_rx_offset conn) \<and> cn_rx_offset conn \<le> cn_max_rx_offset conn \<and>
    (well_placed conn fr \<and> over_limit conn fr \<longrightarrow>
      (\<exists>c. conn_recv_stream conn fr = Ok (c, Some NGTCP2_ERR_FLOW_CONTROL) \<and> cn_app c = cn_app conn \<and> cn_rx_offset c = cn_rx_offset conn \<and>
        (live conn (st_stream_id fr) \<longrightarrow> c = conn)))"
proof (intro conjI impI)
  note inv = conn_reach_inv [OF assms]
  show "length (got (cn_app conn) sid) \<le> unat (sm_max_rx_offset (cn_strm conn sid))" if "live conn sid"
    using received_length [OF inv that] by (simp add: stream_prefix_def word_le_nat_alt)
  have "(\<Sum>s \<in> - {0}. counted got conn s) \<le> unat (cn_rx_offset conn)" using inv by (simp add: rx_inv_def data_counted_def)
  then show "(\<Sum>s \<in> - {0}. length (got (cn_app conn) s)) \<le> unat (cn_rx_offset conn)"
    using sum_mono [of "- {0}" "\<lambda>s. length (got (cn_app conn) s)" "counted got conn"] given_counted [OF inv] by (meson order_trans)
  show "cn_rx_offset conn \<le> cn_max_rx_offset conn" using inv by (simp add: rx_inv_def)
qed (rule over_limit_refused [OF conn_reach_inv [OF assms]], simp_all)

theorem flow_control_enforced_witness:
  "\<exists>conn :: (u64 \<Rightarrow> bytes) ngtcp2_conn. conn_reach (\<lambda>a. a) (\<lambda>_ _. 65) conn \<and> length (cn_app conn 0) = 3 \<and> sm_max_rx_offset (cn_strm conn 0) = 100 \<and>
     conn_recv_stream conn \<lparr>st_flags = 0, st_fin = False, st_stream_id = 0, st_offset = 99, st_data = [65, 65]\<rparr> =
       Ok (conn, Some NGTCP2_ERR_FLOW_CONTROL)"
proof -
  obtain conn where conn: "conn_reach (\<lambda>a. a) (\<lambda>_ _. 65) conn" "cn_app conn 0 = [65, 65, 65]" "live conn 0" "stream_id_check conn 0 = None"
      "sm_max_rx_offset (cn_strm conn 0) = 100"
    using hello_run by blast
  let ?fr = "\<lparr>st_flags = 0, st_fin = False, st_stream_id = 0, st_offset = 99, st_data = [65, 65]\<rparr>"
  have "well_placed conn ?fr" "over_limit conn ?fr" using conn by (simp_all add: well_placed_def over_limit_def Let_def bidi_stream_def)
  then show ?thesis using flow_control_enforced [OF conn(1), of 0 ?fr] conn by auto
qed

text \<open>
  C12. The loop over the frames of a payload ends for every payload: when the handler of a frame returns
  for every frame that the decoder can produce, the loop returns, with the error of the handler, of
  the decoder, or without one. The length of a payload is below \<open>2 ^ 62\<close>.
\<close>

theorem frames_loop_ends:
  assumes "\<And>fr s. frame_ok fr \<Longrightarrow> \<exists>s' rv. handle fr s = Ok (s', rv)" and "length payload < 2 ^ 62"
  shows "\<exists>s' rv. frames_loop handle payload s = Ok (s', rv)"
  using frames_loop_ok [where I = "\<lambda>_. True" and P = "\<lambda>_. True" and handle = handle, OF _ assms(2)] assms(1) by blast

theorem frames_loop_ends_witness:
  "\<exists>s' rv. frames_loop (\<lambda>fr n. Ok (n + 1, None)) [0x00, 0x07, 0x0d] (0 :: nat) = Ok (s', rv)"
  by (rule frames_loop_ends) simp_all

end
