(* ===== verification/Conn_Progress.thy ===== *)
theory Conn_Progress
  imports Conn_Send Conn_Reach
begin

text \<open>
  What the sending side gets done: the loop of \<^verbatim>\<open>conn_retransmit\<close> ends because every round that goes on has removed an entry
  from the retransmission buffer; a call of \<^verbatim>\<open>ngtcp2_conn_write_stream\<close> that flow control and the room in the destination
  allow returns a packet with some of the data; and the writers keep the invariant of the connection and count what they send.
\<close>

section \<open>The retransmission loop ends\<close>

text \<open>A packet with a header is not empty, and a writer that wrote nothing has not touched the retransmission buffer.\<close>

definition has_hd :: "ngtcp2_ppe \<Rightarrow> bool" where
  "has_hd ppe \<longleftrightarrow> 0 < ppe_hdlen ppe \<and> buf_pos (ppe_buf ppe) = 0"

lemma buf_store_pos: "buf_store buf i bs = Ok buf' \<Longrightarrow> buf_pos buf' = buf_pos buf \<and> buf_last buf' = i + length bs \<and> i + length bs \<le> length (buf_mem buf')"
  by (auto simp: buf_store_def c_assert_def split: if_splits)

lemma encode_hd_nonempty: "ngtcp2_pkt_encode_hd_long n hdr = Ok bs \<Longrightarrow> bs \<noteq> []" "ngtcp2_pkt_encode_hd_short n hdr = Ok bs \<Longrightarrow> bs \<noteq> []"
  by (auto simp: ngtcp2_pkt_encode_hd_long_def ngtcp2_pkt_encode_hd_short_def Let_def ret_if_def c_assert_def split: if_splits)

lemma has_hd_begin: "pkt_begin dest ctx hdr = Ok ppe \<Longrightarrow> has_hd ppe"
  by (auto simp: pkt_begin_def ngtcp2_ppe_encode_hd_def ngtcp2_ppe_init_def ngtcp2_buf_init_def has_hd_def buf_append_def ret_if_def rbind_Ok_iff Let_def
      dest!: buf_store_pos encode_hd_nonempty split: if_splits)

lemma has_hd_encode: "ngtcp2_ppe_encode_frame ppe fr = Ok (ppe', fr') \<Longrightarrow> has_hd ppe \<Longrightarrow> has_hd ppe'"
  by (auto simp: ngtcp2_ppe_encode_frame_def has_hd_def buf_append_def ret_if_def rbind_Ok_iff Let_def dest!: buf_store_pos split: if_splits)

lemma has_hd_padding: "ngtcp2_ppe_padding ppe = Ok (ppe', n) \<Longrightarrow> has_hd ppe \<Longrightarrow> has_hd ppe'"
  by (auto simp: ngtcp2_ppe_padding_def has_hd_def buf_append_def rbind_Ok_iff c_assert_def Let_def dest!: buf_store_pos split: if_splits)

lemma has_hd_final: "pkt_final ckm ppe = Ok pkt \<Longrightarrow> has_hd ppe \<Longrightarrow> pkt \<noteq> []"
  by (auto simp: pkt_final_def ngtcp2_ppe_final_def has_hd_def ngtcp2_buf_len_def rbind_Ok_iff c_assert_def Let_def dest!: buf_store_pos split: option.splits if_splits)

definition started :: "ngtcp2_rtb \<Rightarrow> 'a pkt_state \<Rightarrow> bool" where
  "started rtb s \<longleftrightarrow> (case s of (conn, ppe, called) \<Rightarrow> cn_rtb conn = rtb \<and> has_hd ppe)"

lemma same_but_app_rtb: "same_but_app c c' \<Longrightarrow> cn_rtb c = cn_rtb c'"
  by (auto simp: same_but_app_def)

lemma write_frame_started: "started rtb s \<Longrightarrow> keeps (conn_ppe_write_frame hdr s fr) (\<lambda>x. started rtb (fst x))"
proof -
  assume s: "started rtb s"
  obtain conn ppe called where s_eq: "s = (conn, ppe, called)" by (metis prod_cases3)
  have "started rtb x" if "conn_ppe_write_frame hdr s fr = Ok (x, fr', rv)" for x fr' rv
  proof -
    obtain conn' ppe' called' where x: "x = (conn', ppe', called')" by (metis prod_cases3)
    have "has_hd ppe'"
      using that s by (auto simp: s_eq x started_def conn_ppe_write_frame_def dest: has_hd_encode split: result.splits option.splits prod.splits)
    then show ?thesis using write_frame_run(1) [of hdr conn ppe called fr] that s by (auto simp: s_eq x started_def dest: same_but_app_rtb)
  qed
  then show ?thesis by (auto simp: keeps_def)
qed

lemma append_ack_has_hd:
  assumes "started rtb s"
  shows "keeps (append_ack hdr ts s) (\<lambda>x. has_hd (fst (snd (fst x))))"
proof -
  obtain conn ppe called where s: "s = (conn, ppe, called)" by (metis prod_cases3)
  have hd: "has_hd ppe" using assms by (simp add: s started_def)
  have ack: "keeps (conn_ppe_write_frame hdr (c, ppe, called) fr) (\<lambda>x. has_hd (fst (snd (fst x))))" for c fr
    using write_frame_started [of "cn_rtb c" "(c, ppe, called)" hdr fr] hd by (auto simp: started_def keeps_def)
  show ?thesis
    unfolding append_ack_def s prod.case
    by (rule keeps_bind [where P = "\<lambda>_. True"], simp add: keeps_def)
      (auto simp: hd split: sum.split option.split intro!: keeps_bind [OF ack] keeps_bind [where P = "\<lambda>_. True"], auto simp: keeps_def)
qed

abbreviation nothing_done :: "ngtcp2_rtb \<Rightarrow> ('a ngtcp2_conn \<times> ngtcp2_rtb_entry) \<times> (ngtcp2_lib_error + bytes) \<Rightarrow> bool" where
  "nothing_done rtb x \<equiv> snd x = Inr [] \<longrightarrow> cn_rtb (fst (fst x)) = rtb"

lemma split_writes: "pkt \<noteq> [] \<Longrightarrow> keeps (retransmit_split conn p ent hdr gone rest pkt flags ts) (nothing_done rtb)"
  unfolding retransmit_split_def
  by (auto split: prod.split result.split simp: Let_def intro!: keeps_bind [where P = "\<lambda>_. True"], auto simp: keeps_def split: option.splits)

lemma final_writes:
  assumes "has_hd ppe" and "\<And>pkt. pkt \<noteq> [] \<Longrightarrow> keeps (k pkt) (nothing_done rtb)"
  shows "keeps (on_ok s (pkt_final ckm ppe) k) (nothing_done rtb)"
  by (rule keeps_on_ok) (auto intro: assms dest: has_hd_final)

lemma started_then:
  assumes "has_hd ppe" and "\<And>c ppe called gone rest rv. started (cn_rtb conn) (c, ppe, called) \<Longrightarrow> keeps (k ((c, ppe, called), gone, rest, rv)) Q"
  shows "keeps (rbind (write_frames check hdr (conn, ppe, False) gone0 frs) k) Q"
proof (rule keeps_bind [OF write_frames_steps [where P = "started (cn_rtb conn)", OF write_frame_started]])
  show "started (cn_rtb conn) (conn, ppe, False)" using assms(1) by (simp add: started_def)
  show "keeps (k x) Q" if "steps (started (cn_rtb conn)) x" for x
    using that assms(2) by (cases x) (metis fst_conv prod_cases3)
qed

lemma retransmit_protected_nothing: "keeps (conn_retransmit_protected conn dest p ent ts) (nothing_done (cn_rtb conn))"
proof -
  have after: "keeps (rbind (if ack then append_ack hdr ts s else Ok (s, None)) (\<lambda>((conn, ppe, called), rv).
        case rv of Some e \<Rightarrow> refuses (conn, ent\<lparr>re_frc := frc\<rparr>) e
        | None \<Rightarrow>
            if rest = [] then
              rbind (ngtcp2_rtb_entry_extend_expiry (ent\<lparr>re_frc := frc, re_hd := hdr\<rparr>) ts) (\<lambda>ent.
              on_ok (conn, ent) (pkt_final (cn_tx_ckm conn) ppe) (writes (inc_tx_pkt_num conn, ent)))
            else
              on_ok (conn, ent\<lparr>re_frc := frc\<rparr>) (pkt_final (cn_tx_ckm conn) ppe) (\<lambda>pkt.
              retransmit_split conn p (ent\<lparr>re_frc := frc\<rparr>) hdr gone rest pkt NGTCP2_RTB_FLAG_NONE ts))) (nothing_done rtb)"
    if s: "started rtb s" for s ack hdr frc gone rest rtb
  proof (rule keeps_bind [where P = "\<lambda>x. has_hd (fst (snd (fst x)))"])
    show "keeps (if ack then append_ack hdr ts s else Ok (s, None)) (\<lambda>x. has_hd (fst (snd (fst x))))"
      using append_ack_has_hd [OF s] s by (auto simp: started_def)
  qed (auto split: option.split intro!: final_writes split_writes keeps_bind [where P = "\<lambda>_. True"], auto simp: keeps_def)
  show ?thesis
    unfolding conn_retransmit_protected_def Let_def
    by (rule keeps_on_ok, simp, rule started_then, erule has_hd_begin, simp only: prod.case, intro keeps_if after)
      (auto simp: started_def split: option.split)
qed

lemma retransmit_unprotected_nothing: "keeps (conn_retransmit_unprotected conn dest p ent ts) (nothing_done (cn_rtb conn))"
proof -
  have pad: "keeps (if initial then rbind (ngtcp2_ppe_padding ppe) (\<lambda>(ppe, len). Ok (ppe, conn_call_send_frame c hdr (FR_PADDING len))) else Ok (ppe, c, None))
      (\<lambda>x. has_hd (fst x))" if "has_hd ppe" for c ppe initial hdr
    using that by (auto simp: keeps_def rbind_Ok_iff dest: has_hd_padding)
  have all: "keeps (rbind (ngtcp2_rtb_entry_extend_expiry (ent\<lparr>re_frc := frc, re_hd := hdr\<rparr>) ts) (\<lambda>ent.
        rbind (if initial then rbind (ngtcp2_ppe_padding ppe) (\<lambda>(ppe, len). Ok (ppe, conn_call_send_frame c hdr (FR_PADDING len))) else Ok (ppe, c, None))
          (\<lambda>(ppe, conn, rv).
        case rv of Some e \<Rightarrow> refuses (conn, ent) e
        | None \<Rightarrow> on_ok (inc_tx_pkt_num conn, ent) (pkt_final (cn_hs_tx_ckm conn) ppe) (writes (inc_tx_pkt_num conn, ent))))) (nothing_done rtb)"
    if "has_hd ppe" for c ppe initial hdr frc rtb
    by (rule keeps_bind [where P = "\<lambda>_. True"], simp add: keeps_def, rule keeps_bind [OF pad [OF that]])
      (auto split: option.split intro!: final_writes)
  show ?thesis
    unfolding conn_retransmit_unprotected_def Let_def
    by (rule keeps_on_ok, simp, rule started_then, erule has_hd_begin, simp only: prod.case, intro keeps_if all final_writes split_writes)
      (auto simp: started_def split: option.split)
qed

lemma retransmit_entry_nothing: "keeps (conn_retransmit_entry conn dest p ent ts) (nothing_done (cn_rtb conn))"
  unfolding conn_retransmit_entry_def
  by (intro keeps_if retransmit_protected_nothing retransmit_unprotected_nothing) simp_all

lemma pq_swap_length: "length (pq_q (pq_swap pq i j)) = length (pq_q pq)"
  by (simp add: pq_swap_def Let_def)

lemma bubble_down_length: "length (pq_q (bubble_down lt pq k)) = length (pq_q pq)"
proof (induction lt pq k rule: bubble_down.induct)
  case (1 lt pq k)
  then show ?case by (subst bubble_down.simps) (simp add: Let_def pq_swap_length)
qed

lemma rtb_pop_length:
  assumes "ngtcp2_rtb_top rtb = Some p" and "ngtcp2_rtb_pop rtb = Ok rtb'"
  shows "length (pq_q (rtb_pq rtb)) = Suc (length (pq_q (rtb_pq rtb')))"
  using assms
  by (auto simp: ngtcp2_rtb_top_def ngtcp2_rtb_pop_def ngtcp2_pq_empty_def ngtcp2_pq_pop_def bubble_down_length c_assert_def Let_def
      split: if_splits option.splits)

lemma retransmit_loop_fuel:
  "length (pq_q (rtb_pq (cn_rtb conn))) < n \<Longrightarrow> length (pq_q (rtb_pq (cn_rtb conn))) < m \<Longrightarrow>
    retransmit_loop n conn dest ts = retransmit_loop m conn dest ts"
proof (induction n arbitrary: m conn)
  case (Suc n)
  obtain k where m: "m = Suc k" using Suc.prems(2) by (cases m) auto
  show ?case
  proof (cases "ngtcp2_rtb_top (cn_rtb conn)")
    case (Some p)
    let ?ent = "rtb_store (cn_rtb conn) p"
    have next_round: "retransmit_loop n c' dest ts = retransmit_loop k c' dest ts"
      if "ngtcp2_rtb_pop (cn_rtb conn) = Ok rtb" "conn_retransmit_entry (conn\<lparr>cn_rtb := rtb\<rparr>) dest p ?ent ts = Ok ((c', ent'), Inr [])" for rtb c' ent'
    proof -
      have "cn_rtb c' = rtb" using keepsD [OF retransmit_entry_nothing that(2)] by simp
      then show ?thesis using rtb_pop_length [OF Some that(1)] Suc.prems m by (intro Suc.IH) simp_all
    qed
    show ?thesis
    proof (cases "ngtcp2_rtb_pop (cn_rtb conn)")
      case (Ok rtb)
      then show ?thesis
        unfolding m retransmit_loop.simps Some option.case Let_def
        by (cases "conn_retransmit_entry (conn\<lparr>cn_rtb := rtb\<rparr>) dest p ?ent ts") (auto simp: next_round split: sum.split)
    qed (simp_all add: m Some Let_def)
  qed (simp add: m)
qed simp

text \<open>
  C11. The retransmission loop ends: a round that wrote nothing, after which the loop goes on, leaves one entry less in the buffer, so with more
  rounds than there are entries the loop returns the same result, and never runs out of rounds.
\<close>

theorem retransmit_loop_ends:
  assumes "length (pq_q (rtb_pq (cn_rtb conn))) < n"
  shows "retransmit_loop n conn dest ts = conn_retransmit conn dest ts"
  unfolding conn_retransmit_def by (rule retransmit_loop_fuel) (use assms in simp_all)

theorem retransmit_loop_ends_witness:
  "\<exists>conn conn' pkt. conn_rtb_add sample_conn 3 sample_ent = Ok (conn, None) \<and> length (pq_q (rtb_pq (cn_rtb conn))) = 1 \<and>
     retransmit_loop 5 conn (replicate 60 0) 7 = Ok (conn', Inr pkt) \<and> pkt \<noteq> [] \<and> conn_retransmit conn (replicate 60 0) 7 = Ok (conn', Inr pkt)"
proof -
  have "case conn_rtb_add sample_conn 3 sample_ent of Ok (conn, None) \<Rightarrow> length (pq_q (rtb_pq (cn_rtb conn))) = 1 \<and>
      (case retransmit_loop 5 conn (replicate 60 0) 7 of Ok (_, Inr pkt) \<Rightarrow> pkt \<noteq> [] | _ \<Rightarrow> False) | _ \<Rightarrow> False" by code_simp
  then obtain conn conn' pkt where run: "conn_rtb_add sample_conn 3 sample_ent = Ok (conn, None)" "length (pq_q (rtb_pq (cn_rtb conn))) = 1"
      "retransmit_loop 5 conn (replicate 60 0) 7 = Ok (conn', Inr pkt)" "pkt \<noteq> []"
    by (auto split: result.splits option.splits sum.splits)
  have "conn_retransmit conn (replicate 60 0) 7 = Ok (conn', Inr pkt)" using retransmit_loop_ends [of conn 5 "replicate 60 0" 7] run(2) unfolding run(3) by simp
  then show ?thesis using run by blast
qed

section \<open>Stream data is sent\<close>

lemma varint_len_le:
  "vint w \<Longrightarrow> \<exists>k \<le> 8. ngtcp2_put_varint_len w = Ok k" "w < 2 ^ 30 \<Longrightarrow> \<exists>k \<le> 4. ngtcp2_put_varint_len w = Ok k"
  "w < 16384 \<Longrightarrow> \<exists>k \<le> 2. ngtcp2_put_varint_len w = Ok k"
  by (auto simp: ngtcp2_put_varint_len_def c_assert_def word_less_nat_alt)

lemma stream_frame_fits:
  assumes "st_stream_id fr < 2 ^ 30" and "vint (st_offset fr)" and len: "length (st_data fr) < 16384" and room: "15 + length (st_data fr) \<le> outlen"
  shows "ngtcp2_pkt_encode_frame outlen (FR_STREAM fr) \<noteq> Err NGTCP2_ERR_NOBUF"
proof -
  have n: "(of_nat (length (st_data fr)) :: u64) < 16384" using len by (simp add: word_less_nat_alt unat_of_nat_small)
  obtain a b c where k: "ngtcp2_put_varint_len (st_offset fr) = Ok a" "a \<le> 8" "ngtcp2_put_varint_len (st_stream_id fr) = Ok b" "b \<le> 4"
      "ngtcp2_put_varint_len (of_nat (length (st_data fr))) = Ok c" "c \<le> 2"
    using varint_len_le(1) [OF assms(2)] varint_len_le(2) [OF assms(1)] varint_len_le(3) [OF n] by blast
  have put: "ngtcp2_put_varint w \<noteq> Err e" for w e by (auto simp: ngtcp2_put_varint_def c_assert_def Let_def)
  have "put_all ps \<noteq> Err e" if "\<forall>p \<in> set ps. \<forall>e. p \<noteq> Err e" for ps :: "bytes result list" and e
    using that
  proof (induction ps)
    case (Cons p ps)
    then show ?case by (cases p) (auto simp: rbind_Err_iff)
  qed simp
  then have emit: "emit outlen lens ps \<noteq> Err e" if "sum_lens lens = Ok m" "m \<le> outlen" "\<forall>p \<in> set ps. \<forall>e. p \<noteq> Err e" for lens ps m e
    using that by (auto simp: emit_def ret_if_def rbind_Err_iff c_assert_def)
  show ?thesis
    using k room put emit by (auto simp: ngtcp2_pkt_encode_stream_frame_def Let_def rbind_Err_iff)
qed

text \<open>The callbacks of the packets that are sent do not fail.\<close>

definition calls_succeed :: "'a ngtcp2_conn_callbacks \<Rightarrow> bool" where
  "calls_succeed cbs \<longleftrightarrow> (\<forall>f. cb_send_pkt cbs = Some f \<longrightarrow> (\<forall>hdr a. \<not> snd (f hdr a))) \<and> (\<forall>f. cb_send_frame cbs = Some f \<longrightarrow> (\<forall>hdr fr a. \<not> snd (f hdr fr a)))"

lemma calls_ok:
  assumes "calls_succeed (cn_callbacks c)"
  shows "\<exists>a. conn_call_send_pkt c hdr = (c\<lparr>cn_app := a\<rparr>, None)" and "\<exists>a. conn_call_send_frame c hdr fr = (c\<lparr>cn_app := a\<rparr>, None)"
proof -
  have same: "\<exists>a. c = c\<lparr>cn_app := a\<rparr>" by (intro exI [of _ "cn_app c"]) simp
  show "\<exists>a. conn_call_send_pkt c hdr = (c\<lparr>cn_app := a\<rparr>, None)"
    using assms same by (auto simp: calls_succeed_def conn_call_send_pkt_def call_cb_def split: option.split prod.split) (metis snd_conv)+
  show "\<exists>a. conn_call_send_frame c hdr fr = (c\<lparr>cn_app := a\<rparr>, None)"
    using assms same by (auto simp: calls_succeed_def conn_call_send_frame_def call_cb_def split: option.split prod.split) (metis snd_conv)+
qed

lemma stream_pkt_track_total:
  assumes inv: "tx_inv K got S B conn" and len: "B + unat (re_pktlen ent) < 2 ^ 64"
  shows "\<exists>c. stream_pkt_track conn type ent = Ok (c, None)"
proof -
  obtain c rv where c: "conn_rtb_add conn (new_addr (rtb_head (cn_rtb conn))) ent = Ok (c, rv)"
    by (cases "conn_rtb_add conn (new_addr (rtb_head (cn_rtb conn))) ent") (auto simp: conn_rtb_add_def Let_def split: prod.splits)
  have "rv = None" using keepsD [OF tx_rtb_add_sum [OF inv new_addr_fresh len] c] by simp
  then show ?thesis using c by (simp add: stream_pkt_track_def conn_track_def c_assert_def)
qed

text \<open>What \<open>ngtcp2_conn_write_stream\<close> needs to send a packet.\<close>

definition can_send :: "'a ngtcp2_conn \<Rightarrow> u64 \<Rightarrow> bytes \<Rightarrow> bytes \<Rightarrow> bool" where
  "can_send conn sid data dest \<longleftrightarrow> cn_last_tx_pkt_num conn \<noteq> UINT64_MAX \<and> live conn sid \<and> sm_flags (cn_strm conn sid) AND NGTCP2_STRM_FLAG_SHUT_WR = 0 \<and>
     sid < 2 ^ 30 \<and> vint (sm_tx_offset (cn_strm conn sid)) \<and> calls_succeed (cn_callbacks conn) \<and>
     33 + cn_aead_overhead conn \<le> length dest \<and> length dest \<le> 16384 \<and>
     (data \<noteq> [] \<longrightarrow> length data < 2 ^ 62 \<and> sm_tx_offset (cn_strm conn sid) < sm_max_tx_offset (cn_strm conn sid) \<and> cn_tx_offset conn < cn_max_tx_offset conn)"

lemma write_stream_pkt_total:
  assumes inv: "tx_inv K got S B conn" and can: "can_send conn sid data dest" and L: "B + length dest < 2 ^ 64"
    and ppe: "ppe_holds ppe (length dest) hdb []" "ppe_ctx ppe = protected_ctx conn (Some ckm)" and aead: "aead_ok (protected_ctx conn (Some ckm)) dec"
    and iv: "8 \<le> length (km_iv ckm)" "length (km_iv ckm) \<le> 32" and n: "unat n \<le> length data" "15 + unat n \<le> ngtcp2_ppe_left ppe"
  shows "\<exists>c pkt. write_stream_pkt conn hdr type ckm ppe sid fin data n ts = Ok ((c, Some (unat n)), Inr pkt)"
proof -
  have mem: "cn_mem conn = []" using inv by (simp add: tx_inv_def rx_inv_def)
  note can' = can [unfolded can_send_def]
  obtain a where a: "conn_call_send_pkt conn hdr = (conn\<lparr>cn_app := a\<rparr>, None)" using calls_ok(1) can' by blast
  let ?c1 = "conn\<lparr>cn_app := a, cn_mem := []\<rparr>"
  let ?fr = "\<lparr>st_flags = 0, st_fin = fin, st_stream_id = sid, st_offset = sm_tx_offset (cn_strm conn sid), st_data = take (unat n) data\<rparr>"
  have left: "ngtcp2_ppe_left ppe \<le> length dest" using ppe(1) by (simp add: ngtcp2_ppe_left_def ngtcp2_buf_left_def ppe_holds_def)
  have sid: "vint sid" using can' by (auto simp: word_less_nat_alt)
  have "frame_ok (FR_STREAM ?fr)" "\<not> is_padding (FR_STREAM ?fr)" using can' sid n left by (auto simp: is_padding_def)
  note enc = ppe_encode_frame_ok [OF ppe(1) this]
  have "\<not> ngtcp2_buf_left (ppe_buf ppe) < ctx_aead_overhead (ppe_ctx ppe)" using n(2) by (auto simp: ngtcp2_ppe_left_def split: if_splits)
  then have "ngtcp2_ppe_encode_frame ppe (FR_STREAM ?fr) \<noteq> Err NGTCP2_ERR_NOBUF"
    using stream_frame_fits [of ?fr "ngtcp2_ppe_left ppe"] can' n left
    by (auto simp: ngtcp2_ppe_encode_frame_def ngtcp2_ppe_left_def Let_def ret_if_def rbind_Err_iff buf_append_def buf_store_def c_assert_def split: if_splits)
  with enc obtain ppe1 bs where ppe1: "ngtcp2_ppe_encode_frame ppe (FR_STREAM ?fr) = Ok (ppe1, sent (FR_STREAM ?fr))" "ppe_holds ppe1 (length dest) hdb bs"
      "ppe_ctx ppe1 = protected_ctx conn (Some ckm)"
    using ppe(2) by (auto split: if_splits)
  obtain b where b: "conn_call_send_frame ?c1 hdr (sent (FR_STREAM ?fr)) = (?c1\<lparr>cn_app := b\<rparr>, None)" using calls_ok(2) [of ?c1] can' by auto
  obtain nonce where nonce: "ngtcp2_crypto_create_nonce (km_iv ckm) (ppe_pkt_num ppe1) = Ok nonce" using iv(1) by (simp add: ngtcp2_crypto_create_nonce_def)
  from ppe_final_ok [OF ppe1(2), of dec nonce] obtain ppe2 ct where fin: "ngtcp2_ppe_final ppe1 = Ok (ppe2, hdb @ ct)" "length (hdb @ ct) \<le> length dest"
    using aead nonce iv(2) by (auto simp: ppe1(3) protected_ctx_fields)
  let ?pkt = "hdb @ ct" and ?c2 = "conn\<lparr>cn_app := b\<rparr>"
  have c1: "?c1 = conn\<lparr>cn_app := a\<rparr>" using mem by simp
  have "tx_inv K got S B ?c1" using tx_callbacks(1) [OF inv, of hdr] by (simp add: a c1)
  from tx_callbacks(2) [OF this, of hdr "sent (FR_STREAM ?fr)"] have "tx_inv K got S B (?c1\<lparr>cn_app := b\<rparr>)" unfolding b fst_conv .
  moreover have c2: "?c1\<lparr>cn_app := b\<rparr> = ?c2" using mem by simp
  ultimately have inv2: "tx_inv K got S B ?c2" by simp
  obtain ent where ent: "conn_rtb_entry_new ?c2 hdr [sent (FR_STREAM ?fr)] ts (ts + NGTCP2_PKT_DEADLINE_PERIOD) ?pkt NGTCP2_RTB_FLAG_NONE = (?c2, Ok ent)"
    "re_pktlen ent = of_nat (length ?pkt)" using tx.entry_new [OF inv2] by metis
  have "B + unat (re_pktlen ent) < 2 ^ 64" using L fin(2) tx.small_len [of ?pkt] by (simp add: ent(2))
  from stream_pkt_track_total [OF inv2 this] obtain c where c: "stream_pkt_track ?c2 type ent = Ok (c, None)" by blast
  have m: "ngtcp2_mem_malloc [] = (True, [])" by simp
  have "write_stream_pkt conn hdr type ckm ppe sid fin data n ts = Ok ((stream_pkt_sent c sid n fin, Some (unat n)), Inr ?pkt)"
    using b [unfolded c2] ent(1) c fin(1) by (simp add: write_stream_pkt_def a with_malloc_def mem m on_ok_Ok ppe1(1) pkt_final_def c_assert_def)
  then show ?thesis by blast
qed

lemma write_stream_total:
  assumes inv: "tx_inv K got S B conn" and can: "can_send conn sid data dest" and L: "B + length dest < 2 ^ 64"
    and key: "stream_pkt_key conn = Inr (flags, type, cid, ckm)" and aead: "aead_ok (protected_ctx conn (Some ckm)) dec"
    and iv: "8 \<le> length (km_iv ckm)" "length (km_iv ckm) \<le> 32"
  shows "\<exists>conn' n pkt. ngtcp2_conn_write_stream conn dest sid fin data ts = Ok ((conn', Some n), Inr pkt) \<and> n \<le> length data \<and> (data \<noteq> [] \<longrightarrow> 0 < n)"
proof -
  let ?hdr = "conn_pkt_hd conn flags type cid" and ?ctx = "protected_ctx conn (Some ckm)"
  note can' = can [unfolded can_send_def]
  have "hd_encodable ?hdr"
    using key by (auto simp: stream_pkt_key_def conn_pkt_hd_def ngtcp2_pkt_hd_init_def hd_encodable_def conn_select_pkt_type_def Let_def split: option.splits if_splits)
  from ppe_encode_hd_ok [OF this, of ?ctx dest "[]"] can' obtain ppe hdb where begin_pkt: "pkt_begin dest ?ctx ?hdr = Ok ppe"
    and ppe: "ppe_holds ppe (length dest) hdb []" "ppe_ctx ppe = ?ctx" "length hdb \<le> 17"
    by (auto simp: pkt_begin_def protected_ctx_fields)
  let ?left = "ngtcp2_ppe_left ppe"
  have left: "16 \<le> ?left" "?left \<le> 16384"
    using ppe can' by (auto simp: ngtcp2_ppe_left_def ngtcp2_buf_left_def ppe_holds_def protected_ctx_fields)
  let ?n = "stream_datalen conn sid (length data) (?left - NGTCP2_STREAM_OVERHEAD)"
  have min: "unat (ngtcp2_min a b) = min (unat a) (unat b)" for a b by (auto simp: ngtcp2_min_def word_less_nat_alt)
  have l: "unat (of_nat (?left - NGTCP2_STREAM_OVERHEAD) :: u64) = ?left - NGTCP2_STREAM_OVERHEAD" using left by (intro unat_of_nat_small) simp
  have n: "unat ?n \<le> length data" "15 + unat ?n \<le> ?left"
  proof -
    have "unat (of_nat (length data) :: u64) \<le> length data" by (simp add: unat_of_nat)
    then show "unat ?n \<le> length data" unfolding stream_datalen_def Let_def min by linarith
    show "15 + unat ?n \<le> ?left" unfolding stream_datalen_def Let_def min l using left(1) by linarith
  qed
  have pos: "0 < unat ?n" if "data \<noteq> []"
  proof -
    have "unat (of_nat (length data) :: u64) = length data" using can' that by (intro unat_of_nat_small) simp
    moreover have "0 < unat (sm_max_tx_offset (cn_strm conn sid) - sm_tx_offset (cn_strm conn sid))" "0 < unat (cn_max_tx_offset conn - cn_tx_offset conn)"
      using can' that by (auto simp: unat_gt_0)
    ultimately show ?thesis unfolding stream_datalen_def Let_def min l using left(1) that by simp
  qed
  have rx: "rx_inv K got S conn" using inv by (simp add: tx_inv_def)
  have "ngtcp2_conn_find_stream conn sid = Ok (Some (cn_strm conn sid))" using find_stream [OF rx] can' by simp
  moreover have "\<not> (data \<noteq> [] \<and> ?n = 0)" using pos by auto
  ultimately have "ngtcp2_conn_write_stream conn dest sid fin data ts = write_stream_pkt conn ?hdr type ckm ppe sid (fin \<and> unat ?n = length data) data ?n ts"
    using can' key begin_pkt left by (auto simp: ngtcp2_conn_write_stream_def Let_def on_ok_Ok)
  then show ?thesis
    using write_stream_pkt_total [OF inv can L ppe(1,2) aead iv n, of ?hdr type "fin \<and> unat ?n = length data" ts] pos n(1) by auto
qed

text \<open>A client that has the keys for sending and the limits of its peer.\<close>

definition ready_params :: ngtcp2_transport_params where
  "ready_params = \<lparr>tp_version = 0, tp_supported_versions = [], initial_max_stream_data = 100, initial_max_data = 100, initial_max_stream_id_bidi = 0,
     initial_max_stream_id_uni = 0, idle_timeout = 0, omit_connection_id = 0, max_packet_size = 0, stateless_reset_token = [], ack_delay_exponent = 0,
     server_unicast_ip = 0, server_unicast_ttl = 0, test_metadata = 0, cpu_sensitive = 0, throughput_sensitive = 0, rtt_sensitive = 0, client_ip = 0,
     client_process = 0, time_stamp = 0\<rparr>"

lemma ready_client:
  "\<exists>conn :: (u64 \<Rightarrow> bytes) ngtcp2_conn. conn_reach (\<lambda>a. a) (\<lambda>_ _. 65) conn \<and> may_write conn (replicate 60 0) \<and>
     can_send conn 0 [1, 2, 3] (replicate 60 0) \<and> (\<exists>flags type cid. stream_pkt_key conn = Inr (flags, type, cid, sample_km)) \<and>
     aead_ok (protected_ctx conn (Some sample_km)) (\<lambda>ct key nonce ad. Some ct) \<and> cn_tx_ckm conn = Some sample_km"
proof -
  let ?new = "ngtcp2_conn_client_new (\<lambda>_. 0) (\<lambda>_. sample_ent) 1 NGTCP2_PROTO_VER_D8 (recording_callbacks (\<lambda>_ _. 65)) zero_settings (\<lambda>_. []) []"
  from recording_client [of zero_settings "\<lambda>_. 0" "\<lambda>_. sample_ent" 1 NGTCP2_PROTO_VER_D8 "\<lambda>_ _. 65"] obtain c where c: "?new = (Ok c, [])"
      "conn_reach (\<lambda>a. a) (\<lambda>_ _. 65) c" "\<forall>sid. live c sid \<longleftrightarrow> sid = 0"
    by (auto simp: zero_settings_def)
  have cbs: "cn_callbacks c = recording_callbacks (\<lambda>_ _. 65)"
    using c(1) conn_new_ok(1) by (fastforce simp: ngtcp2_conn_client_new_def mbind_Ok)
  have "case ?new of (Ok c, _) \<Rightarrow> (case ngtcp2_conn_update_tx_keys c [] (replicate 12 0) of
      Ok (c1, None) \<Rightarrow> (case ngtcp2_conn_set_remote_transport_params c1 NGTCP2_TRANSPORT_PARAMS_TYPE_NEW_SESSION_TICKET ready_params of
        (c2, None) \<Rightarrow> sm_max_rx_offset (cn_strm c2 0) \<le> sm_unsent_max_rx_offset (cn_strm c2 0) \<and> sm_unsent_max_rx_offset (cn_strm c2 0) \<le> NGTCP2_MAX_VARINT \<and>
          cn_unsent_max_remote_stream_id_bidi c2 = 0 \<and> cn_unsent_max_remote_stream_id_uni c2 = 0 \<and> unacked c2 = 0 \<and>
          cn_last_tx_pkt_num c2 \<noteq> UINT64_MAX \<and> sm_flags (cn_strm c2 0) = 0 \<and> sm_tx_offset (cn_strm c2 0) = 0 \<and> sm_max_tx_offset (cn_strm c2 0) = 100 \<and>
          cn_tx_offset c2 = 0 \<and> cn_max_tx_offset c2 = 100 \<and> cn_aead_overhead c2 = 0 \<and> cn_tx_ckm c2 = Some sample_km
      | _ \<Rightarrow> False) | _ \<Rightarrow> False) | _ \<Rightarrow> False" by code_simp
  then obtain c1 c2 where c1: "ngtcp2_conn_update_tx_keys c [] (replicate 12 0) = Ok (c1, None)"
    and c2: "ngtcp2_conn_set_remote_transport_params c1 NGTCP2_TRANSPORT_PARAMS_TYPE_NEW_SESSION_TICKET ready_params = (c2, None)"
    and ok: "sm_max_rx_offset (cn_strm c2 0) \<le> sm_unsent_max_rx_offset (cn_strm c2 0) \<and> sm_unsent_max_rx_offset (cn_strm c2 0) \<le> NGTCP2_MAX_VARINT \<and>
          cn_unsent_max_remote_stream_id_bidi c2 = 0 \<and> cn_unsent_max_remote_stream_id_uni c2 = 0 \<and> unacked c2 = 0 \<and>
          cn_last_tx_pkt_num c2 \<noteq> UINT64_MAX \<and> sm_flags (cn_strm c2 0) = 0 \<and> sm_tx_offset (cn_strm c2 0) = 0 \<and> sm_max_tx_offset (cn_strm c2 0) = 100 \<and>
          cn_tx_offset c2 = 0 \<and> cn_max_tx_offset c2 = 100 \<and> cn_aead_overhead c2 = 0 \<and> cn_tx_ckm c2 = Some sample_km"
    unfolding c(1) by (auto split: result.splits prod.splits option.splits)
  have "live c1 = live c" "cn_callbacks c1 = cn_callbacks c"
    using c1 by (auto simp: ngtcp2_conn_update_tx_keys_def set_keys_def ret_if_def live_def fun_eq_iff Let_def rbind_Ok_iff
        split: prod.splits if_splits result.splits)
  moreover have "live c2 = live c1" "cn_callbacks c2 = cn_callbacks c1"
    using c2 by (auto simp: ngtcp2_conn_set_remote_transport_params_def Let_def live_def fun_eq_iff upd_strm_def split: if_splits option.splits)
  ultimately have same: "live c2 = live c" "cn_callbacks c2 = recording_callbacks (\<lambda>_ _. 65)" using cbs by simp_all
  have "conn_reach (\<lambda>a. a) (\<lambda>_ _. 65) c2" by (rule conn_reach.params [OF conn_reach.tx_keys [OF c(2) c1] c2])
  moreover have "may_write c2 (replicate 60 0)" using c(3) ok same(1) by (simp add: may_write_def windows_ok_def small_id_def)
  moreover have "can_send c2 0 [1, 2, 3] (replicate 60 0)" using c(3) ok same by (simp add: can_send_def calls_succeed_def recording_callbacks_def)
  moreover have "aead_ok (protected_ctx c2 (Some sample_km)) (\<lambda>ct key nonce ad. Some ct)"
    using ok same(2) by (simp add: aead_ok_def protected_ctx_def pkt_ctx_def recording_callbacks_def)
  moreover have "\<exists>flags type cid. stream_pkt_key c2 = Inr (flags, type, cid, sample_km)" using ok by (simp add: stream_pkt_key_def)
  moreover have "cn_tx_ckm c2 = Some sample_km" using ok by simp
  ultimately show ?thesis by blast
qed

text \<open>
  C10. A connection that may send does send. In every reachable state, when the stream is open for writing, its offset and
  identifier can be encoded, the destination has room for a header, the frame and the tag of the cipher, and the limits of flow control leave
  something of the data, a call of \<^verbatim>\<open>ngtcp2_conn_write_stream\<close> returns a packet: no error, no fault, and at least one byte
  of the data is taken if there are any.
\<close>

theorem stream_write_progress:
  assumes "conn_reach got S conn" and "may_write conn dest" and "can_send conn sid data dest"
    and "stream_pkt_key conn = Inr (flags, type, cid, ckm)" and "8 \<le> length (km_iv ckm)" "length (km_iv ckm) \<le> 32"
    and "aead_ok (protected_ctx conn (Some ckm)) dec"
  shows "\<exists>conn' n pkt. ngtcp2_conn_write_stream conn dest sid fin data ts = Ok ((conn', Some n), Inr pkt) \<and>
    n \<le> length data \<and> (data \<noteq> [] \<longrightarrow> 0 < n) \<and> conn_reach got S conn'"
proof -
  have "tx_inv (rx_keys_of conn) got S (unacked conn) conn" and "unacked conn + length dest < 2 ^ 64"
    using conn_reach_inv [OF assms(1)] assms(2) by (simp_all add: tx_inv_def may_write_def)
  from write_stream_total [OF this(1) assms(3) this(2) assms(4,7,5,6), of fin ts] show ?thesis
    using conn_reach.write_stream [OF assms(1,2)] by blast
qed

theorem stream_write_progress_witness:
  "\<exists>conn conn' :: (u64 \<Rightarrow> bytes) ngtcp2_conn. \<exists>n pkt. conn_reach (\<lambda>a. a) (\<lambda>_ _. 65) conn \<and>
     ngtcp2_conn_write_stream conn (replicate 60 0) 0 True [1, 2, 3] 7 = Ok ((conn', Some n), Inr pkt) \<and> n \<le> 3 \<and> 0 < n"
proof -
  obtain conn :: "(u64 \<Rightarrow> bytes) ngtcp2_conn" and flags type cid where conn: "conn_reach (\<lambda>a. a) (\<lambda>_ _. 65) conn" "may_write conn (replicate 60 0)"
      "can_send conn 0 [1, 2, 3] (replicate 60 0)" "stream_pkt_key conn = Inr (flags, type, cid, sample_km)"
      "aead_ok (protected_ctx conn (Some sample_km)) (\<lambda>ct key nonce ad. Some ct)"
    using ready_client by blast
  have "8 \<le> length (km_iv sample_km)" "length (km_iv sample_km) \<le> 32" by (simp_all add: sample_km_def)
  from stream_write_progress [OF conn(1,2,3,4) this conn(5), of True 7] show ?thesis using conn(1) by auto
qed

section \<open>The account of what is in flight\<close>

abbreviation sent_len :: "ngtcp2_lib_error + bytes \<Rightarrow> nat" where
  "sent_len r \<equiv> (case r of Inl e \<Rightarrow> 0 | Inr pkt \<Rightarrow> length pkt)"

text \<open>The key for sending, and a destination with room for a header and a tag.\<close>

definition tx_ready :: "'a ngtcp2_conn \<Rightarrow> bytes \<Rightarrow> ngtcp2_crypto_km \<Rightarrow> (bytes \<Rightarrow> bytes \<Rightarrow> bytes \<Rightarrow> bytes \<Rightarrow> bytes option) \<Rightarrow> bool" where
  "tx_ready conn dest km dec \<longleftrightarrow> cn_tx_ckm conn = Some km \<and> 8 \<le> length (km_iv km) \<and> length (km_iv km) \<le> 32 \<and>
     aead_ok (protected_ctx conn (Some km)) dec \<and> 17 + cn_aead_overhead conn \<le> length dest \<and> length dest \<le> 16384"

lemma stream_pkt_track_exact:
  assumes inv: "tx_inv K got S B conn" and len: "unacked conn + unat (re_pktlen ent) < 2 ^ 64"
  shows "\<exists>c. stream_pkt_track conn type ent = Ok (c, None) \<and> unacked c = unacked conn + unat (re_pktlen ent)"
proof -
  obtain c rv where c: "conn_rtb_add conn (new_addr (rtb_head (cn_rtb conn))) ent = Ok (c, rv)"
    by (cases "conn_rtb_add conn (new_addr (rtb_head (cn_rtb conn))) ent") (auto simp: conn_rtb_add_def Let_def split: prod.splits)
  have "unat (rtb_bytes_in_flight (cn_rtb conn)) + unat (re_pktlen ent) < 2 ^ 64" using len by (simp add: unacked_def)
  from keepsD [OF tx_rtb_add [OF inv new_addr_fresh this] c] have "rv = None" "unacked c = unacked conn + unat (re_pktlen ent)"
    by (auto simp: unacked_def)
  then show ?thesis using c by (auto simp: stream_pkt_track_def conn_track_def c_assert_def unacked_def)
qed

lemma begins:
  assumes ready: "tx_ready conn dest km dec" and key: "hd_encodable hdr"
  obtains ppe hdb where "pkt_begin dest (protected_ctx conn (Some km)) hdr = Ok ppe" and "ppe_holds ppe (length dest) hdb []"
    and "ppe_ctx ppe = protected_ctx conn (Some km)"
  using ppe_encode_hd_ok [OF key, of "protected_ctx conn (Some km)" dest "[]"] ready
  by (auto simp: pkt_begin_def protected_ctx_fields tx_ready_def)

lemma finals:
  assumes ready: "tx_ready conn dest km dec" and ppe: "ppe_holds ppe (length dest) hdb bs" "ppe_ctx ppe = protected_ctx conn (Some km)"
  obtains pkt where "pkt_final (Some km) ppe = Ok pkt" and "length pkt \<le> length dest"
proof -
  have iv: "8 \<le> length (km_iv km)" "length (km_iv km) \<le> 32" and aead: "aead_ok (protected_ctx conn (Some km)) dec"
    using ready by (simp_all add: tx_ready_def)
  obtain nonce where nonce: "ngtcp2_crypto_create_nonce (km_iv km) (ppe_pkt_num ppe) = Ok nonce" using iv(1) by (simp add: ngtcp2_crypto_create_nonce_def)
  from ppe_final_ok [OF ppe(1), of dec nonce] obtain ppe2 ct where "ngtcp2_ppe_final ppe = Ok (ppe2, hdb @ ct)" "length (hdb @ ct) \<le> length dest"
    using aead nonce iv(2) by (auto simp: ppe(2) protected_ctx_fields)
  then show ?thesis using that [of "hdb @ ct"] by (simp add: pkt_final_def c_assert_def)
qed

lemma calls_return:
  "\<exists>a rv. conn_call_send_pkt c hdr = (c\<lparr>cn_app := a\<rparr>, rv)" "\<exists>a rv. conn_call_send_frame c hdr fr = (c\<lparr>cn_app := a\<rparr>, rv)"
proof -
  have same: "\<exists>a. c = c\<lparr>cn_app := a\<rparr>" by (intro exI [of _ "cn_app c"]) simp
  show "\<exists>a rv. conn_call_send_pkt c hdr = (c\<lparr>cn_app := a\<rparr>, rv)" "\<exists>a rv. conn_call_send_frame c hdr fr = (c\<lparr>cn_app := a\<rparr>, rv)"
    using same by (auto simp: conn_call_send_pkt_def conn_call_send_frame_def call_cb_def split: option.split prod.split)
qed

text \<open>The frame is encoded, or there is no room for it.\<close>

lemma encodes_frame:
  assumes "ppe_holds ppe outlen hdb pl" and "ppe_ctx ppe = ctx" and "frame_ok fr" and "\<not> is_padding fr"
  obtains ppe' bs where "ngtcp2_ppe_encode_frame ppe fr = Ok (ppe', sent fr)" and "ppe_holds ppe' outlen hdb bs" and "ppe_ctx ppe' = ctx"
  | "ngtcp2_ppe_encode_frame ppe fr = Err NGTCP2_ERR_NOBUF"
  using ppe_encode_frame_ok [OF assms(1,3,4)] assms(2) by (metis (no_types))

lemma single_frame_returns:
  assumes ready: "tx_ready conn dest km dec" and fr: "frame_ok fr" "\<not> is_padding fr" "\<forall>ack. sent fr \<noteq> FR_ACK ack"
  shows "\<exists>c r. conn_write_single_frame_pkt conn dest fr = Ok (c, r) \<and> unacked c = unacked conn"
proof -
  let ?hdr = "conn_pkt_hd conn NGTCP2_PKT_FLAG_NONE (conn_select_pkt_type conn (cn_last_tx_pkt_num conn + 1)) (cn_conn_id conn)"
  have km: "cn_tx_ckm conn = Some km" using ready by (simp add: tx_ready_def)
  have "hd_encodable ?hdr" by (auto simp: conn_pkt_hd_def ngtcp2_pkt_hd_init_def hd_encodable_def conn_select_pkt_type_def Let_def)
  with ready obtain ppe hdb where b: "pkt_begin dest (protected_ctx conn (Some km)) ?hdr = Ok ppe" "ppe_holds ppe (length dest) hdb []"
      "ppe_ctx ppe = protected_ctx conn (Some km)" by (rule begins)
  obtain a rv where a: "conn_call_send_pkt conn ?hdr = (conn\<lparr>cn_app := a\<rparr>, rv)" using calls_return(1) by fast
  obtain d rv' where d: "conn_call_send_frame (conn\<lparr>cn_app := a\<rparr>) ?hdr (sent fr) = (conn\<lparr>cn_app := d\<rparr>, rv')"
    using calls_return(2) [of "conn\<lparr>cn_app := a\<rparr>" ?hdr "sent fr"] by auto
  from b(2,3) fr(1,2) show ?thesis
  proof (cases rule: encodes_frame)
    case (1 ppe' bs)
    obtain pkt where "pkt_final (Some km) ppe' = Ok pkt" using finals [OF ready 1(2,3)] by blast
    then show ?thesis using b(1) a d 1(1) fr(3)
      by (auto simp: conn_write_single_frame_pkt_def encode_and_call_def then_write_def on_ok_def km inc_tx_pkt_num_def split: option.split ngtcp2_frame.split)
  next
    case 2
    then show ?thesis using b(1) a by (auto simp: conn_write_single_frame_pkt_def encode_and_call_def then_write_def on_ok_def km split: option.split)
  qed
qed

lemma closes_return:
  assumes "tx_ready conn dest km dec"
  shows "\<exists>c r. ngtcp2_conn_write_connection_close conn dest e = Ok (c, r) \<and> unacked c = unacked conn"
    and "\<exists>c r. ngtcp2_conn_write_application_close conn dest e = Ok (c, r) \<and> unacked c = unacked conn"
  using single_frame_returns [OF assms, of "FR_CONNECTION_CLOSE \<lparr>cc_error_code = e, cc_reason = []\<rparr>"]
    single_frame_returns [OF assms, of "FR_APPLICATION_CLOSE \<lparr>cc_error_code = e, cc_reason = []\<rparr>"]
  by (auto simp: ngtcp2_conn_write_connection_close_def ngtcp2_conn_write_application_close_def enter_state_def is_padding_def
      split: sum.split list.split)

lemma write_stream_pkt_returns:
  assumes inv: "tx_inv K got S B conn" and ready: "tx_ready conn dest km dec" and L: "unacked conn + length dest < 2 ^ 64"
    and ppe: "ppe_holds ppe (length dest) hdb []" "ppe_ctx ppe = protected_ctx conn (Some km)"
    and fr: "vint sid" "vint (sm_tx_offset (cn_strm conn sid))" "unat n \<le> length dest"
  shows "\<exists>c m r. write_stream_pkt conn hdr type km ppe sid fin data n ts = Ok ((c, m), r) \<and> unacked c = unacked conn + sent_len r"
proof -
  have mem: "cn_mem conn = []" using inv by (simp add: tx_inv_def rx_inv_def)
  have m: "ngtcp2_mem_malloc [] = (True, [])" by simp
  let ?fr = "FR_STREAM \<lparr>st_flags = 0, st_fin = fin, st_stream_id = sid, st_offset = sm_tx_offset (cn_strm conn sid), st_data = take (unat n) data\<rparr>"
  obtain a rv where a: "conn_call_send_pkt conn hdr = (conn\<lparr>cn_app := a\<rparr>, rv)" using calls_return(1) by fast
  have c1: "conn\<lparr>cn_app := a, cn_mem := []\<rparr> = conn\<lparr>cn_app := a\<rparr>" using mem by simp
  obtain d rv' where d: "conn_call_send_frame (conn\<lparr>cn_app := a\<rparr>) hdr (sent ?fr) = (conn\<lparr>cn_app := d\<rparr>, rv')"
    using calls_return(2) [of "conn\<lparr>cn_app := a\<rparr>" hdr "sent ?fr"] by auto
  have "tx_inv K got S B (conn\<lparr>cn_app := a\<rparr>)" using tx_callbacks(1) [OF inv, of hdr] by (simp add: a)
  from tx_callbacks(2) [OF this, of hdr "sent ?fr"] have inv2: "tx_inv K got S B (conn\<lparr>cn_app := d\<rparr>)" unfolding d fst_conv .
  have ok: "frame_ok ?fr" "\<not> is_padding ?fr" using fr ready by (auto simp: is_padding_def tx_ready_def min_def)
  show ?thesis
  proof (cases rv)
    case (Some e)
    then show ?thesis by (simp add: write_stream_pkt_def a)
  next
    case None
    from ppe ok show ?thesis
    proof (cases rule: encodes_frame)
      case (1 ppe' bs)
      obtain pkt where pkt: "pkt_final (Some km) ppe' = Ok pkt" "length pkt \<le> length dest" using finals [OF ready 1(2,3)] by blast
      obtain ent where ent: "conn_rtb_entry_new (conn\<lparr>cn_app := d\<rparr>) hdr [sent ?fr] ts (ts + NGTCP2_PKT_DEADLINE_PERIOD) pkt NGTCP2_RTB_FLAG_NONE =
          (conn\<lparr>cn_app := d\<rparr>, Ok ent)" "re_pktlen ent = of_nat (length pkt)" using tx.entry_new [OF inv2] by metis
      have len: "unat (re_pktlen ent) = length pkt" using pkt(2) L unfolding ent(2) by (intro unat_of_nat_small) simp
      from stream_pkt_track_exact [OF inv2, of ent type] obtain c where c: "stream_pkt_track (conn\<lparr>cn_app := d\<rparr>) type ent = Ok (c, None)"
          "unacked c = unacked conn + length pkt"
        using L pkt(2) by (auto simp: len)
      show ?thesis
      proof (cases rv')
        case (Some e)
        then show ?thesis using 1(1) d by (simp add: write_stream_pkt_def a None with_malloc_def mem m c1 on_ok_def)
      next
        case n: None
        have "unacked (stream_pkt_sent c sid n' fin') = unacked c" for n' fin' by (simp add: stream_pkt_sent_def inc_tx_pkt_num_def Let_def)
        then show ?thesis using 1(1) d pkt(1) ent(1) c by (simp add: write_stream_pkt_def a None n with_malloc_def mem m c1 on_ok_def)
      qed
    next
      case 2
      then show ?thesis by (simp add: write_stream_pkt_def a None with_malloc_def mem m c1 on_ok_def)
    qed
  qed
qed

lemma write_stream_returns:
  assumes inv: "tx_inv K got S B conn" and ready: "tx_ready conn dest km dec" and L: "unacked conn + length dest < 2 ^ 64"
    and off: "vint (sm_tx_offset (cn_strm conn sid))"
  shows "\<exists>c m r. ngtcp2_conn_write_stream conn dest sid fin data ts = Ok ((c, m), r) \<and> unacked c = unacked conn + sent_len r"
proof -
  have rx: "rx_inv K got S conn" using inv by (simp add: tx_inv_def)
  have km: "cn_tx_ckm conn = Some km" using ready by (simp add: tx_ready_def)
  let ?type = "conn_select_pkt_type conn (cn_last_tx_pkt_num conn + 1)"
  let ?hdr = "conn_pkt_hd conn NGTCP2_PKT_FLAG_NONE ?type (cn_conn_id conn)"
  have "hd_encodable ?hdr" by (auto simp: conn_pkt_hd_def ngtcp2_pkt_hd_init_def hd_encodable_def conn_select_pkt_type_def Let_def)
  with ready obtain ppe hdb where b: "pkt_begin dest (protected_ctx conn (Some km)) ?hdr = Ok ppe" "ppe_holds ppe (length dest) hdb []"
      "ppe_ctx ppe = protected_ctx conn (Some km)" by (rule begins)
  let ?left = "ngtcp2_ppe_left ppe" and ?n = "stream_datalen conn sid (length data) (ngtcp2_ppe_left ppe - NGTCP2_STREAM_OVERHEAD)"
  have left: "?left \<le> length dest" using b(2) by (auto simp: ngtcp2_ppe_left_def ngtcp2_buf_left_def ppe_holds_def)
  have min: "unat (ngtcp2_min a b) = min (unat a) (unat b)" for a b by (auto simp: ngtcp2_min_def word_less_nat_alt)
  have "unat (of_nat (?left - NGTCP2_STREAM_OVERHEAD) :: u64) \<le> ?left - NGTCP2_STREAM_OVERHEAD" by (simp add: unat_of_nat)
  then have n: "unat ?n \<le> length dest" using left unfolding stream_datalen_def Let_def min by linarith
  have pkt: "\<exists>c m r. write_stream_pkt conn ?hdr ?type km ppe sid fin' data ?n ts = Ok ((c, m), r) \<and> unacked c = unacked conn + sent_len r"
    if "live conn sid" for fin'
  proof (rule write_stream_pkt_returns [OF inv ready L b(2,3) _ off n])
    show "vint sid" using rx that by (auto simp: rx_inv_def small_id_def word_less_nat_alt)
  qed
  have key: "stream_pkt_key conn = Inr (NGTCP2_PKT_FLAG_NONE, ?type, cn_conn_id conn, km)" by (simp add: stream_pkt_key_def km)
  show ?thesis using pkt b(1)
    by (auto simp: ngtcp2_conn_write_stream_def find_stream [OF rx] key Let_def on_ok_def)
qed

text \<open>
  What holds after a writer, which started with \<open>m\<close> bytes in flight: the invariant of the connection, so that the count of the bytes in flight is the sum of the
  lengths of the packets that are tracked; the windows can still be sent; the packet fits the destination.
\<close>

definition writer_ok :: "('a \<Rightarrow> u64 \<Rightarrow> bytes) \<Rightarrow> (u64 \<Rightarrow> u64 \<Rightarrow> u8) \<Rightarrow> rx_keys \<Rightarrow> bytes \<Rightarrow> 'a ngtcp2_conn \<Rightarrow> ngtcp2_lib_error + bytes \<Rightarrow> bool" where
  "writer_ok got S K dest c r \<longleftrightarrow> rx_inv K got S c \<and> windows_ok c \<and> sent_len r \<le> length dest"

lemma writer_okI: "wrote (length dest) (\<lambda>n s. tx_inv K got S (B n) (g s)) (s, r) \<Longrightarrow> writer_ok got S K dest (g s) r \<and> unacked (g s) \<le> B (sent_len r)"
  by (auto simp: wrote_def writer_ok_def tx_inv_def split: sum.splits)

text \<open>
  C5. The writers keep the invariant of the connection, and account for what they send. The packets may be written when the windows that the
  application extended can be sent and the count of bytes in flight has room (\<open>may_write\<close>). With a key for sending whose
  IV has 8 to 32 bytes and a destination of at least a header and a tag and at most 16384 bytes, and when the offset of the stream can be encoded, a call of
  \<^verbatim>\<open>ngtcp2_conn_write_stream\<close> and the two calls that close the connection return, a packet or an error, and never fault; the bytes in
  flight grow by exactly the length of the packet with stream data, and not at all by a close frame or an error. The two other writers may
  fault, see C37; when they return, the bytes in flight grow by at most twice the length of the packet, as a retransmitted
  part is counted for its own entry and for that of the lost packet. After all five the packet fits the destination and
  the invariant holds: the application was given the streams of the peer in order, and the bytes in flight are the lengths of the packets in the buffer of
  those to be retransmitted.
\<close>

theorem writers_account:
  assumes "rx_inv K got S conn" and "may_write conn dest"
  shows "(tx_ready conn dest km dec \<longrightarrow>
      (vint (sm_tx_offset (cn_strm conn sid)) \<longrightarrow>
        (\<exists>c m r. ngtcp2_conn_write_stream conn dest sid fin data ts = Ok ((c, m), r) \<and> writer_ok got S K dest c r \<and> unacked c = unacked conn + sent_len r)) \<and>
      (\<exists>c r. ngtcp2_conn_write_connection_close conn dest e = Ok (c, r) \<and> writer_ok got S K dest c r \<and> unacked c = unacked conn) \<and>
      (\<exists>c r. ngtcp2_conn_write_application_close conn dest e = Ok (c, r) \<and> writer_ok got S K dest c r \<and> unacked c = unacked conn)) \<and>
    (\<forall>c r. ngtcp2_conn_write_pkt conn dest ts = Ok (c, r) \<longrightarrow> writer_ok got S K dest c r \<and> unacked c \<le> unacked conn + 2 * sent_len r) \<and>
    (\<forall>c r. ngtcp2_conn_write_ack_pkt conn dest ts = Ok (c, r) \<longrightarrow> writer_ok got S K dest c r \<and> unacked c \<le> unacked conn + 2 * sent_len r)"
proof (intro conjI impI allI)
  note keep = writers_keep [OF assms, THEN keepsD, THEN writer_okI]
  have inv: "tx_inv K got S (unacked conn) conn" and L: "unacked conn + length dest < 2 ^ 64" using assms by (simp_all add: tx_inv_def may_write_def)
  show "\<exists>c m r. ngtcp2_conn_write_stream conn dest sid fin data ts = Ok ((c, m), r) \<and> writer_ok got S K dest c r \<and> unacked c = unacked conn + sent_len r"
    if "tx_ready conn dest km dec" "vint (sm_tx_offset (cn_strm conn sid))"
    using write_stream_returns [OF inv that(1) L that(2)] keep(3) by fastforce
  show "\<exists>c r. ngtcp2_conn_write_connection_close conn dest e = Ok (c, r) \<and> writer_ok got S K dest c r \<and> unacked c = unacked conn"
    if "tx_ready conn dest km dec"
    using closes_return(1) [OF that] keep(4) by fastforce
  show "\<exists>c r. ngtcp2_conn_write_application_close conn dest e = Ok (c, r) \<and> writer_ok got S K dest c r \<and> unacked c = unacked conn"
    if "tx_ready conn dest km dec"
    using closes_return(2) [OF that] keep(5) by fastforce
qed (use writers_keep [OF assms, THEN keepsD, THEN writer_okI] in fast)+

theorem writers_account_witness:
  "\<exists>conn c :: (u64 \<Rightarrow> bytes) ngtcp2_conn. \<exists>m pkt. conn_reach (\<lambda>a. a) (\<lambda>_ _. 65) conn \<and>
     ngtcp2_conn_write_stream conn (replicate 60 0) 0 True [1, 2, 3] 7 = Ok ((c, m), Inr pkt) \<and> rx_inv (rx_keys_of conn) (\<lambda>a. a) (\<lambda>_ _. 65) c \<and>
     unacked c = unacked conn + length pkt"
proof -
  obtain conn :: "(u64 \<Rightarrow> bytes) ngtcp2_conn" and flags type cid where conn: "conn_reach (\<lambda>a. a) (\<lambda>_ _. 65) conn" "may_write conn (replicate 60 0)"
      "can_send conn 0 [1, 2, 3] (replicate 60 0)" "stream_pkt_key conn = Inr (flags, type, cid, sample_km)"
      "aead_ok (protected_ctx conn (Some sample_km)) (\<lambda>ct key nonce ad. Some ct)" "cn_tx_ckm conn = Some sample_km"
    using ready_client by blast
  have ready: "tx_ready conn (replicate 60 0) sample_km (\<lambda>ct key nonce ad. Some ct)"
    using conn by (simp add: tx_ready_def can_send_def sample_km_def)
  have inv: "tx_inv (rx_keys_of conn) (\<lambda>a. a) (\<lambda>_ _. 65) (unacked conn) conn" "unacked conn + length (replicate 60 (0 :: u8)) < 2 ^ 64"
    using conn_reach_inv [OF conn(1)] conn(2) by (simp_all add: tx_inv_def may_write_def)
  have "\<exists>c n pkt. ngtcp2_conn_write_stream conn (replicate 60 0) 0 True [1, 2, 3] 7 = Ok ((c, Some n), Inr pkt)"
    using write_stream_total [OF inv(1) conn(3) inv(2) conn(4,5), of True 7] by (simp add: sample_km_def) blast
  then show ?thesis
    using writers_account [OF conn_reach_inv [OF conn(1)] conn(2), of sample_km _ 0 True "[1, 2, 3]" 7] ready conn(1,3)
    by (fastforce simp: can_send_def writer_ok_def)
qed

end
