(* ===== verification/Conn_Faults.thy ===== *)
theory Conn_Faults
  imports Conn_Send Conn_Packets
begin

text \<open>
  Packets that make \<^verbatim>\<open>ngtcp2_conn_recv\<close> fault: the exceptions that the properties of the receiving side name are necessary. Both are
  memory errors of the code. A Handshake packet that arrives after the handshake is decoded
  into a variable with room for one ACK block, and the callback for a Version Negotiation packet is given an array of 16 versions with
  the number of versions in the packet.
\<close>

section \<open>Callbacks that do not get in the way\<close>

definition recv_pkt_succeeds :: "'a ngtcp2_conn_callbacks \<Rightarrow> bool" where
  "recv_pkt_succeeds cbs \<longleftrightarrow> (\<forall>f hdr a. cb_recv_pkt cbs = Some f \<longrightarrow> \<not> snd (f hdr a))"

lemma recv_pkt_called:
  assumes "recv_pkt_succeeds (cn_callbacks conn)"
  shows "\<exists>a. conn_call_recv_pkt conn hdr = (conn\<lparr>cn_app := a\<rparr>, None)"
proof -
  have "\<exists>a. conn = conn\<lparr>cn_app := a\<rparr>" by (intro exI [of _ "cn_app conn"]) simp
  then show ?thesis
    using assms by (auto simp: recv_pkt_succeeds_def conn_call_recv_pkt_def call_cb_def split: option.split prod.split) (metis snd_conv)+
qed

lemma decrypt_buffer_grown:
  assumes "cn_mem conn = []"
  shows "\<exists>c. conn_ensure_decrypt_buffer conn n = Ok (c, None) \<and> cn_app c = cn_app conn"
  using assms by (auto simp: conn_ensure_decrypt_buffer_def ngtcp2_mem_realloc_def Let_def)

lemma decrypt_payload_faults:
  assumes "cn_mem conn = []" and "\<And>nonce a. \<exists>a'. decrypt (length payload) payload (km_key km) nonce ad a = (a', Inr pt)"
    and "\<And>c. good c pt = Fault"
  shows "decrypt_payload conn payload ad n (Some km) decrypt bad good = Fault"
proof -
  obtain c where c: "conn_ensure_decrypt_buffer conn (length payload) = Ok (c, None)" using decrypt_buffer_grown [OF assms(1)] by blast
  have "ngtcp2_crypto_create_nonce iv n \<noteq> Err e" for iv e by (auto simp: ngtcp2_crypto_create_nonce_def c_assert_def Let_def)
  moreover have "\<exists>a'. decrypt (length payload) payload (km_key km) nonce ad (cn_app c) = (a', Inr pt)" for nonce by (rule assms(2))
  ultimately show ?thesis
    using assms(3)
    by (cases "ngtcp2_crypto_create_nonce (km_iv km) n")
      (auto simp: decrypt_payload_def c then_ok_def conn_decrypt_pkt_def c_assert_def Let_def split: prod.split sum.split, (metis Pair_inject sum.distinct(1) sum.inject(2))+)
qed

lemma decoded_long:
  assumes "ngtcp2_pkt_decode_hd_long pkt = Ok (hdr, nread)"
  shows "pkt \<noteq> []" and "\<exists>b. rd_u8 pkt 0 = Ok b \<and> b AND NGTCP2_HEADER_FORM_BIT \<noteq> 0" and "hd_flags hdr = NGTCP2_PKT_FLAG_LONG_FORM" and "nread = 17"
  using assms by (auto simp: ngtcp2_pkt_decode_hd_long_def ret_if_def rbind_Ok_iff Let_def split: if_splits)

section \<open>Properties\<close>

text \<open>
  C38. A Handshake packet after the handshake, with an ACK frame of more than one block, is a write out of bounds. In every state in which the handshake
  is over, let a Handshake packet arrive with the version and the connection identifier of the connection, whose payload
  decrypts to one that begins with an ACK frame with at least two blocks. If the allocator and the callback for packets do not fail, \<^verbatim>\<open>ngtcp2_conn_recv\<close> faults:
  the frame is decoded into a variable of \<^verbatim>\<open>conn_recv_delayed_handshake_pkt\<close> that has room for one block.
\<close>

theorem delayed_handshake_ack_overflow:
  assumes state: "cn_state conn = NGTCP2_CS_POST_HANDSHAKE \<or> cn_state conn = NGTCP2_CS_CLIENT_HANDSHAKE_ALMOST_FINISHED"
    and hd: "ngtcp2_pkt_decode_hd_long pkt = Ok (hdr, nread)" "hd_type hdr = NGTCP2_PKT_HANDSHAKE" "hd_version hdr \<noteq> 0"
      "hd_version hdr = cn_version conn" "hd_conn_id hdr = cn_conn_id conn"
    and env: "cn_mem conn = []" "recv_pkt_succeeds (cn_callbacks conn)" "cn_hs_rx_ckm conn = Some km"
    and plain: "\<And>nonce a. \<exists>a'. cb_hs_decrypt (cn_callbacks conn) (length (drop nread pkt)) (drop nread pkt) (km_key km) nonce (take nread pkt) a = (a', Inr payload)"
    and ack: "ngtcp2_pkt_decode_frame payload = Ok (Some (FR_ACK fr), n)" "1 < length (ack_blks fr)"
  shows "ngtcp2_conn_recv index conn pkt ts = Fault"
proof -
  note long = decoded_long [OF hd(1)]
  let ?hdr = "hdr\<lparr>hd_pkt_num := ngtcp2_pkt_adjust_pkt_num (cn_max_rx_pkt_num conn) (hd_pkt_num hdr) 32\<rparr>"
  obtain a where a: "conn_call_recv_pkt conn ?hdr = (conn\<lparr>cn_app := a\<rparr>, None)" using recv_pkt_called [OF env(2)] by blast
  have "payload \<noteq> []" using ack(1) by (auto simp: ngtcp2_pkt_decode_frame_def)
  then have "frames_loop (delayed_handshake_frame ?hdr) payload (c, False) = Fault" for c :: "'a ngtcp2_conn"
    using ack by (subst frames_loop.simps) (simp add: delayed_handshake_frame_def fits_frame_def c_assert_def)
  then have "conn_recv_delayed_handshake_pkt (conn\<lparr>cn_app := a\<rparr>) ?hdr (drop nread pkt) (take nread pkt) ts = Fault"
    using hd(2,5) env(1,3) plain by (auto simp: conn_recv_delayed_handshake_pkt_def rbind_Fault_iff intro!: decrypt_payload_faults)
  then have "conn_recv_pkt_body conn pkt ts hdr nread = Fault" using hd(2) a long(3) by (simp add: conn_recv_pkt_body_def Let_def c_assert_def then_ok_def)
  then have "conn_recv_pkt conn pkt ts = Fault" using hd(1,3,4) long(2) by (auto simp: conn_recv_pkt_def)
  then show ?thesis using state long(1) by (auto simp: ngtcp2_conn_recv_def)
qed

theorem delayed_handshake_ack_overflow_witness:
  "ngtcp2_conn_recv (\<lambda>_. 0) (sample_conn\<lparr>cn_state := NGTCP2_CS_POST_HANDSHAKE, cn_conn_id := 1, cn_hs_rx_ckm := Some sample_km\<rparr>)
     [0xfd, 0, 0, 0, 0, 0, 0, 0, 1, 0xff, 0, 0, 8, 0, 0, 0, 1, 0x0e, 20, 0, 2, 1, 0, 1, 0, 1] 7 = Fault"
proof -
  let ?conn = "sample_conn\<lparr>cn_state := NGTCP2_CS_POST_HANDSHAKE, cn_conn_id := 1, cn_hs_rx_ckm := Some sample_km\<rparr>"
  let ?pkt = "[0xfd, 0, 0, 0, 0, 0, 0, 0, 1, 0xff, 0, 0, 8, 0, 0, 0, 1, 0x0e, 20, 0, 2, 1, 0, 1, 0, 1] :: bytes"
  have "case ngtcp2_pkt_decode_hd_long ?pkt of Ok (hdr, n) \<Rightarrow> n = 17 \<and> hd_type hdr = NGTCP2_PKT_HANDSHAKE \<and> hd_version hdr = NGTCP2_PROTO_VER_D8 \<and>
      hd_conn_id hdr = 1 | _ \<Rightarrow> False" by code_simp
  then obtain hdr where hd: "ngtcp2_pkt_decode_hd_long ?pkt = Ok (hdr, 17)" "hd_type hdr = NGTCP2_PKT_HANDSHAKE" "hd_version hdr = NGTCP2_PROTO_VER_D8"
      "hd_conn_id hdr = 1" by (auto split: result.splits)
  have "case ngtcp2_pkt_decode_frame (drop 17 ?pkt) of Ok (Some (FR_ACK fr), n) \<Rightarrow> length (ack_blks fr) = 2 | _ \<Rightarrow> False" by code_simp
  then obtain x n where x: "ngtcp2_pkt_decode_frame (drop 17 ?pkt) = Ok (Some x, n)" "case x of FR_ACK fr \<Rightarrow> length (ack_blks fr) = 2 | _ \<Rightarrow> False"
    by (auto split: result.splits option.splits)
  from x(2) obtain fr where "x = FR_ACK fr" and blks: "length (ack_blks fr) = 2" by (cases x) auto
  with x(1) have fr: "ngtcp2_pkt_decode_frame (drop 17 ?pkt) = Ok (Some (FR_ACK fr), n)" by simp
  have conn: "cn_version sample_conn = NGTCP2_PROTO_VER_D8 \<and> cn_mem sample_conn = []" by code_simp
  show ?thesis
    by (rule delayed_handshake_ack_overflow [OF _ hd(1,2) _ _ _ _ _ _ _ fr])
      (use hd blks conn in \<open>simp_all add: recv_pkt_succeeds_def sample_callbacks_eq sample_callbacks_def\<close>)
qed

text \<open>
  C40. A Version Negotiation packet with more than 16 versions is a read out of bounds. While a client waits for the
  handshake, let a Version Negotiation packet with its connection identifier and at least 17 versions arrive. If the allocator and
  the callback for packets do not fail, and the application has a callback for these packets, \<^verbatim>\<open>ngtcp2_conn_recv\<close> faults: the versions are decoded into
  a buffer on the heap, but the callback is given the local array of 16 versions with the number of versions in the packet.
\<close>

theorem version_negotiation_overread:
  assumes state: "cn_state conn = NGTCP2_CS_CLIENT_WAIT_HANDSHAKE" "\<not> cn_server conn"
    and hd: "ngtcp2_pkt_decode_hd_long pkt = Ok (hdr, nread)" "hd_version hdr = 0" "hd_conn_id hdr = cn_client_conn_id conn"
    and versions: "length (drop 13 pkt) = 4 * k" "16 < k"
    and env: "cn_mem conn = []" "recv_pkt_succeeds (cn_callbacks conn)" "cb_recv_version_negotiation (cn_callbacks conn) = Some f"
  shows "ngtcp2_conn_recv index conn pkt ts = Fault"
proof -
  note long = decoded_long [OF hd(1)]
  let ?hdr = "hdr\<lparr>hd_type := NGTCP2_PKT_VERSION_NEGOTIATION, hd_pkt_num := 0\<rparr>"
  obtain a where a: "conn_call_recv_pkt conn ?hdr = (conn\<lparr>cn_app := a\<rparr>, None)" using recv_pkt_called [OF env(2)] by blast
  have four: "length (drop 13 pkt) mod 4 = 0" using versions(1) by simp
  obtain vs where vs: "version_loop (drop 13 pkt) = Ok vs" using versions_loop_ok [OF four] by blast
  have big: "64 < length (drop 13 pkt)" using versions by linarith
  have "conn_on_version_negotiation c ?hdr (drop 13 pkt) = Fault" if "cn_mem c = []" "cn_callbacks c = cn_callbacks conn" for c
    using that env(3) four big unfolding conn_on_version_negotiation_def by (simp add: Let_def ngtcp2_pkt_decode_version_negotiation_def c_assert_def vs split: prod.split)
  then have "conn_recv_handshake_pkt index conn pkt ts = Fault"
    using hd state a long env(1) by (auto simp: conn_recv_handshake_pkt_def handshake_type_def Let_def then_ok_def)
  then show ?thesis using state long(1) by (simp add: ngtcp2_conn_recv_def recv_handshake_step_def)
qed

theorem version_negotiation_overread_witness:
  "ngtcp2_conn_recv (\<lambda>_. 0) (sample_conn\<lparr>cn_state := NGTCP2_CS_CLIENT_WAIT_HANDSHAKE,
       cn_callbacks := sample_callbacks\<lparr>cb_recv_version_negotiation := Some (\<lambda>_ _ a. (a, False))\<rparr>\<rparr>)
     ([0x80, 0, 0, 0, 0, 0, 0, 0, 1, 0, 0, 0, 0] @ replicate 68 1) 7 = Fault"
proof -
  let ?conn = "sample_conn\<lparr>cn_state := NGTCP2_CS_CLIENT_WAIT_HANDSHAKE,
       cn_callbacks := sample_callbacks\<lparr>cb_recv_version_negotiation := Some (\<lambda>_ _ a. (a, False))\<rparr>\<rparr>"
  let ?pkt = "[0x80, 0, 0, 0, 0, 0, 0, 0, 1, 0, 0, 0, 0] @ replicate 68 1 :: bytes"
  have "case ngtcp2_pkt_decode_hd_long ?pkt of Ok (hdr, n) \<Rightarrow> hd_version hdr = 0 \<and> hd_conn_id hdr = 1 | _ \<Rightarrow> False" by code_simp
  then obtain hdr n where hd: "ngtcp2_pkt_decode_hd_long ?pkt = Ok (hdr, n)" "hd_version hdr = 0" "hd_conn_id hdr = 1" by (auto split: result.splits)
  have conn: "cn_client_conn_id sample_conn = 1 \<and> \<not> cn_server sample_conn \<and> cn_mem sample_conn = []" by code_simp
  show ?thesis
    by (rule version_negotiation_overread [OF _ _ hd(1,2), where k = 17]) (use hd conn in \<open>simp_all add: recv_pkt_succeeds_def sample_callbacks_def\<close>)
qed

end
