(* ===== verification/Spec2Isabelle.thy ===== *)
theory Spec2Isabelle
  imports Err Frame_Codec Rob Conn_Ack Conn_Send Conn_Reach Conn_Progress Conn_Faults
begin

text \<open>
  A verification development for the QUIC library of Polygon, \<^verbatim>\<open>src/Polygon/lib\<close> (an early ngtcp2, draft 8 of
  QUIC with transport parameters of its own).

  \<^bold>\<open>The program.\<close> A connection (\<^verbatim>\<open>ngtcp2_conn\<close>) receives datagrams. The packet codec (\<^verbatim>\<open>ngtcp2_pkt\<close>) decodes
  headers and frames with the integer conversions of \<^verbatim>\<open>ngtcp2_conv\<close>; the payload is decrypted by a callback
  of the application under a nonce made by \<^verbatim>\<open>ngtcp2_crypto\<close>, which also holds the codec of the transport
  parameters. Received packet numbers go to the ACK tracker (\<^verbatim>\<open>ngtcp2_acktr\<close>, on a ring buffer \<^verbatim>\<open>ngtcp2_ringbuf\<close>
  of sent ACK frames), acknowledgements to it and to the retransmission buffer (\<^verbatim>\<open>ngtcp2_rtb\<close>, on the
  priority queue \<^verbatim>\<open>ngtcp2_pq\<close>). Streams (\<^verbatim>\<open>ngtcp2_strm\<close>) are kept in a hash table (\<^verbatim>\<open>ngtcp2_map\<close>); each has
  a reorder buffer for received data (\<^verbatim>\<open>ngtcp2_rob\<close>) and a gap tracker for acknowledged data
  (\<^verbatim>\<open>ngtcp2_gaptr\<close>); \<^verbatim>\<open>ngtcp2_idtr\<close> tracks the identifiers that the peer used. Packets are written with the
  encoder \<^verbatim>\<open>ngtcp2_ppe\<close>.

  \<^bold>\<open>How code is modelled.\<close> A struct is a record, an enum a datatype, an integer a word of its width. A function
  that can fail returns a \<open>result\<close> (\<open>Prelude\<close>): \<open>Ok\<close>, \<open>Err\<close> with an error code of the library, or \<open>Fault\<close> for
  a failed assertion, an access outside of an object or of its written part, a null pointer, or a loop that
  does not end. An operation that changes state returns the new state with its return code, of type
  \<open>rc\<close> (\<open>None\<close> is 0). The allocator is the list of the outcomes of the next allocations (\<open>ngtcp2_mem\<close>), so every
  path after a failed allocation is a branch of the model. Linked lists are lists; objects that are
  linked into several structures are identified by an address or by their key. The callbacks of the
  application are functions on a state \<open>'a\<close> of the application, an argument of the model.

  \<^bold>\<open>The theories.\<close>
  \<^item> \<open>Prelude\<close>: integer types, error codes, results, the allocator, lemmas on words and lists.
  \<^item> \<open>Err\<close>: \<^verbatim>\<open>ngtcp2_err.c\<close>. \<open>Conv\<close>: \<^verbatim>\<open>ngtcp2_conv.c\<close>, \<^verbatim>\<open>ngtcp2_str.c\<close>; every reader inverts its writer.
  \<^item> \<open>Ranges\<close>: \<^verbatim>\<open>ngtcp2_range.c\<close>, gap lists as sets of offsets, and the interface \<open>offset_tracker\<close> of what
    tracks received or acknowledged offsets, interpreted by \<open>Gaptr\<close> (\<^verbatim>\<open>ngtcp2_gaptr.c\<close>) and \<open>Rob\<close>
    (\<^verbatim>\<open>ngtcp2_rob.c\<close>). \<open>Rob\<close> shows that data is reassembled from segments in any order. \<open>Idtr\<close>: \<^verbatim>\<open>ngtcp2_idtr.c\<close>.
  \<^item> \<open>Pkt_Header\<close>, \<open>Pkt_Frames\<close>: the codecs of \<^verbatim>\<open>ngtcp2_pkt.c\<close>. \<open>Frame_Decode\<close>: decoding arbitrary bytes is safe.
    \<open>Frame_Codec\<close>: the decoder inverts the encoder. \<open>Transport_Params\<close>: \<^verbatim>\<open>ngtcp2_crypto.c\<close>.
  \<^item> \<open>Ringbuf\<close>, \<open>Pq\<close>, \<open>Hashmap\<close>: \<^verbatim>\<open>ngtcp2_ringbuf.c\<close>, \<^verbatim>\<open>ngtcp2_pq.c\<close>, \<^verbatim>\<open>ngtcp2_map.c\<close> with the interfaces
    \<open>recent_buffer\<close>, \<open>priority_queue\<close> and \<open>keyed_store\<close>, refined to a list of recent elements, a
    multiset and a partial map.
  \<^item> \<open>Ack_Ranges\<close>: the packet numbers that an ACK frame acknowledges. \<open>Acktr\<close>: \<^verbatim>\<open>ngtcp2_acktr.c\<close>. \<open>Rtb\<close>: \<^verbatim>\<open>ngtcp2_rtb.c\<close>.
  \<^item> \<open>Strm\<close>: \<^verbatim>\<open>ngtcp2_strm.c\<close>, \<^verbatim>\<open>ngtcp2_buf.c\<close>. \<open>Ppe\<close>: \<^verbatim>\<open>ngtcp2_ppe.c\<close>; what it writes is what a receiver decodes.
  \<^item> \<open>Conn_State\<close>, \<open>Conn_Streams\<close>, \<open>Conn_Recv\<close>: \<^verbatim>\<open>ngtcp2_conn.c\<close>, the state and its simple operations, the
    streams and the handlers of the frames, and the receipt of packets. \<open>Conn_Write\<close>: the construction of ACK frames, the
    retransmission of lost packets, and the writers of packets with the entry points of the sending side.
  \<^item> \<open>Alloc\<close>: an allocator that does not fail at the start of an operation of the stream buffers does not fail in it.
  \<^item> \<open>Conn_Invariant\<close>: the invariant \<open>rx_inv\<close> of a connection. It relates the streams to what the application
    was given of them, and holds of the hash table, the identifier trackers, the ACK tracker and the
    retransmission buffer; its account \<open>data_counted\<close> says that the offset of the connection covers what was received of all streams but stream 0. \<open>returns\<close> is
    total correctness of a handler. \<open>Conn_Frames\<close>: every handler of a
    frame keeps it. \<open>Conn_Packets\<close>: the receipt of a packet keeps it, for the datagrams and the peers named below.
  \<^item> \<open>Conn_Ack\<close>: the ACK frames that are made report exactly the received packets. \<open>Conn_Write_Inv\<close>: the interfaces \<open>frame_writer\<close> and
    \<open>conn_writer\<close> of an invariant that the writers of packets keep, the lemma for each writer, and their interpretation on
    \<open>rx_inv\<close> together with the limits that can be sent and a bound of the bytes in flight. \<open>Conn_Send\<close>: what a receiver finds in
    the packets with stream data and in the retransmissions.
  \<^item> \<open>Conn_Reach\<close>: the states that a connection reaches from its creation, the properties of the receiving
    side in all of them, and an application for which the assumptions on the callbacks hold.
  \<^item> \<open>Conn_Progress\<close>: the retransmission loop ends, a connection that may send stream data sends some, and the writers keep \<open>rx_inv\<close> and count
    what they send.
  \<^item> \<open>Conn_Faults\<close>: two packets that make \<^verbatim>\<open>ngtcp2_conn_recv\<close> fault, which is why the properties of the receiving side exclude them.

  \<^bold>\<open>Assumptions of the properties of connections.\<close> The callbacks deliver: the application appends what it is given
  to what it has, and no other callback changes that. The decryption callback authenticates: what it
  accepts holds frames with the data of the streams \<open>S\<close> of the peer. The allocator does not fail, as the
  code asserts the success of one of its allocations (see the findings). Three restrictions are on what the peer sends. A datagram is no
  Retry packet, after which stream 0 starts anew, and lists at most 16 versions (\<open>datagram_ok\<close>). The peer puts at most one block in the ACK frames of its
  handshake packets (\<open>one_ack_block\<close>, an assumption on the payloads that the decryption callback of the handshake accepts): these are not guaranteed by any
  document, and \<open>Conn_Faults\<close> shows that the code faults without the last two. Packets are written (\<open>may_write\<close>) while the windows that the application extended are limits
  that can be sent, as the encoder of a frame asserts it, and while the 64-bit count of the bytes in flight has room.

  \<^bold>\<open>Bounds.\<close> Stream offsets are below \<open>2 ^ 62\<close>, as variable-length integers are. The local settings allow stream
  identifiers below \<open>2 ^ 28\<close>; so the hash table holds fewer than \<open>2 ^ 29\<close> streams and its table length, a 32-bit
  integer, can be doubled. \<open>emit_loop\<close>
  has as many rounds as there are bytes before the first gap, and one more; each round delivers at
  least one, and \<open>emit_loop_ok\<close> shows that it never runs out of them. \<open>frames_loop\<close> ends because a
  decoded frame takes at least one byte (\<open>frames_loop_ends\<close>). The loop of \<open>conn_retransmit\<close> takes an entry out of the
  queue in every round that it continues, so one round more than the queue is long is enough (\<open>retransmit_loop_ends\<close>).

  \<^bold>\<open>Not modelled.\<close> Callbacks that call back into the library; getters that return a field; destructors, as memory that is not reachable any more has no effect on the model;
  debugging output; the example applications, vendored parsers and tests.
\<close>

end
